(* ===== verification/Prelude.thy ===== *)
theory Prelude
  imports Complex_Main "HOL-Library.Word" "HOL-Library.List_Lexorder" "HOL-Library.Sublist"
begin

text \<open>
  What every component of the web client rests on: the values of JavaScript (strings as lists of
  UTF-16 code units, numbers as finite reals or one of the three non-finite values, plain objects
  as their own enumerable properties in enumeration order), the pieces of the standard library the
  sources call (truthiness, property access, code points, \<open>trim\<close>, decimal notation,
  \<open>toFixed\<close>), results of code that throws, and the list lemmas the components share.

  Numbers are exact: a finite double is a real number, and arithmetic on it is not rounded.
  The signed zeros are one value, which no code modelled here tells apart.
\<close>

named_theorems res_simps \<open>evaluation of results of code that throws\<close>

section \<open>Results\<close>

text \<open>Code that may throw returns \<open>Inl\<close> of the error or \<open>Inr\<close> of its value.
  \<open>bindr\<close> is "call, and let the exception through"; \<open>mapr\<close> is \<open>xs.map(f)\<close> for an \<open>f\<close>
  that may throw, which stops at the first element that throws.\<close>

definition bindr :: "'e + 'a \<Rightarrow> ('a \<Rightarrow> 'e + 'b) \<Rightarrow> 'e + 'b" where
  "bindr m f = (case m of Inl e \<Rightarrow> Inl e | Inr a \<Rightarrow> f a)"

definition throw_if :: "bool \<Rightarrow> 'e \<Rightarrow> 'e + 'a \<Rightarrow> 'e + 'a" where
  "throw_if b e m = (if b then Inl e else m)"

fun mapr :: "('a \<Rightarrow> 'e + 'b) \<Rightarrow> 'a list \<Rightarrow> 'e + 'b list" where
  "mapr f [] = Inr []"
| "mapr f (x # xs) = bindr (f x) (\<lambda>y. bindr (mapr f xs) (\<lambda>ys. Inr (y # ys)))"

text \<open>\<open>for (const x of xs) acc = step(acc, x)\<close> with a step that may throw.\<close>

fun foldr_err :: "('b \<Rightarrow> 'a \<Rightarrow> 'e + 'b) \<Rightarrow> 'b \<Rightarrow> 'a list \<Rightarrow> 'e + 'b" where
  "foldr_err f acc [] = Inr acc"
| "foldr_err f acc (x # xs) = bindr (f acc x) (\<lambda>acc'. foldr_err f acc' xs)"

definition is_ok :: "'e + 'a \<Rightarrow> bool" where
  "is_ok m = (case m of Inl _ \<Rightarrow> False | Inr _ \<Rightarrow> True)"

lemma bindr_simps [simp, res_simps]:
  "bindr (Inl e) f = Inl e"
  "bindr (Inr a) f = f a"
  by (simp_all add: bindr_def)

lemma throw_if_simps [simp, res_simps]:
  "throw_if True e m = Inl e"
  "throw_if False e m = m"
  by (simp_all add: throw_if_def)

lemma is_ok_simps [simp, res_simps]:
  "\<not> is_ok (Inl e)"
  "is_ok (Inr a)"
  by (simp_all add: is_ok_def)

lemma bindr_Inr_iff [res_simps]: "bindr m f = Inr b \<longleftrightarrow> (\<exists>a. m = Inr a \<and> f a = Inr b)"
  by (cases m) auto

lemma bindr_Inl_iff: "bindr m f = Inl e \<longleftrightarrow> m = Inl e \<or> (\<exists>a. m = Inr a \<and> f a = Inl e)"
  by (cases m) auto

lemma throw_if_Inr_iff [res_simps]: "throw_if b e m = Inr a \<longleftrightarrow> \<not> b \<and> m = Inr a"
  by (cases b) auto

lemma throw_if_Inl_iff: "throw_if b e m = Inl e' \<longleftrightarrow> b \<and> e = e' \<or> \<not> b \<and> m = Inl e'"
  by (cases b) auto

lemma bindr_assoc: "bindr (bindr m f) g = bindr m (\<lambda>a. bindr (f a) g)"
  by (cases m) auto

lemma is_ok_iff: "is_ok m \<longleftrightarrow> (\<exists>a. m = Inr a)"
  by (cases m) auto

lemma mapr_Inr_iff [res_simps]: "mapr f xs = Inr ys \<longleftrightarrow> list_all2 (\<lambda>x y. f x = Inr y) xs ys"
  by (induction xs arbitrary: ys) (auto simp: bindr_Inr_iff list_all2_Cons1)

lemma mapr_encode: "(\<And>y. y \<in> set ys \<Longrightarrow> f (enc y) = Inr y) \<Longrightarrow> mapr f (map enc ys) = Inr ys"
  by (induction ys) auto

lemma mapr_length: "mapr f xs = Inr ys \<Longrightarrow> length ys = length xs"
  by (auto simp: mapr_Inr_iff dest: list_all2_lengthD)

lemma mapr_set: "mapr f xs = Inr ys \<Longrightarrow> y \<in> set ys \<Longrightarrow> \<exists>x\<in>set xs. f x = Inr y"
  by (force simp: mapr_Inr_iff list_all2_conv_all_nth in_set_conv_nth)

lemma mapr_fails: "x \<in> set xs \<Longrightarrow> f x = Inl e \<Longrightarrow> \<not> is_ok (mapr f xs)"
  by (induction xs) (auto simp: is_ok_iff bindr_Inr_iff)

lemma foldr_err_append:
  "foldr_err f acc (xs @ ys) = bindr (foldr_err f acc xs) (\<lambda>acc'. foldr_err f acc' ys)"
  by (induction xs arbitrary: acc) (simp_all add: bindr_assoc)

section \<open>Lists\<close>

text \<open>\<open>[...new Set(xs)]\<close>: each value at its first occurrence.\<close>

fun uniq :: "'a list \<Rightarrow> 'a list" where
  "uniq [] = []"
| "uniq (x # xs) = x # filter (\<lambda>y. y \<noteq> x) (uniq xs)"

lemma set_uniq [simp]: "set (uniq xs) = set xs"
  by (induction xs) auto

lemma distinct_uniq [simp]: "distinct (uniq xs)"
  by (induction xs) auto

lemma uniq_distinct: "distinct xs \<Longrightarrow> uniq xs = xs"
  by (induction xs) (auto simp: filter_id_conv)

text \<open>In a list sorted by \<open>f\<close>, what ranks strictly lower stands earlier.\<close>

lemma sort_key_before:
  assumes "i < length xs" "b \<in> set xs" "f b < f (sort_key f xs ! i)"
  obtains j where "j < i" "sort_key f xs ! j = b"
proof -
  let ?ys = "sort_key f xs"
  obtain j where j: "j < length ?ys" "?ys ! j = b"
    using assms(2) by (metis in_set_conv_nth set_sort)
  have "j < i"
  proof (rule ccontr)
    assume "\<not> j < i"
    then have "map f ?ys ! i \<le> map f ?ys ! j"
      using j(1) by (intro sorted_nth_mono) auto
    with assms(1,3) j show False by simp
  qed
  with j show thesis using that by blast
qed

section \<open>Strings\<close>

text \<open>A string is its UTF-16 code units. \<open>lit\<close> gives the units of a literal of the source.
  \<open>a < b\<close> on strings, which the default \<open>sort()\<close> uses, compares unit by unit: the order of
  \<open>HOL-Library.List_Lexorder\<close> on lists of words.\<close>

type_synonym jstr = "16 word list"

definition lit :: "string \<Rightarrow> jstr" where
  "lit s = map (\<lambda>c. word_of_nat (of_char c)) s"

lemma length_lit [simp]: "length (lit s) = length s"
  by (simp add: lit_def)

lemma unat_lit_char: "unat (word_of_nat (of_char c) :: 16 word) = of_char c"
proof -
  have "(of_char c :: nat) < 256" by simp
  then have "(of_char c :: nat) < 65536" by linarith
  then show ?thesis by (simp add: unat_of_nat)
qed

lemma lit_inject [simp]: "lit s = lit t \<longleftrightarrow> s = t"
proof -
  have "inj (\<lambda>c. word_of_nat (of_char c) :: 16 word)"
    by (rule injI) (metis unat_lit_char of_char_eq_iff)
  then show ?thesis
    unfolding lit_def by (rule inj_map_eq_map)
qed

lemma lit_empty [simp]: "lit s = [] \<longleftrightarrow> s = []" "[] = lit s \<longleftrightarrow> s = []"
  by (auto simp: lit_def)

text \<open>\<open>[...s]\<close> walks the code points: a high surrogate followed by a low one is one point, any
  other unit stands for itself.\<close>

definition high_surrogate :: "16 word \<Rightarrow> bool" where
  "high_surrogate a \<longleftrightarrow> 0xD800 \<le> unat a \<and> unat a \<le> 0xDBFF"

definition low_surrogate :: "16 word \<Rightarrow> bool" where
  "low_surrogate a \<longleftrightarrow> 0xDC00 \<le> unat a \<and> unat a \<le> 0xDFFF"

fun codePoints :: "jstr \<Rightarrow> nat list" where
  "codePoints [] = []"
| "codePoints [a] = [unat a]"
| "codePoints (a # b # r) =
     (if high_surrogate a \<and> low_surrogate b
      then ((unat a - 0xD800) * 0x400 + (unat b - 0xDC00) + 0x10000) # codePoints r
      else unat a # codePoints (b # r))"

lemma codePoints_empty_iff [simp]: "codePoints s = [] \<longleftrightarrow> s = []"
  by (induction s rule: codePoints.induct) auto

lemma codePoints_length: "length (codePoints s) \<le> length s"
  by (induction s rule: codePoints.induct) auto

lemma codePoints_length_lower: "length s \<le> 2 * length (codePoints s)"
  by (induction s rule: codePoints.induct) auto

lemma codePoints_bound: "n \<in> set (codePoints s) \<Longrightarrow> n \<le> 0x10FFFF"
proof (induction s rule: codePoints.induct)
  case (2 a)
  then show ?case using unsigned_less [of a, where ?'a = nat] by simp
next
  case (3 a b r)
  then show ?case
    using unsigned_less [of a, where ?'a = nat] by (auto simp: high_surrogate_def low_surrogate_def split: if_splits)
qed simp

text \<open>\<open>xs.join(sep)\<close>.\<close>

fun join_with :: "jstr \<Rightarrow> jstr list \<Rightarrow> jstr" where
  "join_with sep [] = []"
| "join_with sep [x] = x"
| "join_with sep (x # y # xs) = x @ sep @ join_with sep (y # xs)"

text \<open>White space as \<open>trim\<close> and \<open>\s\<close> see it.\<close>

definition js_space :: "16 word \<Rightarrow> bool" where
  "js_space c \<longleftrightarrow> (let n = unat c in
     n \<in> {9, 10, 11, 12, 13, 32, 0xA0, 0x1680, 0x2028, 0x2029, 0x202F, 0x205F, 0x3000, 0xFEFF}
     \<or> (0x2000 \<le> n \<and> n \<le> 0x200A))"

definition trim :: "jstr \<Rightarrow> jstr" where
  "trim s = rev (dropWhile js_space (rev (dropWhile js_space s)))"

lemma trim_Nil [simp]: "trim [] = []"
  by (simp add: trim_def)

lemma trim_empty_iff: "trim s = [] \<longleftrightarrow> (\<forall>c\<in>set s. js_space c)"
proof -
  have "trim s = [] \<longleftrightarrow> (\<forall>c\<in>set (dropWhile js_space s). js_space c)"
    by (simp add: trim_def)
  also have "\<dots> \<longleftrightarrow> (\<forall>c\<in>set s. js_space c)"
    by (metis dropWhile_eq_Nil_conv hd_dropWhile hd_in_set set_dropWhileD)
  finally show ?thesis .
qed

lemma trim_hd: "trim s \<noteq> [] \<Longrightarrow> \<not> js_space (last (trim s))"
  unfolding trim_def by (metis hd_dropWhile last_rev rev_is_Nil_conv)

lemma dropWhile_same: "xs = [] \<or> \<not> P (hd xs) \<Longrightarrow> dropWhile P xs = xs"
  by (cases xs) auto

lemma dropWhile_last: "dropWhile P xs \<noteq> [] \<Longrightarrow> last (dropWhile P xs) = last xs"
  by (induction xs) auto

lemma hd_trim: "trim s \<noteq> [] \<Longrightarrow> \<not> js_space (hd (trim s))"
proof -
  assume ne: "trim s \<noteq> []"
  let ?l = "dropWhile js_space s"
  have d: "dropWhile js_space (rev ?l) \<noteq> []"
    using ne by (simp add: trim_def)
  then have l: "?l \<noteq> []" by (metis dropWhile.simps(1) rev.simps(1))
  have "hd (trim s) = hd ?l"
    using d l dropWhile_last [OF d] by (simp add: trim_def hd_rev last_rev)
  then show ?thesis using l hd_dropWhile by metis
qed

lemma trim_idem [simp]: "trim (trim s) = trim s"
proof (cases "trim s = []")
  case False
  then have "dropWhile js_space (trim s) = trim s"
    using hd_trim by (intro dropWhile_same) auto
  moreover have "dropWhile js_space (rev (trim s)) = rev (trim s)"
    using False trim_hd by (intro dropWhile_same) (auto simp: hd_rev)
  ultimately show ?thesis by (simp add: trim_def [of "trim s"])
qed simp

section \<open>Decimal notation\<close>

text \<open>\<open>String(n)\<close> of an integer. \<open>undigits\<close> reads the digits back; it is also what decides
  which keys of an object are array indices.\<close>

fun digits :: "nat \<Rightarrow> jstr" where
  "digits n = (if n < 10 then [word_of_nat (48 + n)]
               else digits (n div 10) @ [word_of_nat (48 + n mod 10)])"

declare digits.simps [simp del]

definition undigits :: "jstr \<Rightarrow> nat" where
  "undigits s = foldl (\<lambda>a c. 10 * a + (unat c - 48)) 0 s"

definition is_digit :: "16 word \<Rightarrow> bool" where
  "is_digit c \<longleftrightarrow> 48 \<le> unat c \<and> unat c \<le> 57"

definition int_str :: "int \<Rightarrow> jstr" where
  "int_str i = (if i < 0 then lit ''-'' @ digits (nat (- i)) else digits (nat i))"

lemma undigits_snoc: "undigits (s @ [c]) = 10 * undigits s + (unat c - 48)"
  by (simp add: undigits_def)

lemma unat_digit: "d < 10 \<Longrightarrow> unat (word_of_nat (48 + d) :: 16 word) = 48 + d"
  by (simp add: unat_word_ariths unat_of_nat)

lemma digits_digit: "c \<in> set (digits n) \<Longrightarrow> is_digit c"
proof (induction n rule: digits.induct)
  case (1 n)
  have "n mod 10 < 10" by simp
  then show ?case
    using 1 by (subst (asm) digits.simps)
      (auto simp: is_digit_def unat_digit simp del: of_nat_add split: if_splits)
qed

lemma undigits_digits [simp]: "undigits (digits n) = n"
proof (induction n rule: digits.induct)
  case (1 n)
  show ?case
  proof (cases "n < 10")
    case True
    then show ?thesis
      by (subst digits.simps) (simp add: undigits_def unat_digit del: of_nat_add)
  next
    case False
    then have "undigits (digits n) = 10 * (n div 10) + n mod 10"
      using 1 by (subst digits.simps)
        (simp add: undigits_snoc unat_digit del: of_nat_add)
    then show ?thesis by simp
  qed
qed

lemma digits_nonempty [simp]: "digits n \<noteq> []"
  by (subst digits.simps) simp

lemma digits_inj [simp]: "digits m = digits n \<longleftrightarrow> m = n"
  by (metis undigits_digits)

lemma minus_not_digit: "lit ''-'' @ s \<noteq> digits n"
proof
  assume "lit ''-'' @ s = digits n"
  then have "45 # s = digits n" by (simp add: lit_def)
  then have "45 \<in> set (digits n)" by (metis list.set_intros(1))
  then show False by (auto dest!: digits_digit simp: is_digit_def)
qed

lemma int_str_inj [simp]: "int_str i = int_str j \<longleftrightarrow> i = j"
  using minus_not_digit [of "digits (nat (- i))" "nat j"]
    minus_not_digit [of "digits (nat (- j))" "nat i"]
  by (auto simp: int_str_def split: if_splits)

text \<open>\<open>x.toFixed(d)\<close> for a finite \<open>x\<close>: the nearest multiple of \<open>10\<^sup>-\<^sup>d\<close>, the larger in
  magnitude of two equally near ones, written with exactly \<open>d\<close> decimals.\<close>

definition toFixed :: "nat \<Rightarrow> real \<Rightarrow> jstr" where
  "toFixed d x =
     (let n = nat \<lfloor>\<bar>x\<bar> * 10 ^ d + 1 / 2\<rfloor>;
          s = digits n;
          p = replicate (Suc d - length s) (word_of_nat 48) @ s;
          k = length p - d
      in (if x < 0 then lit ''-'' else []) @ take k p @ (if d = 0 then [] else lit ''.'' @ drop k p))"

section \<open>Values\<close>

datatype jsnum = Fin real | PosInf | NegInf | NaN

datatype js =
    JUndef
  | JNull
  | JBool bool
  | JNum jsnum
  | JStr jstr
  | JArr "js list"
  | JObj "(jstr \<times> js) list"

text \<open>Conditions: \<open>!v\<close> of the source is \<open>\<not> truthy v\<close>.\<close>

fun truthy :: "js \<Rightarrow> bool" where
  "truthy JUndef = False"
| "truthy JNull = False"
| "truthy (JBool b) = b"
| "truthy (JNum (Fin r)) = (r \<noteq> 0)"
| "truthy (JNum NaN) = False"
| "truthy (JNum _) = True"
| "truthy (JStr s) = (s \<noteq> [])"
| "truthy (JArr _) = True"
| "truthy (JObj _) = True"

text \<open>\<open>v.k\<close> for a key that no prototype of the values at hand defines. Reading a property of
  \<open>undefined\<close> or \<open>null\<close> throws; the callers test for that first (\<open>nullish\<close>).\<close>

fun nullish :: "js \<Rightarrow> bool" where
  "nullish JUndef = True"
| "nullish JNull = True"
| "nullish _ = False"

fun jget :: "js \<Rightarrow> string \<Rightarrow> js" where
  "jget (JObj ps) k = (case map_of ps (lit k) of Some v \<Rightarrow> v | None \<Rightarrow> JUndef)"
| "jget _ k = JUndef"

fun is_object :: "js \<Rightarrow> bool" where
  \<comment> \<open>\<open>typeof v==='object'\<close>, not \<open>null\<close> and not an array\<close>
  "is_object (JObj _) = True"
| "is_object _ = False"

fun entries_of :: "js \<Rightarrow> (jstr \<times> js) list" where
  "entries_of (JObj ps) = ps"
| "entries_of _ = []"

fun isFinite :: "js \<Rightarrow> bool" where
  "isFinite (JNum (Fin _)) = True"
| "isFinite _ = False"

fun num_of :: "js \<Rightarrow> real" where
  "num_of (JNum (Fin r)) = r"
| "num_of _ = 0"

definition isInt :: "real \<Rightarrow> bool" where
  "isInt r \<longleftrightarrow> of_int \<lfloor>r\<rfloor> = r"

fun isSafeInteger :: "js \<Rightarrow> bool" where
  "isSafeInteger (JNum (Fin r)) = (isInt r \<and> \<bar>r\<bar> \<le> 9007199254740991)"
| "isSafeInteger _ = False"

definition int_of :: "js \<Rightarrow> int" where
  "int_of v = \<lfloor>num_of v\<rfloor>"

definition jint :: "int \<Rightarrow> js" where
  "jint i = JNum (Fin (of_int i))"

lemma isInt_of_int [simp]: "isInt (of_int i)"
  by (simp add: isInt_def)

lemma jint_simps [simp]:
  "isFinite (jint i)"
  "num_of (jint i) = of_int i"
  "int_of (jint i) = i"
  "truthy (jint i) \<longleftrightarrow> i \<noteq> 0"
  "jint i = jint j \<longleftrightarrow> i = j"
  by (simp_all add: jint_def int_of_def)

lemma isSafeInteger_jint [simp]: "isSafeInteger (jint i) \<longleftrightarrow> \<bar>i\<bar> \<le> 9007199254740991"
proof -
  have "\<bar>real_of_int i\<bar> \<le> 9007199254740991 \<longleftrightarrow> \<bar>i\<bar> \<le> 9007199254740991"
    by (metis (no_types, opaque_lifting) of_int_abs of_int_le_numeral_iff)
  then show ?thesis by (simp add: jint_def)
qed

lemma isSafeInteger_cases:
  assumes "isSafeInteger v"
  obtains i where "v = jint i" "\<bar>i\<bar> \<le> 9007199254740991"
proof (cases v)
  case (JNum n)
  with assms obtain r where v: "v = JNum (Fin r)" "isInt r" "\<bar>r\<bar> \<le> 9007199254740991"
    by (cases n) auto
  then have r: "v = jint \<lfloor>r\<rfloor>" unfolding jint_def isInt_def by metis
  then show thesis using that assms isSafeInteger_jint by metis
qed (use assms in auto)

lemma isFinite_cases:
  assumes "isFinite v"
  obtains r where "v = JNum (Fin r)"
  using assms by (cases v rule: isFinite.cases) auto

section \<open>Objects\<close>

text \<open>An object built by assignment enumerates its array-index keys first, in numerical order,
  then its other keys in the order of their first assignment. \<open>key_rank\<close> is the place of a key
  in that order; \<open>obj_put\<close> is \<open>o[k] = v\<close>.\<close>

definition array_index :: "jstr \<Rightarrow> nat option" where
  "array_index k = (let n = undigits k
     in if k \<noteq> [] \<and> digits n = k \<and> n < 4294967295 then Some n else None)"

definition key_rank :: "jstr \<Rightarrow> nat" where
  "key_rank k = (case array_index k of Some n \<Rightarrow> n | None \<Rightarrow> 4294967295)"

fun obj_put :: "jstr \<Rightarrow> 'v \<Rightarrow> (jstr \<times> 'v) list \<Rightarrow> (jstr \<times> 'v) list" where
  "obj_put k v [] = [(k, v)]"
| "obj_put k v ((k', v') # ps) =
     (if k = k' then (k, v) # ps
      else if key_rank k < key_rank k' then (k, v) # (k', v') # ps
      else (k', v') # obj_put k v ps)"

definition obj_wf :: "(jstr \<times> 'v) list \<Rightarrow> bool" where
  "obj_wf ps \<longleftrightarrow> distinct (map fst ps) \<and> sorted (map (key_rank \<circ> fst) ps)"

definition has_own :: "(jstr \<times> 'v) list \<Rightarrow> jstr \<Rightarrow> bool" where
  "has_own ps k \<longleftrightarrow> k \<in> fst ` set ps"

definition from_entries :: "(jstr \<times> 'v) list \<Rightarrow> (jstr \<times> 'v) list" where
  "from_entries es = foldl (\<lambda>ps (k, v). obj_put k v ps) [] es"

lemma has_own_Nil [simp]: "\<not> has_own [] k"
  by (simp add: has_own_def)

lemma has_own_map_of: "has_own ps k \<longleftrightarrow> map_of ps k \<noteq> None"
  by (simp add: has_own_def map_of_eq_None_iff)

lemma obj_wf_Nil [simp]: "obj_wf []"
  by (simp add: obj_wf_def)

lemma obj_wf_ConsD: "obj_wf (p # ps) \<Longrightarrow> obj_wf ps"
  by (simp add: obj_wf_def)

lemma map_of_obj_put [simp]: "map_of (obj_put k v ps) = (map_of ps)(k \<mapsto> v)"
  by (induction k v ps rule: obj_put.induct) auto

lemma set_obj_put_subset: "set (obj_put k v ps) \<subseteq> insert (k, v) (set ps)"
  by (induction k v ps rule: obj_put.induct) auto

lemma keys_obj_put [simp]: "fst ` set (obj_put k v ps) = insert k (fst ` set ps)"
  by (induction k v ps rule: obj_put.induct) auto

lemma has_own_obj_put [simp]: "has_own (obj_put k v ps) k' \<longleftrightarrow> k' = k \<or> has_own ps k'"
  by (simp add: has_own_def)

lemma obj_wf_Cons:
  "obj_wf (p # ps) \<longleftrightarrow>
     fst p \<notin> fst ` set ps \<and> (\<forall>k\<in>fst ` set ps. key_rank (fst p) \<le> key_rank k) \<and> obj_wf ps"
  by (auto simp: obj_wf_def)

lemma obj_wf_put: "obj_wf ps \<Longrightarrow> obj_wf (obj_put k v ps)"
proof (induction k v ps rule: obj_put.induct)
  case (2 k v k' v' ps)
  have wf: "k' \<notin> fst ` set ps" "\<forall>a\<in>fst ` set ps. key_rank k' \<le> key_rank a" "obj_wf ps"
    using 2(2) by (simp_all add: obj_wf_Cons)
  consider "k = k'" | "k \<noteq> k'" "key_rank k < key_rank k'" | "k \<noteq> k'" "\<not> key_rank k < key_rank k'"
    by blast
  then show ?case
  proof cases
    case 1
    then show ?thesis using wf by (simp add: obj_wf_Cons)
  next
    case 2
    then have "k \<notin> fst ` set ps" "\<forall>a\<in>fst ` set ps. key_rank k \<le> key_rank a"
      using wf(2) by (auto simp: not_le[symmetric] dest: bspec intro: order_trans less_imp_le)
    with 2 show ?thesis using wf by (simp add: obj_wf_Cons)
  next
    case 3
    then have "obj_wf (obj_put k v ps)" using "2.IH" wf by blast
    then show ?thesis using 3 wf by (simp add: obj_wf_Cons del: image_iff)
  qed
qed (simp add: obj_wf_def)

lemma obj_put_new: "obj_wf (ps @ [(k, v)]) \<Longrightarrow> obj_put k v ps = ps @ [(k, v)]"
  by (induction ps) (auto simp: obj_wf_def sorted_append)

lemma obj_wf_prefix: "obj_wf (ps @ qs) \<Longrightarrow> obj_wf ps"
  by (auto simp: obj_wf_def sorted_append)

lemma from_entries_wf: "obj_wf ps \<Longrightarrow> from_entries ps = ps"
proof (induction ps rule: rev_induct)
  case (snoc p ps)
  then show ?case
    using obj_put_new [of ps "fst p" "snd p"] obj_wf_prefix [of ps "[p]"]
    by (simp add: from_entries_def case_prod_beta)
qed (simp add: from_entries_def)

lemma obj_wf_from_entries: "obj_wf (from_entries es)"
  unfolding from_entries_def
  by (induction es rule: rev_induct) (auto simp: obj_wf_put case_prod_beta)

lemma map_of_from_entries: "map_of (from_entries es) = map_of (rev es)"
  unfolding from_entries_def
  by (induction es rule: rev_induct) (auto simp: case_prod_beta)

section \<open>Lists updated by key\<close>

text \<open>The contract of an update that replaces the entry of the same key or appends a new one.\<close>

locale keyed_list =
  fixes key :: "'a \<Rightarrow> 'k" and put :: "'a \<Rightarrow> 'a list \<Rightarrow> 'a list"
  assumes keys_put: "map key (put x xs) = (if key x \<in> key ` set xs then map key xs else map key xs @ [key x])"
    and put_in: "x \<in> set (put x xs)"
    and put_sub: "y \<in> set (put x xs) \<Longrightarrow> y = x \<or> y \<in> set xs"
begin

lemma key_set_put: "key ` set (put x xs) = insert (key x) (key ` set xs)"
proof -
  have "set (map key (put x xs)) = insert (key x) (set (map key xs))"
    by (simp add: keys_put insert_absorb)
  then show ?thesis by simp
qed

lemma distinct_put: "distinct (map key xs) \<Longrightarrow> distinct (map key (put x xs))"
  by (simp add: keys_put)

lemma put_lookup:
  assumes "distinct (map key xs)"
  shows "y \<in> set (put x xs) \<longleftrightarrow> y = x \<or> (y \<in> set xs \<and> key y \<noteq> key x)"
proof -
  have inj: "inj_on key (set xs)" "inj_on key (set (put x xs))"
    using assms distinct_put distinct_map by blast+
  have "key y \<in> key ` set (put x xs)" if "y \<in> set xs" using that by (simp add: key_set_put)
  then show ?thesis
    using inj put_in [of x xs] put_sub [of _ x xs] by (smt (verit, best) imageE inj_onD)
qed

lemma fold_put_distinct: "distinct (map key xs) \<Longrightarrow> distinct (map key (fold put ps xs))"
  by (induction ps arbitrary: xs) (simp_all add: distinct_put)

lemma fold_put_keys: "key ` set (fold put ps xs) = key ` set ps \<union> key ` set xs"
  by (induction ps arbitrary: xs) (simp_all add: key_set_put)

lemma fold_put_sub: "set (fold put ps xs) \<subseteq> set ps \<union> set xs"
proof (induction ps arbitrary: xs)
  case (Cons p ps)
  then show ?case using put_sub by fastforce
qed simp

lemma fold_put_prefix: "\<exists>ks. map key (fold put ps xs) = map key xs @ ks"
proof (induction ps arbitrary: xs)
  case (Cons p ps)
  obtain ks where "map key (fold put ps (put p xs)) = map key (put p xs) @ ks" using Cons by blast
  then show ?case by (auto simp: keys_put)
qed simp

end

section \<open>Bounded histories\<close>

text \<open>The contract of a log that keeps its latest entries, up to a limit.\<close>

locale bounded_log =
  fixes cap :: nat and push :: "'a \<Rightarrow> 'a list \<Rightarrow> 'a list"
  assumes push_length: "length xs \<le> cap \<Longrightarrow> length (push x xs) \<le> cap"
    and push_last: "0 < cap \<Longrightarrow> push x xs \<noteq> [] \<and> last (push x xs) = x"
    and push_sub: "set (push x xs) \<subseteq> insert x (set xs)"
begin

lemma push_all: "P x \<Longrightarrow> \<forall>y\<in>set xs. P y \<Longrightarrow> \<forall>y\<in>set (push x xs). P y"
  using push_sub by fastforce

lemma fold_push_length: "length xs \<le> cap \<Longrightarrow> length (fold push ys xs) \<le> cap"
  by (induction ys arbitrary: xs) (simp_all add: push_length)

lemma fold_push_sub: "set (fold push ys xs) \<subseteq> set ys \<union> set xs"
proof (induction ys arbitrary: xs)
  case (Cons y ys)
  show ?case using Cons [of "push y xs"] push_sub [of y xs] by auto
qed simp

end

end
