(* ===== verification/OsmElement.thy ===== *)
theory OsmElement
  imports Prelude
begin

text \<open>
  Tags, relation members, elements and drafts of the OSM editing workspace, and the differences
  between two versions of an element (cmd/web/osm-editor.js, lines 4 to 92). A raw value is any
  JavaScript value; what \<open>element\<close> and \<open>validateDraft\<close> accept is a typed record.
\<close>

section \<open>Identifiers and text\<close>

definition validID :: "js \<Rightarrow> bool" where
  "validID n \<longleftrightarrow> isSafeInteger n \<and> 0 < num_of n"

definition refID :: "js \<Rightarrow> bool" where
  "refID n \<longleftrightarrow> isSafeInteger n \<and> num_of n \<noteq> 0"

definition xmlChar :: "nat \<Rightarrow> bool" where
  "xmlChar n \<longleftrightarrow> n = 9 \<or> n = 10 \<or> n = 13 \<or> (32 \<le> n \<and> n \<le> 0xD7FF)
     \<or> (0xE000 \<le> n \<and> n \<le> 0xFFFD) \<or> (0x10000 \<le> n \<and> n \<le> 0x10FFFF)"

definition xmlText :: "jstr \<Rightarrow> bool" where
  "xmlText s \<longleftrightarrow> list_all xmlChar (codePoints s)"

lemma xmlText_Nil [simp]: "xmlText []"
  by (simp add: xmlText_def)

text \<open>The three element types, and a value that \<open>Object.hasOwn(TYPE_RANK, v)\<close> accepts. The test
  converts \<open>v\<close> to a property key, so an array whose one element names a type passes it too; such a
  value is \<open>Boxed\<close>. It prints and ranks like the type it names and is \<open>===\<close> to none of them.\<close>

datatype otype = Node | Way | Relation

datatype tyval = Plain otype | Boxed otype

fun ty_of :: "tyval \<Rightarrow> otype" where
  "ty_of (Plain t) = t"
| "ty_of (Boxed t) = t"

fun type_word :: "otype \<Rightarrow> jstr" where
  "type_word Node = lit ''node''"
| "type_word Way = lit ''way''"
| "type_word Relation = lit ''relation''"

fun TYPE_RANK :: "otype \<Rightarrow> int" where
  "TYPE_RANK Node = 0"
| "TYPE_RANK Way = 1"
| "TYPE_RANK Relation = 2"

fun own_type :: "js \<Rightarrow> tyval option" where
  "own_type (JStr s) =
     (if s = lit ''node'' then Some (Plain Node)
      else if s = lit ''way'' then Some (Plain Way)
      else if s = lit ''relation'' then Some (Plain Relation)
      else None)"
| "own_type (JArr [v]) = map_option (\<lambda>t. Boxed (ty_of t)) (own_type v)"
| "own_type _ = None"

fun js_of_type :: "tyval \<Rightarrow> js" where
  "js_of_type (Plain t) = JStr (type_word t)"
| "js_of_type (Boxed t) = JArr [JStr (type_word t)]"

lemma own_type_js_of_type [simp]: "own_type (js_of_type t) = Some t"
  by (cases t rule: js_of_type.cases; cases "ty_of t") auto

text \<open>\<open>a === b\<close> on two type values that come from different objects: two arrays are never the
  same object.\<close>

definition type_same :: "tyval \<Rightarrow> tyval \<Rightarrow> bool" where
  "type_same a b \<longleftrightarrow> a = b \<and> a = Plain (ty_of a)"

section \<open>Tags, members and elements\<close>

datatype issue =
    UnknownNode int int            \<comment> \<open>way, node\<close>
  | UnknownMember int tyval int    \<comment> \<open>relation, member\<close>
  | NodeInUse int int              \<comment> \<open>deleted node, way\<close>
  | MemberInUse tyval int int      \<comment> \<open>deleted element, relation\<close>
  | FloatingNode int               \<comment> \<open>new untagged node no way or relation uses\<close>

datatype err =
    TooManyTags | TagsNotText | BadTag | DuplicateTag jstr
  | BadMember | BadRole
  | BadObject | BadTags | BadCoords | BadWayRefs | NoMemberList | TooManyMembers
  | TypeErr | NotStored | IdentityChanged | NeedsProperty
  | TooManyDrafts | DuplicateObject | Issues "issue list"
  | BadDraftFile | SyntaxErr
  | HttpErr int

type_synonym tag_map = "(jstr \<times> jstr) list"

definition tag_ok :: "jstr \<Rightarrow> jstr \<Rightarrow> bool" where
  "tag_ok k v \<longleftrightarrow> k \<noteq> [] \<and> length (codePoints k) \<le> 255 \<and> length (codePoints v) \<le> 255
     \<and> xmlText k \<and> xmlText v"

fun tag_step :: "tag_map \<Rightarrow> jstr \<times> js \<Rightarrow> err + tag_map" where
  "tag_step out (k, JStr v) =
     (if k = [] \<and> v = [] then Inr out
      else throw_if (\<not> tag_ok k v) BadTag
        (throw_if (has_own out k) (DuplicateTag k)
          (Inr (obj_put k v out))))"
| "tag_step out (k, _) = Inl TagsNotText"

definition tags :: "(jstr \<times> js) list \<Rightarrow> err + tag_map" where
  "tags entries = throw_if (200 < length entries) TooManyTags (foldr_err tag_step [] entries)"

record member =
  mtype :: tyval
  mref :: int
  mrole :: jstr

definition role_of :: "js \<Rightarrow> js" where
  "role_of raw = (if truthy (jget raw ''role'') then jget raw ''role'' else JStr [])"

definition member :: "js \<Rightarrow> err + member" where
  "member raw =
     (case own_type (jget raw ''type'') of
        None \<Rightarrow> Inl BadMember
      | Some t \<Rightarrow>
          throw_if (\<not> truthy raw \<or> \<not> refID (jget raw ''ref'')) BadMember
            (case role_of raw of
               JStr role \<Rightarrow>
                 throw_if (255 < length (codePoints role) \<or> \<not> xmlText role) BadRole
                   (Inr \<lparr>mtype = t, mref = int_of (jget raw ''ref''), mrole = role\<rparr>)
             | _ \<Rightarrow> Inl BadRole))"

datatype geom =
    NodeG real real          \<comment> \<open>\<open>lon\<close>, \<open>lat\<close>\<close>
  | WayG "int list"          \<comment> \<open>\<open>nodes\<close>\<close>
  | RelG "member list"       \<comment> \<open>\<open>members\<close>\<close>

record element =
  etype :: tyval
  eid :: int
  eversion :: "int option"
  etags :: tag_map
  egeom :: geom

fun nodes_of :: "geom \<Rightarrow> int list" where
  "nodes_of (WayG ns) = ns"
| "nodes_of _ = []"

fun members_of :: "geom \<Rightarrow> member list" where
  "members_of (RelG ms) = ms"
| "members_of _ = []"

definition raw_identity :: "js \<Rightarrow> bool \<Rightarrow> bool" where
  "raw_identity raw create \<longleftrightarrow>
     (if create then isSafeInteger (jget raw ''id'') \<and> num_of (jget raw ''id'') < 0
      else validID (jget raw ''id'') \<and> validID (jget raw ''version''))"

definition bad_tags :: "js \<Rightarrow> bool" where
  "bad_tags raw \<longleftrightarrow> jget raw ''tags'' \<noteq> JUndef \<and> \<not> is_object (jget raw ''tags'')"

definition node_geom :: "js \<Rightarrow> err + geom" where
  "node_geom raw =
     (let lon = jget raw ''lon''; lat = jget raw ''lat''
      in throw_if (\<not> isFinite lon \<or> \<not> isFinite lat \<or> 180 < \<bar>num_of lon\<bar> \<or> 90 < \<bar>num_of lat\<bar>)
           BadCoords (Inr (NodeG (num_of lon) (num_of lat))))"

definition way_geom :: "js \<Rightarrow> err + geom" where
  "way_geom raw =
     (case jget raw ''nodes'' of
        JArr ns \<Rightarrow> throw_if (length ns < 2 \<or> 2000 < length ns \<or> \<not> list_all refID ns) BadWayRefs
          (Inr (WayG (map int_of ns)))
      | _ \<Rightarrow> Inl BadWayRefs)"

definition relation_geom :: "js \<Rightarrow> err + geom" where
  "relation_geom raw =
     (case jget raw ''members'' of
        JArr ms \<Rightarrow> throw_if (300 < length ms) TooManyMembers
          (bindr (mapr member ms) (\<lambda>ms'. Inr (RelG ms')))
      | _ \<Rightarrow> Inl NoMemberList)"

definition raw_geom :: "tyval \<Rightarrow> js \<Rightarrow> err + geom" where
  "raw_geom t raw =
     (if t = Plain Node then node_geom raw
      else if t = Plain Way then way_geom raw
      else relation_geom raw)"

definition element :: "js \<Rightarrow> bool \<Rightarrow> err + element" where
  "element raw create =
     (case own_type (jget raw ''type'') of
        None \<Rightarrow> Inl BadObject
      | Some t \<Rightarrow>
          throw_if (\<not> truthy raw \<or> \<not> raw_identity raw create \<or> jget raw ''visible'' = JBool False)
            BadObject
            (throw_if (bad_tags raw) BadTags
              (bindr (tags (entries_of (jget raw ''tags''))) (\<lambda>ts.
                bindr (raw_geom t raw) (\<lambda>g.
                  Inr \<lparr>etype = t, eid = int_of (jget raw ''id''),
                       eversion = (if create then None else Some (int_of (jget raw ''version''))),
                       etags = ts, egeom = g\<rparr>)))))"

section \<open>What an accepted element looks like\<close>

definition safe_int :: "int \<Rightarrow> bool" where
  "safe_int i \<longleftrightarrow> \<bar>i\<bar> \<le> 9007199254740991"

definition wf_tags :: "tag_map \<Rightarrow> bool" where
  "wf_tags ts \<longleftrightarrow> length ts \<le> 200 \<and> obj_wf ts \<and> list_all (\<lambda>(k, v). tag_ok k v) ts"

definition wf_member :: "member \<Rightarrow> bool" where
  "wf_member m \<longleftrightarrow> safe_int (mref m) \<and> mref m \<noteq> 0 \<and> length (codePoints (mrole m)) \<le> 255
     \<and> xmlText (mrole m)"

fun wf_geom :: "tyval \<Rightarrow> geom \<Rightarrow> bool" where
  "wf_geom t (NodeG lon lat) \<longleftrightarrow> t = Plain Node \<and> \<bar>lon\<bar> \<le> 180 \<and> \<bar>lat\<bar> \<le> 90"
| "wf_geom t (WayG ns) \<longleftrightarrow> t = Plain Way \<and> 2 \<le> length ns \<and> length ns \<le> 2000
     \<and> list_all (\<lambda>i. safe_int i \<and> i \<noteq> 0) ns"
| "wf_geom t (RelG ms) \<longleftrightarrow> t \<noteq> Plain Node \<and> t \<noteq> Plain Way \<and> length ms \<le> 300
     \<and> list_all wf_member ms"

definition wf_identity :: "bool \<Rightarrow> element \<Rightarrow> bool" where
  "wf_identity create e \<longleftrightarrow> safe_int (eid e) \<and>
     (if create then eid e < 0 \<and> eversion e = None
      else 0 < eid e \<and> (\<exists>v. eversion e = Some v \<and> safe_int v \<and> 0 < v))"

definition wf_element :: "bool \<Rightarrow> element \<Rightarrow> bool" where
  "wf_element create e \<longleftrightarrow> wf_identity create e \<and> wf_tags (etags e) \<and> wf_geom (etype e) (egeom e)"

text \<open>The value an element is: what \<open>JSON.stringify\<close> would write and \<open>element\<close> read back.\<close>

definition js_of_tags :: "tag_map \<Rightarrow> js" where
  "js_of_tags ts = JObj (map (\<lambda>(k, v). (k, JStr v)) ts)"

definition js_of_member :: "member \<Rightarrow> js" where
  "js_of_member m = JObj [(lit ''type'', js_of_type (mtype m)), (lit ''ref'', jint (mref m)),
     (lit ''role'', JStr (mrole m))]"

fun js_of_geom :: "geom \<Rightarrow> (jstr \<times> js) list" where
  "js_of_geom (NodeG lon lat) =
     [(lit ''lon'', JNum (Fin lon)), (lit ''lat'', JNum (Fin lat))]"
| "js_of_geom (WayG ns) = [(lit ''nodes'', JArr (map jint ns))]"
| "js_of_geom (RelG ms) = [(lit ''members'', JArr (map js_of_member ms))]"

definition js_of_element :: "element \<Rightarrow> js" where
  "js_of_element e =
     JObj ([(lit ''type'', js_of_type (etype e)), (lit ''id'', jint (eid e))]
       @ (case eversion e of None \<Rightarrow> [] | Some v \<Rightarrow> [(lit ''version'', jint v)])
       @ [(lit ''tags'', js_of_tags (etags e))] @ js_of_geom (egeom e))"

lemma refID_cases:
  assumes "refID v"
  obtains i where "v = jint i" "safe_int i" "i \<noteq> 0"
  using assms by (auto simp: refID_def safe_int_def elim: isSafeInteger_cases)

lemma validID_cases:
  assumes "validID v"
  obtains i where "v = jint i" "safe_int i" "0 < i"
  using assms by (auto simp: validID_def safe_int_def elim: isSafeInteger_cases)

lemma refID_jint [simp]: "refID (jint i) \<longleftrightarrow> safe_int i \<and> i \<noteq> 0"
  by (simp add: refID_def safe_int_def)

lemma validID_jint [simp]: "validID (jint i) \<longleftrightarrow> safe_int i \<and> 0 < i"
  by (simp add: validID_def safe_int_def)

subsection \<open>Tags\<close>

lemma tag_step_InrE:
  assumes "tag_step out (k, v) = Inr out'"
  obtains "v = JStr []" "k = []" "out' = out"
  | s where "v = JStr s" "tag_ok k s" "\<not> has_own out k" "out' = obj_put k s out"
proof (cases v)
  case (JStr s)
  show thesis
  proof (cases "k = [] \<and> s = []")
    case True
    then show thesis using assms JStr that(1) by simp
  next
    case False
    then have "throw_if (\<not> tag_ok k s) BadTag (throw_if (has_own out k) (DuplicateTag k)
        (Inr (obj_put k s out))) = Inr out'"
      using assms JStr by (simp only: tag_step.simps if_False)
    then show thesis using JStr that(2) [of s] by (simp add: throw_if_Inr_iff)
  qed
qed (use assms in simp_all)

lemma length_obj_put: "length (obj_put k v ps) \<le> Suc (length ps)"
  by (induction k v ps rule: obj_put.induct) auto

lemma set_obj_put_new: "\<not> has_own ps k \<Longrightarrow> set (obj_put k v ps) = insert (k, v) (set ps)"
  by (induction k v ps rule: obj_put.induct) (auto simp: has_own_def)

lemma tag_loop:
  assumes "foldr_err tag_step out es = Inr ts" "obj_wf out" "list_all (\<lambda>(k, v). tag_ok k v) out"
  shows "obj_wf ts \<and> list_all (\<lambda>(k, v). tag_ok k v) ts \<and> length ts \<le> length out + length es
     \<and> set ts = set out \<union> {(k, v). (k, JStr v) \<in> set es \<and> k \<noteq> []}"
  using assms
proof (induction es arbitrary: out)
  case Nil
  then show ?case by simp
next
  case (Cons p es)
  obtain k v where p: "p = (k, v)" by force
  with Cons.prems obtain out' where
    step: "tag_step out (k, v) = Inr out'" and rest: "foldr_err tag_step out' es = Inr ts"
    by (auto simp: bindr_Inr_iff)
  from step show ?case
  proof (cases rule: tag_step_InrE)
    case 1
    then show ?thesis using Cons.IH [OF rest] Cons.prems p by auto
  next
    case (2 s)
    have "list_all (\<lambda>(k, v). tag_ok k v) out'"
      using 2 Cons.prems(3) by (simp add: list_all_iff set_obj_put_new)
    moreover have "obj_wf out'" using 2 Cons.prems(2) by (simp add: obj_wf_put)
    moreover have "length out' \<le> Suc (length out)" using 2 length_obj_put by simp
    ultimately show ?thesis
      using Cons.IH [OF rest] 2 p by (auto simp: set_obj_put_new tag_ok_def)
  qed
qed

lemma tags_sound:
  "tags es = Inr ts \<Longrightarrow> wf_tags ts \<and> set ts = {(k, v). (k, JStr v) \<in> set es \<and> k \<noteq> []}"
  using tag_loop [of "[]" es ts] by (auto simp: tags_def throw_if_Inr_iff wf_tags_def)

lemma tag_loop_encoded:
  assumes "obj_wf (out @ ts)" "list_all (\<lambda>(k, v). tag_ok k v) ts"
  shows "foldr_err tag_step out (map (\<lambda>(k, v). (k, JStr v)) ts) = Inr (out @ ts)"
  using assms
proof (induction ts arbitrary: out)
  case (Cons p ts)
  obtain k v where p: "p = (k, v)" by force
  have "\<not> has_own out k" using Cons.prems(1) p by (auto simp: obj_wf_def has_own_def)
  moreover have "obj_put k v out = out @ [p]"
    using obj_put_new [of out k v] obj_wf_prefix [of "out @ [p]" ts] Cons.prems(1) p by simp
  moreover have "tag_ok k v" "k \<noteq> []" using Cons.prems(2) p by (auto simp: tag_ok_def)
  ultimately show ?case using Cons.IH [of "out @ [p]"] Cons.prems p by simp
qed simp

lemma tags_encoded: "wf_tags ts \<Longrightarrow> tags (entries_of (js_of_tags ts)) = Inr ts"
  using tag_loop_encoded [of "[]" ts] by (simp add: tags_def js_of_tags_def wf_tags_def)

subsection \<open>Members and geometries\<close>

lemma member_sound: "member raw = Inr m \<Longrightarrow> wf_member m"
  by (auto simp: member_def wf_member_def throw_if_Inr_iff safe_int_def
      split: option.splits js.splits elim!: refID_cases)

lemma member_encoded [simp]: "wf_member m \<Longrightarrow> member (js_of_member m) = Inr m"
  by (cases "mrole m = []") (simp_all add: member_def js_of_member_def role_of_def wf_member_def)

lemma node_geom_sound: "node_geom raw = Inr g \<Longrightarrow> wf_geom (Plain Node) g"
  by (auto simp: node_geom_def throw_if_Inr_iff Let_def)

lemma way_geom_sound: "way_geom raw = Inr g \<Longrightarrow> wf_geom (Plain Way) g"
  by (auto simp: way_geom_def throw_if_Inr_iff list_all_iff split: js.splits elim!: refID_cases)
     (metis jint_simps(3) refID_cases)+

lemma relation_geom_sound:
  "relation_geom raw = Inr g \<Longrightarrow> t \<noteq> Plain Node \<Longrightarrow> t \<noteq> Plain Way \<Longrightarrow> wf_geom t g"
  by (auto simp: relation_geom_def throw_if_Inr_iff bindr_Inr_iff list_all_iff
      split: js.splits) (auto simp: mapr_length dest: mapr_set member_sound)

lemma raw_geom_sound: "raw_geom t raw = Inr g \<Longrightarrow> wf_geom t g"
  by (auto simp: raw_geom_def node_geom_sound way_geom_sound relation_geom_sound split: if_splits)

lemma mapr_member_encoded: "list_all wf_member ms \<Longrightarrow> mapr member (map js_of_member ms) = Inr ms"
  by (rule mapr_encode) (simp add: list_all_iff)

lemma map_of_lit_skip [simp]:
  "k \<noteq> k' \<Longrightarrow> map_of ((lit k, v) # ps) (lit k') = map_of ps (lit k')"
  "map_of ((lit k, v) # ps) (lit k) = Some v"
  by simp_all

lemma js_of_element_get:
  "jget (js_of_element e) ''type'' = js_of_type (etype e)"
  "jget (js_of_element e) ''id'' = jint (eid e)"
  "jget (js_of_element e) ''version'' = (case eversion e of None \<Rightarrow> JUndef | Some v \<Rightarrow> jint v)"
  "jget (js_of_element e) ''tags'' = js_of_tags (etags e)"
  "jget (js_of_element e) ''visible'' = JUndef"
  "truthy (js_of_element e)"
  by (auto simp: js_of_element_def split: option.splits)
    (cases "egeom e"; simp)+

lemma js_of_element_get_geom:
  "egeom e = NodeG lon lat \<Longrightarrow> jget (js_of_element e) ''lon'' = JNum (Fin lon)"
  "egeom e = NodeG lon lat \<Longrightarrow> jget (js_of_element e) ''lat'' = JNum (Fin lat)"
  "egeom e = WayG ns \<Longrightarrow> jget (js_of_element e) ''nodes'' = JArr (map jint ns)"
  "egeom e = RelG ms \<Longrightarrow> jget (js_of_element e) ''members'' = JArr (map js_of_member ms)"
  by (auto simp: js_of_element_def split: option.splits)

lemma raw_geom_encoded:
  assumes "wf_geom (etype e) (egeom e)"
  shows "raw_geom (etype e) (js_of_element e) = Inr (egeom e)"
proof (cases "egeom e")
  case (NodeG lon lat)
  then show ?thesis
    using assms by (simp add: raw_geom_def node_geom_def js_of_element_get_geom)
next
  case (WayG ns)
  then show ?thesis
    using assms by (simp add: raw_geom_def way_geom_def js_of_element_get_geom list.pred_map comp_def)
next
  case (RelG ms)
  then show ?thesis
    using assms
    by (simp add: raw_geom_def relation_geom_def js_of_element_get_geom mapr_member_encoded)
qed

subsection \<open>Elements\<close>

lemma element_sound:
  assumes "element raw create = Inr e"
  shows "wf_element create e"
proof -
  from assms obtain t where t: "own_type (jget raw ''type'') = Some t"
    by (auto simp: element_def split: option.splits)
  with assms obtain ts g where id: "raw_identity raw create"
    and ts: "tags (entries_of (jget raw ''tags'')) = Inr ts" and g: "raw_geom t raw = Inr g"
    and e: "e = \<lparr>etype = t, eid = int_of (jget raw ''id''),
      eversion = (if create then None else Some (int_of (jget raw ''version''))),
      etags = ts, egeom = g\<rparr>"
    by (auto simp: element_def throw_if_Inr_iff bindr_Inr_iff)
  have "wf_identity create e"
  proof (cases create)
    case True
    with id have "isSafeInteger (jget raw ''id'')" "num_of (jget raw ''id'') < 0"
      by (simp_all add: raw_identity_def)
    then show ?thesis
      using True e by (auto simp: wf_identity_def safe_int_def elim!: isSafeInteger_cases)
  next
    case False
    with id have "validID (jget raw ''id'')" "validID (jget raw ''version'')"
      by (simp_all add: raw_identity_def)
    then show ?thesis
      using False e by (auto simp: wf_identity_def elim!: validID_cases)
  qed
  with tags_sound [OF ts] raw_geom_sound [OF g] e show ?thesis
    by (simp add: wf_element_def)
qed

lemma element_encoded:
  assumes "wf_element create e"
  shows "element (js_of_element e) create = Inr e"
proof -
  have id: "raw_identity (js_of_element e) create"
    using assms by (auto simp: wf_element_def wf_identity_def raw_identity_def js_of_element_get
        safe_int_def)
  have "\<not> bad_tags (js_of_element e)"
    by (simp add: bad_tags_def js_of_element_get js_of_tags_def)
  moreover have "tags (entries_of (js_of_tags (etags e))) = Inr (etags e)"
    using assms by (simp add: wf_element_def tags_encoded)
  moreover have "raw_geom (etype e) (js_of_element e) = Inr (egeom e)"
    using assms by (simp add: wf_element_def raw_geom_encoded)
  moreover have "eversion e = (if create then None else Some (int_of (jget (js_of_element e) ''version'')))"
    using assms by (auto simp: wf_element_def wf_identity_def js_of_element_get split: if_splits)
  ultimately show ?thesis
    using id by (simp add: element_def js_of_element_get)
qed

lemma element_accepts_iff: "(\<exists>raw. element raw create = Inr e) \<longleftrightarrow> wf_element create e"
  using element_sound element_encoded by blast

lemma js_of_element_inj:
  assumes "wf_element c e" "wf_element c e'" "js_of_element e = js_of_element e'"
  shows "e = e'"
  using assms element_encoded by (metis sum.inject(2))

section \<open>Differences between two versions\<close>

record change =
  ckey :: jstr
  cbefore :: "jstr option"
  cafter :: "jstr option"

definition changes :: "tag_map \<Rightarrow> tag_map \<Rightarrow> change list" where
  "changes before after =
     map (\<lambda>k. \<lparr>ckey = k, cbefore = map_of before k, cafter = map_of after k\<rparr>)
       (filter (\<lambda>k. map_of before k \<noteq> map_of after k)
         (sort (uniq (map fst before @ map fst after))))"

fun geom_change :: "geom \<Rightarrow> geom \<Rightarrow> change option" where
  "geom_change (NodeG lon lat) (NodeG lon' lat') =
     (if lat = lat' \<and> lon = lon' then None
      else Some \<lparr>ckey = lit ''_position'',
                 cbefore = Some (toFixed 5 lat @ lit '', '' @ toFixed 5 lon),
                 cafter = Some (toFixed 5 lat' @ lit '', '' @ toFixed 5 lon')\<rparr>)"
| "geom_change (WayG ns) (WayG ns') =
     (if ns = ns' then None
      else Some \<lparr>ckey = lit ''_geometry'',
                 cbefore = Some (int_str (int (length ns)) @ lit '' Punkte''),
                 cafter = Some (int_str (int (length ns')) @ lit '' Punkte'')\<rparr>)"
| "geom_change _ _ = None"

text \<open>The two versions of an element have geometries of the same kind (\<open>validateDraft\<close>), so the
  test of \<open>base.type\<close> is the constructor of the geometries.\<close>

definition geometryChange :: "element option \<Rightarrow> element \<Rightarrow> change option" where
  "geometryChange base v =
     (case base of None \<Rightarrow> None | Some b \<Rightarrow> geom_change (egeom b) (egeom v))"

definition elem_key :: "tyval \<Rightarrow> int \<Rightarrow> jstr" where
  "elem_key t i = type_word (ty_of t) @ lit ''/'' @ int_str i"

definition member_key :: "member \<Rightarrow> jstr" where
  "member_key m = elem_key (mtype m) (mref m)"

definition member_label :: "member \<Rightarrow> jstr" where
  "member_label m = member_key m @ (if mrole m = [] then [] else lit '' ('' @ mrole m @ lit '')'')"

definition role_text :: "member \<Rightarrow> jstr \<Rightarrow> jstr" where
  "role_text m role = member_key m @ lit '' Rolle '' @ [0x201E]
     @ (if role = [] then [0x2013] else role) @ [0x201C]"

definition member_change :: "jstr option \<Rightarrow> jstr option \<Rightarrow> change" where
  "member_change b a = \<lparr>ckey = lit ''_member'', cbefore = b, cafter = a\<rparr>"

definition memberChanges :: "element option \<Rightarrow> element \<Rightarrow> change list" where
  "memberChanges base v =
     (let before = (case base of None \<Rightarrow> [] | Some b \<Rightarrow> members_of (egeom b));
          after = members_of (egeom v);
          beforeKeys = map member_key before;
          afterKeys = map member_key after;
          out = map (\<lambda>m. member_change (Some (member_label m)) None)
                  (filter (\<lambda>m. member_key m \<notin> set afterKeys) before)
              @ map (\<lambda>m. member_change None (Some (member_label m)))
                  (filter (\<lambda>m. member_key m \<notin> set beforeKeys) after)
              @ concat (map (\<lambda>m.
                  case find (\<lambda>b. member_key b = member_key m) before of
                    None \<Rightarrow> []
                  | Some prior \<Rightarrow>
                      if mrole prior \<noteq> mrole m
                      then [member_change (Some (role_text m (mrole prior))) (Some (role_text m (mrole m)))]
                      else []) after)
      in if out = [] \<and> beforeKeys \<noteq> afterKeys
         then [member_change (Some (lit ''Reihenfolge'')) (Some (lit ''ge'' @ [0xE4] @ lit ''ndert''))]
         else out)"

definition elementUnchanged :: "element \<Rightarrow> element \<Rightarrow> bool" where
  "elementUnchanged base v =
     (if changes (etags base) (etags v) \<noteq> [] then False
      else if etype v = Plain Relation then memberChanges (Some base) v = []
      else geometryChange (Some base) v = None)"

section \<open>Drafts\<close>

datatype draft =
    Deleted (dbase: element)
  | Draft (dorig: "element option") (dval: element) (dcenter: "(real \<times> real) option")

fun viewCenter :: "js \<Rightarrow> (real \<times> real) option" where
  "viewCenter (JArr [a, b]) =
     (if isFinite a \<and> isFinite b \<and> \<bar>num_of a\<bar> \<le> 180 \<and> \<bar>num_of b\<bar> \<le> 90
      then Some (num_of a, num_of b) else None)"
| "viewCenter _ = None"

definition has_property :: "tag_map \<Rightarrow> bool" where
  \<comment> \<open>\<open>Object.values(tags).some(v=>v.trim())\<close>\<close>
  "has_property ts \<longleftrightarrow> list_ex (\<lambda>(k, v). trim v \<noteq> []) ts"

definition same_identity :: "element \<Rightarrow> element \<Rightarrow> bool" where
  "same_identity b v \<longleftrightarrow> type_same (etype b) (etype v) \<and> eid b = eid v \<and> eversion b = eversion v"

definition validateDraft :: "js \<Rightarrow> err + draft" where
  "validateDraft d =
     (if nullish d then Inl TypeErr
      else if jget d ''deleted'' = JBool True then
        throw_if (\<not> truthy (jget d ''base'')) NotStored
          (bindr (element (jget d ''base'') False) (\<lambda>b. Inr (Deleted b)))
      else
        bindr (if truthy (jget d ''base'')
               then bindr (element (jget d ''base'') False) (\<lambda>b. Inr (Some b))
               else Inr None) (\<lambda>base.
        bindr (element (jget d ''value'') (base = None)) (\<lambda>v.
          throw_if (case base of None \<Rightarrow> False | Some b \<Rightarrow> \<not> same_identity b v) IdentityChanged
            (throw_if (base = None \<and> etype v \<noteq> Plain Node \<and> \<not> has_property (etags v)) NeedsProperty
              (Inr (Draft base v (viewCenter (jget d ''center''))))))))"

fun live_values :: "draft list \<Rightarrow> element list" where
  \<comment> \<open>\<open>drafts.filter(d=>!d.deleted).map(d=>d.value)\<close>\<close>
  "live_values [] = []"
| "live_values (Deleted b # ds) = live_values ds"
| "live_values (Draft b v c # ds) = v # live_values ds"

fun base_of :: "draft \<Rightarrow> element option" where
  "base_of (Deleted b) = Some b"
| "base_of (Draft b v c) = b"

fun subject :: "draft \<Rightarrow> element" where
  \<comment> \<open>\<open>d.deleted?d.base:d.value\<close>\<close>
  "subject (Deleted b) = b"
| "subject (Draft b v c) = v"

definition keyOf :: "draft \<Rightarrow> jstr" where
  "keyOf d = elem_key (etype (subject d)) (eid (subject d))"

definition nextTempId :: "draft list \<Rightarrow> otype \<Rightarrow> int" where
  "nextTempId drafts t =
     foldr min (map eid (filter (\<lambda>v. etype v = Plain t \<and> eid v < 0) (live_values drafts))) 0 - 1"

subsection \<open>Keys\<close>

lemma elem_key_inj [simp]:
  "elem_key t i = elem_key t' i' \<longleftrightarrow> ty_of t = ty_of t' \<and> i = i'"
  by (cases "ty_of t"; cases "ty_of t'") (auto simp: elem_key_def lit_def)

lemma set_live_values: "v \<in> set (live_values ds) \<longleftrightarrow> (\<exists>b c. Draft b v c \<in> set ds)"
  by (induction ds rule: live_values.induct) auto

lemma live_values_append [simp]: "live_values (xs @ ys) = live_values xs @ live_values ys"
  by (induction xs rule: live_values.induct) auto

subsection \<open>Fresh placeholders\<close>

lemma foldr_min_le: "foldr min xs (0::int) \<le> 0 \<and> (\<forall>x\<in>set xs. foldr min xs 0 \<le> x)"
  by (induction xs) auto

lemma nextTempId_neg: "nextTempId ds t < 0"
  using foldr_min_le by (simp add: nextTempId_def zle_diff1_eq [symmetric])

lemma nextTempId_less:
  assumes "v \<in> set (live_values ds)" "etype v = Plain t"
  shows "nextTempId ds t < eid v"
proof (cases "eid v < 0")
  case True
  let ?xs = "map eid (filter (\<lambda>v. etype v = Plain t \<and> eid v < 0) (live_values ds))"
  have "foldr min ?xs 0 \<le> eid v"
    using foldr_min_le [of ?xs] assms True by auto
  then show ?thesis by (simp add: nextTempId_def)
next
  case False
  then show ?thesis using nextTempId_neg [of ds t] by simp
qed

subsection \<open>Tag differences\<close>

lemma changes_Nil_iff: "changes b a = [] \<longleftrightarrow> map_of b = map_of a"
proof
  assume "changes b a = []"
  then have same: "\<forall>k\<in>set (map fst b @ map fst a). map_of b k = map_of a k"
    by (simp add: changes_def filter_empty_conv)
  show "map_of b = map_of a"
  proof
    fix k
    show "map_of b k = map_of a k"
      using same by (cases "k \<in> fst ` set b \<union> fst ` set a")
        (auto simp: map_of_eq_None_iff [THEN iffD2])
  qed
qed (simp add: changes_def)

lemma changes_keys:
  "map ckey (changes b a) = filter (\<lambda>k. map_of b k \<noteq> map_of a k) (sort (uniq (map fst b @ map fst a)))"
  by (simp add: changes_def comp_def)

lemma changes_sorted: "sorted (map ckey (changes b a)) \<and> distinct (map ckey (changes b a))"
  by (simp add: changes_keys sorted_filter [of id, simplified])

lemma set_changes:
  "c \<in> set (changes b a) \<longleftrightarrow>
     map_of b (ckey c) \<noteq> map_of a (ckey c) \<and> cbefore c = map_of b (ckey c) \<and> cafter c = map_of a (ckey c)"
proof -
  have "k \<in> fst ` set b \<or> k \<in> fst ` set a" if "map_of b k \<noteq> map_of a k" for k
    using that by (metis map_of_eq_None_iff)
  then show ?thesis by (cases c) (auto simp: changes_def image_iff)
qed

subsection \<open>Member differences\<close>

lemma concat_map_Nil: "concat (map f xs) = [] \<longleftrightarrow> (\<forall>x\<in>set xs. f x = [])"
  by auto

lemma memberChanges_Nil:
  "memberChanges (Some b) v = [] \<longleftrightarrow>
     map member_key (members_of (egeom b)) = map member_key (members_of (egeom v)) \<and>
     (\<forall>m\<in>set (members_of (egeom v)). \<forall>p.
        find (\<lambda>b. member_key b = member_key m) (members_of (egeom b)) = Some p \<longrightarrow> mrole p = mrole m)"
  by (auto simp: memberChanges_def Let_def filter_empty_conv split: option.splits if_splits)
     (metis image_eqI list.set_map)+

text \<open>Where no element is twice a member of the old version, nothing is reported exactly when the
  member lists agree.\<close>

lemma find_distinct_key:
  "distinct (map f xs) \<Longrightarrow> x \<in> set xs \<Longrightarrow> find (\<lambda>y. f y = f x) xs = Some x"
  by (induction xs) auto

lemma memberChanges_Nil_distinct:
  assumes "distinct (map member_key (members_of (egeom b)))"
  shows "memberChanges (Some b) v = [] \<longleftrightarrow>
    map (\<lambda>m. (member_key m, mrole m)) (members_of (egeom b))
      = map (\<lambda>m. (member_key m, mrole m)) (members_of (egeom v))"
    (is "_ \<longleftrightarrow> map ?p ?b = map ?p ?v")
proof
  assume "memberChanges (Some b) v = []"
  then have keys: "map member_key ?b = map member_key ?v"
    and roles: "\<forall>m\<in>set ?v. \<forall>p. find (\<lambda>b. member_key b = member_key m) ?b = Some p \<longrightarrow> mrole p = mrole m"
    by (simp_all add: memberChanges_Nil)
  have len: "length ?b = length ?v" using keys map_eq_imp_length_eq by blast
  show "map ?p ?b = map ?p ?v"
  proof (rule nth_equalityI)
    fix i assume "i < length (map ?p ?b)"
    then have i: "i < length ?b" "i < length ?v" using len by simp_all
    have "map member_key ?b ! i = map member_key ?v ! i" using keys by simp
    then have k: "member_key (?b ! i) = member_key (?v ! i)"
      using i by (simp only: nth_map)
    have "find (\<lambda>b. member_key b = member_key (?b ! i)) ?b = Some (?b ! i)"
      using i assms by (intro find_distinct_key) auto
    then have "mrole (?b ! i) = mrole (?v ! i)"
      using roles i len k by simp
    with k show "map ?p ?b ! i = map ?p ?v ! i" using i len by simp
  qed (simp add: len)
next
  assume eq: "map ?p ?b = map ?p ?v"
  have "map fst (map ?p ?b) = map fst (map ?p ?v)" using eq by (rule arg_cong)
  then have keys: "map member_key ?b = map member_key ?v" by (simp add: comp_def)
  have "mrole p = mrole m"
    if m: "m \<in> set ?v" and f: "find (\<lambda>b. member_key b = member_key m) ?b = Some p" for m p
  proof -
    obtain b' where b': "b' \<in> set ?b" "?p b' = ?p m"
      using m eq by (metis (no_types, lifting) image_iff list.set_map)
    then have "find (\<lambda>b. member_key b = member_key m) ?b = Some b'"
      using find_distinct_key [OF assms, of b'] by simp
    with f b' show ?thesis by simp
  qed
  with keys show "memberChanges (Some b) v = []"
    by (auto simp: memberChanges_Nil)
qed

section \<open>What an accepted draft looks like\<close>

definition wf_center :: "(real \<times> real) option \<Rightarrow> bool" where
  "wf_center c \<longleftrightarrow> (case c of None \<Rightarrow> True | Some (a, b) \<Rightarrow> \<bar>a\<bar> \<le> 180 \<and> \<bar>b\<bar> \<le> 90)"

fun wf_draft :: "draft \<Rightarrow> bool" where
  "wf_draft (Deleted b) \<longleftrightarrow> wf_element False b"
| "wf_draft (Draft None v c) \<longleftrightarrow> wf_element True v \<and> wf_center c
     \<and> (etype v = Plain Node \<or> has_property (etags v))"
| "wf_draft (Draft (Some b) v c) \<longleftrightarrow> wf_element False b \<and> wf_element False v \<and> wf_center c
     \<and> same_identity b v"

fun js_of_center :: "(real \<times> real) option \<Rightarrow> (jstr \<times> js) list" where
  "js_of_center None = []"
| "js_of_center (Some (a, b)) = [(lit ''center'', JArr [JNum (Fin a), JNum (Fin b)])]"

fun js_of_base :: "element option \<Rightarrow> js" where
  "js_of_base None = JNull"
| "js_of_base (Some b) = js_of_element b"

fun js_of_draft :: "draft \<Rightarrow> js" where
  "js_of_draft (Deleted b) = JObj [(lit ''base'', js_of_element b), (lit ''deleted'', JBool True)]"
| "js_of_draft (Draft b v c) =
     JObj ([(lit ''base'', js_of_base b), (lit ''value'', js_of_element v)] @ js_of_center c)"

lemma viewCenter_wf: "wf_center (viewCenter v)"
  by (cases v rule: viewCenter.cases) (auto simp: wf_center_def)

lemma viewCenter_encoded:
  "wf_center c \<Longrightarrow> viewCenter (case map_of (js_of_center c) (lit ''center'') of Some v \<Rightarrow> v | None \<Rightarrow> JUndef) = c"
  by (cases c rule: js_of_center.cases) (auto simp: wf_center_def)

lemma validateDraft_sound: "validateDraft d = Inr x \<Longrightarrow> wf_draft x"
proof -
  assume ok: "validateDraft d = Inr x"
  then have nn: "\<not> nullish d" by (auto simp: validateDraft_def)
  show "wf_draft x"
  proof (cases "jget d ''deleted'' = JBool True")
    case True
    with ok nn show ?thesis
      by (auto simp: validateDraft_def throw_if_Inr_iff bindr_Inr_iff dest: element_sound)
  next
    case False
    with ok nn obtain base v where
      base: "(if truthy (jget d ''base'') then bindr (element (jget d ''base'') False) (\<lambda>b. Inr (Some b))
        else Inr None) = Inr base"
      and v: "element (jget d ''value'') (base = None) = Inr v"
      and id: "\<not> (case base of None \<Rightarrow> False | Some b \<Rightarrow> \<not> same_identity b v)"
      and np: "\<not> (base = None \<and> etype v \<noteq> Plain Node \<and> \<not> has_property (etags v))"
      and x: "x = Draft base v (viewCenter (jget d ''center''))"
      unfolding validateDraft_def by (auto simp: throw_if_Inr_iff bindr_Inr_iff simp del: not_None_eq)
    have "wf_element False b" if "base = Some b" for b
      using base that by (auto simp: bindr_Inr_iff element_sound split: if_splits)
    then show ?thesis
      using element_sound [OF v] id np x viewCenter_wf
      by (cases base) auto
  qed
qed

lemma js_of_draft_get:
  "\<not> nullish (js_of_draft d)"
  "jget (js_of_draft (Deleted b)) ''deleted'' = JBool True"
  "jget (js_of_draft (Deleted b)) ''base'' = js_of_element b"
  "jget (js_of_draft (Draft bo v c)) ''deleted'' = JUndef"
  "jget (js_of_draft (Draft bo v c)) ''base'' = js_of_base bo"
  "jget (js_of_draft (Draft bo v c)) ''value'' = js_of_element v"
  "jget (js_of_draft (Draft bo v c)) ''center''
     = (case map_of (js_of_center c) (lit ''center'') of Some v \<Rightarrow> v | None \<Rightarrow> JUndef)"
  by ((cases d)?; (cases c rule: js_of_center.cases)?; simp)+

lemma truthy_js_of_base: "truthy (js_of_base b) \<longleftrightarrow> b \<noteq> None"
  by (cases b) (simp_all add: js_of_element_get)

lemma validateDraft_encoded: "wf_draft d \<Longrightarrow> validateDraft (js_of_draft d) = Inr d"
proof (cases d rule: wf_draft.cases)
  case (1 b)
  assume "wf_draft d"
  with 1 show ?thesis
    by (simp add: validateDraft_def js_of_draft_get js_of_element_get element_encoded
        del: js_of_draft.simps jget.simps)
next
  case (2 v c)
  assume "wf_draft d"
  with 2 show ?thesis
    by (auto simp: validateDraft_def js_of_draft_get truthy_js_of_base element_encoded
        viewCenter_encoded simp del: js_of_draft.simps jget.simps)
next
  case (3 b v c)
  assume "wf_draft d"
  with 3 show ?thesis
    by (auto simp: validateDraft_def js_of_draft_get truthy_js_of_base element_encoded
        viewCenter_encoded js_of_element_get simp del: js_of_draft.simps jget.simps)
qed

section \<open>The encoding keeps the identity\<close>

lemma js_of_element_get_none:
  "egeom e \<noteq> NodeG (num_of (jget (js_of_element e) ''lon'')) (num_of (jget (js_of_element e) ''lat''))
    \<Longrightarrow> jget (js_of_element e) ''lon'' = JUndef"
  "(\<And>ns. egeom e \<noteq> WayG ns) \<Longrightarrow> jget (js_of_element e) ''nodes'' = JUndef"
  "(\<And>ms. egeom e \<noteq> RelG ms) \<Longrightarrow> jget (js_of_element e) ''members'' = JUndef"
  by (cases "egeom e"; force simp: js_of_element_def split: option.splits)+

lemma member_of_encoded: "member (js_of_member m) = Inr m' \<Longrightarrow> m' = m"
  by (cases m) (auto simp: member_def js_of_member_def role_of_def throw_if_Inr_iff split: if_splits)

lemma raw_geom_of_encoded: "raw_geom t (js_of_element e) = Inr g \<Longrightarrow> g = egeom e"
proof (cases "egeom e")
  case (NodeG lon lat)
  then show "raw_geom t (js_of_element e) = Inr g \<Longrightarrow> g = egeom e"
    using js_of_element_get_none(2,3) [of e]
    by (auto simp: raw_geom_def node_geom_def way_geom_def relation_geom_def js_of_element_get_geom
        throw_if_Inr_iff split: if_splits)
next
  case (WayG ns)
  then show "raw_geom t (js_of_element e) = Inr g \<Longrightarrow> g = egeom e"
    using js_of_element_get_none(1,3) [of e]
    by (auto simp: raw_geom_def node_geom_def way_geom_def relation_geom_def js_of_element_get_geom
        throw_if_Inr_iff comp_def split: if_splits)
next
  case (RelG ms)
  have "ms' = ms" if "mapr member (map js_of_member ms) = Inr ms'" for ms'
    using that unfolding mapr_Inr_iff
    by (auto simp: list_all2_conv_all_nth intro!: nth_equalityI dest: member_of_encoded)
  then show "raw_geom t (js_of_element e) = Inr g \<Longrightarrow> g = egeom e"
    using js_of_element_get_none(1,2) [of e] RelG
    by (auto simp: raw_geom_def node_geom_def way_geom_def relation_geom_def js_of_element_get_geom
        throw_if_Inr_iff bindr_Inr_iff split: if_splits)
qed

lemma element_of_encoded:
  assumes "element (js_of_element v) c = Inr w"
  shows "etype w = etype v" "eid w = eid v" "egeom w = egeom v"
    "wf_tags (etags v) \<Longrightarrow> etags w = etags v"
  using assms raw_geom_of_encoded
  by (auto simp: element_def js_of_element_get throw_if_Inr_iff bindr_Inr_iff tags_encoded)

lemma validate_Draft_unfold:
  "validateDraft (js_of_draft (Draft bo v c)) =
     bindr (case bo of None \<Rightarrow> Inr None | Some b \<Rightarrow> bindr (element (js_of_element b) False) (\<lambda>b. Inr (Some b)))
       (\<lambda>base. bindr (element (js_of_element v) (base = None)) (\<lambda>w.
          throw_if (case base of None \<Rightarrow> False | Some b \<Rightarrow> \<not> same_identity b w) IdentityChanged
            (throw_if (base = None \<and> etype w \<noteq> Plain Node \<and> \<not> has_property (etags w)) NeedsProperty
              (Inr (Draft base w (viewCenter (jget (js_of_draft (Draft bo v c)) ''center'')))))))"
  by (cases bo) (simp_all add: validateDraft_def js_of_draft_get(1,4-6) truthy_js_of_base js_of_element_get
      del: js_of_draft.simps jget.simps)

lemma validate_Deleted_unfold:
  "validateDraft (js_of_draft (Deleted b)) = bindr (element (js_of_element b) False) (\<lambda>b. Inr (Deleted b))"
  by (simp add: validateDraft_def js_of_draft_get(1-3) js_of_element_get del: js_of_draft.simps jget.simps)

lemma validate_Draft_parts:
  assumes "validateDraft (js_of_draft (Draft bo v c)) = Inr d"
  obtains b w x where "d = Draft b w x" "b = None \<longleftrightarrow> bo = None" "etype w = etype v" "eid w = eid v"
    "egeom w = egeom v" "wf_tags (etags v) \<Longrightarrow> etags w = etags v"
proof -
  from assms obtain base w where p: "element (js_of_element v) (base = None) = Inr w"
    "d = Draft base w (viewCenter (jget (js_of_draft (Draft bo v c)) ''center''))"
    and b: "(case bo of None \<Rightarrow> Inr None | Some b \<Rightarrow> bindr (element (js_of_element b) False) (\<lambda>b. Inr (Some b)))
      = Inr base"
    unfolding validate_Draft_unfold bindr_Inr_iff throw_if_Inr_iff by blast
  have "base = None \<longleftrightarrow> bo = None"
    using b by (auto simp: bindr_Inr_iff split: option.splits)
  with p show thesis
    using that element_of_encoded [OF p(1)] by blast
qed

lemma validate_key: "validateDraft (js_of_draft d) = Inr d' \<Longrightarrow> keyOf d' = keyOf d"
proof (cases d)
  case (Deleted b)
  assume "validateDraft (js_of_draft d) = Inr d'"
  then show ?thesis
    using Deleted element_of_encoded(1,2) by (auto simp: validate_Deleted_unfold bindr_Inr_iff keyOf_def simp del: js_of_draft.simps)
next
  case (Draft bo v c)
  assume "validateDraft (js_of_draft d) = Inr d'"
  then show ?thesis
    using Draft validate_Draft_parts [of bo v c d'] by (metis keyOf_def subject.simps(2))
qed

section \<open>Properties\<close>

definition real_rows :: "(jstr \<times> jstr) list \<Rightarrow> (jstr \<times> jstr) list" where
  "real_rows rows = filter (\<lambda>r. r \<noteq> ([], [])) rows"

lemma has_own_iff: "has_own ps k \<longleftrightarrow> k \<in> fst ` set ps"
  by (auto simp: has_own_def list_ex_iff image_iff)

lemma tag_loop_rows:
  "foldr_err tag_step out (map (\<lambda>(k, v). (k, JStr v)) rows) = Inr ts \<longleftrightarrow>
     list_all (\<lambda>(k, v). tag_ok k v) (real_rows rows) \<and> distinct (map fst (real_rows rows))
     \<and> fst ` set (real_rows rows) \<inter> fst ` set out = {}
     \<and> ts = foldl (\<lambda>ps (k, v). obj_put k v ps) out (real_rows rows)"
proof (induction rows arbitrary: out)
  case (Cons r rows)
  obtain k v where r: "r = (k, v)" by (cases r)
  show ?case
  proof (cases "k = [] \<and> v = []")
    case True
    then show ?thesis using Cons r by (simp add: real_rows_def)
  next
      case False
    then have rr: "real_rows ((k, v) # rows) = (k, v) # real_rows rows" by (auto simp: real_rows_def)
    show ?thesis
    proof (cases "tag_ok k v \<and> \<not> has_own out k")
      case True
      then have "tag_step out (k, JStr v) = Inr (obj_put k v out)" using False by auto
      then show ?thesis
        using True unfolding r by (simp add: rr Cons has_own_iff del: tag_step.simps) blast
    next
      case bad: False
      then obtain x where "tag_step out (k, JStr v) = Inl x"
        using False by (cases "tag_ok k v") auto
      then show ?thesis
        using bad unfolding r by (auto simp: rr has_own_iff simp del: tag_step.simps)
    qed
  qed
qed (auto simp: real_rows_def)

lemma sample_tag: "tag_ok (lit ''a'') (lit ''b'')" "has_property [(lit ''a'', lit ''b'')]"
  by (simp_all add: tag_ok_def lit_def xmlText_def xmlChar_def has_property_def trim_def js_space_def
      high_surrogate_def low_surrogate_def)

text \<open>An element is accepted, new or from the database, exactly when the JSON text the editor
  writes for it is read back as the same element: identity, version, tags, geometry and members
  survive storage and the exported backup.\<close>

theorem element_roundtrip:
  "(\<exists>raw. element raw create = Inr e) \<longleftrightarrow> element (js_of_element e) create = Inr e"
  using element_sound element_encoded by blast

text \<open>A draft is accepted by \<open>validateDraft\<close> exactly when its own JSON form is read back as the
  same draft, so that saving a draft again changes nothing.\<close>

theorem draft_roundtrip:
  "(\<exists>raw. validateDraft raw = Inr d) \<longleftrightarrow> validateDraft (js_of_draft d) = Inr d"
  using validateDraft_sound validateDraft_encoded by blast

text \<open>The rows of the tag form are accepted exactly when there are at most 200, every row that is
  not empty is a legal tag, and no key stands in two of them; the tags are then those rows, in the
  order of an object's keys.\<close>

theorem tags_of_rows_exact:
  "tags (map (\<lambda>(k, v). (k, JStr v)) rows) = Inr ts \<longleftrightarrow>
     length rows \<le> 200 \<and> list_all (\<lambda>(k, v). tag_ok k v) (real_rows rows)
     \<and> distinct (map fst (real_rows rows)) \<and> ts = from_entries (real_rows rows)"
  using tag_loop_rows [of "[]" rows ts]
  by (auto simp: tags_def throw_if_Inr_iff from_entries_def)

text \<open>The tag differences shown and counted for a draft are exactly the keys whose value was
  added, changed or removed, each with its old and new value, once, in sorted order.\<close>

theorem changes_exact:
  "(c \<in> set (changes before after) \<longleftrightarrow>
      map_of before (ckey c) \<noteq> map_of after (ckey c)
      \<and> cbefore c = map_of before (ckey c) \<and> cafter c = map_of after (ckey c))
   \<and> sorted (map ckey (changes before after)) \<and> distinct (map ckey (changes before after))"
  using set_changes changes_sorted by blast

text \<open>When no object was twice a member of the relation before, the member differences are empty
  exactly when the members are the same, in the same order and with the same roles.\<close>

theorem memberChanges_exact:
  assumes "distinct (map member_key (members_of (egeom b)))"
  shows "memberChanges (Some b) v = [] \<longleftrightarrow>
    map (\<lambda>m. (member_key m, mrole m)) (members_of (egeom b))
      = map (\<lambda>m. (member_key m, mrole m)) (members_of (egeom v))"
  using assms by (rule memberChanges_Nil_distinct)

definition two_stops :: "jstr \<Rightarrow> element" where
  "two_stops role = \<lparr>etype = Plain Relation, eid = 7, eversion = Some 1, etags = [],
     egeom = RelG [\<lparr>mtype = Plain Node, mref = 1, mrole = lit ''a''\<rparr>,
                   \<lparr>mtype = Plain Node, mref = 2, mrole = role\<rparr>]\<rparr>"

theorem memberChanges_exact_witness:
  "memberChanges (Some (two_stops (lit ''b''))) (two_stops (lit ''c'')) \<noteq> []"
proof -
  have "distinct (map member_key (members_of (egeom (two_stops (lit ''b'')))))"
    by (simp add: two_stops_def member_key_def)
  from memberChanges_exact [OF this, of "two_stops (lit ''c'')"] show ?thesis
    by (simp add: two_stops_def)
qed

text \<open>With an object that is twice a member, a changed role is missed: the edit counts as no change.\<close>

definition same_stop_twice :: "jstr \<Rightarrow> element" where
  "same_stop_twice role = \<lparr>etype = Plain Relation, eid = 7, eversion = Some 1, etags = [],
     egeom = RelG [\<lparr>mtype = Plain Node, mref = 1, mrole = lit ''a''\<rparr>,
                   \<lparr>mtype = Plain Node, mref = 1, mrole = role\<rparr>]\<rparr>"

lemma changed_role_missed:
  "elementUnchanged (same_stop_twice (lit ''b'')) (same_stop_twice (lit ''a''))
     \<and> same_stop_twice (lit ''b'') \<noteq> same_stop_twice (lit ''a'')"
  by (simp add: elementUnchanged_def memberChanges_Nil same_stop_twice_def changes_Nil_iff member_key_def)

text \<open>An array that holds a type's name passes the test of the type, and the element is then read
  as a relation.\<close>

lemma array_type_accepted:
  "element (JObj [(lit ''type'', JArr [JStr (lit ''node'')]), (lit ''id'', jint (-1)),
      (lit ''members'', JArr [])]) True
    = Inr \<lparr>etype = Boxed Node, eid = -1, eversion = None, etags = [], egeom = RelG []\<rparr>"
  by (simp add: element_def raw_identity_def bad_tags_def tags_def raw_geom_def relation_geom_def)

text \<open>A new object gets a negative placeholder ID that no draft of its type uses.\<close>

theorem nextTempId_fresh:
  "nextTempId ds t < 0 \<and> nextTempId ds t \<notin> eid ` {v \<in> set (live_values ds). etype v = Plain t}"
  using nextTempId_neg nextTempId_less by force

end
