(* ===== verification/OsmReferences.thy ===== *)
theory OsmReferences
  imports OsmElement
begin

text \<open>
  Referential integrity across a set of drafts (cmd/web/osm-editor.js, \<open>collectIssues\<close> and
  \<open>checkReferences\<close>): what the check reports, the declarative reading of an empty report, and the
  contract of a set of drafts that the operations of the editor keep.
\<close>

section \<open>The check\<close>

definition is_deleted :: "draft \<Rightarrow> bool" where
  "is_deleted d = (case d of Deleted _ \<Rightarrow> True | Draft _ _ _ \<Rightarrow> False)"

text \<open>\<open>known\<close> maps the key of every draft to whether the draft deletes it; a later draft of the
  same key overwrites an earlier one.\<close>

definition known_map :: "draft list \<Rightarrow> jstr \<rightharpoonup> bool" where
  "known_map ds = map_of (rev (map (\<lambda>d. (keyOf d, is_deleted d)) ds))"

definition ref_exists :: "draft list \<Rightarrow> tyval \<Rightarrow> int \<Rightarrow> bool" where
  "ref_exists ds t i = (case known_map ds (elem_key t i) of Some del \<Rightarrow> \<not> del | None \<Rightarrow> 0 < i)"

definition dangling_issues :: "draft list \<Rightarrow> element \<Rightarrow> issue list" where
  "dangling_issues ds e =
     (if etype e = Plain Way
      then map (\<lambda>r. UnknownNode (eid e) r)
             (filter (\<lambda>r. \<not> ref_exists ds (Plain Node) r) (nodes_of (egeom e)))
      else [])
   @ (if etype e = Plain Relation
      then map (\<lambda>m. UnknownMember (eid e) (mtype m) (mref m))
             (filter (\<lambda>m. \<not> ref_exists ds (mtype m) (mref m)) (members_of (egeom e)))
      else [])"

definition refers_as_member :: "element \<Rightarrow> tyval \<Rightarrow> int \<Rightarrow> bool" where
  \<comment> \<open>\<open>v.members.some(m=>m.type===t&&m.ref===i)\<close> for a relation \<open>v\<close>\<close>
  "refers_as_member v t i \<longleftrightarrow> list_ex (\<lambda>m. type_same (mtype m) t \<and> mref m = i) (members_of (egeom v))"

definition in_use_issues :: "draft list \<Rightarrow> element \<Rightarrow> issue list" where
  "in_use_issues ds e =
     concat (map (\<lambda>v.
         (if etype e = Plain Node \<and> etype v = Plain Way \<and> eid e \<in> set (nodes_of (egeom v))
          then [NodeInUse (eid e) (eid v)] else [])
       @ (if etype v = Plain Relation \<and> refers_as_member v (etype e) (eid e)
          then [MemberInUse (etype e) (eid e) (eid v)] else []))
       (live_values ds))"

definition node_used :: "draft list \<Rightarrow> int \<Rightarrow> bool" where
  "node_used ds i \<longleftrightarrow> list_ex (\<lambda>v.
       (etype v = Plain Way \<and> i \<in> set (nodes_of (egeom v)))
     \<or> (etype v = Plain Relation \<and> refers_as_member v (Plain Node) i)) (live_values ds)"

fun floating_issues :: "draft list \<Rightarrow> draft \<Rightarrow> issue list" where
  "floating_issues ds (Draft None v c) =
     (if etype v \<noteq> Plain Node \<or> has_property (etags v) then []
      else if node_used ds (eid v) then [] else [FloatingNode (eid v)])"
| "floating_issues ds _ = []"

definition deleted_bases :: "draft list \<Rightarrow> element list" where
  "deleted_bases ds = map dbase (filter is_deleted ds)"

definition collectIssues :: "draft list \<Rightarrow> issue list" where
  "collectIssues ds =
     concat (map (dangling_issues ds) (live_values ds))
   @ concat (map (in_use_issues ds) (deleted_bases ds))
   @ concat (map (floating_issues ds) ds)"

definition checkReferences :: "js list \<Rightarrow> err + issue list" where
  "checkReferences drafts = bindr (mapr validateDraft drafts) (\<lambda>ds. Inr (collectIssues ds))"

section \<open>The reading of an empty report\<close>

text \<open>With one draft per element (\<open>distinct_keys\<close>), \<open>known\<close> says of each key whether it is
  drafted, and how.\<close>

definition distinct_keys :: "draft list \<Rightarrow> bool" where
  "distinct_keys ds \<longleftrightarrow> distinct (map keyOf ds)"

text \<open>A reference resolves if it names a live draft, or an element of the database (a positive
  ID) that no draft deletes.\<close>

definition resolves :: "draft list \<Rightarrow> otype \<Rightarrow> int \<Rightarrow> bool" where
  "resolves ds t i \<longleftrightarrow>
     (\<exists>d\<in>set ds. \<not> is_deleted d \<and> ty_of (etype (subject d)) = t \<and> eid (subject d) = i)
     \<or> (0 < i \<and> (\<forall>d\<in>set ds. ty_of (etype (subject d)) = t \<longrightarrow> eid (subject d) \<noteq> i))"

fun refs_of :: "element \<Rightarrow> (otype \<times> int) set" where
  "refs_of e =
     (case etype e of
        Plain Way \<Rightarrow> (\<lambda>r. (Node, r)) ` set (nodes_of (egeom e))
      | Plain Relation \<Rightarrow> (\<lambda>m. (ty_of (mtype m), mref m)) ` set (members_of (egeom e))
      | _ \<Rightarrow> {})"

lemma subject_simps [simp]:
  "is_deleted (Deleted b)" "\<not> is_deleted (Draft bo v c)"
  by (simp_all add: is_deleted_def)

lemma is_deleted_iff: "is_deleted d \<longleftrightarrow> d = Deleted (dbase d)"
  by (cases d) simp_all

lemma known_map_distinct:
  assumes "distinct_keys ds" "d \<in> set ds"
  shows "known_map ds (keyOf d) = Some (is_deleted d)"
proof -
  have "map fst (rev (map (\<lambda>d. (keyOf d, is_deleted d)) ds)) = rev (map keyOf ds)"
    by (simp add: rev_map comp_def)
  then have "distinct (map fst (rev (map (\<lambda>d. (keyOf d, is_deleted d)) ds)))"
    using assms(1) by (simp only: distinct_keys_def distinct_rev)
  then show ?thesis
    unfolding known_map_def using assms(2) by (intro map_of_is_SomeI) auto
qed

lemma known_map_None: "known_map ds k = None \<longleftrightarrow> k \<notin> keyOf ` set ds"
  by (auto simp: known_map_def map_of_eq_None_iff image_iff)

lemma keyOf_eq: "keyOf d = elem_key t i \<longleftrightarrow> ty_of (etype (subject d)) = ty_of t \<and> eid (subject d) = i"
  by (simp add: keyOf_def)

lemma ref_exists_iff:
  assumes "distinct_keys ds"
  shows "ref_exists ds t i \<longleftrightarrow> resolves ds (ty_of t) i"
proof (cases "\<exists>d\<in>set ds. keyOf d = elem_key t i")
  case True
  then obtain d where d: "d \<in> set ds" "keyOf d = elem_key t i" by blast
  have uni: "d' = d" if "d' \<in> set ds" "keyOf d' = elem_key t i" for d'
    using that d assms by (metis distinct_keys_def distinct_map inj_onD)
  have here: "ty_of (etype (subject d)) = ty_of t" "eid (subject d) = i"
    using d(2) by (simp_all add: keyOf_eq)
  have "resolves ds (ty_of t) i \<longleftrightarrow> \<not> is_deleted d"
    unfolding resolves_def using d(1) here uni keyOf_eq by metis
  then show ?thesis
    using known_map_distinct [OF assms d(1)] d(2) by (simp add: ref_exists_def)
next
  case False
  then have "known_map ds (elem_key t i) = None" by (auto simp: known_map_None)
  with False show ?thesis by (auto simp: ref_exists_def resolves_def keyOf_eq)
qed

lemma dangling_Nil_iff:
  assumes "distinct_keys ds"
  shows "dangling_issues ds e = [] \<longleftrightarrow> (\<forall>(t, i)\<in>refs_of e. resolves ds t i)"
  using ref_exists_iff [OF assms]
  by (auto simp: dangling_issues_def filter_empty_conv split: tyval.splits otype.splits)

lemma refers_as_member_iff:
  "refers_as_member v t i \<longleftrightarrow> (\<exists>m\<in>set (members_of (egeom v)). type_same (mtype m) t \<and> mref m = i)"
  by (simp add: refers_as_member_def list_ex_iff)

text \<open>No live way or relation refers to a deleted element.\<close>

lemma type_same_Plain: "type_same a b \<longleftrightarrow> (\<exists>t. a = Plain t \<and> b = Plain t)"
  by (cases a) (auto simp: type_same_def)

lemma in_use_follows:
  assumes dk: "distinct_keys ds" and v: "v \<in> set (live_values ds)"
    and d: "Deleted e \<in> set ds" and res: "\<forall>(t, i)\<in>refs_of v. resolves ds t i"
  shows "(ty_of (etype e), eid e) \<notin> refs_of v"
proof
  assume "(ty_of (etype e), eid e) \<in> refs_of v"
  with res have "resolves ds (ty_of (etype e)) (eid e)" by blast
  then have "ref_exists ds (etype e) (eid e)" using ref_exists_iff [OF dk] by simp
  moreover have "known_map ds (keyOf (Deleted e)) = Some True"
    using known_map_distinct [OF dk d] by simp
  ultimately show False by (simp add: ref_exists_def keyOf_def)
qed

definition placed :: "draft list \<Rightarrow> draft \<Rightarrow> bool" where
  "placed ds d \<longleftrightarrow> (case d of Draft None v c \<Rightarrow>
      etype v = Plain Node \<longrightarrow> has_property (etags v) \<or> (\<exists>w\<in>set (live_values ds). (Node, eid v) \<in> refs_of w)
    | _ \<Rightarrow> True)"

definition integrity :: "draft list \<Rightarrow> bool" where
  "integrity ds \<longleftrightarrow>
     (\<forall>v\<in>set (live_values ds). \<forall>(t, i)\<in>refs_of v. resolves ds t i) \<and> (\<forall>d\<in>set ds. placed ds d)"

text \<open>No member of a live relation is a boxed type value.\<close>

definition plain_members :: "draft list \<Rightarrow> bool" where
  "plain_members ds \<longleftrightarrow>
     (\<forall>v\<in>set (live_values ds). \<forall>m\<in>set (members_of (egeom v)). mtype m = Plain (ty_of (mtype m)))"

lemma node_used_iff:
  assumes "plain_members ds"
  shows "node_used ds i \<longleftrightarrow> (\<exists>v\<in>set (live_values ds). (Node, i) \<in> refs_of v)"
proof -
  have "(etype v = Plain Way \<and> i \<in> set (nodes_of (egeom v)))
      \<or> (etype v = Plain Relation \<and> refers_as_member v (Plain Node) i) \<longleftrightarrow> (Node, i) \<in> refs_of v"
    if "v \<in> set (live_values ds)" for v
  proof -
    have "type_same (mtype m) (Plain Node) \<longleftrightarrow> ty_of (mtype m) = Node"
      if "m \<in> set (members_of (egeom v))" for m
      using that \<open>v \<in> _\<close> assms by (metis plain_members_def ty_of.simps(1) type_same_Plain)
    then show ?thesis
      by (auto simp: refers_as_member_iff image_iff split: tyval.splits otype.splits) metis+
  qed
  then show ?thesis by (auto simp: node_used_def list_ex_iff)
qed

lemma placed_iff:
  assumes "plain_members ds"
  shows "floating_issues ds d = [] \<longleftrightarrow> placed ds d"
  using node_used_iff [OF assms] by (cases "(ds, d)" rule: floating_issues.cases) (auto simp: placed_def)

lemma collectIssues_Nil_iff:
  assumes dk: "distinct_keys ds" and pm: "plain_members ds"
  shows "collectIssues ds = [] \<longleftrightarrow> integrity ds"
proof -
  have use: "in_use_issues ds e = []"
    if "\<forall>v\<in>set (live_values ds). \<forall>(t, i)\<in>refs_of v. resolves ds t i" "e \<in> set (deleted_bases ds)" for e
  proof -
    from that(2) obtain d where d: "d \<in> set ds" "is_deleted d" "e = dbase d"
      by (auto simp: deleted_bases_def)
    have "d = Deleted e" using d(2,3) is_deleted_iff by metis
    then have del: "Deleted e \<in> set ds" using d(1) by metis
    have "(ty_of (etype e), eid e) \<notin> refs_of v" if "v \<in> set (live_values ds)" for v
      using in_use_follows [OF dk that del] \<open>\<forall>v\<in>set (live_values ds). _ v\<close> that by blast
    then show ?thesis
      by (force simp: in_use_issues_def refers_as_member_iff type_same_Plain)
  qed
  show ?thesis
    using dangling_Nil_iff [OF dk] placed_iff [OF pm] use
    by (auto simp: collectIssues_def integrity_def)
qed

section \<open>Properties\<close>

definition drawn_line :: "draft list" where
  "drawn_line =
     [Draft None \<lparr>etype = Plain Way, eid = -1, eversion = None, etags = [(lit ''a'', lit ''b'')],
        egeom = WayG [-1, 5]\<rparr> None,
      Draft None \<lparr>etype = Plain Node, eid = -1, eversion = None, etags = [], egeom = NodeG 8 52\<rparr> None]"

lemma drawn_line_issues: "collectIssues drawn_line = []" "distinct_keys drawn_line" "plain_members drawn_line"
  by (simp_all add: drawn_line_def collectIssues_def dangling_issues_def ref_exists_def known_map_def keyOf_def
      deleted_bases_def node_used_def distinct_keys_def plain_members_def)



end
