(* ===== verification/OsmExport.thy ===== *)
theory OsmExport
  imports OsmReferences "HOL-Library.Multiset"
begin

text \<open>
  The osmChange document of a set of drafts (\<open>osc\<close>), the reading of a saved draft file (\<open>restore\<close>)
  and the comparison of base versions with the live database (\<open>checkVersions\<close>), from
  cmd/web/osm-editor.js. The decimal text of a coordinate is the parameter \<open>num\<close>, \<open>JSON.parse\<close>
  the parameter \<open>parse\<close> and \<open>fetch\<close> the parameter \<open>fetcher\<close>.
\<close>

section \<open>Escaping\<close>

definition esc_char :: "16 word \<Rightarrow> jstr" where
  "esc_char c =
     (if c = 38 then lit ''&amp;''
      else if c = 60 then lit ''&lt;''
      else if c = 62 then lit ''&gt;''
      else if c = 34 then lit ''&quot;''
      else if c = 39 then lit ''&apos;''
      else if c = 10 then lit ''&#10;''
      else if c = 13 then lit ''&#13;''
      else if c = 9 then lit ''&#9;''
      else [c])"

definition esc :: "jstr \<Rightarrow> jstr" where
  "esc s = concat (map esc_char s)"

text \<open>What an XML reader makes of escaped text: the references \<open>esc\<close> writes, read back.\<close>

definition entities :: "(jstr \<times> 16 word) list" where
  "entities = [(lit ''&amp;'', 38), (lit ''&lt;'', 60), (lit ''&gt;'', 62), (lit ''&quot;'', 34),
     (lit ''&apos;'', 39), (lit ''&#10;'', 10), (lit ''&#13;'', 13), (lit ''&#9;'', 9)]"

definition match_entity :: "jstr \<Rightarrow> (jstr \<times> 16 word) option" where
  "match_entity s = find (\<lambda>(e, c). prefix e s) entities"

lemma prefix_code [simp]:
  "prefix ((x::16 word) # xs) (y # ys) \<longleftrightarrow> x = y \<and> prefix xs ys"
  by simp

fun unesc_fuel :: "nat \<Rightarrow> jstr \<Rightarrow> jstr" where
  "unesc_fuel 0 s = []"
| "unesc_fuel (Suc n) [] = []"
| "unesc_fuel (Suc n) (c # s) =
     (case match_entity (c # s) of
        Some (e, d) \<Rightarrow> d # unesc_fuel n (drop (length e) (c # s))
      | None \<Rightarrow> c # unesc_fuel n s)"

definition unesc :: "jstr \<Rightarrow> jstr" where
  "unesc s = unesc_fuel (length s) s"

section \<open>The document\<close>

definition quoted :: "jstr \<Rightarrow> jstr" where
  "quoted s = [34] @ s @ [34]"

definition attr :: "string \<Rightarrow> jstr \<Rightarrow> jstr" where
  "attr name s = lit '' '' @ lit name @ lit ''='' @ quoted s"

definition version_text :: "int option \<Rightarrow> jstr" where
  "version_text v = (case v of Some n \<Rightarrow> int_str n | None \<Rightarrow> lit ''undefined'')"

datatype group = GCreate | GModify | GDelete

fun group_of :: "draft \<Rightarrow> group option" where
  "group_of (Deleted b) = Some GDelete"
| "group_of (Draft (Some b) v c) = (if elementUnchanged b v then None else Some GModify)"
| "group_of (Draft None v c) = Some GCreate"

definition type_text :: "tyval \<Rightarrow> jstr" where
  "type_text t = type_word (ty_of t)"

definition element_attrs :: "(real \<Rightarrow> jstr) \<Rightarrow> bool \<Rightarrow> element \<Rightarrow> jstr" where
  "element_attrs num has_base e =
     attr ''id'' (int_str (eid e))
   @ (if has_base then attr ''version'' (version_text (eversion e)) else [])
   @ (case egeom e of
        NodeG lon lat \<Rightarrow> if etype e = Plain Node then attr ''lat'' (num lat) @ attr ''lon'' (num lon) else []
      | _ \<Rightarrow> [])"

definition element_children :: "element \<Rightarrow> jstr list" where
  "element_children e =
     map (\<lambda>i. lit ''      <nd'' @ attr ''ref'' (int_str i) @ lit ''/>'') (nodes_of (egeom e))
   @ map (\<lambda>m. lit ''      <member'' @ attr ''type'' (type_text (mtype m))
           @ attr ''ref'' (int_str (mref m)) @ attr ''role'' (esc (mrole m)) @ lit ''/>'')
       (members_of (egeom e))
   @ map (\<lambda>k. lit ''      <tag'' @ attr ''k'' (esc k)
           @ attr ''v'' (esc (the (map_of (etags e) k))) @ lit ''/>'')
       (sort (map fst (etags e)))"

fun draft_xml :: "(real \<Rightarrow> jstr) \<Rightarrow> draft \<Rightarrow> jstr" where
  "draft_xml num (Deleted b) =
     lit ''    <'' @ type_text (etype b) @ attr ''id'' (int_str (eid b))
       @ attr ''version'' (version_text (eversion b)) @ lit ''/>''"
| "draft_xml num (Draft bo e c) =
     lit ''    <'' @ type_text (etype e) @ element_attrs num (bo \<noteq> None) e @ lit ''>'' @ [10]
       @ join_with [10] (element_children e) @ [10]
       @ lit ''    </'' @ type_text (etype e) @ lit ''>''"

definition rank_of :: "draft \<Rightarrow> int" where
  "rank_of d = TYPE_RANK (ty_of (etype (subject d)))"

definition create_group :: "draft list \<Rightarrow> draft list" where
  "create_group ds = sort_key rank_of (filter (\<lambda>d. group_of d = Some GCreate) ds)"

definition modify_group :: "draft list \<Rightarrow> draft list" where
  "modify_group ds = filter (\<lambda>d. group_of d = Some GModify) ds"

definition delete_group :: "draft list \<Rightarrow> draft list" where
  "delete_group ds = sort_key (\<lambda>d. - rank_of d) (filter (\<lambda>d. group_of d = Some GDelete) ds)"

definition group_xml :: "(real \<Rightarrow> jstr) \<Rightarrow> string \<Rightarrow> draft list \<Rightarrow> jstr list" where
  "group_xml num g ds =
     (if ds = [] then []
      else [lit ''  <'' @ lit g @ lit ''>'' @ [10] @ join_with [10] (map (draft_xml num) ds) @ [10]
              @ lit ''  </'' @ lit g @ lit ''>''])"

definition xml_header :: jstr where
  "xml_header = lit ''<?xml version='' @ quoted (lit ''1.0'') @ lit '' encoding='' @ quoted (lit ''UTF-8'')
     @ lit ''?>'' @ [10] @ lit ''<osmChange version='' @ quoted (lit ''0.6'')
     @ lit '' generator='' @ quoted (lit ''OSMmini'') @ lit ''>'' @ [10]"

definition osc_body :: "(real \<Rightarrow> jstr) \<Rightarrow> draft list \<Rightarrow> jstr" where
  "osc_body num ds = join_with [10]
     (group_xml num ''create'' (create_group ds) @ group_xml num ''modify'' (modify_group ds)
        @ group_xml num ''delete'' (delete_group ds))"

definition osc :: "(real \<Rightarrow> jstr) \<Rightarrow> js list \<Rightarrow> err + jstr" where
  "osc num drafts =
     throw_if (100 < length drafts) TooManyDrafts
       (bindr (mapr validateDraft drafts) (\<lambda>ds.
         throw_if (\<not> distinct (map keyOf ds)) DuplicateObject
           (throw_if (collectIssues ds \<noteq> []) (Issues (collectIssues ds))
             (Inr (xml_header @ osc_body num ds @ [10] @ lit ''</osmChange>'' @ [10])))))"

section \<open>Saved drafts\<close>

definition restore_value :: "(real \<Rightarrow> jstr) \<Rightarrow> js \<Rightarrow> err + draft list" where
  "restore_value num d =
     (if nullish d then Inl TypeErr
      else case jget d ''drafts'' of
        JArr raw \<Rightarrow>
          throw_if (jget d ''version'' \<noteq> jint 1 \<or> 100 < length raw) BadDraftFile
            (bindr (mapr validateDraft raw) (\<lambda>ds.
              bindr (osc num (map js_of_draft ds)) (\<lambda>_. Inr ds)))
      | _ \<Rightarrow> Inl BadDraftFile)"

definition restore :: "(real \<Rightarrow> jstr) \<Rightarrow> (jstr \<Rightarrow> js option) \<Rightarrow> jstr \<Rightarrow> err + draft list" where
  "restore num parse raw = (case parse raw of None \<Rightarrow> Inl SyntaxErr | Some d \<Rightarrow> restore_value num d)"

definition js_of_file :: "draft list \<Rightarrow> js" where
  \<comment> \<open>\<open>{version:1,drafts}\<close>\<close>
  "js_of_file ds = JObj [(lit ''version'', jint 1), (lit ''drafts'', JArr (map js_of_draft ds))]"

section \<open>Base versions\<close>

record response =
  status :: int
  okay :: bool
  body :: "js option"      \<comment> \<open>\<open>await response.json()\<close>, \<open>None\<close> when it is not JSON\<close>

datatype version_issue =
    Gone tyval int
  | Outdated tyval int "int option" "int option"   \<comment> \<open>element, base version, live version\<close>

definition same_raw :: "tyval \<Rightarrow> int \<Rightarrow> js \<Rightarrow> bool" where
  "same_raw t i e \<longleftrightarrow> t = Plain (ty_of t) \<and> jget e ''type'' = JStr (type_word (ty_of t))
     \<and> jget e ''id'' = jint i"

fun find_raw :: "tyval \<Rightarrow> int \<Rightarrow> js list \<Rightarrow> err + js" where
  "find_raw t i [] = Inr JUndef"
| "find_raw t i (e # es) =
     (if nullish e then Inl TypeErr else if same_raw t i e then Inr e else find_raw t i es)"

definition find_element :: "tyval \<Rightarrow> int \<Rightarrow> js \<Rightarrow> err + js" where
  \<comment> \<open>\<open>body.elements?.find(e=>e.type===t&&e.id===i)\<close>\<close>
  "find_element t i b =
     (if nullish b then Inl TypeErr
      else case jget b ''elements'' of
        JArr es \<Rightarrow> find_raw t i es
      | v \<Rightarrow> if nullish v then Inr JUndef else Inl TypeErr)"

definition check_version :: "element \<Rightarrow> err + response \<Rightarrow> err + version_issue list" where
  "check_version base resp =
     bindr resp (\<lambda>r.
       if status r = 404 \<or> status r = 410 then Inr [Gone (etype base) (eid base)]
       else throw_if (\<not> okay r) (HttpErr (status r))
         (case body r of None \<Rightarrow> Inl SyntaxErr
          | Some b \<Rightarrow> bindr (find_element (etype base) (eid base) b) (\<lambda>raw.
              bindr (element raw False) (\<lambda>live_elem.
                Inr (if eversion live_elem \<noteq> eversion base
                     then [Outdated (etype base) (eid base) (eversion base) (eversion live_elem)]
                     else [])))))"

fun checkVersions :: "(tyval \<Rightarrow> int \<Rightarrow> err + response) \<Rightarrow> draft list \<Rightarrow> err + version_issue list" where
  "checkVersions fetcher [] = Inr []"
| "checkVersions fetcher (d # ds) =
     (case base_of d of
        None \<Rightarrow> checkVersions fetcher ds
      | Some base \<Rightarrow>
          bindr (check_version base (fetcher (etype base) (eid base))) (\<lambda>is.
            bindr (checkVersions fetcher ds) (\<lambda>is'. Inr (is @ is'))))"

section \<open>Escaped text is read back, and holds no delimiter\<close>

lemma esc_simps [simp]: "esc [] = []" "esc (c # s) = esc_char c @ esc s"
  by (simp_all add: esc_def)

lemma match_entity_special:
  "e \<in> set entities \<Longrightarrow> match_entity (fst e @ s) = Some e"
  by (simp only: entities_def list.set insert_iff empty_iff, elim disjE)
    (simp_all add: match_entity_def entities_def lit_def)

lemma match_entity_plain: "c \<noteq> 38 \<Longrightarrow> match_entity (c # s) = None"
  by (simp add: match_entity_def entities_def lit_def)

lemma esc_char_cases:
  obtains "(esc_char c, c) \<in> set entities" | "esc_char c = [c]" "c \<noteq> 38"
proof (cases "c \<in> {38, 60, 62, 34, 39, 10, 13, 9}")
  case True
  then have "(esc_char c, c) \<in> set entities"
    by (elim insertE) (simp_all add: esc_char_def entities_def)
  then show thesis by (rule that(1))
next
  case False
  then show thesis using that(2) by (simp add: esc_char_def)
qed

lemma unesc_fuel_esc: "length (esc s) \<le> n \<Longrightarrow> unesc_fuel n (esc s) = s"
proof (induction s arbitrary: n)
  case Nil
  then show ?case by (cases n) auto
next
  case (Cons c s)
  show ?case
  proof (cases c rule: esc_char_cases)
    case 1
    then have ne: "esc_char c \<noteq> []" by (auto simp: entities_def)
    then obtain m where n: "n = Suc m" using Cons.prems by (cases n) auto
    have "length (esc s) \<le> m" using Cons.prems ne n by (cases "esc_char c") auto
    then have "unesc_fuel m (esc s) = s" by (rule Cons.IH)
    moreover have "match_entity (esc_char c @ esc s) = Some (esc_char c, c)"
      using match_entity_special [OF 1, of "esc s"] by simp
    moreover obtain a l where al: "esc_char c @ esc s = a # l"
      using ne by (cases "esc_char c @ esc s") auto
    moreover have "drop (length (esc_char c)) (a # l) = esc s"
      using al by (metis append_eq_conv_conj)
    ultimately show ?thesis using n by simp
  next
    case 2
    then obtain m where n: "n = Suc m" using Cons.prems by (cases n) auto
    then show ?thesis using 2 Cons by (simp add: match_entity_plain)
  qed
qed

lemma unesc_esc: "unesc (esc s) = s"
  by (simp add: unesc_def unesc_fuel_esc)

lemma esc_char_safe: "c \<in> set (esc_char d) \<Longrightarrow> c \<notin> {60, 62, 34, 39, 10, 13, 9}"
  by (auto simp: esc_char_def lit_def split: if_splits)

lemma esc_safe: "c \<in> set (esc s) \<Longrightarrow> c \<notin> {60, 62, 34, 39, 10, 13, 9}"
  by (induction s) (auto dest: esc_char_safe)

section \<open>What is exported, and in which order\<close>

definition valid_set :: "draft list \<Rightarrow> bool" where
  "valid_set ds \<longleftrightarrow> list_all wf_draft ds \<and> distinct_keys ds \<and> collectIssues ds = []"

lemma mapr_validate_encoded:
  "list_all wf_draft ds \<Longrightarrow> mapr validateDraft (map js_of_draft ds) = Inr ds"
  by (rule mapr_encode) (simp add: list_all_iff validateDraft_encoded)

lemma mapr_validate_sound: "mapr validateDraft raw = Inr ds \<Longrightarrow> list_all wf_draft ds"
  by (auto simp: list_all_iff dest: mapr_set validateDraft_sound)

lemma osc_Inr_iff:
  "osc num raw = Inr s \<longleftrightarrow>
     (\<exists>ds. length raw \<le> 100 \<and> mapr validateDraft raw = Inr ds \<and> valid_set ds
        \<and> s = xml_header @ osc_body num ds @ [10] @ lit ''</osmChange>'' @ [10])"
  by (auto simp: osc_def throw_if_Inr_iff bindr_Inr_iff valid_set_def distinct_keys_def
      mapr_validate_sound)

lemma osc_encoded_ok:
  "list_all wf_draft ds \<Longrightarrow> is_ok (osc num (map js_of_draft ds)) \<longleftrightarrow> length ds \<le> 100 \<and> valid_set ds"
  by (auto simp: is_ok_iff osc_Inr_iff mapr_validate_encoded)

lemma group_of_cases:
  "group_of d = Some GCreate \<longleftrightarrow> (\<exists>v c. d = Draft None v c)"
  "group_of d = Some GDelete \<longleftrightarrow> (\<exists>b. d = Deleted b)"
  by (cases d rule: group_of.cases; simp)+

lemma groups_mset:
  "mset (create_group ds @ modify_group ds @ delete_group ds) = mset (filter (\<lambda>d. group_of d \<noteq> None) ds)"
proof -
  have "mset (filter (\<lambda>d. group_of d = Some GCreate) ds) + mset (filter (\<lambda>d. group_of d = Some GModify) ds)
      + mset (filter (\<lambda>d. group_of d = Some GDelete) ds) = mset (filter (\<lambda>d. group_of d \<noteq> None) ds)"
  proof (induction ds)
    case (Cons d ds)
    have "group_of d = None \<or> group_of d = Some GCreate \<or> group_of d = Some GModify \<or> group_of d = Some GDelete"
      by (metis group.exhaust option.exhaust)
    with Cons show ?case by auto
  qed simp
  then show ?thesis
    by (simp add: create_group_def modify_group_def delete_group_def add.assoc)
qed

lemma integrity_refs:
  assumes "collectIssues ds = []" "distinct_keys ds" "Draft b v c \<in> set ds" "(t, r) \<in> refs_of v"
  shows "resolves ds t r"
proof -
  have "v \<in> set (live_values ds)" using assms(3) set_live_values by blast
  then have "dangling_issues ds v = []" using assms(1) by (auto simp: collectIssues_def)
  with dangling_Nil_iff [OF assms(2)] assms(4) show ?thesis by blast
qed

text \<open>A new element that refers to a placeholder of a lower type comes after its creation.\<close>

lemma create_before_use:
  assumes vs: "valid_set ds" and i: "i < length (create_group ds)"
    and ref: "(t, r) \<in> refs_of (dval (create_group ds ! i))" "r < 0"
    and lower: "TYPE_RANK t < rank_of (create_group ds ! i)"
  obtains j where "j < i" "ty_of (etype (dval (create_group ds ! j))) = t"
    "eid (dval (create_group ds ! j)) = r"
proof -
  let ?cs = "filter (\<lambda>d. group_of d = Some GCreate) ds"
  have "create_group ds ! i \<in> set (create_group ds)" using i by simp
  then have "create_group ds ! i \<in> set ?cs" by (simp add: create_group_def)
  then obtain v c where d: "create_group ds ! i = Draft None v c" "Draft None v c \<in> set ds"
    by (auto simp: group_of_cases)
  have "resolves ds t r"
    using vs ref(1) d by (intro integrity_refs [where v = v]) (auto simp: valid_set_def)
  then obtain d' where d': "d' \<in> set ds" "\<not> is_deleted d'" "ty_of (etype (subject d')) = t"
      "eid (subject d') = r"
    using ref(2) by (auto simp: resolves_def)
  obtain bo v' c' where e: "d' = Draft bo v' c'" using d'(2) by (cases d') auto
  have "wf_draft d'" using vs d'(1) by (auto simp: valid_set_def list_all_iff)
  then have "bo = None"
    using e d'(4) ref(2) by (cases bo) (auto simp: wf_element_def wf_identity_def)
  then have in_cs: "d' \<in> set ?cs" using e d'(1) by simp
  have "rank_of d' < rank_of (sort_key rank_of ?cs ! i)"
    using lower d'(3) by (simp add: rank_of_def create_group_def)
  moreover have "i < length ?cs" using i by (simp add: create_group_def)
  ultimately obtain j where "j < i" "sort_key rank_of ?cs ! j = d'"
    using sort_key_before [of i ?cs d' rank_of] in_cs by blast
  then show thesis using that [of j] d' e by (simp add: create_group_def)
qed

text \<open>Deletions run from relations over ways to nodes.\<close>

lemma delete_order:
  assumes "i < length (delete_group ds)" "d \<in> set (delete_group ds)"
    "rank_of (delete_group ds ! i) < rank_of d"
  obtains j where "j < i" "delete_group ds ! j = d"
  using assms sort_key_before [of i "filter (\<lambda>d. group_of d = Some GDelete) ds" d "\<lambda>d. - rank_of d"]
  by (auto simp: delete_group_def)

section \<open>Saved drafts read back\<close>

lemma restore_value_Inr:
  "restore_value num d = Inr ds \<longleftrightarrow>
     \<not> nullish d \<and> (\<exists>raw. jget d ''drafts'' = JArr raw \<and> jget d ''version'' = jint 1
       \<and> length raw \<le> 100 \<and> mapr validateDraft raw = Inr ds \<and> valid_set ds)"
proof -
  have "(\<exists>s. osc num (map js_of_draft ds) = Inr s) \<longleftrightarrow> valid_set ds"
    if "mapr validateDraft raw = Inr ds" "length raw \<le> 100" for raw
    using that osc_encoded_ok [OF mapr_validate_sound [OF that(1)], of num] mapr_length [OF that(1)]
    by (simp add: is_ok_iff)
  note osc_iff = this
  show ?thesis
  proof (cases "jget d ''drafts''")
    case (JArr raw)
    show ?thesis
      using JArr osc_iff [of raw]
      by (auto simp: restore_value_def throw_if_Inr_iff bindr_Inr_iff)
  qed (simp_all add: restore_value_def)
qed

lemma restore_sound:
  assumes "restore num parse raw = Inr ds"
  shows "valid_set ds" "length ds \<le> 100"
  using assms by (auto simp: restore_def restore_value_Inr dest: mapr_length split: option.splits)

lemma js_of_file_get:
  "jget (js_of_file ds) ''version'' = jint 1" "jget (js_of_file ds) ''drafts'' = JArr (map js_of_draft ds)"
  "\<not> nullish (js_of_file ds)"
  by (simp_all add: js_of_file_def)

lemma restore_file:
  "valid_set ds \<Longrightarrow> length ds \<le> 100 \<Longrightarrow> restore_value num (js_of_file ds) = Inr ds"
proof -
  assume vs: "valid_set ds" and len: "length ds \<le> 100"
  then have "mapr validateDraft (map js_of_draft ds) = Inr ds"
    by (simp add: valid_set_def mapr_validate_encoded)
  with vs len show ?thesis
    unfolding restore_value_Inr js_of_file_get by (simp add: js_of_file_get)
qed

lemma restore_file_too_long:
  "100 < length ds \<Longrightarrow> restore_value num (js_of_file ds) = Inl BadDraftFile"
  by (simp add: restore_value_def js_of_file_get)

section \<open>Version comparison\<close>

text \<open>The fetch of a base answers with the element itself, in the version given.\<close>

definition live_version :: "(tyval \<Rightarrow> int \<Rightarrow> err + response) \<Rightarrow> element \<Rightarrow> int option \<Rightarrow> bool" where
  "live_version fetcher base v \<longleftrightarrow>
     (\<exists>r b raw e. fetcher (etype base) (eid base) = Inr r \<and> status r \<notin> {404, 410} \<and> okay r
        \<and> body r = Some b \<and> find_element (etype base) (eid base) b = Inr raw
        \<and> element raw False = Inr e \<and> eversion e = v)"

lemma check_version_Nil:
  "check_version base (fetcher (etype base) (eid base)) = Inr [] \<longleftrightarrow>
     live_version fetcher base (eversion base)"
proof (cases "fetcher (etype base) (eid base)")
  case (Inr r)
  show ?thesis
  proof (cases "status r = 404 \<or> status r = 410 \<or> \<not> okay r \<or> body r = None")
    case True
    then show ?thesis using Inr by (auto simp: check_version_def live_version_def throw_if_def)
  next
    case False
    then obtain b where b: "status r \<noteq> 404" "status r \<noteq> 410" "okay r" "body r = Some b" by auto
    show ?thesis
    proof (cases "find_element (etype base) (eid base) b")
      case (Inr raw)
      then show ?thesis
        using \<open>fetcher _ _ = _\<close> b
        by (cases "element raw False") (auto simp: check_version_def live_version_def)
    qed (use \<open>fetcher _ _ = _\<close> b in \<open>simp add: check_version_def live_version_def\<close>)
  qed
qed (simp add: check_version_def live_version_def)

lemma checkVersions_Nil:
  "checkVersions fetcher ds = Inr [] \<longleftrightarrow>
     (\<forall>d\<in>set ds. \<forall>b. base_of d = Some b \<longrightarrow> live_version fetcher b (eversion b))"
  by (induction ds) (auto simp: bindr_Inr_iff check_version_Nil split: option.splits)

section \<open>Properties\<close>


text \<open>Text in the exported XML is escaped without loss: it holds no markup or quote character and
  decodes to the original.\<close>

theorem esc_lossless: "unesc (esc s) = s \<and> set (esc s) \<inter> {60, 62, 34, 39, 10, 13, 9} = {}"
  using unesc_esc esc_safe by blast

text \<open>C9: In the exported file every new object that refers to a new object of a lower type (a way to
  its nodes, a relation to nodes and ways) stands after the creation of that object.\<close>

theorem creation_order:
  assumes "valid_set ds" "i < length (create_group ds)"
    and "(t, r) \<in> refs_of (dval (create_group ds ! i))" "r < 0"
    and "TYPE_RANK t < rank_of (create_group ds ! i)"
  shows "\<exists>j<i. ty_of (etype (dval (create_group ds ! j))) = t \<and> eid (dval (create_group ds ! j)) = r"
  using create_before_use [OF assms] by metis

lemma drawn_line_valid: "valid_set drawn_line"
  by (simp add: sample_tag wf_center_def valid_set_def drawn_line_def wf_element_def wf_identity_def wf_tags_def safe_int_def
      obj_wf_def distinct_keys_def keyOf_def collectIssues_def dangling_issues_def
      ref_exists_def known_map_def deleted_bases_def node_used_def)

theorem creation_order_witness:
  "\<exists>j<1. ty_of (etype (dval (create_group drawn_line ! j))) = Node \<and> eid (dval (create_group drawn_line ! j)) = -1"
proof -
  have g: "create_group drawn_line = rev drawn_line"
    by (simp add: create_group_def drawn_line_def rank_of_def)
  show ?thesis
    using drawn_line_valid
    by (intro creation_order [of drawn_line 1 Node "-1"])
      (simp_all only: g, simp_all add: drawn_line_def rank_of_def)
qed

text \<open>The backup file, and the drafts kept in the browser, are read back as the same drafts
  exactly when they are a valid set of at most 100 drafts.\<close>

theorem backup_roundtrip:
  "restore_value num (js_of_file ds) = Inr ds \<longleftrightarrow> valid_set ds \<and> length ds \<le> 100"
  using restore_file restore_file_too_long [of ds num]
  by (auto simp: restore_value_Inr js_of_file_get)
   
text \<open>The comparison with OpenStreetMap reports nothing exactly when every draft with a base
  finds that object live there, readable, in the version the draft is based on.\<close>

theorem checkVersions_exact:
  "checkVersions fetcher ds = Inr [] \<longleftrightarrow>
     list_all (\<lambda>b. live_version fetcher b (eversion b)) (List.map_filter base_of ds)"
  by (auto simp: checkVersions_Nil list_all_iff map_filter_def)

end
