(* ===== verification/OsmGeometry.thy ===== *)
theory OsmGeometry
  imports OsmElement
begin

text \<open>
  Geometry of the OSM workspace (cmd/web/osm-editor.js, lines 8 and 176 to 288): longitudes, the
  node index and the outline of a way from an API reply, hit testing, edits of a way's node list
  and the check of a drawn geometry. An element of a reply is the list of its properties
  (\<open>raw_element\<close>); its node references are numbers, as the OSM API documents.
\<close>

type_synonym point = "real \<times> real"   \<comment> \<open>\<open>[lon, lat]\<close>\<close>
type_synonym raw_element = "(jstr \<times> js) list"

section \<open>Longitudes\<close>

text \<open>\<open>x % y\<close> truncates the quotient towards zero, so it has the sign of \<open>x\<close>.\<close>

definition js_rem :: "real \<Rightarrow> real \<Rightarrow> real" where
  "js_rem x y = x - y * of_int (if 0 \<le> x / y then \<lfloor>x / y\<rfloor> else \<lceil>x / y\<rceil>)"

definition normLon :: "real \<Rightarrow> real" where
  "normLon lng = js_rem (js_rem (lng + 180) 360 + 360) 360 - 180"

lemma js_rem_nonneg: "0 \<le> x \<Longrightarrow> 0 < y \<Longrightarrow> 0 \<le> js_rem x y \<and> js_rem x y < y"
proof -
  assume "0 \<le> x" "0 < y"
  then have "js_rem x y = y * (x / y - of_int \<lfloor>x / y\<rfloor>)"
    by (simp add: js_rem_def algebra_simps)
  moreover have "0 \<le> x / y - of_int \<lfloor>x / y\<rfloor>" "x / y - of_int \<lfloor>x / y\<rfloor> < 1" by linarith+
  ultimately show ?thesis using \<open>0 < y\<close> by (simp add: mult_less_cancel_left2 zero_le_mult_iff)
qed

lemma js_rem_lower: "0 < y \<Longrightarrow> - y < js_rem x y"
proof -
  assume y: "0 < y"
  show ?thesis
  proof (cases "0 \<le> x / y")
    case True
    then show ?thesis using js_rem_nonneg [of x y] y by (simp add: zero_le_divide_iff)
  next
    case False
    then have "js_rem x y = y * (x / y - of_int \<lceil>x / y\<rceil>)"
      using y by (simp add: js_rem_def algebra_simps)
    moreover have "- 1 < x / y - of_int \<lceil>x / y\<rceil>" by linarith
    ultimately show ?thesis
      using y mult_strict_left_mono [of "- 1" "x / y - of_int \<lceil>x / y\<rceil>" y] by simp
  qed
qed

lemma js_rem_congruent: "\<exists>k::int. js_rem x y = x - y * of_int k"
  unfolding js_rem_def by blast

lemma normLon_range: "- 180 \<le> normLon lng \<and> normLon lng < 180"
  using js_rem_nonneg [of "js_rem (lng + 180) 360 + 360" 360] js_rem_lower [of 360 "lng + 180"]
  by (simp add: normLon_def)

lemma normLon_congruent: "\<exists>k::int. normLon lng = lng + 360 * of_int k"
proof -
  obtain k1 :: int where "js_rem (lng + 180) 360 = lng + 180 - 360 * of_int k1"
    using js_rem_congruent by blast
  moreover obtain k2 :: int where
    "js_rem (js_rem (lng + 180) 360 + 360) 360 = js_rem (lng + 180) 360 + 360 - 360 * of_int k2"
    using js_rem_congruent by blast
  ultimately have "normLon lng = lng + 360 * of_int (1 - k1 - k2)"
    by (simp add: normLon_def algebra_simps)
  then show ?thesis by blast
qed

section \<open>Elements of a reply\<close>

definition raw_type :: "raw_element \<Rightarrow> otype \<Rightarrow> bool" where
  "raw_type e t \<longleftrightarrow> jget (JObj e) ''type'' = JStr (type_word t)"

definition raw_point :: "raw_element \<Rightarrow> point option" where
  "raw_point e = (if isFinite (jget (JObj e) ''lon'') \<and> isFinite (jget (JObj e) ''lat'')
     then Some (num_of (jget (JObj e) ''lon''), num_of (jget (JObj e) ''lat'')) else None)"

definition raw_nodes :: "raw_element \<Rightarrow> js list option" where
  \<comment> \<open>\<open>e.nodes\<close> where it is an array\<close>
  "raw_nodes e = (case jget (JObj e) ''nodes'' of JArr ns \<Rightarrow> Some ns | _ \<Rightarrow> None)"

definition raw_tag :: "raw_element \<Rightarrow> string \<Rightarrow> js" where
  \<comment> \<open>\<open>e.tags?.k\<close>\<close>
  "raw_tag e k = jget (jget (JObj e) ''tags'') k"

fun nodeIndex :: "raw_element list \<Rightarrow> (int \<rightharpoonup> element)" where
  "nodeIndex es = foldl (\<lambda>m e.
      if raw_type e Node
      then (case element (JObj e) False of Inr x \<Rightarrow> m(eid x \<mapsto> x) | Inl _ \<Rightarrow> m)
      else m) Map.empty es"

definition point_map :: "raw_element list \<Rightarrow> (js \<rightharpoonup> point)" where
  "point_map es = map_of (rev (concat (map (\<lambda>e.
      case raw_point e of
        Some p \<Rightarrow> if raw_type e Node then [(jget (JObj e) ''id'', p)] else []
      | None \<Rightarrow> []) es)))"

record shape =
  scoords :: "point list"
  sclosed :: bool
  scenter :: "point option"
  sbounds :: "(point \<times> point) option"

definition closed_line :: "point list \<Rightarrow> bool" where
  "closed_line ps \<longleftrightarrow> 3 < length ps \<and> hd ps = last ps"

definition west_of :: "point list \<Rightarrow> real" where "west_of ps = Min (fst ` set ps)"
definition east_of :: "point list \<Rightarrow> real" where "east_of ps = Max (fst ` set ps)"
definition south_of :: "point list \<Rightarrow> real" where "south_of ps = Min (snd ` set ps)"
definition north_of :: "point list \<Rightarrow> real" where "north_of ps = Max (snd ` set ps)"

definition shape_of :: "point list \<Rightarrow> shape option" where
  "shape_of ps =
     (if ps = [] then None
      else Some \<lparr>scoords = ps, sclosed = closed_line ps,
                 scenter = Some ((west_of ps + east_of ps) / 2, (south_of ps + north_of ps) / 2),
                 sbounds = Some ((west_of ps, south_of ps), (east_of ps, north_of ps))\<rparr>)"

definition wayShape :: "raw_element list \<Rightarrow> int \<Rightarrow> shape option" where
  "wayShape es i =
     (let refs = (case find (\<lambda>e. raw_type e Way \<and> jget (JObj e) ''id'' = jint i) es of
                    Some w \<Rightarrow> (case raw_nodes w of Some ns \<Rightarrow> ns | None \<Rightarrow> [])
                  | None \<Rightarrow> [])
      in shape_of (List.map_filter (point_map es) refs))"

section \<open>Distances\<close>

definition pickRadiusMeters :: "real \<Rightarrow> real \<Rightarrow> real \<Rightarrow> real" where
  "pickRadiusMeters lat zoom pixels =
     (let metresPerPixel = 156543.03392 * cos (lat * pi / 180) / 2 powr zoom
      in max 6 (min (metresPerPixel * pixels) 500))"

definition js_round :: "real \<Rightarrow> int" where
  "js_round x = \<lfloor>x + 1 / 2\<rfloor>"

definition formatDistance :: "js \<Rightarrow> jstr" where
  "formatDistance v =
     (if \<not> isFinite v then []
      else let m = num_of v in
        if m < 1000 then int_str (max 1 (js_round m)) @ lit '' m''
        else map (\<lambda>c. if c = 46 then 44 else c) (toFixed 1 (m / 1000)) @ lit '' km'')"

definition metersBetween :: "real \<Rightarrow> real \<Rightarrow> real \<Rightarrow> real \<Rightarrow> real" where
  "metersBetween lat1 lon1 lat2 lon2 =
     (let dLat = (lat2 - lat1) * 111320;
          dLon = (lon2 - lon1) * 111320 * cos ((lat1 + lat2) / 2 * pi / 180)
      in sqrt (dLat * dLat + dLon * dLon))"

record hit =
  hdist :: real
  hlon :: real
  hlat :: real

definition cos_or_1 :: "real \<Rightarrow> real" where
  "cos_or_1 lat = (let c = cos (lat * pi / 180) in if c = 0 then 1 else c)"

definition to_xy :: "real \<Rightarrow> real \<Rightarrow> real \<Rightarrow> real \<Rightarrow> real \<times> real" where
  "to_xy lat lon la lo = ((lo - lon) * 111320 * cos_or_1 lat, (la - lat) * 111320)"

text \<open>The parameter of the point of the segment from \<open>a\<close> to \<open>b\<close> closest to the origin.\<close>

definition seg_param :: "real \<times> real \<Rightarrow> real \<times> real \<Rightarrow> real" where
  "seg_param a b =
     (let dx = fst b - fst a; dy = snd b - snd a; lenSq = dx * dx + dy * dy
      in if 0 < lenSq then max 0 (min 1 ((- fst a * dx - snd a * dy) / lenSq)) else 0)"

definition nearestPointOnSegment ::
  "real \<Rightarrow> real \<Rightarrow> real \<Rightarrow> real \<Rightarrow> real \<Rightarrow> real \<Rightarrow> hit" where
  "nearestPointOnSegment lat lon aLat aLon bLat bLon =
     (let a = to_xy lat lon aLat aLon; b = to_xy lat lon bLat bLon;
          t = seg_param a b;
          px = fst a + t * (fst b - fst a); py = snd a + t * (snd b - snd a)
      in \<lparr>hdist = sqrt (px * px + py * py), hlon = lon + px / (111320 * cos_or_1 lat),
          hlat = lat + py / 111320\<rparr>)"

section \<open>Hit testing\<close>

record candidate =
  qtype :: otype
  qid :: js
  qlabel :: js
  qcategory :: js
  qdist :: real
  qcoords :: point

definition truthy_or_empty :: "js \<Rightarrow> js" where
  "truthy_or_empty v = (if truthy v then v else JStr [])"

text \<open>The crossing-number test: each edge of the ring that the ray from the point crosses flips
  the answer.\<close>

fun ring_edges :: "point list \<Rightarrow> (point \<times> point) list" where
  \<comment> \<open>\<open>(ring[i], ring[j])\<close> with \<open>j\<close> the index before \<open>i\<close>, cyclically\<close>
  "ring_edges ps = zip ps (last ps # ps)"

definition crosses :: "real \<Rightarrow> real \<Rightarrow> point \<times> point \<Rightarrow> bool" where
  "crosses lat lon e =
     (case e of (a, b) \<Rightarrow>
       (lat < snd a) \<noteq> (lat < snd b)
       \<and> lon < (fst b - fst a) * (lat - snd a) / (snd b - snd a) + fst a)"

definition inside_ring :: "real \<Rightarrow> real \<Rightarrow> point list \<Rightarrow> bool" where
  "inside_ring lat lon ps \<longleftrightarrow> odd (length (filter (crosses lat lon) (ring_edges ps)))"

fun best_hit :: "real \<Rightarrow> real \<Rightarrow> point option list \<Rightarrow> hit option \<Rightarrow> hit option" where
  "best_hit lat lon (Some a # Some b # ps) best =
     (let h = nearestPointOnSegment lat lon (snd a) (fst a) (snd b) (fst b);
          best' = (case best of None \<Rightarrow> Some h
                   | Some g \<Rightarrow> if hdist h < hdist g then Some h else best)
      in best_hit lat lon (Some b # ps) best')"
| "best_hit lat lon (_ # b # ps) best = best_hit lat lon (b # ps) best"
| "best_hit lat lon _ best = best"

definition is_area_way :: "raw_element \<Rightarrow> js list \<Rightarrow> bool" where
  "is_area_way e ns \<longleftrightarrow> 3 < length ns \<and> hd ns = last ns \<and> raw_tag e ''area'' \<noteq> JStr (lit ''no'')
     \<and> (\<not> truthy (raw_tag e ''highway'') \<or> raw_tag e ''area'' = JStr (lit ''yes''))"

definition way_hit :: "real \<Rightarrow> real \<Rightarrow> (js \<rightharpoonup> point) \<Rightarrow> raw_element \<Rightarrow> js list \<Rightarrow> hit option" where
  "way_hit lat lon coords e ns =
     (let line = map coords ns; best = best_hit lat lon line None
      in if is_area_way e ns \<and> list_all (\<lambda>p. p \<noteq> None) line
            \<and> inside_ring lat lon (map the line)
         then Some \<lparr>hdist = 0, hlon = lon, hlat = lat\<rparr> else best)"

definition element_candidates ::
  "(js \<Rightarrow> js) \<Rightarrow> real \<Rightarrow> real \<Rightarrow> real \<Rightarrow> (js \<rightharpoonup> point) \<Rightarrow> raw_element \<Rightarrow> candidate list" where
  "element_candidates primaryCategory lat lon radius coords e =
     (let tags = jget (JObj e) ''tags'';
          cand = (\<lambda>t d p. \<lparr>qtype = t, qid = jget (JObj e) ''id'',
                   qlabel = truthy_or_empty (raw_tag e ''name''),
                   qcategory = primaryCategory tags, qdist = d, qcoords = p\<rparr>)
      in if raw_type e Node \<and> entries_of tags \<noteq> [] then
           (case raw_point e of
              None \<Rightarrow> []
            | Some p \<Rightarrow> let d = metersBetween lat lon (snd p) (fst p)
                         in if d \<le> radius then [cand Node d p] else [])
         else if raw_type e Way then
           (case raw_nodes e of
              Some ns \<Rightarrow>
                if 1 < length ns then
                  (case way_hit lat lon coords e ns of
                     Some h \<Rightarrow> if hdist h \<le> radius then [cand Way (hdist h) (hlon h, hlat h)] else []
                   | None \<Rightarrow> [])
                else []
            | None \<Rightarrow> [])
         else [])"

definition candidatesFromElements ::
  "(js \<Rightarrow> js) \<Rightarrow> raw_element list \<Rightarrow> real \<Rightarrow> real \<Rightarrow> real \<Rightarrow> candidate list" where
  "candidatesFromElements primaryCategory es lat lon radius =
     take 20 (sort_key qdist
       (concat (map (element_candidates primaryCategory lat lon radius (point_map es)) es)))"

section \<open>Edits of a way's nodes\<close>

datatype geo_err =
    BadSegment | BadNode | AreaTooSmall | WayTooShort | TooManyPoints
  | BadWayGeometry | TooFewPositions | RepeatedPosition | SelfIntersecting | NoExtent

definition closed_refs :: "'a list \<Rightarrow> bool" where
  "closed_refs ns \<longleftrightarrow> 3 < length ns \<and> hd ns = last ns"

definition remove_at :: "nat \<Rightarrow> 'a list \<Rightarrow> 'a list" where
  "remove_at i xs = take i xs @ drop (Suc i) xs"

definition insert_at :: "nat \<Rightarrow> 'a \<Rightarrow> 'a list \<Rightarrow> 'a list" where
  "insert_at i x xs = take i xs @ x # drop i xs"

definition editWayNodes :: "int list \<Rightarrow> int \<Rightarrow> int option \<Rightarrow> geo_err + int list" where
  "editWayNodes nodes index nid =
     throw_if (length nodes < 2 \<or> index < 0 \<or> int (length nodes) - 1 \<le> index) BadSegment
       (let closed = closed_refs nodes; k = nat index
        in case nid of
             Some i \<Rightarrow>
               throw_if (\<not> safe_int i \<or> i = 0 \<or> i \<in> set nodes) BadNode
                 (let next = insert_at (Suc k) i nodes
                  in throw_if (2000 < length next) TooManyPoints (Inr next))
           | None \<Rightarrow>
               (let ring = remove_at k (if closed then butlast nodes else nodes)
                in throw_if (card (set ring) < (if closed then 3 else 2))
                     (if closed then AreaTooSmall else WayTooShort)
                     (Inr (if closed then ring @ [hd ring] else ring))))"

section \<open>The check of a drawn geometry\<close>

definition cross :: "point \<Rightarrow> point \<Rightarrow> point \<Rightarrow> real" where
  "cross a b c = (fst b - fst a) * (snd c - snd a) - (snd b - snd a) * (fst c - fst a)"

definition on_seg :: "point \<Rightarrow> point \<Rightarrow> point \<Rightarrow> bool" where
  "on_seg a b c \<longleftrightarrow> \<bar>cross a b c\<bar> < 1 / 10 ^ 14
     \<and> min (fst a) (fst b) \<le> fst c \<and> fst c \<le> max (fst a) (fst b)
     \<and> min (snd a) (snd b) \<le> snd c \<and> snd c \<le> max (snd a) (snd b)"

definition edges_touch :: "point \<Rightarrow> point \<Rightarrow> point \<Rightarrow> point \<Rightarrow> bool" where
  "edges_touch a b c d \<longleftrightarrow>
     (cross a b c * cross a b d < 0 \<and> cross c d a * cross c d b < 0)
     \<or> on_seg a b c \<or> on_seg a b d \<or> on_seg c d a \<or> on_seg c d b"

definition self_touching :: "point list \<Rightarrow> bool" where
  "self_touching cs \<longleftrightarrow>
     list_ex (\<lambda>i. list_ex (\<lambda>j.
         \<not> (i = 0 \<and> j = length cs - 2)
         \<and> edges_touch (cs ! i) (cs ! Suc i) (cs ! j) (cs ! Suc j))
       [i + 2..<length cs - 1]) [0..<length cs - 1]"

definition doubled_area :: "point list \<Rightarrow> real" where
  "doubled_area ps = sum_list (map (\<lambda>i.
      let p = ps ! i; q = ps ! (Suc i mod length ps); o0 = ps ! 0
      in (fst p - fst o0) * (snd q - snd o0) - (fst q - fst o0) * (snd p - snd o0))
    [0..<length ps])"

definition repeated_position :: "point list \<Rightarrow> bool" where
  "repeated_position cs \<longleftrightarrow> list_ex (\<lambda>i. cs ! Suc i = cs ! i) [0..<length cs - 1]"

definition validateWayCoordinates :: "point list \<Rightarrow> bool \<Rightarrow> geo_err + unit" where
  "validateWayCoordinates cs ring =
     (let points = (if ring then butlast cs else cs)
      in throw_if (card (set points) < (if ring then 3 else 2)) TooFewPositions
           (throw_if (repeated_position cs) RepeatedPosition
             (if \<not> ring then Inr ()
              else throw_if (self_touching cs) SelfIntersecting
                (throw_if (\<bar>doubled_area points\<bar> < 1 / 10 ^ 14) NoExtent (Inr ())))))"

section \<open>Features of the map data\<close>

datatype feature_geometry = FPoint js js | FLine "point list" | FPolygon "point list"

record feature =
  f_type :: js
  f_id :: js
  f_name :: js
  f_category :: js
  f_tagged :: "bool option"
  f_geometry :: feature_geometry

definition element_features ::
  "(js \<Rightarrow> js) \<Rightarrow> (js \<rightharpoonup> point) \<Rightarrow> raw_element \<Rightarrow> feature list" where
  "element_features category nodes e =
     (let v = JObj e; i = jget v ''id'';
          feature = (\<lambda>tagged g. \<lparr>f_type = jget v ''type'', f_id = i,
             f_name = truthy_or_empty (raw_tag e ''name''), f_category = category (jget v ''tags''),
             f_tagged = tagged, f_geometry = g\<rparr>)
      in if raw_type e Relation then []
         else if raw_type e Node then
           (if nodes i \<noteq> None
            then [feature (Some (entries_of (jget v ''tags'') \<noteq> [])) (FPoint (jget v ''lon'') (jget v ''lat''))]
            else [])
         else if raw_type e Way then
           (case raw_nodes e of
              Some ns \<Rightarrow>
                if 2 \<le> length ns \<and> list_all (\<lambda>n. nodes n \<noteq> None) ns
                then let line = map (\<lambda>n. the (nodes n)) ns
                     in [feature None (if is_area_way e ns \<and> \<not> truthy (raw_tag e ''barrier'')
                           then FPolygon line else FLine line)]
                else []
            | None \<Rightarrow> [])
         else [])"

definition mapDataFeatures :: "(js \<Rightarrow> js) \<Rightarrow> raw_element list \<Rightarrow> feature list" where
  "mapDataFeatures category es = concat (map (element_features category (point_map es)) es)"

section \<open>Facts about positions and way edits\<close>

lemma pickRadius_bounds: "6 \<le> pickRadiusMeters lat zoom pixels \<and> pickRadiusMeters lat zoom pixels \<le> 500"
  by (auto simp: pickRadiusMeters_def Let_def)

text \<open>The point a segment is hit at is the closest one of the whole segment.\<close>

lemma clamp_minimises:
  fixes q :: real
  assumes "0 < q" "0 \<le> s" "s \<le> 1"
  shows "q * (max 0 (min 1 (p / q)))\<^sup>2 - 2 * p * max 0 (min 1 (p / q)) \<le> q * s\<^sup>2 - 2 * p * s"
proof -
  define t where "t = max 0 (min 1 (p / q))"
  consider "t = p / q" | "t = 0" "p / q \<le> 0" | "t = 1" "1 \<le> p / q"
    unfolding t_def by linarith
  then have "q * t\<^sup>2 - 2 * p * t \<le> q * s\<^sup>2 - 2 * p * s"
  proof cases
    case 1
    then have p: "p = q * t" using assms(1) by simp
    have "0 \<le> q * (s - t)\<^sup>2" using assms(1) by simp
    also have "q * (s - t)\<^sup>2 = (q * s\<^sup>2 - 2 * p * s) - (q * t\<^sup>2 - 2 * p * t)"
      unfolding p by (simp add: power2_eq_square algebra_simps)
    finally show ?thesis by simp
  next
    case 2
    then have "p \<le> 0" using assms(1) by (simp add: divide_le_0_iff)
    then have "p * s \<le> 0" using assms(2) by (rule mult_nonpos_nonneg)
    moreover have "0 \<le> q * s\<^sup>2" using assms(1) by simp
    ultimately have "0 \<le> q * s\<^sup>2 - 2 * p * s" by (simp add: mult.assoc)
    then show ?thesis using 2 by simp
  next
    case 3
    then have "q \<le> p" using assms(1) by (simp add: le_divide_eq)
    have "q * s\<^sup>2 - 2 * p * s - (q - 2 * p) = (1 - s) * (2 * p - q * (1 + s))"
      by (simp add: power2_eq_square algebra_simps)
    moreover have "q * (1 + s) \<le> 2 * p"
    proof -
      have "q * (1 + s) \<le> q * 2" using assms by (intro mult_left_mono) auto
      also have "\<dots> \<le> 2 * p" using \<open>q \<le> p\<close> by simp
      finally show ?thesis .
    qed
    moreover from calculation have "0 \<le> (1 - s) * (2 * p - q * (1 + s))"
      using assms(3) by (intro mult_nonneg_nonneg) simp_all
    ultimately show ?thesis using 3 by simp
  qed
  then show ?thesis by (simp add: t_def)
qed

definition along :: "real \<times> real \<Rightarrow> real \<times> real \<Rightarrow> real \<Rightarrow> real \<times> real" where
  "along a b s = (fst a + s * (fst b - fst a), snd a + s * (snd b - snd a))"

definition norm2 :: "real \<times> real \<Rightarrow> real" where
  "norm2 p = fst p * fst p + snd p * snd p"

lemma seg_param_range: "0 \<le> seg_param a b \<and> seg_param a b \<le> 1"
  by (auto simp: seg_param_def Let_def)

lemma norm2_along:
  "norm2 (along a b s) = norm2 a
     + ((fst b - fst a)\<^sup>2 + (snd b - snd a)\<^sup>2) * s\<^sup>2
     - 2 * (- fst a * (fst b - fst a) - snd a * (snd b - snd a)) * s"
  by (simp add: norm2_def along_def power2_eq_square algebra_simps)

lemma seg_param_optimal:
  assumes "0 \<le> s" "s \<le> 1"
  shows "norm2 (along a b (seg_param a b)) \<le> norm2 (along a b s)"
proof -
  let ?dx = "fst b - fst a" and ?dy = "snd b - snd a"
  show ?thesis
  proof (cases "0 < ?dx * ?dx + ?dy * ?dy")
    case True
    then show ?thesis
      using clamp_minimises [OF True assms, of "- fst a * ?dx - snd a * ?dy"]
      by (simp only: norm2_along) (simp add: seg_param_def Let_def power2_eq_square)
  next
    case False
    then have "?dx * ?dx + ?dy * ?dy = 0" by (metis add_nonneg_nonneg less_eq_real_def zero_le_square)
    then have "?dx = 0" "?dy = 0" by (simp_all add: sum_squares_eq_zero_iff)
    then show ?thesis by (simp add: along_def)
  qed
qed

lemma nearest_is_minimal:
  assumes "0 \<le> s" "s \<le> 1"
  shows "hdist (nearestPointOnSegment lat lon aLat aLon bLat bLon)
    \<le> sqrt (norm2 (along (to_xy lat lon aLat aLon) (to_xy lat lon bLat bLon) s))"
  using seg_param_optimal [OF assms, of "to_xy lat lon aLat aLon" "to_xy lat lon bLat bLon"]
  by (simp add: nearestPointOnSegment_def Let_def norm2_def along_def)

lemma candidates_sound:
  assumes "c \<in> set (candidatesFromElements cat es lat lon radius)"
  shows "qdist c \<le> radius"
proof -
  have "c \<in> set (concat (map (element_candidates cat lat lon radius (point_map es)) es))"
    using assms set_take_subset [of 20] unfolding candidatesFromElements_def
    by (metis set_sort subsetD)
  then obtain e where "c \<in> set (element_candidates cat lat lon radius (point_map es) e)" by auto
  then show ?thesis
    by (auto simp: element_candidates_def Let_def split: option.splits if_splits)
qed

lemma candidates_sorted:
  "sorted (map qdist (candidatesFromElements cat es lat lon radius))
     \<and> length (candidatesFromElements cat es lat lon radius) \<le> 20"
  by (simp add: candidatesFromElements_def take_map [symmetric] sorted_wrt_take)

lemma editWayNodes_insert:
  assumes "editWayNodes ns i (Some n) = Inr ns'"
  shows "ns' = insert_at (Suc (nat i)) n ns \<and> n \<notin> set ns \<and> Suc (nat i) < length ns \<and> length ns' \<le> 2000
    \<and> hd ns' = hd ns \<and> last ns' = last ns"
proof -
  from assms have r: "ns' = insert_at (Suc (nat i)) n ns" "n \<notin> set ns" "length ns' \<le> 2000"
    and b: "0 \<le> i" "i < int (length ns) - 1" "\<not> length ns < 2"
    by (auto simp: editWayNodes_def throw_if_Inr_iff Let_def)
  then have "Suc (nat i) < length ns" by linarith
  with r show ?thesis
    by (cases ns) (auto simp: insert_at_def last_append)
qed

lemma remove_insert: "k \<le> length xs \<Longrightarrow> remove_at k (insert_at k x xs) = xs"
  by (simp add: remove_at_def insert_at_def)

lemma set_remove_at: "set (remove_at k xs) \<subseteq> set xs"
  by (auto simp: remove_at_def dest: in_set_takeD in_set_dropD)

lemma editWayNodes_remove:
  assumes "editWayNodes ns i None = Inr ns'"
  shows "set ns' \<subseteq> set ns \<and> (closed_refs ns \<longrightarrow> hd ns' = last ns' \<and> 3 \<le> card (set ns'))
    \<and> (\<not> closed_refs ns \<longrightarrow> 2 \<le> card (set ns') \<and> length ns' = length ns - 1)"
proof (cases "closed_refs ns")
  case True
  let ?r = "remove_at (nat i) (butlast ns)"
  from assms True have r: "ns' = ?r @ [hd ?r]" "3 \<le> card (set ?r)"
    by (auto simp: editWayNodes_def throw_if_Inr_iff Let_def)
  then have ne: "?r \<noteq> []" by auto
  then have "set ns' = set ?r" using r by (cases ?r) auto
  moreover have "set ?r \<subseteq> set ns"
    using set_remove_at [of "nat i" "butlast ns"] by (auto dest: in_set_butlastD)
  ultimately show ?thesis using True r ne by (cases ?r) auto
next
  case False
  from assms False have r: "ns' = remove_at (nat i) ns" "2 \<le> card (set ns')"
    and b: "0 \<le> i" "i < int (length ns) - 1"
    by (auto simp: editWayNodes_def throw_if_Inr_iff Let_def)
  then have "nat i < length ns" by linarith
  then show ?thesis using False r set_remove_at [of "nat i" ns] by (auto simp: remove_at_def)
qed

lemma editWayNodes_roundtrip:
  assumes "editWayNodes ns i (Some n) = Inr ns'"
  shows "remove_at (Suc (nat i)) ns' = ns"
  using editWayNodes_insert [OF assms] by (simp add: remove_insert)

section \<open>Edges that are accepted do not meet\<close>

definition seg :: "point \<Rightarrow> point \<Rightarrow> point set" where
  "seg a b = {(fst a + s * (fst b - fst a), snd a + s * (snd b - snd a)) | s. 0 \<le> s \<and> s \<le> 1}"

lemma segI: "0 \<le> s \<Longrightarrow> s \<le> 1 \<Longrightarrow> (fst a + s * (fst b - fst a), snd a + s * (snd b - snd a)) \<in> seg a b"
  unfolding seg_def by blast

lemma between_coord:
  assumes s: "0 \<le> s" "s \<le> 1"
  shows "min p q \<le> p + s * (q - p) \<and> p + s * (q - p) \<le> max p (q::real)"
proof (cases "p \<le> q")
  case True
  have "0 \<le> s * (q - p)" using s(1) True by simp
  moreover have "s * (q - p) \<le> 1 * (q - p)" using s(2) True by (intro mult_right_mono) simp_all
  ultimately show ?thesis using True by simp
next
  case False
  define z where "z = s * (q - p)"
  have "z \<le> 0" unfolding z_def using s(1) False by (intro mult_nonneg_nonpos) simp_all
  moreover have "1 * (q - p) \<le> z" unfolding z_def using s(2) False by (intro mult_right_mono_neg) simp_all
  ultimately have "q \<le> p + z \<and> p + z \<le> p" by simp
  then show ?thesis using False by (simp add: z_def)
qed

lemma seg_point: "x \<in> seg a a \<Longrightarrow> x = a"
  by (auto simp: seg_def)

lemma on_seg_of_mem: "c \<in> seg a b \<Longrightarrow> on_seg a b c"
proof -
  assume "c \<in> seg a b"
  then obtain s where s: "0 \<le> s" "s \<le> 1" and c: "c = (fst a + s * (fst b - fst a), snd a + s * (snd b - snd a))"
    by (auto simp: seg_def)
  have "cross a b c = 0" by (simp add: c cross_def algebra_simps)
  then show ?thesis
    using between_coord [OF s, of "fst a" "fst b"] between_coord [OF s, of "snd a" "snd b"]
    by (simp add: on_seg_def c)
qed

lemma seg_refl: "a \<in> seg a b" "b \<in> seg a b"
  by (auto simp: seg_def intro: exI [of _ 0] exI [of _ 1])

lemma cross_affine:
  "cross a b (fst c + t * (fst d - fst c), snd c + t * (snd d - snd c)) = (1 - t) * cross a b c + t * cross a b d"
  by (simp add: cross_def algebra_simps)

lemma cross_on_line: "x \<in> seg a b \<Longrightarrow> cross a b x = 0"
  by (auto simp: seg_def cross_def algebra_simps)

lemma collinear_param:
  assumes "cross a b c = 0" "a \<noteq> b"
  obtains g where "c = (fst a + g * (fst b - fst a), snd a + g * (snd b - snd a))"
proof (cases "fst b = fst a")
  case True
  then have "snd b \<noteq> snd a" using assms(2) by (metis prod_eqI)
  moreover have "fst c = fst a" using assms(1) True calculation by (simp add: cross_def)
  ultimately show thesis
    using True by (intro that [of "(snd c - snd a) / (snd b - snd a)"]) (simp add: prod_eq_iff)
next
  case False
  let ?g = "(fst c - fst a) / (fst b - fst a)"
  have "(fst b - fst a) * (snd c - snd a) = (snd b - snd a) * (fst c - fst a)"
    using assms(1) by (simp add: cross_def)
  then have "snd c - snd a = ?g * (snd b - snd a)" using False by (simp add: field_simps)
  then show thesis using False by (intro that [of ?g]) (simp add: prod_eq_iff)
qed

lemma collinear_overlap:
  assumes ab: "a \<noteq> b" and c: "cross a b c = 0" and d: "cross a b d = 0"
    and x: "x \<in> seg a b" "x \<in> seg c d"
  shows "c \<in> seg a b \<or> d \<in> seg a b \<or> a \<in> seg c d"
proof -
  let ?p = "\<lambda>g. (fst a + g * (fst b - fst a), snd a + g * (snd b - snd a))"
  obtain g where g: "c = ?p g" by (rule collinear_param [OF c ab])
  obtain h where h: "d = ?p h" by (rule collinear_param [OF d ab])
  have inj: "g' = h'" if "?p g' = ?p h'" for g' h'
    using that ab by (auto simp: prod_eq_iff)
  obtain s where s: "0 \<le> s" "s \<le> 1" "x = ?p s" using x(1) by (auto simp: seg_def)
  obtain t where t: "0 \<le> t" "t \<le> 1" "x = (fst c + t * (fst d - fst c), snd c + t * (snd d - snd c))"
    using x(2) by (auto simp: seg_def)
  have "x = ?p (g + t * (h - g))" using t(3) by (simp add: g h algebra_simps)
  then have st: "s = g + t * (h - g)" using s(3) inj by metis
  have in_ab: "?p k \<in> seg a b" if "0 \<le> k" "k \<le> 1" for k using that by (auto simp: seg_def)
  show ?thesis
  proof (rule ccontr)
    assume no: "\<not> ?thesis"
    then have gh: "\<not> (0 \<le> g \<and> g \<le> 1)" "\<not> (0 \<le> h \<and> h \<le> 1)" using in_ab g h by blast+
    have st_range: "min g h \<le> s" "s \<le> max g h" using between_coord [OF t(1,2), of g h] st by simp_all
    then have opp: "(g < 0 \<and> 1 < h) \<or> (h < 0 \<and> 1 < g)" using gh s(1,2) by linarith
    let ?u = "- g / (h - g)"
    have ne: "h - g \<noteq> 0" using opp by auto
    have "0 \<le> ?u \<and> ?u \<le> 1" using opp by (auto simp: field_simps)
    moreover have "a = (fst c + ?u * (fst d - fst c), snd c + ?u * (snd d - snd c))"
    proof -
      have "(fst c + u * (fst d - fst c), snd c + u * (snd d - snd c)) = ?p (g + u * (h - g))" for u
        by (simp add: g h algebra_simps)
      moreover have "g + ?u * (h - g) = 0" using ne by simp
      ultimately show ?thesis by (metis add.right_neutral mult_zero_left prod.collapse)
    qed
    ultimately have "a \<in> seg c d" using segI [of ?u c d] by metis
    with no show False by blast
  qed
qed

lemma meeting_edges_touch:
  assumes x: "x \<in> seg a b" "x \<in> seg c d"
  shows "edges_touch a b c d"
proof (rule ccontr)
  assume no: "\<not> edges_touch a b c d"
  have off: "c \<notin> seg a b" "d \<notin> seg a b" "a \<notin> seg c d" "b \<notin> seg c d"
  proof -
    have "\<not> on_seg a b c" "\<not> on_seg a b d" "\<not> on_seg c d a" "\<not> on_seg c d b"
      using no by (simp_all add: edges_touch_def)
    then show "c \<notin> seg a b" "d \<notin> seg a b" "a \<notin> seg c d" "b \<notin> seg c d" using on_seg_of_mem by metis+
  qed
  have ab: "a \<noteq> b" "c \<noteq> d" using off x seg_point by metis+
  obtain t where t: "0 \<le> t" "t \<le> 1" and xt: "x = (fst c + t * (fst d - fst c), snd c + t * (snd d - snd c))"
    using x(2) by (auto simp: seg_def)
  obtain s where s: "0 \<le> s" "s \<le> 1" and xs: "x = (fst a + s * (fst b - fst a), snd a + s * (snd b - snd a))"
    using x(1) by (auto simp: seg_def)
  have t1: "(1 - t) * cross a b c + t * cross a b d = 0"
    using cross_on_line [OF x(1)] cross_affine [of a b c t d] xt by simp
  have s1: "(1 - s) * cross c d a + s * cross c d b = 0"
    using cross_on_line [OF x(2)] cross_affine [of c d a s b] xs by simp
  have inner: "0 < t" "t < 1" "0 < s" "s < 1"
  proof -
    have "t \<noteq> 0" using xt x(1) off(1) by auto
    moreover have "t \<noteq> 1" using xt x(1) off(2) by auto
    moreover have "s \<noteq> 0" using xs x(2) off(3) by auto
    moreover have "s \<noteq> 1" using xs x(2) off(4) by auto
    ultimately show "0 < t" "t < 1" "0 < s" "s < 1" using s t by simp_all
  qed
  have opp: "p * q < 0" if "(1 - r) * p + r * q = 0" "0 < r" "r < 1" "p \<noteq> 0" for p q r :: real
  proof -
    have "r * q = - ((1 - r) * p)" using that(1) by linarith
    then have "r * (p * q) = - ((1 - r) * (p * p))" by (metis (no_types) mult.left_commute mult_minus_right mult.commute)
    moreover have "0 < (1 - r) * (p * p)" using that by (auto simp: zero_less_mult_iff)
    ultimately show ?thesis using that(2) by (metis mult_less_0_iff neg_less_0_iff_less not_less_iff_gr_or_eq)
  qed
  show False
  proof (cases "cross a b c = 0")
    case True
    then have "cross a b d = 0" using t1 inner by simp
    then show False using collinear_overlap [OF ab(1) True _ x] off by blast
  next
    case False
    show False
    proof (cases "cross c d a = 0")
      case True
      then have "cross c d b = 0" using s1 inner by simp
      then show False using collinear_overlap [OF ab(2) True _ x(2) x(1)] off by blast
    next
      case c: False
      then show False
        using opp [OF t1 inner(1,2) False] opp [OF s1 inner(3,4) c] no by (simp add: edges_touch_def)
    qed
  qed
qed

lemma not_self_touching:
  assumes "\<not> self_touching cs" "i + 2 \<le> j" "Suc j < length cs" "\<not> (i = 0 \<and> j = length cs - 2)"
  shows "\<not> edges_touch (cs ! i) (cs ! Suc i) (cs ! j) (cs ! Suc j)"
proof -
  have "i \<in> set [0..<length cs - 1]" "j \<in> set [i + 2..<length cs - 1]" using assms(2,3) by auto
  then show ?thesis using assms(1,4) unfolding self_touching_def list_ex_iff by blast
qed

section \<open>Properties\<close>

text \<open>An area whose outline is accepted does not cross or touch itself: any two edges of the ring
  that are not neighbours have no point in common.\<close>

theorem accepted_ring_is_simple:
  assumes "validateWayCoordinates cs True = Inr ()"
    and "i + 2 \<le> j" "Suc j < length cs" "\<not> (i = 0 \<and> j = length cs - 2)"
  shows "seg (cs ! i) (cs ! Suc i) \<inter> seg (cs ! j) (cs ! Suc j) = {}"
proof -
  have "\<not> self_touching cs" using assms(1) by (auto simp: validateWayCoordinates_def Let_def throw_if_Inr_iff)
  then show ?thesis using not_self_touching [OF _ assms(2-4)] meeting_edges_touch by blast
qed

definition unit_square :: "point list" where
  "unit_square = [(0, 0), (1, 0), (1, 1), (0, 1), (0, 0)]"

theorem accepted_ring_is_simple_witness:
  "seg (0, 0) (1, 0) \<inter> seg (1, 1) (0, 1) = {}"
proof -
  have "card (set (butlast unit_square)) = 4" by (simp add: unit_square_def)
  moreover have "\<not> repeated_position unit_square"
    by (simp add: repeated_position_def unit_square_def upt_rec)
  moreover have "\<not> self_touching unit_square"
    by (simp add: self_touching_def unit_square_def upt_rec edges_touch_def on_seg_def cross_def)
  moreover have "doubled_area (butlast unit_square) = 2"
    by (simp add: doubled_area_def unit_square_def upt_rec)
  ultimately have "validateWayCoordinates unit_square True = Inr ()"
    by (simp add: validateWayCoordinates_def)
  from accepted_ring_is_simple [OF this, of 0 2] show ?thesis
    by (simp add: unit_square_def)
qed

text \<open>The point found on a segment is the closest one: no other point of the segment is nearer, in
  the metres the editor computes with.\<close>

theorem nearest_point_is_closest:
  assumes "0 \<le> s" "s \<le> 1"
  shows "hdist (nearestPointOnSegment lat lon aLat aLon bLat bLon)
    \<le> sqrt (norm2 (along (to_xy lat lon aLat aLon) (to_xy lat lon bLat bLon) s))"
  using nearest_is_minimal [OF assms] .

theorem nearest_point_is_closest_witness:
  "hdist (nearestPointOnSegment 0 0 1 1 1 2) \<le> sqrt (norm2 (along (to_xy 0 0 1 1) (to_xy 0 0 1 2) 0))"
  by (rule nearest_point_is_closest) simp_all

text \<open>The objects offered for a click lie within the radius asked for, nearest first, at most 20.\<close>

theorem candidates_within_radius:
  "list_all (\<lambda>c. qdist c \<le> radius) (candidatesFromElements cat es lat lon radius)
   \<and> sorted (map qdist (candidatesFromElements cat es lat lon radius))
   \<and> length (candidatesFromElements cat es lat lon radius) \<le> 20"
  using candidates_sound candidates_sorted by (auto simp: list_all_iff)

text \<open>Inserting a vertex keeps both ends of the way and is undone by taking the same position out;
  removing a vertex adds no node, keeps an area closed with at least three nodes, and keeps a line
  of at least two.\<close>

theorem vertex_edits_keep_way:
  "(editWayNodes ns i (Some n) = Inr ns' \<longrightarrow>
      remove_at (Suc (nat i)) ns' = ns \<and> n \<notin> set ns \<and> hd ns' = hd ns \<and> last ns' = last ns \<and> length ns' \<le> 2000)
   \<and> (editWayNodes ns i None = Inr ns' \<longrightarrow>
      set ns' \<subseteq> set ns \<and> (if closed_refs ns then hd ns' = last ns' \<and> 3 \<le> card (set ns')
        else 2 \<le> card (set ns') \<and> length ns' = length ns - 1))"
  using editWayNodes_insert [of ns i n ns'] editWayNodes_roundtrip [of ns i n ns'] editWayNodes_remove [of ns i ns']
  by auto

theorem vertex_edits_keep_way_witness:
  "editWayNodes [1, 2, 3] 0 (Some (-1)) = Inr [1, -1, 2, 3] \<and> remove_at 1 [1, -1, 2, 3::int] = [1, 2, 3]"
proof -
  have "editWayNodes [1, 2, 3] 0 (Some (-1)) = Inr [1, -1, 2, 3]"
    by (simp add: editWayNodes_def insert_at_def safe_int_def)
  then show ?thesis using vertex_edits_keep_way [of "[1, 2, 3]" 0 "-1" "[1, -1, 2, 3]"] by simp
qed

text \<open>A longitude is brought into the range from -180 to 180 by whole turns.\<close>

theorem normLon_wraps: "- 180 \<le> normLon lng \<and> normLon lng < 180 \<and> (\<exists>k::int. normLon lng = lng + 360 * of_int k)"
  using normLon_range normLon_congruent by blast

end
