(* ===== verification/OsmPresets.thy ===== *)
theory OsmPresets
  imports OsmElement
begin

text \<open>
  The presets, typed fields and labels of the guided OSM editor (cmd/web/osm-presets.js): the
  tables as the source has them, the recognition of a preset from the tags of an element, the
  labels of categories and the quality hints of \<open>checkValue\<close>. Unicode case mapping and the URL
  parser are parameters.
\<close>

section \<open>Tables\<close>

definition utf :: "nat list \<Rightarrow> jstr" where
  \<comment> \<open>code units outside of ASCII\<close>
  "utf ns = map word_of_nat ns"

datatype ftype = FText | FHours | FUrl | FTel | FEmail | FChoice | FNumber

record field =
  fkey :: jstr
  flabel :: jstr
  ftype :: ftype
  fplaceholder :: "jstr option"
  fhint :: "jstr option"
  foptions :: "(jstr \<times> jstr) list"
  fsuggestions :: "(jstr \<times> jstr) list option"

datatype geometry = GArea | GLine

record preset =
  plabel :: jstr
  picon :: jstr
  pgroup :: jstr
  pgeometry :: "geometry option"
  psynonyms :: "jstr list"
  ptags :: "(jstr \<times> jstr) list"
  pfields :: "jstr list"
  pbasic :: "jstr list"

definition fields :: "(jstr \<times> field) list" where
  "fields = [
     (lit ''name'', \<lparr>fkey = lit ''name'', flabel = lit ''Name'', ftype = FText,
     fplaceholder = Some (lit ''Nur falls der Ort einen eigenen Namen hat''), fhint = None,
     foptions = [], fsuggestions = None\<rparr>),
     (lit ''opening_hours'', \<lparr>fkey = lit ''opening_hours'',
     flabel = utf [214] @ lit ''ffnungszeiten'', ftype = FHours,
     fplaceholder = Some (lit ''z. B. Mo-Fr 09:00-18:00''),
     fhint = Some (lit ''OSM-Schreibweise mit Bindestrich. Unbekanntes frei lassen.''),
     foptions = [], fsuggestions = Some ([(lit ''24/7'', lit ''Rund um die Uhr''),
     (lit ''Mo-Fr 09:00-18:00'', lit ''Mo'' @ utf [8211] @ lit ''Fr 9'' @ utf [8211] @ lit ''18 Uhr''),
     (lit ''Mo-Sa 08:00-20:00'',
     lit ''Mo'' @ utf [8211] @ lit ''Sa 8'' @ utf [8211] @ lit ''20 Uhr'')])\<rparr>),
     (lit ''website'', \<lparr>fkey = lit ''website'', flabel = lit ''Website'', ftype = FUrl,
     fplaceholder = Some (lit ''https://'' @ utf [8230]), fhint = None, foptions = [],
     fsuggestions = None\<rparr>),
     (lit ''phone'', \<lparr>fkey = lit ''phone'', flabel = lit ''Telefon'', ftype = FTel,
     fplaceholder = Some (lit ''+49 '' @ utf [8230]), fhint = None, foptions = [],
     fsuggestions = None\<rparr>),
     (lit ''email'', \<lparr>fkey = lit ''email'', flabel = lit ''E-Mail'', ftype = FEmail,
     fplaceholder = Some (lit ''name@beispiel.de''), fhint = None, foptions = [],
     fsuggestions = None\<rparr>),
     (lit ''operator'', \<lparr>fkey = lit ''operator'', flabel = lit ''Betreiber'', ftype = FText,
     fplaceholder = None, fhint = None, foptions = [], fsuggestions = None\<rparr>),
     (lit ''ref'', \<lparr>fkey = lit ''ref'', flabel = lit ''Nummer / Kennung'', ftype = FText,
     fplaceholder = Some (lit ''z. B. Nummer vom Schild''), fhint = None, foptions = [],
     fsuggestions = None\<rparr>),
     (lit ''wheelchair'', \<lparr>fkey = lit ''wheelchair'', flabel = lit ''Rollstuhlgerecht'',
     ftype = FChoice, fplaceholder = None, fhint = None, foptions = [(lit ''yes'', lit ''Ja''),
     (lit ''limited'', lit ''Teilweise''), (lit ''no'', lit ''Nein'')],
     fsuggestions = None\<rparr>),
     (lit ''fee'', \<lparr>fkey = lit ''fee'', flabel = lit ''Kostenpflichtig'', ftype = FChoice,
     fplaceholder = None, fhint = None, foptions = [(lit ''yes'', lit ''Ja''), (lit ''no'',
     lit ''Nein'')], fsuggestions = None\<rparr>),
     (lit ''covered'', \<lparr>fkey = lit ''covered'', flabel = utf [220] @ lit ''berdacht'',
     ftype = FChoice, fplaceholder = None, fhint = None, foptions = [(lit ''yes'', lit ''Ja''),
     (lit ''no'', lit ''Nein'')], fsuggestions = None\<rparr>),
     (lit ''capacity'', \<lparr>fkey = lit ''capacity'',
     flabel = lit ''Anzahl Pl'' @ utf [228] @ lit ''tze'', ftype = FNumber, fplaceholder = None,
     fhint = None, foptions = [], fsuggestions = None\<rparr>),
     (lit ''seats'', \<lparr>fkey = lit ''seats'',
     flabel = lit ''Anzahl Sitzpl'' @ utf [228] @ lit ''tze'', ftype = FNumber, fplaceholder = None,
     fhint = None, foptions = [], fsuggestions = None\<rparr>),
     (lit ''backrest'', \<lparr>fkey = lit ''backrest'',
     flabel = lit ''R'' @ utf [252] @ lit ''ckenlehne'', ftype = FChoice, fplaceholder = None,
     fhint = None, foptions = [(lit ''yes'', lit ''Ja''), (lit ''no'', lit ''Nein'')],
     fsuggestions = None\<rparr>),
     (lit ''material'', \<lparr>fkey = lit ''material'', flabel = lit ''Material'',
     ftype = FChoice, fplaceholder = None, fhint = None, foptions = [(lit ''wood'', lit ''Holz''),
     (lit ''metal'', lit ''Metall''), (lit ''stone'', lit ''Stein''), (lit ''concrete'',
     lit ''Beton''), (lit ''plastic'', lit ''Kunststoff'')], fsuggestions = None\<rparr>),
     (lit ''bottle'', \<lparr>fkey = lit ''bottle'',
     flabel = lit ''Flaschen auff'' @ utf [252] @ lit ''llbar'', ftype = FChoice,
     fplaceholder = None, fhint = None, foptions = [(lit ''yes'', lit ''Ja''), (lit ''no'',
     lit ''Nein'')], fsuggestions = None\<rparr>),
     (lit ''seasonal'', \<lparr>fkey = lit ''seasonal'', flabel = lit ''Nur saisonal'',
     ftype = FChoice, fplaceholder = None, fhint = None, foptions = [(lit ''yes'', lit ''Ja''),
     (lit ''no'', lit ''Nein'')], fsuggestions = None\<rparr>),
     (lit ''bicycle_parking'', \<lparr>fkey = lit ''bicycle_parking'', flabel = lit ''Bauart'',
     ftype = FChoice, fplaceholder = None, fhint = None, foptions = [(lit ''stands'',
     lit ''B'' @ utf [252] @ lit ''gel''), (lit ''wall_loops'', lit ''Felgenklemme''), (lit ''rack'',
     lit ''St'' @ utf [228] @ lit ''nder''), (lit ''shed'', lit ''Unterstand''), (lit ''lockers'',
     lit ''Boxen'')], fsuggestions = None\<rparr>),
     (lit ''waste'', \<lparr>fkey = lit ''waste'', flabel = lit ''Inhalt'', ftype = FChoice,
     fplaceholder = None, fhint = None, foptions = [(lit ''trash'',
     lit ''Restm'' @ utf [252] @ lit ''ll''), (lit ''dog_excrement'', lit ''Hundekot'')],
     fsuggestions = None\<rparr>),
     (lit ''changing_table'', \<lparr>fkey = lit ''changing_table'', flabel = lit ''Wickeltisch'',
     ftype = FChoice, fplaceholder = None, fhint = None, foptions = [(lit ''yes'', lit ''Ja''),
     (lit ''no'', lit ''Nein'')], fsuggestions = None\<rparr>),
     (lit ''indoor'', \<lparr>fkey = lit ''indoor'',
     flabel = lit ''Im Geb'' @ utf [228] @ lit ''ude'', ftype = FChoice, fplaceholder = None,
     fhint = None, foptions = [(lit ''yes'', lit ''Ja''), (lit ''no'', lit ''Nein'')],
     fsuggestions = None\<rparr>),
     (lit ''access'', \<lparr>fkey = lit ''access'', flabel = lit ''Zugang'', ftype = FChoice,
     fplaceholder = None,
     fhint = Some (lit ''Beschreibt die Zugangsberechtigung, nicht den Eigent'' @ utf [252] @ lit ''mer. Zeitliche Einschr'' @ utf [228] @ lit ''nkungen separat bei den '' @ utf [214] @ lit ''ffnungszeiten angeben.''),
     foptions = [(lit ''yes'', utf [214] @ lit ''ffentlich zug'' @ utf [228] @ lit ''nglich''),
     (lit ''permissive'', lit ''Mit widerruflicher Erlaubnis''), (lit ''customers'',
     lit ''Nur f'' @ utf [252] @ lit ''r Kundschaft''), (lit ''private'',
     lit ''Nur mit Erlaubnis'')], fsuggestions = None\<rparr>),
     (lit ''defibrillator:location'', \<lparr>fkey = lit ''defibrillator:location'',
     flabel = lit ''Standort beschreiben'', ftype = FText,
     fplaceholder = Some (lit ''z. B. Eingangshalle links''), fhint = None, foptions = [],
     fsuggestions = None\<rparr>),
     (lit ''check_date'', \<lparr>fkey = lit ''check_date'',
     flabel = lit ''Zuletzt vor Ort gepr'' @ utf [252] @ lit ''ft am'', ftype = FText,
     fplaceholder = Some (lit ''JJJJ-MM-TT''),
     fhint = Some (lit ''Nur nach eigener Pr'' @ utf [252] @ lit ''fung vor Ort eintragen.''),
     foptions = [], fsuggestions = None\<rparr>),
     (lit ''source'', \<lparr>fkey = lit ''source'', flabel = lit ''Datenquelle'', ftype = FText,
     fplaceholder = Some (lit ''z. B. survey oder konkrete Quelle''),
     fhint = Some (lit ''Bei eigener Vor-Ort-Pr'' @ utf [252] @ lit ''fung wird '' @ utf [8222] @ lit ''survey'' @ utf [8220] @ lit '' verwendet.''),
     foptions = [], fsuggestions = None\<rparr>),
     (lit ''level:ref'', \<lparr>fkey = lit ''level:ref'',
     flabel = lit ''Etage laut Beschilderung'', ftype = FText,
     fplaceholder = Some (lit ''z. B. EG oder 1. OG''), fhint = None, foptions = [],
     fsuggestions = None\<rparr>),
     (lit ''fire_hydrant:type'', \<lparr>fkey = lit ''fire_hydrant:type'',
     flabel = lit ''Hydrantenart'', ftype = FChoice, fplaceholder = None, fhint = None,
     foptions = [(lit ''underground'', lit ''Unterflur''), (lit ''pillar'',
     utf [220] @ lit ''berflur''), (lit ''wall'', lit ''Wandhydrant''), (lit ''pipe'',
     lit ''Trockener Hydrant (mit Pumpe)'')], fsuggestions = None\<rparr>),
     (lit ''fire_hydrant:diameter'', \<lparr>fkey = lit ''fire_hydrant:diameter'',
     flabel = lit ''Nennweite (DN)'', ftype = FText,
     fplaceholder = Some (lit ''z. B. 80 vom Hydrantenschild''),
     fhint = Some (lit ''Wert vom Hydrantenschild '' @ utf [252] @ lit ''bernehmen; nicht den Anschlussdurchmesser am Hydranten.''),
     foptions = [], fsuggestions = None\<rparr>),
     (lit ''fire_hydrant:position'', \<lparr>fkey = lit ''fire_hydrant:position'',
     flabel = lit ''Lage'', ftype = FChoice, fplaceholder = None, fhint = None,
     foptions = [(lit ''sidewalk'', lit ''Gehweg''), (lit ''lane'', lit ''Fahrbahn''),
     (lit ''parking_lot'', lit ''Parkplatz''), (lit ''green'',
     lit ''Gr'' @ utf [252] @ lit ''nfl'' @ utf [228] @ lit ''che'')], fsuggestions = None\<rparr>),
     (lit ''fire_hydrant:pressure'', \<lparr>fkey = lit ''fire_hydrant:pressure'',
     flabel = lit ''Wasserdruck'', ftype = FChoice, fplaceholder = None, fhint = None,
     foptions = [(lit ''yes'', lit ''Drucknetz''), (lit ''suction'', lit ''Sauganschluss'')],
     fsuggestions = None\<rparr>),
     (lit ''water_source'', \<lparr>fkey = lit ''water_source'', flabel = lit ''Wasserquelle'',
     ftype = FChoice, fplaceholder = None, fhint = None, foptions = [(lit ''main'',
     lit ''Wassernetz''), (lit ''pond'', lit ''Teich''), (lit ''river'', lit ''Fluss''),
     (lit ''lake'', lit ''See''), (lit ''water_tank'',
     lit ''L'' @ utf [246] @ lit ''schwasserbeh'' @ utf [228] @ lit ''lter'')],
     fsuggestions = None\<rparr>),
     (lit ''water_tank:volume'', \<lparr>fkey = lit ''water_tank:volume'',
     flabel = lit ''Fassungsverm'' @ utf [246] @ lit ''gen (Liter)'', ftype = FText,
     fplaceholder = Some (lit ''z. B. 50000 '' @ utf [8211] @ lit '' nur wenn bekannt''),
     fhint = None, foptions = [], fsuggestions = None\<rparr>),
     (lit ''collection_times'', \<lparr>fkey = lit ''collection_times'',
     flabel = lit ''Leerungszeiten'', ftype = FText,
     fplaceholder = Some (lit ''z. B. Mo-Fr 16:00; Sa 12:00''), fhint = None, foptions = [],
     fsuggestions = None\<rparr>),
     (lit ''shelter'', \<lparr>fkey = lit ''shelter'', flabel = lit ''Wetterschutz'',
     ftype = FChoice, fplaceholder = None, fhint = None, foptions = [(lit ''yes'', lit ''Ja''),
     (lit ''no'', lit ''Nein'')], fsuggestions = None\<rparr>),
     (lit ''bench'', \<lparr>fkey = lit ''bench'', flabel = lit ''Sitzgelegenheit'',
     ftype = FChoice, fplaceholder = None, fhint = None, foptions = [(lit ''yes'', lit ''Ja''),
     (lit ''no'', lit ''Nein'')], fsuggestions = None\<rparr>),
     (lit ''bin'', \<lparr>fkey = lit ''bin'', flabel = lit ''M'' @ utf [252] @ lit ''lleimer'',
     ftype = FChoice, fplaceholder = None, fhint = None, foptions = [(lit ''yes'', lit ''Ja''),
     (lit ''no'', lit ''Nein'')], fsuggestions = None\<rparr>),
     (lit ''cuisine'', \<lparr>fkey = lit ''cuisine'', flabel = lit ''K'' @ utf [252] @ lit ''che'',
     ftype = FText, fplaceholder = Some (lit ''z. B. italian, regional''), fhint = None,
     foptions = [], fsuggestions = None\<rparr>),
     (lit ''outdoor_seating'', \<lparr>fkey = lit ''outdoor_seating'',
     flabel = lit ''Au'' @ utf [223] @ lit ''enbereich'', ftype = FChoice, fplaceholder = None,
     fhint = None, foptions = [(lit ''yes'', lit ''Ja''), (lit ''no'', lit ''Nein'')],
     fsuggestions = None\<rparr>),
     (lit ''takeaway'', \<lparr>fkey = lit ''takeaway'', flabel = lit ''Zum Mitnehmen'',
     ftype = FChoice, fplaceholder = None, fhint = None, foptions = [(lit ''yes'', lit ''Ja''),
     (lit ''no'', lit ''Nein'')], fsuggestions = None\<rparr>),
     (lit ''internet_access'', \<lparr>fkey = lit ''internet_access'', flabel = lit ''WLAN'',
     ftype = FChoice, fplaceholder = None, fhint = None, foptions = [(lit ''wlan'', lit ''Ja''),
     (lit ''no'', lit ''Nein'')], fsuggestions = None\<rparr>),
     (lit ''dispensing'', \<lparr>fkey = lit ''dispensing'',
     flabel = lit ''Rezepte werden eingel'' @ utf [246] @ lit ''st'', ftype = FChoice,
     fplaceholder = None, fhint = None, foptions = [(lit ''yes'', lit ''Ja''), (lit ''no'',
     lit ''Nein'')], fsuggestions = None\<rparr>),
     (lit ''cash_in'', \<lparr>fkey = lit ''cash_in'',
     flabel = lit ''Einzahlungen m'' @ utf [246] @ lit ''glich'', ftype = FChoice,
     fplaceholder = None, fhint = None, foptions = [(lit ''yes'', lit ''Ja''), (lit ''no'',
     lit ''Nein'')], fsuggestions = None\<rparr>),
     (lit ''vending'', \<lparr>fkey = lit ''vending'', flabel = lit ''Angebot'', ftype = FChoice,
     fplaceholder = None, fhint = None, foptions = [(lit ''drinks'',
     lit ''Getr'' @ utf [228] @ lit ''nke''), (lit ''food'', lit ''Essen''), (lit ''sweets'',
     lit ''S'' @ utf [252, 223] @ lit ''es''), (lit ''parking_tickets'', lit ''Parkscheine''),
     (lit ''public_transport_tickets'', lit ''Fahrkarten'')], fsuggestions = None\<rparr>),
     (lit ''recycling:glass_bottles'', \<lparr>fkey = lit ''recycling:glass_bottles'',
     flabel = lit ''Glas'', ftype = FChoice, fplaceholder = None, fhint = None,
     foptions = [(lit ''yes'', lit ''Ja''), (lit ''no'', lit ''Nein'')],
     fsuggestions = None\<rparr>),
     (lit ''recycling:paper'', \<lparr>fkey = lit ''recycling:paper'', flabel = lit ''Papier'',
     ftype = FChoice, fplaceholder = None, fhint = None, foptions = [(lit ''yes'', lit ''Ja''),
     (lit ''no'', lit ''Nein'')], fsuggestions = None\<rparr>),
     (lit ''recycling:clothes'', \<lparr>fkey = lit ''recycling:clothes'',
     flabel = lit ''Kleidung'', ftype = FChoice, fplaceholder = None, fhint = None,
     foptions = [(lit ''yes'', lit ''Ja''), (lit ''no'', lit ''Nein'')],
     fsuggestions = None\<rparr>),
     (lit ''recycling:cans'', \<lparr>fkey = lit ''recycling:cans'', flabel = lit ''Dosen'',
     ftype = FChoice, fplaceholder = None, fhint = None, foptions = [(lit ''yes'', lit ''Ja''),
     (lit ''no'', lit ''Nein'')], fsuggestions = None\<rparr>),
     (lit ''service:bicycle:pump'', \<lparr>fkey = lit ''service:bicycle:pump'',
     flabel = lit ''Luftpumpe'', ftype = FChoice, fplaceholder = None, fhint = None,
     foptions = [(lit ''yes'', lit ''Ja''), (lit ''no'', lit ''Nein'')],
     fsuggestions = None\<rparr>),
     (lit ''service:bicycle:tools'', \<lparr>fkey = lit ''service:bicycle:tools'',
     flabel = lit ''Werkzeug'', ftype = FChoice, fplaceholder = None, fhint = None,
     foptions = [(lit ''yes'', lit ''Ja''), (lit ''no'', lit ''Nein'')],
     fsuggestions = None\<rparr>),
     (lit ''shelter_type'', \<lparr>fkey = lit ''shelter_type'',
     flabel = lit ''Art des Unterstands'', ftype = FChoice, fplaceholder = None, fhint = None,
     foptions = [(lit ''public_transport'', lit ''Haltestelle''), (lit ''picnic_shelter'',
     lit ''Rastplatz''), (lit ''weather_shelter'', lit ''Wetterschutz'')],
     fsuggestions = None\<rparr>),
     (lit ''door'', \<lparr>fkey = lit ''door'', flabel = lit ''T'' @ utf [252] @ lit ''rtyp'',
     ftype = FChoice, fplaceholder = None, fhint = None, foptions = [(lit ''hinged'',
     lit ''Dreht'' @ utf [252] @ lit ''r''), (lit ''sliding'',
     lit ''Schiebet'' @ utf [252] @ lit ''r''), (lit ''revolving'', lit ''Karussell''), (lit ''no'',
     lit ''Ohne T'' @ utf [252] @ lit ''r'')], fsuggestions = None\<rparr>),
     (lit ''automatic_door'', \<lparr>fkey = lit ''automatic_door'',
     flabel = lit ''Automatische T'' @ utf [252] @ lit ''r'', ftype = FChoice, fplaceholder = None,
     fhint = None, foptions = [(lit ''yes'', lit ''Ja''), (lit ''no'', lit ''Nein'')],
     fsuggestions = None\<rparr>),
     (lit ''building:levels'', \<lparr>fkey = lit ''building:levels'',
     flabel = lit ''Geschosse '' @ utf [252] @ lit ''ber dem Boden'', ftype = FText,
     fplaceholder = Some (lit ''z. B. 2''),
     fhint = Some (lit ''Ohne Keller und Dachgeschosse; nur bekannte Werte eintragen.''),
     foptions = [], fsuggestions = None\<rparr>),
     (lit ''height'', \<lparr>fkey = lit ''height'',
     flabel = lit ''Gesamth'' @ utf [246] @ lit ''he (Meter)'', ftype = FText,
     fplaceholder = Some (lit ''z. B. 8.5''), fhint = None, foptions = [],
     fsuggestions = None\<rparr>),
     (lit ''maxspeed'', \<lparr>fkey = lit ''maxspeed'',
     flabel = lit ''H'' @ utf [246] @ lit ''chstgeschwindigkeit'', ftype = FText,
     fplaceholder = Some (lit ''z. B. 30 oder walk''), fhint = None, foptions = [],
     fsuggestions = None\<rparr>),
     (lit ''oneway'', \<lparr>fkey = lit ''oneway'',
     flabel = lit ''Einbahnstra'' @ utf [223] @ lit ''e'', ftype = FChoice, fplaceholder = None,
     fhint = None, foptions = [(lit ''yes'', lit ''In Zeichenrichtung''), (lit ''-1'',
     lit ''Gegen Zeichenrichtung''), (lit ''no'', lit ''Nein'')], fsuggestions = None\<rparr>),
     (lit ''width'', \<lparr>fkey = lit ''width'', flabel = lit ''Breite (Meter)'', ftype = FText,
     fplaceholder = Some (lit ''z. B. 2.5''), fhint = None, foptions = [],
     fsuggestions = None\<rparr>),
     (lit ''surface'', \<lparr>fkey = lit ''surface'', flabel = lit ''Untergrund'', ftype = FText,
     fplaceholder = Some (lit ''z. B. sand, gravel''), fhint = None, foptions = [],
     fsuggestions = None\<rparr>),
     (lit ''type'', \<lparr>fkey = lit ''type'', flabel = lit ''Art der Relation'',
     ftype = FChoice, fplaceholder = None, fhint = None, foptions = [(lit ''multipolygon'',
     lit ''Multipolygon (Fl'' @ utf [228] @ lit ''che aus mehreren Wegen)''), (lit ''route'',
     lit ''Route''), (lit ''boundary'', lit ''Grenze''), (lit ''restriction'',
     lit ''Abbiegebeschr'' @ utf [228] @ lit ''nkung''), (lit ''associatedStreet'',
     lit ''Stra'' @ utf [223] @ lit ''e mit Adressen'')], fsuggestions = None\<rparr>),
     (lit ''addr:street'', \<lparr>fkey = lit ''addr:street'',
     flabel = lit ''Stra'' @ utf [223] @ lit ''e'', ftype = FText, fplaceholder = None, fhint = None,
     foptions = [], fsuggestions = None\<rparr>),
     (lit ''addr:housenumber'', \<lparr>fkey = lit ''addr:housenumber'',
     flabel = lit ''Hausnummer'', ftype = FText, fplaceholder = None, fhint = None, foptions = [],
     fsuggestions = None\<rparr>),
     (lit ''addr:postcode'', \<lparr>fkey = lit ''addr:postcode'', flabel = lit ''Postleitzahl'',
     ftype = FText, fplaceholder = None, fhint = None, foptions = [], fsuggestions = None\<rparr>),
     (lit ''addr:city'', \<lparr>fkey = lit ''addr:city'', flabel = lit ''Ort'', ftype = FText,
     fplaceholder = None, fhint = None, foptions = [], fsuggestions = None\<rparr>)]"

definition presets :: "(jstr \<times> preset) list" where
  "presets = [
     (lit ''building'', \<lparr>plabel = lit ''Geb'' @ utf [228] @ lit ''ude'', picon = utf [55356,
     57312], pgroup = lit ''Geb'' @ utf [228] @ lit ''ude & Fl'' @ utf [228] @ lit ''chen'',
     pgeometry = Some GArea, psynonyms = [], ptags = [(lit ''building'', lit ''yes'')],
     pfields = [lit ''name'', lit ''building:levels'', lit ''height''], pbasic = []\<rparr>),
     (lit ''house'', \<lparr>plabel = lit ''Wohnhaus'', picon = utf [55356, 57312],
     pgroup = lit ''Geb'' @ utf [228] @ lit ''ude & Fl'' @ utf [228] @ lit ''chen'',
     pgeometry = Some GArea, psynonyms = [], ptags = [(lit ''building'', lit ''house'')],
     pfields = [lit ''name'', lit ''building:levels'', lit ''height''], pbasic = []\<rparr>),
     (lit ''garage'', \<lparr>plabel = lit ''Garage'', picon = utf [55356, 57312],
     pgroup = lit ''Geb'' @ utf [228] @ lit ''ude & Fl'' @ utf [228] @ lit ''chen'',
     pgeometry = Some GArea, psynonyms = [], ptags = [(lit ''building'', lit ''garage'')],
     pfields = [lit ''name'', lit ''height''], pbasic = []\<rparr>),
     (lit ''grass'', \<lparr>plabel = lit ''Gr'' @ utf [252] @ lit ''nfl'' @ utf [228] @ lit ''che'',
     picon = utf [55356, 57139],
     pgroup = lit ''Geb'' @ utf [228] @ lit ''ude & Fl'' @ utf [228] @ lit ''chen'',
     pgeometry = Some GArea, psynonyms = [], ptags = [(lit ''landuse'', lit ''grass'')],
     pfields = [lit ''name'', lit ''operator''], pbasic = []\<rparr>),
     (lit ''footway'', \<lparr>plabel = lit ''Fu'' @ utf [223] @ lit ''weg'', picon = utf [55357,
     57014], pgroup = lit ''Stra'' @ utf [223] @ lit ''en & Wege'', pgeometry = Some GLine,
     psynonyms = [], ptags = [(lit ''highway'', lit ''footway'')], pfields = [lit ''name'',
     lit ''surface'', lit ''width'', lit ''wheelchair'', lit ''access''], pbasic = []\<rparr>),
     (lit ''cycleway'', \<lparr>plabel = lit ''Radweg'', picon = utf [55357, 57010],
     pgroup = lit ''Stra'' @ utf [223] @ lit ''en & Wege'', pgeometry = Some GLine, psynonyms = [],
     ptags = [(lit ''highway'', lit ''cycleway'')], pfields = [lit ''name'', lit ''surface'',
     lit ''width'', lit ''oneway'', lit ''access''], pbasic = []\<rparr>),
     (lit ''path'', \<lparr>plabel = lit ''Pfad'', picon = utf [55357, 57014],
     pgroup = lit ''Stra'' @ utf [223] @ lit ''en & Wege'', pgeometry = Some GLine, psynonyms = [],
     ptags = [(lit ''highway'', lit ''path'')], pfields = [lit ''name'', lit ''surface'',
     lit ''width'', lit ''access''], pbasic = []\<rparr>),
     (lit ''residential'', \<lparr>plabel = lit ''Wohnstra'' @ utf [223] @ lit ''e'',
     picon = utf [55357, 56983], pgroup = lit ''Stra'' @ utf [223] @ lit ''en & Wege'',
     pgeometry = Some GLine, psynonyms = [], ptags = [(lit ''highway'', lit ''residential'')],
     pfields = [lit ''name'', lit ''maxspeed'', lit ''oneway'', lit ''surface'', lit ''width''],
     pbasic = []\<rparr>),
     (lit ''service'', \<lparr>plabel = lit ''Zufahrt'', picon = utf [55357, 56983],
     pgroup = lit ''Stra'' @ utf [223] @ lit ''en & Wege'', pgeometry = Some GLine, psynonyms = [],
     ptags = [(lit ''highway'', lit ''service'')], pfields = [lit ''name'', lit ''maxspeed'',
     lit ''oneway'', lit ''surface'', lit ''access''], pbasic = []\<rparr>),
     (lit ''cafe'', \<lparr>plabel = lit ''Caf'' @ utf [233], picon = utf [9749],
     pgroup = lit ''Essen & Trinken'', pgeometry = None, psynonyms = [], ptags = [(lit ''amenity'',
     lit ''cafe'')], pfields = [lit ''name'', lit ''opening_hours'', lit ''website'',
     lit ''phone'', lit ''wheelchair'', lit ''outdoor_seating'', lit ''internet_access'',
     lit ''takeaway''], pbasic = []\<rparr>),
     (lit ''restaurant'', \<lparr>plabel = lit ''Restaurant'', picon = utf [55356, 57213, 65039],
     pgroup = lit ''Essen & Trinken'', pgeometry = None, psynonyms = [], ptags = [(lit ''amenity'',
     lit ''restaurant'')], pfields = [lit ''name'', lit ''opening_hours'', lit ''website'',
     lit ''phone'', lit ''wheelchair'', lit ''cuisine'', lit ''outdoor_seating'',
     lit ''takeaway''], pbasic = []\<rparr>),
     (lit ''fast_food'', \<lparr>plabel = lit ''Imbiss'', picon = utf [55356, 57172],
     pgroup = lit ''Essen & Trinken'', pgeometry = None, psynonyms = [], ptags = [(lit ''amenity'',
     lit ''fast_food'')], pfields = [lit ''name'', lit ''opening_hours'', lit ''website'',
     lit ''phone'', lit ''wheelchair'', lit ''cuisine'', lit ''outdoor_seating'',
     lit ''takeaway''], pbasic = []\<rparr>),
     (lit ''pharmacy'', \<lparr>plabel = lit ''Apotheke'', picon = utf [55357, 56458],
     pgroup = lit ''Service'', pgeometry = None, psynonyms = [], ptags = [(lit ''amenity'',
     lit ''pharmacy'')], pfields = [lit ''name'', lit ''opening_hours'', lit ''website'',
     lit ''phone'', lit ''wheelchair'', lit ''dispensing''], pbasic = []\<rparr>),
     (lit ''atm'', \<lparr>plabel = lit ''Geldautomat'', picon = utf [55356, 57319],
     pgroup = lit ''Service'', pgeometry = None, psynonyms = [], ptags = [(lit ''amenity'',
     lit ''atm'')], pfields = [lit ''operator'', lit ''opening_hours'', lit ''wheelchair'',
     lit ''cash_in''], pbasic = []\<rparr>),
     (lit ''post_box'', \<lparr>plabel = lit ''Briefkasten'', picon = utf [55357, 56558],
     pgroup = lit ''Service'', pgeometry = None, psynonyms = [], ptags = [(lit ''amenity'',
     lit ''post_box'')], pfields = [lit ''operator'', lit ''collection_times'', lit ''ref''],
     pbasic = []\<rparr>),
     (lit ''vending_machine'', \<lparr>plabel = lit ''Automat'', picon = utf [55358, 56676],
     pgroup = lit ''Service'', pgeometry = None, psynonyms = [], ptags = [(lit ''amenity'',
     lit ''vending_machine'')], pfields = [lit ''vending'', lit ''operator'',
     lit ''opening_hours''], pbasic = []\<rparr>),
     (lit ''recycling'', \<lparr>plabel = lit ''Recycling'', picon = utf [9851, 65039],
     pgroup = lit ''Service'', pgeometry = None, psynonyms = [], ptags = [(lit ''amenity'',
     lit ''recycling'')], pfields = [lit ''operator'', lit ''recycling:glass_bottles'',
     lit ''recycling:paper'', lit ''recycling:clothes'', lit ''recycling:cans''],
     pbasic = []\<rparr>),
     (lit ''bus_stop'', \<lparr>plabel = lit ''Bushaltestelle'', picon = utf [55357, 56972],
     pgroup = lit ''Verkehr'', pgeometry = None, psynonyms = [], ptags = [(lit ''highway'',
     lit ''bus_stop'')], pfields = [lit ''name'', lit ''ref'', lit ''shelter'', lit ''bench'',
     lit ''bin'', lit ''wheelchair''], pbasic = []\<rparr>),
     (lit ''charging_station'', \<lparr>plabel = lit ''Ladestation'', picon = utf [55357, 56588],
     pgroup = lit ''Verkehr'', pgeometry = None, psynonyms = [], ptags = [(lit ''amenity'',
     lit ''charging_station'')], pfields = [lit ''name'', lit ''operator'', lit ''capacity'',
     lit ''fee'', lit ''opening_hours''], pbasic = []\<rparr>),
     (lit ''bicycle_parking'', \<lparr>plabel = lit ''Fahrradparkplatz'', picon = utf [55357, 57010],
     pgroup = lit ''Verkehr'', pgeometry = None, psynonyms = [], ptags = [(lit ''amenity'',
     lit ''bicycle_parking'')], pfields = [lit ''capacity'', lit ''covered'',
     lit ''bicycle_parking'', lit ''fee''], pbasic = []\<rparr>),
     (lit ''bicycle_repair'', \<lparr>plabel = lit ''Fahrrad-Reparatur'', picon = utf [55357, 56615],
     pgroup = lit ''Verkehr'', pgeometry = None, psynonyms = [], ptags = [(lit ''amenity'',
     lit ''bicycle_repair_station'')], pfields = [lit ''service:bicycle:pump'',
     lit ''service:bicycle:tools'', lit ''opening_hours''], pbasic = []\<rparr>),
     (lit ''bench'', \<lparr>plabel = lit ''Sitzbank'', picon = utf [55358, 56977],
     pgroup = lit ''Drau'' @ utf [223] @ lit ''en'', pgeometry = None, psynonyms = [],
     ptags = [(lit ''amenity'', lit ''bench'')], pfields = [lit ''seats'', lit ''backrest'',
     lit ''material'', lit ''covered''], pbasic = []\<rparr>),
     (lit ''picnic_table'', \<lparr>plabel = lit ''Picknicktisch'', picon = utf [55358, 56826],
     pgroup = lit ''Drau'' @ utf [223] @ lit ''en'', pgeometry = None, psynonyms = [],
     ptags = [(lit ''leisure'', lit ''picnic_table'')], pfields = [lit ''seats'', lit ''material'',
     lit ''covered''], pbasic = []\<rparr>),
     (lit ''drinking_water'', \<lparr>plabel = lit ''Trinkwasser'', picon = utf [55357, 57008],
     pgroup = lit ''Drau'' @ utf [223] @ lit ''en'', pgeometry = None, psynonyms = [],
     ptags = [(lit ''amenity'', lit ''drinking_water'')], pfields = [lit ''bottle'',
     lit ''seasonal'', lit ''wheelchair''], pbasic = []\<rparr>),
     (lit ''waste_basket'', \<lparr>plabel = lit ''M'' @ utf [252] @ lit ''lleimer'',
     picon = utf [55357, 56785, 65039], pgroup = lit ''Drau'' @ utf [223] @ lit ''en'',
     pgeometry = None, psynonyms = [], ptags = [(lit ''amenity'', lit ''waste_basket'')],
     pfields = [lit ''waste'', lit ''covered''], pbasic = []\<rparr>),
     (lit ''toilets'', \<lparr>plabel = utf [214] @ lit ''ffentliche Toilette'', picon = utf [55357,
     57019], pgroup = lit ''Drau'' @ utf [223] @ lit ''en'', pgeometry = None, psynonyms = [],
     ptags = [(lit ''amenity'', lit ''toilets'')], pfields = [lit ''fee'', lit ''wheelchair'',
     lit ''changing_table'', lit ''opening_hours''], pbasic = []\<rparr>),
     (lit ''playground'', \<lparr>plabel = lit ''Spielplatz'', picon = utf [55356, 57248],
     pgroup = lit ''Drau'' @ utf [223] @ lit ''en'', pgeometry = None, psynonyms = [],
     ptags = [(lit ''leisure'', lit ''playground'')], pfields = [lit ''name'', lit ''surface'',
     lit ''wheelchair'', lit ''opening_hours''], pbasic = []\<rparr>),
     (lit ''shelter'', \<lparr>plabel = lit ''Unterstand'', picon = utf [9969, 65039],
     pgroup = lit ''Drau'' @ utf [223] @ lit ''en'', pgeometry = None, psynonyms = [],
     ptags = [(lit ''amenity'', lit ''shelter'')], pfields = [lit ''shelter_type'', lit ''bench'',
     lit ''material''], pbasic = []\<rparr>),
     (lit ''fire_hydrant'', \<lparr>plabel = lit ''Hydrant'', picon = utf [55357, 56978],
     pgroup = lit ''Feuerwehr & Erste Hilfe'', pgeometry = None, psynonyms = [lit ''Hydranten'',
     lit ''L'' @ utf [246] @ lit ''schwasserhydrant''], ptags = [(lit ''emergency'',
     lit ''fire_hydrant'')], pfields = [lit ''name'', lit ''ref'', lit ''operator'',
     lit ''access'', lit ''fire_hydrant:type'', lit ''fire_hydrant:diameter'',
     lit ''fire_hydrant:position'', lit ''fire_hydrant:pressure'', lit ''water_source''],
     pbasic = [lit ''fire_hydrant:type'', lit ''ref'']\<rparr>),
     (lit ''fire_water_pond'', \<lparr>plabel = lit ''L'' @ utf [246] @ lit ''schwasserteich'',
     picon = utf [55358, 57015], pgroup = lit ''Feuerwehr & Erste Hilfe'', pgeometry = None,
     psynonyms = [lit ''L'' @ utf [246] @ lit ''schweiher'', lit ''L'' @ utf [246] @ lit ''schteich'',
     lit ''Feuerl'' @ utf [246] @ lit ''schteich''], ptags = [(lit ''natural'', lit ''water''),
     (lit ''water'', lit ''pond''), (lit ''emergency'', lit ''fire_water_pond'')],
     pfields = [lit ''name'', lit ''ref'', lit ''operator'', lit ''access''],
     pbasic = [lit ''ref'', lit ''access'']\<rparr>),
     (lit ''suction_point'', \<lparr>plabel = lit ''L'' @ utf [246] @ lit ''schwasser-Saugstelle'',
     picon = utf [55357, 56487], pgroup = lit ''Feuerwehr & Erste Hilfe'', pgeometry = None,
     psynonyms = [lit ''Saugstelle'', lit ''L'' @ utf [246] @ lit ''schwasserentnahmestelle''],
     ptags = [(lit ''emergency'', lit ''suction_point'')], pfields = [lit ''name'',
     lit ''water_source'', lit ''ref'', lit ''operator'', lit ''access''],
     pbasic = [lit ''water_source'', lit ''ref'', lit ''access'']\<rparr>),
     (lit ''water_tank'',
     \<lparr>plabel = lit ''L'' @ utf [246] @ lit ''schwasserbeh'' @ utf [228] @ lit ''lter'',
     picon = utf [55357, 57058, 65039], pgroup = lit ''Feuerwehr & Erste Hilfe'', pgeometry = None,
     psynonyms = [lit ''L'' @ utf [246] @ lit ''schwassertank'',
     lit ''L'' @ utf [246] @ lit ''schwasserzisterne''], ptags = [(lit ''emergency'',
     lit ''water_tank'')], pfields = [lit ''name'', lit ''water_tank:volume'', lit ''operator''],
     pbasic = [lit ''water_tank:volume'']\<rparr>),
     (lit ''fire_station'', \<lparr>plabel = lit ''Feuerwache'', picon = utf [55357, 56978],
     pgroup = lit ''Feuerwehr & Erste Hilfe'', pgeometry = None,
     psynonyms = [lit ''Feuerwehrhaus'', lit ''Feuerwehrstation''], ptags = [(lit ''amenity'',
     lit ''fire_station'')], pfields = [lit ''name'', lit ''operator'', lit ''phone'',
     lit ''website'', lit ''opening_hours''], pbasic = [lit ''operator'', lit ''phone'']\<rparr>),
     (lit ''defibrillator'', \<lparr>plabel = lit ''AED / Defibrillator'', picon = utf [10084,
     65039], pgroup = lit ''Feuerwehr & Erste Hilfe'', pgeometry = None, psynonyms = [lit ''AED'',
     lit ''Automatisierter externer Defibrillator''], ptags = [(lit ''emergency'',
     lit ''defibrillator'')], pfields = [lit ''defibrillator:location'', lit ''indoor'',
     lit ''access'', lit ''opening_hours'', lit ''check_date'', lit ''source'', lit ''level:ref'',
     lit ''phone''], pbasic = [lit ''indoor'', lit ''access'', lit ''opening_hours'',
     lit ''defibrillator:location'']\<rparr>),
     (lit ''barrier_free_entrance'', \<lparr>plabel = lit ''Barrierefreier Zugang'',
     picon = utf [9855], pgroup = lit ''Notfall & Zugang'', pgeometry = None, psynonyms = [],
     ptags = [(lit ''entrance'', lit ''yes''), (lit ''wheelchair'', lit ''yes'')],
     pfields = [lit ''door'', lit ''automatic_door'', lit ''wheelchair''], pbasic = []\<rparr>)]"

definition keyLabels :: "(jstr \<times> jstr) list" where
  "keyLabels = [
     (lit ''amenity'', lit ''Art des Ortes''), (lit ''leisure'', lit ''Art des Ortes''),
     (lit ''highway'', lit ''Art des Ortes''), (lit ''emergency'', lit ''Art des Ortes''),
     (lit ''shop'', lit ''Gesch'' @ utf [228] @ lit ''ftsart''), (lit ''tourism'',
     lit ''Art des Ortes''), (lit ''building'', lit ''Geb'' @ utf [228] @ lit ''udeart''),
     (lit ''entrance'', lit ''Zugang''), (lit ''description'', lit ''Beschreibung''),
     (lit ''note'', lit ''Hinweis''), (lit ''source'', lit ''Quelle''), (lit ''contact:phone'',
     lit ''Telefon''), (lit ''contact:website'', lit ''Website''), (lit ''contact:email'',
     lit ''E-Mail'')]"

definition categoryNames :: "(jstr \<times> jstr) list" where
  "categoryNames = [
     (lit ''supermarket'', lit ''Supermarkt''), (lit ''bakery'',
     lit ''B'' @ utf [228] @ lit ''ckerei''), (lit ''butcher'', lit ''Metzgerei''),
     (lit ''convenience'', lit ''Laden''), (lit ''clothes'', lit ''Bekleidung''),
     (lit ''hairdresser'', lit ''Friseur''), (lit ''kiosk'', lit ''Kiosk''), (lit ''florist'',
     lit ''Blumenladen''), (lit ''bank'', lit ''Bank''), (lit ''doctors'', lit ''Arztpraxis''),
     (lit ''dentist'', lit ''Zahnarzt''), (lit ''hospital'', lit ''Krankenhaus''), (lit ''clinic'',
     lit ''Klinik''), (lit ''school'', lit ''Schule''), (lit ''kindergarten'',
     lit ''Kindergarten''), (lit ''library'', lit ''Bibliothek''), (lit ''townhall'',
     lit ''Rathaus''), (lit ''police'', lit ''Polizei''), (lit ''fire_station'',
     lit ''Feuerwehr''), (lit ''place_of_worship'',
     lit ''Kirche / Gebetsst'' @ utf [228] @ lit ''tte''), (lit ''fuel'', lit ''Tankstelle''),
     (lit ''parking'', lit ''Parkplatz''), (lit ''bar'', lit ''Bar''), (lit ''pub'',
     lit ''Kneipe''), (lit ''biergarten'', lit ''Biergarten''), (lit ''ice_cream'',
     lit ''Eisdiele''), (lit ''hotel'', lit ''Hotel''), (lit ''guest_house'', lit ''Pension''),
     (lit ''museum'', lit ''Museum''), (lit ''attraction'',
     lit ''Sehensw'' @ utf [252] @ lit ''rdigkeit''), (lit ''viewpoint'', lit ''Aussichtspunkt''),
     (lit ''park'', lit ''Park''), (lit ''pitch'', lit ''Sportplatz''), (lit ''sports_centre'',
     lit ''Sportzentrum''), (lit ''bus_stop'', lit ''Bushaltestelle''), (lit ''platform'',
     lit ''Haltestelle''), (lit ''station'', lit ''Bahnhof''), (lit ''halt'', lit ''Haltepunkt''),
     (lit ''tram_stop'', lit ''Stra'' @ utf [223] @ lit ''enbahnhalt''), (lit ''residential'',
     lit ''Wohnstra'' @ utf [223] @ lit ''e''), (lit ''service'', lit ''Zufahrt''), (lit ''footway'',
     lit ''Fu'' @ utf [223] @ lit ''weg''), (lit ''cycleway'', lit ''Radweg''), (lit ''house'',
     lit ''Wohnhaus''), (lit ''yes'', lit ''Geb'' @ utf [228] @ lit ''ude''), (lit ''commercial'',
     lit ''Gewerbe''), (lit ''industrial'', lit ''Industrie''), (lit ''office'',
     lit ''B'' @ utf [252] @ lit ''ro''), (lit ''water'', lit ''Gew'' @ utf [228] @ lit ''sser''),
     (lit ''stream'', lit ''Bach''), (lit ''river'', lit ''Fluss''), (lit ''canal'',
     lit ''Kanal''), (lit ''ditch'', lit ''Graben''), (lit ''wood'', lit ''Wald''),
     (lit ''forest'', lit ''Wald''), (lit ''grassland'', lit ''Wiese''), (lit ''meadow'',
     lit ''Wiese''), (lit ''scrub'', lit ''Geb'' @ utf [252] @ lit ''sch''), (lit ''farmland'',
     lit ''Acker''), (lit ''wetland'', lit ''Feuchtgebiet''), (lit ''reservoir'',
     lit ''Speicherbecken''), (lit ''garden'', lit ''Garten''), (lit ''cemetery'',
     lit ''Friedhof''), (lit ''allotments'', lit ''Kleing'' @ utf [228] @ lit ''rten''),
     (lit ''post_office'', lit ''Post''), (lit ''cinema'', lit ''Kino''), (lit ''theatre'',
     lit ''Theater'')]"

definition categoryIcons :: "(jstr \<times> jstr) list" where
  "categoryIcons = [
     (lit ''water'', utf [55357, 56487]), (lit ''stream'', utf [55357, 56487]), (lit ''river'',
     utf [55357, 56487]), (lit ''canal'', utf [55357, 56487]), (lit ''ditch'', utf [55357, 56487]),
     (lit ''reservoir'', utf [55357, 56487]), (lit ''wood'', utf [55356, 57138]), (lit ''forest'',
     utf [55356, 57138]), (lit ''grassland'', utf [55356, 57151]), (lit ''meadow'', utf [55356, 57151]),
     (lit ''scrub'', utf [55356, 57151]), (lit ''farmland'', utf [55356, 57150]), (lit ''garden'',
     utf [55356, 57151]), (lit ''park'', utf [55356, 57139]), (lit ''supermarket'', utf [55357, 57042]),
     (lit ''convenience'', utf [55357, 57042]), (lit ''bakery'', utf [55358, 56662]), (lit ''butcher'',
     utf [55358, 56681]), (lit ''hospital'', utf [55356, 57317]), (lit ''clinic'', utf [55356, 57317]),
     (lit ''doctors'', utf [55358, 56954]), (lit ''dentist'', utf [55358, 56759]), (lit ''school'',
     utf [55356, 57323]), (lit ''kindergarten'', utf [55358, 56824]), (lit ''library'', utf [55357,
     56538]), (lit ''museum'', utf [55356, 57307, 65039]), (lit ''place_of_worship'', utf [9962]),
     (lit ''fuel'', utf [9981]), (lit ''parking'', utf [55356, 56703, 65039]), (lit ''bank'', utf [55356,
     57318]), (lit ''post_office'', utf [55357, 56558]), (lit ''hotel'', utf [55356, 57320]),
     (lit ''guest_house'', utf [55356, 57320]), (lit ''fire_station'', utf [55357, 56978]),
     (lit ''police'', utf [55357, 56979]), (lit ''townhall'', utf [55356, 57307, 65039]), (lit ''bar'',
     utf [55356, 57210]), (lit ''pub'', utf [55356, 57210]), (lit ''biergarten'', utf [55356, 57210]),
     (lit ''ice_cream'', utf [55356, 57190]), (lit ''station'', utf [55357, 56969]), (lit ''halt'',
     utf [55357, 56969]), (lit ''tram_stop'', utf [55357, 56971]), (lit ''platform'', utf [55357,
     56975]), (lit ''house'', utf [55356, 57312]), (lit ''residential'', utf [55356, 57312]),
     (lit ''yes'', utf [55356, 57312]), (lit ''cemetery'', utf [55358, 56998]), (lit ''pitch'',
     utf [9917]), (lit ''sports_centre'', utf [55356, 57311, 65039])]"

definition address :: "jstr list" where
  "address = [
     lit ''addr:street'', lit ''addr:housenumber'', lit ''addr:postcode'', lit ''addr:city'']"

definition genericFields :: "jstr list" where
  "genericFields = [
     lit ''name'', lit ''opening_hours'', lit ''website'', lit ''phone'', lit ''email'',
     lit ''wheelchair'']"

definition primaryCategoryKeys :: "jstr list" where
  "primaryCategoryKeys = [
     lit ''shop'', lit ''amenity'', lit ''office'', lit ''tourism'', lit ''leisure'',
     lit ''railway'', lit ''public_transport'', lit ''emergency'', lit ''craft'', lit ''historic'',
     lit ''highway'', lit ''building'']"

section \<open>Recognising a preset\<close>

definition keyLabel :: "jstr \<Rightarrow> jstr" where
  "keyLabel k = (case map_of fields k of
     Some f \<Rightarrow> flabel f
   | None \<Rightarrow> (case map_of keyLabels k of Some l \<Rightarrow> l | None \<Rightarrow> k))"

text \<open>More tags first; among equally many, those without a \<open>building\<close> tag first.\<close>

definition preset_rank :: "preset \<Rightarrow> int" where
  "preset_rank p = (if has_own (ptags p) (lit ''building'') then 1 else 0) - 2 * int (length (ptags p))"

definition ranked :: "(jstr \<times> preset) list" where
  "ranked = sort_key (\<lambda>(k, p). preset_rank p) presets"

definition preset_matches :: "tag_map \<Rightarrow> preset \<Rightarrow> bool" where
  "preset_matches tagSet p \<longleftrightarrow> list_all (\<lambda>(k, v). map_of tagSet k = Some v) (ptags p)"

definition presetKeyForTags :: "tag_map \<Rightarrow> jstr" where
  "presetKeyForTags tagSet =
     (case find (\<lambda>(k, p). preset_matches tagSet p) ranked of Some (k, p) \<Rightarrow> k | None \<Rightarrow> [])"

definition presetForTags :: "tag_map \<Rightarrow> preset option" where
  "presetForTags tagSet = map_of presets (presetKeyForTags tagSet)"

definition fieldsFor :: "tag_map \<Rightarrow> preset option \<times> field option list \<times> field option list" where
  "fieldsFor tagSet =
     (let p = presetForTags tagSet
      in (p, map (map_of fields) (case p of Some q \<Rightarrow> pfields q | None \<Rightarrow> genericFields),
          map (map_of fields) address))"

section \<open>Categories\<close>

definition humanize :: "(jstr \<Rightarrow> jstr) \<Rightarrow> jstr \<Rightarrow> jstr" where
  "humanize upper s = (let t = trim (map (\<lambda>c. if c = 95 then 32 else c) s)
     in case t of [] \<Rightarrow> [] | c # r \<Rightarrow> upper [c] @ r)"

definition category_preset :: "jstr \<Rightarrow> preset option" where
  "category_preset k = find (\<lambda>p. k \<in> snd ` set (ptags p) \<and> length (ptags p) = 1) (map snd presets)"

definition categoryLabel :: "(jstr \<Rightarrow> jstr) \<Rightarrow> jstr \<Rightarrow> jstr" where
  "categoryLabel upper value =
     (let k = trim value
      in if k = [] then []
         else case category_preset k of
           Some p \<Rightarrow> plabel p
         | None \<Rightarrow> (case map_of categoryNames k of Some n \<Rightarrow> n | None \<Rightarrow> humanize upper k))"

definition categoryIcon :: "jstr \<Rightarrow> jstr" where
  "categoryIcon value =
     (let k = trim value
      in case category_preset k of
           Some p \<Rightarrow> picon p
         | None \<Rightarrow> (case map_of categoryIcons k of Some n \<Rightarrow> n | None \<Rightarrow> utf [55357, 56525]))"

definition isRawLabel :: "(jstr \<Rightarrow> jstr) \<Rightarrow> jstr \<Rightarrow> jstr \<Rightarrow> bool" where
  "isRawLabel lower label category \<longleftrightarrow>
     label = [] \<or> lower (trim label) = lower (trim (map (\<lambda>c. if c = 95 then 32 else c) category))"

definition primaryCategory :: "tag_map \<Rightarrow> jstr" where
  "primaryCategory tagSet =
     (case find (\<lambda>k. case map_of tagSet k of Some v \<Rightarrow> v \<noteq> [] | None \<Rightarrow> False) primaryCategoryKeys of
        Some k \<Rightarrow> the (map_of tagSet k)
      | None \<Rightarrow> [])"

section \<open>Hints\<close>

datatype hint =
    NoHint | DateFormat | NoSuchDate | FutureDate | UrlScheme | UrlIncomplete | TelChars
  | NotEmail | NotInteger | LongDash | OddHours

type_synonym date = "nat \<times> nat \<times> nat"   \<comment> \<open>year, month, day\<close>

text \<open>\<open>/^(\d{4})-(\d{2})-(\d{2})$/\<close>\<close>

fun date_match :: "jstr \<Rightarrow> date option" where
  "date_match [y1, y2, y3, y4, d1, m1, m2, d2, t1, t2] =
     (if list_all is_digit [y1, y2, y3, y4, m1, m2, t1, t2] \<and> d1 = 45 \<and> d2 = 45
      then Some (undigits [y1, y2, y3, y4], undigits [m1, m2], undigits [t1, t2]) else None)"
| "date_match _ = None"

definition leap :: "nat \<Rightarrow> bool" where
  "leap y \<longleftrightarrow> y mod 4 = 0 \<and> (y mod 100 \<noteq> 0 \<or> y mod 400 = 0)"

definition days_in :: "nat \<Rightarrow> nat \<Rightarrow> nat" where
  "days_in y m = (if m = 2 then (if leap y then 29 else 28) else if m \<in> {4, 6, 9, 11} then 30 else 31)"

text \<open>\<open>Date.UTC(y, m-1, d)\<close> has these three components again: the month and the day are in range,
  and the year is not one of 0 to 99, which \<open>Date.UTC\<close> moves to the 20th century.\<close>

definition date_exists :: "date \<Rightarrow> bool" where
  "date_exists dt = (case dt of (y, m, d) \<Rightarrow>
     100 \<le> y \<and> 1 \<le> m \<and> m \<le> 12 \<and> 1 \<le> d \<and> d \<le> days_in y m)"

definition date_less :: "date \<Rightarrow> date \<Rightarrow> bool" where
  "date_less a b = (case (a, b) of ((y, m, d), (y', m', d')) \<Rightarrow>
     y < y' \<or> y = y' \<and> (m < m' \<or> m = m' \<and> d < d'))"

definition tel_char :: "16 word \<Rightarrow> bool" where
  "tel_char c \<longleftrightarrow> is_digit c \<or> c \<in> set (lit ''+()-/ .;'')"

definition is_letter :: "16 word \<Rightarrow> bool" where
  "is_letter c \<longleftrightarrow> (65 \<le> unat c \<and> unat c \<le> 90) \<or> (97 \<le> unat c \<and> unat c \<le> 122)"

definition hours_char :: "16 word \<Rightarrow> bool" where
  "hours_char c \<longleftrightarrow> is_digit c \<or> is_letter c \<or> c \<in> set (lit '':;,.-+/ ()'') \<or> c = 34 \<or> c = 39"

text \<open>\<open>/^[^@\s]+@[^@\s]+\.[^@\s]+$/\<close>\<close>

definition email_match :: "jstr \<Rightarrow> bool" where
  "email_match s \<longleftrightarrow>
     (let local_part = takeWhile (\<lambda>c. c \<noteq> 64) s; domain = drop (Suc (length local_part)) s
      in list_all (\<lambda>c. \<not> js_space c) s \<and> local_part \<noteq> [] \<and> length local_part < length s
         \<and> 64 \<notin> set domain \<and> 46 \<in> set (butlast (tl domain)))"

definition checkValue :: "(jstr \<Rightarrow> jstr option) \<Rightarrow> date \<Rightarrow> field option \<Rightarrow> jstr \<Rightarrow> hint" where
  "checkValue url_protocol today fo value =
     (let text = trim value in
      case fo of
        None \<Rightarrow> NoHint
      | Some f \<Rightarrow>
          if text = [] then NoHint
          else
            let date_hint =
                  (if fkey f = lit ''check_date'' then
                     (case date_match text of
                        None \<Rightarrow> DateFormat
                      | Some dt \<Rightarrow> if \<not> date_exists dt then NoSuchDate
                                   else if date_less today dt then FutureDate else NoHint)
                   else NoHint)
            in if date_hint \<noteq> NoHint then date_hint
               else case ftype f of
                 FUrl \<Rightarrow> (case url_protocol text of
                    None \<Rightarrow> UrlIncomplete
                  | Some p \<Rightarrow> if p \<in> {lit ''http:'', lit ''https:''} then NoHint else UrlScheme)
               | FTel \<Rightarrow> if list_ex (\<lambda>c. \<not> tel_char c) text then TelChars else NoHint
               | FEmail \<Rightarrow> if email_match text then NoHint else NotEmail
               | FNumber \<Rightarrow> if list_all is_digit text then NoHint else NotInteger
               | FHours \<Rightarrow>
                   if list_ex (\<lambda>c. c \<in> {0x2013, 0x2014}) text then LongDash
                   else if list_ex (\<lambda>c. \<not> hours_char c) text then OddHours
                   else NoHint
               | _ \<Rightarrow> NoHint)"

section \<open>The tables are consistent\<close>

lemma preset_fields_exist:
  "list_all (\<lambda>(k, p). list_all (\<lambda>f. f \<in> set (map fst fields)) (pfields p @ pbasic p)) presets"
  by (simp add: presets_def fields_def)

lemma generic_fields_exist: "list_all (\<lambda>f. f \<in> set (map fst fields)) (genericFields @ address)"
  by (simp add: genericFields_def address_def fields_def)

lemma preset_keys_distinct: "distinct (map fst presets)"
  by (simp add: presets_def)

lemma preset_keys_nonempty: "list_all (\<lambda>(k, p). k \<noteq> []) presets"
  by (simp add: presets_def)

lemma preset_tags_distinct: "distinct (map (\<lambda>(k, p). set (ptags p)) presets)"
  by (simp add: presets_def, rule notI, drule equalityD1, simp)

lemma preset_tag_keys: "list_all (\<lambda>(k, p). distinct (map fst (ptags p)) \<and> ptags p \<noteq> []) presets"
  by (simp add: presets_def)

section \<open>The most specific preset is found\<close>

lemma ranked_set: "set ranked = set presets"
  by (simp add: ranked_def)

lemma find_first:
  assumes "find P xs = Some x"
  obtains i where "i < length xs" "xs ! i = x" "P x" "\<And>y. y \<in> set xs \<Longrightarrow> P y \<Longrightarrow> \<exists>j\<ge>i. j < length xs \<and> xs ! j = y"
  using assms unfolding find_Some_iff
  by (metis in_set_conv_nth not_le_imp_less)

lemma presetKey_found:
  assumes "presetKeyForTags ts = k" "k \<noteq> []"
  obtains p where "(k, p) \<in> set presets" "preset_matches ts p"
    "\<And>k' q. (k', q) \<in> set presets \<Longrightarrow> preset_matches ts q \<Longrightarrow> length (ptags q) \<le> length (ptags p)"
proof -
  let ?P = "\<lambda>(k, p). preset_matches ts p"
  obtain p where f: "find ?P ranked = Some (k, p)"
    using assms by (auto simp: presetKeyForTags_def split: option.splits)
  obtain i where i: "i < length ranked" "ranked ! i = (k, p)" "preset_matches ts p"
    and later: "\<And>y. y \<in> set ranked \<Longrightarrow> ?P y \<Longrightarrow> \<exists>j\<ge>i. j < length ranked \<and> ranked ! j = y"
    using find_first [OF f] by (metis case_prod_conv)
  have "length (ptags q) \<le> length (ptags p)" if q: "(k', q) \<in> set presets" "preset_matches ts q" for k' q
  proof -
    obtain j where j: "i \<le> j" "j < length ranked" "ranked ! j = (k', q)"
      using later [of "(k', q)"] q by (auto simp: ranked_set)
    have "sorted (map (\<lambda>(k, p). preset_rank p) ranked)" by (simp add: ranked_def)
    then have "map (\<lambda>(k, p). preset_rank p) ranked ! i \<le> map (\<lambda>(k, p). preset_rank p) ranked ! j"
      using j by (intro sorted_nth_mono) auto
    then have "preset_rank p \<le> preset_rank q" using i j by simp
    then show ?thesis by (auto simp: preset_rank_def split: if_splits)
  qed
  moreover have "(k, p) \<in> set presets" using i by (metis nth_mem ranked_set)
  ultimately show thesis using that i(3) by blast
qed

lemma presetKey_not_found:
  assumes "presetKeyForTags ts = []" "(k, p) \<in> set presets"
  shows "\<not> preset_matches ts p"
proof
  assume m: "preset_matches ts p"
  then obtain k' q where f: "find (\<lambda>(k, p). preset_matches ts p) ranked = Some (k', q)"
    using assms(2) by (cases "find (\<lambda>(k, p). preset_matches ts p) ranked")
      (auto simp: find_None_iff ranked_set)
  then have "(k', q) \<in> set presets" by (metis find_Some_iff nth_mem ranked_set)
  then have "k' \<noteq> []" using preset_keys_nonempty by (auto simp: list_all_iff)
  with f assms(1) show False by (simp add: presetKeyForTags_def)
qed

lemma preset_matches_own: "(k, p) \<in> set presets \<Longrightarrow> preset_matches (ptags p) p"
  using preset_tag_keys by (auto simp: preset_matches_def list_all_iff)

lemma preset_matches_subset: "preset_matches ts p \<Longrightarrow> set (ptags p) \<subseteq> set ts"
  by (auto simp: preset_matches_def list_all_iff dest: map_of_SomeD)

text \<open>The tags \<open>applyPreset\<close> sets are recognised as that preset again.\<close>

lemma presetKey_own_tags:
  assumes "(k, p) \<in> set presets"
  shows "presetKeyForTags (ptags p) = k"
proof -
  have "presetKeyForTags (ptags p) \<noteq> []"
    using presetKey_not_found [OF _ assms] preset_matches_own [OF assms] by blast
  then obtain q where q: "(presetKeyForTags (ptags p), q) \<in> set presets" "preset_matches (ptags p) q"
    and most: "length (ptags p) \<le> length (ptags q)"
    using presetKey_found [OF refl] preset_matches_own [OF assms] assms by metis
  have sub: "set (ptags q) \<subseteq> set (ptags p)" using preset_matches_subset [OF q(2)] .
  have "card (set (ptags r)) = length (ptags r)" if "(k', r) \<in> set presets" for k' r
    using preset_tag_keys that by (auto simp: list_all_iff distinct_map intro!: distinct_card)
  then have "card (set (ptags p)) \<le> card (set (ptags q))" using q assms most by simp
  then have "set (ptags q) = set (ptags p)" using sub by (simp add: card_seteq)
  then have "(presetKeyForTags (ptags p), q) = (k, p)"
    using preset_tags_distinct q(1) assms by (auto simp: distinct_map inj_on_def)
  then show ?thesis by simp
qed

section \<open>Properties\<close>

text \<open>The preset shown for an object is one whose tags the object has, and no preset with more
  tags matches; no preset is shown exactly when none matches.\<close>

theorem preset_most_specific:
  "(presetKeyForTags ts = [] \<longleftrightarrow> filter (\<lambda>(k, p). preset_matches ts p) presets = [])
   \<and> (presetKeyForTags ts = []
      \<or> list_ex (\<lambda>(k, p). presetKeyForTags ts = k \<and> preset_matches ts p
            \<and> list_all (\<lambda>(k', q). length (ptags q) \<le> length (ptags p))
                (filter (\<lambda>(k', q). preset_matches ts q) presets)) presets)"
proof (cases "presetKeyForTags ts = []")
  case True
  then show ?thesis using presetKey_not_found [OF True] by (auto simp: filter_empty_conv)
next
  case False
  obtain p where p: "(presetKeyForTags ts, p) \<in> set presets" "preset_matches ts p"
    "\<And>k' q. (k', q) \<in> set presets \<Longrightarrow> preset_matches ts q \<Longrightarrow> length (ptags q) \<le> length (ptags p)"
    using presetKey_found [OF refl False] by metis
  have "list_ex (\<lambda>(k, p). presetKeyForTags ts = k \<and> preset_matches ts p
            \<and> list_all (\<lambda>(k', q). length (ptags q) \<le> length (ptags p))
                (filter (\<lambda>(k', q). preset_matches ts q) presets)) presets"
    unfolding list_ex_iff using p by (intro bexI [of _ "(presetKeyForTags ts, p)"]) (auto simp: list_all_iff)
  then show ?thesis using False p(1,2) by (auto simp: filter_empty_conv)
qed

text \<open>Choosing any preset and looking at the tags it set shows that preset again, and every field
  a preset lists is one the editor knows.\<close>

theorem presets_consistent:
  "list_all (\<lambda>(k, p). presetKeyForTags (ptags p) = k) presets"
  using presetKey_own_tags by (auto simp: list_all_iff)

end
