(* ===== verification/EditorState.thy ===== *)
theory EditorState
  imports OsmExport OsmGeometry OsmPresets "HOL-Library.Multiset"
begin

text \<open>
  The state of the OSM editor (\<open>create\<close> in cmd/web/osm-editor.js) and the operations that do not
  change the set of drafts: modes and tabs, the form of the open object, the persistence of drafts
  with its undo history, and what the buttons show. The element tree of the page is not modelled;
  its inputs are arguments, and what \<open>syncUI\<close> enables is a function of the state.
\<close>

section \<open>State\<close>

datatype tab = TabFind | TabEdit | TabDrafts | TabRelations

datatype care = Basic | Professional

datatype draw_kind = DrawLine | DrawArea

record cur =
  cur_base :: "element option"
  cur_value :: element
  cur_center :: "point option"
  cur_pending :: "draft list"
  cur_shape :: "shape option"
  cur_nodes :: "(int \<rightharpoonup> element) option"
  cur_secret :: "jstr option"       \<comment> \<open>\<open>confidentialID\<close>\<close>

record draw_point =
  dp_at :: point
  dp_node :: "int option"

datatype edit_err =
    OsmErr err
  | GeoErr geo_err
  | NewNodeNeedsTag | InnerVertexOnly | NoSharedEnd | NodeBaseMissing | BadCoordinates
  | UsageUnknown | StillUsed nat | TooManyElements | BusyNow | VersionConflict | UnsavedChanges
  | MalformedReply | FileTooLarge | NeedsOneProperty

datatype notice =
    Quiet
  | Failed edit_err
  | OpenChanges           \<comment> \<open>the reason \<open>canSwitch\<close> gives\<close>
  | Done                  \<comment> \<open>the confirmation of the operation\<close>
  | Refused               \<comment> \<open>the operation's own explanation of why it did nothing\<close>

record editor =
  drafts :: "draft list"
  current :: "cur option"
  working :: "(jstr \<times> jstr) list"
  members :: "member list"
  dirty :: bool
  busy :: bool
  viewActive :: bool
  placing :: bool
  tab :: tab
  presetOpen :: bool
  customKind :: bool
  careMode :: care
  presetSearchTerm :: jstr
  presetAllOpen :: bool
  undo :: "draft list list"
  redo :: "draft list list"
  checkedFor :: "(tyval \<times> int \<times> int option) multiset option"
  conflicts :: "version_issue list"
  validForm :: bool
  geometryMode :: bool
  dragNodeId :: "int option"
  splitMode :: bool
  insertMode :: bool
  selectedVertexId :: "int option"
  dragPreview :: "int \<rightharpoonup> point"
  mapElements :: "raw_element list"
  drawing :: bool
  drawPoints :: "draw_point list"
  drawKind :: draw_kind
  drawSnapNodes :: "(int \<times> point) list option"
  pendingDrawTags :: "tag_map option"
  saved :: "draft list"                \<comment> \<open>the text of the last persisted drafts\<close>
  secretToggle :: bool                 \<comment> \<open>\<open>osmConfidentialToggle.checked\<close>\<close>
  stored :: "draft list option"        \<comment> \<open>what \<open>localStorage\<close> holds\<close>
  said :: notice

text \<open>\<open>JSON.stringify(drafts)\<close> is injective on drafts (\<open>js_of_element_inj\<close>), so the history holds
  the draft lists themselves.\<close>

definition init_editor :: "draft list option \<Rightarrow> editor" where
  "init_editor restored =
     \<lparr>drafts = (case restored of Some ds \<Rightarrow> ds | None \<Rightarrow> []), current = None, working = [], members = [],
      dirty = False, busy = False, viewActive = False, placing = False, tab = TabFind,
      presetOpen = False, customKind = False, careMode = Basic, presetSearchTerm = [],
      presetAllOpen = False, undo = [], redo = [], checkedFor = None, conflicts = [],
      validForm = False, geometryMode = False, dragNodeId = None, splitMode = False,
      insertMode = False, selectedVertexId = None, dragPreview = Map.empty, mapElements = [],
      drawing = False, drawPoints = [], drawKind = DrawLine, drawSnapNodes = None,
      pendingDrawTags = None, saved = (case restored of Some ds \<Rightarrow> ds | None \<Rightarrow> []),
      secretToggle = False, stored = restored, said = Quiet\<rparr>"

section \<open>Reading the state\<close>

definition versions :: "editor \<Rightarrow> (tyval \<times> int \<times> int option) multiset" where
  \<comment> \<open>The source compares the text of the sorted list: two lists have the same text if and only
     if they hold the same entries in some order.\<close>
  "versions e = mset (map (\<lambda>b. (etype b, eid b, eversion b)) (List.map_filter base_of (drafts e)))"

definition sameObject :: "draft \<Rightarrow> draft \<Rightarrow> bool" where
  "sameObject a b \<longleftrightarrow> keyOf a = keyOf b"

definition cur_key :: "cur \<Rightarrow> jstr" where
  "cur_key c = elem_key (etype (cur_value c)) (eid (cur_value c))"

definition isCurrent :: "editor \<Rightarrow> draft \<Rightarrow> bool" where
  "isCurrent e d \<longleftrightarrow> \<not> is_deleted d \<and>
     (case current e of Some c \<Rightarrow> keyOf d = cur_key c | None \<Rightarrow> False)"

definition trimmed :: "editor \<Rightarrow> (jstr \<times> jstr) list" where
  "trimmed e = map (\<lambda>(k, v). (trim k, trim v)) (working e)"

definition valueOf :: "editor \<Rightarrow> jstr \<Rightarrow> jstr" where
  "valueOf e k = (case find (\<lambda>r. fst r = k) (working e) of Some r \<Rightarrow> snd r | None \<Rightarrow> [])"

definition tags_of_rows :: "(jstr \<times> jstr) list \<Rightarrow> err + tag_map" where
  "tags_of_rows rows = tags (map (\<lambda>(k, v). (k, JStr v)) rows)"

definition tagsNow :: "editor \<Rightarrow> tag_map" where
  "tagsNow e = (case tags_of_rows (trimmed e) of
     Inr ts \<Rightarrow> ts
   | Inl _ \<Rightarrow> from_entries (filter (\<lambda>(k, v). k \<noteq> [] \<and> v \<noteq> []) (trimmed e)))"

fun row_index :: "jstr \<Rightarrow> (jstr \<times> jstr) list \<Rightarrow> nat option" where
  "row_index k [] = None"
| "row_index k (r # rs) = (if fst r = k then Some 0 else map_option Suc (row_index k rs))"

definition setValue :: "jstr \<Rightarrow> jstr \<Rightarrow> editor \<Rightarrow> editor" where
  "setValue k v e =
     (case row_index k (working e) of
        Some i \<Rightarrow> if trim v = [] then e\<lparr>working := remove_at i (working e)\<rparr>
                  else e\<lparr>working := (working e)[i := (fst (working e ! i), v)]\<rparr>
      | None \<Rightarrow> if trim v = [] then e else e\<lparr>working := working e @ [(k, v)]\<rparr>)"

section \<open>Modes\<close>

datatype mode = MDraw | MPlace | MGeometry | MPick

definition mode :: "editor \<Rightarrow> mode option" where
  "mode e =
     (if \<not> viewActive e \<and> \<not> drawing e \<and> \<not> placing e then None
      else if drawing e then Some MDraw
      else if placing e then Some MPlace
      else if geometryMode e then Some MGeometry
      else if viewActive e \<and> tab e = TabFind \<and> \<not> busy e then Some MPick
      else None)"

definition cancel :: "editor \<Rightarrow> editor" where
  "cancel e = e\<lparr>placing := False, drawing := False, drawPoints := [], drawSnapNodes := None,
     pendingDrawTags := None\<rparr>"

definition setTab :: "tab \<Rightarrow> editor \<Rightarrow> editor" where
  "setTab name e =
     (let e = (if name \<noteq> TabEdit \<and> geometryMode e
               then e\<lparr>geometryMode := False, insertMode := False, selectedVertexId := None,
                      dragNodeId := None, dragPreview := Map.empty\<rparr>
               else e)
      in e\<lparr>tab := name\<rparr>)"

definition setBusy :: "bool \<Rightarrow> editor \<Rightarrow> editor" where
  "setBusy v e = (if v then e\<lparr>placing := False\<rparr> else e)\<lparr>busy := v\<rparr>"

definition say :: "notice \<Rightarrow> editor \<Rightarrow> editor" where
  "say n e = e\<lparr>said := n\<rparr>"

section \<open>Persistence and history\<close>

text \<open>\<open>undo.push(saved);if(undo.length>30)undo.shift();\<close>\<close>

definition push30 :: "'a \<Rightarrow> 'a list \<Rightarrow> 'a list" where
  "push30 x xs = (let ys = xs @ [x] in if 30 < length ys then tl ys else ys)"

interpretation undo_log: bounded_log 30 push30
proof
  fix x :: 'a and xs
  show "set (push30 x xs) \<subseteq> insert x (set xs)"
    by (cases xs) (auto simp: push30_def Let_def)
  show "push30 x xs \<noteq> [] \<and> last (push30 x xs) = x"
    by (cases xs) (auto simp: push30_def Let_def)
qed (simp add: push30_def Let_def)

definition persist :: "bool \<Rightarrow> bool \<Rightarrow> editor \<Rightarrow> editor" where
  \<comment> \<open>\<open>storable\<close>: whether \<open>localStorage.setItem\<close> succeeds\<close>
  "persist storable record e =
     (let e = (if record \<and> drafts e \<noteq> saved e
               then e\<lparr>undo := push30 (saved e) (undo e), redo := []\<rparr> else e)
      in e\<lparr>saved := drafts e, stored := (if storable then Some (drafts e) else stored e)\<rparr>)"

definition canSwitch :: "editor \<Rightarrow> bool" where
  "canSwitch e \<longleftrightarrow> \<not> dirty e \<and> \<not> busy e"

definition refuse_switch :: "editor \<Rightarrow> editor" where
  \<comment> \<open>the effect of a \<open>canSwitch\<close> that answers no\<close>
  "refuse_switch e = (if dirty e then setTab TabEdit (say OpenChanges e) else e)"

definition closeCurrent :: "editor \<Rightarrow> editor" where
  "closeCurrent e = e\<lparr>current := None, working := [], members := [], dirty := False,
     presetOpen := False, customKind := False, careMode := Basic, presetSearchTerm := [],
     presetAllOpen := False, geometryMode := False, dragNodeId := None, splitMode := False,
     insertMode := False, selectedVertexId := None, dragPreview := Map.empty\<rparr>"

section \<open>Positions of nodes\<close>

fun geom_point :: "geom \<Rightarrow> point option" where
  "geom_point (NodeG lon lat) = Some (lon, lat)"
| "geom_point _ = None"

definition live_node :: "draft list \<Rightarrow> int \<Rightarrow> element option" where
  "live_node ds i = find (\<lambda>v. etype v = Plain Node \<and> eid v = i) (live_values ds)"

text \<open>While a vertex is dragged its live position stands before every other source; then the open
  node itself, the moves and insertions of this session, the drafts and the loaded elements.\<close>

definition coordsOfNode :: "editor \<Rightarrow> int \<Rightarrow> point option" where
  "coordsOfNode e i =
     (case dragPreview e i of
        Some p \<Rightarrow> Some p
      | None \<Rightarrow>
          (case current e of
             Some c \<Rightarrow>
               if etype (cur_value c) = Plain Node \<and> eid (cur_value c) = i
               then geom_point (egeom (cur_value c))
               else (case find (\<lambda>v. eid v = i) (live_values (cur_pending c)) of
                       Some v \<Rightarrow> geom_point (egeom v)
                     | None \<Rightarrow>
                         (case live_node (drafts e) i of
                            Some v \<Rightarrow> geom_point (egeom v)
                          | None \<Rightarrow>
                              (case cur_nodes c of
                                 Some m \<Rightarrow> (case m i of Some v \<Rightarrow> geom_point (egeom v) | None \<Rightarrow> None)
                               | None \<Rightarrow> None)))
           | None \<Rightarrow> (case live_node (drafts e) i of
                        Some v \<Rightarrow> geom_point (egeom v) | None \<Rightarrow> None)))"

section \<open>The open object\<close>

text \<open>\<open>analyze\<close> decides whether the form can be saved: the tags are accepted, a new object has a
  property, and something differs from the base, from what is pending, or a draft exists.\<close>

definition vertex_delta :: "draft list \<Rightarrow> change list" where
  "vertex_delta pending = List.map_filter (\<lambda>d.
     case base_of d of
       Some b \<Rightarrow> geometryChange (Some b) (subject d)
     | None \<Rightarrow> Some \<lparr>ckey = lit ''_position'', cbefore = Some (lit ''Neuer Wegpunkt''),
         cafter = (case geom_point (egeom (subject d)) of
           Some (lon, lat) \<Rightarrow> Some (toFixed 5 lat @ lit '', '' @ toFixed 5 lon) | None \<Rightarrow> None)\<rparr>) pending"

definition with_members :: "editor \<Rightarrow> element \<Rightarrow> element" where
  \<comment> \<open>\<open>{...value,members}\<close> for a relation\<close>
  "with_members e v = (if etype v = Plain Relation then v\<lparr>egeom := RelG (members e)\<rparr> else v)"

definition form_delta :: "editor \<Rightarrow> cur \<Rightarrow> tag_map \<Rightarrow> change list" where
  "form_delta e c next =
     changes (case cur_base c of Some b \<Rightarrow> etags b | None \<Rightarrow> []) next
   @ (if etype (cur_value c) = Plain Relation \<and> cur_base c \<noteq> None
      then memberChanges (cur_base c) (with_members e (cur_value c)) else [])
   @ (case geometryChange (cur_base c) (cur_value c) of Some g \<Rightarrow> [g] | None \<Rightarrow> [])
   @ vertex_delta (cur_pending c)"

definition analyze :: "editor \<Rightarrow> editor" where
  "analyze e = e\<lparr>validForm :=
     (case current e of
        None \<Rightarrow> False
      | Some c \<Rightarrow>
          (case tags_of_rows (trimmed e) of
             Inl _ \<Rightarrow> False
           | Inr next \<Rightarrow>
               if cur_base c = None \<and> \<not> has_property next then False
               else form_delta e c next \<noteq> [] \<or> cur_pending c \<noteq> [] \<or> list_ex (isCurrent e) (drafts e)))\<rparr>"

definition localWayShape :: "editor \<Rightarrow> element \<Rightarrow> shape option" where
  "localWayShape e v =
     (let ps = map (\<lambda>i. case live_node (rev (drafts e)) i of
                          Some n \<Rightarrow> geom_point (egeom n) | None \<Rightarrow> None) (nodes_of (egeom v))
      in if list_all (\<lambda>p. p \<noteq> None) ps then shape_of (map the ps) else None)"

definition open_shape :: "editor \<Rightarrow> cur \<Rightarrow> shape option" where
  "open_shape e c =
     (let v = cur_value c;
          s = (case cur_shape c of
                 Some s \<Rightarrow> Some s
               | None \<Rightarrow> (case localWayShape e v of
                            Some s \<Rightarrow> Some s
                          | None \<Rightarrow> wayShape (mapElements e) (eid v)));
          is_closed = closed_refs (nodes_of (egeom v))
      in case s of
           Some s \<Rightarrow> Some (s\<lparr>sclosed := is_closed\<rparr>)
         | None \<Rightarrow> Some \<lparr>scoords = [], sclosed = is_closed, scenter = None, sbounds = None\<rparr>)"

definition open_cur :: "cur \<Rightarrow> editor \<Rightarrow> editor" where
  "open_cur d e =
     (let isWay = (etype (cur_value d) = Plain Way);
          nodes = (if isWay then (case cur_nodes d of Some m \<Rightarrow> Some m | None \<Rightarrow> Some (nodeIndex (mapElements e)))
                   else cur_nodes d);
          c = d\<lparr>cur_nodes := nodes, cur_shape := (if isWay then open_shape e d else cur_shape d)\<rparr>;
          v = cur_value c
      in setTab TabEdit (analyze (e\<lparr>
           current := Some c, dirty := False, working := etags v,
           careMode := (if cur_base c \<noteq> None \<or> etype v \<noteq> Plain Node then Professional else Basic),
           presetSearchTerm := [], presetAllOpen := False, secretToggle := False,
           members := (if etype v = Plain Relation then members_of (egeom v) else []),
           presetOpen := (cur_base c = None \<and> etype v \<noteq> Plain Relation \<and> presetKeyForTags (etags v) = []),
           customKind := False\<rparr>)))"

fun cur_of_draft :: "draft \<Rightarrow> cur" where
  "cur_of_draft (Draft b v c) = \<lparr>cur_base = b, cur_value = v, cur_center = c, cur_pending = [],
     cur_shape = None, cur_nodes = None, cur_secret = None\<rparr>"
| "cur_of_draft (Deleted b) = \<lparr>cur_base = Some b, cur_value = b, cur_center = None, cur_pending = [],
     cur_shape = None, cur_nodes = None, cur_secret = None\<rparr>"

definition touch :: "editor \<Rightarrow> editor" where
  \<comment> \<open>\<open>dirty=true;analyze();\<close>\<close>
  "touch e = analyze (e\<lparr>dirty := True\<rparr>)"

section \<open>Editing the form\<close>

definition editField :: "jstr \<Rightarrow> jstr \<Rightarrow> editor \<Rightarrow> editor" where
  "editField k v e = touch (setValue k v e)"

definition pressOption :: "jstr \<Rightarrow> jstr \<Rightarrow> editor \<Rightarrow> editor" where
  "pressOption k raw e = touch (setValue k (if valueOf e k = raw then [] else raw) e)"

definition editRow :: "nat \<Rightarrow> jstr \<times> jstr \<Rightarrow> editor \<Rightarrow> editor" where
  "editRow i row e = (if i < length (working e) then touch (e\<lparr>working := (working e)[i := row]\<rparr>) else e)"

definition removeRow :: "nat \<Rightarrow> editor \<Rightarrow> editor" where
  "removeRow i e = (if i < length (working e) then touch (e\<lparr>working := remove_at i (working e)\<rparr>) else e)"

definition addRow :: "editor \<Rightarrow> editor" where
  "addRow e = touch (e\<lparr>working := working e @ [([], [])]\<rparr>)"

definition setCareMode :: "care \<Rightarrow> editor \<Rightarrow> editor" where
  "setCareMode m e = (if current e = None then e else e\<lparr>careMode := m\<rparr>)"

definition applyPreset :: "jstr \<Rightarrow> editor \<Rightarrow> editor" where
  "applyPreset k e =
     (case (current e, map_of presets k) of
        (Some c, Some p) \<Rightarrow>
          if cur_base c \<noteq> None then say Refused e
          else
            let e1 = (case presetForTags (tagsNow e) of
                        Some q \<Rightarrow> fold (\<lambda>(name, _). setValue name []) (ptags q) e
                      | None \<Rightarrow> e);
                e2 = fold (\<lambda>(name, v). setValue name v) (ptags p) e1
            in say Done (touch (e2\<lparr>presetOpen := False, presetSearchTerm := [], presetAllOpen := False\<rparr>))
      | _ \<Rightarrow> say Refused e)"

definition surveyToday :: "jstr \<Rightarrow> editor \<Rightarrow> editor" where
  "surveyToday today e =
     say Done (touch (setValue (lit ''source'') (lit ''survey'') (setValue (lit ''check_date'') today e)))"

section \<open>Members of the open relation\<close>

definition addMember :: "tyval \<Rightarrow> int \<Rightarrow> jstr \<Rightarrow> editor \<Rightarrow> editor" where
  "addMember t r role e =
     (case current e of
        None \<Rightarrow> e
      | Some c \<Rightarrow>
          if etype (cur_value c) \<noteq> Plain Relation then e
          else if list_ex (\<lambda>m. type_same (mtype m) t \<and> mref m = r) (members e) then say Refused e
          else say Done (touch (e\<lparr>members := members e @ [\<lparr>mtype = t, mref = r, mrole = role\<rparr>]\<rparr>)))"

definition setRole :: "nat \<Rightarrow> jstr \<Rightarrow> editor \<Rightarrow> editor" where
  "setRole i role e =
     (if i < length (members e) then touch (e\<lparr>members := (members e)[i := (members e ! i)\<lparr>mrole := role\<rparr>]\<rparr>)
      else e)"

definition swap_at :: "nat \<Rightarrow> 'a list \<Rightarrow> 'a list" where
  \<comment> \<open>exchange the elements at \<open>i\<close> and \<open>i+1\<close>\<close>
  "swap_at i xs = xs[i := xs ! Suc i, Suc i := xs ! i]"

definition moveUp :: "nat \<Rightarrow> editor \<Rightarrow> editor" where
  "moveUp i e = (if 0 < i \<and> i < length (members e)
     then touch (e\<lparr>members := swap_at (i - 1) (members e)\<rparr>) else e)"

definition moveDown :: "nat \<Rightarrow> editor \<Rightarrow> editor" where
  "moveDown i e = (if Suc i < length (members e)
     then touch (e\<lparr>members := swap_at i (members e)\<rparr>) else e)"

definition removeMember :: "nat \<Rightarrow> editor \<Rightarrow> editor" where
  "removeMember i e = (if i < length (members e)
     then touch (e\<lparr>members := remove_at i (members e)\<rparr>) else e)"

section \<open>What the buttons show\<close>

text \<open>A draft of an untagged new or moved node that a drafted way contains is not listed on its
  own.\<close>

definition supportingVertex :: "editor \<Rightarrow> draft \<Rightarrow> bool" where
  "supportingVertex e d \<longleftrightarrow> \<not> is_deleted d \<and> etype (subject d) = Plain Node \<and> etags (subject d) = []
     \<and> list_ex (\<lambda>v. etype v = Plain Way \<and> eid (subject d) \<in> set (nodes_of (egeom v))) (live_values (drafts e))"

record buttons =
  save_off :: bool
  discard_off :: bool
  delete_hidden :: bool
  delete_off :: bool
  undo_off :: bool
  redo_off :: bool
  check_off :: bool
  export_off :: bool
  backup_off :: bool
  draft_count :: nat
  overview :: "string option"      \<comment> \<open>\<open>data-state\<close> of the draft overview\<close>

definition has_base :: "draft \<Rightarrow> bool" where
  "has_base d \<longleftrightarrow> base_of d \<noteq> None"

definition syncUI :: "editor \<Rightarrow> buttons" where
  "syncUI e =
     (let secret = (case current e of Some c \<Rightarrow> cur_secret c \<noteq> None | None \<Rightarrow> False);
          based = (case current e of Some c \<Rightarrow> cur_base c \<noteq> None | None \<Rightarrow> False);
          checked = (checkedFor e = Some (versions e));
          outdated = (\<not> checked \<and> list_ex has_base (drafts e));
          blocked = (busy e \<or> dirty e \<or> drafts e = [])
      in \<lparr>save_off = (busy e \<or> current e = None \<or> \<not> validForm e),
          discard_off = busy e,
          delete_hidden = (\<not> based \<or> secret),
          delete_off = (busy e \<or> dirty e),
          undo_off = (busy e \<or> dirty e \<or> undo e = []),
          redo_off = (busy e \<or> dirty e \<or> redo e = []),
          check_off = (busy e \<or> dirty e \<or> \<not> list_ex has_base (drafts e)),
          export_off = (blocked \<or> checked \<and> conflicts e \<noteq> []),
          backup_off = blocked,
          draft_count = length (filter (\<lambda>d. \<not> supportingVertex e d) (drafts e)),
          overview = (if drafts e = [] then None
                      else Some (if conflicts e \<noteq> [] \<and> \<not> outdated then ''warn''
                                 else if outdated then ''pending'' else ''ok''))\<rparr>)"

end
