(* ===== verification/EditorDrafts.thy ===== *)
theory EditorDrafts
  imports EditorState
begin

text \<open>
  The operations of the OSM editor (\<open>create\<close> in cmd/web/osm-editor.js) that change the set of
  drafts: saving the form, removing, deleting and restoring drafts, splitting and merging ways,
  undo and redo, the version check, import and export. The replies of the OSM API and of the page's
  storage are arguments; an operation that waits for a reply is one step, since \<open>busy\<close> keeps every
  other change of the drafts from running while it waits.
\<close>

section \<open>Lists of drafts\<close>

text \<open>\<open>findIndex(x=>sameObject(x,d))\<close>, and the update that every operation makes of it.\<close>

fun draft_index :: "draft \<Rightarrow> draft list \<Rightarrow> nat option" where
  "draft_index d [] = None"
| "draft_index d (x # xs) = (if sameObject x d then Some 0 else map_option Suc (draft_index d xs))"

definition put_draft :: "draft \<Rightarrow> draft list \<Rightarrow> draft list" where
  "put_draft d ds = (case draft_index d ds of None \<Rightarrow> ds @ [d] | Some i \<Rightarrow> ds[i := d])"

fun find_index :: "('a \<Rightarrow> bool) \<Rightarrow> 'a list \<Rightarrow> nat option" where
  "find_index P [] = None"
| "find_index P (x # xs) = (if P x then Some 0 else map_option Suc (find_index P xs))"

definition revalidate :: "draft \<Rightarrow> err + draft" where
  "revalidate d = validateDraft (js_of_draft d)"

fun osm :: "err + 'a \<Rightarrow> edit_err + 'a" where
  "osm (Inl x) = Inl (OsmErr x)"
| "osm (Inr a) = Inr a"

definition referenced :: "draft list \<Rightarrow> edit_err + draft list" where
  \<comment> \<open>\<open>const issues=checkReferences(next);if(issues.length)throw ...;\<close>\<close>
  "referenced next = osm (bindr (checkReferences (map js_of_draft next)) (\<lambda>is.
     throw_if (is \<noteq> []) (Issues is) (Inr next)))"

definition at_most_100 :: "draft list \<Rightarrow> edit_err + draft list" where
  "at_most_100 next = throw_if (100 < length next) (OsmErr TooManyDrafts) (Inr next)"

text \<open>The vertices of a way that its new version, or its removal, leaves unused: drafts of new
  untagged nodes that were in it and that no other way or relation uses are dropped, from the end
  of the list to its start.\<close>

definition prunable :: "int list \<Rightarrow> draft list \<Rightarrow> draft \<Rightarrow> bool" where
  "prunable ids next n \<longleftrightarrow> base_of n = None \<and> \<not> is_deleted n \<and> etype (subject n) = Plain Node
     \<and> \<not> 0 < eid (subject n) \<and> eid (subject n) \<in> set ids \<and> etags (subject n) = []
     \<and> \<not> node_used next (eid (subject n))"

fun prune :: "int list \<Rightarrow> nat \<Rightarrow> draft list \<Rightarrow> draft list" where
  "prune ids 0 next = next"
| "prune ids (Suc i) next =
     prune ids i (if prunable ids next (next ! i) then remove_at i next else next)"

definition pruned :: "int list \<Rightarrow> draft list \<Rightarrow> draft list" where
  "pruned ids next = prune ids (length next) next"

section \<open>Taking over a new set\<close>

definition take_over :: "bool \<Rightarrow> draft list \<Rightarrow> editor \<Rightarrow> editor" where
  \<comment> \<open>\<open>drafts=next;say(...+persist());refresh();\<close>\<close>
  "take_over storable next e = say Done (persist storable True (e\<lparr>drafts := next\<rparr>))"

definition failed :: "edit_err \<Rightarrow> editor \<Rightarrow> editor" where
  "failed x e = say (Failed x) e"

section \<open>Removing a draft\<close>

definition removed_nodes :: "draft \<Rightarrow> int list" where
  "removed_nodes d = (if \<not> is_deleted d \<and> etype (subject d) = Plain Way
     then nodes_of (egeom (subject d)) else [])"

definition removal_next :: "nat \<Rightarrow> draft list \<Rightarrow> edit_err + draft list" where
  "removal_next i ds = referenced (pruned (removed_nodes (ds ! i)) (remove_at i ds))"

definition removeDraft :: "bool \<Rightarrow> nat \<Rightarrow> editor \<Rightarrow> editor" where
  "removeDraft storable i e =
     (if \<not> canSwitch e then refuse_switch e
      else if length (drafts e) \<le> i then e     \<comment> \<open>no entry of the list has this index\<close>
      else case removal_next i (drafts e) of
             Inr next \<Rightarrow> take_over storable next e
           | Inl x \<Rightarrow> failed x e)"

definition discardDeletion :: "bool \<Rightarrow> nat \<Rightarrow> editor \<Rightarrow> editor" where
  \<comment> \<open>the button of a draft that deletes\<close>
  "discardDeletion storable i e =
     (if \<not> canSwitch e then refuse_switch e
      else if length (drafts e) \<le> i \<or> \<not> is_deleted (drafts e ! i) then e
      else take_over storable (remove_at i (drafts e)) e)"

section \<open>Saving the form\<close>

definition way_coords :: "editor \<Rightarrow> element \<Rightarrow> point option list" where
  "way_coords e v = map (coordsOfNode e) (nodes_of (egeom v))"

definition drawn_check :: "editor \<Rightarrow> cur \<Rightarrow> edit_err + unit" where
  "drawn_check e c =
     (let v = cur_value c in
      if etype v = Plain Way
         \<and> (cur_base c = None \<or> geometryChange (cur_base c) v \<noteq> None \<or> cur_pending c \<noteq> [])
         \<and> list_all (\<lambda>p. p \<noteq> None) (way_coords e v)
      then (case validateWayCoordinates (map the (way_coords e v)) (closed_refs (nodes_of (egeom v))) of
              Inr _ \<Rightarrow> Inr () | Inl x \<Rightarrow> Inl (GeoErr x))
      else Inr ())"

definition center_of :: "editor \<Rightarrow> cur \<Rightarrow> point option" where
  "center_of e c =
     (let ps = List.map_filter id (way_coords e (cur_value c)) in
      if etype (cur_value c) = Plain Way \<and> ps \<noteq> []
      then Some ((west_of ps + east_of ps) / 2, (south_of ps + north_of ps) / 2)
      else cur_center c)"

definition form_draft :: "editor \<Rightarrow> cur \<Rightarrow> edit_err + draft" where
  "form_draft e c = osm (bindr (tags_of_rows (trimmed e)) (\<lambda>ts.
     revalidate (Draft (cur_base c) ((with_members e (cur_value c))\<lparr>etags := ts\<rparr>) (center_of e c))))"

definition unchanged_draft :: "draft \<Rightarrow> bool" where
  "unchanged_draft d = (case base_of d of Some b \<Rightarrow> elementUnchanged b (subject d) | None \<Rightarrow> False)"

definition old_nodes :: "draft \<Rightarrow> draft list \<Rightarrow> int list" where
  "old_nodes d ds = (case find (\<lambda>x. sameObject x d) ds of
     Some (Draft b v c) \<Rightarrow> nodes_of (egeom v) | _ \<Rightarrow> [])"

definition merge_form :: "draft \<Rightarrow> draft list \<Rightarrow> draft list \<Rightarrow> draft list" where
  "merge_form d pending ds =
     (let next = fold put_draft pending ds in
      case draft_index d ds of
        Some i \<Rightarrow> if unchanged_draft d then remove_at i next else next[i := d]
      | None \<Rightarrow> if unchanged_draft d then next else next @ [d])"

definition form_set :: "draft \<Rightarrow> draft list \<Rightarrow> draft list \<Rightarrow> draft list" where
  "form_set d pending ds =
     (let next = merge_form d pending ds
      in if etype (subject d) = Plain Way then pruned (old_nodes d ds) next else next)"

definition save_next :: "editor \<Rightarrow> cur \<Rightarrow> edit_err + draft list" where
  "save_next e c =
     bindr (drawn_check e c) (\<lambda>_.
     bindr (form_draft e c) (\<lambda>d.
       throw_if (base_of d = None \<and> etype (subject d) = Plain Node \<and> etags (subject d) = []) NewNodeNeedsTag
         (bindr (at_most_100 (form_set d (cur_pending c) (drafts e))) referenced)))"

section \<open>Confidential objects\<close>

text \<open>A confidential object goes to the local server and never to the drafts. \<open>sent\<close> is the reply
  of the server: the request was accepted, or why not.\<close>

datatype secret_geometry = SPoint point | SLine "point list" | SPolygon "point list"

definition shape_at :: "cur \<Rightarrow> nat \<Rightarrow> point option" where
  "shape_at c i = (case cur_shape c of
     Some s \<Rightarrow> if i < length (scoords s) then Some (scoords s ! i) else None | None \<Rightarrow> None)"

definition confidentialGeometry :: "editor \<Rightarrow> cur \<Rightarrow> secret_geometry option" where
  "confidentialGeometry e c =
     (case egeom (cur_value c) of
        NodeG lon lat \<Rightarrow> Some (SPoint (lon, lat))
      | WayG ns \<Rightarrow>
          (let line = List.map_filter (\<lambda>(i, k). case coordsOfNode e i of
                         Some p \<Rightarrow> Some p | None \<Rightarrow> shape_at c k) (zip ns [0..<length ns])
           in if length line < 2 then None
              else Some (if (case cur_shape c of Some s \<Rightarrow> sclosed s | None \<Rightarrow> False)
                         then SPolygon line else SLine line))
      | RelG _ \<Rightarrow> None)"

definition saveConfidential :: "(secret_geometry \<Rightarrow> tag_map \<Rightarrow> jstr option \<Rightarrow> edit_err + unit) \<Rightarrow> cur \<Rightarrow> editor \<Rightarrow> editor" where
  "saveConfidential send c e =
     setBusy False
       (case confidentialGeometry e c of
          None \<Rightarrow> say Refused e
        | Some g \<Rightarrow>
            (case tags_of_rows (trimmed e) of
               Inl x \<Rightarrow> failed (OsmErr x) e
             | Inr ts \<Rightarrow>
                 if ts = [] then failed NeedsOneProperty e
                 else (case send g ts (cur_secret c) of
                         Inl x \<Rightarrow> failed x (setBusy True e)
                       | Inr _ \<Rightarrow> setTab TabFind (say Done (closeCurrent (setBusy True e))))))"

definition goes_secret :: "editor \<Rightarrow> cur \<Rightarrow> bool" where
  "goes_secret e c \<longleftrightarrow> cur_secret c \<noteq> None
     \<or> (cur_base c = None \<and> etype (cur_value c) \<noteq> Plain Relation \<and> secretToggle e)"

definition save ::
  "bool \<Rightarrow> (secret_geometry \<Rightarrow> tag_map \<Rightarrow> jstr option \<Rightarrow> edit_err + unit) \<Rightarrow> editor \<Rightarrow> editor" where
  "save storable send e =
     (case current e of
        None \<Rightarrow> e
      | Some c \<Rightarrow>
          if goes_secret e c then saveConfidential send c e
          else
            (let kept = (case drawn_check e c of Inl _ \<Rightarrow> e
                         | Inr _ \<Rightarrow> e\<lparr>current := Some (c\<lparr>cur_center := center_of e c\<rparr>)\<rparr>)
             in case save_next e c of
                  Inl x \<Rightarrow> failed x kept
                | Inr next \<Rightarrow>
                    setTab (if etype (cur_value c) = Plain Relation then TabRelations else TabFind)
                      (take_over storable next (closeCurrent kept))))"

section \<open>Deleting an object\<close>

text \<open>The API is asked which ways and relations use the object; a user is ignored if a draft of it
  deletes it or no longer refers to the object. \<open>usesOf\<close> gives the replies; they list ways and
  relations, as the API documents.\<close>

definition same_type_raw :: "tyval \<Rightarrow> js \<Rightarrow> bool" where
  "same_type_raw t v \<longleftrightarrow> t = Plain (ty_of t) \<and> v = JStr (type_word (ty_of t))"

definition still_uses :: "draft list \<Rightarrow> element \<Rightarrow> js \<Rightarrow> bool" where
  "still_uses ds base used =
     (case find (\<lambda>d. same_type_raw (etype (subject d)) (jget used ''type'')
                   \<and> jget used ''id'' = jint (eid (subject d))) ds of
        None \<Rightarrow> True
      | Some (Deleted _) \<Rightarrow> False
      | Some (Draft _ v _) \<Rightarrow>
          if etype v = Plain Way then eid base \<in> set (nodes_of (egeom v))
          else refers_as_member v (etype base) (eid base))"

datatype endpoint = Ways | Relations

definition endpoints :: "element \<Rightarrow> endpoint list" where
  "endpoints base = (if etype base = Plain Node then [Ways, Relations] else [Relations])"

definition check_use :: "draft list \<Rightarrow> element \<Rightarrow> err + response \<Rightarrow> edit_err + unit" where
  "check_use ds base resp =
     bindr (osm resp) (\<lambda>r.
       throw_if (\<not> okay r) (OsmErr (HttpErr (status r)))
         (case body r of
            None \<Rightarrow> Inl (OsmErr SyntaxErr)
          | Some b \<Rightarrow>
              if nullish b then Inl (OsmErr TypeErr)
              else (case jget b ''elements'' of
                      JArr es \<Rightarrow>
                        if ds \<noteq> [] \<and> list_ex nullish es then Inl (OsmErr TypeErr)
                        else let used = filter (still_uses ds base) es
                             in throw_if (used \<noteq> []) (StillUsed (length used)) (Inr ())
                    | _ \<Rightarrow> Inl MalformedReply)))"

definition delete_next ::
  "(endpoint \<Rightarrow> err + response) \<Rightarrow> element \<Rightarrow> jstr \<Rightarrow> draft list \<Rightarrow> edit_err + draft list" where
  "delete_next usesOf base key ds =
     bindr (mapr (\<lambda>ep. check_use ds base (usesOf ep)) (endpoints base)) (\<lambda>_.
     bindr (osm (revalidate (Deleted base))) (\<lambda>gone.
       bindr (at_most_100 (filter (\<lambda>d. keyOf d \<noteq> key) ds @ [gone])) referenced))"

definition deleteObject ::
  "bool \<Rightarrow> bool \<Rightarrow> (endpoint \<Rightarrow> err + response) \<Rightarrow> editor \<Rightarrow> editor" where
  \<comment> \<open>\<open>confirmed\<close>: the answer to the question \<open>confirm\<close> asks\<close>
  "deleteObject storable confirmed usesOf e =
     (case current e of
        None \<Rightarrow> e
      | Some c \<Rightarrow>
          (case cur_base c of
             None \<Rightarrow> e
           | Some base \<Rightarrow>
               if cur_secret c \<noteq> None then e
               else if \<not> canSwitch e then refuse_switch e
               else if \<not> confirmed then e
               else setBusy False
                 (case delete_next usesOf base (cur_key c) (drafts e) of
                    Inl x \<Rightarrow> failed x (setBusy True e)
                  | Inr next \<Rightarrow>
                      setTab TabDrafts (take_over storable next (closeCurrent (setBusy True e))))))"

section \<open>Splitting a way\<close>

definition patch_members :: "(member list \<Rightarrow> member list) \<Rightarrow> draft \<Rightarrow> draft" where
  "patch_members f d = (case d of Draft b v c \<Rightarrow> Draft b (v\<lparr>egeom := RelG (f (members_of (egeom v)))\<rparr>) c
                          | Deleted b \<Rightarrow> Deleted b)"

definition is_way_member :: "int \<Rightarrow> member \<Rightarrow> bool" where
  "is_way_member i m \<longleftrightarrow> mtype m = Plain Way \<and> mref m = i"

fun split_member :: "int \<Rightarrow> int \<Rightarrow> member list \<Rightarrow> member list" where
  "split_member old new [] = []"
| "split_member old new (m # ms) =
     (if is_way_member old m then m # \<lparr>mtype = Plain Way, mref = new, mrole = mrole m\<rparr> # ms
      else m # split_member old new ms)"

definition live_relation :: "draft \<Rightarrow> bool" where
  "live_relation d \<longleftrightarrow> \<not> is_deleted d \<and> etype (subject d) = Plain Relation"

definition patchRelationsForSplit :: "draft list \<Rightarrow> int \<Rightarrow> int \<Rightarrow> err + draft list" where
  "patchRelationsForSplit ds old new =
     mapr (\<lambda>d.
       if live_relation d \<and> list_ex (is_way_member old) (members_of (egeom (subject d)))
       then revalidate (patch_members (split_member old new) d)
       else Inr d) ds"

fun index_of :: "'a \<Rightarrow> 'a list \<Rightarrow> nat option" where
  "index_of x [] = None"
| "index_of x (y # ys) = (if x = y then Some 0 else map_option Suc (index_of x ys))"

definition second_half :: "draft list \<Rightarrow> element \<Rightarrow> nat \<Rightarrow> element" where
  "second_half ds v i = \<lparr>etype = Plain Way, eid = nextTempId ds Way, eversion = None,
     etags = etags v, egeom = WayG (drop i (nodes_of (egeom v)))\<rparr>"

definition first_half :: "element \<Rightarrow> nat \<Rightarrow> element" where
  "first_half v i = v\<lparr>egeom := WayG (take (Suc i) (nodes_of (egeom v)))\<rparr>"

definition split_next :: "cur \<Rightarrow> int \<Rightarrow> draft list \<Rightarrow> edit_err + draft list" where
  "split_next c n ds =
     (let v = cur_value c; nodes = nodes_of (egeom v) in
      case index_of n nodes of
        None \<Rightarrow> Inl InnerVertexOnly
      | Some i \<Rightarrow>
          throw_if (i = 0 \<or> length nodes \<le> Suc i) InnerVertexOnly
            (bindr (osm (element (js_of_element (second_half ds v i)) True)) (\<lambda>second.
             bindr (osm (revalidate (Draft (cur_base c) (first_half v i) (cur_center c)))) (\<lambda>firstDraft.
             bindr (osm (revalidate (Draft None second (cur_center c)))) (\<lambda>secondDraft.
             bindr (osm (patchRelationsForSplit (put_draft firstDraft ds @ [secondDraft]) (eid v) (eid second)))
               referenced)))))"

definition performSplit :: "bool \<Rightarrow> int \<Rightarrow> editor \<Rightarrow> editor" where
  "performSplit storable n e =
     (case current e of
        None \<Rightarrow> e\<lparr>splitMode := False\<rparr>
      | Some c \<Rightarrow>
          (case split_next c n (drafts e) of
             Inl x \<Rightarrow> failed x (e\<lparr>splitMode := False\<rparr>)
           | Inr next \<Rightarrow>
               setTab TabDrafts (take_over storable next (closeCurrent (e\<lparr>splitMode := False\<rparr>)))))"

section \<open>Merging two ways\<close>

definition merge_member :: "int \<Rightarrow> int \<Rightarrow> member list \<Rightarrow> member list" where
  "merge_member removed kept ms =
     map (\<lambda>m. if is_way_member removed m then m\<lparr>mref := kept\<rparr> else m) ms"

definition patchRelationsForMerge :: "draft list \<Rightarrow> int \<Rightarrow> int \<Rightarrow> err + draft list" where
  "patchRelationsForMerge ds removed kept =
     mapr (\<lambda>d.
       if live_relation d \<and> list_ex (is_way_member removed) (members_of (egeom (subject d)))
       then revalidate (patch_members (merge_member removed kept) d)
       else Inr d) ds"

definition join_nodes :: "int list \<Rightarrow> int list \<Rightarrow> int list option" where
  "join_nodes a b =
     (if last a = hd b then Some (a @ tl b)
      else if last a = last b then Some (a @ rev (butlast b))
      else if hd a = last b then Some (b @ tl a)
      else if hd a = hd b then Some (rev b @ tl a)
      else None)"

definition is_live_way :: "int \<Rightarrow> draft \<Rightarrow> bool" where
  "is_live_way i d \<longleftrightarrow> \<not> is_deleted d \<and> etype (subject d) = Plain Way \<and> eid (subject d) = i"

definition loaded_way :: "int \<Rightarrow> err + response \<Rightarrow> edit_err + element" where
  "loaded_way i resp =
     bindr (osm resp) (\<lambda>r.
       throw_if (\<not> okay r) (OsmErr (HttpErr (status r)))
         (case body r of
            None \<Rightarrow> Inl (OsmErr SyntaxErr)
          | Some b \<Rightarrow> osm (bindr (find_element (Plain Way) i b) (\<lambda>raw. element raw False))))"

definition removal_of :: "draft option \<Rightarrow> element \<Rightarrow> edit_err + draft" where
  \<comment> \<open>\<open>validateDraft({base:existingDraft?existingDraft.base:other,deleted:true})\<close>\<close>
  "removal_of existing other =
     (case existing of
        Some d \<Rightarrow> (case base_of d of Some b \<Rightarrow> osm (revalidate (Deleted b)) | None \<Rightarrow> Inl (OsmErr NotStored))
      | None \<Rightarrow> osm (revalidate (Deleted other)))"

definition put_removal :: "int \<Rightarrow> draft \<Rightarrow> draft list \<Rightarrow> draft list" where
  "put_removal i removedDraft next =
     (case find_index (is_live_way i) next of
        Some k \<Rightarrow> next[k := removedDraft] | None \<Rightarrow> next @ [removedDraft])"

definition merge_next ::
  "cur \<Rightarrow> int \<Rightarrow> err + response \<Rightarrow> draft list \<Rightarrow> edit_err + draft list" where
  "merge_next c i resp ds =
     (let existing = find (is_live_way i) ds; v = cur_value c in
      bindr (case existing of Some d \<Rightarrow> Inr (subject d) | None \<Rightarrow> loaded_way i resp) (\<lambda>other.
        case join_nodes (nodes_of (egeom v)) (nodes_of (egeom other)) of
          None \<Rightarrow> Inl NoSharedEnd
        | Some merged \<Rightarrow>
            (let kept = v\<lparr>egeom := WayG merged, etags := from_entries (etags other @ etags v)\<rparr> in
             bindr (osm (revalidate (Draft (cur_base c) kept (cur_center c)))) (\<lambda>keptDraft.
             bindr (removal_of existing other) (\<lambda>removedDraft.
             bindr (osm (patchRelationsForMerge (put_removal i removedDraft (put_draft keptDraft ds)) i (eid kept)))
               referenced)))))"

definition mergeWith :: "bool \<Rightarrow> js \<Rightarrow> (int \<Rightarrow> err + response) \<Rightarrow> editor \<Rightarrow> editor" where
  \<comment> \<open>the first argument is \<open>Number(idInput)\<close>\<close>
  "mergeWith storable typed fetchWay e =
     (case current e of
        None \<Rightarrow> e
      | Some c \<Rightarrow>
          if etype (cur_value c) \<noteq> Plain Way \<or> cur_base c = None then e
          else if dirty e then say Refused e
          else if \<not> validID typed then say Refused e
          else if int_of typed = eid (cur_value c) then say Refused e
          else setBusy False
            (case merge_next c (int_of typed) (fetchWay (int_of typed)) (drafts e) of
               Inl x \<Rightarrow> failed x (setBusy True e)
             | Inr next \<Rightarrow>
                 setTab TabDrafts (take_over storable next (closeCurrent (setBusy True e)))))"

section \<open>Undo and redo\<close>

definition undo_click :: "bool \<Rightarrow> editor \<Rightarrow> editor" where
  "undo_click storable e =
     (if \<not> canSwitch e then refuse_switch e
      else if undo e = [] then e
      else say Done (persist storable False (closeCurrent
             (e\<lparr>redo := redo e @ [drafts e], drafts := last (undo e), undo := butlast (undo e)\<rparr>))))"

definition redo_click :: "bool \<Rightarrow> editor \<Rightarrow> editor" where
  "redo_click storable e =
     (if \<not> canSwitch e then refuse_switch e
      else if redo e = [] then e
      else say Done (persist storable False (closeCurrent
             (e\<lparr>undo := undo e @ [drafts e], drafts := last (redo e), redo := butlast (redo e)\<rparr>))))"

section \<open>Version check, import, export, discard\<close>

definition check_click :: "(tyval \<Rightarrow> int \<Rightarrow> err + response) \<Rightarrow> editor \<Rightarrow> editor" where
  "check_click fetcher e =
     (if \<not> canSwitch e then refuse_switch e
      else setBusy False
        (case checkVersions fetcher (drafts e) of
           Inl x \<Rightarrow> failed (OsmErr x) (setBusy True e)
         | Inr found \<Rightarrow>
             say Done ((setBusy True e)\<lparr>checkedFor := Some (versions e), conflicts := found\<rparr>)))"

definition import_next ::
  "(real \<Rightarrow> jstr) \<Rightarrow> (jstr \<Rightarrow> js option) \<Rightarrow> jstr \<Rightarrow> draft list \<Rightarrow> edit_err + draft list" where
  "import_next num parse file ds =
     bindr (osm (restore num parse file)) (\<lambda>incoming.
     bindr (osm (osc num (map js_of_draft (ds @ incoming)))) (\<lambda>_. Inr (ds @ incoming)))"

definition import_file ::
  "(real \<Rightarrow> jstr) \<Rightarrow> (jstr \<Rightarrow> js option) \<Rightarrow> bool \<Rightarrow> bool \<Rightarrow> jstr \<Rightarrow> editor \<Rightarrow> editor" where
  \<comment> \<open>\<open>small\<close>: the file is at most 5 MB\<close>
  "import_file num parse storable small file e =
     (if \<not> canSwitch e then refuse_switch e
      else setBusy False
        (if \<not> small then failed FileTooLarge e
         else (case import_next num parse file (drafts e) of
                 Inl x \<Rightarrow> failed x (setBusy True e)
               | Inr merged \<Rightarrow> take_over storable merged (setBusy True e))))"

definition export_click :: "(real \<Rightarrow> jstr) \<Rightarrow> editor \<Rightarrow> edit_err + jstr" where
  "export_click num e =
     throw_if (busy e) BusyNow
       (throw_if (checkedFor e = Some (versions e) \<and> conflicts e \<noteq> []) VersionConflict
         (throw_if (dirty e) UnsavedChanges
           (osm (osc num (map js_of_draft (drafts e))))))"

definition backup_click :: "editor \<Rightarrow> edit_err + js" where
  "backup_click e = throw_if (dirty e) UnsavedChanges (Inr (js_of_file (drafts e)))"

definition discard :: "editor \<Rightarrow> editor" where
  "discard e = say Done (setTab
     (case current e of Some c \<Rightarrow> if etype (cur_value c) = Plain Relation then TabRelations else TabFind
        | None \<Rightarrow> TabFind) (closeCurrent e))"

section \<open>The list keyed by object\<close>

lemma draft_index_None: "draft_index d ds = None \<longleftrightarrow> keyOf d \<notin> keyOf ` set ds"
  by (induction ds) (auto simp: sameObject_def)

lemma draft_index_Some: "draft_index d ds = Some i \<Longrightarrow> i < length ds \<and> keyOf (ds ! i) = keyOf d"
  by (induction ds arbitrary: i) (auto simp: sameObject_def split: if_splits)

lemma map_update_same: "i < length xs \<Longrightarrow> f y = f (xs ! i) \<Longrightarrow> map f (xs[i := y]) = map f xs"
  by (simp add: map_update list_update_same_conv)

interpretation drafts_by_key: keyed_list keyOf put_draft
proof
  fix x y :: draft and xs
  show "map keyOf (put_draft x xs)
      = (if keyOf x \<in> keyOf ` set xs then map keyOf xs else map keyOf xs @ [keyOf x])"
  proof (cases "draft_index x xs")
    case None
    then have "keyOf x \<notin> keyOf ` set xs" using draft_index_None by blast
    with None show ?thesis by (auto simp: put_draft_def)
  next
    case (Some i)
    then have "i < length xs" "keyOf (xs ! i) = keyOf x" using draft_index_Some by blast+
    moreover have "keyOf x \<in> keyOf ` set xs" using Some draft_index_None by (metis option.distinct(1))
    ultimately show ?thesis using Some by (simp add: put_draft_def map_update_same)
  qed
  show "x \<in> set (put_draft x xs)"
    using draft_index_Some by (auto simp: put_draft_def set_update_memI split: option.split)
  show "y = x \<or> y \<in> set xs" if "y \<in> set (put_draft x xs)"
    using that set_update_subset_insert by (fastforce simp: put_draft_def split: option.splits)
qed

section \<open>The pruned set\<close>

lemma live_values_remove:
  "i < length ds \<Longrightarrow> live_values (remove_at i ds) = live_values (take i ds) @ live_values (drop (Suc i) ds)"
  by (simp add: remove_at_def)

lemma node_used_remove:
  assumes "i < length ds" "etype (subject (ds ! i)) = Plain Node"
  shows "node_used (remove_at i ds) n = node_used ds n"
proof -
  have ds: "ds = take i ds @ ds ! i # drop (Suc i) ds" using assms(1) by (simp add: id_take_nth_drop)
  have "node_used ds n = node_used (take i ds @ ds ! i # drop (Suc i) ds) n" using ds by simp
  also have "\<dots> = node_used (take i ds @ drop (Suc i) ds) n"
    using assms(2) by (cases "ds ! i") (auto simp: node_used_def)
  finally show ?thesis by (simp add: remove_at_def)
qed

lemma prunable_remove:
  "i < length ds \<Longrightarrow> prunable ids ds (ds ! i) \<Longrightarrow> prunable ids (remove_at i ds) = prunable ids ds"
  by (auto simp: prunable_def node_used_remove fun_eq_iff)

lemma prune_filter:
  "i \<le> length ds \<Longrightarrow> prune ids i ds = filter (\<lambda>n. \<not> prunable ids ds n) (take i ds) @ drop i ds"
proof (induction i arbitrary: ds)
  case (Suc i)
  then have i: "i < length ds" by simp
  show ?case
  proof (cases "prunable ids ds (ds ! i)")
    case True
    then have "prune ids (Suc i) ds = prune ids i (remove_at i ds)" by simp
    also have "\<dots> = filter (\<lambda>n. \<not> prunable ids (remove_at i ds) n) (take i (remove_at i ds)) @ drop i (remove_at i ds)"
      using i by (intro Suc.IH) (simp add: remove_at_def)
    also have "\<dots> = filter (\<lambda>n. \<not> prunable ids ds n) (take i ds) @ drop (Suc i) ds"
      using i by (simp add: prunable_remove [OF i True]) (simp add: remove_at_def)
    finally show ?thesis using True i by (simp add: take_Suc_conv_app_nth)
  next
    case False
    then show ?thesis using Suc i by (simp add: take_Suc_conv_app_nth Cons_nth_drop_Suc)
  qed
qed simp

lemma pruned_filter: "pruned ids ds = filter (\<lambda>n. \<not> prunable ids ds n) ds"
  by (simp add: pruned_def prune_filter)

section \<open>Checked sets\<close>

lemma referenced_iff:
  "list_all wf_draft next \<Longrightarrow> referenced next = Inr n \<longleftrightarrow> n = next \<and> collectIssues next = []"
  by (auto simp: referenced_def checkReferences_def mapr_validate_encoded throw_if_def)

lemma at_most_100_iff: "at_most_100 xs = Inr n \<longleftrightarrow> n = xs \<and> length xs \<le> 100"
  by (auto simp: at_most_100_def throw_if_def)

lemma osm_Inr_iff: "osm r = Inr a \<longleftrightarrow> r = Inr a"
  by (cases r) auto

lemma revalidate_sound: "revalidate d = Inr x \<Longrightarrow> wf_draft x"
  by (simp add: revalidate_def validateDraft_sound)

lemma remove_at_sub: "set (remove_at i xs) \<subseteq> set xs"
  by (auto simp: remove_at_def dest: in_set_takeD in_set_dropD)

lemma distinct_remove_at: "distinct (map f xs) \<Longrightarrow> distinct (map f (remove_at i xs))"
proof -
  assume d: "distinct (map f xs)"
  have "map f (remove_at i xs) = take i (map f xs) @ drop (Suc i) (map f xs)"
    by (simp add: remove_at_def take_map drop_map)
  moreover have "set (take i (map f xs)) \<inter> set (drop (Suc i) (map f xs)) = {}"
    using d by (intro set_take_disj_set_drop_if_distinct) simp_all
  ultimately show ?thesis using d by simp
qed

lemma distinct_filter_keys: "distinct (map f xs) \<Longrightarrow> distinct (map f (filter P xs))"
  by (rule distinct_map_filter)

lemma valid_removal:
  assumes "valid_set ds" "removal_next i ds = Inr next"
  shows "valid_set next"
proof -
  let ?n = "pruned (removed_nodes (ds ! i)) (remove_at i ds)"
  have wf: "list_all wf_draft ?n" "distinct_keys ?n"
    using assms(1) remove_at_sub [of i ds] distinct_remove_at [of keyOf ds i]
    by (auto simp: pruned_filter list_all_iff valid_set_def distinct_keys_def distinct_filter_keys)
  then show ?thesis using assms(2) by (simp add: removal_next_def referenced_iff valid_set_def)
qed


lemma valid_discard:
  assumes vs: "valid_set ds" and i: "i < length ds" "is_deleted (ds ! i)"
  shows "valid_set (remove_at i ds)"
proof -
  let ?n = "remove_at i ds"
  have split: "ds = take i ds @ ds ! i # drop (Suc i) ds" using i(1) by (rule id_take_nth_drop)
  have live: "live_values ?n = live_values ds"
    using i(2) is_deleted_iff by (subst (2) split) (metis live_values.simps(2) live_values_append remove_at_def)
  have sub: "set ?n \<subseteq> set ds" by (rule remove_at_sub)
  have wf: "list_all wf_draft ?n" "distinct_keys ?n" and dk: "distinct_keys ds" and ci: "collectIssues ds = []"
    using vs sub distinct_remove_at [of keyOf ds i]
    by (auto simp: list_all_iff valid_set_def distinct_keys_def)
  have "d \<in> set ?n" if "d \<in> set ds" "\<not> is_deleted d" for d
    using that i(2) by (subst (asm) split) (auto simp: remove_at_def)
  then have res: "resolves ?n t r" if "resolves ds t r" for t r
    using that sub by (auto simp: resolves_def)
  have "dangling_issues ?n v = []" if "v \<in> set (live_values ds)" for v
    using that ci res dangling_Nil_iff [OF dk] dangling_Nil_iff [OF wf(2)] by (fastforce simp: collectIssues_def)
  moreover have "in_use_issues ?n b = []" if "b \<in> set (deleted_bases ?n)" for b
    using that ci sub live by (fastforce simp: collectIssues_def in_use_issues_def deleted_bases_def)
  moreover have "floating_issues ?n d = []" if "d \<in> set ?n" for d
  proof -
    have "floating_issues ?n d = floating_issues ds d"
      using live by (cases "(ds, d)" rule: floating_issues.cases) (simp_all add: node_used_def)
    then show ?thesis using that ci sub by (auto simp: collectIssues_def)
  qed
  ultimately have "collectIssues ?n = []" by (simp add: collectIssues_def live)
  then show ?thesis using wf by (simp add: valid_set_def)
qed

section \<open>The form\<close>

lemma merge_form_None:
  "draft_index d ds = None \<Longrightarrow> merge_form d pending ds =
     (if unchanged_draft d then fold put_draft pending ds else fold put_draft pending ds @ [d])"
  by (simp add: merge_form_def Let_def)

lemma merge_form_Some:
  "draft_index d ds = Some i \<Longrightarrow> merge_form d pending ds =
     (if unchanged_draft d then remove_at i (fold put_draft pending ds)
      else (fold put_draft pending ds)[i := d])"
  by (simp add: merge_form_def Let_def)

lemma merge_form_keys:
  assumes dk: "distinct_keys ds" and p: "keyOf d \<notin> keyOf ` set pending"
  shows "distinct_keys (merge_form d pending ds)"
proof -
  let ?f = "fold put_draft pending ds"
  have df: "distinct (map keyOf ?f)"
    using dk by (simp add: distinct_keys_def drafts_by_key.fold_put_distinct)
  obtain ks where ks: "map keyOf ?f = map keyOf ds @ ks" using drafts_by_key.fold_put_prefix by blast
  show ?thesis
  proof (cases "draft_index d ds")
    case None
    then have "keyOf d \<notin> keyOf ` set ds" using draft_index_None by blast
    then have "keyOf d \<notin> keyOf ` set ?f" using p by (simp add: drafts_by_key.fold_put_keys)
    then show ?thesis using df by (auto simp: merge_form_None [OF None] distinct_keys_def)
  next
    case (Some i)
    then have i: "i < length ds" "keyOf (ds ! i) = keyOf d" using draft_index_Some by blast+
    have len: "length ds \<le> length ?f" using ks by (metis length_append length_map le_add1)
    have "map keyOf ?f ! i = keyOf d" using i ks by (simp add: nth_append)
    then have "keyOf (?f ! i) = keyOf d" using i(1) len by simp
    then have "map keyOf (?f[i := d]) = map keyOf ?f" using i(1) len by (simp add: map_update_same)
    then show ?thesis
      using df by (simp add: merge_form_Some [OF Some] distinct_keys_def distinct_remove_at)
  qed
qed

lemma merge_form_sub: "set (merge_form d pending ds) \<subseteq> insert d (set pending \<union> set ds)"
proof -
  have "set (fold put_draft pending ds) \<subseteq> set pending \<union> set ds" by (rule drafts_by_key.fold_put_sub)
  moreover have "set ((fold put_draft pending ds)[i := d]) \<subseteq> insert d (set (fold put_draft pending ds))" for i
    by (rule set_update_subset_insert)
  moreover have "set (remove_at i (fold put_draft pending ds)) \<subseteq> set (fold put_draft pending ds)" for i
    by (rule remove_at_sub)
  ultimately show ?thesis
    by (cases "draft_index d ds"; cases "unchanged_draft d")
      (simp_all add: merge_form_None merge_form_Some, (blast | metis Un_insert_right insert_mono subset_insertI2 subset_trans)+)
qed

lemma merge_form_has:
  assumes "\<not> unchanged_draft d"
  shows "d \<in> set (merge_form d pending ds)"
proof (cases "draft_index d ds")
  case (Some i)
  obtain ks where ks: "map keyOf (fold put_draft pending ds) = map keyOf ds @ ks"
    using drafts_by_key.fold_put_prefix by blast
  then have "length ds \<le> length (fold put_draft pending ds)" by (metis length_append length_map le_add1)
  moreover have "i < length ds" using Some draft_index_Some by blast
  ultimately show ?thesis using assms by (simp add: merge_form_Some [OF Some] set_update_memI)
qed (use assms in \<open>simp add: merge_form_None\<close>)

lemma merge_form_drops:
  assumes un: "unchanged_draft d" and dk: "distinct_keys ds" and p: "keyOf d \<notin> keyOf ` set pending"
  shows "keyOf d \<notin> keyOf ` set (merge_form d pending ds)"
proof (cases "draft_index d ds")
  case None
  then have "keyOf d \<notin> keyOf ` set ds" using draft_index_None by blast
  then show ?thesis
    using un p by (simp add: merge_form_None [OF None] drafts_by_key.fold_put_keys)
next
  case (Some i)
  let ?f = "fold put_draft pending ds"
  have df: "distinct (map keyOf ?f)"
    using dk by (simp add: distinct_keys_def drafts_by_key.fold_put_distinct)
  obtain ks where ks: "map keyOf ?f = map keyOf ds @ ks" using drafts_by_key.fold_put_prefix by blast
  have i: "i < length ds" "keyOf (ds ! i) = keyOf d" using Some draft_index_Some by blast+
  have ki: "map keyOf ?f ! i = keyOf d" and len: "i < length ?f"
    using i ks by (simp_all add: nth_append) (metis length_append length_map trans_less_add1)
  have "map keyOf ?f = take i (map keyOf ?f) @ keyOf d # drop (Suc i) (map keyOf ?f)"
    using ki len by (metis id_take_nth_drop length_map)
  with df have "keyOf d \<notin> set (take i (map keyOf ?f)) \<union> set (drop (Suc i) (map keyOf ?f))"
    by (metis distinct.simps(2) distinct_append Int_iff UnE empty_iff list.set_intros(1))
  then show ?thesis
    using un by (simp add: merge_form_Some [OF Some] remove_at_def take_map drop_map image_Un)
qed


section \<open>Every operation gives a valid set\<close>

lemma valid_referenced:
  "list_all wf_draft ds \<Longrightarrow> distinct_keys ds \<Longrightarrow> referenced ds = Inr next \<Longrightarrow> next = ds \<and> valid_set next"
  by (auto simp: referenced_iff valid_set_def)

lemma wf_filter: "list_all wf_draft ds \<Longrightarrow> list_all wf_draft (filter P ds)"
  by (auto simp: list_all_iff)

lemma form_draft_sound:
  assumes "form_draft e c = Inr d"
  shows "wf_draft d" "keyOf d = cur_key c" "is_deleted d = False"
proof -
  obtain ts where d: "validateDraft (js_of_draft
      (Draft (cur_base c) ((with_members e (cur_value c))\<lparr>etags := ts\<rparr>) (center_of e c))) = Inr d"
    using assms by (auto simp: form_draft_def osm_Inr_iff bindr_Inr_iff revalidate_def)
  show "wf_draft d" using d by (rule validateDraft_sound)
  show "keyOf d = cur_key c" using validate_key [OF d] by (simp add: keyOf_def cur_key_def with_members_def)
  show "is_deleted d = False" using validate_Draft_parts [OF d] by (metis subject_simps(2))
qed

definition pending_ok :: "cur \<Rightarrow> bool" where
  "pending_ok c \<longleftrightarrow> list_all wf_draft (cur_pending c) \<and> cur_key c \<notin> keyOf ` set (cur_pending c)"

lemma save_next_Inr:
  "save_next e c = Inr next \<longleftrightarrow>
     (\<exists>d. drawn_check e c = Inr () \<and> form_draft e c = Inr d
        \<and> \<not> (base_of d = None \<and> etype (subject d) = Plain Node \<and> etags (subject d) = [])
        \<and> length (form_set d (cur_pending c) (drafts e)) \<le> 100
        \<and> referenced (form_set d (cur_pending c) (drafts e)) = Inr next)"
  by (auto simp: save_next_def bindr_Inr_iff throw_if_Inr_iff at_most_100_iff)

lemma form_set_sub: "set (form_set d pending ds) \<subseteq> insert d (set pending \<union> set ds)"
  using merge_form_sub [of d pending ds] by (auto simp: form_set_def Let_def pruned_filter)

lemma form_set_distinct:
  "distinct_keys ds \<Longrightarrow> keyOf d \<notin> keyOf ` set pending \<Longrightarrow> distinct_keys (form_set d pending ds)"
  using merge_form_keys by (simp add: form_set_def Let_def pruned_filter distinct_keys_def distinct_filter_keys)

lemma save_next_valid:
  assumes vs: "valid_set (drafts e)" and p: "pending_ok c" and ok: "save_next e c = Inr next"
  shows "valid_set next \<and> length next \<le> 100"
proof -
  from ok obtain d where d: "form_draft e c = Inr d"
    and len: "length (form_set d (cur_pending c) (drafts e)) \<le> 100"
    and ref: "referenced (form_set d (cur_pending c) (drafts e)) = Inr next"
    by (auto simp: save_next_Inr)
  have "list_all wf_draft (form_set d (cur_pending c) (drafts e))"
    using form_set_sub [of d "cur_pending c" "drafts e"] form_draft_sound(1) [OF d] p vs
    by (auto simp: list_all_iff pending_ok_def valid_set_def)
  moreover have "distinct_keys (form_set d (cur_pending c) (drafts e))"
    using vs p form_draft_sound(2) [OF d] by (simp add: form_set_distinct pending_ok_def valid_set_def)
  ultimately show ?thesis using valid_referenced ref len by blast
qed

text \<open>After a save the object has exactly the draft the form describes, or none when the form
  describes what OpenStreetMap already holds.\<close>

lemma save_next_effect:
  assumes vs: "valid_set (drafts e)" and p: "pending_ok c" and ok: "save_next e c = Inr next"
  obtains d where "form_draft e c = Inr d"
    "unchanged_draft d \<Longrightarrow> cur_key c \<notin> keyOf ` set next"
    "\<not> unchanged_draft d \<Longrightarrow> d \<in> set next"
proof -
  from ok obtain d where d: "form_draft e c = Inr d"
    and ne: "\<not> (base_of d = None \<and> etype (subject d) = Plain Node \<and> etags (subject d) = [])"
    and ref: "referenced (form_set d (cur_pending c) (drafts e)) = Inr next"
    by (auto simp: save_next_Inr)
  have nx: "next = form_set d (cur_pending c) (drafts e)"
    using ref by (auto simp: referenced_def osm_Inr_iff bindr_Inr_iff throw_if_Inr_iff)
  have keys: "keyOf d = cur_key c" using form_draft_sound(2) [OF d] .
  have "cur_key c \<notin> keyOf ` set next" if "unchanged_draft d"
    using merge_form_drops [OF that, of "drafts e" "cur_pending c"] vs p keys
    by (auto simp: nx form_set_def Let_def pruned_filter valid_set_def pending_ok_def)
  moreover have "d \<in> set next" if "\<not> unchanged_draft d"
    using merge_form_has [OF that, of "cur_pending c" "drafts e"]
    by (auto simp: nx form_set_def Let_def pruned_filter prunable_def)
  ultimately show thesis using that d by blast
qed


section \<open>Deleting, splitting, merging, importing\<close>

fun is_plain :: "tyval \<Rightarrow> bool" where
  "is_plain (Plain _) = True"
| "is_plain (Boxed _) = False"

lemma is_plain_iff: "is_plain t \<longleftrightarrow> t = Plain (ty_of t)"
  by (cases t) simp_all

definition plain_types :: "draft list \<Rightarrow> bool" where
  "plain_types ds \<longleftrightarrow> (\<forall>d\<in>set ds. is_plain (etype (subject d)))"

lemma revalidate_key: "revalidate d = Inr d' \<Longrightarrow> keyOf d' = keyOf d"
  unfolding revalidate_def by (rule validate_key)

lemma revalidate_parts:
  assumes "revalidate (Draft bo v c) = Inr d"
  shows "wf_draft d" "keyOf d = elem_key (etype v) (eid v)" "etype (subject d) = etype v" "eid (subject d) = eid v"
    "egeom (subject d) = egeom v" "\<not> is_deleted d" "base_of d = None \<longleftrightarrow> bo = None"
proof -
  show "wf_draft d" using assms by (rule revalidate_sound)
  obtain b w x where d: "d = Draft b w x" "b = None \<longleftrightarrow> bo = None" "etype w = etype v" "eid w = eid v"
    "egeom w = egeom v"
    using assms unfolding revalidate_def by (rule validate_Draft_parts)
  then show "keyOf d = elem_key (etype v) (eid v)" "etype (subject d) = etype v" "eid (subject d) = eid v"
    "egeom (subject d) = egeom v" "\<not> is_deleted d" "base_of d = None \<longleftrightarrow> bo = None"
    by (simp_all add: keyOf_def)
qed

lemma revalidate_based:
  assumes "revalidate (Draft bo v c) = Inr d" "bo \<noteq> None"
  shows "0 < eid v"
proof -
  from assms(1) obtain b w x where d: "d = Draft b w x" "b = None \<longleftrightarrow> bo = None" "eid w = eid v"
    unfolding revalidate_def by (rule validate_Draft_parts)
  then obtain b' where "b = Some b'" using assms(2) by auto
  then have "wf_element False w" using revalidate_sound [OF assms(1)] d(1) by simp
  then show ?thesis using d(3) by (simp add: wf_element_def wf_identity_def)
qed

lemma referenced_same: "referenced ds = Inr next \<Longrightarrow> next = ds"
  by (auto simp: referenced_def osm_Inr_iff bindr_Inr_iff throw_if_Inr_iff)

lemma delete_next_valid:
  assumes vs: "valid_set ds" and key: "key = keyOf (Deleted base)" and ok: "delete_next usesOf base key ds = Inr next"
  shows "valid_set next \<and> length next \<le> 100 \<and> (\<exists>b. Deleted b \<in> set next \<and> keyOf (Deleted b) = key)"
proof -
  from ok obtain gone where g: "revalidate (Deleted base) = Inr gone"
    and len: "length (filter (\<lambda>d. keyOf d \<noteq> key) ds @ [gone]) \<le> 100"
    and ref: "referenced (filter (\<lambda>d. keyOf d \<noteq> key) ds @ [gone]) = Inr next"
    by (auto simp: delete_next_def bindr_Inr_iff osm_Inr_iff at_most_100_iff)
  have k: "keyOf gone = key" using g validate_key key by (simp add: revalidate_def)
  obtain b where b: "gone = Deleted b"
    using g by (auto simp: revalidate_def validate_Deleted_unfold bindr_Inr_iff simp del: js_of_draft.simps)
  have "list_all wf_draft (filter (\<lambda>d. keyOf d \<noteq> key) ds @ [gone])"
    using vs revalidate_sound [OF g] by (simp add: valid_set_def wf_filter)
  moreover have "distinct_keys (filter (\<lambda>d. keyOf d \<noteq> key) ds @ [gone])"
    using vs k by (auto simp: valid_set_def distinct_keys_def distinct_filter_keys)
  ultimately show ?thesis using valid_referenced ref len b k by fastforce
qed

lemma valid_put:
  "list_all wf_draft ds \<Longrightarrow> wf_draft d \<Longrightarrow> list_all wf_draft (put_draft d ds)"
  using drafts_by_key.put_sub by (fastforce simp: list_all_iff)

lemma distinct_put_draft: "distinct_keys ds \<Longrightarrow> distinct_keys (put_draft d ds)"
  by (simp add: distinct_keys_def drafts_by_key.distinct_put)

lemma patch_members_key: "keyOf (patch_members f d) = keyOf d"
  by (cases d) (simp_all add: patch_members_def keyOf_def)

lemma mapr_patched:
  assumes "mapr (\<lambda>d. if P d then revalidate (patch_members f d) else Inr d) ds = Inr ds'"
    and "list_all wf_draft ds"
  shows "list_all wf_draft ds'" "map keyOf ds' = map keyOf ds"
proof -
  have one: "wf_draft d' \<and> keyOf d' = keyOf d"
    if "(if P d then revalidate (patch_members f d) else Inr d) = Inr d'" "wf_draft d" for d d'
    using that validate_key patch_members_key revalidate_sound
    by (auto simp: revalidate_def split: if_splits)
  have all: "list_all2 (\<lambda>d d'. (if P d then revalidate (patch_members f d) else Inr d) = Inr d') ds ds'"
    using assms(1) by (simp add: mapr_Inr_iff)
  then have "list_all2 (\<lambda>d d'. wf_draft d' \<and> keyOf d' = keyOf d) ds ds'"
    using assms(2) by (auto simp: list_all2_conv_all_nth list_all_length one)
  then show "list_all wf_draft ds'" "map keyOf ds' = map keyOf ds"
    by (auto simp: list_all2_conv_all_nth list_all_length intro!: nth_equalityI)
qed

lemma second_half_fresh:
  assumes vs: "valid_set ds" "plain_types ds" and el: "element (js_of_element (second_half ds v i)) True = Inr s"
  shows "elem_key (etype s) (eid s) \<notin> keyOf ` set ds"
proof
  assume "elem_key (etype s) (eid s) \<in> keyOf ` set ds"
  then obtain d where d: "d \<in> set ds" "ty_of (etype (subject d)) = Way" "eid (subject d) = nextTempId ds Way"
    using element_of_encoded [OF el] by (auto simp: second_half_def keyOf_def)
  have neg: "nextTempId ds Way < 0" by (rule nextTempId_neg)
  have wf: "wf_draft d" using d(1) vs(1) by (auto simp: valid_set_def list_all_iff)
  show False
  proof (cases d)
    case (Deleted b)
    then show False using wf d(3) neg by (simp add: wf_element_def wf_identity_def)
  next
    case (Draft bo w c)
    then have "w \<in> set (live_values ds)" using d(1) set_live_values by blast
    moreover have "etype w = Plain Way" using d(1,2) Draft vs(2) by (auto simp: plain_types_def is_plain_iff)
    ultimately show False using nextTempId_less [of w ds Way] d(3) Draft by simp
  qed
qed

lemma split_next_valid:
  assumes vs: "valid_set ds" "plain_types ds" and based: "cur_base c \<noteq> None"
    and ok: "split_next c n ds = Inr next"
  shows "valid_set next"
proof -
  let ?v = "cur_value c"
  from ok obtain i second firstDraft secondDraft patched where
    s: "element (js_of_element (second_half ds ?v i)) True = Inr second"
    and f: "revalidate (Draft (cur_base c) (first_half ?v i) (cur_center c)) = Inr firstDraft"
    and sd: "revalidate (Draft None second (cur_center c)) = Inr secondDraft"
    and p: "patchRelationsForSplit (put_draft firstDraft ds @ [secondDraft]) (eid ?v) (eid second) = Inr patched"
    and ref: "referenced patched = Inr next"
    by (auto simp: split_next_def bindr_Inr_iff throw_if_Inr_iff osm_Inr_iff Let_def split: option.splits)
  have wf: "list_all wf_draft (put_draft firstDraft ds @ [secondDraft])"
    using vs(1) revalidate_sound [OF f] revalidate_sound [OF sd] by (simp add: valid_set_def valid_put)
  have k1: "keyOf firstDraft = elem_key (etype ?v) (eid ?v)"
    using revalidate_key [OF f] by (simp add: keyOf_def first_half_def)
  have k2: "keyOf secondDraft = elem_key (etype second) (eid second)"
    using revalidate_key [OF sd] by (simp add: keyOf_def)
  have "0 < eid ?v" using revalidate_based [OF f based] by (simp add: first_half_def)
  moreover have "eid second < 0"
    using element_sound [OF s] by (simp add: wf_element_def wf_identity_def)
  ultimately have "keyOf secondDraft \<noteq> keyOf firstDraft"
    using k1 k2 by simp
  moreover have "keyOf secondDraft \<notin> keyOf ` set ds" using second_half_fresh [OF vs s] k2 by simp
  ultimately have "distinct_keys (put_draft firstDraft ds @ [secondDraft])"
    using vs(1) distinct_put_draft drafts_by_key.key_set_put
    by (auto simp: valid_set_def distinct_keys_def drafts_by_key.distinct_put)
  then have "list_all wf_draft patched" "distinct_keys patched"
    using mapr_patched [OF p [unfolded patchRelationsForSplit_def] wf] by (simp_all add: distinct_keys_def)
  with valid_referenced ref show ?thesis by blast
qed


lemma loaded_way_identity: "loaded_way i resp = Inr w \<Longrightarrow> etype w = Plain Way \<and> eid w = i"
proof -
  assume "loaded_way i resp = Inr w"
  then obtain b raw where f: "find_element (Plain Way) i b = Inr raw" and el: "element raw False = Inr w"
    by (auto simp: loaded_way_def bindr_Inr_iff throw_if_Inr_iff osm_Inr_iff split: option.splits)
  have "raw = JUndef \<or> same_raw (Plain Way) i raw" if "find_raw (Plain Way) i es = Inr raw" for es
    using that by (induction es) (auto split: if_splits)
  then have "raw = JUndef \<or> same_raw (Plain Way) i raw"
    using f by (auto simp: find_element_def split: if_splits js.splits)
  with el show ?thesis
    by (auto simp: same_raw_def element_def throw_if_Inr_iff bindr_Inr_iff split: option.splits)
qed

lemma find_index_Some: "find_index P xs = Some k \<Longrightarrow> k < length xs \<and> P (xs ! k)"
  by (induction xs arbitrary: k) (auto split: if_splits)

lemma find_index_None: "find_index P xs = None \<longleftrightarrow> (\<forall>x\<in>set xs. \<not> P x)"
  by (induction xs) auto

lemma is_live_way_key: "is_live_way i d \<Longrightarrow> keyOf d = elem_key (Plain Way) i"
  by (simp add: is_live_way_def keyOf_def)

lemma merge_next_valid:
  assumes vs: "valid_set ds"
    and free: "\<forall>d\<in>set ds. keyOf d = elem_key (Plain Way) i \<longrightarrow> is_live_way i d"
    and other: "i \<noteq> eid (cur_value c)"
    and ok: "merge_next c i resp ds = Inr next"
  shows "valid_set next"
proof -
  let ?v = "cur_value c"
from ok obtain x merged keptDraft removedDraft patched where
    x: "(case find (is_live_way i) ds of Some d \<Rightarrow> Inr (subject d) | None \<Rightarrow> loaded_way i resp) = Inr x"
    and k: "revalidate (Draft (cur_base c)
        (?v\<lparr>egeom := WayG merged, etags := from_entries (etags x @ etags ?v)\<rparr>) (cur_center c)) = Inr keptDraft"
    and r: "removal_of (find (is_live_way i) ds) x = Inr removedDraft"
    and p: "patchRelationsForMerge (put_removal i removedDraft (put_draft keptDraft ds)) i (eid ?v) = Inr patched"
    and ref: "referenced patched = Inr next"
    by (auto simp: merge_next_def bindr_Inr_iff osm_Inr_iff Let_def split: option.splits)
  have "keyOf removedDraft = elem_key (Plain Way) i \<and> wf_draft removedDraft"
  proof (cases "find (is_live_way i) ds")
    case None
    then have "loaded_way i resp = Inr x" "revalidate (Deleted x) = Inr removedDraft"
      using x r by (simp_all add: removal_of_def osm_Inr_iff)
    then show ?thesis
      using loaded_way_identity revalidate_key revalidate_sound by (fastforce simp: keyOf_def)
  next
    case (Some d)
    then have d: "is_live_way i d" "d \<in> set ds" by (auto simp: find_Some_iff)
    with Some r obtain b where b: "base_of d = Some b" "revalidate (Deleted b) = Inr removedDraft"
      by (auto simp: removal_of_def osm_Inr_iff split: option.splits)
    have "wf_draft d" using d(2) vs by (auto simp: valid_set_def list_all_iff)
    then have "keyOf (Deleted b) = keyOf d"
      using b(1) by (cases d rule: wf_draft.cases) (auto simp: keyOf_def same_identity_def type_same_Plain)
    then show ?thesis
      using b(2) revalidate_key revalidate_sound is_live_way_key [OF d(1)] by metis
  qed
  then have rk: "keyOf removedDraft = elem_key (Plain Way) i" and rw: "wf_draft removedDraft" by auto
  have kk: "keyOf keptDraft = elem_key (etype ?v) (eid ?v)"
    using revalidate_key [OF k] by (simp add: keyOf_def)
  have wfp: "list_all wf_draft (put_draft keptDraft ds)" and dkp: "distinct_keys (put_draft keptDraft ds)"
    using vs revalidate_sound [OF k] by (simp_all add: valid_set_def valid_put distinct_put_draft)
  have "list_all wf_draft (put_removal i removedDraft (put_draft keptDraft ds)) \<and> distinct_keys (put_removal i removedDraft (put_draft keptDraft ds))"
  proof (cases "find_index (is_live_way i) (put_draft keptDraft ds)")
    case None
    have "elem_key (Plain Way) i \<notin> keyOf ` set (put_draft keptDraft ds)"
    proof
      assume "elem_key (Plain Way) i \<in> keyOf ` set (put_draft keptDraft ds)"
      then obtain d where d: "d \<in> set (put_draft keptDraft ds)" "keyOf d = elem_key (Plain Way) i" by auto
      then have "d \<in> set ds" using drafts_by_key.put_sub kk other by fastforce
      with d free None show False by (auto simp: find_index_None)
    qed
    then show ?thesis using None wfp dkp rk rw by (simp add: distinct_keys_def put_removal_def)
  next
    case (Some k)
    then have "k < length (put_draft keptDraft ds)" "keyOf (put_draft keptDraft ds ! k) = keyOf removedDraft"
      using find_index_Some is_live_way_key rk by fastforce+
    then show ?thesis
      using Some wfp dkp rw set_update_subset_insert [of "put_draft keptDraft ds" k removedDraft]
      by (auto simp: distinct_keys_def map_update_same list_all_iff put_removal_def)
  qed
  then have "list_all wf_draft patched" "distinct_keys patched"
    using mapr_patched [OF p [unfolded patchRelationsForMerge_def]] by (simp_all add: distinct_keys_def)
  with valid_referenced ref show ?thesis by blast
qed

lemma import_next_valid:
  assumes "list_all wf_draft ds" "import_next num parse file ds = Inr merged"
  shows "valid_set merged \<and> length merged \<le> 100 \<and> (\<exists>new. merged = ds @ new)"
proof -
  from assms(2) obtain new s where n: "restore num parse file = Inr new" "merged = ds @ new"
    "osc num (map js_of_draft (ds @ new)) = Inr s"
    by (auto simp: import_next_def bindr_Inr_iff osm_Inr_iff)
  have "list_all wf_draft (ds @ new)" using restore_sound [OF n(1)] assms(1) by (simp add: valid_set_def)
  then show ?thesis
    using osc_encoded_ok [of "ds @ new" num] n by (auto simp: is_ok_iff)
qed

section \<open>Properties\<close>

text \<open>Dropping the vertices a way no longer needs, one by one from the end of the list, removes
  exactly the drafts of new untagged nodes of that way that no way or relation uses, and keeps the
  order of the rest.\<close>

theorem pruning_is_filter: "pruned ids ds = filter (\<lambda>n. \<not> prunable ids ds n) ds"
  by (rule pruned_filter)

lemma mapr_keeps: "mapr f xs = Inr ys \<Longrightarrow> x \<in> set xs \<Longrightarrow> f x = Inr x \<Longrightarrow> x \<in> set ys"
  by (auto simp: mapr_Inr_iff list_all2_conv_all_nth in_set_conv_nth)

lemma index_of_Some: "index_of x xs = Some i \<Longrightarrow> i < length xs \<and> xs ! i = x \<and> x \<notin> set (take i xs)"
  by (induction xs arbitrary: i) (auto split: if_splits)

lemma way_draft: "wf_draft d \<Longrightarrow> \<not> is_deleted d \<Longrightarrow> egeom (subject d) = WayG ns \<Longrightarrow> etype (subject d) = Plain Way"
  by (cases d rule: wf_draft.cases) (auto simp: wf_element_def)

text \<open>Splitting a way at a vertex succeeds only at an inner vertex, and gives two drafts: the old
  object with the nodes up to and including the vertex, and a new way, with a fresh placeholder and
  the same tags, with the nodes from the vertex on.\<close>

theorem split_gives_both_halves:
  assumes "split_next c n ds = Inr next"
  shows "\<exists>i a b. 0 < i \<and> Suc i < length (nodes_of (egeom (cur_value c))) \<and> nodes_of (egeom (cur_value c)) ! i = n
    \<and> a \<in> set next \<and> keyOf a = cur_key c \<and> egeom (subject a) = WayG (take (Suc i) (nodes_of (egeom (cur_value c))))
    \<and> b \<in> set next \<and> base_of b = None \<and> eid (subject b) = nextTempId ds Way
    \<and> egeom (subject b) = WayG (drop i (nodes_of (egeom (cur_value c))))"
proof -
  let ?v = "cur_value c"
  from assms obtain i second a b patched where
    i: "index_of n (nodes_of (egeom ?v)) = Some i" "i \<noteq> 0" "Suc i < length (nodes_of (egeom ?v))"
    and s: "element (js_of_element (second_half ds ?v i)) True = Inr second"
    and a: "revalidate (Draft (cur_base c) (first_half ?v i) (cur_center c)) = Inr a"
    and b: "revalidate (Draft None second (cur_center c)) = Inr b"
    and p: "patchRelationsForSplit (put_draft a ds @ [b]) (eid ?v) (eid second) = Inr patched"
    and ref: "referenced patched = Inr next"
    by (auto simp: split_next_def bindr_Inr_iff throw_if_Inr_iff osm_Inr_iff Let_def split: option.splits)
  note pa = revalidate_parts [OF a] and pb = revalidate_parts [OF b] and ps = element_of_encoded [OF s]
  have ga: "egeom (subject a) = WayG (take (Suc i) (nodes_of (egeom ?v)))"
    and gb: "egeom (subject b) = WayG (drop i (nodes_of (egeom ?v)))"
    using pa(5) pb(5) ps(3) by (simp_all add: first_half_def second_half_def)
  have "etype (subject a) = Plain Way" "etype (subject b) = Plain Way"
    using way_draft pa(1,6) pb(1,6) ga gb by blast+
  then have "\<not> live_relation a" "\<not> live_relation b" by (simp_all add: live_relation_def)
  then have "a \<in> set patched" "b \<in> set patched"
    using mapr_keeps [OF p [unfolded patchRelationsForSplit_def]] drafts_by_key.put_in [of a ds] by auto
  then have "a \<in> set next" "b \<in> set next" using referenced_same [OF ref] by simp_all
  moreover have "keyOf a = cur_key c" using pa(2) by (simp add: cur_key_def first_half_def)
  moreover have "eid (subject b) = nextTempId ds Way" "base_of b = None"
    using pb(4,7) ps(2) by (simp_all add: second_half_def)
  moreover have "nodes_of (egeom ?v) ! i = n" using index_of_Some [OF i(1)] by blast
  ultimately show ?thesis
    using i(2,3) ga gb by (intro exI [of _ i] exI [of _ a] exI [of _ b]) simp
qed

definition road :: "element" where
  "road = \<lparr>etype = Plain Way, eid = 7, eversion = Some 1, etags = [(lit ''a'', lit ''b'')], egeom = WayG [1, 2, 3]\<rparr>"

definition road_cur :: cur where
  "road_cur = \<lparr>cur_base = Some road, cur_value = road, cur_center = None, cur_pending = [],
     cur_shape = None, cur_nodes = None, cur_secret = None\<rparr>"

lemma road_parts:
  "wf_draft (Draft (Some road) (road\<lparr>egeom := WayG [1, 2]\<rparr>) None)"
  "wf_element True \<lparr>etype = Plain Way, eid = -1, eversion = None, etags = [(lit ''a'', lit ''b'')], egeom = WayG [2, 3]\<rparr>"
  by (simp_all add: road_def wf_element_def wf_identity_def safe_int_def wf_tags_def obj_wf_def sample_tag
      wf_center_def same_identity_def type_same_Plain)

lemma road_split:
  "split_next road_cur 2 [] = Inr
     [Draft (Some road) (road\<lparr>egeom := WayG [1, 2]\<rparr>) None,
      Draft None \<lparr>etype = Plain Way, eid = -1, eversion = None, etags = [(lit ''a'', lit ''b'')], egeom = WayG [2, 3]\<rparr> None]"
proof -
  let ?w = "\<lparr>etype = Plain Way, eid = -1, eversion = None, etags = [(lit ''a'', lit ''b'')], egeom = WayG [2, 3]\<rparr>"
  let ?a = "Draft (Some road) (road\<lparr>egeom := WayG [1, 2]\<rparr>) None"
  have w: "wf_draft (Draft None ?w None)" using road_parts(2) by (simp add: wf_center_def sample_tag)
  have ci: "collectIssues [?a, Draft None ?w None] = []"
    by (simp add: collectIssues_def deleted_bases_def dangling_issues_def ref_exists_def known_map_def keyOf_def road_def)
  have "revalidate ?a = Inr ?a" "revalidate (Draft None ?w None) = Inr (Draft None ?w None)"
    using validateDraft_encoded [OF road_parts(1)] validateDraft_encoded [OF w]
    by (simp_all add: revalidate_def del: js_of_draft.simps)
  moreover have "second_half [] road 1 = ?w" "first_half road 1 = road\<lparr>egeom := WayG [1, 2]\<rparr>"
    by (simp_all add: second_half_def first_half_def road_def nextTempId_def)
  moreover have "put_draft ?a [] @ [Draft None ?w None] = [?a, Draft None ?w None]"
    by (simp add: put_draft_def)
  moreover have "patchRelationsForSplit [?a, Draft None ?w None] 7 (-1) = Inr [?a, Draft None ?w None]"
    by (simp add: patchRelationsForSplit_def live_relation_def road_def)
  moreover have "referenced [?a, Draft None ?w None] = Inr [?a, Draft None ?w None]"
    using road_parts(1) w ci by (simp add: referenced_iff del: wf_draft.simps)
  ultimately show ?thesis
    using element_encoded [OF road_parts(2)]
    by (simp add: split_next_def road_cur_def road_def numeral_2_eq_2)
qed

theorem split_gives_both_halves_witness:
  "\<exists>i. 0 < i \<and> Suc i < length (nodes_of (egeom (cur_value road_cur))) \<and> nodes_of (egeom (cur_value road_cur)) ! i = 2"
  using split_gives_both_halves [OF road_split] by blast

text \<open>Two ways are joined exactly when they share an end node: the joined line runs through one of
  them and then the other, one of them reversed where needed, with the shared node once.\<close>

theorem join_at_shared_end:
  assumes "a \<noteq> []" "b \<noteq> []"
  shows "(join_nodes a b = None \<longleftrightarrow> {hd a, last a} \<inter> {hd b, last b} = {})
    \<and> (\<forall>m. join_nodes a b = Some m \<longrightarrow>
         (\<exists>b'\<in>{b, rev b}. last a = hd b' \<and> m = a @ tl b' \<or> last b' = hd a \<and> m = b' @ tl a))"
proof (intro conjI allI impI)
  have tl_rev: "rev (butlast xs) = tl (rev xs)" for xs :: "int list"
    by (induction xs rule: rev_induct) simp_all
  show "join_nodes a b = None \<longleftrightarrow> {hd a, last a} \<inter> {hd b, last b} = {}"
    by (auto simp: join_nodes_def)
  show "\<exists>b'\<in>{b, rev b}. last a = hd b' \<and> m = a @ tl b' \<or> last b' = hd a \<and> m = b' @ tl a"
    if "join_nodes a b = Some m" for m
    using that assms by (auto simp: join_nodes_def tl_rev hd_rev last_rev split: if_splits)
qed

theorem join_at_shared_end_witness: "join_nodes [1, 2] [4, 3, 2] = Some [1, 2, 3, 4]"
proof -
  have "join_nodes [1, 2] [4, 3, 2::int] \<noteq> None"
    using join_at_shared_end [of "[1, 2]" "[4, 3, 2]"] by simp
  then show ?thesis by (simp add: join_nodes_def)
qed

end
