(* ===== verification/EditorDraw.thy ===== *)
theory EditorDraw
  imports EditorDrafts
begin

text \<open>
  Geometry in the OSM editor (\<open>create\<close> in cmd/web/osm-editor.js): moving, inserting and removing the
  vertices of the open object, drawing a new way or area, placing a new point, loading an object.
  \<open>proj\<close> is the projection of the map to the screen, and the replies of the OSM API are arguments.
  These operations change the open object and the geometry waiting with it, never the drafts.
\<close>

section \<open>Geometry mode\<close>

definition point_id :: "cur \<Rightarrow> int option" where
  "point_id c = (if etype (cur_value c) = Plain Node then Some (eid (cur_value c)) else None)"

definition toggleGeometryMode :: "editor \<Rightarrow> editor" where
  "toggleGeometryMode e =
     (case current e of
        None \<Rightarrow> e
      | Some c \<Rightarrow>
          if etype (cur_value c) = Plain Relation \<or> cur_secret c \<noteq> None \<or> busy e then e
          else say Done (e\<lparr>geometryMode := \<not> geometryMode e, insertMode := False,
                 selectedVertexId := point_id c, dragNodeId := None, dragPreview := Map.empty\<rparr>))"

definition vertex_ids :: "cur \<Rightarrow> int list" where
  "vertex_ids c = (if etype (cur_value c) = Plain Node then [eid (cur_value c)]
     else nodes_of (egeom (cur_value c)))"

definition selectVertex :: "int \<Rightarrow> editor \<Rightarrow> editor" where
  "selectVertex i e =
     (case current e of
        None \<Rightarrow> e
      | Some c \<Rightarrow> if geometryMode e \<and> i \<in> set (vertex_ids c) then e\<lparr>selectedVertexId := Some i\<rparr> else e)"

definition new_node :: "int \<Rightarrow> point \<Rightarrow> draft" where
  "new_node i p = Draft None \<lparr>etype = Plain Node, eid = i, eversion = None, etags = [],
     egeom = NodeG (fst p) (snd p)\<rparr> None"

definition with_nodes :: "int list \<Rightarrow> element \<Rightarrow> element" where
  "with_nodes ns v = v\<lparr>egeom := WayG ns\<rparr>"

definition geo :: "geo_err + 'a \<Rightarrow> edit_err + 'a" where
  "geo r = (case r of Inl x \<Rightarrow> Inl (GeoErr x) | Inr a \<Rightarrow> Inr a)"

definition insert_next :: "int \<Rightarrow> point \<Rightarrow> cur \<Rightarrow> draft list \<Rightarrow> edit_err + (cur \<times> int)" where
  "insert_next index p c ds =
     (let i = nextTempId (ds @ cur_pending c) Node in
      bindr (geo (editWayNodes (nodes_of (egeom (cur_value c))) index (Some i))) (\<lambda>nodes.
      bindr (osm (revalidate (new_node i p))) (\<lambda>node.
        Inr (c\<lparr>cur_pending := cur_pending c @ [node], cur_value := with_nodes nodes (cur_value c)\<rparr>, i))))"

definition insertVertex :: "int \<Rightarrow> point \<Rightarrow> editor \<Rightarrow> editor" where
  "insertVertex index p e =
     (case current e of
        None \<Rightarrow> e
      | Some c \<Rightarrow>
          if \<not> geometryMode e \<or> busy e \<or> etype (cur_value c) \<noteq> Plain Way \<or> cur_secret c \<noteq> None then e
          else (case insert_next index p c (drafts e) of
                  Inl x \<Rightarrow> failed x e
                | Inr (c', i) \<Rightarrow>
                    say Done (touch (e\<lparr>current := Some c', selectedVertexId := Some i, insertMode := False\<rparr>))))"

definition removal_nodes :: "int \<Rightarrow> int list \<Rightarrow> geo_err + int list" where
  \<comment> \<open>the last vertex of an open line is removed from the reversed line\<close>
  "removal_nodes i nodes =
     (let index = (case index_of i nodes of Some k \<Rightarrow> int k | None \<Rightarrow> -1) in
      if index = int (length nodes) - 1 \<and> (nodes = [] \<or> hd nodes \<noteq> i)
      then bindr (editWayNodes (rev nodes) 0 None) (\<lambda>ns. Inr (rev ns))
      else editWayNodes nodes index None)"

definition removeVertex :: "editor \<Rightarrow> editor" where
  "removeVertex e =
     (case (current e, selectedVertexId e) of
        (Some c, Some i) \<Rightarrow>
          if \<not> geometryMode e \<or> busy e \<or> etype (cur_value c) \<noteq> Plain Way then e
          else (case geo (removal_nodes i (nodes_of (egeom (cur_value c)))) of
                  Inl x \<Rightarrow> failed x e
                | Inr nodes \<Rightarrow>
                    say Done (touch (e\<lparr>current := Some (c\<lparr>cur_value := with_nodes nodes (cur_value c),
                       cur_pending := filter (\<lambda>d. eid (subject d) \<noteq> i \<or> i \<in> set nodes) (cur_pending c)\<rparr>),
                       selectedVertexId := None\<rparr>)))
      | _ \<Rightarrow> e)"

section \<open>Clicks on vertices and segments\<close>

type_synonym pixel = "real \<times> real"

definition pixel_dist :: "pixel \<Rightarrow> pixel \<Rightarrow> real" where
  "pixel_dist p q = sqrt ((fst p - fst q) * (fst p - fst q) + (snd p - snd q) * (snd p - snd q))"

text \<open>The nearest of some positions, closer than a limit; the first of equally near ones.\<close>

fun nearest_of :: "('a \<Rightarrow> real option) \<Rightarrow> real \<Rightarrow> 'a option \<Rightarrow> 'a list \<Rightarrow> 'a option" where
  "nearest_of f limit best [] = best"
| "nearest_of f limit best (x # xs) =
     (case f x of
        Some d \<Rightarrow> if d < limit then nearest_of f d (Some x) xs else nearest_of f limit best xs
      | None \<Rightarrow> nearest_of f limit best xs)"

definition vertexAt :: "(point \<Rightarrow> pixel) \<Rightarrow> pixel \<Rightarrow> editor \<Rightarrow> int option" where
  "vertexAt proj p e =
     (case current e of
        None \<Rightarrow> None
      | Some c \<Rightarrow>
          if \<not> geometryMode e \<or> busy e then None
          else nearest_of (\<lambda>i. map_option (\<lambda>q. pixel_dist (proj q) p) (coordsOfNode e i)) 14 None
                 (uniq (vertex_ids c)))"

record segment_hit =
  sindex :: nat
  sdist :: real
  sat :: point

definition segment_hit :: "(point \<Rightarrow> pixel) \<Rightarrow> pixel \<Rightarrow> editor \<Rightarrow> int list \<Rightarrow> nat \<Rightarrow> segment_hit option" where
  "segment_hit proj p e nodes i =
     (case (coordsOfNode e (nodes ! i), coordsOfNode e (nodes ! Suc i)) of
        (Some a, Some b) \<Rightarrow>
          (let pa = proj a; pb = proj b; dx = fst pb - fst pa; dy = snd pb - snd pa;
               len = dx * dx + dy * dy
           in if len = 0 then None
              else let t = max 0 (min 1 (((fst p - fst pa) * dx + (snd p - snd pa) * dy) / len))
                   in Some \<lparr>sindex = i,
                        sdist = sqrt ((fst p - fst pa - t * dx) ^ 2 + (snd p - snd pa - t * dy) ^ 2),
                        sat = (fst a + t * (fst b - fst a), snd a + t * (snd b - snd a))\<rparr>)
      | _ \<Rightarrow> None)"

definition better_hit :: "segment_hit option \<Rightarrow> segment_hit option \<Rightarrow> segment_hit option" where
  "better_hit best h =
     (case (best, h) of
        (_, None) \<Rightarrow> best
      | (None, Some _) \<Rightarrow> h
      | (Some g, Some k) \<Rightarrow> if sdist k < sdist g then h else best)"

definition geometryClick :: "(point \<Rightarrow> pixel) \<Rightarrow> pixel \<Rightarrow> editor \<Rightarrow> editor" where
  "geometryClick proj p e =
     (case current e of
        None \<Rightarrow> e
      | Some c \<Rightarrow>
          if \<not> geometryMode e \<or> busy e then e
          else if \<not> insertMode e then
            (case vertexAt proj p e of Some i \<Rightarrow> selectVertex i e | None \<Rightarrow> e)
          else
            (let nodes = nodes_of (egeom (cur_value c));
                 best = foldl (\<lambda>b i. better_hit b (segment_hit proj p e nodes i)) None [0..<length nodes - 1]
             in case best of
                  Some h \<Rightarrow> if sdist h < 20 then insertVertex (int (sindex h)) (sat h) e else say Refused e
                | None \<Rightarrow> say Refused e))"

section \<open>Dragging a vertex\<close>

definition commit_base :: "int \<Rightarrow> cur \<Rightarrow> draft list \<Rightarrow> element option" where
  "commit_base i c ds =
     (case find (\<lambda>d. eid (subject d) = i) (cur_pending c) of
        Some d \<Rightarrow> base_of d
      | None \<Rightarrow>
          (case find (\<lambda>d. \<not> is_deleted d \<and> etype (subject d) = Plain Node \<and> eid (subject d) = i) ds of
             Some d \<Rightarrow> (case base_of d of Some b \<Rightarrow> Some b
                          | None \<Rightarrow> (case cur_nodes c of Some m \<Rightarrow> m i | None \<Rightarrow> None))
           | None \<Rightarrow> (case cur_nodes c of Some m \<Rightarrow> m i | None \<Rightarrow> None)))"

definition commit_value :: "int \<Rightarrow> cur \<Rightarrow> draft list \<Rightarrow> element option" where
  "commit_value i c ds =
     (case find (\<lambda>d. eid (subject d) = i) (cur_pending c) of
        Some d \<Rightarrow> Some (subject d)
      | None \<Rightarrow>
          (case find (\<lambda>d. \<not> is_deleted d \<and> etype (subject d) = Plain Node \<and> eid (subject d) = i) ds of
             Some d \<Rightarrow> Some (subject d)
           | None \<Rightarrow> commit_base i c ds))"

definition put_pending :: "int \<Rightarrow> draft \<Rightarrow> draft list \<Rightarrow> draft list" where
  "put_pending i moved pending =
     (case find_index (\<lambda>d. eid (subject d) = i) pending of
        Some k \<Rightarrow> pending[k := moved] | None \<Rightarrow> pending @ [moved])"

definition commit_next :: "int \<Rightarrow> point \<Rightarrow> cur \<Rightarrow> draft list \<Rightarrow> edit_err + cur" where
  "commit_next i p c ds =
     (case commit_value i c ds of
        None \<Rightarrow> Inl NodeBaseMissing
      | Some v \<Rightarrow>
          bindr (osm (revalidate (Draft (commit_base i c ds) (v\<lparr>egeom := NodeG (fst p) (snd p)\<rparr>) None)))
            (\<lambda>moved. Inr (c\<lparr>cur_pending := put_pending i moved (cur_pending c)\<rparr>)))"

definition commitNodeMove :: "int \<Rightarrow> jsnum \<Rightarrow> jsnum \<Rightarrow> editor \<Rightarrow> editor" where
  "commitNodeMove i lon lat e =
     (case (lon, lat) of
        (Fin x, Fin y) \<Rightarrow>
          if 180 < \<bar>x\<bar> \<or> 90 < \<bar>y\<bar> then failed BadCoordinates e
          else (case current e of
                  None \<Rightarrow> failed (OsmErr TypeErr) e
                | Some c \<Rightarrow>
                    if point_id c = Some i
                    then touch (e\<lparr>current := Some (c\<lparr>cur_value := (cur_value c)\<lparr>egeom := NodeG x y\<rparr>,
                           cur_center := Some (x, y)\<rparr>)\<rparr>)
                    else (case commit_next i (x, y) c (drafts e) of
                            Inl err \<Rightarrow> failed err e
                          | Inr c' \<Rightarrow> say Done (touch (e\<lparr>current := Some c'\<rparr>))))
      | _ \<Rightarrow> failed BadCoordinates e)"

definition mapMouseDown :: "(point \<Rightarrow> pixel) \<Rightarrow> bool \<Rightarrow> bool \<Rightarrow> nat \<Rightarrow> pixel \<Rightarrow> editor \<Rightarrow> editor" where
  \<comment> \<open>\<open>onMarker\<close>: the event hit a marker or popup\<close>
  "mapMouseDown proj storable onMarker button p e =
     (if onMarker \<or> \<not> viewActive e \<or> insertMode e \<or> 0 < button then e
      else case vertexAt proj p e of
             None \<Rightarrow> e
           | Some i \<Rightarrow>
               if splitMode e then performSplit storable i e
               else e\<lparr>selectedVertexId := Some i, dragNodeId := Some i,
                      dragPreview := (dragPreview e)(i := coordsOfNode e i)\<rparr>)"

definition mapMouseMove :: "point \<Rightarrow> editor \<Rightarrow> editor" where
  "mapMouseMove p e =
     (case dragNodeId e of
        Some i \<Rightarrow> if viewActive e then e\<lparr>dragPreview := (dragPreview e)(i \<mapsto> (normLon (fst p), snd p))\<rparr> else e
      | None \<Rightarrow> e)"

definition mapMouseUp :: "editor \<Rightarrow> editor" where
  "mapMouseUp e =
     (case dragNodeId e of
        None \<Rightarrow> e
      | Some i \<Rightarrow>
          (let coord = dragPreview e i; e' = e\<lparr>dragNodeId := None, dragPreview := Map.empty\<rparr>
           in case coord of
                None \<Rightarrow> e'
              | Some p \<Rightarrow> if coordsOfNode e' i = Some p then e'
                           else commitNodeMove i (Fin (fst p)) (Fin (snd p)) e'))"

definition startSplit :: "editor \<Rightarrow> editor" where
  "startSplit e =
     (case current e of
        None \<Rightarrow> e
      | Some c \<Rightarrow>
          if etype (cur_value c) \<noteq> Plain Way \<or> cur_base c = None then e
          else if dirty e then say Refused e
          else say Done ((if geometryMode e then e else toggleGeometryMode e)\<lparr>splitMode := True\<rparr>))"

section \<open>Drawing\<close>

definition startDrawing :: "draw_kind \<Rightarrow> editor \<Rightarrow> editor" where
  \<comment> \<open>until \<open>fetchSnapNodes\<close> waits for its reply\<close>
  "startDrawing kind e =
     (if \<not> canSwitch e then refuse_switch e
      else say Done ((cancel (setTab TabFind (e\<lparr>geometryMode := False, insertMode := False\<rparr>)))
             \<lparr>drawing := True, drawKind := kind, drawPoints := [], drawSnapNodes := Some []\<rparr>))"

definition snap_nodes :: "js list \<Rightarrow> (int \<times> point) list" where
  "snap_nodes es = List.map_filter (\<lambda>v. case v of
     JObj e \<Rightarrow> if raw_type e Node
                 then map_option (Pair (int_of (jget v ''id''))) (raw_point e) else None
   | _ \<Rightarrow> None) es"

definition small_view :: "real \<Rightarrow> real \<Rightarrow> real \<Rightarrow> real \<Rightarrow> bool" where
  "small_view west south east north \<longleftrightarrow>
     (let area = \<bar>normLon east - normLon west\<bar> * \<bar>min 90 north - max (-90) south\<bar>
      in 0 < area \<and> area \<le> 1 / 4)"

definition fetchSnapNodes :: "real \<times> real \<times> real \<times> real \<Rightarrow> err + response \<Rightarrow> editor \<Rightarrow> editor" where
  "fetchSnapNodes bounds resp e =
     (case bounds of (west, south, east, north) \<Rightarrow>
        if \<not> small_view west south east north then say Refused (e\<lparr>drawSnapNodes := Some []\<rparr>)
        else (case bindr resp (\<lambda>r. throw_if (\<not> okay r) (HttpErr (status r))
                (case body r of
                   None \<Rightarrow> Inl SyntaxErr
                 | Some b \<Rightarrow> if nullish b then Inl TypeErr
                              else (case jget b ''elements'' of
                                      JArr es \<Rightarrow> throw_if (list_ex nullish es) TypeErr (Inr (snap_nodes es))
                                    | v \<Rightarrow> throw_if (truthy v) TypeErr (Inr [])))) of
                Inl x \<Rightarrow> failed (OsmErr x) (e\<lparr>drawSnapNodes := Some []\<rparr>)
              | Inr ns \<Rightarrow> e\<lparr>drawSnapNodes := Some ns\<rparr>))"

definition nearestSnapNode :: "(point \<Rightarrow> pixel) \<Rightarrow> point \<Rightarrow> editor \<Rightarrow> (int \<times> point) option" where
  "nearestSnapNode proj p e =
     (case drawSnapNodes e of
        None \<Rightarrow> None
      | Some ns \<Rightarrow> nearest_of (\<lambda>n. Some (pixel_dist (proj (snd n)) (proj p))) 12 None ns)"

definition addDrawPoint :: "(point \<Rightarrow> pixel) \<Rightarrow> point \<Rightarrow> editor \<Rightarrow> editor" where
  "addDrawPoint proj p e =
     (if 500 \<le> length (drawPoints e) then say Refused e
      else say Done (e\<lparr>drawPoints := drawPoints e @
             [case nearestSnapNode proj p e of
                Some n \<Rightarrow> \<lparr>dp_at = snd n, dp_node = Some (fst n)\<rparr>
              | None \<Rightarrow> \<lparr>dp_at = (normLon (fst p), snd p), dp_node = None\<rparr>]\<rparr>))"

definition undoDrawPoint :: "editor \<Rightarrow> editor" where
  "undoDrawPoint e = (if drawPoints e = [] then e else e\<lparr>drawPoints := butlast (drawPoints e)\<rparr>)"

definition drawSelectedArea :: "editor \<Rightarrow> err + editor" where
  \<comment> \<open>\<open>tags(trimmed())\<close> may throw out of the handler\<close>
  "drawSelectedArea e =
     (if current e = None then Inr e
      else bindr (tags_of_rows (trimmed e)) (\<lambda>ts.
        Inr ((startDrawing DrawArea (setTab TabFind (closeCurrent e)))\<lparr>pendingDrawTags := Some ts\<rparr>)))"

text \<open>The nodes of the drawn way: a snapped point is the node it snapped to, any other point
  becomes a new node with the next free placeholder.\<close>

fun draw_nodes :: "draft list \<Rightarrow> draft list \<Rightarrow> draw_point list \<Rightarrow> err + (draft list \<times> int list)" where
  "draw_nodes ds pending [] = Inr (pending, [])"
| "draw_nodes ds pending (p # ps) =
     (case dp_node p of
        Some i \<Rightarrow>
          if i \<noteq> 0 then bindr (draw_nodes ds pending ps) (\<lambda>(q, is). Inr (q, i # is))
          else (let i = nextTempId (ds @ pending) Node in
                bindr (revalidate (new_node i (dp_at p))) (\<lambda>n.
                bindr (draw_nodes ds (pending @ [n]) ps) (\<lambda>(q, is). Inr (q, i # is))))
      | None \<Rightarrow>
          (let i = nextTempId (ds @ pending) Node in
           bindr (revalidate (new_node i (dp_at p))) (\<lambda>n.
           bindr (draw_nodes ds (pending @ [n]) ps) (\<lambda>(q, is). Inr (q, i # is)))))"

definition close_with :: "draw_kind \<Rightarrow> 'a list \<Rightarrow> 'a list" where
  "close_with k xs = (if k = DrawArea \<and> xs \<noteq> [] then xs @ [hd xs] else xs)"

definition mean :: "real list \<Rightarrow> real" where
  "mean xs = sum_list xs / real (length xs)"

definition drawn_shape :: "draw_kind \<Rightarrow> point list \<Rightarrow> shape" where
  "drawn_shape k ps = \<lparr>scoords = close_with k ps, sclosed = (k = DrawArea), scenter = None,
     sbounds = Some ((west_of ps, south_of ps), (east_of ps, north_of ps))\<rparr>"

definition drawn_way :: "draft list \<Rightarrow> int list \<Rightarrow> tag_map option \<Rightarrow> element" where
  "drawn_way ds ns ts = \<lparr>etype = Plain Way, eid = nextTempId ds Way, eversion = None,
     etags = (case ts of Some t \<Rightarrow> t | None \<Rightarrow> []), egeom = WayG ns\<rparr>"

definition draw_next :: "editor \<Rightarrow> edit_err + cur" where
  "draw_next e =
     (let ps = map dp_at (drawPoints e); k = drawKind e in
      bindr (geo (validateWayCoordinates (close_with k ps) (k = DrawArea))) (\<lambda>_.
      bindr (osm (draw_nodes (drafts e) [] (drawPoints e))) (\<lambda>(pending, is).
      bindr (osm (element (js_of_element (drawn_way (drafts e) (close_with k is) (pendingDrawTags e))) True)) (\<lambda>v.
        Inr \<lparr>cur_base = None, cur_value = v, cur_center = Some (mean (map fst ps), mean (map snd ps)),
             cur_pending = pending, cur_shape = Some (drawn_shape k ps), cur_nodes = None,
             cur_secret = None\<rparr>))))"

definition finishDraw :: "editor \<Rightarrow> editor" where
  "finishDraw e =
     (if \<not> drawing e then e
      else if length (drawPoints e) < (if drawKind e = DrawArea then 3 else 2) then say Refused e
      else case draw_next e of
             Inl x \<Rightarrow> failed x e
           | Inr c \<Rightarrow>
               say Done (touch (open_cur c (e\<lparr>drawing := False, drawPoints := [], drawSnapNodes := None,
                 pendingDrawTags := None\<rparr>))))"

section \<open>New points and relations\<close>

definition fresh_cur :: "element \<Rightarrow> point option \<Rightarrow> cur" where
  "fresh_cur v p = \<lparr>cur_base = None, cur_value = v, cur_center = p, cur_pending = [],
     cur_shape = None, cur_nodes = None, cur_secret = None\<rparr>"

definition place :: "point \<Rightarrow> editor \<Rightarrow> editor" where
  "place p e =
     (case osm (element (js_of_element (subject (new_node (nextTempId (drafts e) Node)
                  (normLon (fst p), snd p)))) True) of
        Inl x \<Rightarrow> failed x e
      | Inr v \<Rightarrow> say Done (touch (open_cur (fresh_cur v (geom_point (egeom v))) (e\<lparr>placing := False\<rparr>))))"

definition new_relation :: "draft list \<Rightarrow> element" where
  "new_relation ds = \<lparr>etype = Plain Relation, eid = nextTempId ds Relation, eversion = None,
     etags = [], egeom = RelG []\<rparr>"

definition newRelation :: "editor \<Rightarrow> editor" where
  "newRelation e =
     (if \<not> canSwitch e then refuse_switch e
      else case element (js_of_element (new_relation (drafts e))) True of
             Inr v \<Rightarrow> say Done (touch (open_cur (fresh_cur v None) (cancel e)))
           | Inl _ \<Rightarrow> e)"

definition newPlace :: "editor \<Rightarrow> editor" where
  \<comment> \<open>the button that starts placing a point\<close>
  "newPlace e =
     (if \<not> canSwitch e then refuse_switch e
      else if placing e then say Done (cancel e)
      else say Done ((setTab TabFind ((cancel e)\<lparr>geometryMode := False\<rparr>))\<lparr>placing := True\<rparr>))"

definition startAt :: "point \<Rightarrow> editor \<Rightarrow> editor" where
  "startAt p e = (if canSwitch e then place p (e\<lparr>placing := True\<rparr>) else refuse_switch e)"

section \<open>Loading\<close>

definition raw_elements :: "js \<Rightarrow> raw_element list option" where
  \<comment> \<open>\<open>body.elements||[]\<close>; \<open>None\<close> where reading it fails\<close>
  "raw_elements b =
     (case jget b ''elements'' of
        JArr es \<Rightarrow> if list_ex nullish es then None else Some (map entries_of es)
      | v \<Rightarrow> if truthy v then None else Some [])"

definition raw_key :: "raw_element \<Rightarrow> js \<times> js" where
  "raw_key e = (jget (JObj e) ''type'', jget (JObj e) ''id'')"

fun map_set :: "('a \<Rightarrow> 'k) \<Rightarrow> 'a \<Rightarrow> 'a list \<Rightarrow> 'a list" where
  \<comment> \<open>\<open>Map.set\<close>: a known key keeps its position\<close>
  "map_set key x [] = [x]"
| "map_set key x (y # ys) = (if key y = key x then x # ys else y # map_set key x ys)"

definition keep_last :: "nat \<Rightarrow> 'a list \<Rightarrow> 'a list" where
  "keep_last n xs = drop (length xs - n) xs"

definition rememberElements :: "raw_element list \<Rightarrow> editor \<Rightarrow> editor" where
  "rememberElements es e = e\<lparr>mapElements :=
     keep_last 50000 (fold (map_set raw_key) es (fold (map_set raw_key) (mapElements e) []))\<rparr>"

definition type_id :: "otype \<Rightarrow> int \<Rightarrow> draft \<Rightarrow> bool" where
  "type_id t i d \<longleftrightarrow> \<not> is_deleted d \<and> etype (subject d) = Plain t \<and> eid (subject d) = i"

definition open_existing :: "otype \<Rightarrow> int \<Rightarrow> err + response \<Rightarrow> draft \<Rightarrow> editor \<Rightarrow> editor" where
  "open_existing t i resp d e =
     (let e = cancel e; c = cur_of_draft d in
      case (if t = Way \<and> 0 < i
            then (case resp of
                    Inr r \<Rightarrow> if okay r then (case body r of Some b \<Rightarrow> if nullish b then None else raw_elements b | None \<Rightarrow> None)
                              else None
                  | Inl _ \<Rightarrow> None)
            else None) of
        Some es \<Rightarrow> say Done (open_cur (c\<lparr>cur_nodes := Some (nodeIndex es), cur_shape := wayShape es i\<rparr>)
                     (setBusy False (rememberElements es e)))
      | None \<Rightarrow> say Done (open_cur c (if t = Way \<and> 0 < i then setBusy False e else e)))"

definition load_next :: "otype \<Rightarrow> int \<Rightarrow> err + response \<Rightarrow> edit_err + (element \<times> raw_element list)" where
  "load_next t i resp =
     bindr (osm resp) (\<lambda>r.
       throw_if (\<not> okay r) (OsmErr (HttpErr (status r)))
         (case body r of
            None \<Rightarrow> Inl (OsmErr SyntaxErr)
          | Some b \<Rightarrow>
              bindr (osm (bindr (find_element (Plain t) i b) (\<lambda>raw. element raw False))) (\<lambda>base.
                case raw_elements b of None \<Rightarrow> Inl (OsmErr TypeErr) | Some es \<Rightarrow> Inr (base, es))))"

definition loaded_cur :: "element \<Rightarrow> raw_element list \<Rightarrow> cur" where
  "loaded_cur base es =
     (let isWay = (etype base = Plain Way);
          shape = (if isWay then wayShape es (eid base) else None)
      in \<lparr>cur_base = Some base, cur_value = base,
          cur_center = (case shape of Some s \<Rightarrow> scenter s | None \<Rightarrow> geom_point (egeom base)),
          cur_pending = [], cur_shape = shape,
          cur_nodes = (if isWay then Some (nodeIndex es) else None), cur_secret = None\<rparr>)"

definition load :: "otype option \<Rightarrow> js \<Rightarrow> (otype \<Rightarrow> int \<Rightarrow> err + response) \<Rightarrow> editor \<Rightarrow> editor" where
  \<comment> \<open>the second argument is \<open>Number(id)\<close>\<close>
  "load kind typed fetchFull e =
     (if \<not> canSwitch e then refuse_switch e
      else case kind of
             None \<Rightarrow> say Refused e
           | Some t \<Rightarrow>
               if \<not> validID typed then say Refused e
               else (let i = int_of typed in
                     case find (type_id t i) (drafts e) of
                       Some d \<Rightarrow> open_existing t i (fetchFull t i) d e
                     | None \<Rightarrow>
                         setBusy False
                           (case load_next t i (fetchFull t i) of
                              Inl x \<Rightarrow> failed x (setBusy True (cancel e))
                            | Inr (base, es) \<Rightarrow>
                                say Done (open_cur (loaded_cur base es)
                                  (rememberElements es (setBusy True (cancel e)))))))"

definition openDraft :: "nat \<Rightarrow> editor \<Rightarrow> editor" where
  \<comment> \<open>the button of a draft in the list\<close>
  "openDraft i e =
     (if \<not> canSwitch e then refuse_switch e
      else if length (drafts e) \<le> i \<or> is_deleted (drafts e ! i) then e
      else open_cur (cur_of_draft (drafts e ! i)) (cancel e))"

definition loadMapData :: "real \<Rightarrow> real \<times> real \<times> real \<times> real \<Rightarrow> err + response \<Rightarrow> editor \<Rightarrow> editor" where
  "loadMapData zoom bounds resp e =
     (if \<not> canSwitch e then refuse_switch e
      else setBusy False
        (case bounds of (west, south, east, north) \<Rightarrow>
           if zoom < 16 then say Refused e
           else if east \<le> west \<or> north \<le> south \<or> 1 / 100 < (east - west) * (north - south) then say Refused e
           else (case bindr resp (\<lambda>r. throw_if (\<not> okay r) (HttpErr (status r))
                   (case body r of
                      None \<Rightarrow> Inl SyntaxErr
                    | Some b \<Rightarrow> if nullish b then Inl TypeErr
                                 else (case jget b ''elements'' of
                                         JArr es \<Rightarrow> throw_if (50000 < length es) BadObject (Inr (map entries_of es))
                                       | _ \<Rightarrow> Inl BadObject))) of
                   Inl x \<Rightarrow> failed (OsmErr x) (setBusy True e)
                 | Inr es \<Rightarrow> say Done ((setBusy True e)\<lparr>mapElements := es\<rparr>))))"

section \<open>Leaving and entering the view\<close>

definition enter :: "editor \<Rightarrow> editor" where
  "enter e = e\<lparr>viewActive := True\<rparr>"

definition leave :: "editor \<Rightarrow> editor" where
  "leave e = (cancel (e\<lparr>viewActive := False\<rparr>))\<lparr>geometryMode := False, dragNodeId := None,
     dragPreview := Map.empty\<rparr>"

section \<open>Opening a confidential object\<close>

record secret_object =
  so_id :: jstr
  so_geometry :: secret_geometry
  so_tags :: tag_map

definition secret_ring :: "secret_geometry \<Rightarrow> point list" where
  "secret_ring g = (case g of SPoint p \<Rightarrow> [p] | SLine ps \<Rightarrow> ps | SPolygon ps \<Rightarrow> ps)"

definition secret_value :: "draft list \<Rightarrow> secret_object \<Rightarrow> element" where
  "secret_value ds obj =
     (case so_geometry obj of
        SPoint p \<Rightarrow> \<lparr>etype = Plain Node, eid = nextTempId ds Node, eversion = None, etags = so_tags obj,
                     egeom = NodeG (fst p) (snd p)\<rparr>
      | g \<Rightarrow> \<lparr>etype = Plain Way, eid = nextTempId ds Way, eversion = None, etags = so_tags obj,
               egeom = WayG (map (\<lambda>k. - int (Suc k)) [0..<length (secret_ring g)])\<rparr>)"

definition secret_shape :: "secret_geometry \<Rightarrow> shape option" where
  "secret_shape g = (case g of SPoint p \<Rightarrow> None
     | _ \<Rightarrow> Some \<lparr>scoords = secret_ring g, sclosed = (case g of SPolygon _ \<Rightarrow> True | _ \<Rightarrow> False),
                  scenter = None, sbounds = None\<rparr>)"

definition secret_cur :: "draft list \<Rightarrow> secret_object \<Rightarrow> cur" where
  "secret_cur ds obj = \<lparr>cur_base = None, cur_value = secret_value ds obj,
     cur_center = (case secret_ring (so_geometry obj) of p # _ \<Rightarrow> Some p | [] \<Rightarrow> None),
     cur_pending = [], cur_shape = secret_shape (so_geometry obj), cur_nodes = None, cur_secret = None\<rparr>"

definition openConfidential :: "secret_object \<Rightarrow> editor \<Rightarrow> editor" where
  "openConfidential obj e =
     (if \<not> canSwitch e then refuse_switch e
      else let e' = open_cur (secret_cur (drafts e) obj) (cancel e)
           in say Done (e'\<lparr>current := map_option (\<lambda>c. c\<lparr>cur_secret := Some (so_id obj)\<rparr>) (current e'),
                secretToggle := True\<rparr>))"

definition deleteConfidential :: "edit_err + unit \<Rightarrow> jstr \<Rightarrow> editor \<Rightarrow> editor" where
  \<comment> \<open>\<open>sent\<close>: the reply of the server\<close>
  "deleteConfidential sent i e =
     (case sent of
        Inl x \<Rightarrow> failed x e
      | Inr _ \<Rightarrow> say Done (case current e of
           Some c \<Rightarrow> if cur_secret c = Some i then closeCurrent e else e | None \<Rightarrow> e))"

section \<open>Clicks on the map\<close>

definition raw_of :: "element \<Rightarrow> raw_element" where
  "raw_of v = entries_of (js_of_element v)"

definition draft_of_candidate :: "draft list \<Rightarrow> candidate \<Rightarrow> draft option" where
  "draft_of_candidate ds c =
     find (\<lambda>d. \<not> is_deleted d \<and> etype (subject d) = Plain (qtype c) \<and> qid c = jint (eid (subject d))) ds"

definition local_hit ::
  "(js \<Rightarrow> js) \<Rightarrow> editor \<Rightarrow> real \<Rightarrow> real \<Rightarrow> real \<Rightarrow> draft option" where
  "local_hit category e lat lon radius =
     (let elems = fold (map_set raw_key) (map raw_of (live_values (drafts e)))
                    (fold (map_set raw_key) (mapElements e) [])
      in case find (\<lambda>c. draft_of_candidate (drafts e) c \<noteq> None)
                (candidatesFromElements category elems lat lon radius) of
           Some c \<Rightarrow> draft_of_candidate (drafts e) c
         | None \<Rightarrow> None)"

definition live_bounds :: "real \<Rightarrow> real \<Rightarrow> real \<Rightarrow> real \<times> real \<times> real \<times> real" where
  "live_bounds lat lon radius =
     (let dLat = radius / 111320; dLon = radius / (111320 * cos_or_1 lat)
      in (normLon (lon - dLon), max (-90) (lat - dLat), normLon (lon + dLon), min 90 (lat + dLat)))"

definition resolveLiveCandidates ::
  "(js \<Rightarrow> js) \<Rightarrow> (real \<times> real \<times> real \<times> real \<Rightarrow> err + response) \<Rightarrow> real \<Rightarrow> real \<Rightarrow> real \<Rightarrow> err + candidate list" where
  "resolveLiveCandidates category fetcher lat lon radius =
     bindr (fetcher (live_bounds lat lon radius)) (\<lambda>r.
       throw_if (\<not> okay r) (HttpErr (status r))
         (case body r of
            None \<Rightarrow> Inl SyntaxErr
          | Some b \<Rightarrow>
              if nullish b then Inl TypeErr
              else (case raw_elements b of
                      None \<Rightarrow> Inl TypeErr
                    | Some es \<Rightarrow> Inr (candidatesFromElements category es lat lon radius))))"

text \<open>\<open>pois\<close> and \<open>live\<close> are the candidates of the local server and of \<open>resolveLiveCandidates\<close>.\<close>

definition pick ::
  "(js \<Rightarrow> js) \<Rightarrow> real \<Rightarrow> err + (otype \<times> js) list \<Rightarrow> (otype \<times> js) list \<Rightarrow> (otype \<Rightarrow> int \<Rightarrow> err + response)
     \<Rightarrow> point \<Rightarrow> editor \<Rightarrow> editor" where
  "pick category zoom pois live fetchFull p e =
     (if busy e then e
      else if \<not> canSwitch e then refuse_switch e
      else
        (let radius = of_int (js_round (pickRadiusMeters (snd p) zoom 26)); lat = snd p; lon = normLon (fst p) in
         case local_hit category e lat lon radius of
           Some d \<Rightarrow> say Done (open_cur (cur_of_draft d) (cancel e))
         | None \<Rightarrow>
             (let known = map (\<lambda>c. (qtype c, qid c)) (candidatesFromElements category (mapElements e) lat lon radius);
                  e' = setBusy False (setBusy True e)
              in case (if known \<noteq> [] then Inr known else pois) of
                   Inl x \<Rightarrow> failed (OsmErr x) e'
                 | Inr found \<Rightarrow>
                     (case (if found = [] then live else found) of
                        [(t, i)] \<Rightarrow> load (Some t) i fetchFull e'
                      | _ \<Rightarrow> say Refused e'))))"

definition escape :: "editor \<Rightarrow> editor" where
  "escape e =
     (if insertMode e then say Done (e\<lparr>insertMode := False\<rparr>)
      else if geometryMode e \<and> \<not> splitMode e then toggleGeometryMode e
      else if splitMode e then say Done (e\<lparr>splitMode := False\<rparr>)
      else if placing e \<or> drawing e then say Done (cancel e)
      else e)"

section \<open>Properties\<close>

lemma nearest_of_spec:
  "(nearest_of f limit best xs = best \<and> (\<forall>x\<in>set xs. \<forall>d. f x = Some d \<longrightarrow> limit \<le> d))
   \<or> (\<exists>x\<in>set xs. \<exists>d. nearest_of f limit best xs = Some x \<and> f x = Some d \<and> d < limit
        \<and> (\<forall>y\<in>set xs. \<forall>d'. f y = Some d' \<longrightarrow> d \<le> d'))"
proof (induction xs arbitrary: limit best)
  case (Cons x xs)
  show ?case
  proof (cases "\<exists>d. f x = Some d \<and> d < limit")
    case True
    then obtain d where d: "f x = Some d" "d < limit" by blast
    from Cons [of d "Some x"] show ?thesis
    proof
      assume "nearest_of f d (Some x) xs = Some x \<and> (\<forall>x\<in>set xs. \<forall>d'. f x = Some d' \<longrightarrow> d \<le> d')"
      then show ?thesis using d by (intro disjI2 bexI [of _ x] exI [of _ d]) auto
    next
      assume "\<exists>z\<in>set xs. \<exists>d'. nearest_of f d (Some x) xs = Some z \<and> f z = Some d' \<and> d' < d
        \<and> (\<forall>y\<in>set xs. \<forall>d''. f y = Some d'' \<longrightarrow> d' \<le> d'')"
      then obtain z d' where "z \<in> set xs" "nearest_of f d (Some x) xs = Some z" "f z = Some d'" "d' < d"
        "\<forall>y\<in>set xs. \<forall>d''. f y = Some d'' \<longrightarrow> d' \<le> d''" by blast
      then show ?thesis using d by (intro disjI2 bexI [of _ z] exI [of _ d']) auto
    qed
  next
    case False
    then have step: "nearest_of f limit best (x # xs) = nearest_of f limit best xs" by (auto split: option.split)
    have far: "limit \<le> d" if "f x = Some d" for d using False that by auto
    from Cons [of limit best] show ?thesis
    proof
      assume "\<exists>z\<in>set xs. \<exists>d. nearest_of f limit best xs = Some z \<and> f z = Some d \<and> d < limit
        \<and> (\<forall>y\<in>set xs. \<forall>d'. f y = Some d' \<longrightarrow> d \<le> d')"
      then obtain z d where "z \<in> set xs" "nearest_of f limit best xs = Some z" "f z = Some d" "d < limit"
        "\<forall>y\<in>set xs. \<forall>d'. f y = Some d' \<longrightarrow> d \<le> d'" by blast
      then show ?thesis using far unfolding step by (intro disjI2 bexI [of _ z] exI [of _ d]) fastforce+
    qed (use far in \<open>auto simp: step simp del: nearest_of.simps\<close>)
  qed
qed simp

text \<open>A click in geometry mode takes the vertex of the open object nearest to it on the screen, and
  only one closer than 14 pixels.\<close>

theorem vertexAt_nearest:
  assumes "vertexAt proj p e = Some i" "current e = Some c"
  shows "i \<in> set (vertex_ids c)
    \<and> (\<exists>q. coordsOfNode e i = Some q \<and> pixel_dist (proj q) p < 14
         \<and> (\<forall>j\<in>set (vertex_ids c). \<forall>q'. coordsOfNode e j = Some q'
              \<longrightarrow> pixel_dist (proj q) p \<le> pixel_dist (proj q') p))"
proof -
  let ?f = "\<lambda>i. map_option (\<lambda>q. pixel_dist (proj q) p) (coordsOfNode e i)"
  have "nearest_of ?f 14 None (uniq (vertex_ids c)) = Some i"
    using assms by (simp add: vertexAt_def split: if_splits)
  with nearest_of_spec [of ?f 14 None "uniq (vertex_ids c)"] show ?thesis by fastforce
qed

lemma new_node_accepted:
  assumes "revalidate (new_node i p) = Inr n"
  shows "n = new_node i p"
proof -
  note parts = revalidate_parts [OF assms [unfolded new_node_def]]
  obtain w x where n: "n = Draft None w x"
    using parts(6,7) by (cases n) auto
  then have "wf_draft (new_node i p)"
    using parts(1,3-5) by (auto simp: new_node_def wf_element_def wf_identity_def wf_tags_def wf_center_def obj_wf_def)
  then show ?thesis using assms validateDraft_encoded by (simp add: revalidate_def del: js_of_draft.simps)
qed

definition snapped :: "draw_point \<Rightarrow> int option" where
  "snapped p = (case dp_node p of Some i \<Rightarrow> if i = 0 then None else Some i | None \<Rightarrow> None)"

lemma draw_nodes_Cons:
  "draw_nodes ds pending (p # ps) =
     (case snapped p of
        Some i \<Rightarrow> bindr (draw_nodes ds pending ps) (\<lambda>(q, is). Inr (q, i # is))
      | None \<Rightarrow> bindr (revalidate (new_node (nextTempId (ds @ pending) Node) (dp_at p))) (\<lambda>n.
           bindr (draw_nodes ds (pending @ [n]) ps) (\<lambda>(q, is). Inr (q, nextTempId (ds @ pending) Node # is))))"
  by (simp add: snapped_def Let_def split: option.split)

definition used_ids :: "draft list \<Rightarrow> int set" where
  "used_ids ds = eid ` {v \<in> set (live_values ds). etype v = Plain Node}"

lemma used_ids_new: "used_ids (ds @ [new_node i p]) = insert i (used_ids ds)"
proof -
  have "{v \<in> set (live_values (ds @ [new_node i p])). etype v = Plain Node}
      = insert (subject (new_node i p)) {v \<in> set (live_values ds). etype v = Plain Node}"
    by (auto simp: new_node_def)
  then show ?thesis by (simp add: used_ids_def) (simp add: new_node_def)
qed

definition point_kept :: "draft list \<Rightarrow> draw_point \<Rightarrow> int \<Rightarrow> bool" where
  "point_kept q p i \<longleftrightarrow> (case snapped p of Some k \<Rightarrow> i = k | None \<Rightarrow> new_node i (dp_at p) \<in> set q)"

lemma point_kept_mono: "point_kept q p i \<Longrightarrow> set q \<subseteq> set q' \<Longrightarrow> point_kept q' p i"
  by (auto simp: point_kept_def split: option.splits)

definition node_ids :: "draft list \<Rightarrow> int list" where
  "node_ids ds = map (\<lambda>d. eid (subject d)) ds"

lemma draw_nodes_gen:
  "draw_nodes ds pending ps = Inr (q, is) \<Longrightarrow>
    \<exists>new. q = pending @ new \<and> distinct (node_ids new) \<and> set (node_ids new) \<inter> used_ids (ds @ pending) = {}
      \<and> list_all2 (point_kept new) ps is"
proof (induction ps arbitrary: pending q "is")
  case (Cons p ps)
  show ?case
  proof (cases "snapped p")
    case (Some i)
    then obtain js where r: "draw_nodes ds pending ps = Inr (q, js)" "is = i # js"
      using Cons.prems by (auto simp: draw_nodes_Cons bindr_Inr_iff simp del: draw_nodes.simps)
    with Cons.IH [OF r(1)] Some show ?thesis by (auto simp: point_kept_def)
  next
    case None
    let ?i = "nextTempId (ds @ pending) Node"
    obtain n js where n: "revalidate (new_node ?i (dp_at p)) = Inr n"
      and r: "draw_nodes ds (pending @ [n]) ps = Inr (q, js)" "is = ?i # js"
      using Cons.prems None by (auto simp: draw_nodes_Cons bindr_Inr_iff simp del: draw_nodes.simps)
    have nn: "n = new_node ?i (dp_at p)" by (rule new_node_accepted [OF n])
    from Cons.IH [OF r(1)] obtain new where new: "q = (pending @ [n]) @ new" "distinct (node_ids new)"
      "set (node_ids new) \<inter> used_ids (ds @ pending @ [n]) = {}" "list_all2 (point_kept new) ps js" by auto
    have used: "used_ids (ds @ pending @ [n]) = insert ?i (used_ids (ds @ pending))"
      using used_ids_new [of "ds @ pending"] by (simp add: nn)
    have fresh: "?i \<notin> used_ids (ds @ pending)"
      using nextTempId_less [of _ "ds @ pending" Node] unfolding used_ids_def by force
    have ids: "node_ids (n # new) = ?i # node_ids new" by (simp add: node_ids_def nn new_node_def)
    have "list_all2 (point_kept (n # new)) ps js"
      using new(4) by (rule list_all2_mono) (auto elim: point_kept_mono)
    moreover have "point_kept (n # new) p ?i" using None nn by (simp add: point_kept_def)
    ultimately have "list_all2 (point_kept (n # new)) (p # ps) is" using r(2) by simp
    then show ?thesis
      using new(1-3) used fresh ids by (intro exI [of _ "n # new"]) auto
  qed
qed (simp add: node_ids_def)

text \<open>Finishing a drawing turns every clicked point into a node of the way: a point that snapped
  onto an existing node is that node, any other becomes a new node at its position, each with its
  own placeholder that no drafted node uses.\<close>

theorem drawing_keeps_points:
  assumes "draw_nodes ds [] ps = Inr (q, is)"
  shows "list_all2 (point_kept q) ps is \<and> distinct (node_ids q) \<and> set (node_ids q) \<inter> used_ids ds = {}"
  using draw_nodes_gen [OF assms] by auto

theorem drawing_keeps_points_witness:
  "point_kept [new_node (-1) (9, 53)] \<lparr>dp_at = (9, 53), dp_node = None\<rparr> (-1)"
proof -
  let ?ps = "[\<lparr>dp_at = (8, 52), dp_node = Some 5\<rparr>, \<lparr>dp_at = (9, 53), dp_node = None\<rparr>]"
  have "wf_draft (new_node (-1) (9, 53))"
    by (simp add: new_node_def wf_element_def wf_identity_def safe_int_def wf_tags_def obj_wf_def wf_center_def)
  then have "revalidate (new_node (-1) (9, 53)) = Inr (new_node (-1) (9, 53))"
    by (simp add: revalidate_def validateDraft_encoded)
  then have "draw_nodes [] [] ?ps = Inr ([new_node (-1) (9, 53)], [5, -1])"
    by (simp add: nextTempId_def Let_def)
  from drawing_keeps_points [OF this] show ?thesis by simp
qed

end
