(* ===== verification/EditorMachine.thy ===== *)
theory EditorMachine
  imports EditorDraw
begin

text \<open>
  The OSM editor (\<open>create\<close> in cmd/web/osm-editor.js) as a machine: its events, one step per event,
  and the invariant every reachable state has. An event carries what it reads from the page, the
  map, the local storage and the OSM API.
\<close>

section \<open>Events\<close>

datatype form_event =
    EditField jstr jstr
  | PressOption jstr jstr
  | EditRow nat "jstr \<times> jstr"
  | RemoveRow nat
  | AddRow
  | SetCareMode care
  | ApplyPreset jstr
  | SurveyToday jstr
  | AddMember tyval int jstr
  | SetRole nat jstr
  | MoveUp nat
  | MoveDown nat
  | RemoveMember nat
  | SetSecret bool

datatype vertex_event =
    ToggleGeometry
  | SelectVertex int
  | InsertVertex int point
  | RemoveVertex
  | ToggleInsert
  | GeometryClick "point \<Rightarrow> pixel" pixel
  | MouseDown "point \<Rightarrow> pixel" bool bool nat pixel
  | MouseMove point
  | MouseUp
  | CommitNodeMove int jsnum jsnum
  | StartSplit
  | Escape

datatype draw_event =
    StartDrawing draw_kind
  | SnapNodes "real \<times> real \<times> real \<times> real" "err + response"
  | DrawSelectedArea
  | AddDrawPoint "point \<Rightarrow> pixel" point
  | UndoDrawPoint
  | FinishDraw
  | Cancel
  | Place point
  | NewPlace
  | StartAt point
  | NewRelation

datatype open_event =
    Load "otype option" js "otype \<Rightarrow> int \<Rightarrow> err + response"
  | OpenDraft nat
  | LoadMapData real "real \<times> real \<times> real \<times> real" "err + response"
  | Pick "js \<Rightarrow> js" real "err + (otype \<times> js) list" "(otype \<times> js) list" "otype \<Rightarrow> int \<Rightarrow> err + response" point
  | Enter
  | Leave
  | SetTab tab
  | OpenSecret secret_object
  | DeleteSecret "edit_err + unit" jstr
  | Discard

datatype draft_event =
    Save bool "secret_geometry \<Rightarrow> tag_map \<Rightarrow> jstr option \<Rightarrow> edit_err + unit"
  | RemoveDraft bool nat
  | DiscardDeletion bool nat
  | DeleteObject bool bool "endpoint \<Rightarrow> err + response"
  | MergeWith bool js "int \<Rightarrow> err + response"
  | Undo bool
  | Redo bool
  | CheckVersions "tyval \<Rightarrow> int \<Rightarrow> err + response"
  | Import "real \<Rightarrow> jstr" "jstr \<Rightarrow> js option" bool bool jstr

datatype event = FormEvent form_event | VertexEvent vertex_event | DrawEvent draw_event | OpenEvent open_event | DraftEvent draft_event

fun form_step :: "form_event \<Rightarrow> editor \<Rightarrow> editor" where
  "form_step (EditField k v) e = editField k v e"
| "form_step (PressOption k v) e = pressOption k v e"
| "form_step (EditRow i row) e = editRow i row e"
| "form_step (RemoveRow i) e = removeRow i e"
| "form_step AddRow e = addRow e"
| "form_step (SetCareMode m) e = setCareMode m e"
| "form_step (ApplyPreset k) e = applyPreset k e"
| "form_step (SurveyToday d) e = surveyToday d e"
| "form_step (AddMember t r role) e = addMember t r role e"
| "form_step (SetRole i role) e = setRole i role e"
| "form_step (MoveUp i) e = moveUp i e"
| "form_step (MoveDown i) e = moveDown i e"
| "form_step (RemoveMember i) e = removeMember i e"
| "form_step (SetSecret b) e = e\<lparr>secretToggle := b\<rparr>"

fun vertex_step :: "vertex_event \<Rightarrow> editor \<Rightarrow> editor" where
  "vertex_step ToggleGeometry e = toggleGeometryMode e"
| "vertex_step (SelectVertex i) e = selectVertex i e"
| "vertex_step (InsertVertex i p) e = insertVertex i p e"
| "vertex_step RemoveVertex e = removeVertex e"
| "vertex_step ToggleInsert e = e\<lparr>insertMode := \<not> insertMode e\<rparr>"
| "vertex_step (GeometryClick proj p) e = geometryClick proj p e"
| "vertex_step (MouseDown proj storable onMarker button p) e = mapMouseDown proj storable onMarker button p e"
| "vertex_step (MouseMove p) e = mapMouseMove p e"
| "vertex_step MouseUp e = mapMouseUp e"
| "vertex_step (CommitNodeMove i lon lat) e = commitNodeMove i lon lat e"
| "vertex_step StartSplit e = startSplit e"
| "vertex_step Escape e = escape e"

fun draw_step :: "draw_event \<Rightarrow> editor \<Rightarrow> editor" where
  "draw_step (StartDrawing k) e = startDrawing k e"
| "draw_step (SnapNodes b r) e = fetchSnapNodes b r e"
| "draw_step DrawSelectedArea e = (case drawSelectedArea e of Inr e' \<Rightarrow> e' | Inl _ \<Rightarrow> e)"
| "draw_step (AddDrawPoint proj p) e = addDrawPoint proj p e"
| "draw_step UndoDrawPoint e = undoDrawPoint e"
| "draw_step FinishDraw e = finishDraw e"
| "draw_step Cancel e = cancel e"
| "draw_step (Place p) e = place p e"
| "draw_step NewPlace e = newPlace e"
| "draw_step (StartAt p) e = startAt p e"
| "draw_step NewRelation e = newRelation e"

fun open_step :: "open_event \<Rightarrow> editor \<Rightarrow> editor" where
  "open_step (Load t i r) e = load t i r e"
| "open_step (OpenDraft i) e = openDraft i e"
| "open_step (LoadMapData z b r) e = loadMapData z b r e"
| "open_step (Pick cat z pois live full p) e = pick cat z pois live full p e"
| "open_step Enter e = enter e"
| "open_step Leave e = leave e"
| "open_step (SetTab t) e = setTab t e"
| "open_step (OpenSecret obj) e = openConfidential obj e"
| "open_step (DeleteSecret sent i) e = deleteConfidential sent i e"
| "open_step Discard e = discard e"

fun draft_step :: "draft_event \<Rightarrow> editor \<Rightarrow> editor" where
  "draft_step (Save storable send) e = save storable send e"
| "draft_step (RemoveDraft storable i) e = removeDraft storable i e"
| "draft_step (DiscardDeletion storable i) e = discardDeletion storable i e"
| "draft_step (DeleteObject storable confirmed r) e = deleteObject storable confirmed r e"
| "draft_step (MergeWith storable typed r) e = mergeWith storable typed r e"
| "draft_step (Undo storable) e = undo_click storable e"
| "draft_step (Redo storable) e = redo_click storable e"
| "draft_step (CheckVersions r) e = check_click r e"
| "draft_step (Import num parse storable small file) e = import_file num parse storable small file e"

fun step :: "event \<Rightarrow> editor \<Rightarrow> editor" where
  "step (FormEvent ev) e = form_step ev e"
| "step (VertexEvent ev) e = vertex_step ev e"
| "step (DrawEvent ev) e = draw_step ev e"
| "step (OpenEvent ev) e = open_step ev e"
| "step (DraftEvent ev) e = draft_step ev e"

text \<open>Some operations do not check what the invariant needs: a split and a merge may exceed the
  limit of 100 drafts, a split may run on an object that has no base version, a merge may meet a
  draft that already deletes the other way, and an import may bring objects whose type is an array.
  \<open>allowed\<close> leaves exactly these cases out.\<close>

fun split_allowed :: "vertex_event \<Rightarrow> editor \<Rightarrow> bool" where
  "split_allowed (MouseDown proj storable onMarker button p) e \<longleftrightarrow>
     (splitMode e \<longrightarrow> length (drafts e) \<le> 98 \<and> (\<forall>c. current e = Some c \<longrightarrow> cur_base c \<noteq> None))"
| "split_allowed _ e \<longleftrightarrow> True"

fun draft_allowed :: "draft_event \<Rightarrow> editor \<Rightarrow> bool" where
  "draft_allowed (MergeWith storable typed r) e \<longleftrightarrow>
     length (drafts e) \<le> 98
     \<and> (\<forall>d\<in>set (drafts e). keyOf d = elem_key (Plain Way) (int_of typed) \<longrightarrow> is_live_way (int_of typed) d)"
| "draft_allowed (Import num parse storable small file) e \<longleftrightarrow>
     (\<forall>ds. import_next num parse file (drafts e) = Inr ds \<longrightarrow> plain_types ds)"
| "draft_allowed _ e \<longleftrightarrow> True"

fun allowed :: "event \<Rightarrow> editor \<Rightarrow> bool" where
  "allowed (VertexEvent ev) e \<longleftrightarrow> split_allowed ev e"
| "allowed (DraftEvent ev) e \<longleftrightarrow> draft_allowed ev e"
| "allowed _ e \<longleftrightarrow> True"

section \<open>What an operation keeps\<close>

definition good_set :: "draft list \<Rightarrow> bool" where
  "good_set ds \<longleftrightarrow> valid_set ds \<and> plain_types ds \<and> length ds \<le> 100"

definition base_matches :: "cur \<Rightarrow> bool" where
  "base_matches c \<longleftrightarrow> (case cur_base c of
     Some b \<Rightarrow> etype b = etype (cur_value c) \<and> eid b = eid (cur_value c) | None \<Rightarrow> True)"

definition nodes_keyed :: "(int \<rightharpoonup> element) option \<Rightarrow> bool" where
  "nodes_keyed nodes \<longleftrightarrow> (case nodes of Some m \<Rightarrow> \<forall>i v. m i = Some v \<longrightarrow> eid v = i | None \<Rightarrow> True)"

definition cur_ok :: "cur \<Rightarrow> bool" where
  "cur_ok c \<longleftrightarrow> pending_ok c \<and> plain_types (cur_pending c)
     \<and> is_plain (etype (cur_value c))
     \<and> base_matches c \<and> nodes_keyed (cur_nodes c)"

definition history_ok :: "draft list list \<Rightarrow> draft list list \<Rightarrow> bool" where
  "history_ok us rs \<longleftrightarrow> (\<forall>ds\<in>set us \<union> set rs. good_set ds) \<and> length us + length rs \<le> 30"

definition editor_ok :: "editor \<Rightarrow> bool" where
  "editor_ok e \<longleftrightarrow> good_set (drafts e) \<and> saved e = drafts e \<and> history_ok (undo e) (redo e)
     \<and> (\<forall>c. current e = Some c \<longrightarrow> cur_ok c)"

definition core :: "editor \<Rightarrow> draft list \<times> draft list \<times> draft list list \<times> draft list list" where
  "core e = (drafts e, saved e, undo e, redo e)"

lemma editor_ok_frame:
  "core e' = core e \<Longrightarrow> editor_ok e \<Longrightarrow> (\<And>c. current e' = Some c \<Longrightarrow> cur_ok c) \<Longrightarrow> editor_ok e'"
  by (simp add: editor_ok_def core_def)

lemma editor_ok_keep: "core e' = core e \<Longrightarrow> current e' = current e \<Longrightarrow> editor_ok e \<Longrightarrow> editor_ok e'"
  by (simp add: editor_ok_def core_def)

lemma core_simps [simp]:
  "core (say n e) = core e" "core (cancel e) = core e" "core (setTab t e) = core e"
  "core (setBusy b e) = core e" "core (analyze e) = core e" "core (touch e) = core e"
  "core (setValue k v e) = core e" "core (refuse_switch e) = core e" "core (closeCurrent e) = core e"
  "core (open_cur c e) = core e" "core (failed x e) = core e" "core (rememberElements es e) = core e"
  by (simp_all add: core_def say_def cancel_def setTab_def setBusy_def analyze_def touch_def setValue_def
      refuse_switch_def closeCurrent_def open_cur_def failed_def rememberElements_def Let_def split: option.split)

lemma current_simps [simp]:
  "current (say n e) = current e" "current (cancel e) = current e" "current (setTab t e) = current e"
  "current (setBusy b e) = current e" "current (analyze e) = current e" "current (touch e) = current e"
  "current (setValue k v e) = current e" "current (refuse_switch e) = current e" "current (closeCurrent e) = None"
  "current (failed x e) = current e" "current (rememberElements es e) = current e"
  by (simp_all add: say_def cancel_def setTab_def setBusy_def analyze_def touch_def setValue_def
      refuse_switch_def closeCurrent_def open_cur_def failed_def rememberElements_def Let_def split: option.split)

lemma core_update [simp]:
  "core (e\<lparr>current := c\<rparr>) = core e" "core (e\<lparr>working := w\<rparr>) = core e" "core (e\<lparr>members := ms\<rparr>) = core e"
  "core (e\<lparr>selectedVertexId := s\<rparr>) = core e" "core (e\<lparr>insertMode := i\<rparr>) = core e"
  "core (e\<lparr>splitMode := i\<rparr>) = core e" "core (e\<lparr>geometryMode := i\<rparr>) = core e"
  "core (e\<lparr>dragPreview := p\<rparr>) = core e" "core (e\<lparr>dragNodeId := n\<rparr>) = core e"
  "core (e\<lparr>placing := i\<rparr>) = core e" "core (e\<lparr>presetOpen := i\<rparr>) = core e"
  "core (e\<lparr>drawSnapNodes := sn\<rparr>) = core e" "core (e\<lparr>drawPoints := dp\<rparr>) = core e"
  "core (e\<lparr>drawing := i\<rparr>) = core e" "core (e\<lparr>drawKind := k\<rparr>) = core e"
  "core (e\<lparr>pendingDrawTags := pt\<rparr>) = core e" "core (e\<lparr>viewActive := i\<rparr>) = core e"
  "core (e\<lparr>mapElements := me\<rparr>) = core e" "core (e\<lparr>careMode := cm\<rparr>) = core e"
  "core (e\<lparr>presetSearchTerm := st\<rparr>) = core e" "core (e\<lparr>presetAllOpen := i\<rparr>) = core e"
  "core (e\<lparr>checkedFor := cf\<rparr>) = core e" "core (e\<lparr>conflicts := cs\<rparr>) = core e" "core (e\<lparr>secretToggle := i\<rparr>) = core e"
  by (simp_all add: core_def)

section \<open>Form edits keep the open object\<close>

lemma fold_setValue [simp]:
  "core (fold (\<lambda>(n, v). setValue n (f v)) ps e) = core e"
  "current (fold (\<lambda>(n, v). setValue n (f v)) ps e) = current e"
  by (induction ps arbitrary: e) auto

lemma form_edits_keep:
  "core (editField k v e) = core e \<and> current (editField k v e) = current e"
  "core (pressOption k v e) = core e \<and> current (pressOption k v e) = current e"
  "core (editRow i row e) = core e \<and> current (editRow i row e) = current e"
  "core (removeRow i e) = core e \<and> current (removeRow i e) = current e"
  "core (addRow e) = core e \<and> current (addRow e) = current e"
  "core (setCareMode m e) = core e \<and> current (setCareMode m e) = current e"
  "core (surveyToday k e) = core e \<and> current (surveyToday k e) = current e"
  "core (addMember t r k e) = core e \<and> current (addMember t r k e) = current e"
  "core (setRole i k e) = core e \<and> current (setRole i k e) = current e"
  "core (moveUp i e) = core e \<and> current (moveUp i e) = current e"
  "core (moveDown i e) = core e \<and> current (moveDown i e) = current e"
  "core (removeMember i e) = core e \<and> current (removeMember i e) = current e"
  by (simp_all add: editField_def pressOption_def editRow_def removeRow_def addRow_def setCareMode_def
      surveyToday_def addMember_def setRole_def moveUp_def moveDown_def removeMember_def split: option.split)

lemma applyPreset_keep: "core (applyPreset k e) = core e \<and> current (applyPreset k e) = current e"
  using fold_setValue [of "\<lambda>v. []"] fold_setValue [of "\<lambda>v. v"]
  by (auto simp: applyPreset_def Let_def split: option.split)

lemma mode_changes_keep:
  "core (toggleGeometryMode e) = core e \<and> current (toggleGeometryMode e) = current e"
  "core (selectVertex i e) = core e \<and> current (selectVertex i e) = current e"
  "core (mapMouseMove p e) = core e \<and> current (mapMouseMove p e) = current e"
  "core (startSplit e) = core e \<and> current (startSplit e) = current e"
  "core (startDrawing k e) = core e \<and> current (startDrawing k e) = current e"
  "core (fetchSnapNodes b r e) = core e \<and> current (fetchSnapNodes b r e) = current e"
  "core (addDrawPoint proj p e) = core e \<and> current (addDrawPoint proj p e) = current e"
  "core (undoDrawPoint e) = core e \<and> current (undoDrawPoint e) = current e"
  "core (newPlace e) = core e \<and> current (newPlace e) = current e"
  "core (loadMapData z b r e) = core e \<and> current (loadMapData z b r e) = current e"
  "core (enter e) = core e \<and> current (enter e) = current e"
  "core (leave e) = core e \<and> current (leave e) = current e"
  "core (check_click f e) = core e \<and> current (check_click f e) = current e"
  by (auto simp: toggleGeometryMode_def selectVertex_def mapMouseMove_def startSplit_def startDrawing_def
      fetchSnapNodes_def addDrawPoint_def undoDrawPoint_def newPlace_def loadMapData_def enter_def leave_def
      check_click_def Let_def split: option.split prod.split sum.split)


section \<open>Operations on the open object\<close>

lemma nodeIndex_id: "nodeIndex es i = Some v \<Longrightarrow> eid v = i \<and> etype v = Plain Node"
proof -
  let ?step = "\<lambda>m e. if raw_type e Node
      then (case element (JObj e) False of Inr x \<Rightarrow> m(eid x \<mapsto> x) | Inl _ \<Rightarrow> m) else m"
  have typed: "etype x = Plain Node" if "raw_type e Node" "element (JObj e) False = Inr x" for e x
    using that by (auto simp: raw_type_def element_def throw_if_Inr_iff bindr_Inr_iff simp del: jget.simps)
  have "foldl ?step m es i = Some v \<Longrightarrow> (\<And>i v. m i = Some v \<Longrightarrow> eid v = i \<and> etype v = Plain Node)
      \<Longrightarrow> eid v = i \<and> etype v = Plain Node" for m
    using typed by (induction es arbitrary: m) (fastforce split: if_splits sum.splits)+
  then show "nodeIndex es i = Some v \<Longrightarrow> eid v = i \<and> etype v = Plain Node"
    by (simp only: nodeIndex.simps) fastforce
qed

lemma nodes_keyed_simps [simp]:
  "nodes_keyed None" "nodes_keyed (Some (nodeIndex es))"
  using nodeIndex_id by (auto simp: nodes_keyed_def simp del: nodeIndex.simps)

lemma cur_ok_same:
  "cur_ok c \<Longrightarrow> etype (cur_value c') = etype (cur_value c) \<Longrightarrow> eid (cur_value c') = eid (cur_value c)
    \<Longrightarrow> cur_base c' = cur_base c \<Longrightarrow> set (cur_pending c') \<subseteq> set (cur_pending c) \<Longrightarrow> nodes_keyed (cur_nodes c')
    \<Longrightarrow> cur_ok c'"
  unfolding cur_ok_def pending_ok_def cur_key_def base_matches_def plain_types_def list_all_iff
  by (simp add: subset_iff image_iff) metis

lemma cur_ok_nodes: "cur_ok c \<Longrightarrow> nodes_keyed (cur_nodes c)"
  by (simp add: cur_ok_def)

lemma current_open_cur:
  "current (open_cur c e) = Some (c\<lparr>cur_nodes := (if etype (cur_value c) = Plain Way
      then (case cur_nodes c of Some m \<Rightarrow> Some m | None \<Rightarrow> Some (nodeIndex (mapElements e))) else cur_nodes c),
     cur_shape := (if etype (cur_value c) = Plain Way then open_shape e c else cur_shape c)\<rparr>)"
  by (simp add: open_cur_def Let_def setTab_def analyze_def del: nodeIndex.simps)

lemma cur_ok_open: "cur_ok c \<Longrightarrow> current (open_cur c e) = Some c' \<Longrightarrow> cur_ok c'"
  unfolding current_open_cur
  by (rule cur_ok_same [of c], assumption, insert cur_ok_nodes [of c])
    (auto split: option.split simp del: nodeIndex.simps)

lemma cur_ok_add:
  assumes "cur_ok c" "wf_draft n" "is_plain (etype (subject n))" "keyOf n \<noteq> cur_key c"
    "set q \<subseteq> insert n (set (cur_pending c))"
  shows "cur_ok (c\<lparr>cur_pending := q\<rparr>)"
  using assms
  unfolding cur_ok_def pending_ok_def cur_key_def plain_types_def list_all_iff base_matches_def
  by (simp add: subset_iff image_iff cong: option.case_cong) metis

lemma find_holds: "find P xs = Some x \<Longrightarrow> P x"
  by (auto simp: find_Some_iff)

lemma plain_types_simps [simp]:
  "plain_types (xs @ ys) \<longleftrightarrow> plain_types xs \<and> plain_types ys"
  "plain_types [d] \<longleftrightarrow> is_plain (etype (subject d))"
  "plain_types []"
  by (auto simp: plain_types_def)

lemma insert_next_ok:
  assumes ok: "cur_ok c" and w: "etype (cur_value c) = Plain Way" and i: "insert_next index p c ds = Inr (c', j)"
  shows "cur_ok c'"
proof -
  from i obtain nodes n where n: "revalidate (new_node (nextTempId (ds @ cur_pending c) Node) p) = Inr n"
    and c': "c' = c\<lparr>cur_pending := cur_pending c @ [n], cur_value := with_nodes nodes (cur_value c)\<rparr>"
    by (auto simp: insert_next_def Let_def bindr_Inr_iff osm_Inr_iff)
  note parts = revalidate_parts [OF n [unfolded new_node_def]]
  have "cur_ok (c\<lparr>cur_pending := cur_pending c @ [n]\<rparr>)"
    using parts(1-3) w by (intro cur_ok_add [OF ok, of n]) (simp_all add: cur_key_def)
  then show ?thesis
    by (rule cur_ok_same) (simp_all add: c' with_nodes_def cur_ok_nodes [OF ok])
qed

lemma commit_value_identity:
  assumes ok: "cur_ok c" and v: "commit_value i c ds = Some v"
  shows "eid v = i"
proof (cases "find (\<lambda>d. eid (subject d) = i) (cur_pending c)")
  case (Some d)
  then show ?thesis using v find_holds [OF Some] by (simp add: commit_value_def)
next
  case None
  note pend = this
  let ?in_ds = "find (\<lambda>d. \<not> is_deleted d \<and> etype (subject d) = Plain Node \<and> eid (subject d) = i) ds"
  show ?thesis
  proof (cases ?in_ds)
    case (Some d)
    then show ?thesis using v pend find_holds [OF Some] by (simp add: commit_value_def)
  next
    case None
    then obtain m where "cur_nodes c = Some m" "m i = Some v"
      using v pend by (auto simp: commit_value_def commit_base_def split: option.splits)
    then show ?thesis using cur_ok_nodes [OF ok] by (simp add: nodes_keyed_def)
  qed
qed

lemma commit_next_ok:
  assumes ok: "cur_ok c" and other: "point_id c \<noteq> Some i" and n: "commit_next i p c ds = Inr c'"
  shows "cur_ok c'"
proof -
  from n obtain v moved where v: "commit_value i c ds = Some v"
    and m: "revalidate (Draft (commit_base i c ds) (v\<lparr>egeom := NodeG (fst p) (snd p)\<rparr>) None) = Inr moved"
    and c': "c' = c\<lparr>cur_pending := put_pending i moved (cur_pending c)\<rparr>"
    by (auto simp: commit_next_def bindr_Inr_iff osm_Inr_iff split: option.splits)
  note parts = revalidate_parts [OF m]
  have "wf_geom (etype (subject moved)) (egeom (subject moved))"
    using parts(1,6) by (cases moved rule: wf_draft.cases) (simp_all add: wf_element_def)
  then have plain: "etype v = Plain Node" using parts(3,5) by simp
  have "keyOf moved \<noteq> cur_key c"
    using parts(2) plain commit_value_identity [OF ok v] other ok
    by (auto simp: cur_key_def point_id_def cur_ok_def is_plain_iff split: if_splits)
  moreover have "set (put_pending i moved (cur_pending c)) \<subseteq> insert moved (set (cur_pending c))"
    by (auto simp: put_pending_def split: option.splits dest: set_update_subset_insert [THEN subsetD])
  ultimately show ?thesis
    using parts(1,3) plain unfolding c' by (intro cur_ok_add [OF ok]) simp_all
qed

lemma cur_ok_filter_pending:
  "cur_ok c \<Longrightarrow> etype (cur_value c) = etype v \<Longrightarrow> eid (cur_value c) = eid v
    \<Longrightarrow> cur_ok (c\<lparr>cur_value := v, cur_pending := filter P (cur_pending c)\<rparr>)"
  by (rule cur_ok_same [of c]) (auto simp: cur_ok_nodes)

lemma draw_nodes_sound:
  "draw_nodes ds pending ps = Inr (q, is) \<Longrightarrow> list_all wf_draft pending \<Longrightarrow> plain_types pending
    \<Longrightarrow> (\<forall>d\<in>set pending. etype (subject d) = Plain Node)
    \<Longrightarrow> list_all wf_draft q \<and> plain_types q \<and> (\<forall>d\<in>set q. etype (subject d) = Plain Node)"
proof (induction ds pending ps arbitrary: q "is" rule: draw_nodes.induct)
  case (2 ds pending p ps)
  have step: "list_all wf_draft q \<and> plain_types q \<and> (\<forall>d\<in>set q. etype (subject d) = Plain Node)"
    if n: "revalidate (new_node i (dp_at p)) = Inr n" and r: "draw_nodes ds (pending @ [n]) ps = Inr (q, js)"
      and IH: "list_all wf_draft (pending @ [n]) \<Longrightarrow> plain_types (pending @ [n])
        \<Longrightarrow> (\<forall>d\<in>set (pending @ [n]). etype (subject d) = Plain Node)
        \<Longrightarrow> list_all wf_draft q \<and> plain_types q \<and> (\<forall>d\<in>set q. etype (subject d) = Plain Node)" for i n js
    using revalidate_parts [OF n [unfolded new_node_def]] 2(5-7) IH by simp
  show ?case
  proof (cases "dp_node p")
    case None
    with 2(4) obtain n js where "revalidate (new_node (nextTempId (ds @ pending) Node) (dp_at p)) = Inr n"
      "draw_nodes ds (pending @ [n]) ps = Inr (q, js)"
      by (auto simp: bindr_Inr_iff Let_def)
    with step 2(1) [OF None refl] show ?thesis by blast
  next
    case (Some k)
    show ?thesis
    proof (cases "k = 0")
      case True
      with 2(4) Some obtain n js where "revalidate (new_node (nextTempId (ds @ pending) Node) (dp_at p)) = Inr n"
        "draw_nodes ds (pending @ [n]) ps = Inr (q, js)"
        by (auto simp: bindr_Inr_iff Let_def)
      with step 2(3) [OF Some _ refl] True show ?thesis by blast
    next
      case False
      with 2(4) Some obtain js where "draw_nodes ds pending ps = Inr (q, js)"
        by (auto simp: bindr_Inr_iff)
      with 2(2) [OF Some False] 2(5-7) show ?thesis by blast
    qed
  qed
qed simp

lemma draw_next_ok: "draw_next e = Inr c \<Longrightarrow> cur_ok c"
proof -
  assume "draw_next e = Inr c"
  then obtain q "is" v where q: "draw_nodes (drafts e) [] (drawPoints e) = Inr (q, is)"
    and v: "element (js_of_element (drawn_way (drafts e) (close_with (drawKind e) is) (pendingDrawTags e))) True = Inr v"
    and c: "cur_base c = None" "cur_value c = v" "cur_pending c = q" "cur_nodes c = None"
    by (auto simp: draw_next_def Let_def bindr_Inr_iff osm_Inr_iff)
  have t: "etype v = Plain Way" using element_of_encoded(1) [OF v] by (simp add: drawn_way_def)
  have qs: "list_all wf_draft q \<and> plain_types q \<and> (\<forall>d\<in>set q. etype (subject d) = Plain Node)"
    using draw_nodes_sound [OF q] by simp
  then have "cur_key c \<notin> keyOf ` set q" using t c by (auto simp: cur_key_def keyOf_def)
  then show ?thesis using qs t c by (simp add: cur_ok_def pending_ok_def base_matches_def)
qed

lemma fresh_cur_ok: "is_plain (etype v) \<Longrightarrow> cur_ok (fresh_cur v p)"
  by (simp add: fresh_cur_def cur_ok_def pending_ok_def base_matches_def)

lemma cur_of_draft_ok:
  assumes "wf_draft d" "is_plain (etype (subject d))"
  shows "cur_ok (cur_of_draft d)"
  using assms by (cases d rule: wf_draft.cases)
    (auto simp: cur_ok_def pending_ok_def base_matches_def same_identity_def type_same_Plain)

lemma loaded_cur_ok: "is_plain (etype base) \<Longrightarrow> cur_ok (loaded_cur base es)"
  by (simp add: loaded_cur_def cur_ok_def pending_ok_def base_matches_def Let_def del: nodeIndex.simps)


section \<open>The drafts after each operation\<close>

lemma plain_sub: "plain_types ds \<Longrightarrow> set xs \<subseteq> set ds \<Longrightarrow> plain_types xs"
  by (auto simp: plain_types_def)

lemma persist_ok:
  assumes g: "good_set ds" and h: "history_ok (undo e) (redo e)" and s: "good_set (saved e)"
    and c: "\<And>c. current e = Some c \<Longrightarrow> cur_ok c"
  shows "editor_ok (take_over storable ds e)"
proof -
  have "history_ok (push30 (saved e) (undo e)) []"
    using h undo_log.push_all [of good_set "saved e" "undo e"] s undo_log.push_length [of "undo e"]
    by (simp add: history_ok_def)
  then show ?thesis
    using g h c s by (auto simp: editor_ok_def take_over_def persist_def say_def Let_def)
qed

lemma take_over_ok:
  assumes "editor_ok e" "good_set ds" "core e' = core e" "current e' = None \<or> current e' = current e"
  shows "editor_ok (take_over storable ds e')"
  using assms by (intro persist_ok) (auto simp: editor_ok_def core_def)

lemma length_remove_at: "length (remove_at i xs) \<le> length xs"
  by (simp add: remove_at_def)

lemma good_removal:
  assumes "good_set ds" "removal_next i ds = Inr next"
  shows "good_set next"
proof -
  have nx: "next = pruned (removed_nodes (ds ! i)) (remove_at i ds)"
    using assms(2) referenced_same by (simp add: removal_next_def)
  have "set next \<subseteq> set ds" using remove_at_sub [of i ds] by (auto simp: nx pruned_filter)
  moreover have "length next \<le> length ds"
    unfolding nx pruned_filter by (rule le_trans [OF length_filter_le length_remove_at])
  ultimately show ?thesis
    using assms valid_removal plain_sub by (fastforce simp: good_set_def)
qed

lemma good_discard: "good_set ds \<Longrightarrow> i < length ds \<Longrightarrow> is_deleted (ds ! i) \<Longrightarrow> good_set (remove_at i ds)"
  using valid_discard plain_sub [OF _ remove_at_sub] length_remove_at [of i ds] by (auto simp: good_set_def)

lemma form_draft_type: "form_draft e c = Inr d \<Longrightarrow> etype (subject d) = etype (cur_value c)"
  by (auto simp: form_draft_def osm_Inr_iff bindr_Inr_iff with_members_def dest!: revalidate_parts(3))

lemma good_save:
  assumes g: "good_set (drafts e)" and c: "cur_ok c" and ok: "save_next e c = Inr next"
  shows "good_set next"
proof -
  from ok obtain d where d: "form_draft e c = Inr d"
    and ref: "referenced (form_set d (cur_pending c) (drafts e)) = Inr next"
    by (auto simp: save_next_Inr)
  have "set next \<subseteq> insert d (set (cur_pending c) \<union> set (drafts e))"
    using referenced_same [OF ref] form_set_sub by simp
  moreover have "is_plain (etype (subject d))" using form_draft_type [OF d] c by (simp add: cur_ok_def)
  ultimately have "plain_types next" using g c by (auto simp: plain_types_def good_set_def cur_ok_def)
  then show ?thesis using save_next_valid [OF _ _ ok] g c by (simp add: good_set_def cur_ok_def)
qed

lemma good_delete:
  assumes g: "good_set ds" and c: "cur_ok c" and b: "cur_base c = Some base"
    and ok: "delete_next usesOf base (cur_key c) ds = Inr next"
  shows "good_set next"
proof -
  have key: "cur_key c = keyOf (Deleted base)"
    using c b by (simp add: cur_ok_def base_matches_def cur_key_def keyOf_def)
  from ok obtain gone where gone: "revalidate (Deleted base) = Inr gone"
    and ref: "referenced (filter (\<lambda>d. keyOf d \<noteq> cur_key c) ds @ [gone]) = Inr next"
    by (auto simp: delete_next_def bindr_Inr_iff osm_Inr_iff at_most_100_iff)
  have "etype (subject gone) = etype base"
    using gone element_of_encoded(1)
    by (auto simp: revalidate_def validate_Deleted_unfold bindr_Inr_iff simp del: js_of_draft.simps)
  then have "plain_types next"
    using referenced_same [OF ref] g c b by (auto simp: plain_types_def good_set_def cur_ok_def base_matches_def)
  then show ?thesis using delete_next_valid [OF _ key ok] g by (simp add: good_set_def)
qed

lemma patched_plain:
  assumes "mapr (\<lambda>d. if P d then revalidate (patch_members f d) else Inr d) ds = Inr ds'" "plain_types ds"
  shows "plain_types ds'" "length ds' = length ds"
proof -
  have one: "etype (subject d') = etype (subject d)"
    if "(if P d then revalidate (patch_members f d) else Inr d) = Inr d'" for d d'
  proof (cases "P d")
    case True
    then have r: "revalidate (patch_members f d) = Inr d'" using that by simp
    show ?thesis
    proof (cases d)
      case (Deleted b)
      then show ?thesis using r element_of_encoded(1)
        by (auto simp: revalidate_def patch_members_def validate_Deleted_unfold bindr_Inr_iff simp del: js_of_draft.simps)
    next
      case (Draft bo v c)
      then show ?thesis using revalidate_parts(3) [OF r [unfolded patch_members_def Draft draft.case]] by simp
    qed
  qed (use that in simp)
  have all: "list_all2 (\<lambda>d d'. (if P d then revalidate (patch_members f d) else Inr d) = Inr d') ds ds'"
    using assms(1) by (simp add: mapr_Inr_iff)
  then have "list_all2 (\<lambda>d d'. etype (subject d') = etype (subject d)) ds ds'"
    using one by (auto simp: list_all2_conv_all_nth)
  then show "plain_types ds'" "length ds' = length ds"
    using assms(2) by (auto simp: plain_types_def list_all2_conv_all_nth all_set_conv_all_nth)
qed

lemma plain_put: "plain_types ds \<Longrightarrow> is_plain (etype (subject d)) \<Longrightarrow> plain_types (put_draft d ds)"
  using drafts_by_key.put_sub by (fastforce simp: plain_types_def)

lemma length_put: "length (put_draft d ds) \<le> Suc (length ds)"
  by (simp add: put_draft_def split: option.split)

lemma good_split:
  assumes g: "good_set ds" and room: "length ds \<le> 98" and c: "cur_ok c" and b: "cur_base c \<noteq> None"
    and ok: "split_next c n ds = Inr next"
  shows "good_set next"
proof -
  from ok obtain i second firstDraft secondDraft patched where
    s: "element (js_of_element (second_half ds (cur_value c) i)) True = Inr second"
    and f: "revalidate (Draft (cur_base c) (first_half (cur_value c) i) (cur_center c)) = Inr firstDraft"
    and sd: "revalidate (Draft None second (cur_center c)) = Inr secondDraft"
    and p: "patchRelationsForSplit (put_draft firstDraft ds @ [secondDraft]) (eid (cur_value c)) (eid second) = Inr patched"
    and ref: "referenced patched = Inr next"
    by (auto simp: split_next_def bindr_Inr_iff throw_if_Inr_iff osm_Inr_iff Let_def split: option.splits)
  have "plain_types (put_draft firstDraft ds @ [secondDraft])"
    using g c revalidate_parts(3) [OF f] revalidate_parts(3) [OF sd] element_of_encoded(1) [OF s]
    by (simp add: plain_put good_set_def cur_ok_def first_half_def second_half_def)
  note pl = patched_plain [OF p [unfolded patchRelationsForSplit_def] this]
  have "length next \<le> 100" using pl(2) room length_put [of firstDraft ds] referenced_same [OF ref] by simp
  then show ?thesis
    using split_next_valid [OF _ _ b ok] pl(1) g referenced_same [OF ref] by (simp add: good_set_def)
qed

lemma removal_of_type:
  assumes "removal_of ex other = Inr r" "is_plain (etype other)" "\<And>d. ex = Some d \<Longrightarrow> wf_draft d \<and> is_plain (etype (subject d))"
  shows "is_plain (etype (subject r))"
proof -
  have del: "etype (subject r) = etype b" if "revalidate (Deleted b) = Inr r" for b
    using that element_of_encoded(1)
    by (auto simp: revalidate_def validate_Deleted_unfold bindr_Inr_iff simp del: js_of_draft.simps)
  show ?thesis
  proof (cases ex)
    case None
    then show ?thesis using assms(1,2) del by (simp add: removal_of_def osm_Inr_iff)
  next
    case (Some d)
    then obtain b where b: "base_of d = Some b" "revalidate (Deleted b) = Inr r"
      using assms(1) by (auto simp: removal_of_def osm_Inr_iff split: option.splits)
    then show ?thesis
      using assms(3) [OF Some] del by (cases d rule: wf_draft.cases) (auto simp: same_identity_def type_same_Plain)
  qed
qed

lemma good_merge:
  assumes g: "good_set ds" and room: "length ds \<le> 98" and c: "cur_ok c"
    and free: "\<forall>d\<in>set ds. keyOf d = elem_key (Plain Way) i \<longrightarrow> is_live_way i d"
    and other: "i \<noteq> eid (cur_value c)" and ok: "merge_next c i resp ds = Inr next"
  shows "good_set next"
proof -
  from ok obtain x merged keptDraft removedDraft patched where
    x: "(case find (is_live_way i) ds of Some d \<Rightarrow> Inr (subject d) | None \<Rightarrow> loaded_way i resp) = Inr x"
    and k: "revalidate (Draft (cur_base c)
        ((cur_value c)\<lparr>egeom := WayG merged, etags := from_entries (etags x @ etags (cur_value c))\<rparr>) (cur_center c)) = Inr keptDraft"
    and r: "removal_of (find (is_live_way i) ds) x = Inr removedDraft"
    and p: "patchRelationsForMerge (put_removal i removedDraft (put_draft keptDraft ds)) i (eid (cur_value c)) = Inr patched"
    and ref: "referenced patched = Inr next"
    by (auto simp: merge_next_def bindr_Inr_iff osm_Inr_iff Let_def split: option.splits)
  have ex: "wf_draft d \<and> is_plain (etype (subject d))" if "find (is_live_way i) ds = Some d" for d
    using that g by (auto simp: find_Some_iff good_set_def valid_set_def plain_types_def list_all_length)
  have "is_plain (etype x)"
    using x ex loaded_way_identity by (cases "find (is_live_way i) ds") fastforce+
  then have rp: "is_plain (etype (subject removedDraft))" using removal_of_type [OF r _ ex] by simp
  have kp: "plain_types (put_draft keptDraft ds)"
    using g c revalidate_parts(3) [OF k] by (simp add: plain_put good_set_def cur_ok_def)
  have "plain_types (put_removal i removedDraft (put_draft keptDraft ds))"
    using kp rp by (auto simp: put_removal_def plain_types_def split: option.split dest: set_update_subset_insert [THEN subsetD])
  note pl = patched_plain [OF p [unfolded patchRelationsForMerge_def] this]
  have "length (put_removal i removedDraft (put_draft keptDraft ds)) \<le> Suc (Suc (length ds))"
    using length_put [of keptDraft ds] by (simp add: put_removal_def split: option.split)
  then have "length next \<le> 100" using pl(2) room referenced_same [OF ref] by simp
  then show ?thesis
    using merge_next_valid [OF _ free other ok] pl(1) g referenced_same [OF ref] by (simp add: good_set_def)
qed

lemma good_import:
  assumes "good_set ds" "import_next num parse file ds = Inr merged" "plain_types merged"
  shows "good_set merged"
  using import_next_valid [OF _ assms(2)] assms(1,3) by (simp add: good_set_def valid_set_def)

section \<open>The invariant\<close>

lemma keep_ok: "core e' = core e \<and> current e' = current e \<Longrightarrow> editor_ok e \<Longrightarrow> editor_ok e'"
  using editor_ok_keep by blast

lemma ok_open:
  assumes "editor_ok e" "core e' = core e" "cur_ok c"
  shows "editor_ok (open_cur c e')"
  using assms cur_ok_open by (intro editor_ok_frame [OF _ assms(1)]) auto

lemma ok_close: "editor_ok e \<Longrightarrow> core e' = core e \<Longrightarrow> current e' = None \<Longrightarrow> editor_ok e'"
  by (rule editor_ok_frame) auto

lemma ok_current:
  "editor_ok e \<Longrightarrow> core e' = core e \<Longrightarrow> current e' = Some c \<Longrightarrow> cur_ok c \<Longrightarrow> editor_ok e'"
  by (rule editor_ok_frame) auto

lemma ok_cur: "editor_ok e \<Longrightarrow> current e = Some c \<Longrightarrow> cur_ok c"
  by (simp add: editor_ok_def)

lemma editor_ok_simps [simp]:
  "editor_ok (say n e) = editor_ok e" "editor_ok (cancel e) = editor_ok e" "editor_ok (setTab t e) = editor_ok e"
  "editor_ok (setBusy b e) = editor_ok e" "editor_ok (touch e) = editor_ok e" "editor_ok (refuse_switch e) = editor_ok e"
  "editor_ok (failed x e) = editor_ok e"
  using editor_ok_keep core_simps current_simps by metis+

lemma editor_ok_update [simp]:
  "editor_ok (e\<lparr>selectedVertexId := s\<rparr>) = editor_ok e" "editor_ok (e\<lparr>insertMode := b\<rparr>) = editor_ok e"
  "editor_ok (e\<lparr>splitMode := b\<rparr>) = editor_ok e" "editor_ok (e\<lparr>geometryMode := b\<rparr>) = editor_ok e"
  "editor_ok (e\<lparr>dragPreview := p\<rparr>) = editor_ok e" "editor_ok (e\<lparr>dragNodeId := n\<rparr>) = editor_ok e"
  "editor_ok (e\<lparr>placing := b\<rparr>) = editor_ok e" "editor_ok (e\<lparr>drawing := b\<rparr>) = editor_ok e"
  "editor_ok (e\<lparr>drawPoints := dp\<rparr>) = editor_ok e" "editor_ok (e\<lparr>drawSnapNodes := sn\<rparr>) = editor_ok e"
  "editor_ok (e\<lparr>pendingDrawTags := pt\<rparr>) = editor_ok e" "editor_ok (e\<lparr>secretToggle := b\<rparr>) = editor_ok e"
  by (simp_all add: editor_ok_def)

lemma set_current_ok: "editor_ok e \<Longrightarrow> cur_ok c \<Longrightarrow> editor_ok (e\<lparr>current := Some c\<rparr>)"
  by (simp add: editor_ok_def)

lemma editor_ok_good: "editor_ok e \<Longrightarrow> good_set (drafts e)"
  by (simp add: editor_ok_def)

lemma insertVertex_ok: "editor_ok e \<Longrightarrow> editor_ok (insertVertex i p e)"
  by (auto simp: insertVertex_def split: option.split sum.split
      intro!: set_current_ok intro: insert_next_ok ok_cur)

lemma removeVertex_ok:
  assumes ok: "editor_ok e"
  shows "editor_ok (removeVertex e)"
proof -
  have kept: "editor_ok (e\<lparr>current := Some (c\<lparr>cur_value := with_nodes ns (cur_value c),
      cur_pending := filter P (cur_pending c)\<rparr>)\<rparr>)" if "current e = Some c" for c ns P
    using ok_cur [OF ok that] by (intro set_current_ok [OF ok] cur_ok_filter_pending) (simp_all add: with_nodes_def)
  show ?thesis
    using ok kept by (simp add: removeVertex_def split: option.split sum.split)
qed

lemma geometryClick_ok: "editor_ok e \<Longrightarrow> editor_ok (geometryClick proj p e)"
  using insertVertex_ok mode_changes_keep(2) keep_ok
  by (auto simp: geometryClick_def Let_def split: option.split)

lemma commitNodeMove_ok:
  assumes "editor_ok e"
  shows "editor_ok (commitNodeMove i lon lat e)"
proof -
  have moved: "cur_ok (c\<lparr>cur_value := (cur_value c)\<lparr>egeom := g\<rparr>, cur_center := p\<rparr>)" if "current e = Some c" for c g p
    using ok_cur [OF assms that] by (rule cur_ok_same) (simp_all add: cur_ok_nodes ok_cur [OF assms that])
  then show ?thesis
    using assms
    by (auto simp: commitNodeMove_def split: jsnum.split option.split sum.split
        intro!: set_current_ok intro: commit_next_ok ok_cur)
qed

lemma mapMouseUp_ok: "editor_ok e \<Longrightarrow> editor_ok (mapMouseUp e)"
proof -
  assume "editor_ok e"
  then have "editor_ok (e\<lparr>dragNodeId := None, dragPreview := Map.empty\<rparr>)"
    by (rule editor_ok_keep [rotated 2]) simp_all
  then show ?thesis
    using \<open>editor_ok e\<close> commitNodeMove_ok by (simp add: mapMouseUp_def Let_def split: option.split)
qed

lemma place_ok: "editor_ok e \<Longrightarrow> editor_ok (place p e)"
  by (auto simp: place_def osm_Inr_iff new_node_def split: sum.split
      intro!: ok_open fresh_cur_ok dest: element_of_encoded(1))

lemma startAt_ok: "editor_ok e \<Longrightarrow> editor_ok (startAt p e)"
proof -
  assume "editor_ok e"
  then have "editor_ok (e\<lparr>placing := True\<rparr>)" by (rule editor_ok_keep [rotated 2]) simp_all
  then show ?thesis using \<open>editor_ok e\<close> place_ok by (simp add: startAt_def)
qed

lemma newRelation_ok: "editor_ok e \<Longrightarrow> editor_ok (newRelation e)"
  by (auto simp: newRelation_def new_relation_def split: sum.split
      intro!: ok_open fresh_cur_ok dest: element_of_encoded(1))

lemma finishDraw_ok: "editor_ok e \<Longrightarrow> editor_ok (finishDraw e)"
  by (auto simp: finishDraw_def split: sum.split intro!: ok_open draw_next_ok)

lemma drawn_draft_ok: "editor_ok e \<Longrightarrow> d \<in> set (drafts e) \<Longrightarrow> cur_ok (cur_of_draft d)"
  by (rule cur_of_draft_ok) (auto simp: editor_ok_def good_set_def valid_set_def plain_types_def list_all_iff)

lemma openDraft_ok: "editor_ok e \<Longrightarrow> editor_ok (openDraft i e)"
  by (auto simp: openDraft_def intro!: ok_open drawn_draft_ok)

lemma open_existing_ok:
  assumes "editor_ok e" "d \<in> set (drafts e)"
  shows "editor_ok (open_existing t i r d e)"
proof -
  have "cur_ok ((cur_of_draft d)\<lparr>cur_nodes := Some (nodeIndex es), cur_shape := s\<rparr>)" for es s
    using drawn_draft_ok [OF assms] by (rule cur_ok_same) (simp_all del: nodeIndex.simps)
  then show ?thesis
    using assms drawn_draft_ok [OF assms]
    by (auto simp: open_existing_def Let_def split: option.split intro!: ok_open simp del: nodeIndex.simps)
qed

lemma load_next_type: "load_next t i r = Inr (base, es) \<Longrightarrow> etype base = Plain t"
proof -
  assume "load_next t i r = Inr (base, es)"
  then obtain b raw where f: "find_element (Plain t) i b = Inr raw" and el: "element raw False = Inr base"
    by (auto simp: load_next_def bindr_Inr_iff throw_if_Inr_iff osm_Inr_iff split: option.splits)
  have "raw = JUndef \<or> same_raw (Plain t) i raw" if "find_raw (Plain t) i xs = Inr raw" for xs
    using that by (induction xs) (auto split: if_splits)
  then have "raw = JUndef \<or> same_raw (Plain t) i raw"
    using f by (auto simp: find_element_def split: if_splits js.splits)
  with el show ?thesis
    by (cases t) (auto simp: same_raw_def element_def throw_if_Inr_iff bindr_Inr_iff split: option.splits)
qed

lemma load_ok: "editor_ok e \<Longrightarrow> editor_ok (load t i r e)"
  using load_next_type open_existing_ok
  by (auto simp: load_def Let_def find_Some_iff split: option.split sum.split
      intro!: ok_open loaded_cur_ok)

lemma pick_ok: "editor_ok e \<Longrightarrow> editor_ok (pick cat z pois live full p e)"
proof -
  assume ok: "editor_ok e"
  have hit: "d \<in> set (drafts e)" if "local_hit cat e lat lon r = Some d" for d lat lon r
    using that by (auto simp: local_hit_def draft_of_candidate_def Let_def find_Some_iff split: option.splits)
  show ?thesis
    using ok load_ok
    by (auto simp: pick_def Let_def split: option.split sum.split list.split intro!: ok_open drawn_draft_ok hit)
qed

lemma openConfidential_ok: "editor_ok e \<Longrightarrow> editor_ok (openConfidential obj e)"
proof -
  assume ok: "editor_ok e"
  let ?e = "open_cur (secret_cur (drafts e) obj) (cancel e)"
  have "cur_ok (secret_cur (drafts e) obj)"
    by (cases "so_geometry obj") (simp_all add: secret_cur_def secret_value_def cur_ok_def pending_ok_def base_matches_def)
  then have o: "editor_ok ?e" using ok by (intro ok_open) simp_all
  have "cur_ok (c\<lparr>cur_secret := s\<rparr>)" if "current ?e = Some c" for c s
    using ok_cur [OF o that] by (rule cur_ok_same) (simp_all add: cur_ok_nodes ok_cur [OF o that])
  then show ?thesis
    using o ok
    by (cases "current ?e") (auto simp: openConfidential_def Let_def intro!: set_current_ok intro: ok_close [OF o])
qed

lemma saveConfidential_ok: "editor_ok e \<Longrightarrow> editor_ok (saveConfidential send c e)"
  by (auto simp: saveConfidential_def split: option.split sum.split intro: ok_close)

lemma save_ok: "editor_ok e \<Longrightarrow> editor_ok (save storable send e)"
proof -
  assume ok: "editor_ok e"
  have kept: "editor_ok (e\<lparr>current := Some (c\<lparr>cur_center := p\<rparr>)\<rparr>)" if "current e = Some c" for c p
    using ok_cur [OF ok that] by (intro set_current_ok [OF ok]) (auto intro: cur_ok_same simp: cur_ok_nodes)
  have over: "editor_ok (take_over storable next (closeCurrent e'))"
    if "current e = Some c" "save_next e c = Inr next" "core e' = core e" for c "next" e'
    using good_save [OF editor_ok_good [OF ok] ok_cur [OF ok that(1)] that(2)] that(3)
    by (intro take_over_ok [OF ok]) simp_all
  show ?thesis
    using ok kept saveConfidential_ok over
    by (simp add: save_def Let_def split: option.split sum.split)
qed

lemma removeDraft_ok: "editor_ok e \<Longrightarrow> editor_ok (removeDraft s i e)"
  by (auto simp: removeDraft_def split: sum.split intro!: take_over_ok [of e] good_removal [of "drafts e"] editor_ok_good)

lemma discardDeletion_ok: "editor_ok e \<Longrightarrow> editor_ok (discardDeletion s i e)"
  by (auto simp: discardDeletion_def intro!: take_over_ok [of e] good_discard editor_ok_good)


lemma deleteObject_ok: "editor_ok e \<Longrightarrow> editor_ok (deleteObject s confirmed r e)"
proof -
  assume ok: "editor_ok e"
  have over: "editor_ok (take_over s next (closeCurrent (setBusy True e)))"
    if "current e = Some c" "cur_base c = Some b" "delete_next r b (cur_key c) (drafts e) = Inr next" for c b "next"
    using good_delete [OF editor_ok_good [OF ok] ok_cur [OF ok that(1)] that(2,3)]
    by (intro take_over_ok [OF ok]) simp_all
  show ?thesis using ok over by (simp add: deleteObject_def split: option.split sum.split)
qed

lemma performSplit_ok:
  assumes ok: "editor_ok e" and room: "length (drafts e) \<le> 98" and b: "\<forall>c. current e = Some c \<longrightarrow> cur_base c \<noteq> None"
  shows "editor_ok (performSplit s n e)"
proof -
  have over: "editor_ok (take_over s next (closeCurrent (e\<lparr>splitMode := False\<rparr>)))"
    if "current e = Some c" "split_next c n (drafts e) = Inr next" for c "next"
    using good_split [OF editor_ok_good [OF ok] room ok_cur [OF ok that(1)] _ that(2)] b that(1)
    by (intro take_over_ok [OF ok]) simp_all
  show ?thesis using ok over by (simp add: performSplit_def split: option.split sum.split)
qed

lemma mapMouseDown_ok:
  assumes "editor_ok e" "split_allowed (MouseDown proj s m b p) e"
  shows "editor_ok (mapMouseDown proj s m b p e)"
  using assms performSplit_ok by (simp add: mapMouseDown_def split: option.split)

lemma mergeWith_ok:
  assumes ok: "editor_ok e" and al: "draft_allowed (MergeWith s typed r) e"
  shows "editor_ok (mergeWith s typed r e)"
proof -
  have over: "editor_ok (take_over s next (closeCurrent (setBusy True e)))"
    if "current e = Some c" "int_of typed \<noteq> eid (cur_value c)"
      "merge_next c (int_of typed) (r (int_of typed)) (drafts e) = Inr next" for c "next"
    using good_merge [OF editor_ok_good [OF ok] _ ok_cur [OF ok that(1)] _ that(2,3)] al
    by (intro take_over_ok [OF ok]) simp_all
  show ?thesis using ok over by (simp add: mergeWith_def split: option.split sum.split)
qed

lemma import_ok:
  assumes ok: "editor_ok e" and al: "draft_allowed (Import num parse s small file) e"
  shows "editor_ok (import_file num parse s small file e)"
proof -
  have over: "editor_ok (take_over s ds (setBusy True e))" if "import_next num parse file (drafts e) = Inr ds" for ds
    using good_import [OF editor_ok_good [OF ok] that] al that by (intro take_over_ok [OF ok]) simp_all
  show ?thesis using ok over by (simp add: import_file_def split: sum.split)
qed

lemma history_pop:
  assumes "history_ok us rs" "us \<noteq> []" "good_set ds"
  shows "history_ok (butlast us) (rs @ [ds])" "good_set (last us)"
  using assms by (cases us; auto simp: history_ok_def dest: in_set_butlastD)+

lemma history_swap: "history_ok us rs = history_ok rs us"
  by (auto simp: history_ok_def)

lemma undo_ok: "editor_ok e \<Longrightarrow> editor_ok (undo_click s e)"
  using history_pop
  by (auto simp: undo_click_def persist_def say_def closeCurrent_def Let_def editor_ok_def
      refuse_switch_def setTab_def)

lemma redo_ok: "editor_ok e \<Longrightarrow> editor_ok (redo_click s e)"
  using history_pop history_swap
  by (auto simp: redo_click_def persist_def say_def closeCurrent_def Let_def editor_ok_def
      refuse_switch_def setTab_def)

lemma discard_ok: "editor_ok e \<Longrightarrow> editor_ok (discard e)"
  by (auto simp: discard_def split: option.split intro: ok_close)

lemma deleteConfidential_ok: "editor_ok e \<Longrightarrow> editor_ok (deleteConfidential sent i e)"
  by (auto simp: deleteConfidential_def split: option.split sum.split intro: ok_close)

lemma drawSelectedArea_ok: "editor_ok e \<Longrightarrow> drawSelectedArea e = Inr e' \<Longrightarrow> editor_ok e'"
  using mode_changes_keep(5)
  by (auto simp: drawSelectedArea_def bindr_Inr_iff split: if_splits intro!: ok_close [of e])

lemma escape_ok: "editor_ok e \<Longrightarrow> editor_ok (escape e)"
  using mode_changes_keep(1) keep_ok by (simp add: escape_def)

lemmas operation_ok = keep_ok [OF form_edits_keep(1)] keep_ok [OF form_edits_keep(2)] keep_ok [OF form_edits_keep(3)]
  keep_ok [OF form_edits_keep(4)] keep_ok [OF form_edits_keep(5)] keep_ok [OF form_edits_keep(6)]
  keep_ok [OF form_edits_keep(7)] keep_ok [OF form_edits_keep(8)] keep_ok [OF form_edits_keep(9)]
  keep_ok [OF form_edits_keep(10)] keep_ok [OF form_edits_keep(11)] keep_ok [OF form_edits_keep(12)]
  keep_ok [OF applyPreset_keep] keep_ok [OF mode_changes_keep(1)] keep_ok [OF mode_changes_keep(2)]
  keep_ok [OF mode_changes_keep(3)] keep_ok [OF mode_changes_keep(4)] keep_ok [OF mode_changes_keep(5)]
  keep_ok [OF mode_changes_keep(6)] keep_ok [OF mode_changes_keep(7)] keep_ok [OF mode_changes_keep(8)]
  keep_ok [OF mode_changes_keep(9)] keep_ok [OF mode_changes_keep(10)] keep_ok [OF mode_changes_keep(11)]
  keep_ok [OF mode_changes_keep(12)] keep_ok [OF mode_changes_keep(13)]
  insertVertex_ok removeVertex_ok geometryClick_ok commitNodeMove_ok mapMouseUp_ok place_ok startAt_ok
  newRelation_ok finishDraw_ok openDraft_ok load_ok pick_ok openConfidential_ok save_ok removeDraft_ok
  discardDeletion_ok deleteObject_ok mapMouseDown_ok mergeWith_ok import_ok undo_ok redo_ok discard_ok
  deleteConfidential_ok escape_ok

lemma form_step_ok: "editor_ok e \<Longrightarrow> editor_ok (form_step ev e)"
  by (cases ev) (simp_all add: operation_ok)

lemma vertex_step_ok: "editor_ok e \<Longrightarrow> split_allowed ev e \<Longrightarrow> editor_ok (vertex_step ev e)"
  by (cases ev) (simp_all add: operation_ok)

lemma draw_step_ok: "editor_ok e \<Longrightarrow> editor_ok (draw_step ev e)"
  using drawSelectedArea_ok by (cases ev) (simp_all add: operation_ok split: sum.split)

lemma open_step_ok: "editor_ok e \<Longrightarrow> editor_ok (open_step ev e)"
  by (cases ev) (simp_all add: operation_ok)

lemma draft_step_ok: "editor_ok e \<Longrightarrow> draft_allowed ev e \<Longrightarrow> editor_ok (draft_step ev e)"
  by (cases ev) (simp_all add: operation_ok)

lemma step_ok: "editor_ok e \<Longrightarrow> allowed ev e \<Longrightarrow> editor_ok (step ev e)"
  by (cases ev) (simp_all add: form_step_ok vertex_step_ok draw_step_ok open_step_ok draft_step_ok)

section \<open>Reachable states\<close>

inductive reachable :: "draft list option \<Rightarrow> editor \<Rightarrow> bool" for restored where
  start: "reachable restored (init_editor restored)"
| event: "reachable restored e \<Longrightarrow> allowed ev e \<Longrightarrow> reachable restored (step ev e)"

lemma init_ok: "(case restored of Some ds \<Rightarrow> good_set ds | None \<Rightarrow> True) \<Longrightarrow> editor_ok (init_editor restored)"
  by (auto simp: init_editor_def editor_ok_def history_ok_def good_set_def valid_set_def distinct_keys_def
      collectIssues_def deleted_bases_def split: option.splits)

lemma reachable_ok:
  assumes "reachable restored e" "case restored of Some ds \<Rightarrow> good_set ds | None \<Rightarrow> True"
  shows "editor_ok e"
  using assms(1) by (induction rule: reachable.induct) (simp_all add: init_ok assms(2) step_ok)

section \<open>Properties\<close>

definition restored_ok :: "draft list option \<Rightarrow> bool" where
  "restored_ok restored \<longleftrightarrow> (case restored of Some ds \<Rightarrow> good_set ds | None \<Rightarrow> True)"


definition bench_events :: "event list" where
  "bench_events = [DrawEvent (StartAt (8, 52)), FormEvent (EditField (lit ''a'') (lit ''b'')),
     DraftEvent (Save True (\<lambda>_ _ _. Inr ()))]"

definition run :: "event list \<Rightarrow> editor \<Rightarrow> editor" where
  "run evs e = fold step evs e"







lemma take_over_core: "core (take_over s ds e) = (ds, ds, fst (snd (snd (core (take_over s ds e)))), snd (snd (snd (core (take_over s ds e)))))"
  by (simp add: core_def take_over_def persist_def say_def Let_def)

lemma open_core:
  "core (insertVertex i p e) = core e" "core (removeVertex e) = core e" "core (commitNodeMove i lon lat e) = core e"
  "core (place p e) = core e" "core (newRelation e) = core e" "core (finishDraw e) = core e"
  "core (openDraft n e) = core e" "core (open_existing t i r d e) = core e" "core (discard e) = core e"
  "core (deleteConfidential sent k e) = core e" "core (openConfidential obj e) = core e"
  "core (saveConfidential send c e) = core e"
  by (simp_all add: insertVertex_def removeVertex_def commitNodeMove_def place_def newRelation_def finishDraw_def
      openDraft_def open_existing_def discard_def deleteConfidential_def openConfidential_def saveConfidential_def
      Let_def split: option.split sum.split jsnum.split prod.split)

lemma load_core: "core (load t i r e) = core e"
  by (simp add: load_def open_core Let_def split: option.split sum.split prod.split)

lemma pick_core: "core (pick cat z pois live full p e) = core e"
  by (simp add: pick_def load_core Let_def split: option.split sum.split list.split prod.split)

lemma vertex_core:
  "core (geometryClick proj p e) = core e" "core (mapMouseUp e) = core e" "core (escape e) = core e"
  "core (startAt p e) = core e"
  using mode_changes_keep(1,2)
  by (simp_all add: geometryClick_def mapMouseUp_def escape_def startAt_def open_core Let_def split: option.split)

lemma drawSelectedArea_core: "drawSelectedArea e = Inr e' \<Longrightarrow> core e' = core e"
  using mode_changes_keep(5) by (auto simp: drawSelectedArea_def bindr_Inr_iff split: if_splits)

text \<open>Which events may change the drafts: the draft events, and the click that splits a way.\<close>

fun touches_drafts :: "event \<Rightarrow> editor \<Rightarrow> bool" where
  "touches_drafts (DraftEvent _) e \<longleftrightarrow> True"
| "touches_drafts (VertexEvent (MouseDown proj storable onMarker button p)) e \<longleftrightarrow> splitMode e"
| "touches_drafts _ e \<longleftrightarrow> False"

lemma form_step_core: "core (form_step ev e) = core e"
  using form_edits_keep applyPreset_keep by (cases ev) simp_all

lemma vertex_step_core: "\<not> touches_drafts (VertexEvent ev) e \<Longrightarrow> core (vertex_step ev e) = core e"
  using mode_changes_keep
  by (cases ev) (simp_all add: open_core vertex_core mapMouseDown_def split: option.split)

lemma draw_step_core: "core (draw_step ev e) = core e"
  using mode_changes_keep drawSelectedArea_core
  by (cases ev) (simp_all add: open_core vertex_core split: sum.split)

lemma open_step_core: "core (open_step ev e) = core e"
  using mode_changes_keep by (cases ev) (simp_all add: open_core load_core pick_core)



text \<open>A new point at 8/52, open with one row in the form.\<close>

definition bench :: "tag_map \<Rightarrow> element" where
  "bench ts = \<lparr>etype = Plain Node, eid = -1, eversion = None, etags = ts, egeom = NodeG 8 52\<rparr>"

definition bench_editor :: "(jstr \<times> jstr) list \<Rightarrow> bool \<Rightarrow> editor" where
  "bench_editor rows secret = (init_editor None)\<lparr>current := Some (fresh_cur (bench []) (Some (8, 52))),
     working := rows, dirty := True, secretToggle := secret\<rparr>"

lemma trim_sample: "trim (lit ''a'') = lit ''a''" "trim (lit ''b'') = lit ''b''"
  by (simp_all add: trim_def lit_def js_space_def)

lemma bench_ok: "editor_ok (bench_editor rows secret)"
  using init_ok [of None] by (auto simp: bench_editor_def editor_ok_def bench_def fresh_cur_ok)

lemma bench_form:
  assumes "tags_of_rows (trimmed (bench_editor rows secret)) = Inr ts" "wf_tags ts"
  shows "form_draft (bench_editor rows secret) (fresh_cur (bench []) (Some (8, 52)))
      = Inr (Draft None (bench ts) (Some (8, 52)))"
    "drawn_check (bench_editor rows secret) (fresh_cur (bench []) (Some (8, 52))) = Inr ()"
proof -
  have "wf_draft (Draft None (bench ts) (Some (8, 52)))"
    using assms(2) by (simp add: bench_def wf_element_def wf_identity_def safe_int_def wf_center_def)
  then have "validateDraft (js_of_draft (Draft None (bench ts) (Some (8, 52)))) = Inr (Draft None (bench ts) (Some (8, 52)))"
    by (rule validateDraft_encoded)
  moreover have "center_of (bench_editor rows secret) (fresh_cur (bench []) (Some (8, 52))) = Some (8, 52)"
    by (simp add: center_of_def fresh_cur_def bench_def)
  ultimately show "form_draft (bench_editor rows secret) (fresh_cur (bench []) (Some (8, 52)))
      = Inr (Draft None (bench ts) (Some (8, 52)))"
    using assms(1)
    by (simp add: form_draft_def with_members_def fresh_cur_def bench_def revalidate_def osm_Inr_iff del: js_of_draft.simps)
  show "drawn_check (bench_editor rows secret) (fresh_cur (bench []) (Some (8, 52))) = Inr ()"
    by (simp add: drawn_check_def fresh_cur_def bench_def)
qed

lemma bench_rows:
  "tags_of_rows (trimmed (bench_editor [] secret)) = Inr []" "wf_tags []"
  "tags_of_rows (trimmed (bench_editor [(lit ''a'', lit ''b'')] secret)) = Inr [(lit ''a'', lit ''b'')]"
  "wf_tags [(lit ''a'', lit ''b'')]"
  by (simp_all add: tags_of_rows_def trimmed_def bench_editor_def trim_sample tags_def sample_tag wf_tags_def obj_wf_def)

lemma bench_save:
  "save_next (bench_editor [(lit ''a'', lit ''b'')] secret) (fresh_cur (bench []) (Some (8, 52)))
     = Inr [Draft None (bench [(lit ''a'', lit ''b'')]) (Some (8, 52))]"
proof -
  let ?d = "Draft None (bench [(lit ''a'', lit ''b'')]) (Some (8, 52))"
  have set: "form_set ?d [] [] = [?d]"
    by (simp add: form_set_def merge_form_def unchanged_draft_def bench_def)
  have wf: "wf_draft ?d" using form_draft_sound(1) [OF bench_form(1) [OF bench_rows(3,4)]] .
  have "collectIssues [?d] = []"
    by (simp add: collectIssues_def deleted_bases_def bench_def dangling_issues_def sample_tag)
  then have "referenced [?d] = Inr [?d]" using wf by (simp add: referenced_iff)
  then show ?thesis
    using bench_form [OF bench_rows(3,4), of secret] set
    by (simp add: save_next_Inr bench_editor_def fresh_cur_def init_editor_def bench_def)
qed





text \<open>A save that succeeds leaves exactly one draft of the open object, the one the form describes,
  and none when the form describes what OpenStreetMap already holds.\<close>

theorem save_takes_form:
  assumes ok: "editor_ok e" and c: "current e = Some c" and n: "save_next e c = Inr ds"
  shows "\<exists>d. form_draft e c = Inr d \<and> keyOf d = cur_key c
    \<and> filter (\<lambda>x. keyOf x = cur_key c) ds = (if unchanged_draft d then [] else [d])"
proof -
  have gs: "good_set ds" using good_save [OF editor_ok_good [OF ok] ok_cur [OF ok c] n] .
  have "valid_set (drafts e)" "pending_ok c" using ok c by (auto simp: editor_ok_def good_set_def cur_ok_def)
  then obtain d where d: "form_draft e c = Inr d" "unchanged_draft d \<Longrightarrow> cur_key c \<notin> keyOf ` set ds"
    "\<not> unchanged_draft d \<Longrightarrow> d \<in> set ds" using save_next_effect [OF _ _ n] by metis
  have k: "keyOf d = cur_key c" using form_draft_sound(2) [OF d(1)] .
  have one: "filter (\<lambda>x. keyOf x = keyOf d) xs = [d]" if "distinct (map keyOf xs)" "d \<in> set xs" for xs
    using that by (induction xs) (auto simp: filter_empty_conv image_iff)
  have "filter (\<lambda>x. keyOf x = cur_key c) ds = (if unchanged_draft d then [] else [d])"
  proof (cases "unchanged_draft d")
    case True
    then show ?thesis using d(2) by (auto simp: filter_empty_conv image_iff)
  next
    case False
    then show ?thesis
      using one [of ds] d(3) gs k by (simp add: good_set_def valid_set_def distinct_keys_def)
  qed
  with d(1) k show ?thesis by blast
qed


theorem save_takes_form_witness:
  "filter (\<lambda>x. keyOf x = cur_key (fresh_cur (bench []) (Some (8, 52)))) [Draft None (bench [(lit ''a'', lit ''b'')]) (Some (8, 52))]
     = [Draft None (bench [(lit ''a'', lit ''b'')]) (Some (8, 52))]"
proof -
  have "current (bench_editor [(lit ''a'', lit ''b'')] False) = Some (fresh_cur (bench []) (Some (8, 52)))"
    by (simp add: bench_editor_def)
  from save_takes_form [OF bench_ok this bench_save] show ?thesis
    using bench_form(1) [OF bench_rows(3,4), of False] by (auto simp: unchanged_draft_def)
qed



theorem vertexAt_nearest_witness:
  "pixel_dist (8, 52) (8, 52) < 14"
proof -
  let ?e = "(bench_editor [] False)\<lparr>geometryMode := True\<rparr>"
  have "vertexAt (\<lambda>q. q) (8, 52) ?e = Some (-1)"
    by (simp add: vertexAt_def bench_editor_def init_editor_def fresh_cur_def bench_def vertex_ids_def
        coordsOfNode_def pixel_dist_def)
  from vertexAt_nearest [OF this, of "fresh_cur (bench []) (Some (8, 52))"] show ?thesis
    by (simp add: bench_editor_def coordsOfNode_def fresh_cur_def bench_def init_editor_def)
qed



section \<open>Limits of the operations\<close>

text \<open>A split or a merge does not ask how many drafts there are: past 100 they can no longer be
  exported, nor read back.\<close>

lemma split_past_limit:
  assumes "split_next c n ds = Inr next" "cur_key c \<notin> keyOf ` set ds" "98 < length ds"
  shows "\<not> is_ok (osc num (map js_of_draft next)) \<and> restore_value num (js_of_file next) = Inl BadDraftFile"
proof -
  let ?v = "cur_value c"
  from assms(1) obtain i second a b patched where
    "element (js_of_element (second_half ds ?v i)) True = Inr second"
    and a: "revalidate (Draft (cur_base c) (first_half ?v i) (cur_center c)) = Inr a"
    and "revalidate (Draft None second (cur_center c)) = Inr b"
    and p: "patchRelationsForSplit (put_draft a ds @ [b]) (eid ?v) (eid second) = Inr patched"
    and ref: "referenced patched = Inr next"
    by (auto simp: split_next_def bindr_Inr_iff throw_if_Inr_iff osm_Inr_iff Let_def split: option.splits)
  have "keyOf a \<notin> keyOf ` set ds"
    using revalidate_parts(2) [OF a] assms(2) by (simp add: cur_key_def first_half_def)
  then have "put_draft a ds = ds @ [a]" using draft_index_None [of a ds] by (simp add: put_draft_def)
  then have "length next = length ds + 2"
    using mapr_length [OF p [unfolded patchRelationsForSplit_def]] referenced_same [OF ref] by simp
  then show ?thesis
    using assms(3) restore_file_too_long [of "next" num] by (auto simp: is_ok_iff osc_Inr_iff)
qed

text \<open>A merge with a way that a draft already deletes adds a second draft of that way, and the drafts
  can no longer be exported.\<close>

lemma merge_of_deleted:
  assumes "merge_next c i resp ds = Inr next" "Deleted w \<in> set ds" "keyOf (Deleted w) = elem_key (Plain Way) i"
    and "distinct_keys ds" "list_all wf_draft ds" "i \<noteq> eid (cur_value c)"
  shows "\<not> is_ok (osc num (map js_of_draft next))"
proof -
  have no_live: "find (is_live_way i) ds = None"
  proof -
    have "\<not> is_live_way i d" if "d \<in> set ds" for d
    proof
      assume live: "is_live_way i d"
      then have "d = Deleted w"
        using that is_live_way_key [OF live] assms(2-4) by (metis distinct_keys_def distinct_map inj_onD)
      with live show False by (simp add: is_live_way_def)
    qed
    then show ?thesis by (auto simp: find_None_iff)
  qed
  from assms(1) no_live obtain x merged k r patched where
    x: "loaded_way i resp = Inr x"
    and k: "revalidate (Draft (cur_base c)
        ((cur_value c)\<lparr>egeom := WayG merged, etags := from_entries (etags x @ etags (cur_value c))\<rparr>) (cur_center c)) = Inr k"
    and r: "removal_of None x = Inr r"
    and p: "patchRelationsForMerge (put_removal i r (put_draft k ds)) i (eid (cur_value c)) = Inr patched"
    and ref: "referenced patched = Inr next"
    by (auto simp: merge_next_def bindr_Inr_iff osm_Inr_iff Let_def split: option.splits)
  have kk: "keyOf k = elem_key (etype (cur_value c)) (eid (cur_value c))"
    using revalidate_parts(2) [OF k] by simp
  have rr: "revalidate (Deleted x) = Inr r" using r by (simp add: removal_of_def osm_Inr_iff)
  have rk: "keyOf r = elem_key (Plain Way) i"
    using revalidate_key [OF rr] loaded_way_identity [OF x] by (simp add: keyOf_def)
  have put: "Deleted w \<in> set (put_draft k ds)"
    using assms(2-4,6) kk drafts_by_key.put_lookup [of ds "Deleted w" k] by (auto simp: distinct_keys_def)
  have "find_index (is_live_way i) (put_draft k ds) = None"
    unfolding find_index_None
  proof
    fix d assume "d \<in> set (put_draft k ds)"
    then consider "d = k" | "d \<in> set ds" using drafts_by_key.put_sub by blast
    then show "\<not> is_live_way i d"
    proof cases
      case 1
      then show ?thesis using kk is_live_way_key [of i k] assms(6) by auto
    next
      case 2
      then show ?thesis using no_live by (simp add: find_None_iff)
    qed
  qed
  then have n: "put_removal i r (put_draft k ds) = put_draft k ds @ [r]" by (simp add: put_removal_def)
  have wf: "list_all wf_draft (put_draft k ds @ [r])"
    using valid_put [OF assms(5) revalidate_sound [OF k]] revalidate_sound [OF rr] by simp
  have "map keyOf next = map keyOf (put_draft k ds @ [r])"
    using mapr_patched(2) [OF p [unfolded patchRelationsForMerge_def n] wf] referenced_same [OF ref] by simp
  then have "\<not> distinct_keys next"
    using put rk assms(3) by (auto simp: distinct_keys_def) (metis image_eqI)
  moreover have "list_all wf_draft next"
    using mapr_patched(1) [OF p [unfolded patchRelationsForMerge_def n] wf] referenced_same [OF ref] by simp
  ultimately show ?thesis using osc_encoded_ok [of "next" num] by (simp add: valid_set_def)
qed

text \<open>The placeholders of a reopened confidential line are those of drafted nodes: the geometry that is
  sent back takes the position of a drafted node for its own first vertex.\<close>

lemma confidential_line_moved:
  assumes "drafts e = [new_node (-1) (1, 2)]" "dragPreview e = Map.empty" "mapElements e = []"
    "\<not> dirty e" "\<not> busy e"
  shows "case current (openConfidential \<lparr>so_id = k, so_geometry = SLine [(8, 52), (9, 53)], so_tags = ts\<rparr> e) of
      Some c \<Rightarrow> confidentialGeometry
          (openConfidential \<lparr>so_id = k, so_geometry = SLine [(8, 52), (9, 53)], so_tags = ts\<rparr> e) c
        = Some (SLine [(1, 2), (9, 53)])
    | None \<Rightarrow> False"
  using assms
  by (simp add: openConfidential_def canSwitch_def open_cur_def Let_def setTab_def analyze_def cancel_def say_def
      secret_cur_def secret_value_def secret_shape_def secret_ring_def new_node_def confidentialGeometry_def
      coordsOfNode_def live_node_def shape_at_def open_shape_def map_filter_simps closed_refs_def)

text \<open>A reopened confidential point can be redrawn as an area: its tags then wait for an ordinary draft.\<close>

lemma confidential_tags_leak:
  assumes "current e = Some c" "cur_secret c = Some k" "tags_of_rows (trimmed e) = Inr ts" "\<not> busy e"
  shows "\<exists>e'. drawSelectedArea e = Inr e' \<and> drawing e' \<and> pendingDrawTags e' = Some ts"
  using assms
  by (simp add: drawSelectedArea_def startDrawing_def canSwitch_def closeCurrent_def setTab_def say_def cancel_def Let_def)

text \<open>A split takes the object as it was opened: rows edited in the form since are not in its drafts.\<close>

lemma split_ignores_form:
  "performSplit s n (e\<lparr>working := rows\<rparr>) = (performSplit s n e)\<lparr>working := working (performSplit s n (e\<lparr>working := rows\<rparr>))\<rparr>"
  by (simp add: performSplit_def failed_def say_def closeCurrent_def take_over_def persist_def setTab_def Let_def
      split: option.split sum.split)

end
