(* ===== verification/Json.thy ===== *)
theory Json
  imports Prelude
begin

text \<open>
  What the sources use of JSON: \<open>JSON.stringify\<close> as text, the round trip
  \<open>JSON.parse(JSON.stringify(v))\<close> by which they copy a value, the updates of an object, and the
  length of a string in UTF-8. The text of a number is a parameter (\<open>num\<close>), as is the parser.
\<close>

section \<open>Properties of objects\<close>

fun elems :: "js \<Rightarrow> js list" where
  "elems (JArr xs) = xs"
| "elems _ = []"

fun is_array :: "js \<Rightarrow> bool" where
  "is_array (JArr _) = True"
| "is_array _ = False"

fun jset :: "js \<Rightarrow> string \<Rightarrow> js \<Rightarrow> js" where
  \<comment> \<open>\<open>v.k = x\<close> on an object\<close>
  "jset (JObj ps) k x = JObj (obj_put (lit k) x ps)"
| "jset v k x = v"

fun jdel :: "js \<Rightarrow> string \<Rightarrow> js" where
  \<comment> \<open>\<open>delete v.k\<close>\<close>
  "jdel (JObj ps) k = JObj (filter (\<lambda>p. fst p \<noteq> lit k) ps)"
| "jdel v k = v"

definition own :: "js \<Rightarrow> jstr \<Rightarrow> bool" where
  \<comment> \<open>\<open>o != null && Object.hasOwn(o, key)\<close>\<close>
  "own v k \<longleftrightarrow> has_own (entries_of v) k"

lemma is_array_elems: "is_array v \<longleftrightarrow> v = JArr (elems v)"
  by (cases v) auto

lemma jget_jset [simp]: "is_object v \<Longrightarrow> jget (jset v k x) k' = (if k' = k then x else jget v k')"
  by (cases v) auto

lemma map_of_filter_key: "map_of (filter (\<lambda>p. fst p \<noteq> k) ps) k' = (if k' = k then None else map_of ps k')"
  by (induction ps) auto

lemma jget_jdel [simp]: "jget (jdel v k) k' = (if k' = k then JUndef else jget v k')"
  by (cases v) (auto simp: map_of_filter_key)

lemma is_object_jset [simp]: "is_object (jset v k x) = is_object v"
  by (cases v) auto

lemma is_object_jdel [simp]: "is_object (jdel v k) = is_object v"
  by (cases v) auto

lemma own_jset: "is_object v \<Longrightarrow> own (jset v k x) k' \<longleftrightarrow> k' = lit k \<or> own v k'"
  by (cases v) (auto simp: own_def)

lemma own_jdel: "own (jdel v k) k' \<longleftrightarrow> k' \<noteq> lit k \<and> own v k'"
  by (cases v) (auto simp: own_def has_own_def)

lemma is_object_iff: "is_object v \<longleftrightarrow> (\<exists>ps. v = JObj ps)"
  by (cases v) auto

lemma jget_object: "jget v k \<noteq> JUndef \<Longrightarrow> is_object v"
  by (cases v) auto

text \<open>A part of a value is smaller than the value: the measure of recursion into nested values.\<close>

lemma size_map_of: "map_of ps k = Some v \<Longrightarrow> size v < size (JObj ps)"
  by (induction ps) (auto split: if_splits)

lemma size_jget: "is_object v \<Longrightarrow> size (jget v k) < size v"
  using size_map_of by (cases v) (auto split: option.split simp: size_map_of)

lemma size_elems: "x \<in> set (elems v) \<Longrightarrow> size x < size v"
proof (cases v rule: elems.cases)
  case (1 xs)
  assume "x \<in> set (elems v)"
  then have "x \<in> set xs" using 1 by simp
  then have "size x < Suc (size_list size xs)" by (induction xs) auto
  then show ?thesis using 1 by simp
qed auto

lemma size_member: "x \<in> set (elems (jget v k)) \<Longrightarrow> size x < size v"
  by (cases v) (auto dest!: size_elems dest: size_map_of split: option.splits)

section \<open>Copies\<close>

text \<open>\<open>JSON.parse(JSON.stringify(v))\<close>: \<open>undefined\<close> is dropped from objects and \<open>null\<close> in arrays, a
  number that is not finite becomes \<open>null\<close>.\<close>

fun clone :: "js \<Rightarrow> js" where
  "clone JUndef = JNull"
| "clone JNull = JNull"
| "clone (JBool b) = JBool b"
| "clone (JNum n) = (case n of Fin r \<Rightarrow> JNum (Fin r) | _ \<Rightarrow> JNull)"
| "clone (JStr s) = JStr s"
| "clone (JArr xs) = JArr (map clone xs)"
| "clone (JObj ps) = JObj (map (\<lambda>(k, v). (k, clone v)) (filter (\<lambda>p. snd p \<noteq> JUndef) ps))"

text \<open>What a JSON text can hold.\<close>

fun json_value :: "js \<Rightarrow> bool" where
  "json_value JUndef \<longleftrightarrow> False"
| "json_value (JNum n) \<longleftrightarrow> (\<exists>r. n = Fin r)"
| "json_value (JArr xs) \<longleftrightarrow> list_all json_value xs"
| "json_value (JObj ps) \<longleftrightarrow> list_all (\<lambda>(k, v). json_value v) ps"
| "json_value _ \<longleftrightarrow> True"

lemma json_value_obj: "json_value (JObj ps) \<longleftrightarrow> (\<forall>p\<in>set ps. json_value (snd p))"
  by (auto simp: list_all_iff)

lemma clone_json [simp]: "json_value v \<Longrightarrow> clone v = v"
proof (induction v rule: clone.induct)
  case (7 ps)
  have vals: "json_value (snd p)" if "p \<in> set ps" for p
    using 7(2) that by (simp add: json_value_obj del: json_value.simps)
  then have nu: "filter (\<lambda>p. snd p \<noteq> JUndef) ps = ps"
    by (fastforce simp: filter_id_conv)
  have "(\<lambda>(k, v). (k, clone v)) p = p" if "p \<in> set ps" for p
    using "7.IH" [of p "fst p" "snd p"] vals [OF that] that by (simp add: nu case_prod_beta)
  then have "map (\<lambda>(k, v). (k, clone v)) ps = ps" by (rule map_idI)
  then show ?case by (simp add: nu)
qed (auto simp: list_all_iff map_idI)

lemma json_value_clone: "json_value (clone v)"
proof (induction v rule: clone.induct)
  case (7 ps)
  show ?case using 7 by (fastforce simp: list_all_iff)
qed (auto simp: list_all_iff split: jsnum.split)

lemma clone_clone [simp]: "clone (clone v) = clone v"
  by (rule clone_json [OF json_value_clone])

lemma json_value_jget: "json_value v \<Longrightarrow> jget v k \<noteq> JUndef \<Longrightarrow> json_value (jget v k)"
  by (cases v) (auto simp: list_all_iff split: option.splits dest!: map_of_SomeD)

lemma json_value_elems: "json_value v \<Longrightarrow> x \<in> set (elems v) \<Longrightarrow> json_value x"
  by (cases v) (auto simp: list_all_iff)

lemma json_value_member: "json_value v \<Longrightarrow> x \<in> set (elems (jget v k)) \<Longrightarrow> json_value x"
  using json_value_jget [of v k] json_value_elems [of "jget v k" x] by (cases "jget v k = JUndef") auto

lemma json_value_jset: "json_value v \<Longrightarrow> json_value x \<Longrightarrow> json_value (jset v k x)"
proof (cases v)
  case (JObj ps)
  assume "json_value v" "json_value x"
  then have all: "json_value (snd p)" if "p \<in> insert (lit k, x) (set ps)" for p
    using that JObj by (auto simp: list_all_iff)
  have "json_value (snd p)" if "p \<in> set (obj_put (lit k) x ps)" for p
    by (rule all, rule subsetD [OF set_obj_put_subset that])
  then show ?thesis using JObj by (simp add: json_value_obj del: json_value.simps)
qed auto

lemma json_value_jdel: "json_value v \<Longrightarrow> json_value (jdel v k)"
  by (cases v) (auto simp: list_all_iff)

section \<open>Values that were read\<close>

text \<open>What \<open>JSON.parse\<close> returns: nothing is undefined, and every object has its keys once, in the order
  of enumeration. A number may still have overflowed to an infinity, which a copy turns into \<open>null\<close>.\<close>

fun parsed :: "js \<Rightarrow> bool" where
  "parsed JUndef \<longleftrightarrow> False"
| "parsed (JArr xs) \<longleftrightarrow> list_all parsed xs"
| "parsed (JObj ps) \<longleftrightarrow> obj_wf ps \<and> list_all (\<lambda>(k, v). parsed v) ps"
| "parsed _ \<longleftrightarrow> True"

lemma parsed_obj: "parsed (JObj ps) \<longleftrightarrow> obj_wf ps \<and> (\<forall>p\<in>set ps. parsed (snd p))"
  by (auto simp: list_all_iff)

lemma parsed_map_of: "parsed (JObj ps) \<Longrightarrow> map_of ps k = Some v \<Longrightarrow> parsed v"
  by (auto simp: list_all_iff dest!: map_of_SomeD)

lemma parsed_jget: "parsed v \<Longrightarrow> jget v k \<noteq> JUndef \<Longrightarrow> parsed (jget v k)"
  by (cases v) (auto simp del: parsed.simps dest: parsed_map_of split: option.splits)

lemma parsed_elems: "parsed v \<Longrightarrow> x \<in> set (elems v) \<Longrightarrow> parsed x"
  by (cases v) (auto simp: list_all_iff)

lemma parsed_member: "parsed v \<Longrightarrow> x \<in> set (elems (jget v k)) \<Longrightarrow> parsed x"
  using parsed_jget [of v k] parsed_elems [of "jget v k" x] by (cases "jget v k = JUndef") auto

lemma clone_parsed_obj: "parsed (JObj ps) \<Longrightarrow> clone (JObj ps) = JObj (map (\<lambda>(k, v). (k, clone v)) ps)"
proof -
  assume "parsed (JObj ps)"
  then have "filter (\<lambda>p. snd p \<noteq> JUndef) ps = ps" by (fastforce simp: list_all_iff filter_id_conv)
  then show ?thesis by simp
qed

lemma map_of_map_val: "map_of (map (\<lambda>(k, v). (k, f v)) ps) k = map_option f (map_of ps k)"
  by (induction ps) auto

lemma jget_clone:
  "parsed v \<Longrightarrow> jget (clone v) k = (if jget v k = JUndef then JUndef else clone (jget v k))"
proof (cases v)
  case (JNum n)
  then show ?thesis by (cases n) auto
next
  case (JObj ps)
  moreover assume "parsed v"
  moreover have "\<not> parsed JUndef" by simp
  ultimately show ?thesis
    using parsed_map_of [of ps "lit k"]
    by (auto simp: clone_parsed_obj map_of_map_val simp del: clone.simps parsed.simps split: option.split)
qed auto

lemma elems_clone [simp]: "elems (clone v) = map clone (elems v)"
  by (cases v) (auto split: jsnum.split)

lemma is_array_clone [simp]: "is_array (clone v) = is_array v"
  by (cases v) (auto split: jsnum.split)

lemma is_object_clone [simp]: "is_object (clone v) = is_object v"
  by (cases v) (auto split: jsnum.split)

lemma clone_str [simp]: "clone v = JStr s \<longleftrightarrow> v = JStr s"
  by (cases v) (auto split: jsnum.split)

lemma keys_clone: "parsed v \<Longrightarrow> map fst (entries_of (clone v)) = map fst (entries_of v)"
proof (cases v)
  case (JObj ps)
  moreover assume "parsed v"
  ultimately show ?thesis
    by (auto simp: clone_parsed_obj comp_def case_prod_beta simp del: clone.simps parsed.simps)
qed (auto split: jsnum.split)

lemma own_clone: "parsed v \<Longrightarrow> own (clone v) k = own v k"
  using keys_clone [of v] by (metis own_def has_own_def set_map)

lemma parsed_jset: "parsed v \<Longrightarrow> parsed x \<Longrightarrow> parsed (jset v k x)"
proof (cases v)
  case (JObj ps)
  assume "parsed v" "parsed x"
  then have all: "parsed (snd p)" if "p \<in> insert (lit k, x) (set ps)" for p
    using that JObj by (auto simp: list_all_iff)
  have "parsed (snd p)" if "p \<in> set (obj_put (lit k) x ps)" for p
    by (rule all, rule subsetD [OF set_obj_put_subset that])
  then show ?thesis using JObj \<open>parsed v\<close> by (simp add: parsed_obj obj_wf_put del: parsed.simps)
qed auto

lemma obj_wf_filter: "obj_wf ps \<Longrightarrow> obj_wf (filter P ps)"
  unfolding obj_wf_def by (induction ps) auto

lemma parsed_jdel: "parsed v \<Longrightarrow> parsed (jdel v k)"
  by (cases v) (auto simp: parsed_obj obj_wf_filter simp del: parsed.simps)

lemma obj_wf_map_val: "obj_wf (map (\<lambda>(k, v). (k, f v)) ps) = obj_wf ps"
  by (simp add: obj_wf_def comp_def case_prod_beta)

lemma parsed_clone: "parsed v \<Longrightarrow> parsed (clone v)"
proof (induction v)
  case (JArr xs)
  then show ?case by (auto simp: list_all_iff)
next
  case (JObj ps)
  then have "parsed (clone (snd p))" if "p \<in> set ps" for p
    using that JObj.IH [of p "snd p"] by (cases p) (auto simp: parsed_obj simp del: parsed.simps)
  then show ?case
    using JObj.prems
    by (auto simp: clone_parsed_obj parsed_obj obj_wf_map_val case_prod_beta comp_def simp del: clone.simps parsed.simps)
qed (auto split: jsnum.split)

section \<open>Text\<close>

definition hex_digit :: "nat \<Rightarrow> 16 word" where
  "hex_digit d = word_of_nat (if d < 10 then 48 + d else 87 + d)"

definition u_escape :: "16 word \<Rightarrow> jstr" where
  "u_escape c = (let n = unat c in [92, 117] @
     map hex_digit [n div 4096, n div 256 mod 16, n div 16 mod 16, n mod 16])"

definition json_char :: "16 word \<Rightarrow> jstr" where
  "json_char c =
     (if c = 34 then [92, 34] else if c = 92 then [92, 92]
      else if c = 8 then [92, 98] else if c = 9 then [92, 116] else if c = 10 then [92, 110]
      else if c = 12 then [92, 102] else if c = 13 then [92, 114]
      else if unat c < 32 then u_escape c else [c])"

text \<open>A surrogate that is not part of a pair is written as an escape.\<close>

fun json_chars :: "jstr \<Rightarrow> jstr" where
  "json_chars [] = []"
| "json_chars (a # r) =
     (if high_surrogate a \<and> r \<noteq> [] \<and> low_surrogate (hd r) then a # hd r # json_chars (tl r)
      else if high_surrogate a \<or> low_surrogate a then u_escape a @ json_chars r
      else json_char a @ json_chars r)"

definition json_string :: "jstr \<Rightarrow> jstr" where
  "json_string s = 34 # json_chars s @ [34]"

fun stringify :: "(real \<Rightarrow> jstr) \<Rightarrow> js \<Rightarrow> jstr" where
  "stringify num (JBool b) = (if b then lit ''true'' else lit ''false'')"
| "stringify num (JNum n) = (case n of Fin r \<Rightarrow> num r | _ \<Rightarrow> lit ''null'')"
| "stringify num (JStr s) = json_string s"
| "stringify num (JArr xs) = lit ''['' @ join_with (lit '','') (map (stringify num) xs) @ lit '']''"
| "stringify num (JObj ps) = [123] @ join_with (lit '','')
     (map (\<lambda>(k, v). json_string k @ lit '':'' @ stringify num v) (filter (\<lambda>p. snd p \<noteq> JUndef) ps)) @ [125]"
| "stringify num _ = lit ''null''"

text \<open>\<open>String(n)\<close>, \<open>String(b)\<close> and \<open>String(v)\<close> for a JSON value: an array is joined with commas, an object
  with a property \<open>toString\<close> of its own cannot be converted and throws.\<close>

fun num_text :: "(real \<Rightarrow> jstr) \<Rightarrow> jsnum \<Rightarrow> jstr" where
  "num_text num (Fin r) = num r"
| "num_text num PosInf = lit ''Infinity''"
| "num_text num NegInf = lit ''-Infinity''"
| "num_text num NaN = lit ''NaN''"

definition bool_text :: "bool \<Rightarrow> jstr" where
  "bool_text b = (if b then lit ''true'' else lit ''false'')"

fun js_string :: "(real \<Rightarrow> jstr) \<Rightarrow> js \<Rightarrow> jstr option" where
  "js_string num JUndef = Some (lit ''undefined'')"
| "js_string num JNull = Some (lit ''null'')"
| "js_string num (JBool b) = Some (bool_text b)"
| "js_string num (JNum n) = Some (num_text num n)"
| "js_string num (JStr s) = Some s"
| "js_string num (JArr xs) =
     map_option (join_with [44]) (those (map (\<lambda>x. if nullish x then Some [] else js_string num x) xs))"
| "js_string num (JObj ps) = (if has_own ps (lit ''toString'') then None else Some (lit ''[object Object]''))"

text \<open>A value whose text is a word that no number, no keyword, no list of several elements and no object is
  written as, is a string or such a string in brackets, hence a JSON value.\<close>

definition only_strings :: "(real \<Rightarrow> jstr) \<Rightarrow> (jstr \<Rightarrow> bool) \<Rightarrow> bool" where
  "only_strings num P \<longleftrightarrow> (\<forall>r. \<not> P (num r)) \<and> \<not> P [] \<and> (\<forall>s. P s \<longrightarrow> 44 \<notin> set s)
     \<and> list_all (\<lambda>w. \<not> P (lit w)) [''undefined'', ''null'', ''true'', ''false'', ''Infinity'', ''-Infinity'', ''NaN'', ''[object Object]'']"

lemma join_comma: "44 \<in> set (join_with [44] (a # b # ts))"
  by simp

lemma js_string_json:
  assumes P: "only_strings num P"
  shows "js_string num k = Some s \<Longrightarrow> P s \<Longrightarrow> json_value k"
proof (induction k arbitrary: s)
  case (JNum n)
  then show ?case using P by (cases n) (auto simp: only_strings_def)
next
  case (JArr xs)
  obtain ts where ts: "those (map (\<lambda>x. if nullish x then Some [] else js_string num x) xs) = Some ts" "s = join_with [44] ts"
    using JArr(2) by auto
  have s: "s \<noteq> []" "44 \<notin> set s" using P JArr(3) by (auto simp: only_strings_def)
  show ?case
  proof (cases xs rule: remdups_adj.cases)
    case 1
    then show ?thesis by simp
  next
    case (2 x)
    then have "js_string num x = Some s" using ts s by (auto split: if_splits option.splits)
    then show ?thesis using 2 JArr(1) [of x s] JArr(3) by simp
  next
    case (3 x y ys)
    then obtain a b rest where "ts = a # b # rest" using ts(1) by (auto split: option.splits)
    then show ?thesis using join_comma s ts(2) by auto
  qed
qed (use P in \<open>auto simp: only_strings_def bool_text_def split: if_splits\<close>)

definition utf8_units :: "nat \<Rightarrow> nat" where
  "utf8_units n = (if n < 0x80 then 1 else if n < 0x800 then 2 else if n < 0x10000 then 3 else 4)"

definition utf8_length :: "jstr \<Rightarrow> nat" where
  \<comment> \<open>\<open>new TextEncoder().encode(s).length\<close>: a lone surrogate is written as U+FFFD\<close>
  "utf8_length s = sum_list (map utf8_units (codePoints s))"

lemma utf8_length_le: "utf8_length s \<le> 4 * length s"
proof -
  have "sum_list (map utf8_units ns) \<le> 4 * length ns" for ns
    by (induction ns) (auto simp: utf8_units_def)
  from this [of "codePoints s"] show ?thesis
    using codePoints_length [of s] unfolding utf8_length_def by linarith
qed

lemma json_char_length: "length (json_char c) \<le> 6"
  by (simp add: json_char_def u_escape_def Let_def)

lemma json_chars_length: "length (json_chars s) \<le> 6 * length s"
proof (induction s rule: json_chars.induct)
  case (2 a r)
  then show ?case
    using json_char_length [of a] by (cases r) (auto simp: u_escape_def Let_def)
qed simp

lemma json_string_length: "length (json_string s) \<le> 6 * length s + 2"
  using json_chars_length [of s] by (simp add: json_string_def)

definition no_bom :: "jstr \<Rightarrow> jstr" where
  \<comment> \<open>\<open>s.replace(/^\uFEFF/, '')\<close>\<close>
  "no_bom s = (case s of c # r \<Rightarrow> if unat c = 0xFEFF then r else s | [] \<Rightarrow> [])"

end
