(* ===== verification/GeoJson.thy ===== *)
theory GeoJson
  imports Json
begin

text \<open>
  The data of the workbench (\<open>src/cmd/web/geo-workbench.js\<close>): GeoJSON collections as JavaScript
  values, their validation with its limits, the attribute table, the extent shown on the map,
  selection and the edit of one attribute. The operations on whole tables as CSV are in \<open>Csv\<close>.
\<close>

section \<open>Errors\<close>

datatype wb_err =
    NotCollection | HasCrs | TooManyFeatures
  | BadPosition | TooManyPoints | TooFewPoints | OpenRing | NoOuterRing | BadGeometry
  | BadPoints | BadLines | BadPolygons | BadCollection | UnknownGeometry js | BadFeature
  | TooLarge | NotJson | EmptySelection | BadSelection | PickAttribute | NestedAttribute
  | NeedNumber | NeedBoolean
  | CsvTooLarge | CsvTooManyRows | CsvBadQuote | CsvOpenQuote | CsvBadHeader | CsvRagged
  | BadKeyColumns | CsvKeyNotUnique | AttributeExists jstr
  | BadTolerance | NotRegional | TooComplex
  | NoFile | NoLayer | ServerFailed

abbreviation MAX_BYTES :: nat where "MAX_BYTES \<equiv> 10 * 1024 * 1024"
abbreviation MAX_POINTS :: nat where "MAX_POINTS \<equiv> 50000"
abbreviation MAX_FEATURES :: nat where "MAX_FEATURES \<equiv> 5000"

section \<open>Validation\<close>

text \<open>Each check takes the number of positions seen so far and returns the new number.\<close>

definition position_ok :: "js \<Rightarrow> bool" where
  "position_ok p \<longleftrightarrow> is_array p \<and> 2 \<le> length (elems p) \<and> list_all isFinite (elems p)
     \<and> \<bar>num_of (elems p ! 0)\<bar> \<le> 180 \<and> \<bar>num_of (elems p ! 1)\<bar> \<le> 90"

definition position :: "nat \<Rightarrow> js \<Rightarrow> wb_err + nat" where
  "position n p =
     throw_if (\<not> position_ok p) BadPosition (throw_if (MAX_POINTS < Suc n) TooManyPoints (Inr (Suc n)))"

definition ends_meet :: "js list \<Rightarrow> bool" where
  "ends_meet cs \<longleftrightarrow> num_of (elems (hd cs) ! 0) = num_of (elems (last cs) ! 0)
     \<and> num_of (elems (hd cs) ! 1) = num_of (elems (last cs) ! 1)"

definition line :: "bool \<Rightarrow> nat \<Rightarrow> js \<Rightarrow> wb_err + nat" where
  "line ring n coords =
     throw_if (\<not> is_array coords \<or> length (elems coords) < (if ring then 4 else 2)) TooFewPoints
       (bindr (foldr_err position n (elems coords)) (\<lambda>m.
         throw_if (ring \<and> \<not> ends_meet (elems coords)) OpenRing (Inr m)))"

definition polygon :: "nat \<Rightarrow> js \<Rightarrow> wb_err + nat" where
  "polygon n coords =
     throw_if (\<not> is_array coords \<or> elems coords = []) NoOuterRing (foldr_err (line True) n (elems coords))"

definition each :: "wb_err \<Rightarrow> (nat \<Rightarrow> js \<Rightarrow> wb_err + nat) \<Rightarrow> nat \<Rightarrow> js \<Rightarrow> wb_err + nat" where
  \<comment> \<open>\<open>if (!Array.isArray(c)) throw ...; c.forEach(check)\<close>\<close>
  "each e check n c = throw_if (\<not> is_array c) e (foldr_err check n (elems c))"

function geometry :: "nat \<Rightarrow> nat \<Rightarrow> js \<Rightarrow> wb_err + nat" where
  "geometry depth n g =
     (if g = JNull then Inr n
      else if \<not> truthy g \<or> 10 < depth then Inl BadGeometry
      else
        (let c = jget g ''coordinates''; t = jget g ''type''
         in if t = JStr (lit ''Point'') then position n c
            else if t = JStr (lit ''MultiPoint'') then each BadPoints position n c
            else if t = JStr (lit ''LineString'') then line False n c
            else if t = JStr (lit ''MultiLineString'') then each BadLines (line False) n c
            else if t = JStr (lit ''Polygon'') then polygon n c
            else if t = JStr (lit ''MultiPolygon'') then each BadPolygons polygon n c
            else if t = JStr (lit ''GeometryCollection'')
              then each BadCollection (geometry (Suc depth)) n (jget g ''geometries'')
            else Inl (UnknownGeometry t)))"
  by pat_completeness auto
termination by (relation "measure (\<lambda>(depth, n, g). 11 - depth)") auto

declare geometry.simps [simp del]

definition feature_ok :: "js \<Rightarrow> bool" where
  "feature_ok f \<longleftrightarrow> truthy f \<and> jget f ''type'' = JStr (lit ''Feature'') \<and> own f (lit ''geometry'')
     \<and> (nullish (jget f ''properties'') \<or> is_object (jget f ''properties''))"

definition feature_check :: "nat \<Rightarrow> js \<Rightarrow> wb_err + nat" where
  "feature_check n f = throw_if (\<not> feature_ok f) BadFeature (geometry 0 n (jget f ''geometry''))"

abbreviation features :: "js \<Rightarrow> js list" where
  "features d \<equiv> elems (jget d ''features'')"

definition validate :: "js \<Rightarrow> wb_err + nat" where
  "validate d =
     throw_if (\<not> truthy d \<or> jget d ''type'' \<noteq> JStr (lit ''FeatureCollection'') \<or> \<not> is_array (jget d ''features''))
       NotCollection
       (throw_if (truthy (jget d ''crs'')) HasCrs
         (throw_if (MAX_FEATURES < length (features d)) TooManyFeatures
           (foldr_err feature_check 0 (features d))))"

definition parse :: "(jstr \<Rightarrow> js option) \<Rightarrow> jstr \<Rightarrow> wb_err + js" where
  "parse parseJSON source =
     throw_if (MAX_BYTES < utf8_length source) TooLarge
       (case parseJSON (no_bom source) of
          None \<Rightarrow> Inl NotJson
        | Some d \<Rightarrow> bindr (validate d) (\<lambda>_. Inr d))"

section \<open>Attributes\<close>

abbreviation props :: "js \<Rightarrow> js" where
  "props f \<equiv> jget f ''properties''"

definition fields_of :: "js \<Rightarrow> jstr list" where
  "fields_of d = sort (uniq (concat (map (\<lambda>f. map fst (entries_of (props f))) (features d))))"

fun text_of :: "(real \<Rightarrow> jstr) \<Rightarrow> js \<Rightarrow> jstr" where
  "text_of num JUndef = []"
| "text_of num JNull = []"
| "text_of num (JBool b) = bool_text b"
| "text_of num (JNum n) = num_text num n"
| "text_of num (JStr s) = s"
| "text_of num v = stringify num v"

definition matching :: "(real \<Rightarrow> jstr) \<Rightarrow> js \<Rightarrow> jstr \<Rightarrow> jstr \<Rightarrow> nat list" where
  "matching num d field val =
     filter (\<lambda>i. field = []
       \<or> (own (props (features d ! i)) field
          \<and> text_of num (the (map_of (entries_of (props (features d ! i))) field)) = val))
       [0..<length (features d)]"

definition subset_of :: "js \<Rightarrow> int list \<Rightarrow> wb_err + js" where
  "subset_of d indices =
     bindr (mapr (\<lambda>i. throw_if (i < 0 \<or> int (length (features d)) \<le> i) BadSelection
                        (Inr (clone (features d ! nat i)))) indices)
       (\<lambda>fs. Inr (jset (jdel (clone d) ''bbox'') ''features'' (JArr fs)))"

definition select_props :: "jstr list \<Rightarrow> js \<Rightarrow> js" where
  "select_props keep f =
     (let ps = entries_of (props f)
      in jset f ''properties'' (JObj (from_entries
           (map (\<lambda>k. (k, the (map_of ps k))) (filter (has_own ps) keep)))))"

definition selectFields :: "js \<Rightarrow> jstr list \<Rightarrow> js" where
  "selectFields d keep =
     (let r = clone d in jset r ''features'' (JArr (map (select_props keep) (features r))))"

text \<open>The keys every object inherits: reading one that is not an own property gives a function
  (or, for \<open>__proto__\<close>, an object), which no attribute edit accepts.\<close>

definition inherited_keys :: "jstr list" where
  "inherited_keys = map lit [''constructor'', ''__defineGetter__'', ''__defineSetter__'', ''hasOwnProperty'',
     ''__lookupGetter__'', ''__lookupSetter__'', ''isPrototypeOf'', ''propertyIsEnumerable'', ''toString'',
     ''valueOf'', ''__proto__'', ''toLocaleString'']"

fun scalar :: "js \<Rightarrow> bool" where
  "scalar JNull = True"
| "scalar (JStr _) = True"
| "scalar (JNum _) = True"
| "scalar (JBool _) = True"
| "scalar _ = False"

text \<open>The new value of an attribute: typed like the old one. \<open>toNum\<close> is \<open>Number(s)\<close>.\<close>

definition edited_value :: "(jstr \<Rightarrow> jsnum) \<Rightarrow> js \<Rightarrow> jstr \<Rightarrow> wb_err + js" where
  "edited_value toNum previous val =
     (case previous of
        JNum _ \<Rightarrow> throw_if (trim val = [] \<or> \<not> isFinite (JNum (toNum val))) NeedNumber (Inr (JNum (toNum val)))
      | JBool _ \<Rightarrow> throw_if (val \<noteq> lit ''true'' \<and> val \<noteq> lit ''false'') NeedBoolean
                     (Inr (JBool (val = lit ''true'')))
      | JNull \<Rightarrow> Inr (if val = lit ''null'' then JNull else JStr val)
      | _ \<Rightarrow> Inr (JStr val))"

definition put_prop :: "jstr \<Rightarrow> js \<Rightarrow> js \<Rightarrow> js" where
  \<comment> \<open>the feature with its properties, \<open>{}\<close> if it has none, and the attribute put into them\<close>
  "put_prop field v f = jset f ''properties'' (JObj (obj_put field v (entries_of (props f))))"

definition edit :: "(jstr \<Rightarrow> jsnum) \<Rightarrow> js \<Rightarrow> int \<Rightarrow> jstr \<Rightarrow> jstr \<Rightarrow> wb_err + js" where
  "edit toNum d index field val =
     throw_if (index < 0 \<or> int (length (features d)) \<le> index \<or> field \<notin> set (fields_of d)) PickAttribute
       (let f = features d ! nat index;
            known = map_of (entries_of (props f)) field;
            previous = (case known of Some v \<Rightarrow> v | None \<Rightarrow> JUndef)
        in throw_if (known = None \<and> \<not> nullish (props f) \<and> field \<in> set inherited_keys
                     \<or> previous \<noteq> JUndef \<and> \<not> scalar previous) NestedAttribute
             (bindr (edited_value toNum previous val) (\<lambda>v.
                let r = clone d
                in Inr (jset r ''features'' (JArr ((features r)[nat index := put_prop field v (features r ! nat index)]))))))"

section \<open>Extent\<close>

fun coord_points :: "js \<Rightarrow> js list" where
  "coord_points (JArr (JNum n # xs)) = [JArr (JNum n # xs)]"
| "coord_points (JArr xs) = concat (map coord_points xs)"
| "coord_points _ = []"

function geometry_points :: "js \<Rightarrow> js list" where
  "geometry_points g =
     (if \<not> truthy g then []
      else if jget g ''type'' = JStr (lit ''GeometryCollection'')
        then concat (map geometry_points (elems (jget g ''geometries'')))
      else coord_points (jget g ''coordinates''))"
  by pat_completeness auto
termination by (relation "measure size") (auto simp: size_member)

declare geometry_points.simps [simp del]

definition xy :: "js \<Rightarrow> real \<times> real" where
  "xy p = (num_of (elems p ! 0), num_of (elems p ! 1))"

definition clamp :: "real \<Rightarrow> real \<Rightarrow> real \<Rightarrow> real" where
  "clamp lo hi x = max lo (min hi x)"

definition lon_range :: "real list \<Rightarrow> real \<times> real" where
  "lon_range xs =
     (let w = Min (set xs); e = Max (set xs)
      in if 180 < e - w
         then (let ys = map (\<lambda>x. if x < 0 then x + 360 else x) xs; w' = Min (set ys); e' = Max (set ys)
               in if e' - w' < e - w then (w', e') else (w, e))
         else (w, e))"

definition shown_points :: "js \<Rightarrow> (real \<times> real) list" where
  "shown_points d = map xy (concat (map (\<lambda>f. geometry_points (jget f ''geometry'')) (features d)))"

definition bounds :: "js \<Rightarrow> wb_err + ((real \<times> real) \<times> (real \<times> real))" where
  "bounds d =
     (let ps = shown_points d
      in throw_if (ps = []) EmptySelection
        (let (west, east) = lon_range (map fst ps);
             south = clamp (-85) 85 (Min (snd ` set ps)); north = clamp (-85) 85 (Max (snd ` set ps));
             dx = (if west = east then 1 / 1000 else 0); dy = (if south = north then 1 / 1000 else 0)
         in Inr ((west - dx, max (-85) (south - dy)), (east + dx, min 85 (north + dy)))))"

section \<open>What validation accepts\<close>

text \<open>A check that counts: it succeeds on what is \<open>ok\<close> as long as the total stays within the limit, and
  adds how much it has seen. Checks of lists inherit the contract from the check of one item.\<close>

locale counted =
  fixes check :: "nat \<Rightarrow> js \<Rightarrow> wb_err + nat" and ok :: "js \<Rightarrow> bool" and weight :: "js \<Rightarrow> nat"
  assumes exact: "n \<le> MAX_POINTS \<Longrightarrow> check n x = Inr m \<longleftrightarrow> ok x \<and> m = n + weight x \<and> m \<le> MAX_POINTS"
begin

lemma all_exact:
  "n \<le> MAX_POINTS \<Longrightarrow> foldr_err check n xs = Inr m
     \<longleftrightarrow> list_all ok xs \<and> m = n + sum_list (map weight xs) \<and> m \<le> MAX_POINTS"
proof (induction xs arbitrary: n)
  case (Cons x xs)
  have "foldr_err check n (x # xs) = Inr m \<longleftrightarrow> (\<exists>k. check n x = Inr k \<and> foldr_err check k xs = Inr m)"
    by (simp add: bindr_Inr_iff)
  also have "\<dots> \<longleftrightarrow> ok x \<and> n + weight x \<le> MAX_POINTS \<and> foldr_err check (n + weight x) xs = Inr m"
    using exact [OF Cons.prems] by auto
  also have "\<dots> \<longleftrightarrow> list_all ok (x # xs) \<and> m = n + sum_list (map weight (x # xs)) \<and> m \<le> MAX_POINTS"
    using Cons.IH by (cases "n + weight x \<le> MAX_POINTS") (auto simp: add.assoc)
  finally show ?case .
qed auto

lemma each_exact:
  "n \<le> MAX_POINTS \<Longrightarrow> each e check n c = Inr m
     \<longleftrightarrow> is_array c \<and> list_all ok (elems c) \<and> m = n + sum_list (map weight (elems c)) \<and> m \<le> MAX_POINTS"
  by (simp add: each_def throw_if_def all_exact)

end

interpretation positions: counted position position_ok "\<lambda>_. 1"
  by unfold_locales (auto simp: position_def throw_if_def)

lemma sum_ones [simp]: "sum_list (map (\<lambda>_. Suc 0) xs) = length xs"
  by (induction xs) auto

definition line_ok :: "bool \<Rightarrow> js \<Rightarrow> bool" where
  "line_ok ring c \<longleftrightarrow> is_array c \<and> (if ring then 4 else 2) \<le> length (elems c)
     \<and> list_all position_ok (elems c) \<and> (ring \<longrightarrow> ends_meet (elems c))"

interpretation lines: counted "line ring" "line_ok ring" "\<lambda>c. length (elems c)" for ring
proof (unfold_locales)
  fix n m x assume n: "n \<le> MAX_POINTS"
  show "line ring n x = Inr m \<longleftrightarrow> line_ok ring x \<and> m = n + length (elems x) \<and> m \<le> MAX_POINTS"
    using positions.all_exact [OF n, of "elems x"]
    by (auto simp: line_def line_ok_def throw_if_def bindr_Inr_iff)
qed

definition polygon_ok :: "js \<Rightarrow> bool" where
  "polygon_ok c \<longleftrightarrow> is_array c \<and> elems c \<noteq> [] \<and> list_all (line_ok True) (elems c)"

definition points_in :: "js \<Rightarrow> nat" where
  "points_in c = sum_list (map (\<lambda>x. length (elems x)) (elems c))"

interpretation polygons: counted polygon polygon_ok points_in
proof (unfold_locales)
  fix n m x assume n: "n \<le> MAX_POINTS"
  show "polygon n x = Inr m \<longleftrightarrow> polygon_ok x \<and> m = n + points_in x \<and> m \<le> MAX_POINTS"
    using lines.all_exact [OF n, of True "elems x"]
    by (auto simp: polygon_def polygon_ok_def points_in_def throw_if_def)
qed

function geometry_ok :: "nat \<Rightarrow> js \<Rightarrow> bool" where
  "geometry_ok depth g \<longleftrightarrow> g = JNull \<or> (truthy g \<and> depth \<le> 10 \<and>
     (let c = jget g ''coordinates''; t = jget g ''type''; all = (\<lambda>ok. is_array c \<and> list_all ok (elems c))
      in t = JStr (lit ''Point'') \<and> position_ok c
       \<or> t = JStr (lit ''MultiPoint'') \<and> all position_ok
       \<or> t = JStr (lit ''LineString'') \<and> line_ok False c
       \<or> t = JStr (lit ''MultiLineString'') \<and> all (line_ok False)
       \<or> t = JStr (lit ''Polygon'') \<and> polygon_ok c
       \<or> t = JStr (lit ''MultiPolygon'') \<and> all polygon_ok
       \<or> t = JStr (lit ''GeometryCollection'') \<and> is_array (jget g ''geometries'')
           \<and> list_all (geometry_ok (Suc depth)) (elems (jget g ''geometries''))))"
  by pat_completeness auto
termination by (relation "measure (\<lambda>(depth, g). size g)") (auto simp: size_member)

declare geometry_ok.simps [simp del]

function position_count :: "js \<Rightarrow> nat" where
  "position_count g =
     (let c = jget g ''coordinates''; t = jget g ''type''
      in if t = JStr (lit ''Point'') then 1
         else if t = JStr (lit ''MultiPoint'') \<or> t = JStr (lit ''LineString'') then length (elems c)
         else if t = JStr (lit ''MultiLineString'') \<or> t = JStr (lit ''Polygon'') then points_in c
         else if t = JStr (lit ''MultiPolygon'') then sum_list (map points_in (elems c))
         else if t = JStr (lit ''GeometryCollection'')
           then sum_list (map position_count (elems (jget g ''geometries'')))
         else 0)"
  by pat_completeness auto
termination by (relation "measure size") (auto simp: size_member)

declare position_count.simps [simp del]

lemma position_count_null [simp]: "position_count JNull = 0"
  by (simp add: position_count.simps)

lemma geometry_exact:
  "n \<le> MAX_POINTS \<Longrightarrow> geometry depth n g = Inr m
     \<longleftrightarrow> geometry_ok depth g \<and> m = n + position_count g \<and> m \<le> MAX_POINTS"
proof (induction "size g" arbitrary: depth n g m rule: less_induct)
  case less
  note n = less.prems
  let ?t = "jget g ''type''" and ?gs = "jget g ''geometries''"
  consider "g = JNull" | "g \<noteq> JNull" "\<not> truthy g \<or> 10 < depth"
    | "truthy g" "depth \<le> 10" "?t \<noteq> JStr (lit ''GeometryCollection'')"
    | "truthy g" "depth \<le> 10" "?t = JStr (lit ''GeometryCollection'')" by (cases "g = JNull") force+
  then show ?case
  proof cases
    case 1
    then show ?thesis using n by (auto simp: geometry.simps [of depth n] geometry_ok.simps [of depth])
  next
    case 2
    then show ?thesis by (auto simp: geometry.simps [of depth n g] geometry_ok.simps [of depth g])
  next
    case 3
    then show ?thesis
      using n lines.exact [OF n, of False] positions.exact [OF n] polygons.exact [OF n]
        lines.each_exact [OF n, of _ False] positions.each_exact [OF n] polygons.each_exact [OF n]
      by (auto simp: geometry.simps [of depth n g] geometry_ok.simps [of depth g] position_count.simps [of g]
          Let_def points_in_def)
  next
    case 4
    have eq: "foldr_err (geometry (Suc depth)) k xs = Inr m
       \<longleftrightarrow> list_all (geometry_ok (Suc depth)) xs \<and> m = k + sum_list (map position_count xs) \<and> m \<le> MAX_POINTS"
      if "set xs \<subseteq> set (elems ?gs)" "k \<le> MAX_POINTS" for xs k
      using that
    proof (induction xs arbitrary: k)
      case (Cons x xs)
      then have x: "geometry (Suc depth) k x = Inr j
          \<longleftrightarrow> geometry_ok (Suc depth) x \<and> j = k + position_count x \<and> j \<le> MAX_POINTS" for j
        using less.hyps [of x k "Suc depth" j] size_member [of x g "''geometries''"] by auto
      have "foldr_err (geometry (Suc depth)) k (x # xs) = Inr m \<longleftrightarrow> geometry_ok (Suc depth) x
           \<and> k + position_count x \<le> MAX_POINTS \<and> foldr_err (geometry (Suc depth)) (k + position_count x) xs = Inr m"
        using x by (auto simp: bindr_Inr_iff)
      also have "\<dots> \<longleftrightarrow> list_all (geometry_ok (Suc depth)) (x # xs)
           \<and> m = k + sum_list (map position_count (x # xs)) \<and> m \<le> MAX_POINTS"
        using Cons.IH [of "k + position_count x"] Cons.prems
        by (cases "k + position_count x \<le> MAX_POINTS") (auto simp: add.assoc)
      finally show ?case .
    qed auto
    have t: "JStr (lit ''GeometryCollection'') \<noteq> JStr (lit s) \<longleftrightarrow> s \<noteq> ''GeometryCollection''" for s by auto
    show ?thesis
      using 4 n eq [of "elems ?gs" n]
      by (auto simp: geometry.simps [of depth n g] geometry_ok.simps [of depth g] position_count.simps [of g] each_def
          throw_if_def Let_def)
  qed
qed

interpretation geometries: counted "geometry depth" "geometry_ok depth" position_count for depth
  by unfold_locales (rule geometry_exact)

definition feature_valid :: "js \<Rightarrow> bool" where
  "feature_valid f \<longleftrightarrow> feature_ok f \<and> geometry_ok 0 (jget f ''geometry'')"

abbreviation feature_points :: "js \<Rightarrow> nat" where
  "feature_points f \<equiv> position_count (jget f ''geometry'')"

interpretation feature_checks: counted feature_check feature_valid feature_points
  by unfold_locales (auto simp: feature_check_def feature_valid_def throw_if_def geometry_exact)

definition collection_ok :: "js \<Rightarrow> bool" where
  "collection_ok d \<longleftrightarrow> truthy d \<and> jget d ''type'' = JStr (lit ''FeatureCollection'')
     \<and> is_array (jget d ''features'') \<and> \<not> truthy (jget d ''crs'')
     \<and> length (features d) \<le> MAX_FEATURES \<and> list_all feature_valid (features d)
     \<and> sum_list (map feature_points (features d)) \<le> MAX_POINTS"

lemma validate_Inr:
  "validate d = Inr n \<longleftrightarrow> collection_ok d \<and> n = sum_list (map feature_points (features d))"
  using feature_checks.all_exact [of 0 "features d" n]
  by (auto simp: validate_def collection_ok_def throw_if_def not_less)

section \<open>Operations keep collections valid\<close>

lemma isFinite_clone: "isFinite x \<Longrightarrow> clone x = x"
  by (cases x rule: isFinite.cases) auto

lemma finite_clone: "list_all isFinite xs \<Longrightarrow> map clone xs = xs"
  by (rule map_idI) (auto simp: list_all_iff isFinite_clone)

lemma jget_str_object: "jget v k = JStr x \<Longrightarrow> is_object v"
  by (cases v) auto

lemma array_clone: "is_array c \<Longrightarrow> map clone (elems c) = elems c \<Longrightarrow> clone c = c"
  by (cases c) auto

lemma position_clone: "position_ok p \<Longrightarrow> clone p = p"
  unfolding position_ok_def by (intro array_clone finite_clone) auto

lemma list_clone: "is_array c \<Longrightarrow> list_all ok (elems c) \<Longrightarrow> (\<And>x. ok x \<Longrightarrow> clone x = x) \<Longrightarrow> clone c = c"
  by (rule array_clone, assumption, rule map_idI) (simp add: list_all_iff)

lemma line_clone: "line_ok ring c \<Longrightarrow> clone c = c"
  by (rule list_clone [of c position_ok]) (auto simp: line_ok_def position_clone)

lemma polygon_clone: "polygon_ok c \<Longrightarrow> clone c = c"
  by (rule list_clone [of c "line_ok True"]) (auto simp: polygon_ok_def line_clone)

lemma position_is_array: "position_ok p \<Longrightarrow> is_array p"
  by (simp add: position_ok_def)

lemma line_is_array: "line_ok ring c \<Longrightarrow> is_array c"
  by (simp add: line_ok_def)

lemma polygon_is_array: "polygon_ok c \<Longrightarrow> is_array c"
  by (simp add: polygon_ok_def)

lemmas coordinates_clone = position_clone line_clone [of False] polygon_clone
  list_clone [OF _ _ position_clone] list_clone [OF _ _ line_clone [of False]] list_clone [OF _ _ polygon_clone]

lemma array_not_undef: "is_array v \<Longrightarrow> v \<noteq> JUndef"
  by (cases v) auto

lemma truthy_object: "is_object v \<Longrightarrow> truthy v"
  by (cases v) auto

lemma geometry_clone:
  "parsed g \<Longrightarrow> geometry_ok depth g \<Longrightarrow> geometry_ok depth (clone g) \<and> position_count (clone g) = position_count g"
proof (induction "size g" arbitrary: depth g rule: less_induct)
  case less
  show ?case
  proof (cases "g = JNull")
    case True
    then show ?thesis by (simp add: geometry_ok.simps [of depth JNull])
  next
    case False
    let ?t = "jget g ''type''" and ?c = "jget g ''coordinates''" and ?gs = "jget g ''geometries''"
    have g: "truthy g" "depth \<le> 10" and obj: "is_object g"
      using less.prems(2) False by (auto simp: geometry_ok.simps [of depth g] Let_def dest: jget_str_object)
    have obj': "truthy (clone g)" using obj by (simp add: truthy_object)
    have t: "jget (clone g) ''type'' = JStr x \<longleftrightarrow> ?t = JStr x" for x
      using less.prems(1) by (simp add: jget_clone)
    show ?thesis
    proof (cases "?t = JStr (lit ''GeometryCollection'')")
      case True
      then have gs: "is_array ?gs" "list_all (geometry_ok (Suc depth)) (elems ?gs)"
        using less.prems(2) False by (auto simp: geometry_ok.simps [of depth g] Let_def)
      have IH: "geometry_ok (Suc depth) (clone x) \<and> position_count (clone x) = position_count x"
        if "x \<in> set (elems ?gs)" for x
        using less.hyps [OF size_member [OF that]] parsed_member [OF less.prems(1) that] gs(2) that
        by (auto simp: list_all_iff)
      have gs': "jget (clone g) ''geometries'' = clone ?gs"
        using less.prems(1) gs(1) by (simp add: jget_clone array_not_undef)
      have "list_all (geometry_ok (Suc depth)) (map clone (elems ?gs))"
        using IH by (simp add: list_all_iff)
      moreover have "sum_list (map (position_count \<circ> clone) (elems ?gs)) = sum_list (map position_count (elems ?gs))"
        using IH by (intro arg_cong [where f = sum_list] map_cong) auto
      ultimately show ?thesis
        using True g obj' gs(1)
        by (auto simp: geometry_ok.simps [of depth "clone g"] position_count.simps [of "clone g"]
            position_count.simps [of g] t gs' Let_def)
    next
      case nc: False
      have "?c \<noteq> JUndef \<and> clone ?c = ?c"
        using less.prems(2) False nc
        by (auto simp: geometry_ok.simps [of depth g] Let_def dest: position_is_array line_is_array polygon_is_array
            array_not_undef intro: coordinates_clone)
      then have c: "jget (clone g) ''coordinates'' = ?c"
        using less.prems(1) by (simp add: jget_clone)
      show ?thesis
        using less.prems(2) False nc g obj'
        by (auto simp: geometry_ok.simps [of depth "clone g"] geometry_ok.simps [of depth g]
            position_count.simps [of "clone g"] position_count.simps [of g] t c Let_def)
    qed
  qed
qed

lemma feature_object: "feature_ok f \<Longrightarrow> is_object f"
  by (auto simp: feature_ok_def dest: jget_str_object)

lemma nullish_clone: "nullish v \<Longrightarrow> v \<noteq> JUndef \<Longrightarrow> nullish (clone v)"
  by (cases v) auto

lemma geometry_defined: "geometry_ok depth g \<Longrightarrow> g \<noteq> JUndef"
  by (auto simp: geometry_ok.simps)

lemma feature_clone:
  assumes "parsed f" "feature_valid f"
  shows "feature_valid (clone f) \<and> feature_points (clone f) = feature_points f"
proof -
  have ok: "feature_ok f" "geometry_ok 0 (jget f ''geometry'')"
    using assms(2) by (auto simp: feature_valid_def)
  have g: "jget (clone f) ''geometry'' = clone (jget f ''geometry'')"
    using assms(1) geometry_defined [OF ok(2)] by (simp add: jget_clone)
  have "feature_ok (clone f)"
    using ok(1) assms(1) feature_object [OF ok(1)]
    by (auto simp: feature_ok_def jget_clone own_clone truthy_object nullish_clone)
  then show ?thesis
    using geometry_clone [OF parsed_jget [OF assms(1)] ok(2)] geometry_defined [OF ok(2)]
    by (simp add: feature_valid_def g)
qed

lemma feature_put:
  assumes "feature_valid f"
  shows "feature_valid (jset f ''properties'' (JObj ps))"
    "feature_points (jset f ''properties'' (JObj ps)) = feature_points f"
  using assms feature_object [of f]
  by (auto simp: feature_valid_def feature_ok_def own_jset truthy_object)

lemma collection_object: "collection_ok d \<Longrightarrow> is_object d"
  by (auto simp: collection_ok_def dest: jget_str_object)

lemma collection_put:
  assumes "collection_ok d" "list_all feature_valid fs" "length fs \<le> MAX_FEATURES"
    "sum_list (map feature_points fs) \<le> MAX_POINTS"
  shows "collection_ok (jset d ''features'' (JArr fs))"
  using assms collection_object [OF assms(1)] by (auto simp: collection_ok_def truthy_object)

lemma collection_jdel: "collection_ok d \<Longrightarrow> collection_ok (jdel d ''bbox'')"
  using collection_object [of d] by (auto simp: collection_ok_def truthy_object)

lemma falsy_clone: "\<not> truthy v \<Longrightarrow> \<not> truthy (clone v)"
  by (cases v) (auto split: jsnum.split)

lemma features_clone: "parsed d \<Longrightarrow> features (clone d) = map clone (features d)"
  by (simp add: jget_clone)

lemma feature_parsed: "parsed d \<Longrightarrow> f \<in> set (features d) \<Longrightarrow> parsed f"
  by (rule parsed_member)

lemma clones_valid:
  assumes "collection_ok d" "parsed d" "set fs \<subseteq> set (features d)"
  shows "list_all feature_valid (map clone fs)"
    "sum_list (map feature_points (map clone fs)) = sum_list (map feature_points fs)"
proof -
  have "feature_valid (clone f) \<and> feature_points (clone f) = feature_points f" if "f \<in> set fs" for f
    using that assms feature_clone [OF feature_parsed [OF assms(2)]]
    by (auto simp: collection_ok_def list_all_iff)
  then show "list_all feature_valid (map clone fs)"
    "sum_list (map feature_points (map clone fs)) = sum_list (map feature_points fs)"
    by (auto simp: list_all_iff intro: arg_cong [where f = sum_list])
qed

lemma collection_clone:
  assumes "collection_ok d" "parsed d"
  shows "collection_ok (clone d)"
proof -
  have "truthy (clone d)" using collection_object [OF assms(1)] by (simp add: truthy_object)
  moreover have "\<not> truthy (jget (clone d) ''crs'')"
    using assms falsy_clone by (auto simp: jget_clone collection_ok_def)
  moreover have "is_array (jget (clone d) ''features'')"
    using assms by (auto simp: jget_clone collection_ok_def)
  ultimately show ?thesis
    using assms clones_valid [OF assms subset_refl] features_clone [OF assms(2)]
    by (auto simp: collection_ok_def jget_clone)
qed

lemma sum_of_part:
  fixes w :: "'a \<Rightarrow> nat"
  assumes "distinct is" "\<forall>i\<in>set is. i < length xs"
  shows "sum_list (map (\<lambda>i. w (xs ! i)) is) \<le> sum_list (map w xs)" "length is \<le> length xs"
proof -
  have sub: "set is \<subseteq> {..<length xs}" using assms(2) by auto
  have "sum_list (map (\<lambda>i. w (xs ! i)) is) = (\<Sum>i\<in>set is. w (xs ! i))"
    using assms(1) by (simp add: sum_list_distinct_conv_sum_set)
  also have "\<dots> \<le> (\<Sum>i<length xs. w (xs ! i))" using sub by (intro sum_mono2) auto
  also have "\<dots> = sum_list (map w xs)"
    by (simp add: sum_list_sum_nth lessThan_atLeast0)
  finally show "sum_list (map (\<lambda>i. w (xs ! i)) is) \<le> sum_list (map w xs)" .
  have "card (set is) \<le> card {..<length xs}" using sub by (intro card_mono) auto
  then show "length is \<le> length xs" using distinct_card [OF assms(1)] by simp
qed

lemma mapr_ok: "\<forall>x\<in>set xs. f x = Inr (g x) \<Longrightarrow> mapr f xs = Inr (map g xs)"
  by (induction xs) auto

lemma subset_Inr:
  assumes "collection_ok d" "parsed d" "distinct is" "\<forall>i\<in>set is. i < length (features d)"
  shows "\<exists>r. subset_of d (map int is) = Inr r \<and> collection_ok r \<and> parsed r
    \<and> features r = map (\<lambda>i. clone (features d ! i)) is"
proof -
  let ?fs = "map (\<lambda>i. clone (features d ! i)) is" and ?r = "jdel (clone d) ''bbox''"
  let ?sel = "map (\<lambda>i. features d ! i) is"
  have "mapr (\<lambda>i. throw_if (i < 0 \<or> int (length (features d)) \<le> i) BadSelection (Inr (clone (features d ! nat i))))
      (map int is) = Inr (map (\<lambda>i. clone (features d ! nat i)) (map int is))"
    using assms(4) by (intro mapr_ok) auto
  then have eq: "subset_of d (map int is) = Inr (jset ?r ''features'' (JArr ?fs))"
    by (simp add: subset_of_def comp_def)
  have fs: "?fs = map clone ?sel" by (simp add: comp_def)
  have "set ?sel \<subseteq> set (features d)" using assms(4) by auto
  note c = clones_valid [OF assms(1,2) this]
  have len: "length ?fs \<le> MAX_FEATURES"
    using sum_of_part(2) [OF assms(3,4)] assms(1) by (simp add: collection_ok_def)
  have pts: "sum_list (map feature_points (map clone ?sel)) \<le> MAX_POINTS"
    unfolding c(2) using sum_of_part(1) [OF assms(3,4), of feature_points] assms(1)
    by (simp add: collection_ok_def comp_def)
  have "collection_ok ?r" by (rule collection_jdel [OF collection_clone [OF assms(1,2)]])
  from collection_put [OF this c(1)] len pts have ok: "collection_ok (jset ?r ''features'' (JArr ?fs))"
    unfolding fs by simp
  have "parsed (JArr ?fs)"
    using assms(2,4) by (auto simp: list_all_iff intro!: parsed_clone intro: feature_parsed)
  then have "parsed (jset ?r ''features'' (JArr ?fs))"
    using assms(2) by (intro parsed_jset parsed_jdel parsed_clone)
  moreover have "features (jset ?r ''features'' (JArr ?fs)) = ?fs"
    using collection_object [OF assms(1)] by simp
  ultimately show ?thesis using eq ok by blast
qed

lemma map_features_ok:
  assumes "collection_ok d" "parsed d"
    and "\<And>f. feature_valid f \<Longrightarrow> parsed f \<Longrightarrow> feature_valid (h f) \<and> parsed (h f) \<and> feature_points (h f) = feature_points f"
  shows "collection_ok (jset (clone d) ''features'' (JArr (map h (features (clone d)))))"
    "parsed (jset (clone d) ''features'' (JArr (map h (features (clone d)))))"
proof -
  have d: "collection_ok (clone d)" "parsed (clone d)"
    using assms collection_clone parsed_clone by auto
  have f: "feature_valid f \<and> parsed f" if "f \<in> set (features (clone d))" for f
    using that d feature_parsed by (auto simp: collection_ok_def list_all_iff)
  have "sum_list (map feature_points (map h (features (clone d)))) = sum_list (map feature_points (features (clone d)))"
    using f assms(3) unfolding map_map by (intro arg_cong [where f = sum_list] map_cong) auto
  with d(1) have "sum_list (map feature_points (map h (features (clone d)))) \<le> MAX_POINTS"
    by (simp add: collection_ok_def)
  then show "collection_ok (jset (clone d) ''features'' (JArr (map h (features (clone d)))))"
    using d(1) f assms(3)
    by (intro collection_put) (auto simp: list_all_iff collection_ok_def)
  show "parsed (jset (clone d) ''features'' (JArr (map h (features (clone d)))))"
    using d(2) f assms(3) by (intro parsed_jset) (auto simp: list_all_iff)
qed

lemma props_parsed: "parsed f \<Longrightarrow> p \<in> set (entries_of (props f)) \<Longrightarrow> parsed (snd p)"
  using parsed_jget [of f "''properties''"] by (cases "props f") (auto simp: list_all_iff)

lemma entries_parsed: "parsed f \<Longrightarrow> obj_wf (entries_of (props f))"
  using parsed_jget [of f "''properties''"] by (cases "props f") auto

lemma set_from_entries: "p \<in> set (from_entries es) \<Longrightarrow> p \<in> set es"
  unfolding from_entries_def
proof (induction es rule: rev_induct)
  case (snoc e es)
  then show ?case using set_obj_put_subset [of "fst e" "snd e"] by (cases e) auto
qed simp

lemma select_props_ok:
  assumes "feature_valid f" "parsed f"
  shows "feature_valid (select_props keep f) \<and> parsed (select_props keep f)
    \<and> feature_points (select_props keep f) = feature_points f"
proof -
  have "parsed (snd p)" if "p \<in> set (from_entries (map (\<lambda>k. (k, the (map_of (entries_of (props f)) k)))
      (filter (has_own (entries_of (props f))) keep)))" for p
    using set_from_entries [OF that] props_parsed [OF assms(2)] map_of_SomeD
    by (fastforce simp: has_own_map_of)
  then have "parsed (select_props keep f)"
    using assms(2) unfolding select_props_def Let_def
    by (intro parsed_jset) (auto simp: parsed_obj obj_wf_from_entries simp del: parsed.simps)
  then show ?thesis using feature_put [OF assms(1)] by (simp add: select_props_def Let_def)
qed

lemma selectFields_ok:
  assumes "collection_ok d" "parsed d"
  shows "collection_ok (selectFields d keep)" "parsed (selectFields d keep)"
  using map_features_ok [OF assms select_props_ok] by (simp_all add: selectFields_def Let_def)

lemma put_prop_ok:
  assumes "feature_valid f" "parsed f" "parsed v"
  shows "feature_valid (put_prop k v f) \<and> parsed (put_prop k v f) \<and> feature_points (put_prop k v f) = feature_points f"
proof -
  have all: "parsed (snd p)" if "p \<in> insert (k, v) (set (entries_of (props f)))" for p
    using that assms(3) props_parsed [OF assms(2), of p] by auto
  have "parsed (snd p)" if "p \<in> set (obj_put k v (entries_of (props f)))" for p
    by (rule all, rule subsetD [OF set_obj_put_subset that])
  then have "parsed (put_prop k v f)"
    using assms(2) unfolding put_prop_def
    by (intro parsed_jset) (auto simp: parsed_obj obj_wf_put entries_parsed simp del: parsed.simps)
  then show ?thesis using feature_put [OF assms(1)] by (simp add: put_prop_def)
qed

lemma edited_parsed: "parsed p \<or> p = JUndef \<Longrightarrow> edited_value toNum p v = Inr x \<Longrightarrow> parsed x"
  by (cases p) (auto simp: edited_value_def throw_if_def split: if_splits)

lemma edit_Inr:
  assumes "edit toNum d index field val = Inr r"
  obtains v where "0 \<le> index" "nat index < length (features d)" "field \<in> set (fields_of d)"
    "edited_value toNum (case map_of (entries_of (props (features d ! nat index))) field of Some v \<Rightarrow> v | None \<Rightarrow> JUndef) val = Inr v"
    "r = jset (clone d) ''features''
       (JArr ((features (clone d))[nat index := put_prop field v (features (clone d) ! nat index)]))"
  using assms by (auto simp: edit_def Let_def throw_if_def bindr_Inr_iff split: if_splits)

lemma list_all_update: "list_all P xs \<Longrightarrow> P x \<Longrightarrow> list_all P (xs[i := x])"
  using set_update_subset_insert [of xs i x] by (auto simp: list_all_iff)

lemma map_put_same: "i < length xs \<Longrightarrow> f x = f (xs ! i) \<Longrightarrow> map f (xs[i := x]) = map f xs"
  by (simp add: map_update list_update_same_conv)

lemma edit_ok:
  assumes "collection_ok d" "parsed d" "edit toNum d index field val = Inr r"
  shows "collection_ok r \<and> parsed r"
proof -
  obtain v where v: "nat index < length (features d)"
    "edited_value toNum (case map_of (entries_of (props (features d ! nat index))) field of Some v \<Rightarrow> v | None \<Rightarrow> JUndef) val = Inr v"
    "r = jset (clone d) ''features''
       (JArr ((features (clone d))[nat index := put_prop field v (features (clone d) ! nat index)]))"
    using edit_Inr [OF assms(3)] by metis
  have d: "collection_ok (clone d)" "parsed (clone d)" using assms(1,2) collection_clone parsed_clone by auto
  have len: "nat index < length (features (clone d))" using v(1) assms(2) by (simp add: features_clone)
  let ?f = "features (clone d) ! nat index"
  have f: "feature_valid ?f" "parsed ?f"
    using len d feature_parsed [OF d(2)] by (auto simp: collection_ok_def list_all_length)
  have "parsed (features d ! nat index)" using feature_parsed [OF assms(2)] v(1) by simp
  then have "parsed v"
    by (intro edited_parsed [OF _ v(2)]) (auto split: option.split dest!: map_of_SomeD dest: props_parsed)
  note p = put_prop_ok [OF f this, of field]
  have "collection_ok r"
    unfolding v(3)
    using d(1) p len
    by (intro collection_put) (auto simp: collection_ok_def list_all_update map_put_same simp del: map_update)
  moreover have "list_all parsed (features (clone d))"
    using d(2) feature_parsed by (auto simp: list_all_iff)
  then have "parsed r"
    unfolding v(3) using d(2) p by (intro parsed_jset) (auto simp: list_all_update)
  ultimately show ?thesis by blast
qed

section \<open>The extent covers the selection\<close>

lemma lon_range_covers:
  assumes "lon_range xs = (w, e)" "x \<in> set xs"
  shows "\<exists>k\<in>{0, 1}. w \<le> x + 360 * k \<and> x + 360 * k \<le> e"
proof -
  let ?sh = "\<lambda>x. if x < 0 then x + 360 else x :: real"
  let ?ys = "map ?sh xs"
  consider "w = Min (set xs)" "e = Max (set xs)" | "w = Min (set ?ys)" "e = Max (set ?ys)"
    using assms(1) by (auto simp: lon_range_def Let_def split: if_splits)
  then show ?thesis
  proof cases
    case 1
    then show ?thesis using assms(2) by auto
  next
    case 2
    have "?sh x \<in> set ?ys" using assms(2) by auto
    then have "w \<le> ?sh x" "?sh x \<le> e" unfolding 2 by simp_all
    then show ?thesis by (auto split: if_splits)
  qed
qed

lemma clamp_mono: "x \<le> y \<Longrightarrow> clamp a b x \<le> clamp a b y"
  by (auto simp: clamp_def)

lemma clamp_in: "a \<le> b \<Longrightarrow> a \<le> clamp a b x \<and> clamp a b x \<le> b"
  by (auto simp: clamp_def)

text \<open>The extent the map zooms to covers every position of the selection: its longitude, possibly
  shifted by one turn where the selection crosses the date line, and its latitude, limited to 85
  degrees; and it is never empty, even for a single point.\<close>

theorem bounds_cover:
  assumes "bounds d = Inr ((w, s), (e, n))" "p \<in> set (shown_points d)"
  shows "(\<exists>k\<in>{0, 1}. w \<le> fst p + 360 * k \<and> fst p + 360 * k \<le> e)
    \<and> s \<le> clamp (-85) 85 (snd p) \<and> clamp (-85) 85 (snd p) \<le> n \<and> w < e \<and> s < n"
proof -
  obtain west east where we: "lon_range (map fst (shown_points d)) = (west, east)" by fastforce
  define south where "south = clamp (-85) 85 (Min (snd ` set (shown_points d)))"
  define north where "north = clamp (-85) 85 (Max (snd ` set (shown_points d)))"
  have eqs: "w = west - (if west = east then 1 / 1000 else 0)" "e = east + (if west = east then 1 / 1000 else 0)"
    "s = max (-85) (south - (if south = north then 1 / 1000 else 0))"
    "n = min 85 (north + (if south = north then 1 / 1000 else 0))"
    using assms(1) we by (auto simp: bounds_def Let_def throw_if_def south_def north_def split: if_splits)
  have "fst p \<in> set (map fst (shown_points d))" using assms(2) by auto
  from lon_range_covers [OF we this] obtain k where k: "k \<in> {0, 1}" "west \<le> fst p + 360 * k" "fst p + 360 * k \<le> east"
    by blast
  have sp: "snd p \<in> snd ` set (shown_points d)" using assms(2) by auto
  have lat: "south \<le> clamp (-85) 85 (snd p)" "clamp (-85) 85 (snd p) \<le> north"
    unfolding south_def north_def using Min_le [OF _ sp] Max_ge [OF _ sp] by (simp_all add: clamp_mono)
  have range: "-85 \<le> south" "south \<le> 85" "-85 \<le> north" "north \<le> 85"
    using clamp_in [of "-85" 85] by (auto simp: south_def north_def)
  have "w < e" using k eqs by (auto split: if_splits)
  moreover have "s < n" using lat range eqs by (auto split: if_splits)
  moreover have "s \<le> clamp (-85) 85 (snd p)" "clamp (-85) 85 (snd p) \<le> n"
    using lat range eqs clamp_in [of "-85" 85 "snd p"] by auto
  moreover have "w \<le> fst p + 360 * k" "fst p + 360 * k \<le> e" using k eqs by auto
  ultimately show ?thesis using k(1) by blast
qed

text \<open>A collection of one point with one attribute.\<close>

definition point_feature :: "(jstr \<times> js) list \<Rightarrow> real \<Rightarrow> real \<Rightarrow> js" where
  "point_feature ps x y = JObj [(lit ''type'', JStr (lit ''Feature'')), (lit ''properties'', JObj ps),
     (lit ''geometry'', JObj [(lit ''type'', JStr (lit ''Point'')), (lit ''coordinates'', JArr [JNum (Fin x), JNum (Fin y)])])]"

definition collection_of :: "js list \<Rightarrow> js" where
  "collection_of fs = JObj [(lit ''type'', JStr (lit ''FeatureCollection'')), (lit ''features'', JArr fs)]"

lemma point_feature_parts [simp]:
  "jget (point_feature ps x y) ''type'' = JStr (lit ''Feature'')" "props (point_feature ps x y) = JObj ps"
  "jget (jget (point_feature ps x y) ''geometry'') ''type'' = JStr (lit ''Point'')"
  "jget (jget (point_feature ps x y) ''geometry'') ''coordinates'' = JArr [JNum (Fin x), JNum (Fin y)]"
  "truthy (jget (point_feature ps x y) ''geometry'')" "own (point_feature ps x y) (lit ''geometry'')"
  "truthy (point_feature ps x y)" "jget (point_feature ps x y) ''geometry'' \<noteq> JNull"
  by (simp_all add: point_feature_def own_def has_own_def)

lemma collection_of_parts [simp]:
  "jget (collection_of fs) ''type'' = JStr (lit ''FeatureCollection'')" "jget (collection_of fs) ''features'' = JArr fs"
  "jget (collection_of fs) ''crs'' = JUndef" "truthy (collection_of fs)"
  by (simp_all add: collection_of_def)

lemma point_feature_points: "geometry_points (jget (point_feature ps x y) ''geometry'') = [JArr [JNum (Fin x), JNum (Fin y)]]"
  by (simp add: geometry_points.simps)

lemma point_feature_valid: "\<bar>x\<bar> \<le> 180 \<Longrightarrow> \<bar>y\<bar> \<le> 90 \<Longrightarrow> feature_valid (point_feature ps x y)"
  "feature_points (point_feature ps x y) = 1"
  by (simp_all add: feature_valid_def feature_ok_def geometry_ok.simps position_count.simps position_ok_def Let_def)

theorem bounds_cover_witness:
  "shown_points (collection_of [point_feature [] 9 51]) = [(9, 51)]
   \<and> 51 - 1 / 1000 \<le> clamp (-85) 85 51 \<and> clamp (-85) 85 51 \<le> 51 + 1 / 1000"
proof -
  let ?d = "collection_of [point_feature [] 9 51]"
  have ps: "shown_points ?d = [(9, 51)]" by (simp add: shown_points_def point_feature_points xy_def)
  have "bounds ?d = Inr ((9 - 1 / 1000, 51 - 1 / 1000), (9 + 1 / 1000, 51 + 1 / 1000))"
    by (simp add: bounds_def ps lon_range_def clamp_def throw_if_def Let_def)
  from bounds_cover [OF this, of "(9, 51)"] show ?thesis by (simp add: ps)
qed

end
