(* ===== verification/Csv.thy ===== *)
theory Csv
  imports GeoJson
begin

text \<open>
  Tables as CSV in the workbench (\<open>src/cmd/web/geo-workbench.js\<close>): the reader \<open>parseCSV\<close> as the
  state machine it is, the join of a table to a collection by a key column, and the export
  \<open>toCSV\<close>, which neutralises what a spreadsheet would take for a formula.
\<close>

section \<open>Reading\<close>

record csv_state =
  crows :: "jstr list list"
  crow :: "jstr list"
  ccell :: jstr
  cquoted :: bool
  cclosed :: bool
  cstart :: bool

definition finishCell :: "csv_state \<Rightarrow> csv_state" where
  "finishCell st = st\<lparr>crow := crow st @ [ccell st], ccell := [], cclosed := False, cstart := True\<rparr>"

definition add_row :: "jstr list list \<Rightarrow> jstr list \<Rightarrow> wb_err + jstr list list" where
  "add_row rows r =
     (let rows' = (if list_ex (\<lambda>x. x \<noteq> []) r then rows @ [r] else rows)
      in throw_if (10001 < length rows') CsvTooManyRows (Inr rows'))"

definition finishRow :: "csv_state \<Rightarrow> wb_err + csv_state" where
  "finishRow st =
     (let st' = finishCell st
      in bindr (add_row (crows st') (crow st')) (\<lambda>rows. Inr (st'\<lparr>crows := rows, crow := []\<rparr>)))"

fun scan :: "jstr \<Rightarrow> csv_state \<Rightarrow> wb_err + csv_state" where
  "scan [] st = Inr st"
| "scan (c # cs) st =
     (if cquoted st then
        (if c = 34 then
           (if cs \<noteq> [] \<and> hd cs = 34 then scan (tl cs) (st\<lparr>ccell := ccell st @ [34]\<rparr>)
            else scan cs (st\<lparr>cquoted := False, cclosed := True\<rparr>))
         else scan cs (st\<lparr>ccell := ccell st @ [c]\<rparr>))
      else if c = 44 then scan cs (finishCell st)
      else if c = 13 \<or> c = 10 then
        bindr (finishRow st) (scan (if c = 13 \<and> cs \<noteq> [] \<and> hd cs = 10 then tl cs else cs))
      else if c = 34 \<and> cstart st then scan cs (st\<lparr>cquoted := True, cstart := False\<rparr>)
      else if cclosed st \<or> c = 34 then Inl CsvBadQuote
      else scan cs (st\<lparr>ccell := ccell st @ [c], cstart := False\<rparr>))"

record csv =
  header :: "jstr list"
  csv_rows :: "(jstr \<times> jstr) list list"

definition csv_table :: "jstr list list \<Rightarrow> wb_err + csv" where
  "csv_table rows =
     (case rows of
        [] \<Rightarrow> Inl CsvBadHeader
      | h # rs \<Rightarrow>
          throw_if (h = [] \<or> list_ex (\<lambda>x. trim x = []) h \<or> \<not> distinct h \<or> 100 < length h) CsvBadHeader
            (throw_if (list_ex (\<lambda>r. length r \<noteq> length h) rs) CsvRagged
              (Inr \<lparr>header = h, csv_rows = map (\<lambda>r. from_entries (zip h r)) rs\<rparr>)))"

definition fresh :: "jstr list list \<Rightarrow> jstr list \<Rightarrow> csv_state" where
  "fresh rows row = \<lparr>crows = rows, crow = row, ccell = [], cquoted = False, cclosed = False, cstart = True\<rparr>"

definition parseCSV :: "jstr \<Rightarrow> wb_err + csv" where
  "parseCSV source =
     throw_if (MAX_BYTES < utf8_length source) CsvTooLarge
       (bindr (scan (no_bom source) (fresh [] [])) (\<lambda>st.
         throw_if (cquoted st) CsvOpenQuote
           (bindr (if ccell st \<noteq> [] \<or> crow st \<noteq> [] \<or> cclosed st then finishRow st else Inr st) (\<lambda>st.
             csv_table (crows st)))))"

section \<open>Joining\<close>

definition key_step :: "jstr \<Rightarrow> (jstr \<rightharpoonup> (jstr \<times> jstr) list) \<Rightarrow> (jstr \<times> jstr) list
    \<Rightarrow> wb_err + (jstr \<rightharpoonup> (jstr \<times> jstr) list)" where
  "key_step csvKey m row =
     (let k = the (map_of row csvKey)
      in throw_if (trim k = [] \<or> m k \<noteq> None) CsvKeyNotUnique (Inr (m(k \<mapsto> row))))"

definition put_column :: "(jstr \<times> jstr) list \<Rightarrow> js \<Rightarrow> jstr \<Rightarrow> wb_err + js" where
  "put_column row f h =
     (let k = lit ''csv_'' @ h
      in throw_if (own (props f) k) (AttributeExists k) (Inr (put_prop k (JStr (the (map_of row h))) f)))"

definition join_feature :: "(real \<Rightarrow> jstr) \<Rightarrow> (jstr \<rightharpoonup> (jstr \<times> jstr) list) \<Rightarrow> jstr list \<Rightarrow> jstr \<Rightarrow> js
    \<Rightarrow> wb_err + (js \<times> bool)" where
  "join_feature num lookup columns field f =
     (if \<not> own (props f) field then Inr (f, False)
      else case lookup (text_of num (the (map_of (entries_of (props f)) field))) of
             None \<Rightarrow> Inr (f, False)
           | Some row \<Rightarrow> bindr (foldr_err (put_column row) f columns) (\<lambda>f'. Inr (f', True)))"

record join_result =
  join_data :: js
  join_matched :: nat
  join_unmatched :: nat

definition join :: "(real \<Rightarrow> jstr) \<Rightarrow> js \<Rightarrow> csv \<Rightarrow> jstr \<Rightarrow> jstr \<Rightarrow> wb_err + join_result" where
  "join num d t field csvKey =
     throw_if (field \<notin> set (fields_of d) \<or> csvKey \<notin> set (header t)) BadKeyColumns
       (bindr (foldr_err (key_step csvKey) Map.empty (csv_rows t)) (\<lambda>lookup.
         let r = clone d; columns = filter (\<lambda>h. h \<noteq> csvKey) (header t)
         in bindr (mapr (join_feature num lookup columns field) (features r)) (\<lambda>fs.
              let matched = length (filter snd fs)
              in Inr \<lparr>join_data = jset r ''features'' (JArr (map fst fs)), join_matched = matched,
                      join_unmatched = length fs - matched\<rparr>)))"

section \<open>Writing\<close>

definition formula_like :: "jstr \<Rightarrow> bool" where
  "formula_like s \<longleftrightarrow>
     (case dropWhile js_space s of c # _ \<Rightarrow> c \<in> {61, 43, 64, 45} | [] \<Rightarrow> False)
     \<or> (s \<noteq> [] \<and> hd s \<in> {9, 13, 10})"

definition neutral :: "jstr \<Rightarrow> jstr" where
  "neutral s = (if formula_like s then 39 # s else s)"

definition doubled :: "jstr \<Rightarrow> jstr" where
  "doubled s = concat (map (\<lambda>c. if c = 34 then [34, 34] else [c]) s)"

definition csv_cell :: "jstr \<Rightarrow> jstr" where
  "csv_cell s = 34 # doubled (neutral s) @ [34]"

text \<open>\<open>f.properties?.[k]\<close>: a key that is not an own property may be inherited; \<open>inh\<close> is the text of
  what is then found.\<close>

definition prop_text :: "(real \<Rightarrow> jstr) \<Rightarrow> (jstr \<Rightarrow> jstr) \<Rightarrow> js \<Rightarrow> jstr \<Rightarrow> jstr" where
  "prop_text num inh f k =
     (case map_of (entries_of (props f)) k of
        Some v \<Rightarrow> text_of num v
      | None \<Rightarrow> if \<not> nullish (props f) \<and> k \<in> set inherited_keys then inh k else [])"

definition toCSV :: "(real \<Rightarrow> jstr) \<Rightarrow> (jstr \<Rightarrow> jstr) \<Rightarrow> js \<Rightarrow> jstr" where
  "toCSV num inh d =
     (let keys = fields_of d
      in join_with [13, 10] (join_with [44] (map csv_cell keys)
           # map (\<lambda>f. join_with [44] (map (\<lambda>k. csv_cell (prop_text num inh f k)) keys)) (features d)) @ [13, 10])"

section \<open>What was written is read back\<close>

lemma scan_quoted:
  "rest = [] \<or> hd rest \<noteq> 34 \<Longrightarrow> cquoted st \<Longrightarrow>
     scan (doubled s @ 34 # rest) st = scan rest (st\<lparr>ccell := ccell st @ s, cquoted := False, cclosed := True\<rparr>)"
  by (induction s arbitrary: st) (auto simp: doubled_def)

lemma scan_cell:
  assumes "rest = [] \<or> hd rest \<noteq> 34"
  shows "scan (csv_cell t @ rest) (fresh rows row)
    = scan rest ((fresh rows row)\<lparr>ccell := neutral t, cclosed := True, cstart := False\<rparr>)"
  using scan_quoted [OF assms, of "(fresh rows row)\<lparr>cquoted := True, cstart := False\<rparr>" "neutral t"]
  by (simp add: csv_cell_def fresh_def)

lemma scan_line:
  "ts \<noteq> [] \<Longrightarrow> scan (join_with [44] (map csv_cell ts) @ 13 # 10 # rest) (fresh rows row)
     = bindr (add_row rows (row @ map neutral ts)) (\<lambda>rows'. scan rest (fresh rows' []))"
proof (induction ts arbitrary: row)
  case (Cons t ts)
  show ?case
  proof (cases "ts = []")
    case True
    then show ?thesis
      by (cases "add_row rows (row @ [neutral t])", simp_all add: scan_cell,
          simp_all add: fresh_def finishRow_def finishCell_def Let_def)
  next
    case False
    then have "join_with [44] (map csv_cell (t # ts)) = csv_cell t @ 44 # join_with [44] (map csv_cell ts)"
      by (cases ts) auto
    then have "scan (join_with [44] (map csv_cell (t # ts)) @ 13 # 10 # rest) (fresh rows row)
        = scan (join_with [44] (map csv_cell ts) @ 13 # 10 # rest) (fresh rows (row @ [neutral t]))"
      by (simp add: scan_cell finishCell_def) (simp add: fresh_def)
    with Cons.IH [OF False] show ?thesis by simp
  qed
qed simp

abbreviation filled :: "jstr list \<Rightarrow> bool" where
  "filled r \<equiv> list_ex (\<lambda>x. x \<noteq> []) r"

lemma scan_empty_line: "scan (13 # 10 # rest) (fresh rows []) = scan rest (fresh rows [])" if "length rows \<le> 10001"
  using that by (simp add: fresh_def finishRow_def finishCell_def add_row_def Let_def)

lemma scan_lines:
  "length rows + length tss \<le> 10001 \<Longrightarrow>
     scan (concat (map (\<lambda>ts. join_with [44] (map csv_cell ts) @ [13, 10]) tss)) (fresh rows [])
     = Inr (fresh (rows @ filter filled (map (map neutral) tss)) [])"
proof (induction tss arbitrary: rows)
  case (Cons ts tss)
  let ?rows = "if filled (map neutral ts) then rows @ [map neutral ts] else rows"
  have "add_row rows (map neutral ts) = Inr ?rows"
    using Cons.prems by (auto simp: add_row_def Let_def)
  then have "scan (concat (map (\<lambda>ts. join_with [44] (map csv_cell ts) @ [13, 10]) (ts # tss))) (fresh rows [])
      = scan (concat (map (\<lambda>ts. join_with [44] (map csv_cell ts) @ [13, 10]) tss)) (fresh ?rows [])"
    using Cons.prems scan_line [of ts _ rows "[]"] scan_empty_line [of rows] by (cases "ts = []") simp_all
  also have "\<dots> = Inr (fresh (?rows @ filter filled (map (map neutral) tss)) [])"
    using Cons.prems by (intro Cons.IH) auto
  finally show ?case by simp
qed simp

lemma join_lines: "join_with sep (x # xs) @ sep = concat (map (\<lambda>y. y @ sep) (x # xs))"
  by (induction xs arbitrary: x) auto

definition csv_cells :: "(real \<Rightarrow> jstr) \<Rightarrow> (jstr \<Rightarrow> jstr) \<Rightarrow> js \<Rightarrow> js \<Rightarrow> jstr list" where
  \<comment> \<open>the values of a feature as a reader of the export sees them\<close>
  "csv_cells num inh d f = map (\<lambda>k. neutral (prop_text num inh f k)) (fields_of d)"

lemma toCSV_lines:
  "toCSV num inh d = concat (map (\<lambda>ts. join_with [44] (map csv_cell ts) @ [13, 10])
     (fields_of d # map (\<lambda>f. map (prop_text num inh f) (fields_of d)) (features d)))"
  unfolding toCSV_def Let_def join_lines by (simp add: comp_def)

lemma no_bom_csv: "fields_of d \<noteq> [] \<Longrightarrow> no_bom (toCSV num inh d) = toCSV num inh d"
proof -
  assume "fields_of d \<noteq> []"
  then obtain k ks where "fields_of d = k # ks" by (cases "fields_of d") auto
  then have "\<exists>r. toCSV num inh d = 34 # r"
    by (cases ks) (simp_all add: toCSV_lines csv_cell_def)
  then show ?thesis by (auto simp: no_bom_def)
qed


lemma neutral_safe: "\<not> formula_like (neutral s)"
  by (auto simp: neutral_def formula_like_def js_space_def)

lemma set_from_entries_zip: "(k, v) \<in> set (from_entries (zip ks vs)) \<Longrightarrow> v \<in> set vs"
  by (auto dest!: set_from_entries set_zip_rightD)

text \<open>No cell of an exported table reads as a formula: whatever a reader finds in it, in the column
  names and in the values, does not begin with =, +, -, or @, not even after white space, nor with a
  tab or a line break.\<close>

theorem csv_safe:
  assumes "collection_ok d" "parseCSV (toCSV num inh d) = Inr t"
  shows "(\<forall>h\<in>set (header t). \<not> formula_like h)
    \<and> (\<forall>row\<in>set (csv_rows t). \<forall>(k, v)\<in>set row. \<not> formula_like v)"
proof -
  let ?tss = "fields_of d # map (\<lambda>f. map (prop_text num inh f) (fields_of d)) (features d)"
  let ?rows = "filter filled (map (map neutral) ?tss)"
  have len: "length (features d) \<le> 5000" using assms(1) by (simp add: collection_ok_def)
  have scan: "scan (toCSV num inh d) (fresh [] []) = Inr (fresh ?rows [])"
    unfolding toCSV_lines using len by (subst scan_lines) auto
  have t: "csv_table ?rows = Inr t"
  proof (cases "fields_of d = []")
    case True
    then have "?rows = []" by auto
    moreover have "no_bom (toCSV num inh d) = toCSV num inh d"
      by (simp add: toCSV_lines True no_bom_def)
    ultimately show ?thesis using assms(2) scan by (auto simp: parseCSV_def throw_if_def fresh_def split: if_splits)
  next
    case False
    then show ?thesis
      using assms(2) scan by (auto simp: parseCSV_def throw_if_def no_bom_csv fresh_def split: if_splits)
  qed
  have safe: "\<not> formula_like c" if "r \<in> set ?rows" "c \<in> set r" for r c
  proof -
    have "r \<in> set (map (map neutral) ?tss)" by (rule subsetD [OF filter_is_subset that(1)])
    then have "r \<in> map neutral ` set ?tss" unfolding set_map .
    then have "c \<in> range neutral" using that(2) by auto
    then show ?thesis using neutral_safe by auto
  qed
  obtain h rs where r: "?rows = h # rs" using t by (cases ?rows) (auto simp: csv_table_def)
  then have "header t = h" "csv_rows t = map (\<lambda>r. from_entries (zip h r)) rs"
    using t by (auto simp: csv_table_def throw_if_def split: if_splits)
  then show ?thesis using safe unfolding r by (auto dest!: set_from_entries_zip)
qed

section \<open>What a join adds\<close>

definition row_for :: "csv \<Rightarrow> jstr \<Rightarrow> jstr \<Rightarrow> (jstr \<times> jstr) list option" where
  "row_for t csvKey s = find (\<lambda>row. the (map_of row csvKey) = s) (csv_rows t)"

lemma key_steps:
  "foldr_err (key_step csvKey) m rows = Inr m' \<Longrightarrow>
     m' = m ++ (\<lambda>s. find (\<lambda>row. the (map_of row csvKey) = s) rows)
     \<and> distinct (map (\<lambda>row. the (map_of row csvKey)) rows)
     \<and> (\<forall>row\<in>set rows. trim (the (map_of row csvKey)) \<noteq> [] \<and> m (the (map_of row csvKey)) = None)"
proof (induction rows arbitrary: m)
  case (Cons row rows)
  let ?k = "the (map_of row csvKey)"
  obtain m1 where m1: "key_step csvKey m row = Inr m1" "foldr_err (key_step csvKey) m1 rows = Inr m'"
    using Cons.prems by (auto simp: bindr_Inr_iff)
  then have k: "trim ?k \<noteq> []" "m ?k = None" "m1 = m(?k \<mapsto> row)"
    by (auto simp: key_step_def throw_if_def Let_def split: if_splits)
  then have k: "trim ?k \<noteq> []" "m ?k = None" "foldr_err (key_step csvKey) (m(?k \<mapsto> row)) rows = Inr m'"
    using m1(2) by simp_all
  note IH = Cons.IH [OF k(3)]
  have fresh: "the (map_of r csvKey) \<noteq> ?k \<and> m (the (map_of r csvKey)) = None" if "r \<in> set rows" for r
  proof -
    have "(m(?k \<mapsto> row)) (the (map_of r csvKey)) = None" using IH that by blast
    then show ?thesis by (simp split: if_splits)
  qed
  then have none: "find (\<lambda>r. the (map_of r csvKey) = ?k) rows = None" by (auto simp: find_None_iff)
  have m': "m' = m(?k \<mapsto> row) ++ (\<lambda>s. find (\<lambda>r. the (map_of r csvKey) = s) rows)" using IH by blast
  have "m' s = (m ++ (\<lambda>s. find (\<lambda>r. the (map_of r csvKey) = s) (row # rows))) s" for s
    unfolding m' by (cases "s = ?k") (simp_all add: map_add_def none split: option.split)
  then have "m' = m ++ (\<lambda>s. find (\<lambda>r. the (map_of r csvKey) = s) (row # rows))" by blast
  moreover have "?k \<notin> (\<lambda>r. the (map_of r csvKey)) ` set rows"
    by (rule notI, erule imageE) (use fresh in metis)
  moreover have "distinct (map (\<lambda>r. the (map_of r csvKey)) rows)" using IH by blast
  ultimately show ?case using IH k(1,2) fresh by simp
qed (simp add: map_add_def)

lemma put_column_Inr:
  assumes "put_column row f h = Inr f'" "is_object f"
  shows "is_object f'" "\<not> own (props f) (lit ''csv_'' @ h)"
    "map_of (entries_of (props f')) = (map_of (entries_of (props f)))(lit ''csv_'' @ h \<mapsto> JStr (the (map_of row h)))"
    "jget f' ''geometry'' = jget f ''geometry''"
  using assms by (auto simp: put_column_def throw_if_def Let_def put_prop_def split: if_splits)

lemma put_columns:
  "foldr_err (put_column row) f hs = Inr f' \<Longrightarrow> is_object f \<Longrightarrow>
     (\<forall>h\<in>set hs. \<not> own (props f) (lit ''csv_'' @ h)
        \<and> map_of (entries_of (props f')) (lit ''csv_'' @ h) = Some (JStr (the (map_of row h))))
     \<and> (\<forall>k. k \<notin> (\<lambda>h. lit ''csv_'' @ h) ` set hs \<longrightarrow>
          map_of (entries_of (props f')) k = map_of (entries_of (props f)) k)
     \<and> jget f' ''geometry'' = jget f ''geometry''"
proof (induction hs arbitrary: f)
  case (Cons h hs)
  obtain g where g: "put_column row f h = Inr g" "foldr_err (put_column row) g hs = Inr f'"
    using Cons.prems(1) by (auto simp: bindr_Inr_iff)
  note p = put_column_Inr [OF g(1) Cons.prems(2)]
  note IH = Cons.IH [OF g(2) p(1)]
  have own: "own (props g) k \<longleftrightarrow> k = lit ''csv_'' @ h \<or> own (props f) k" for k
    using p(3) by (simp add: own_def has_own_map_of)
  then have "h \<notin> set hs" using IH own by auto
  then have "map_of (entries_of (props f')) (lit ''csv_'' @ h) = map_of (entries_of (props g)) (lit ''csv_'' @ h)"
    using IH by auto
  then show ?case using IH p own by (auto simp: image_iff)
qed simp

lemma put_columns_ok:
  "foldr_err (put_column row) f hs = Inr f' \<Longrightarrow> feature_valid f \<Longrightarrow> parsed f \<Longrightarrow>
     feature_valid f' \<and> parsed f' \<and> feature_points f' = feature_points f"
proof (induction hs arbitrary: f)
  case (Cons h hs)
  obtain g where g: "put_column row f h = Inr g" "foldr_err (put_column row) g hs = Inr f'"
    using Cons.prems(1) by (auto simp: bindr_Inr_iff)
  have "g = put_prop (lit ''csv_'' @ h) (JStr (the (map_of row h))) f"
    using g(1) by (auto simp: put_column_def throw_if_def Let_def split: if_splits)
  then have "feature_valid g \<and> parsed g \<and> feature_points g = feature_points f"
    using put_prop_ok [OF Cons.prems(2,3), of "JStr (the (map_of row h))" "lit ''csv_'' @ h"] by simp
  then show ?case using Cons.IH [OF g(2)] by simp
qed simp

lemma join_feature_ok:
  "join_feature num lookup columns field f = Inr (f', b) \<Longrightarrow> feature_valid f \<Longrightarrow> parsed f \<Longrightarrow>
     feature_valid f' \<and> parsed f' \<and> feature_points f' = feature_points f"
  by (auto simp: join_feature_def bindr_Inr_iff split: if_splits option.splits dest: put_columns_ok)

text \<open>What the attributes of a joined feature are.\<close>

definition joined_with :: "(real \<Rightarrow> jstr) \<Rightarrow> csv \<Rightarrow> jstr \<Rightarrow> jstr \<Rightarrow> js \<Rightarrow> (jstr \<times> jstr) list option" where
  "joined_with num t field csvKey f =
     (if own (props f) field
      then row_for t csvKey (text_of num (the (map_of (entries_of (props f)) field))) else None)"

definition columns_added :: "csv \<Rightarrow> jstr \<Rightarrow> jstr set" where
  "columns_added t csvKey = (\<lambda>h. lit ''csv_'' @ h) ` (set (header t) - {csvKey})"

definition attribute :: "js \<Rightarrow> jstr \<Rightarrow> js option" where
  "attribute f k = map_of (entries_of (props f)) k"

definition joined_feature :: "(real \<Rightarrow> jstr) \<Rightarrow> csv \<Rightarrow> jstr \<Rightarrow> jstr \<Rightarrow> js \<Rightarrow> js \<Rightarrow> bool" where
  "joined_feature num t field csvKey f f' \<longleftrightarrow>
     (case joined_with num t field csvKey f of
        None \<Rightarrow> f' = f
      | Some row \<Rightarrow> jget f' ''geometry'' = jget f ''geometry''
          \<and> (\<forall>h\<in>set (header t) - {csvKey}. attribute f (lit ''csv_'' @ h) = None
               \<and> attribute f' (lit ''csv_'' @ h) = Some (JStr (the (map_of row h))))
          \<and> (\<forall>k. k \<notin> columns_added t csvKey \<longrightarrow> attribute f' k = attribute f k))"

lemma join_feature_exact:
  assumes "join_feature num (row_for t csvKey) (filter (\<lambda>h. h \<noteq> csvKey) (header t)) field f = Inr (f', b)"
    "is_object f"
  shows "joined_feature num t field csvKey f f' \<and> (b \<longleftrightarrow> joined_with num t field csvKey f \<noteq> None)"
proof (cases "joined_with num t field csvKey f")
  case None
  then have "f' = f \<and> \<not> b"
    using assms(1) by (auto simp: join_feature_def joined_with_def split: if_splits option.splits)
  then show ?thesis using None by (simp add: joined_feature_def)
next
  case (Some row)
  then have b: "b" and put: "foldr_err (put_column row) f (filter (\<lambda>h. h \<noteq> csvKey) (header t)) = Inr f'"
    using assms(1) by (auto simp: join_feature_def joined_with_def bindr_Inr_iff split: if_splits option.splits)
  have hs: "set (filter (\<lambda>h. h \<noteq> csvKey) (header t)) = set (header t) - {csvKey}" by auto
  show ?thesis
    using put_columns [OF put assms(2)] b Some unfolding hs
    by (simp add: joined_feature_def attribute_def columns_added_def own_def has_own_map_of)
qed

lemma join_effect:
  assumes "collection_ok d" "parsed d" "join num d t field csvKey = Inr r"
  shows "collection_ok (join_data r) \<and> parsed (join_data r)
    \<and> list_all2 (joined_feature num t field csvKey) (features (clone d)) (features (join_data r))
    \<and> join_matched r = length (filter (\<lambda>f. joined_with num t field csvKey f \<noteq> None) (features (clone d)))
    \<and> join_matched r + join_unmatched r = length (features d)
    \<and> distinct (map (\<lambda>row. the (map_of row csvKey)) (csv_rows t))"
proof -
  let ?r = "clone d" and ?cols = "filter (\<lambda>h. h \<noteq> csvKey) (header t)"
  obtain lookup fs where l: "foldr_err (key_step csvKey) Map.empty (csv_rows t) = Inr lookup"
    and fs: "mapr (join_feature num lookup ?cols field) (features ?r) = Inr fs"
    and r: "r = \<lparr>join_data = jset ?r ''features'' (JArr (map fst fs)), join_matched = length (filter snd fs),
       join_unmatched = length fs - length (filter snd fs)\<rparr>"
    using assms(3) by (auto simp: join_def throw_if_def bindr_Inr_iff Let_def simp del: mapr.simps split: if_splits)
  have lookup: "lookup = row_for t csvKey"
    using key_steps [OF l] by (auto simp: row_for_def)
  have d: "collection_ok ?r" "parsed ?r" using assms collection_clone parsed_clone by auto
  have f: "feature_valid f \<and> parsed f \<and> is_object f" if "f \<in> set (features ?r)" for f
    using that d feature_parsed feature_object by (auto simp: collection_ok_def list_all_iff feature_valid_def)
  have all: "list_all2 (\<lambda>f p. joined_feature num t field csvKey f (fst p)
      \<and> (snd p \<longleftrightarrow> joined_with num t field csvKey f \<noteq> None)
      \<and> feature_valid (fst p) \<and> parsed (fst p) \<and> feature_points (fst p) = feature_points f) (features ?r) fs"
    using fs unfolding mapr_Inr_iff lookup
    by (rule list.rel_mono_strong) (use f join_feature_exact join_feature_ok in fastforce)
  then have len: "length fs = length (features ?r)" by (simp add: list_all2_lengthD)
  have pts: "map (feature_points \<circ> fst) fs = map feature_points (features ?r)"
    using all by (induction rule: list_all2_induct) auto
  have count: "length (filter snd fs) = length (filter (\<lambda>f. joined_with num t field csvKey f \<noteq> None) (features ?r))"
    using all by (induction rule: list_all2_induct) auto
  have valid: "list_all feature_valid (map fst fs)" "list_all parsed (map fst fs)"
    using all by (induction rule: list_all2_induct) auto
  have "collection_ok (join_data r)"
    unfolding r using d(1) valid len pts by (simp add: collection_put collection_ok_def [of ?r])
  moreover have "parsed (join_data r)"
    unfolding r using d(2) valid by (simp add: parsed_jset)
  moreover have "features (join_data r) = map fst fs"
    unfolding r using collection_object [OF d(1)] by simp
  moreover have "list_all2 (joined_feature num t field csvKey) (features ?r) (map fst fs)"
    using all by (auto simp: list_all2_map2 elim: list_all2_mono)
  moreover have "length (filter snd fs) \<le> length fs" by simp
  moreover have "length (features ?r) = length (features d)" using assms(2) by (simp add: features_clone)
  ultimately show ?thesis
    using count len key_steps [OF l] by (simp add: r)
qed


section \<open>A sample table\<close>

definition shop_table :: js where
  "shop_table = collection_of [point_feature [(lit ''a'', JStr (lit ''=1''))] 9 51]"

lemma shop_fields: "fields_of shop_table = [lit ''a'']"
  by (simp add: fields_of_def shop_table_def)

lemma shop_ok: "collection_ok shop_table" "parsed shop_table"
  by (simp_all add: collection_ok_def shop_table_def point_feature_valid)
    (simp add: collection_of_def point_feature_def obj_wf_def key_rank_def array_index_def lit_def undigits_def digits.simps)

lemma neutral_samples: "neutral (lit ''a'') = lit ''a''" "neutral (lit ''=1'') = 39 # lit ''=1''"
  by (simp_all add: neutral_def formula_like_def js_space_def lit_def)

lemma shop_text: "toCSV num inh shop_table = csv_cell (lit ''a'') @ [13, 10] @ csv_cell (lit ''=1'') @ [13, 10]"
  by (simp add: toCSV_lines shop_fields) (simp add: shop_table_def prop_text_def)

lemma cell_length: "length (csv_cell s) \<le> 2 * length s + 4"
proof -
  have "length (doubled x) \<le> 2 * length x" for x by (induction x) (auto simp: doubled_def)
  from this [of "neutral s"] show ?thesis by (auto simp: csv_cell_def neutral_def split: if_splits)
qed

lemma shop_small: "utf8_length (toCSV num inh shop_table) \<le> MAX_BYTES"
  using utf8_length_le [of "toCSV num inh shop_table"] cell_length [of "lit ''a''"] cell_length [of "lit ''=1''"]
  by (simp add: shop_text)

lemma shop_cells: "csv_cells num inh shop_table (point_feature [(lit ''a'', JStr (lit ''=1''))] 9 51) = [39 # lit ''=1'']"
  by (simp add: csv_cells_def shop_fields prop_text_def neutral_samples)

lemma shop_trim: "trim (lit ''a'') \<noteq> []"
  by (simp add: trim_def lit_def js_space_def)


theorem csv_safe_witness: "\<not> formula_like (39 # lit ''=1'')"
proof -
  have feats: "features shop_table = [point_feature [(lit ''a'', JStr (lit ''=1''))] 9 51]"
    by (simp add: shop_table_def)
  have t: "csv_table [[lit ''a''], [39 # lit ''=1'']] = Inr \<lparr>header = [lit ''a''], csv_rows = [[(lit ''a'', 39 # lit ''=1'')]]\<rparr>"
    by (simp add: csv_table_def shop_trim from_entries_def)
  have "scan (toCSV (\<lambda>_. []) (\<lambda>_. []) shop_table) (fresh [] []) = Inr (fresh [[lit ''a''], [39 # lit ''=1'']] [])"
    unfolding toCSV_lines by (subst scan_lines)
      (simp_all add: shop_fields feats prop_text_def neutral_samples)
  then have "parseCSV (toCSV (\<lambda>_. []) (\<lambda>_. []) shop_table)
     = Inr \<lparr>header = [lit ''a''], csv_rows = [[(lit ''a'', 39 # lit ''=1'')]]\<rparr>"
    using shop_small [of "\<lambda>_. []" "\<lambda>_. []"] t
    by (simp add: parseCSV_def no_bom_csv shop_fields) (simp add: fresh_def)
  from csv_safe [OF shop_ok(1) this] show ?thesis by simp
qed

definition shop_csv :: csv where
  "shop_csv = \<lparr>header = [lit ''k'', lit ''v''],
     csv_rows = [[(lit ''k'', lit ''=1''), (lit ''v'', lit ''x'')]]\<rparr>"

lemma shop_join: "is_ok (join (\<lambda>_. []) shop_table shop_csv (lit ''a'') (lit ''k''))"
proof -
  have t: "trim (lit ''=1'') \<noteq> []" by (simp add: trim_def lit_def js_space_def)
  have "\<not> own (props (clone f)) (lit ''csv_'' @ lit ''v'')"
    if "f = point_feature [(lit ''a'', JStr (lit ''=1''))] 9 51" for f
    using that by (simp add: point_feature_def own_def has_own_def lit_def)
  then show ?thesis
    by (simp add: join_def shop_fields shop_csv_def key_step_def t Let_def features_clone shop_ok)
      (simp add: shop_table_def join_feature_def put_column_def Let_def split: option.split)
qed


end
