(* ===== verification/LonWrap.thy ===== *)
theory LonWrap
  imports Complex_Main
begin

text \<open>
  Lines across the date line, as both \<open>planning.js\<close> and \<open>geo-workbench.js\<close> treat them: each longitude
  is moved by whole turns to within half a turn of the one before, by two loops. The loops are
  recursive functions here; their termination is part of the definition.
\<close>

type_synonym pos = "real \<times> real"   \<comment> \<open>longitude, latitude\<close>

function lowered :: "real \<Rightarrow> real \<Rightarrow> real" where
  \<comment> \<open>\<open>while (x - prev > 180) x -= 360;\<close>\<close>
  "lowered prev x = (if 180 < x - prev then lowered prev (x - 360) else x)"
  by auto
termination
proof (relation "measure (\<lambda>(prev, x). nat \<lceil>x - prev\<rceil>)")
  fix prev x :: real
  assume "180 < x - prev"
  then have "180 < \<lceil>x - prev\<rceil>" by linarith
  moreover have "\<lceil>x - 360 - prev\<rceil> = \<lceil>x - prev\<rceil> - 360"
    using ceiling_diff_of_int [of "x - prev" 360] by (simp add: algebra_simps)
  ultimately show "((prev, x - 360), (prev, x)) \<in> measure (\<lambda>(prev, x). nat \<lceil>x - prev\<rceil>)" by simp
qed simp

function raised :: "real \<Rightarrow> real \<Rightarrow> real" where
  \<comment> \<open>\<open>while (x - prev < -180) x += 360;\<close>\<close>
  "raised prev x = (if x - prev < -180 then raised prev (x + 360) else x)"
  by auto
termination
proof (relation "measure (\<lambda>(prev, x). nat \<lceil>prev - x\<rceil>)")
  fix prev x :: real
  assume "x - prev < -180"
  then have "180 < \<lceil>prev - x\<rceil>" by linarith
  moreover have "\<lceil>prev - (x + 360)\<rceil> = \<lceil>prev - x\<rceil> - 360"
    using ceiling_diff_of_int [of "prev - x" 360] by (simp add: algebra_simps)
  ultimately show "((prev, x + 360), (prev, x)) \<in> measure (\<lambda>(prev, x). nat \<lceil>prev - x\<rceil>)" by simp
qed simp

declare lowered.simps [simp del] raised.simps [simp del]

definition near :: "real \<Rightarrow> real \<Rightarrow> real" where
  "near prev x = raised prev (lowered prev x)"

fun unwrap_from :: "real \<Rightarrow> pos list \<Rightarrow> pos list" where
  "unwrap_from prev [] = []"
| "unwrap_from prev ((x, y) # ps) = (near prev x, y) # unwrap_from (near prev x) ps"

definition unwrap :: "pos list \<Rightarrow> pos list" where
  "unwrap ps = (case ps of [] \<Rightarrow> [] | p # qs \<Rightarrow> p # unwrap_from (fst p) qs)"

definition turns_apart :: "real \<Rightarrow> real \<Rightarrow> bool" where
  "turns_apart x y \<longleftrightarrow> (\<exists>k::int. x = y + 360 * of_int k)"

lemma turns_apart_refl [simp]: "turns_apart x x"
  unfolding turns_apart_def by (rule exI [of _ 0]) simp

lemma turns_apart_trans: "turns_apart x y \<Longrightarrow> turns_apart y z \<Longrightarrow> turns_apart x z"
proof -
  assume "turns_apart x y" "turns_apart y z"
  then obtain j k :: int where "x = y + 360 * of_int j" "y = z + 360 * of_int k"
    unfolding turns_apart_def by blast
  then have "x = z + 360 * of_int (j + k)" by (simp add: algebra_simps)
  then show ?thesis unfolding turns_apart_def by blast
qed

lemma turns_apart_step: "turns_apart (x - 360) x" "turns_apart (x + 360) x"
  unfolding turns_apart_def by (rule exI [of _ "-1"], simp) (rule exI [of _ 1], simp)

lemma lowered_props:
  "turns_apart (lowered prev x) x \<and> lowered prev x - prev \<le> 180
     \<and> (lowered prev x = x \<or> - 180 < lowered prev x - prev)"
proof (induction prev x rule: lowered.induct)
  case (1 prev x)
  show ?case
  proof (cases "180 < x - prev")
    case True
    then have eq: "lowered prev x = lowered prev (x - 360)" by (subst lowered.simps) simp
    have "turns_apart (lowered prev (x - 360)) x"
      using 1 [OF True] turns_apart_step turns_apart_trans by blast
    then show ?thesis using 1 [OF True] True unfolding eq by auto
  next
    case False
    then have "lowered prev x = x" by (subst lowered.simps) simp
    then show ?thesis using False by simp
  qed
qed

lemma raised_props:
  "turns_apart (raised prev x) x \<and> - 180 \<le> raised prev x - prev
     \<and> (raised prev x = x \<or> raised prev x - prev < 180)"
proof (induction prev x rule: raised.induct)
  case (1 prev x)
  show ?case
  proof (cases "x - prev < - 180")
    case True
    then have eq: "raised prev x = raised prev (x + 360)" by (subst raised.simps) simp
    have "turns_apart (raised prev (x + 360)) x"
      using 1 [OF True] turns_apart_step turns_apart_trans by blast
    then show ?thesis using 1 [OF True] True unfolding eq by auto
  next
    case False
    then have "raised prev x = x" by (subst raised.simps) simp
    then show ?thesis using False by simp
  qed
qed

lemma near_props: "turns_apart (near prev x) x" "\<bar>near prev x - prev\<bar> \<le> 180"
proof -
  note l = lowered_props [of prev x] and r = raised_props [of prev "lowered prev x"]
  show "turns_apart (near prev x) x"
    unfolding near_def by (rule turns_apart_trans [OF r [THEN conjunct1] l [THEN conjunct1]])
  show "\<bar>near prev x - prev\<bar> \<le> 180"
    unfolding near_def using l r by (auto simp: abs_le_iff)
qed

lemma near_same: "\<bar>x - prev\<bar> \<le> 180 \<Longrightarrow> near prev x = x"
proof -
  assume "\<bar>x - prev\<bar> \<le> 180"
  then have "lowered prev x = x" "raised prev x = x"
    by (subst lowered.simps, auto) (subst raised.simps, auto)
  then show ?thesis by (simp add: near_def)
qed

lemma unwrap_from_same: "unwrap_from (fst p) (p # ps) = p # unwrap_from (fst p) ps"
  by (cases p) (simp add: near_same)

lemma length_unwrap_from [simp]: "length (unwrap_from prev ps) = length ps"
  by (induction prev ps rule: unwrap_from.induct) auto

lemma length_unwrap [simp]: "length (unwrap ps) = length ps"
  by (cases ps) (auto simp: unwrap_def)

text \<open>Unwrapping keeps every point where it is on the globe and puts neighbours at most half a turn
  apart.\<close>

lemma unwrap_from_nth:
  "i < length ps \<Longrightarrow> turns_apart (fst (unwrap_from prev ps ! i)) (fst (ps ! i))
     \<and> snd (unwrap_from prev ps ! i) = snd (ps ! i)
     \<and> \<bar>fst (unwrap_from prev ps ! i) - (if i = 0 then prev else fst (unwrap_from prev ps ! (i - 1)))\<bar> \<le> 180"
proof (induction prev ps arbitrary: i rule: unwrap_from.induct)
  case (2 prev x y ps)
  show ?case
  proof (cases i)
    case 0
    then show ?thesis using near_props by simp
  next
    case (Suc j)
    then have "j < length ps" using 2(2) by simp
    from 2(1) [OF this] show ?thesis using Suc by (cases j) auto
  qed
qed simp

lemma unwrap_nth:
  assumes "i < length ps"
  shows "turns_apart (fst (unwrap ps ! i)) (fst (ps ! i))" "snd (unwrap ps ! i) = snd (ps ! i)"
    "0 < i \<Longrightarrow> \<bar>fst (unwrap ps ! i) - fst (unwrap ps ! (i - 1))\<bar> \<le> 180"
proof -
  obtain p qs where ps: "ps = p # qs" using assms by (cases ps) auto
  then have u: "unwrap ps = unwrap_from (fst p) ps" by (simp add: unwrap_def unwrap_from_same)
  show "turns_apart (fst (unwrap ps ! i)) (fst (ps ! i))" "snd (unwrap ps ! i) = snd (ps ! i)"
    "0 < i \<Longrightarrow> \<bar>fst (unwrap ps ! i) - fst (unwrap ps ! (i - 1))\<bar> \<le> 180"
    using unwrap_from_nth [OF assms, of "fst p"] unfolding u by auto
qed

end
