(* ===== verification/Simplify.thy ===== *)
theory Simplify
  imports Csv LonWrap
begin

text \<open>
  \<open>simplify\<close> of the workbench (\<open>src/cmd/web/geo-workbench.js\<close>): the lines of a collection are thinned
  with an explicit work stack, up to a limit on the number of operations. The reference is the
  recursive Douglas-Peucker algorithm (\<open>split_points\<close>).
\<close>

section \<open>Distances\<close>

definition extent_ok :: "pos list \<Rightarrow> bool" where
  "extent_ok ps \<longleftrightarrow> Max (fst ` set ps) - Min (fst ` set ps) \<le> 5 \<and> Max (snd ` set ps) - Min (snd ` set ps) \<le> 5
     \<and> list_all (\<lambda>p. \<bar>snd p\<bar> \<le> 85) ps"

definition projected :: "pos list \<Rightarrow> pos list" where
  "projected ps =
     (let latitude = (Max (snd ` set ps) + Min (snd ` set ps)) / 2 * pi / 180
      in map (\<lambda>p. ((fst p - fst (hd ps)) * cos latitude * 111195.08, (snd p - snd (hd ps)) * 111195.08)) ps)"

definition seg_dist2 :: "pos \<Rightarrow> pos \<Rightarrow> pos \<Rightarrow> real" where
  \<comment> \<open>squared distance of \<open>p\<close> from the segment from \<open>a\<close> to \<open>b\<close>\<close>
  "seg_dist2 a b p =
     (let dx = fst b - fst a; dy = snd b - snd a; len = dx * dx + dy * dy;
          t = (if len \<noteq> 0 then max 0 (min 1 (((fst p - fst a) * dx + (snd p - snd a) * dy) / len)) else 0)
      in (fst p - fst a - t * dx)\<^sup>2 + (snd p - snd a - t * dy)\<^sup>2)"

section \<open>The work stack\<close>

text \<open>The search for the point farthest from the segment between two kept ones: the greatest squared
  distance so far, its index if it exceeds the tolerance, and the number of operations.\<close>

definition probe :: "pos list \<Rightarrow> nat \<Rightarrow> nat \<Rightarrow> real \<times> nat option \<times> nat \<Rightarrow> nat \<Rightarrow> wb_err + (real \<times> nat option \<times> nat)" where
  "probe ps a b s i =
     (case s of (best, far, ops) \<Rightarrow>
        throw_if (2000000 < Suc ops) TooComplex
          (let d = seg_dist2 (ps ! a) (ps ! b) (ps ! i)
           in Inr (if best < d then (d, Some i, Suc ops) else (best, far, Suc ops))))"

definition farthest_err :: "pos list \<Rightarrow> real \<Rightarrow> nat \<Rightarrow> nat \<Rightarrow> nat \<Rightarrow> wb_err + (real \<times> nat option \<times> nat)" where
  "farthest_err ps tol a b ops = foldr_err (probe ps a b) (tol * tol, None, ops) [Suc a..<b]"

lemma bindr_cong [fundef_cong]:
  "m = m' \<Longrightarrow> (\<And>a. m' = Inr a \<Longrightarrow> f a = g a) \<Longrightarrow> bindr m f = bindr m' g"
  by (cases m') auto

lemma foldr_err_inv:
  "foldr_err f s xs = Inr s' \<Longrightarrow> P s \<Longrightarrow> (\<And>s x s'. x \<in> set xs \<Longrightarrow> P s \<Longrightarrow> f s x = Inr s' \<Longrightarrow> P s') \<Longrightarrow> P s'"
proof (induction xs arbitrary: s)
  case (Cons x xs)
  then obtain s1 where s1: "f s x = Inr s1" "foldr_err f s1 xs = Inr s'" by (auto simp: bindr_Inr_iff)
  show ?case by (rule Cons.IH [OF s1(2)]) (use Cons.prems s1(1) in auto)
qed simp

lemma farthest_err_between:
  assumes "farthest_err ps tol a b ops = Inr (best, Some i, ops')"
  shows "a < i \<and> i < b"
proof -
  have "(case (best, Some i, ops') of (_, Some j, _) \<Rightarrow> j \<in> {a<..<b} | _ \<Rightarrow> True)"
    by (rule foldr_err_inv [OF assms [unfolded farthest_err_def]])
      (auto simp: probe_def throw_if_def Let_def split: if_splits option.splits prod.splits)
  then show ?thesis by simp
qed

function peel :: "pos list \<Rightarrow> real \<Rightarrow> nat set \<Rightarrow> (nat \<times> nat) list \<Rightarrow> nat \<Rightarrow> wb_err + (nat set \<times> nat)" where
  "peel ps tol keep [] ops = Inr (keep, ops)"
| "peel ps tol keep ((a, b) # stack) ops =
     bindr (farthest_err ps tol a b ops) (\<lambda>r.
       case fst (snd r) of
         None \<Rightarrow> peel ps tol keep stack (snd (snd r))
       | Some i \<Rightarrow> peel ps tol (insert i keep) ((i, b) # (a, i) # stack) (snd (snd r)))"
  by pat_completeness auto
termination
proof (relation "measures [\<lambda>(ps, tol, keep, stack, ops). sum_list (map (\<lambda>(a, b). (b - a)\<^sup>2) stack),
    \<lambda>(ps, tol, keep, stack, ops). length stack]")
  fix ps :: "pos list" and tol keep a b stack ops r i
  assume r: "farthest_err ps tol a b ops = Inr r" and i: "fst (snd r) = Some i"
  obtain best ops' where r': "r = (best, Some i, ops')" using i by (cases r) auto
  have ai: "a < i" "i < b" using farthest_err_between r unfolding r' by blast+
  then obtain x y where xy: "i = a + x" "0 < x" "b = i + y" "0 < y" by (metis less_imp_add_positive)
  have "x\<^sup>2 + y\<^sup>2 < (x + y)\<^sup>2" using xy by (simp add: power2_eq_square algebra_simps)
  then show "((ps, tol, insert i keep, (i, b) # (a, i) # stack, snd (snd r)), ps, tol, keep, (a, b) # stack, ops)
      \<in> measures [\<lambda>(ps, tol, keep, stack, ops). sum_list (map (\<lambda>(a, b). (b - a)\<^sup>2) stack),
        \<lambda>(ps, tol, keep, stack, ops). length stack]"
    using xy by (simp add: add.commute)
qed (auto simp: measures_less)

section \<open>Lines, geometries and collections\<close>

record counters =
  operations :: nat
  removed :: nat
  line_count :: nat

definition reduce :: "real \<Rightarrow> counters \<Rightarrow> js list \<Rightarrow> wb_err + (js list \<times> counters)" where
  "reduce tol st points =
     (let st = st\<lparr>line_count := Suc (line_count st)\<rparr>
      in if length points < 3 \<or> tol = 0 then Inr (points, st)
         else
           (let ps = unwrap_from (fst (xy (hd points))) (map xy points)
            in throw_if (\<not> extent_ok ps) NotRegional
                 (bindr (peel (projected ps) tol {0, length points - 1} [(0, length points - 1)] (operations st)) (\<lambda>(keep, ops).
                    let st = st\<lparr>operations := ops\<rparr>; simplified = nths points keep
                    in if xy (hd points) = xy (last points) \<and> length simplified < 4 then Inr (points, st)
                       else Inr (simplified, st\<lparr>removed := removed st + (length points - length simplified)\<rparr>)))))"

fun map_state :: "('s \<Rightarrow> 'a \<Rightarrow> 'e + ('b \<times> 's)) \<Rightarrow> 's \<Rightarrow> 'a list \<Rightarrow> 'e + ('b list \<times> 's)" where
  \<comment> \<open>\<open>xs.map(f)\<close> for an \<open>f\<close> that may throw and changes shared counters\<close>
  "map_state f s [] = Inr ([], s)"
| "map_state f s (x # xs) = bindr (f s x) (\<lambda>(y, s). bindr (map_state f s xs) (\<lambda>(ys, s). Inr (y # ys, s)))"

lemma map_state_cong [fundef_cong]:
  "xs = ys \<Longrightarrow> s = t \<Longrightarrow> (\<And>x s. x \<in> set ys \<Longrightarrow> f s x = g s x) \<Longrightarrow> map_state f s xs = map_state g t ys"
  by (induction ys arbitrary: xs s t) (auto split: prod.split intro!: bindr_cong)

definition reduce_coords :: "real \<Rightarrow> counters \<Rightarrow> js \<Rightarrow> wb_err + (js \<times> counters)" where
  "reduce_coords tol st c = bindr (reduce tol st (elems c)) (\<lambda>(qs, st). Inr (JArr qs, st))"

function visit :: "real \<Rightarrow> counters \<Rightarrow> js \<Rightarrow> wb_err + (js \<times> counters)" where
  "visit tol st g =
     (if \<not> truthy g then Inr (g, st)
      else
        (let t = jget g ''type'';
             drop_box = (\<lambda>(g, st). Inr (if 0 < removed st then jdel g ''bbox'' else g, st))
         in if t = JStr (lit ''LineString'') then
              bindr (reduce_coords tol st (jget g ''coordinates'')) (\<lambda>(c, st). drop_box (jset g ''coordinates'' c, st))
            else if t = JStr (lit ''MultiLineString'') then
              bindr (map_state (reduce_coords tol) st (elems (jget g ''coordinates''))) (\<lambda>(cs, st).
                drop_box (jset g ''coordinates'' (JArr cs), st))
            else if t = JStr (lit ''GeometryCollection'') then
              bindr (map_state (visit tol) st (elems (jget g ''geometries''))) (\<lambda>(gs, st).
                drop_box (jset g ''geometries'' (JArr gs), st))
            else drop_box (g, st)))"
  by pat_completeness auto
termination by (relation "measure (\<lambda>(tol, st, g). size g)") (auto simp: size_member)

declare visit.simps [simp del]

definition visit_feature :: "real \<Rightarrow> counters \<Rightarrow> js \<Rightarrow> wb_err + (js \<times> counters)" where
  "visit_feature tol st f =
     bindr (visit tol st (jget f ''geometry'')) (\<lambda>(g, st).
       let f = jset f ''geometry'' g in Inr (if 0 < removed st then jdel f ''bbox'' else f, st))"

definition simplify :: "js \<Rightarrow> jsnum \<Rightarrow> wb_err + (js \<times> counters)" where
  "simplify d tolerance =
     (case tolerance of
        Fin tol \<Rightarrow>
          throw_if (tol < 0 \<or> 1000 < tol) BadTolerance
            (bindr (validate d) (\<lambda>_.
              let r = clone d
              in bindr (map_state (visit_feature tol) \<lparr>operations = 0, removed = 0, line_count = 0\<rparr> (features r)) (\<lambda>(fs, st).
                   let r = jset r ''features'' (JArr fs)
                   in Inr (if 0 < removed st then jdel r ''bbox'' else r, st))))
      | _ \<Rightarrow> Inl BadTolerance)"

section \<open>The recursive reference\<close>

definition far_step :: "pos list \<Rightarrow> nat \<Rightarrow> nat \<Rightarrow> real \<times> nat option \<Rightarrow> nat \<Rightarrow> real \<times> nat option" where
  "far_step ps a b s i =
     (let d = seg_dist2 (ps ! a) (ps ! b) (ps ! i) in if fst s < d then (d, Some i) else s)"

definition farthest :: "pos list \<Rightarrow> real \<Rightarrow> nat \<Rightarrow> nat \<Rightarrow> nat option" where
  "farthest ps tol a b = snd (foldl (far_step ps a b) (tol * tol, None) [Suc a..<b])"

lemma probe_steps:
  "foldr_err (probe ps a b) (best, far, ops) is = Inr (best', far', ops')
     \<Longrightarrow> (best', far') = foldl (far_step ps a b) (best, far) is \<and> ops' = ops + length is"
proof (induction "is" arbitrary: best far ops)
  case (Cons i "is")
  then obtain s1 where s1: "probe ps a b (best, far, ops) i = Inr s1" "foldr_err (probe ps a b) s1 is = Inr (best', far', ops')"
    by (auto simp: bindr_Inr_iff)
  then obtain b1 f1 where "s1 = (b1, f1, Suc ops)" "(b1, f1) = far_step ps a b (best, far) i"
    by (auto simp: probe_def far_step_def throw_if_def Let_def split: if_splits)
  then show ?case using Cons.IH [of b1 f1 "Suc ops"] s1(2) by simp
qed simp

lemma farthest_err_farthest: "farthest_err ps tol a b ops = Inr r \<Longrightarrow> fst (snd r) = farthest ps tol a b"
  using probe_steps [of ps a b "tol * tol" None ops "[Suc a..<b]" "fst r" "fst (snd r)" "snd (snd r)"]
  by (auto simp: farthest_err_def farthest_def dest: sym)

lemma far_steps:
  "foldl (far_step ps a b) (best, far) is = (best', far') \<Longrightarrow>
     best \<le> best' \<and> (\<forall>i\<in>set is. seg_dist2 (ps ! a) (ps ! b) (ps ! i) \<le> best')
     \<and> (far' = far \<and> best' = best \<or> (\<exists>i\<in>set is. far' = Some i \<and> best < best'))"
proof (induction "is" arbitrary: best far)
  case (Cons i "is")
  let ?d = "seg_dist2 (ps ! a) (ps ! b) (ps ! i)"
  show ?case
  proof (cases "best < ?d")
    case True
    then have "foldl (far_step ps a b) (?d, Some i) is = (best', far')"
      using Cons.prems by (simp add: far_step_def [of ps a b "(best, far)" i])
    from Cons.IH [OF this] True show ?thesis by auto
  next
    case False
    then have "foldl (far_step ps a b) (best, far) is = (best', far')"
      using Cons.prems by (simp add: far_step_def [of ps a b "(best, far)" i])
    from Cons.IH [OF this] False show ?thesis by auto
  qed
qed simp

lemma farthest_Some: "farthest ps tol a b = Some i \<Longrightarrow> a < i \<and> i < b"
  using far_steps [of ps a b "tol * tol" None "[Suc a..<b]"]
  unfolding farthest_def by (cases "foldl (far_step ps a b) (tol * tol, None) [Suc a..<b]") fastforce

lemma farthest_None:
  "farthest ps tol a b = None \<Longrightarrow> a < i \<Longrightarrow> i < b \<Longrightarrow> seg_dist2 (ps ! a) (ps ! b) (ps ! i) \<le> tol * tol"
  using far_steps [of ps a b "tol * tol" None "[Suc a..<b]"]
  unfolding farthest_def by (cases "foldl (far_step ps a b) (tol * tol, None) [Suc a..<b]") fastforce

function split_points :: "pos list \<Rightarrow> real \<Rightarrow> nat \<Rightarrow> nat \<Rightarrow> nat set" where
  "split_points ps tol a b =
     (case farthest ps tol a b of
        None \<Rightarrow> {}
      | Some i \<Rightarrow> insert i (split_points ps tol a i \<union> split_points ps tol i b))"
  by pat_completeness auto
termination by (relation "measure (\<lambda>(ps, tol, a, b). b - a)") (auto dest: farthest_Some)

declare split_points.simps [simp del]

lemma peel_kept:
  "peel ps tol keep stack ops = Inr (kept, ops') \<Longrightarrow>
     kept = keep \<union> (\<Union>(a, b)\<in>set stack. split_points ps tol a b)"
proof (induction ps tol keep stack ops rule: peel.induct)
  case (2 ps tol keep a b stack ops)
  then obtain r where r: "farthest_err ps tol a b ops = Inr r" by (auto simp: bindr_Inr_iff)
  note f = farthest_err_farthest [OF r]
  note step = peel.simps(2) [of ps tol keep a b stack ops] and sp = split_points.simps [of ps tol a b]
  show ?case
  proof (cases "farthest ps tol a b")
    case None
    then have "peel ps tol keep stack (snd (snd r)) = Inr (kept, ops')"
      using "2.prems" r f by (simp add: step del: peel.simps)
    from "2.IH"(1) [OF r _ this] show ?thesis using None f by (simp add: sp)
  next
    case (Some i)
    then have "peel ps tol (insert i keep) ((i, b) # (a, i) # stack) (snd (snd r)) = Inr (kept, ops')"
      using "2.prems" r f by (simp add: step del: peel.simps)
    from "2.IH"(2) [OF r _ this] have "kept = insert i keep \<union> (\<Union>(a, b)\<in>set ((i, b) # (a, i) # stack). split_points ps tol a b)"
      using Some f by simp
    then show ?thesis using Some by (auto simp: sp)
  qed
qed simp

lemma split_points_between: "split_points ps tol a b \<subseteq> {a<..<b}"
proof (induction ps tol a b rule: split_points.induct)
  case (1 ps tol a b)
  show ?case
  proof (cases "farthest ps tol a b")
    case (Some i)
    then show ?thesis using 1 farthest_Some [OF Some] by (subst split_points.simps) fastforce
  qed (simp add: split_points.simps [of ps tol a b])
qed

lemma split_points_gap:
  "a < i \<Longrightarrow> i < b \<Longrightarrow> i \<notin> split_points ps tol a b \<Longrightarrow>
     \<exists>c\<in>insert a (split_points ps tol a b). \<exists>e\<in>insert b (split_points ps tol a b).
       c < i \<and> i < e \<and> (\<forall>j\<in>split_points ps tol a b. \<not> (c < j \<and> j < e))
       \<and> seg_dist2 (ps ! c) (ps ! e) (ps ! i) \<le> tol * tol"
proof (induction ps tol a b rule: split_points.induct)
  case (1 ps tol a b)
  show ?case
  proof (cases "farthest ps tol a b")
    case None
    then have "split_points ps tol a b = {}" by (simp add: split_points.simps)
    then show ?thesis using 1(3,4) farthest_None [OF None 1(3,4)] by simp
  next
    case (Some m)
    have eq: "split_points ps tol a b = insert m (split_points ps tol a m \<union> split_points ps tol m b)"
      using Some by (simp add: split_points.simps [of ps tol a b])
    have l: "split_points ps tol a m \<subseteq> {a<..<m}" and r: "split_points ps tol m b \<subseteq> {m<..<b}"
      by (rule split_points_between)+
    note m = farthest_Some [OF Some]
    have "i \<noteq> m" using 1(5) eq by auto
    then consider "i < m" | "m < i" by linarith
    then show ?thesis
    proof cases
      case 1
      have "i \<notin> split_points ps tol a m" using "1.prems"(3) eq by auto
      from "1.IH"(1) [OF Some "1.prems"(1) 1 this] obtain c e where
        "c \<in> insert a (split_points ps tol a m)" "e \<in> insert m (split_points ps tol a m)" "c < i" "i < e"
        "\<forall>j\<in>split_points ps tol a m. \<not> (c < j \<and> j < e)" "seg_dist2 (ps ! c) (ps ! e) (ps ! i) \<le> tol * tol" by blast
      note ce = this
      have "e \<le> m" using ce(2) l by auto
      then have "\<not> (c < j \<and> j < e)" if "j \<in> insert m (split_points ps tol a m \<union> split_points ps tol m b)" for j
        using that ce(5) r by (cases "j \<in> split_points ps tol a m") auto
      moreover have "c \<in> insert a (split_points ps tol a b)" "e \<in> insert b (split_points ps tol a b)"
        using ce(1,2) unfolding eq by blast+
      ultimately show ?thesis using ce(3,4,6) unfolding eq by blast
    next
      case 2
      have "i \<notin> split_points ps tol m b" using "1.prems"(3) eq by auto
      from "1.IH"(2) [OF Some 2 "1.prems"(2) this] obtain c e where
        "c \<in> insert m (split_points ps tol m b)" "e \<in> insert b (split_points ps tol m b)" "c < i" "i < e"
        "\<forall>j\<in>split_points ps tol m b. \<not> (c < j \<and> j < e)" "seg_dist2 (ps ! c) (ps ! e) (ps ! i) \<le> tol * tol" by blast
      note ce = this
      have "m \<le> c" using ce(1) r by auto
      then have "\<not> (c < j \<and> j < e)" if "j \<in> insert m (split_points ps tol a m \<union> split_points ps tol m b)" for j
        using that ce(5) l by (cases "j \<in> split_points ps tol m b") auto
      moreover have "c \<in> insert a (split_points ps tol a b)" "e \<in> insert b (split_points ps tol a b)"
        using ce(1,2) unfolding eq by blast+
      ultimately show ?thesis using ce(3,4,6) unfolding eq by blast
    qed
  qed
qed

text \<open>C13: The thinning of a line by an explicit stack of segments, when it stays within the limit on
  operations, keeps exactly the points that the recursive Douglas-Peucker algorithm keeps, whatever
  segments the stack holds.\<close>

theorem peel_is_recursive:
  assumes "peel ps tol keep stack ops = Inr (kept, ops')"
  shows "kept = keep \<union> (\<Union>(a, b)\<in>set stack. split_points ps tol a b)"
  using assms by (rule peel_kept)

section \<open>What a thinned line is\<close>

definition thinned :: "real \<Rightarrow> js list \<Rightarrow> nat set \<Rightarrow> bool" where
  \<comment> \<open>the points at \<open>K\<close> keep both ends and every other one is within the tolerance of the segment
     between the kept points around it\<close>
  "thinned tol points K \<longleftrightarrow> K \<subseteq> {..<length points} \<and> (points \<noteq> [] \<longrightarrow> 0 \<in> K \<and> length points - 1 \<in> K)
     \<and> (let ps = projected (unwrap (map xy points))
        in \<forall>i<length points. i \<notin> K \<longrightarrow> (\<exists>a\<in>K. \<exists>b\<in>K. a < i \<and> i < b \<and> (\<forall>j\<in>K. \<not> (a < j \<and> j < b))
             \<and> seg_dist2 (ps ! a) (ps ! b) (ps ! i) \<le> tol * tol))"

lemma nths_all: "nths xs {..<length xs} = xs"
  by (rule nths_all) auto

lemma thinned_all: "thinned tol points {..<length points}"
  by (auto simp: thinned_def)

lemma unwrap_points: "points \<noteq> [] \<Longrightarrow> unwrap_from (fst (xy (hd points))) (map xy points) = unwrap (map xy points)"
  by (cases points) (auto simp: unwrap_def unwrap_from_same)

lemma thinned_split:
  assumes n: "3 \<le> length points" and K: "K = {0, length points - 1} \<union> split_points ps tol 0 (length points - 1)"
    and ps: "ps = projected (unwrap (map xy points))"
  shows "thinned tol points K"
proof -
  let ?n = "length points - 1"
  have sub: "split_points ps tol 0 ?n \<subseteq> {0<..<?n}" by (rule split_points_between)
  have "\<exists>a\<in>K. \<exists>b\<in>K. a < i \<and> i < b \<and> (\<forall>j\<in>K. \<not> (a < j \<and> j < b)) \<and> seg_dist2 (ps ! a) (ps ! b) (ps ! i) \<le> tol * tol"
    if i: "i < length points" "i \<notin> K" for i
  proof -
    have "i \<noteq> 0" "i \<noteq> ?n" "i \<notin> split_points ps tol 0 ?n" using i(2) K by auto
    then have "0 < i" "i < ?n" using i(1) by auto
    from split_points_gap [OF this \<open>i \<notin> split_points ps tol 0 ?n\<close>] obtain c e where
      ce: "c \<in> insert 0 (split_points ps tol 0 ?n)" "e \<in> insert ?n (split_points ps tol 0 ?n)" "c < i" "i < e"
      "\<forall>j\<in>split_points ps tol 0 ?n. \<not> (c < j \<and> j < e)" "seg_dist2 (ps ! c) (ps ! e) (ps ! i) \<le> tol * tol" by blast
    moreover have "e \<le> ?n" using ce(2) sub by auto
    ultimately show ?thesis unfolding K by (intro bexI [of _ c] bexI [of _ e]) auto
  qed
  moreover have "x < length points" if "x \<in> split_points ps tol 0 ?n" for x
    using subsetD [OF sub that] by auto
  then have "K \<subseteq> {..<length points}" using n K by auto
  ultimately show ?thesis using n K by (auto simp: thinned_def ps [symmetric] Let_def)
qed

lemma reduce_thinned:
  assumes "reduce tol st points = Inr (qs, st')"
  shows "\<exists>K. qs = nths points K \<and> thinned tol points K"
proof (cases "length points < 3 \<or> tol = 0")
  case True
  then have "qs = points" using assms by (auto simp: reduce_def Let_def)
  then show ?thesis using thinned_all [of tol points] nths_all [of points] by metis
next
  case False
  then have ne: "points \<noteq> []" by auto
  let ?ps = "projected (unwrap (map xy points))" and ?n = "length points - 1"
  obtain keep ops where k: "peel ?ps tol {0, ?n} [(0, ?n)] (operations st) = Inr (keep, ops)"
    "qs = points \<or> qs = nths points keep"
    using assms False by (auto simp: reduce_def Let_def unwrap_points [OF ne] throw_if_def bindr_Inr_iff split: if_splits)
  have "keep = {0, ?n} \<union> split_points ?ps tol 0 ?n" using peel_kept [OF k(1)] by simp
  then have "thinned tol points keep" using False by (intro thinned_split) auto
  then show ?thesis using k(2) thinned_all nths_all by metis
qed

text \<open>C12: A line that is simplified keeps both its ends and the order of its points, and every point
  left out lies within the tolerance of the line that remains: of the segment between the kept
  points before and after it, in the local projection around the line.\<close>

theorem simplified_within_tolerance:
  assumes "reduce tol st points = Inr (qs, st')"
  shows "\<exists>K. qs = nths points K \<and> thinned tol points K"
  using assms by (rule reduce_thinned)

section \<open>Simplified collections\<close>

lemma nths_both_ends:
  assumes "thinned tol points K" "2 \<le> length points"
  shows "2 \<le> length (nths points K)"
proof -
  let ?S = "{i. i < length points \<and> i \<in> K}"
  have "{0, length points - 1} \<subseteq> ?S" using assms by (auto simp: thinned_def)
  then have "card {0, length points - 1} \<le> card ?S" by (intro card_mono) auto
  moreover have "card {0, length points - 1} = 2" using assms(2) by auto
  ultimately show ?thesis by (simp add: length_nths)
qed

lemma nths_shorter: "length (nths xs K) \<le> length xs"
proof -
  have "card {i. i < length xs \<and> i \<in> K} \<le> card {..<length xs}" by (intro card_mono) auto
  then show ?thesis by (simp add: length_nths)
qed

lemma reduce_effect:
  assumes "reduce tol st points = Inr (qs, st')" "2 \<le> length points"
  shows "2 \<le> length qs" "set qs \<subseteq> set points" "length qs + removed st' = length points + removed st"
proof -
  obtain K where K: "qs = nths points K" "thinned tol points K"
    using reduce_thinned [OF assms(1)] by blast
  show "2 \<le> length qs" using nths_both_ends [OF K(2) assms(2)] K(1) by simp
  show "set qs \<subseteq> set points" using K(1) by (simp add: set_nths_subset)
  have "length qs \<le> length points" using K(1) nths_shorter by simp
  moreover have "qs = points \<and> removed st' = removed st \<or> removed st' = removed st + (length points - length qs)"
    using assms(1) by (auto simp: reduce_def Let_def throw_if_def bindr_Inr_iff split: if_splits)
  ultimately show "length qs + removed st' = length points + removed st" by auto
qed

lemma reduce_coords_effect:
  assumes "reduce_coords tol st c = Inr (c', st')" "line_ok False c" "parsed c"
  shows "line_ok False c'" "parsed c'" "length (elems c') + removed st' = length (elems c) + removed st"
proof -
  obtain qs where q: "reduce tol st (elems c) = Inr (qs, st')" "c' = JArr qs"
    using assms(1) by (auto simp: reduce_coords_def bindr_Inr_iff)
  have "2 \<le> length (elems c)" using assms(2) by (simp add: line_ok_def)
  note r = reduce_effect [OF q(1) this]
  show "line_ok False c'" using r assms(2) q(2) by (auto simp: line_ok_def list_all_iff)
  show "parsed c'" using r(2) parsed_elems [OF assms(3)] q(2) by (auto simp: list_all_iff)
  show "length (elems c') + removed st' = length (elems c) + removed st" using r q(2) by simp
qed

text \<open>A pass over a list with shared counters keeps what each step keeps, and the totals add up.\<close>

lemma map_state_effect:
  assumes "map_state f st xs = Inr (ys, st')"
    and "\<And>x st y st'. x \<in> set xs \<Longrightarrow> f st x = Inr (y, st') \<Longrightarrow> ok y \<and> (w y :: nat) + removed st' = w x + removed st"
  shows "list_all ok ys \<and> length ys = length xs \<and> sum_list (map w ys) + removed st' = sum_list (map w xs) + removed st"
  using assms
proof (induction xs arbitrary: st ys)
  case (Cons x xs)
  obtain y s1 zs where y: "f st x = Inr (y, s1)" "map_state f s1 xs = Inr (zs, st')" "ys = y # zs"
    using Cons.prems(1) by (auto simp: bindr_Inr_iff)
  have "ok y \<and> w y + removed s1 = w x + removed st" by (rule Cons.prems(2) [OF _ y(1)]) simp
  moreover have "list_all ok zs \<and> length zs = length xs \<and> sum_list (map w zs) + removed st' = sum_list (map w xs) + removed s1"
    by (rule Cons.IH [OF y(2)]) (rule Cons.prems(2), simp_all)
  ultimately show ?case using y(3) by auto
qed simp

lemma geometry_ok_null [simp]: "geometry_ok depth JNull"
  by (simp add: geometry_ok.simps)

abbreviation good :: "nat \<Rightarrow> js \<Rightarrow> bool" where
  "good depth g \<equiv> geometry_ok depth g \<and> parsed g"

lemma drop_box:
  assumes "good depth g" "(if b then jdel g ''bbox'' else g) = g'"
  shows "good depth g' \<and> position_count g' = position_count g"
proof -
  have "g = JNull \<or> is_object g"
    using assms(1) by (auto simp: geometry_ok.simps [of depth g] Let_def dest: jget_str_object)
  then show ?thesis
    using assms parsed_jdel [of g]
    by (auto simp: geometry_ok.simps [of depth "jdel g _"] geometry_ok.simps [of depth g] position_count.simps [of g]
        position_count.simps [of "jdel g _"] truthy_object Let_def)
qed

lemma visit_effect:
  "visit tol st g = Inr (g', st') \<Longrightarrow> good depth g \<Longrightarrow>
     good depth g' \<and> position_count g' + removed st' = position_count g + removed st"
proof (induction "size g" arbitrary: depth st g g' st' rule: less_induct)
  case less
  show ?case
  proof (cases "g = JNull")
    case True
    then show ?thesis using less.prems by (simp add: visit.simps [of tol st JNull])
  next
    case False
    let ?t = "jget g ''type''" and ?c = "jget g ''coordinates''" and ?gs = "jget g ''geometries''"
    have g: "truthy g" "depth \<le> 10" and obj: "is_object g"
      using less.prems(2) False by (auto simp: geometry_ok.simps [of depth g] Let_def dest: jget_str_object)
    have put: "truthy (jset g k c)" for k c using obj by (simp add: truthy_object)
    have set_coords: "good depth (jset g ''coordinates'' c)"
      if "parsed c" "?t = JStr (lit ''LineString'') \<and> line_ok False c
        \<or> ?t = JStr (lit ''MultiLineString'') \<and> is_array c \<and> list_all (line_ok False) (elems c)" for c
      using that g obj put less.prems(2) parsed_jset
      by (auto simp: geometry_ok.simps [of depth "jset g _ _"] Let_def)
    consider (ls) "?t = JStr (lit ''LineString'')" | (mls) "?t = JStr (lit ''MultiLineString'')"
      | (gc) "?t = JStr (lit ''GeometryCollection'')"
      | (other) "?t \<noteq> JStr (lit ''LineString'')" "?t \<noteq> JStr (lit ''MultiLineString'')"
          "?t \<noteq> JStr (lit ''GeometryCollection'')" by blast
    then show ?thesis
    proof cases
      case ls
      then have ok: "line_ok False ?c"
        using less.prems(2) False by (auto simp: geometry_ok.simps [of depth g] Let_def)
      then have p: "parsed ?c" using less.prems(2) parsed_jget array_not_undef line_is_array by blast
      obtain c where c: "reduce_coords tol st ?c = Inr (c, st')"
        "g' = (if 0 < removed st' then jdel (jset g ''coordinates'' c) ''bbox'' else jset g ''coordinates'' c)"
        using less.prems(1) ls g(1) by (auto simp: visit.simps [of tol st g] bindr_Inr_iff)
      note r = reduce_coords_effect [OF c(1) ok p]
      have "good depth (jset g ''coordinates'' c)" using set_coords r ls by blast
      from drop_box [OF this c(2) [symmetric]] r(3) ls obj show ?thesis
        by (simp add: position_count.simps [of "jset g _ _"] position_count.simps [of g])
    next
      case mls
      then have ok: "is_array ?c" "list_all (line_ok False) (elems ?c)"
        using less.prems(2) False by (auto simp: geometry_ok.simps [of depth g] Let_def)
      then have p: "parsed ?c" using less.prems(2) parsed_jget array_not_undef by blast
      obtain cs where c: "map_state (reduce_coords tol) st (elems ?c) = Inr (cs, st')"
        "g' = (if 0 < removed st' then jdel (jset g ''coordinates'' (JArr cs)) ''bbox'' else jset g ''coordinates'' (JArr cs))"
        using less.prems(1) mls g(1) by (auto simp: visit.simps [of tol st g] bindr_Inr_iff)
      have "list_all (\<lambda>c. line_ok False c \<and> parsed c) cs \<and> length cs = length (elems ?c)
          \<and> sum_list (map (\<lambda>c. length (elems c)) cs) + removed st' = sum_list (map (\<lambda>c. length (elems c)) (elems ?c)) + removed st"
        using reduce_coords_effect ok(2) parsed_elems [OF p]
        by (intro map_state_effect [OF c(1)]) (auto simp: list_all_iff)
      then have r: "list_all (line_ok False) cs" "list_all parsed cs"
        "points_in (JArr cs) + removed st' = points_in ?c + removed st"
        by (auto simp: list_all_iff points_in_def)
      have "good depth (jset g ''coordinates'' (JArr cs))" using set_coords [of "JArr cs"] r mls by simp
      from drop_box [OF this c(2) [symmetric]] r(3) mls obj show ?thesis
        by (simp add: position_count.simps [of "jset g _ _"] position_count.simps [of g])
    next
      case gc
      then have ok: "is_array ?gs" "list_all (geometry_ok (Suc depth)) (elems ?gs)"
        using less.prems(2) False by (auto simp: geometry_ok.simps [of depth g] Let_def)
      obtain gs where c: "map_state (visit tol) st (elems ?gs) = Inr (gs, st')"
        "g' = (if 0 < removed st' then jdel (jset g ''geometries'' (JArr gs)) ''bbox'' else jset g ''geometries'' (JArr gs))"
        using less.prems(1) gc g(1) by (auto simp: visit.simps [of tol st g] bindr_Inr_iff)
      have step: "good (Suc depth) y \<and> position_count y + removed s2 = position_count x + removed s1"
        if "x \<in> set (elems ?gs)" "visit tol s1 x = Inr (y, s2)" for x y s1 s2
        using less.hyps [OF size_member [OF that(1)] that(2)] ok(2) that(1) parsed_member [OF _ that(1)] less.prems(2)
        by (auto simp: list_all_iff)
      have "list_all (good (Suc depth)) gs \<and> length gs = length (elems ?gs)
          \<and> sum_list (map position_count gs) + removed st' = sum_list (map position_count (elems ?gs)) + removed st"
        by (rule map_state_effect [OF c(1)]) (rule step)
      then have r: "list_all (geometry_ok (Suc depth)) gs" "list_all parsed gs"
        "sum_list (map position_count gs) + removed st' = sum_list (map position_count (elems ?gs)) + removed st"
        by (auto simp: list_all_iff)
      have "good depth (jset g ''geometries'' (JArr gs))"
        using r gc g obj put less.prems(2) parsed_jset [of g "JArr gs"]
        by (auto simp: geometry_ok.simps [of depth "jset g _ _"] Let_def)
      from drop_box [OF this c(2) [symmetric]] r(3) gc obj show ?thesis
        by (simp add: position_count.simps [of "jset g _ _"] position_count.simps [of g])
    next
      case other
      then have "g' = (if 0 < removed st then jdel g ''bbox'' else g)" "st' = st"
        using less.prems(1) g(1) by (auto simp: visit.simps [of tol st g])
      with drop_box [OF less.prems(2)] show ?thesis by simp
    qed
  qed
qed

lemma map_state_all2:
  "map_state f st xs = Inr (ys, st') \<Longrightarrow> (\<And>x s y s'. f s x = Inr (y, s') \<Longrightarrow> R x y) \<Longrightarrow> list_all2 R xs ys"
  by (induction xs arbitrary: st ys) (auto simp: bindr_Inr_iff)

lemma visit_feature_effect:
  assumes "visit_feature tol st f = Inr (f', st')" "feature_valid f" "parsed f"
  shows "(feature_valid f' \<and> parsed f') \<and> feature_points f' + removed st' = feature_points f + removed st"
proof -
  obtain g where g: "visit tol st (jget f ''geometry'') = Inr (g, st')"
    "f' = (if 0 < removed st' then jdel (jset f ''geometry'' g) ''bbox'' else jset f ''geometry'' g)"
    using assms(1) by (auto simp: visit_feature_def bindr_Inr_iff Let_def)
  have ok: "feature_ok f" "geometry_ok 0 (jget f ''geometry'')" using assms(2) by (auto simp: feature_valid_def)
  then have "good 0 (jget f ''geometry'')" using parsed_jget [OF assms(3)] geometry_defined by blast
  note v = visit_effect [OF g(1) this]
  have obj: "is_object f" by (rule feature_object [OF ok(1)])
  have "feature_valid f'" "jget f' ''geometry'' = g"
    using v ok(1) obj g(2) by (auto simp: feature_valid_def feature_ok_def own_jset own_jdel truthy_object)
  moreover have "parsed f'" using v assms(3) g(2) parsed_jset parsed_jdel by auto
  ultimately show ?thesis using v by simp
qed

lemma visit_feature_props: "visit_feature tol st f = Inr (f', st') \<Longrightarrow> props f' = props f"
  by (cases "is_object f", auto simp: visit_feature_def bindr_Inr_iff Let_def split: if_splits)
    (cases f, auto)+

abbreviation positions_in :: "js \<Rightarrow> nat" where
  "positions_in d \<equiv> sum_list (map feature_points (features d))"

lemma simplify_effect:
  assumes "simplify d tolerance = Inr (r, st)" "parsed d"
  shows "collection_ok r \<and> parsed r \<and> positions_in r + removed st = positions_in d
    \<and> list_all2 (\<lambda>f f'. props f' = props f) (features (clone d)) (features r)"
proof -
  obtain tol fs where fs: "map_state (visit_feature tol) \<lparr>operations = 0, removed = 0, line_count = 0\<rparr> (features (clone d)) = Inr (fs, st)"
    and val: "collection_ok d"
    and r: "r = (let r = jset (clone d) ''features'' (JArr fs) in if 0 < removed st then jdel r ''bbox'' else r)"
    using assms(1)
    by (auto simp: simplify_def throw_if_def bindr_Inr_iff Let_def validate_Inr split: jsnum.splits if_splits)
  have c: "collection_ok (clone d)" "parsed (clone d)" using val assms(2) collection_clone parsed_clone by auto
  have step: "(feature_valid y \<and> parsed y) \<and> feature_points y + removed s2 = feature_points x + removed s1"
    if "x \<in> set (features (clone d))" "visit_feature tol s1 x = Inr (y, s2)" for x y s1 s2
    using visit_feature_effect [OF that(2)] that(1) c feature_parsed [OF c(2)]
    by (auto simp: collection_ok_def list_all_iff)
  have "list_all (\<lambda>y. feature_valid y \<and> parsed y) fs \<and> length fs = length (features (clone d))
      \<and> sum_list (map feature_points fs) + removed st = positions_in (clone d) + removed \<lparr>operations = 0, removed = 0, line_count = 0\<rparr>"
    by (rule map_state_effect [OF fs]) (rule step)
  then have f: "list_all feature_valid fs" "list_all parsed fs" "length fs = length (features (clone d))"
    "sum_list (map feature_points fs) + removed st = positions_in (clone d)"
    by (auto simp: list_all_iff)
  let ?r = "jset (clone d) ''features'' (JArr fs)"
  have "sum_list (map feature_points fs) \<le> MAX_POINTS" using f(4) c(1) by (simp add: collection_ok_def)
  then have ok: "collection_ok ?r" using c(1) f by (intro collection_put) (auto simp: collection_ok_def)
  have pr: "parsed ?r" using c(2) f(2) by (simp add: parsed_jset)
  have feats: "features ?r = fs" using collection_object [OF c(1)] by simp
  have "list_all2 (\<lambda>f f'. props f' = props f) (features (clone d)) fs"
    by (rule map_state_all2 [OF fs]) (rule visit_feature_props)
  moreover have "positions_in (clone d) = positions_in d"
    using clones_valid(2) [OF val assms(2) subset_refl] by (simp add: features_clone [OF assms(2)])
  ultimately show ?thesis
    using ok pr feats f(4) collection_jdel [OF ok] parsed_jdel [OF pr] by (simp add: r Let_def)
qed

text \<open>Simplifying a collection gives a valid collection with the same objects and attributes; the
  number of positions it reports as removed is exactly how many are missing. It fails only for a
  tolerance outside 0 to 1000 metres, an invalid collection, lines that are not regional, or when
  the work exceeds two million steps.\<close>

theorem simplify_keeps_valid:
  assumes "simplify d tolerance = Inr (r, st)" "parsed d"
  shows "collection_ok r \<and> parsed r \<and> positions_in r + removed st = positions_in d
    \<and> list_all2 (\<lambda>f f'. props f' = props f) (features (clone d)) (features r)"
  by (rule simplify_effect [OF assms])

section \<open>A straight line of three points\<close>

definition straight :: "js list" where
  "straight = map (\<lambda>x. JArr [JNum (Fin x), JNum (Fin 0)]) [0, 1 / 2, 1]"

definition no_counts :: counters where
  "no_counts = \<lparr>operations = 0, removed = 0, line_count = 0\<rparr>"

lemma straight_points: "map xy straight = [(0, 0), (1 / 2, 0), (1, 0)]" "length straight = 3"
  "hd straight \<noteq> last straight" "xy (hd straight) = (0, 0)" "xy (last straight) = (1, 0)"
  by (simp_all add: straight_def xy_def)

lemma straight_unwrapped: "unwrap_from 0 [(0, 0), (1 / 2, 0), (1, 0)] = [(0, 0), (1 / 2, 0), (1, 0)]"
  by (simp add: near_same)

lemma straight_projected: "projected [(0, 0), (1 / 2, 0), (1, 0)] = [(0, 0), (111195.08 / 2, 0), (111195.08, 0)]"
  by (simp add: projected_def)

lemma straight_middle: "seg_dist2 (0, 0) (111195.08, 0) (111195.08 / 2, 0) = 0"
  by (simp add: seg_dist2_def)

lemma straight_peel:
  "peel [(0, 0), (111195.08 / 2, 0), (111195.08, 0)] 1 {0, 2} [(0, 2)] 0 = Inr ({0, 2}, 1)"
proof -
  have "[Suc 0..<2] = [1]" by (simp add: upt_rec)
  then show ?thesis
    using straight_middle by (simp add: farthest_err_def probe_def throw_if_def)
qed

lemma straight_reduced:
  "reduce 1 no_counts straight = Inr (nths straight {0, 2}, \<lparr>operations = 1, removed = 1, line_count = 1\<rparr>)"
proof -
  have "extent_ok [(0, 0), (1 / 2, 0), (1, 0)]" by (simp add: extent_ok_def)
  moreover have "length (nths straight {0, 2}) = 2" by (simp add: straight_def nths_Cons)
  ultimately show ?thesis
    using straight_peel
    by (simp add: reduce_def straight_points straight_unwrapped straight_projected no_counts_def Let_def throw_if_def
        del: unwrap_from.simps peel.simps)
qed

theorem simplified_within_tolerance_witness:
  "\<exists>K. nths straight {0, 2} = nths straight K \<and> thinned 1 straight K"
  by (rule simplified_within_tolerance [OF straight_reduced])

theorem peel_is_recursive_witness:
  "{0, 2} = {0, 2} \<union> (\<Union>(a, b)\<in>{(0, 2)}. split_points [(0, 0), (111195.08 / 2, 0), (111195.08, 0)] 1 a b)"
  using peel_is_recursive [OF straight_peel] by simp

lemma shop_simplify: "is_ok (simplify shop_table (Fin 10))"
proof -
  have v: "validate shop_table = Inr 1"
    using shop_ok(1) by (simp add: validate_Inr) (simp add: shop_table_def point_feature_valid)
  show ?thesis
    by (simp add: simplify_def v Let_def features_clone shop_ok)
      (simp add: shop_table_def visit_feature_def point_feature_def visit.simps Let_def)
qed

theorem simplify_keeps_valid_witness:
  "\<exists>r st. simplify shop_table (Fin 10) = Inr (r, st) \<and> collection_ok r \<and> positions_in r + removed st = 1"
proof -
  obtain r st where r: "simplify shop_table (Fin 10) = Inr (r, st)"
    using shop_simplify by (auto simp: is_ok_def split: sum.splits)
  moreover have "positions_in shop_table = 1" by (simp add: shop_table_def point_feature_valid)
  ultimately show ?thesis using simplify_keeps_valid [OF r shop_ok(2)] by auto
qed

end
