(* ===== verification/Workbench.thy ===== *)
theory Workbench
  imports Simplify
begin

text \<open>
  The workbench itself (\<open>create\<close> in \<open>src/cmd/web/geo-workbench.js\<close>): the collection being prepared,
  at most five earlier versions of it, the CSV table read last, the filter and the page shown.
  An asynchronous action is two events, its start and its end, with what the file or the server
  gave; between them the workbench is busy. What the browser provides (the text of a number, the
  JSON parser, \<open>Number(s)\<close>, the UTF-8 decoder) is the record \<open>host\<close>.
\<close>

record host =
  host_num :: "real \<Rightarrow> jstr"
  host_parse :: "jstr \<Rightarrow> js option"
  host_number :: "jstr \<Rightarrow> jsnum"
  host_decode :: "8 word list \<Rightarrow> jstr"

definition host_ok :: "host \<Rightarrow> bool" where
  \<comment> \<open>the JSON parser returns JSON values\<close>
  "host_ok h \<longleftrightarrow> (\<forall>s v. host_parse h s = Some v \<longrightarrow> parsed v)"

datatype wb_notice = WbNone | WbDone | WbFailed wb_err

record wb =
  wdata :: js
  history :: "js list"
  wcsv :: "csv option"
  wpage :: nat
  wbusy :: bool
  filterField :: jstr
  filterValue :: jstr
  wnotice :: wb_notice

definition empty :: js where
  "empty = collection_of []"

definition init_wb :: wb where
  "init_wb = \<lparr>wdata = empty, history = [], wcsv = None, wpage = 0, wbusy = False,
     filterField = [], filterValue = [], wnotice = WbNone\<rparr>"

section \<open>Selection, pages, history\<close>

abbreviation PAGE_SIZE :: nat where "PAGE_SIZE \<equiv> 25"

definition selected :: "host \<Rightarrow> wb \<Rightarrow> nat list" where
  "selected h st = matching (host_num h) (wdata st) (filterField st) (filterValue st)"

definition page_count :: "nat \<Rightarrow> nat" where
  \<comment> \<open>\<open>Math.max(1, Math.ceil(n / PAGE_SIZE))\<close>\<close>
  "page_count n = max 1 ((n + PAGE_SIZE - 1) div PAGE_SIZE)"

definition shown_rows :: "host \<Rightarrow> wb \<Rightarrow> nat list" where
  "shown_rows h st = take PAGE_SIZE (drop (wpage st * PAGE_SIZE) (selected h st))"

definition picker :: "bool \<Rightarrow> jstr list \<Rightarrow> jstr \<Rightarrow> jstr" where
  \<comment> \<open>what a list of choices selects after it was filled anew: the old choice if it is still there\<close>
  "picker blank ks old =
     (if old \<in> set ks then old else if blank then [] else case ks of [] \<Rightarrow> [] | k # _ \<Rightarrow> k)"

definition render :: "host \<Rightarrow> wb \<Rightarrow> wb" where
  \<comment> \<open>the filter falls back to all objects when its attribute is gone, the page to the last one\<close>
  "render h st =
     (let st = st\<lparr>filterField := picker True (fields_of (wdata st)) (filterField st)\<rparr>
      in st\<lparr>wpage := min (wpage st) (page_count (length (selected h st)) - 1)\<rparr>)"

definition push5 :: "'a \<Rightarrow> 'a list \<Rightarrow> 'a list" where
  "push5 x xs = (let ys = xs @ [x] in if 5 < length ys then tl ys else ys)"

interpretation wb_log: bounded_log 5 push5
proof
  fix x :: 'a and xs
  show "set (push5 x xs) \<subseteq> insert x (set xs)"
    by (cases xs) (auto simp: push5_def Let_def)
  show "push5 x xs \<noteq> [] \<and> last (push5 x xs) = x"
    by (cases xs) (auto simp: push5_def Let_def)
qed (simp add: push5_def Let_def)

definition accept :: "host \<Rightarrow> js \<Rightarrow> wb_err + js" where
  \<comment> \<open>the checks of \<open>remember\<close>\<close>
  "accept h nxt =
     bindr (validate nxt) (\<lambda>_.
       throw_if (MAX_BYTES < utf8_length (stringify (host_num h) nxt)) TooLarge (Inr nxt))"

definition keep :: "host \<Rightarrow> js \<Rightarrow> wb \<Rightarrow> wb" where
  "keep h nxt st = render h (st\<lparr>history := push5 (wdata st) (history st), wdata := nxt, wpage := 0\<rparr>)"

definition remember :: "host \<Rightarrow> js \<Rightarrow> wb \<Rightarrow> wb_err + wb" where
  "remember h nxt st = bindr (accept h nxt) (\<lambda>d. Inr (keep h d st))"

text \<open>The table shows the first eight attributes of the objects of the page; an attribute that is nested
  is shown but cannot be edited. \<open>inh\<close> is the text of an inherited property.\<close>

definition table_head :: "js \<Rightarrow> jstr list" where
  "table_head d = lit ''Objekt'' # lit ''Geometrie'' # take 8 (fields_of d)"

definition table_row :: "host \<Rightarrow> (jstr \<Rightarrow> jstr) \<Rightarrow> js \<Rightarrow> nat \<Rightarrow> jstr list" where
  "table_row h inh d i =
     (let f = features d ! i; t = jget (jget f ''geometry'') ''type''
      in host_num h (of_nat (i + 1)) # (if truthy t then text_of (host_num h) t else lit ''Ohne Geometrie'')
         # map (prop_text (host_num h) inh f) (take 8 (fields_of d)))"

definition table :: "host \<Rightarrow> (jstr \<Rightarrow> jstr) \<Rightarrow> wb \<Rightarrow> jstr list list" where
  "table h inh st = table_head (wdata st) # map (table_row h inh (wdata st)) (shown_rows h st)"

definition fillEdit :: "host \<Rightarrow> (jstr \<Rightarrow> jstr) \<Rightarrow> wb \<Rightarrow> nat \<Rightarrow> jstr \<Rightarrow> jstr \<times> bool" where
  \<comment> \<open>text and \<open>disabled\<close> of the value field, for the object number and attribute chosen\<close>
  "fillEdit h inh st n field =
     (if n = 0 \<or> length (features (wdata st)) < n then ([], wbusy st)
      else let f = features (wdata st) ! (n - 1);
               inherited = (\<not> own (props f) field \<and> \<not> nullish (props f) \<and> field \<in> set inherited_keys)
           in (prop_text (host_num h) inh f field,
               wbusy st \<or> inherited \<or> (own (props f) field \<and> \<not> scalar (the (map_of (entries_of (props f)) field)))))"

section \<open>Files and layers\<close>

definition readFile :: "(nat \<times> jstr) option \<Rightarrow> wb_err + jstr" where
  \<comment> \<open>the bytes and the text of the chosen file\<close>
  "readFile file = (case file of None \<Rightarrow> Inl NoFile
     | Some (bytes, text) \<Rightarrow> throw_if (MAX_BYTES < bytes) TooLarge (Inr text))"

fun read_chunks :: "nat \<Rightarrow> 8 word list list \<Rightarrow> wb_err + 8 word list list" where
  "read_chunks bytes [] = Inr []"
| "read_chunks bytes (c # cs) =
     throw_if (MAX_BYTES < bytes + length c) TooLarge
       (bindr (read_chunks (bytes + length c) cs) (\<lambda>r. Inr (c # r)))"

text \<open>The reply of the server to the request for a layer: not fetched, refused or without a body, or the
  chunks of its body.\<close>

datatype layer_reply = Unreachable wb_err | Refused | Body "8 word list list"

definition layer_text :: "host \<Rightarrow> jstr \<Rightarrow> layer_reply \<Rightarrow> wb_err + jstr" where
  "layer_text h name reply =
     throw_if (name = []) NoLayer
       (case reply of
          Unreachable e \<Rightarrow> Inl e
        | Refused \<Rightarrow> Inl ServerFailed
        | Body chunks \<Rightarrow> bindr (read_chunks 0 chunks) (\<lambda>cs. Inr (host_decode h (concat cs))))"

section \<open>Events\<close>

datatype wb_event =
    StartAction
  | FileRead "(nat \<times> jstr) option"
  | CsvRead "(nat \<times> jstr) option"
  | LayerRead jstr layer_reply
  | LayersListed "wb_err + jstr list"
  | SetFilter jstr jstr
  | PreviousPage | NextPage
  | EditAttribute int jstr jstr
  | KeepSelection
  | SimplifyLines jsnum
  | JoinTable jstr jstr
  | UndoChange
  | LoadData js

text \<open>The collection an event wants to work on next, if it wants one: \<open>None\<close> for the events that change
  no data.\<close>

definition disabled :: "wb \<Rightarrow> bool" where
  \<comment> \<open>the buttons that work on the objects: disabled while busy and while there is none\<close>
  "disabled st \<longleftrightarrow> wbusy st \<or> features (wdata st) = []"

fun proposed :: "host \<Rightarrow> wb_event \<Rightarrow> wb \<Rightarrow> (wb_err + js) option" where
  "proposed h (FileRead file) st = (if wbusy st then Some (bindr (readFile file) (parse (host_parse h))) else None)"
| "proposed h (LayerRead name reply) st =
     (if wbusy st then Some (bindr (layer_text h name reply) (parse (host_parse h))) else None)"
| "proposed h (EditAttribute i field v) st =
     (if disabled st then None else Some (edit (host_number h) (wdata st) i field v))"
| "proposed h KeepSelection st =
     (if disabled st then None else Some (subset_of (wdata st) (map int (selected h st))))"
| "proposed h (SimplifyLines tol) st =
     (if disabled st then None else Some (bindr (simplify (wdata st) tol) (\<lambda>r. Inr (fst r))))"
| "proposed h (JoinTable field csvKey) st =
     (if disabled st then None else case wcsv st of None \<Rightarrow> None
        | Some t \<Rightarrow> Some (bindr (join (host_num h) (wdata st) t field csvKey) (\<lambda>r. Inr (join_data r))))"
| "proposed h (LoadData d) st = Some (Inr (clone d))"
| "proposed h ev st = None"

definition propose :: "host \<Rightarrow> wb_event \<Rightarrow> wb \<Rightarrow> wb" where
  "propose h ev st =
     (case proposed h ev st of
        None \<Rightarrow> st
      | Some r \<Rightarrow>
          (case bindr r (\<lambda>d. remember h d st) of
             Inl e \<Rightarrow> st\<lparr>wnotice := WbFailed e\<rparr>
           | Inr st' \<Rightarrow> st'\<lparr>wnotice := WbDone\<rparr>))"

definition finish :: "host \<Rightarrow> wb \<Rightarrow> wb" where
  \<comment> \<open>\<open>finally { busy = false; render(); }\<close>\<close>
  "finish h st = render h (st\<lparr>wbusy := False\<rparr>)"

fun wb_step :: "host \<Rightarrow> wb_event \<Rightarrow> wb \<Rightarrow> wb" where
  "wb_step h StartAction st = (if wbusy st then st else render h (st\<lparr>wbusy := True\<rparr>))"
| "wb_step h (FileRead file) st = (if wbusy st then finish h (propose h (FileRead file) st) else st)"
| "wb_step h (LayerRead name reply) st = (if wbusy st then finish h (propose h (LayerRead name reply) st) else st)"
| "wb_step h (CsvRead file) st =
     (if wbusy st
      then finish h (case bindr (readFile file) parseCSV of
             Inl e \<Rightarrow> st\<lparr>wnotice := WbFailed e\<rparr>
           | Inr t \<Rightarrow> st\<lparr>wcsv := Some t, wnotice := WbDone\<rparr>)
      else st)"
| "wb_step h (LayersListed r) st =
     (if wbusy st then finish h (st\<lparr>wnotice := (case r of Inl e \<Rightarrow> WbFailed e | Inr _ \<Rightarrow> WbDone)\<rparr>) else st)"
| "wb_step h (SetFilter field v) st = render h (st\<lparr>filterField := field, filterValue := v, wpage := 0\<rparr>)"
| "wb_step h PreviousPage st = (if wbusy st \<or> wpage st = 0 then st else render h (st\<lparr>wpage := wpage st - 1\<rparr>))"
| "wb_step h NextPage st =
     (if wbusy st \<or> page_count (length (selected h st)) \<le> wpage st + 1 then st
      else render h (st\<lparr>wpage := wpage st + 1\<rparr>))"
| "wb_step h UndoChange st =
     (if wbusy st \<or> history st = [] then st
      else (render h (st\<lparr>wdata := last (history st), history := butlast (history st), wpage := 0\<rparr>))\<lparr>wnotice := WbDone\<rparr>)"
| "wb_step h ev st = propose h ev st"

section \<open>Export\<close>

datatype export_format = AsGeoJson | AsCsv

definition exported :: "host \<Rightarrow> jstr list \<Rightarrow> wb \<Rightarrow> wb_err + js" where
  \<comment> \<open>the selected objects, with the selected attributes if any are selected\<close>
  "exported h cols st =
     bindr (subset_of (wdata st) (map int (selected h st))) (\<lambda>r.
       Inr (if cols = [] then r else selectFields r cols))"

definition exportData :: "host \<Rightarrow> (jstr \<Rightarrow> jstr) \<Rightarrow> (js \<Rightarrow> jstr) \<Rightarrow> export_format \<Rightarrow> jstr list \<Rightarrow> wb \<Rightarrow> (wb_err + jstr) option" where
  \<comment> \<open>the downloaded text; \<open>pretty\<close> is \<open>JSON.stringify(v, null, 2)\<close>\<close>
  "exportData h inh pretty format cols st =
     (if disabled st then None
      else Some (bindr (exported h cols st) (\<lambda>r.
        Inr (case format of AsCsv \<Rightarrow> toCSV (host_num h) inh r | AsGeoJson \<Rightarrow> pretty r))))"

definition zoom_bounds :: "host \<Rightarrow> wb \<Rightarrow> (wb_err + pos \<times> pos) option" where
  \<comment> \<open>the extent the map is moved to\<close>
  "zoom_bounds h st =
     (if disabled st then None
      else Some (bindr (subset_of (wdata st) (map int (selected h st))) bounds))"

section \<open>The invariant\<close>

definition valid :: "js \<Rightarrow> bool" where
  "valid d \<longleftrightarrow> collection_ok d \<and> parsed d"

definition wb_ok :: "wb \<Rightarrow> bool" where
  "wb_ok st \<longleftrightarrow> valid (wdata st) \<and> list_all valid (history st) \<and> length (history st) \<le> 5"

lemma render_keeps [simp]:
  "wdata (render h st) = wdata st" "history (render h st) = history st" "wbusy (render h st) = wbusy st"
  "wcsv (render h st) = wcsv st" "filterValue (render h st) = filterValue st" "wnotice (render h st) = wnotice st"
  by (simp_all add: render_def Let_def)

lemma selected_in: "distinct (selected h st)" "i \<in> set (selected h st) \<Longrightarrow> i < length (features (wdata st))"
  by (auto simp: selected_def matching_def)

lemma selection_Inr:
  assumes "collection_ok (wdata st)" "parsed (wdata st)"
  shows "\<exists>r. subset_of (wdata st) (map int (selected h st)) = Inr r \<and> collection_ok r \<and> parsed r
    \<and> features r = map (\<lambda>i. clone (features (wdata st) ! i)) (selected h st)"
  by (rule subset_Inr [OF assms selected_in(1)]) (use selected_in(2) in blast)

lemma accept_Inr: "accept h d = Inr d' \<Longrightarrow> d' = d \<and> collection_ok d"
  by (auto simp: accept_def bindr_Inr_iff validate_Inr throw_if_def split: if_splits)

lemma parse_Inr: "parse p s = Inr d \<Longrightarrow> \<exists>t. p t = Some d"
  by (auto simp: parse_def throw_if_def bindr_Inr_iff split: if_splits option.splits)

definition wb_allowed :: "wb_event \<Rightarrow> bool" where
  \<comment> \<open>other parts of the page hand over values without undefined parts\<close>
  "wb_allowed ev \<longleftrightarrow> (case ev of LoadData d \<Rightarrow> parsed d | _ \<Rightarrow> True)"

lemma proposed_parsed:
  assumes "host_ok h" "wb_allowed ev" "valid (wdata st)" "proposed h ev st = Some (Inr d)"
  shows "parsed d"
proof -
  have v: "collection_ok (wdata st)" "parsed (wdata st)" using assms(3) by (auto simp: valid_def)
  have p: "parse (host_parse h) s = Inr d' \<Longrightarrow> parsed d'" for s d'
    using assms(1) parse_Inr [of "host_parse h" s d'] by (auto simp: host_ok_def parse_def throw_if_def bindr_Inr_iff split: if_splits option.splits)
  show ?thesis
  proof (cases ev)
    case (EditAttribute i f x)
    then show ?thesis using assms(4) edit_ok [OF v] by (auto split: if_splits)
  next
    case KeepSelection
    then have "subset_of (wdata st) (map int (selected h st)) = Inr d" using assms(4) by (auto split: if_splits)
    then show ?thesis using selection_Inr [OF v, of h] by auto
  next
    case (SimplifyLines t)
    then show ?thesis using assms(4) simplify_effect [OF _ v(2)] by (auto simp: bindr_Inr_iff split: if_splits)
  next
    case (JoinTable f k)
    then show ?thesis using assms(4) join_effect [OF v] by (auto simp: bindr_Inr_iff split: if_splits option.splits)
  next
    case (LoadData x)
    then show ?thesis using assms(2,4) parsed_clone by (auto simp: wb_allowed_def)
  qed (use assms(4) p in \<open>auto simp: bindr_Inr_iff split: if_splits\<close>)
qed

lemma propose_cases:
  obtains (same) e where "propose h ev st = st\<lparr>wnotice := e\<rparr>"
    | (new) d where "proposed h ev st = Some (Inr d)" "collection_ok d" "propose h ev st = (keep h d st)\<lparr>wnotice := WbDone\<rparr>"
proof (cases "proposed h ev st")
  case None
  then have "propose h ev st = st\<lparr>wnotice := wnotice st\<rparr>" by (simp add: propose_def)
  then show ?thesis using that(1) by blast
next
  case (Some r)
  show ?thesis
  proof (cases "bindr r (\<lambda>d. remember h d st)")
    case (Inl e)
    then show ?thesis using that(1) [of "WbFailed e"] Some by (simp add: propose_def)
  next
    case (Inr st')
    then obtain d where d: "r = Inr d" "accept h d = Inr d" "st' = keep h d st"
      by (auto simp: bindr_Inr_iff remember_def dest: accept_Inr)
    then show ?thesis using that(2) [of d] Some Inr accept_Inr [OF d(2)] by (simp add: propose_def)
  qed
qed

lemma wb_keep_ok: "wb_ok st \<Longrightarrow> valid d \<Longrightarrow> wb_ok (keep h d st)"
  using wb_log.push_all [of valid "wdata st" "history st"] wb_log.push_length [of "history st" "wdata st"]
  by (auto simp: wb_ok_def keep_def list_all_iff)

lemma propose_ok:
  assumes "host_ok h" "wb_allowed ev" "wb_ok st"
  shows "wb_ok (propose h ev st)"
proof (cases rule: propose_cases [of h ev st])
  case (same e)
  then show ?thesis using assms(3) by (simp add: wb_ok_def)
next
  case (new d)
  have "parsed d" by (rule proposed_parsed [OF assms(1,2) _ new(1)]) (use assms(3) in \<open>simp add: wb_ok_def\<close>)
  then have "wb_ok (keep h d st)" using new(2) wb_keep_ok [OF assms(3)] by (simp add: valid_def)
  then show ?thesis using new(3) by (simp add: wb_ok_def)
qed

lemma wb_step_ok:
  assumes "host_ok h" "wb_allowed ev" "wb_ok st"
  shows "wb_ok (wb_step h ev st)"
proof (cases ev)
  case UndoChange
  then show ?thesis
    using assms(3) by (auto simp: wb_ok_def list_all_iff dest: in_set_butlastD)
qed (use assms(3) propose_ok [OF assms] in \<open>auto simp: wb_ok_def finish_def split: sum.split\<close>)

inductive wb_reachable :: "host \<Rightarrow> wb \<Rightarrow> bool" for h where
  wb_start: "wb_reachable h init_wb"
| wb_next: "wb_reachable h st \<Longrightarrow> wb_allowed ev \<Longrightarrow> wb_reachable h (wb_step h ev st)"

lemma init_wb_ok: "wb_ok init_wb"
  by (simp add: wb_ok_def init_wb_def valid_def empty_def collection_ok_def)
    (simp add: collection_of_def obj_wf_def key_rank_def array_index_def lit_def undigits_def digits.simps)

lemma wb_reachable_ok: "wb_reachable h st \<Longrightarrow> host_ok h \<Longrightarrow> wb_ok st"
  by (induction rule: wb_reachable.induct) (auto simp: init_wb_ok wb_step_ok)

lemma empty_selection: "features (wdata st) = [] \<Longrightarrow> selected h st = []"
  by (simp add: selected_def matching_def)

text \<open>C11: Whatever is opened, edited, joined, simplified, undone or filtered, the selected objects can be
  exported: cutting them out of the collection of any reachable workbench succeeds, gives a valid
  collection of exactly these objects, and at most five earlier versions are kept.\<close>

theorem workbench_exports:
  assumes "wb_reachable h st" "host_ok h"
  shows "\<exists>r. exported h cols st = Inr r \<and> collection_ok r \<and> length (features r) = length (selected h st)
     \<and> (cols = [] \<longrightarrow> features r = map (\<lambda>i. clone (features (wdata st) ! i)) (selected h st))
     \<and> length (history st) \<le> 5"
proof -
  have ok: "wb_ok st" by (rule wb_reachable_ok [OF assms])
  then have v: "collection_ok (wdata st)" "parsed (wdata st)" by (auto simp: wb_ok_def valid_def)
  obtain r where r: "subset_of (wdata st) (map int (selected h st)) = Inr r" "collection_ok r" "parsed r"
      "features r = map (\<lambda>i. clone (features (wdata st) ! i)) (selected h st)"
    using selection_Inr [OF v, of h] by auto
  have "length (features (selectFields r cols)) = length (features r)"
    using features_clone [OF r(3)] collection_object [OF collection_clone [OF r(2,3)]]
    by (simp add: selectFields_def Let_def)
  then show ?thesis
    using r selectFields_ok(1) [OF r(2,3)] ok by (simp add: exported_def wb_ok_def)
qed

section \<open>The history as a window on all versions\<close>

abbreviation versions :: "wb \<Rightarrow> js list" where
  "versions st \<equiv> history st @ [wdata st]"

text \<open>What the history promises: a stack of versions that never forgets. A change puts a valid version on
  top, an undo removes the top one, every other event leaves the stack alone.\<close>

inductive version_step :: "js list \<Rightarrow> js list \<Rightarrow> bool" where
  stay: "version_step vs vs"
| change: "valid d \<Longrightarrow> version_step vs (vs @ [d])"
| undo: "vs \<noteq> [] \<Longrightarrow> version_step (vs @ [d]) vs"

lemma push5_suffix: "suffix (push5 x xs) (xs @ [x])"
  unfolding push5_def Let_def by (cases xs) (auto intro: suffix_ConsI)

lemma propose_versions:
  assumes "host_ok h" "wb_allowed ev" "wb_ok st" "suffix (versions st) vs"
  shows "\<exists>vs'. version_step vs vs' \<and> suffix (versions (propose h ev st)) vs'"
proof (cases rule: propose_cases [of h ev st])
  case (same e)
  then show ?thesis using assms(4) version_step.stay by auto
next
  case (new d)
  have "parsed d" by (rule proposed_parsed [OF assms(1,2) _ new(1)]) (use assms(3) in \<open>simp add: wb_ok_def\<close>)
  then have "version_step vs (vs @ [d])" using new(2) by (intro change) (simp add: valid_def)
  moreover have "suffix (push5 (wdata st) (history st)) vs"
    using push5_suffix assms(4) by (rule suffix_order.trans)
  then have "suffix (push5 (wdata st) (history st) @ [d]) (vs @ [d])" by simp
  ultimately show ?thesis using new(3) by (auto simp: keep_def)
qed


text \<open>Undo takes back the last change: when an event has changed the data and the workbench is idle,
  undoing gives the data from before, and one earlier version fewer than there were then, unless
  five were kept already.\<close>

theorem undo_restores:
  assumes "wdata (wb_step h ev st) \<noteq> wdata st" "ev \<noteq> UndoChange" "\<not> wbusy (wb_step h ev st)" "length (history st) \<le> 5"
  shows "wdata (wb_step h UndoChange (wb_step h ev st)) = wdata st
    \<and> history (wb_step h UndoChange (wb_step h ev st)) = (if length (history st) < 5 then history st else tl (history st))"
proof -
  let ?p = "propose h ev st"
  have data: "wdata (wb_step h ev st) = wdata ?p" "history (wb_step h ev st) = history ?p"
    using assms(1,2) by (cases ev; auto simp: finish_def split: sum.splits if_splits)+
  obtain d where d: "?p = (keep h d st)\<lparr>wnotice := WbDone\<rparr>"
    using assms(1) data by (cases rule: propose_cases [of h ev st]) auto
  have "history ?p = push5 (wdata st) (history st)" by (simp add: d keep_def)
  then have "history ?p = (if length (history st) < 5 then history st else tl (history st)) @ [wdata st]"
    using assms(4) by (cases "history st") (auto simp: push5_def Let_def)
  then show ?thesis using assms(3) data by simp
qed

section \<open>A workbench with one object\<close>

definition sample_host :: host where
  "sample_host = \<lparr>host_num = (\<lambda>_. lit ''1''), host_parse = (\<lambda>_. Some (collection_of [])), host_number = (\<lambda>_. NaN), host_decode = (\<lambda>_. [])\<rparr>"

definition one_object :: js where
  "one_object = collection_of [point_feature [] 9 51]"

lemma sample_host_ok: "host_ok sample_host"
  using init_wb_ok by (simp add: host_ok_def sample_host_def wb_ok_def init_wb_def valid_def empty_def)

lemma one_object_ok: "collection_ok one_object" "parsed one_object"
proof -
  show "collection_ok one_object"
    by (simp add: one_object_def collection_ok_def point_feature_valid)
  show "parsed one_object"
    by (simp add: one_object_def collection_of_def point_feature_def obj_wf_def key_rank_def array_index_def lit_def undigits_def digits.simps)
qed

lemma one_object_short: "length (stringify (\<lambda>_. lit ''1'') one_object) \<le> 1000"
  using json_string_length [of "lit ''type''"] json_string_length [of "lit ''FeatureCollection''"]
    json_string_length [of "lit ''features''"] json_string_length [of "lit ''Feature''"]
    json_string_length [of "lit ''properties''"] json_string_length [of "lit ''geometry''"]
    json_string_length [of "lit ''Point''"] json_string_length [of "lit ''coordinates''"]
  by (simp add: one_object_def collection_of_def point_feature_def)

lemma one_object_accepted: "accept sample_host one_object = Inr one_object"
proof -
  have "utf8_length (stringify (host_num sample_host) one_object) \<le> MAX_BYTES"
    using one_object_short utf8_length_le [of "stringify (host_num sample_host) one_object"] by (simp add: sample_host_def)
  then show ?thesis
    using one_object_ok by (auto simp: accept_def throw_if_def validate_Inr bindr_Inr_iff)
qed

definition opened :: wb where
  "opened = wb_step sample_host (LoadData one_object) init_wb"

lemma opened_parts: "wdata opened = one_object" "history opened = [empty]" "wbusy opened = False"
proof -
  have "clone one_object = one_object"
    by (simp add: one_object_def collection_of_def point_feature_def)
  then have eq: "opened = (keep sample_host one_object init_wb)\<lparr>wnotice := WbDone\<rparr>"
    using one_object_accepted by (simp add: opened_def propose_def remember_def)
  moreover have "wdata init_wb = empty" "history init_wb = []" "wbusy init_wb = False" by (simp_all add: init_wb_def)
  ultimately show "wdata opened = one_object" "history opened = [empty]" "wbusy opened = False"
    unfolding eq by (simp_all add: keep_def push5_def)
qed

lemma one_object_new: "one_object \<noteq> empty"
  by (simp add: one_object_def empty_def collection_of_def)

lemma opened_reachable: "wb_reachable sample_host opened" "wb_allowed (LoadData one_object)"
  using wb_next [OF wb_start, of "LoadData one_object"] one_object_ok by (simp_all add: opened_def wb_allowed_def)

theorem workbench_exports_witness:
  "\<exists>r. exported sample_host [] opened = Inr r \<and> collection_ok r"
  using workbench_exports [OF opened_reachable(1) sample_host_ok, of "[]"] by auto


theorem undo_restores_witness:
  "wdata (wb_step sample_host UndoChange opened) = empty \<and> history (wb_step sample_host UndoChange opened) = []"
proof -
  have "wdata init_wb = empty" "history init_wb = []" by (simp_all add: init_wb_def)
  then show ?thesis
    using undo_restores [of sample_host "LoadData one_object" init_wb, folded opened_def] opened_parts one_object_new
    by (simp del: wb_step.simps)
qed

end
