(* ===== verification/Planning.thy ===== *)
theory Planning
  imports Json LonWrap "HOL-Library.Multiset"
begin

text \<open>
  Measuring and planning (\<open>src/cmd/web/planning.js\<close>): distances on a sphere, plane segments and
  rings, the measurement of a sketch with all its checks, the balance of buildings on a site, the
  export and the stored drafts. An item is a record with the fields the code gives it; \<open>measure\<close>
  itself reads an arbitrary JSON value, as it is called on stored data. Numbers are real: the
  rounding of floating point arithmetic is not modelled.
\<close>

datatype plan_err = BadKind | BadPoints | BadCoordinates | TooFar | BadFloors | TooClose | Crossing
  | OnNeighbour | TooSmall | BadStored | NotText

section \<open>Distances\<close>

abbreviation R :: real where "R \<equiv> 6371008.8"

definition rad :: real where "rad = pi / 180"

definition distance :: "pos \<Rightarrow> pos \<Rightarrow> real" where
  "distance a b =
     (let h = (sin ((snd b - snd a) * rad / 2))\<^sup>2
            + cos (snd a * rad) * cos (snd b * rad) * (sin ((fst b - fst a) * rad / 2))\<^sup>2
      in 2 * R * arcsin (sqrt (min 1 h)))"

section \<open>Segments and rings\<close>

definition cross :: "pos \<Rightarrow> pos \<Rightarrow> pos \<Rightarrow> real" where
  "cross a b c = (fst b - fst a) * (snd c - snd a) - (snd b - snd a) * (fst c - fst a)"

definition onSegment :: "pos \<Rightarrow> pos \<Rightarrow> pos \<Rightarrow> bool" where
  "onSegment a b p \<longleftrightarrow> \<bar>cross a b p\<bar> < 1 / 10 ^ 12
     \<and> min (fst a) (fst b) - 1 / 10 ^ 12 \<le> fst p \<and> fst p \<le> max (fst a) (fst b) + 1 / 10 ^ 12
     \<and> min (snd a) (snd b) - 1 / 10 ^ 12 \<le> snd p \<and> snd p \<le> max (snd a) (snd b) + 1 / 10 ^ 12"

definition intersects :: "pos \<Rightarrow> pos \<Rightarrow> pos \<Rightarrow> pos \<Rightarrow> bool" where
  "intersects a b c d \<longleftrightarrow>
     cross a b c * cross a b d < 0 \<and> cross c d a * cross c d b < 0
     \<or> onSegment a b c \<or> onSegment a b d \<or> onSegment c d a \<or> onSegment c d b"

definition crosses_ray :: "pos \<Rightarrow> pos \<Rightarrow> pos \<Rightarrow> bool" where
  "crosses_ray p a b \<longleftrightarrow> (snd p < snd a) \<noteq> (snd p < snd b)
     \<and> fst p < (fst b - fst a) * (snd p - snd a) / (snd b - snd a) + fst a"

fun ray_loop :: "pos \<Rightarrow> (pos \<times> pos) list \<Rightarrow> bool \<Rightarrow> bool" where
  "ray_loop p [] yes = yes"
| "ray_loop p ((a, b) # es) yes =
     (if onSegment a b p then True else ray_loop p es (if crosses_ray p a b then \<not> yes else yes))"

definition inside :: "pos \<Rightarrow> pos list \<Rightarrow> bool" where
  \<comment> \<open>the edges end at each point in turn, the first one coming from the last point\<close>
  "inside p ring = ray_loop p (zip (last ring # ring) ring) False"

definition side :: "pos list \<Rightarrow> nat \<Rightarrow> pos \<times> pos" where
  "side ps i = (ps ! i, ps ! ((i + 1) mod length ps))"

definition ringsIntersect :: "pos list \<Rightarrow> pos list \<Rightarrow> bool" where
  "ringsIntersect a b \<longleftrightarrow> (\<exists>i<length a. \<exists>j<length b.
     intersects (fst (side a i)) (snd (side a i)) (fst (side b j)) (snd (side b j)))"

section \<open>Measuring\<close>

record metrics =
  length_m :: real
  area_m2 :: real
  floor_area_m2 :: real

definition kinds :: "(jstr \<times> jstr) list" where
  \<comment> \<open>kind and default name\<close>
  "kinds = [(lit ''line'', lit ''Strecke''), (lit ''site'', lit ''Bezugsfl'' @ 228 # lit ''che''),
     (lit ''building'', lit ''Geb'' @ 228 # lit ''ude'')]"

definition isLine :: "js \<Rightarrow> bool" where "isLine k \<longleftrightarrow> k = JStr (lit ''line'')"
definition isBuilding :: "js \<Rightarrow> bool" where "isBuilding k \<longleftrightarrow> k = JStr (lit ''building'')"
definition isSite :: "js \<Rightarrow> bool" where "isSite k \<longleftrightarrow> k = JStr (lit ''site'')"

definition skip_pair :: "nat \<Rightarrow> nat \<Rightarrow> nat \<Rightarrow> bool" where
  \<comment> \<open>edges with a common corner\<close>
  "skip_pair n i j \<longleftrightarrow> j = i + 1 \<or> i = 0 \<and> j = n - 1"

definition meets_later :: "pos list \<Rightarrow> nat \<Rightarrow> bool" where
  "meets_later p i \<longleftrightarrow> (\<exists>j\<in>set [i + 1..<length p]. \<not> skip_pair (length p) i j
     \<and> intersects (fst (side p i)) (snd (side p i)) (fst (side p j)) (snd (side p j)))"

definition touches_next :: "pos list \<Rightarrow> nat \<Rightarrow> bool" where
  "touches_next p i \<longleftrightarrow> onSegment (fst (side p i)) (snd (side p i)) (p ! ((i + 2) mod length p))"

definition strip :: "pos \<Rightarrow> pos \<Rightarrow> real" where
  "strip a b = (fst b - fst a) * rad * (sin (snd a * rad) + sin (snd b * rad))"

definition edge_step :: "bool \<Rightarrow> pos list \<Rightarrow> real \<times> real \<Rightarrow> nat \<Rightarrow> plan_err + real \<times> real" where
  "edge_step closed_ring p acc i =
     (let a = fst (side p i); b = snd (side p i); edge = distance a b
      in throw_if (edge < 1 / 100) TooClose
           (throw_if (closed_ring \<and> meets_later p i) Crossing
             (throw_if (closed_ring \<and> touches_next p i) OnNeighbour
               (Inr (fst acc + edge, snd acc + strip a b)))))"

definition measured :: "js \<Rightarrow> real \<Rightarrow> pos list \<Rightarrow> plan_err + metrics" where
  \<comment> \<open>from \<open>const p=unwrap(points)\<close> on\<close>
  "measured kind floors points =
     (let p = unwrap points; ring = (\<not> isLine kind)
      in bindr (foldr_err (edge_step ring p) (0, 0) [0..<(if ring then length p else length p - 1)]) (\<lambda>(len, sum).
           let area = (if ring then \<bar>sum\<bar> * R * R / 2 else 0)
           in throw_if (ring \<and> area < 1 / 100) TooSmall
                (Inr \<lparr>length_m = len, area_m2 = area, floor_area_m2 = (if isBuilding kind then area * floors else 0)\<rparr>)))"

definition known_kind :: "(real \<Rightarrow> jstr) \<Rightarrow> js \<Rightarrow> bool" where
  \<comment> \<open>\<open>Object.hasOwn(kinds, kind)\<close>: the kind is turned into a property name\<close>
  "known_kind num k \<longleftrightarrow> (\<exists>s\<in>set (map fst kinds). js_string num k = Some s)"

definition xy_ok :: "js \<Rightarrow> bool" where
  "xy_ok p \<longleftrightarrow> is_array p \<and> length (elems p) = 2 \<and> list_all isFinite (elems p)
     \<and> \<bar>num_of (elems p ! 0)\<bar> \<le> 180 \<and> \<bar>num_of (elems p ! 1)\<bar> \<le> 85"

definition xy_of :: "js \<Rightarrow> pos" where
  "xy_of p = (num_of (elems p ! 0), num_of (elems p ! 1))"

definition floors_ok :: "js \<Rightarrow> bool" where
  "floors_ok v \<longleftrightarrow> isFinite v \<and> isInt (num_of v) \<and> 1 \<le> num_of v \<and> num_of v \<le> 100"

definition measure_raw :: "(real \<Rightarrow> jstr) \<Rightarrow> js \<Rightarrow> plan_err + metrics" where
  "measure_raw num item =
     (let kind = jget item ''kind''; raw = jget item ''points''; points = map xy_of (elems raw)
      in throw_if (\<not> truthy item \<or> \<not> known_kind num kind) BadKind
         (throw_if (\<not> is_array raw \<or> length (elems raw) < (if isLine kind then 2 else 3) \<or> 500 < length (elems raw)) BadPoints
         (throw_if (\<not> list_all xy_ok (elems raw)) BadCoordinates
         (throw_if (list_ex (\<lambda>p. 20000 < distance (hd points) p) points) TooFar
         (throw_if (isBuilding kind \<and> \<not> floors_ok (jget item ''floors'')) BadFloors
         (measured kind (num_of (jget item ''floors'')) points))))))"

section \<open>Items\<close>

record item =
  kind :: js
  title :: jstr
  floors :: jsnum
  points :: "pos list"

definition js_pos :: "pos \<Rightarrow> js" where
  "js_pos p = JArr [JNum (Fin (fst p)), JNum (Fin (snd p))]"

definition item_js :: "item \<Rightarrow> js" where
  "item_js it = JObj [(lit ''kind'', kind it), (lit ''name'', JStr (title it)),
     (lit ''floors'', JNum (floors it)), (lit ''points'', JArr (map js_pos (points it)))]"

abbreviation measure_item :: "(real \<Rightarrow> jstr) \<Rightarrow> item \<Rightarrow> plan_err + metrics" where
  "measure_item num it \<equiv> measure_raw num (item_js it)"

section \<open>Balance of a site\<close>

datatype balance_outcome =
    NeedsOneSite | NotInside | Overlap
  | Areas real real real      \<comment> \<open>site, free, coverage in percent\<close>

record balance =
  footprint :: real
  floor_area :: real
  count :: nat
  outcome :: balance_outcome

definition aligned :: "pos list \<Rightarrow> pos list \<Rightarrow> pos list" where
  \<comment> \<open>a ring moved by whole turns next to the site\<close>
  "aligned site ps =
     (let p = unwrap ps; offset = of_int \<lfloor>(fst (hd site) - fst (hd p)) / 360 + 1 / 2\<rfloor> * 360
      in map (\<lambda>(x, y). (x + offset, y)) p)"

definition leaves :: "pos list \<Rightarrow> pos list \<Rightarrow> bool" where
  "leaves site p \<longleftrightarrow> \<not> list_all (\<lambda>q. inside q site) p \<or> ringsIntersect p site"

definition clash :: "pos list \<Rightarrow> pos list \<Rightarrow> bool" where
  "clash p q \<longleftrightarrow> ringsIntersect p q \<or> inside (hd p) q \<or> inside (hd q) p"

fun place :: "pos list \<Rightarrow> pos list list \<Rightarrow> pos list list \<Rightarrow> balance_outcome option" where
  "place site before [] = None"
| "place site before (p # ps) =
     (if leaves site p then Some NotInside
      else if list_ex (clash p) before then Some Overlap
      else place site (before @ [p]) ps)"

definition balance_of :: "(real \<Rightarrow> jstr) \<Rightarrow> item list \<Rightarrow> plan_err + balance" where
  "balance_of num items =
     (let sites = filter (\<lambda>x. isSite (kind x)) items; buildings = filter (\<lambda>x. isBuilding (kind x)) items
      in bindr (mapr (measure_item num) buildings) (\<lambda>ms.
           let foot = sum_list (map area_m2 ms);
               result = (\<lambda>out. \<lparr>footprint = foot, floor_area = sum_list (map floor_area_m2 ms),
                  count = length buildings, outcome = out\<rparr>)
           in if length sites \<noteq> 1 then Inr (result NeedsOneSite)
              else let site = unwrap (points (hd sites))
                   in case place site [] (map (\<lambda>b. aligned site (points b)) buildings) of
                        Some warning \<Rightarrow> Inr (result warning)
                      | None \<Rightarrow> bindr (measure_item num (hd sites)) (\<lambda>m.
                          let area = area_m2 m
                          in Inr (result (Areas area (max 0 (area - foot)) (100 * foot / area))))))"

section \<open>Export and stored drafts\<close>

definition num_js :: "real \<Rightarrow> js" where "num_js r = JNum (Fin r)"

definition item_feature :: "item \<Rightarrow> metrics \<Rightarrow> js" where
  "item_feature it m =
     (let p = unwrap (points it)
      in JObj [(lit ''type'', JStr (lit ''Feature'')),
           (lit ''properties'', JObj ([(lit ''name'', JStr (title it)), (lit ''kind'', kind it)]
              @ (if isBuilding (kind it) then [(lit ''floors'', JNum (floors it))] else [])
              @ [(lit ''length_m'', num_js (length_m m)), (lit ''area_m2'', num_js (area_m2 m)),
                 (lit ''floor_area_m2'', num_js (floor_area_m2 m)),
                 (lit ''measurement_model'', JStr (lit ''sphere R=6371008.8m; sketch, not survey''))])),
           (lit ''geometry'', if isLine (kind it)
              then JObj [(lit ''type'', JStr (lit ''LineString'')), (lit ''coordinates'', JArr (map js_pos p))]
              else JObj [(lit ''type'', JStr (lit ''Polygon'')), (lit ''coordinates'', JArr [JArr (map js_pos (p @ [hd p]))])])])"

definition collection :: "(real \<Rightarrow> jstr) \<Rightarrow> item list \<Rightarrow> plan_err + js" where
  "collection num items =
     bindr (mapr (\<lambda>it. bindr (measure_item num it) (\<lambda>m. Inr (item_feature it m))) items) (\<lambda>fs.
       Inr (JObj [(lit ''type'', JStr (lit ''FeatureCollection'')), (lit ''features'', JArr fs)]))"

definition default_name :: "(real \<Rightarrow> jstr) \<Rightarrow> js \<Rightarrow> jstr" where
  "default_name num k = (case js_string num k of Some s \<Rightarrow> the (map_of kinds s) | None \<Rightarrow> [])"

definition restore_item :: "(real \<Rightarrow> jstr) \<Rightarrow> js \<Rightarrow> plan_err + item" where
  "restore_item num raw =
     bindr (measure_raw num raw) (\<lambda>_.
       let k = jget raw ''kind''
       in case (if truthy (jget raw ''name'') then js_string num (jget raw ''name'') else Some (default_name num k)) of
            None \<Rightarrow> Inl NotText
          | Some s \<Rightarrow> Inr \<lparr>kind = k, title = take 80 s,
              floors = (if isBuilding k then Fin (num_of (jget raw ''floors'')) else Fin 1),
              points = map xy_of (elems (jget raw ''points''))\<rparr>)"

definition restore_plan :: "(real \<Rightarrow> jstr) \<Rightarrow> js option \<Rightarrow> plan_err + item list" where
  \<comment> \<open>of the result of \<open>JSON.parse\<close>\<close>
  "restore_plan num parsed_text =
     (case parsed_text of None \<Rightarrow> Inl BadStored
      | Some data \<Rightarrow>
          throw_if (\<not> truthy data \<or> jget data ''version'' \<noteq> jint 1 \<or> \<not> is_array (jget data ''items'')
              \<or> 100 < length (elems (jget data ''items''))) BadStored
            (mapr (restore_item num) (elems (jget data ''items''))))"

definition stored_plan :: "item list \<Rightarrow> js" where
  "stored_plan items = clone (JObj [(lit ''version'', jint 1), (lit ''items'', JArr (map item_js items))])"

section \<open>Distances are great circles\<close>

text \<open>The point of the unit sphere at a position, and the straight distance of two such points.\<close>

definition on_sphere :: "pos \<Rightarrow> real \<times> real \<times> real" where
  "on_sphere p = (cos (snd p * rad) * cos (fst p * rad), cos (snd p * rad) * sin (fst p * rad), sin (snd p * rad))"

fun chord2 :: "real \<times> real \<times> real \<Rightarrow> real \<times> real \<times> real \<Rightarrow> real" where
  "chord2 (a, b, c) (d, e, f) = (a - d)\<^sup>2 + (b - e)\<^sup>2 + (c - f)\<^sup>2"

lemma half_angle: "2 * (sin ((y - x) / 2))\<^sup>2 = 1 - cos x * cos y - sin x * (sin y :: real)"
proof -
  have "cos (y - x) = 1 - 2 * (sin ((y - x) / 2))\<^sup>2"
    using cos_double_sin [of "(y - x) / 2"] by (simp only: mult_2 field_sum_of_halves)
  moreover have "cos (y - x) = cos x * cos y + sin x * sin y" by (simp add: cos_diff mult.commute)
  ultimately show ?thesis by simp
qed

lemma unit_square: "(cos t)\<^sup>2 * (cos s)\<^sup>2 + (cos t)\<^sup>2 * (sin s)\<^sup>2 = ((cos t)\<^sup>2 :: real)"
  by (simp add: distrib_left [symmetric])

lemma chord_haversine:
  fixes a b c d :: real
  shows "4 * ((sin ((d - c) / 2))\<^sup>2 + cos c * cos d * (sin ((b - a) / 2))\<^sup>2)
    = (cos c * cos a - cos d * cos b)\<^sup>2 + (cos c * sin a - cos d * sin b)\<^sup>2 + (sin c - sin d)\<^sup>2"
proof -
  have "(cos c * cos a - cos d * cos b)\<^sup>2 + (cos c * sin a - cos d * sin b)\<^sup>2
      = (cos c)\<^sup>2 * (cos a)\<^sup>2 + (cos c)\<^sup>2 * (sin a)\<^sup>2 + ((cos d)\<^sup>2 * (cos b)\<^sup>2 + (cos d)\<^sup>2 * (sin b)\<^sup>2)
        - 2 * (cos c * cos d * (cos a * cos b + sin a * sin b))"
    by (simp add: power2_diff power_mult_distrib algebra_simps)
  moreover have "(sin c - sin d)\<^sup>2 = (1 - (cos c)\<^sup>2) + (1 - (cos d)\<^sup>2) - 2 * (sin c * sin d)"
    by (simp add: power2_diff sin_squared_eq)
  moreover have "4 * ((sin ((d - c) / 2))\<^sup>2 + cos c * cos d * (sin ((b - a) / 2))\<^sup>2)
      = 2 * (2 * (sin ((d - c) / 2))\<^sup>2) + 2 * (cos c * cos d * (2 * (sin ((b - a) / 2))\<^sup>2))"
    by (simp add: algebra_simps)
  ultimately show ?thesis
    unfolding half_angle unit_square by (simp add: algebra_simps)
qed

lemma chord_at_most: "chord2 (on_sphere a) (on_sphere b) \<le> 4"
proof -
  obtain x y where a: "a = (x, y)" by (cases a)
  obtain u v where b: "b = (u, v)" by (cases b)
  have one: "(cos t * cos s)\<^sup>2 + (cos t * sin s)\<^sup>2 + (sin t)\<^sup>2 = 1" for s t :: real
    using unit_square [of t s] by (simp add: power_mult_distrib)
  have par: "(p - q)\<^sup>2 \<le> 2 * p\<^sup>2 + 2 * q\<^sup>2" for p q :: real
    using zero_le_power2 [of "p + q"] by (simp add: power2_eq_square algebra_simps)
  show ?thesis
    unfolding a b on_sphere_def fst_conv snd_conv chord2.simps
    using par [of "cos (y * rad) * cos (x * rad)" "cos (v * rad) * cos (u * rad)"]
      par [of "cos (y * rad) * sin (x * rad)" "cos (v * rad) * sin (u * rad)"]
      par [of "sin (y * rad)" "sin (v * rad)"] one [of "y * rad" "x * rad"] one [of "v * rad" "u * rad"]
    by linarith
qed

lemma distance_chord: "distance a b = 2 * R * arcsin (sqrt (chord2 (on_sphere a) (on_sphere b)) / 2)"
proof -
  let ?h = "(sin ((snd b - snd a) * rad / 2))\<^sup>2
            + cos (snd a * rad) * cos (snd b * rad) * (sin ((fst b - fst a) * rad / 2))\<^sup>2"
  have "4 * ?h = chord2 (on_sphere a) (on_sphere b)"
    using chord_haversine [of "snd b * rad" "snd a * rad" "fst b * rad" "fst a * rad"]
    by (simp add: on_sphere_def algebra_simps)
  then have h: "?h = chord2 (on_sphere a) (on_sphere b) / 4" by (simp only: eq_divide_eq) simp
  then have m: "min 1 ?h = chord2 (on_sphere a) (on_sphere b) / 4" using chord_at_most [of a b] by linarith
  show ?thesis unfolding distance_def Let_def m by (simp add: real_sqrt_divide)
qed

lemma distance_sym: "distance a b = distance b a"
proof -
  have "chord2 u v = chord2 v u" for u v
    by (cases u; cases v) (simp add: power2_commute)
  then show ?thesis by (simp add: distance_chord)
qed

lemma on_sphere_turn: "turns_apart x x' \<Longrightarrow> on_sphere (x, y) = on_sphere (x', y)"
proof -
  assume "turns_apart x x'"
  then obtain k :: int where x: "x = x' + 360 * of_int k" unfolding turns_apart_def by blast
  have r: "x * rad = x' * rad + 2 * of_int k * pi" by (simp add: x rad_def field_simps)
  have "cos (x' * rad + 2 * of_int k * pi) = cos (x' * rad)" "sin (x' * rad + 2 * of_int k * pi) = sin (x' * rad)"
    using cos_int_2pin [of k] sin_int_2pin [of k] by (simp_all add: cos_add sin_add algebra_simps)
  then show ?thesis by (simp add: on_sphere_def r)
qed

lemma distance_turn:
  "turns_apart (fst a) (fst a') \<Longrightarrow> turns_apart (fst b) (fst b') \<Longrightarrow> snd a = snd a' \<Longrightarrow> snd b = snd b'
     \<Longrightarrow> distance a b = distance a' b'"
  using on_sphere_turn [of "fst a" "fst a'" "snd a"] on_sphere_turn [of "fst b" "fst b'" "snd b"]
  by (cases a; cases b; cases a'; cases b') (simp add: distance_chord)

lemma distance_range: "0 \<le> distance a b \<and> distance a b \<le> pi * R"
proof -
  let ?c = "sqrt (chord2 (on_sphere a) (on_sphere b)) / 2"
  have "0 \<le> chord2 (on_sphere a) (on_sphere b)" by (cases "on_sphere a"; cases "on_sphere b") simp
  then have "0 \<le> sqrt (chord2 (on_sphere a) (on_sphere b))" by simp
  moreover have "sqrt (chord2 (on_sphere a) (on_sphere b)) \<le> 2"
    by (rule real_le_lsqrt) (use chord_at_most [of a b] in auto)
  ultimately have "0 \<le> ?c" "?c \<le> 1" by auto
  then have c: "- 1 \<le> ?c" "0 \<le> ?c" "?c \<le> 1" by linarith+
  then have "0 \<le> arcsin ?c" "arcsin ?c \<le> pi / 2"
    using arcsin_le_arcsin [of 0 ?c] arcsin_bounded [OF c(1,3)] c by auto
  then show ?thesis by (simp add: distance_chord)
qed

lemma arcsin_abs_sin: "\<bar>t\<bar> \<le> pi / 2 \<Longrightarrow> arcsin \<bar>sin t\<bar> = \<bar>t\<bar>"
proof (cases "0 \<le> t")
  case True
  moreover assume "\<bar>t\<bar> \<le> pi / 2"
  ultimately show ?thesis using arcsin_sin [of t] sin_ge_zero [of t] by (simp add: abs_if)
next
  case False
  moreover assume "\<bar>t\<bar> \<le> pi / 2"
  ultimately have t: "- (pi / 2) \<le> - t" "- t \<le> pi / 2" "0 \<le> - t" by auto
  have "0 \<le> sin (- t)" using t by (intro sin_ge_zero) auto
  then have "\<bar>sin t\<bar> = sin (- t)" by simp
  then show ?thesis using arcsin_sin [OF t(1,2)] t(3) by simp
qed

lemma distance_meridian: "\<bar>y' - y\<bar> \<le> 180 \<Longrightarrow> distance (x, y) (x, y') = R * \<bar>y' - y\<bar> * rad"
proof -
  assume "\<bar>y' - y\<bar> \<le> 180"
  then have "\<bar>(y' - y) * rad / 2\<bar> \<le> pi / 2"
    using mult_left_mono [of "\<bar>y' - y\<bar>" 180 "pi / 360"] by (simp add: rad_def abs_mult)
  from arcsin_abs_sin [OF this] show ?thesis
    by (simp add: distance_def min_absorb2 abs_square_le_1 abs_mult rad_def mult.commute)
qed

text \<open>C33: The distance of two positions is the length of the great circle between them: twice the radius
  times the angle whose sine is half the straight distance of the two points of the sphere. It is
  symmetric, does not change when a longitude is moved by whole turns, and is at most half a
  circumference.\<close>

theorem distance_great_circle:
  "distance a b = 2 * R * arcsin (sqrt (chord2 (on_sphere a) (on_sphere b)) / 2)
   \<and> distance a b = distance b a \<and> distance a b = distance (fst a + 360 * of_int k, snd a) b
   \<and> 0 \<le> distance a b \<and> distance a b \<le> pi * R"
proof -
  have "turns_apart (fst a) (fst a + 360 * of_int k)"
    unfolding turns_apart_def by (rule exI [of _ "- k"]) simp
  then show ?thesis
    using distance_chord [of a b] distance_sym [of a b] distance_range [of a b]
      distance_turn [of a "(fst a + 360 * of_int k, snd a)" b b] by (simp del: distance_chord)
qed

section \<open>What a measured sketch is\<close>

definition neighbours :: "nat \<Rightarrow> nat \<Rightarrow> nat \<Rightarrow> bool" where
  "neighbours n i j \<longleftrightarrow> j = (i + 1) mod n \<or> i = (j + 1) mod n"

definition apart :: "pos list \<Rightarrow> nat \<Rightarrow> nat \<Rightarrow> bool" where
  "apart p i j \<longleftrightarrow> \<not> intersects (fst (side p i)) (snd (side p i)) (fst (side p j)) (snd (side p j))"

lemma intersects_sym: "intersects a b c d = intersects c d a b"
  by (auto simp: intersects_def)

lemma skip_pair_neighbours: "i < j \<Longrightarrow> j < n \<Longrightarrow> skip_pair n i j \<longleftrightarrow> neighbours n i j"
  by (auto simp: skip_pair_def neighbours_def mod_Suc split: if_splits)

lemma edge_steps:
  "foldr_err (edge_step ring p) acc is = Inr r \<longleftrightarrow>
     (\<forall>i\<in>set is. 1 / 100 \<le> distance (fst (side p i)) (snd (side p i)) \<and> (ring \<longrightarrow> \<not> meets_later p i \<and> \<not> touches_next p i))
     \<and> r = (fst acc + sum_list (map (\<lambda>i. distance (fst (side p i)) (snd (side p i))) is),
            snd acc + sum_list (map (\<lambda>i. strip (fst (side p i)) (snd (side p i))) is))"
proof (induction "is" arbitrary: acc)
  case (Cons i "is")
  have "edge_step ring p acc i = Inr acc' \<longleftrightarrow>
      1 / 100 \<le> distance (fst (side p i)) (snd (side p i)) \<and> (ring \<longrightarrow> \<not> meets_later p i \<and> \<not> touches_next p i)
      \<and> acc' = (fst acc + distance (fst (side p i)) (snd (side p i)), snd acc + strip (fst (side p i)) (snd (side p i)))" for acc'
    unfolding edge_step_def Let_def throw_if_Inr_iff not_less by auto
  then show ?case
    unfolding foldr_err.simps bindr_Inr_iff Cons by (auto simp: add.assoc)
qed auto

definition sides_of :: "js \<Rightarrow> pos list \<Rightarrow> nat list" where
  "sides_of k p = [0..<(if isLine k then length p - 1 else length p)]"

lemma measured_iff:
  "measured k fl ps = Inr m \<longleftrightarrow>
     (let p = unwrap ps; is = sides_of k p; len = sum_list (map (\<lambda>i. distance (fst (side p i)) (snd (side p i))) is);
          area = (if isLine k then 0 else \<bar>sum_list (map (\<lambda>i. strip (fst (side p i)) (snd (side p i))) is)\<bar> * R * R / 2)
      in (\<forall>i\<in>set is. 1 / 100 \<le> distance (fst (side p i)) (snd (side p i))
            \<and> (\<not> isLine k \<longrightarrow> \<not> meets_later p i \<and> \<not> touches_next p i))
         \<and> (\<not> isLine k \<longrightarrow> 1 / 100 \<le> area)
         \<and> m = \<lparr>length_m = len, area_m2 = area, floor_area_m2 = (if isBuilding k then area * fl else 0)\<rparr>)"
  by (auto simp: measured_def sides_of_def Let_def bindr_Inr_iff edge_steps throw_if_def not_less split: if_splits)

lemma simple_sides:
  assumes "measured k fl ps = Inr m" "\<not> isLine k" "i < length ps" "j < length ps" "i \<noteq> j" "\<not> neighbours (length ps) i j"
  shows "apart (unwrap ps) i j"
proof -
  have later: "\<not> meets_later (unwrap ps) i" if "i < length ps" for i
    using assms(1,2) that by (auto simp: measured_iff sides_of_def Let_def)
  have *: "apart (unwrap ps) i j" if "i < j" "j < length ps" "\<not> neighbours (length ps) i j" for i j
  proof -
    have "j \<in> set [i + 1..<length (unwrap ps)]" using that by simp
    then show ?thesis
      using later [of i] that skip_pair_neighbours [of i j "length ps"]
      unfolding meets_later_def apart_def by auto
  qed
  show ?thesis
  proof (cases "i < j")
    case True
    then show ?thesis using * assms by blast
  next
    case False
    then have "apart (unwrap ps) j i" using * [of j i] assms by (auto simp: neighbours_def)
    then show ?thesis using intersects_sym by (simp add: apart_def)
  qed
qed

lemma apart_corners: "apart p i j \<Longrightarrow> \<not> onSegment (fst (side p i)) (snd (side p i)) (fst (side p j))
    \<and> \<not> onSegment (fst (side p i)) (snd (side p i)) (snd (side p j))"
  by (auto simp: apart_def intersects_def)

lemma corner_off_side:
  assumes "measured k fl ps = Inr m" "\<not> isLine k" "3 \<le> length ps" "i < length ps" "c < length ps"
    "c \<noteq> i" "c \<noteq> (i + 1) mod length ps"
  shows "\<not> onSegment (fst (side (unwrap ps) i)) (snd (side (unwrap ps) i)) (unwrap ps ! c)"
proof -
  let ?n = "length ps" and ?p = "unwrap ps"
  have next_corner: "\<not> touches_next ?p i"
    using assms(1,2,4) by (auto simp: measured_iff sides_of_def Let_def)
  consider "c = (i + 2) mod ?n" | "c \<noteq> (i + 2) mod ?n" "(c + 1) mod ?n \<noteq> i" | "c \<noteq> (i + 2) mod ?n" "(c + 1) mod ?n = i" by blast
  then show ?thesis
  proof cases
    case 1
    then show ?thesis using next_corner by (simp add: touches_next_def)
  next
    case 2
    have "\<not> neighbours ?n i c" using 2 assms(7) by (auto simp: neighbours_def)
    from simple_sides [OF assms(1,2,4,5) _ this] show ?thesis
      using apart_corners [of ?p i c] assms(6) by (auto simp: side_def)
  next
    case 3
    let ?d = "if c = 0 then ?n - 1 else c - 1"
    have d: "?d < ?n" "(?d + 1) mod ?n = c" using assms(3,5) by auto
    have "?d \<noteq> i" using 3 d assms(7) by auto
    moreover have "\<not> neighbours ?n i ?d"
      using 3 assms(3,4,5,6,7) by (auto simp: neighbours_def mod_Suc split: if_splits)
    ultimately have "apart ?p i ?d" using simple_sides [OF assms(1,2,4) d(1)] by simp
    then show ?thesis using apart_corners [of ?p i ?d] d by (simp add: side_def)
  qed
qed

lemma measure_raw_parts:
  assumes "measure_raw num v = Inr m"
  shows "measured (jget v ''kind'') (num_of (jget v ''floors'')) (map xy_of (elems (jget v ''points''))) = Inr m"
    "known_kind num (jget v ''kind'')" "list_all xy_ok (elems (jget v ''points''))"
    "(if isLine (jget v ''kind'') then 2 else 3) \<le> length (elems (jget v ''points''))"
    "length (elems (jget v ''points'')) \<le> 500" "isBuilding (jget v ''kind'') \<Longrightarrow> floors_ok (jget v ''floors'')"
    "\<not> list_ex (\<lambda>p. 20000 < distance (hd (map xy_of (elems (jget v ''points'')))) p) (map xy_of (elems (jget v ''points'')))"
  using assms by (auto simp: measure_raw_def Let_def throw_if_Inr_iff not_less split: if_splits)

text \<open>A site or building that is measured without an error has a proper outline, over all of its at
  least three sides (moved to one side of the date line): sides that are not neighbours do not meet, no corner
  lies on a side it does not belong to, every side is at least a centimetre long, and the area is at
  least a hundredth of a square metre; a building's floor area is between one and a hundred times
  its area.\<close>

theorem measured_outline_simple:
  assumes "measure_raw num v = Inr m" "\<not> isLine (jget v ''kind'')" "p = unwrap (map xy_of (elems (jget v ''points'')))"
  shows "3 \<le> length p \<and> 1 / 100 \<le> area_m2 m \<and> real (length p) / 100 \<le> length_m m
    \<and> (\<forall>i<length p. \<forall>j<length p. i \<noteq> j \<and> \<not> neighbours (length p) i j \<longrightarrow> apart p i j)
    \<and> (\<forall>i<length p. \<forall>c<length p. c \<noteq> i \<and> c \<noteq> (i + 1) mod length p \<longrightarrow>
         \<not> onSegment (fst (side p i)) (snd (side p i)) (p ! c))
    \<and> (isBuilding (jget v ''kind'') \<longrightarrow> area_m2 m \<le> floor_area_m2 m \<and> floor_area_m2 m \<le> 100 * area_m2 m)"
proof -
  let ?k = "jget v ''kind''" and ?ps = "map xy_of (elems (jget v ''points''))"
  note parts = measure_raw_parts [OF assms(1)]
  have n: "3 \<le> length ?ps" "length p = length ?ps" using parts(4) assms(2,3) by auto
  have e: "\<forall>i\<in>set [0..<length p]. 1 / 100 \<le> distance (fst (side p i)) (snd (side p i))" "1 / 100 \<le> area_m2 m"
      "length_m m = sum_list (map (\<lambda>i. distance (fst (side p i)) (snd (side p i))) [0..<length p])"
      "isBuilding ?k \<Longrightarrow> floor_area_m2 m = area_m2 m * num_of (jget v ''floors'')"
    using parts(1) assms(2,3) by (auto simp: measured_iff sides_of_def Let_def)
  have "sum_list (map (\<lambda>i. 1 / 100) is) \<le> sum_list (map f is)" if "\<forall>i\<in>set is. 1 / 100 \<le> f i" for f :: "nat \<Rightarrow> real" and "is"
    by (rule sum_list_mono) (use that in auto)
  from this [OF e(1)] have "real (length p) / 100 \<le> length_m m" by (simp add: e(3) sum_list_triv)
  moreover have "area_m2 m \<le> floor_area_m2 m \<and> floor_area_m2 m \<le> 100 * area_m2 m" if "isBuilding ?k"
  proof -
    have "1 \<le> num_of (jget v ''floors'')" "num_of (jget v ''floors'') \<le> 100"
      using parts(6) [OF that] by (auto simp: floors_ok_def)
    then show ?thesis
      using e(2) mult_left_mono [of 1 "num_of (jget v ''floors'')" "area_m2 m"]
        mult_left_mono [of "num_of (jget v ''floors'')" 100 "area_m2 m"] by (simp add: e(4) [OF that] mult.commute)
  qed
  ultimately show ?thesis
    using n e(2) simple_sides [OF parts(1) assms(2)] corner_off_side [OF parts(1) assms(2) n(1)] assms(3)
    by auto
qed

section \<open>The balance does not depend on the order of drawing\<close>

lemma ringsIntersect_sym: "ringsIntersect p q = ringsIntersect q p"
  using intersects_sym by (auto simp: ringsIntersect_def)

lemma clash_sym: "clash p q = clash q p"
  using ringsIntersect_sym by (auto simp: clash_def)

lemma place_None_iff:
  "place site before ps = None \<longleftrightarrow>
     (\<forall>p\<in>set ps. \<not> leaves site p \<and> (\<forall>q\<in>set before. \<not> clash p q)) \<and> sorted_wrt (\<lambda>q p. \<not> clash p q) ps"
  by (induction ps arbitrary: before) (auto simp: list_ex_iff)

lemma place_warning: "place site before ps = Some w \<Longrightarrow> w = NotInside \<or> w = Overlap"
  by (induction ps arbitrary: before) (auto split: if_splits)

lemma sorted_wrt_perm:
  assumes "mset xs = mset ys" "\<And>x y. P x y \<Longrightarrow> P y x" "sorted_wrt P xs"
  shows "sorted_wrt P ys"
  using assms(1,3)
proof (induction xs arbitrary: ys)
  case (Cons x xs)
  have "x \<in> set ys" using mset_eq_setD [OF Cons.prems(1)] by auto
  then obtain as bs where ys: "ys = as @ x # bs" using split_list by metis
  then have xs: "mset xs = mset (as @ bs)" using Cons.prems(1) by simp
  have "sorted_wrt P (as @ bs)" by (rule Cons.IH [OF xs]) (use Cons.prems in simp)
  moreover have "set (as @ bs) = set xs" using mset_eq_setD [OF xs] by simp
  then have "\<forall>y\<in>set as \<union> set bs. P x y \<and> P y x" using Cons.prems(2) assms(2) by auto
  ultimately show ?case by (auto simp: ys sorted_wrt_append)
qed simp

lemma mapr_projr: "mapr f xs = Inr ys \<longleftrightarrow> (\<forall>x\<in>set xs. is_ok (f x)) \<and> ys = map (\<lambda>x. projr (f x)) xs"
proof (induction xs arbitrary: ys)
  case (Cons x xs)
  then show ?case by (cases "f x") (auto simp: bindr_Inr_iff)
qed auto

definition buildings_of :: "item list \<Rightarrow> item list" where
  "buildings_of items = filter (\<lambda>x. isBuilding (kind x)) items"

definition sites_of :: "item list \<Rightarrow> item list" where
  "sites_of items = filter (\<lambda>x. isSite (kind x)) items"

definition total :: "(real \<Rightarrow> jstr) \<Rightarrow> (metrics \<Rightarrow> real) \<Rightarrow> item list \<Rightarrow> real" where
  "total num f items = sum_list (map (\<lambda>b. f (projr (measure_item num b))) (buildings_of items))"

definition placed_well :: "item \<Rightarrow> item list \<Rightarrow> bool" where
  \<comment> \<open>the buildings lie inside the site and do not touch one another\<close>
  "placed_well site bs \<longleftrightarrow>
     (let s = unwrap (points site); rings = map (\<lambda>b. aligned s (points b)) bs
      in list_all (\<lambda>p. \<not> leaves s p) rings \<and> sorted_wrt (\<lambda>q p. \<not> clash p q) rings)"

lemma balance_iff:
  "balance_of num items = Inr b \<longleftrightarrow>
     (\<forall>x\<in>set (buildings_of items). is_ok (measure_item num x))
     \<and> footprint b = total num area_m2 items \<and> floor_area b = total num floor_area_m2 items
     \<and> count b = length (buildings_of items)
     \<and> (case sites_of items of
          [site] \<Rightarrow>
            if placed_well site (buildings_of items)
            then is_ok (measure_item num site)
              \<and> (let a = area_m2 (projr (measure_item num site))
                 in outcome b = Areas a (max 0 (a - footprint b)) (100 * footprint b / a))
            else place (unwrap (points site)) [] (map (\<lambda>b. aligned (unwrap (points site)) (points b)) (buildings_of items)) = Some (outcome b)
        | _ \<Rightarrow> outcome b = NeedsOneSite)"
proof -
  have well: "placed_well site bs \<longleftrightarrow> place (unwrap (points site)) [] (map (\<lambda>b. aligned (unwrap (points site)) (points b)) bs) = None" for site bs
    by (auto simp: placed_well_def Let_def place_None_iff list_all_iff)
  have b: "b = \<lparr>footprint = x, floor_area = y, count = n, outcome = out\<rparr>
      \<longleftrightarrow> footprint b = x \<and> floor_area b = y \<and> count b = n \<and> outcome b = out" for x y n out
    by (cases b) auto
  note defs = balance_of_def Let_def bindr_Inr_iff mapr_projr buildings_of_def [symmetric] sites_of_def [symmetric]
  show ?thesis
  proof (cases "sites_of items" rule: remdups_adj.cases)
    case (2 site)
    show ?thesis
    proof (cases "placed_well site (buildings_of items)")
      case True
      then show ?thesis
        using 2 unfolding defs by (cases "measure_item num site") (auto simp: total_def b comp_def well)
    next
      case False
      then show ?thesis using 2 unfolding defs by (auto simp: total_def b comp_def well)
    qed
  qed (unfold defs, auto simp: total_def b comp_def)
qed

lemma total_perm: "mset items = mset items' \<Longrightarrow> total num f items = total num f items'"
  unfolding total_def buildings_of_def by (simp add: sum_mset_sum_list [symmetric])

lemma placed_perm: "mset bs = mset bs' \<Longrightarrow> placed_well s bs = placed_well s bs'"
proof -
  have *: "placed_well s bs'" if "mset bs = mset bs'" "placed_well s bs" for bs bs'
  proof -
    let ?r = "\<lambda>bs. map (\<lambda>b. aligned (unwrap (points s)) (points b)) bs"
    have m: "mset (?r bs) = mset (?r bs')" using that(1) by simp
    have "sorted_wrt (\<lambda>q p. \<not> clash p q) (?r bs')"
      by (rule sorted_wrt_perm [OF m]) (use that(2) clash_sym in \<open>auto simp: placed_well_def Let_def\<close>)
    moreover have "set (?r bs') = set (?r bs)" using mset_eq_setD [OF m] by simp
    ultimately show ?thesis using that(2) by (simp add: placed_well_def Let_def list_all_iff del: set_map)
  qed
  assume "mset bs = mset bs'"
  then show ?thesis using * [of bs bs'] * [of bs' bs] by auto
qed

lemma buildings_perm: "mset items = mset items' \<Longrightarrow> mset (buildings_of items) = mset (buildings_of items')"
  by (simp add: buildings_of_def)

lemma sites_perm: "mset items = mset items' \<Longrightarrow> mset (sites_of items) = mset (sites_of items')"
  by (simp add: sites_of_def)

lemma balance_perm:
  assumes "mset items = mset items'" "balance_of num items = Inr b"
  shows "\<exists>b'. balance_of num items' = Inr b' \<and> footprint b' = footprint b \<and> floor_area b' = floor_area b \<and> count b' = count b
    \<and> (\<forall>a f c. outcome b' = Areas a f c \<longleftrightarrow> outcome b = Areas a f c) \<and> (outcome b' = NeedsOneSite \<longleftrightarrow> outcome b = NeedsOneSite)"
proof -
  note b = assms(2) [unfolded balance_iff]
  have bs: "set (buildings_of items') = set (buildings_of items)" "length (buildings_of items') = length (buildings_of items)"
    using mset_eq_setD [OF buildings_perm [OF assms(1)]] mset_eq_length [OF buildings_perm [OF assms(1)]] by simp_all
  note same = total_perm [OF assms(1)] bs placed_perm [OF buildings_perm [OF assms(1)]]
  define place' where "place' = (\<lambda>site :: item. place (unwrap (points site)) [] (map (\<lambda>b. aligned (unwrap (points site)) (points b)) (buildings_of items')))"
  define out where "out = (case sites_of items of [site] \<Rightarrow>
      if placed_well site (buildings_of items) then outcome b else the (place' site) | _ \<Rightarrow> NeedsOneSite)"
  let ?b = "b\<lparr>outcome := out\<rparr>"
  have well: "placed_well site (buildings_of items') \<longleftrightarrow> place' site = None" for site
    by (auto simp: place'_def placed_well_def Let_def place_None_iff list_all_iff)
  have "balance_of num items' = Inr ?b"
  proof (cases "sites_of items" rule: remdups_adj.cases)
    case (2 site)
    have s': "sites_of items' = [site]" using 2 sites_perm [OF assms(1)] by simp
    show ?thesis
      using b 2 s' same well [of site] unfolding balance_iff
      by (auto simp: out_def place'_def split: if_splits)
  next
    case 1
    then have "sites_of items' = []" using sites_perm [OF assms(1)] by simp
    then show ?thesis using b 1 same unfolding balance_iff by (simp add: out_def)
  next
    case (3 x y xs)
    then have "length (sites_of items') = length xs + 2"
      using mset_eq_length [OF sites_perm [OF assms(1)]] by simp
    then obtain x' y' xs' where "sites_of items' = x' # y' # xs'"
      by (cases "sites_of items'" rule: remdups_adj.cases) auto
    then show ?thesis using b 3 same unfolding balance_iff by (simp add: out_def)
  qed
  moreover have "(outcome ?b = Areas a f c \<longleftrightarrow> outcome b = Areas a f c) \<and> (out = NeedsOneSite \<longleftrightarrow> outcome b = NeedsOneSite)" for a f c
  proof (cases "sites_of items" rule: remdups_adj.cases)
    case (2 site)
    show ?thesis
    proof (cases "placed_well site (buildings_of items)")
      case False
      then obtain w where "place' site = Some w" using well [of site] same by auto
      then show ?thesis
        using b 2 False place_warning [of _ _ _ w] place_warning [of _ _ _ "outcome b"]
        by (fastforce simp: out_def place'_def)
    qed (use 2 in \<open>simp add: out_def\<close>)
  qed (use b in \<open>auto simp: out_def\<close>)
  ultimately show ?thesis by (intro exI [of _ ?b]) auto
qed

section \<open>Stored drafts\<close>

lemma item_js_parts [simp]:
  "truthy (item_js it)" "jget (item_js it) ''kind'' = kind it" "jget (item_js it) ''name'' = JStr (title it)"
  "jget (item_js it) ''floors'' = JNum (floors it)" "jget (item_js it) ''points'' = JArr (map js_pos (points it))"
  by (simp_all add: item_js_def)

lemma xy_of_js_pos [simp]: "xy_of (js_pos p) = p"
  by (simp add: xy_of_def js_pos_def)

lemma xy_ok_js_pos [simp]: "xy_ok (js_pos p) \<longleftrightarrow> \<bar>fst p\<bar> \<le> 180 \<and> \<bar>snd p\<bar> \<le> 85"
  by (simp add: xy_ok_def js_pos_def)

lemma clone_js_pos [simp]: "clone (js_pos p) = js_pos p"
  by (simp add: js_pos_def)

lemma clone_item:
  assumes "json_value (kind it)"
  shows "truthy (clone (item_js it))" "jget (clone (item_js it)) ''kind'' = kind it"
    "jget (clone (item_js it)) ''name'' = JStr (title it)"
    "jget (clone (item_js it)) ''points'' = JArr (map js_pos (points it))"
    "jget (clone (item_js it)) ''floors'' = (case floors it of Fin r \<Rightarrow> JNum (Fin r) | _ \<Rightarrow> JNull)"
  using assms by (simp_all add: item_js_def comp_def split: jsnum.split)

definition sound :: "(real \<Rightarrow> jstr) \<Rightarrow> item \<Rightarrow> bool" where
  "sound num it \<longleftrightarrow> is_ok (measure_item num it) \<and> length (title it) \<le> 80 \<and> json_value (kind it)"

definition normal :: "(real \<Rightarrow> jstr) \<Rightarrow> item \<Rightarrow> item" where
  \<comment> \<open>only buildings keep their number of floors, and an item without a name gets that of its kind\<close>
  "normal num it = it\<lparr>floors := (if isBuilding (kind it) then floors it else Fin 1),
     title := (if title it = [] then default_name num (kind it) else title it)\<rparr>"

lemma measured_floors: "\<not> isBuilding k \<Longrightarrow> measured k a ps = measured k b ps"
  by (simp add: measured_def)

lemma measure_clone: "json_value (kind it) \<Longrightarrow> measure_raw num (clone (item_js it)) = measure_item num it"
proof -
  assume k: "json_value (kind it)"
  show ?thesis
  proof (cases "isBuilding (kind it)")
    case True
    then show ?thesis
      unfolding measure_raw_def clone_item [OF k] item_js_parts Let_def
      by (cases "floors it") (auto simp: floors_ok_def clone_item [OF k] throw_if_def)
  next
    case False
    then show ?thesis
      unfolding measure_raw_def clone_item [OF k] item_js_parts Let_def
      using clone_item(1) [OF k] measured_floors [OF False, where a = "num_of (case floors it of Fin r \<Rightarrow> JNum (Fin r) | _ \<Rightarrow> JNull)" and b = "num_of (JNum (floors it))"]
      by simp
  qed
qed

lemma default_name_known: "known_kind num k \<Longrightarrow> default_name num k \<noteq> [] \<and> length (default_name num k) \<le> 80"
  by (auto simp: default_name_def known_kind_def kinds_def)

lemma sound_known: "is_ok (measure_item num it) \<Longrightarrow> known_kind num (kind it)"
  using measure_raw_parts(2) [of num "item_js it"] by (auto simp: is_ok_iff)

lemma restore_clone:
  assumes "sound num it"
  shows "restore_item num (clone (item_js it)) = Inr (normal num it)"
proof -
  have k: "json_value (kind it)" and n: "length (title it) \<le> 80" using assms by (auto simp: sound_def)
  obtain m where m: "measure_item num it = Inr m" using assms by (auto simp: sound_def is_ok_iff)
  have "isBuilding (kind it) \<Longrightarrow> \<exists>r. floors it = Fin r"
    using measure_raw_parts(6) [OF m] by (cases "floors it") (auto simp: floors_ok_def)
  then show ?thesis
    using n default_name_known [OF sound_known, of num it] m unfolding restore_item_def measure_clone [OF k] m Let_def clone_item [OF k]
    by (auto simp: normal_def comp_def)
qed

lemma restore_stored:
  assumes "length items \<le> 100" "list_all (sound num) items"
  shows "restore_plan num (Some (stored_plan items)) = Inr (map (normal num) items)"
proof -
  have d: "truthy (stored_plan items)" "jget (stored_plan items) ''version'' = jint 1"
      "jget (stored_plan items) ''items'' = JArr (map (\<lambda>it. clone (item_js it)) items)"
    by (simp_all add: stored_plan_def jint_def comp_def)
  have "mapr (restore_item num) (map (\<lambda>it. clone (item_js it)) items) = Inr (map (normal num) items)"
    using assms(2) restore_clone by (induction items) auto
  then show ?thesis using assms(1) by (simp add: restore_plan_def d)
qed

lemma normal_measure: "measure_item num (normal num it) = measure_item num it"
  unfolding measure_raw_def item_js_parts Let_def using measured_floors [of "kind it"]
  by (auto simp: normal_def throw_if_def)

lemma normal_sound: "sound num it \<Longrightarrow> sound num (normal num it)"
  using default_name_known [OF sound_known] by (auto simp: sound_def normal_measure) (auto simp: normal_def)

lemma normal_idem [simp]: "normal num (normal num it) = normal num it"
  by (simp add: normal_def)

text \<open>No number is written like a kind.\<close>

definition num_ok :: "(real \<Rightarrow> jstr) \<Rightarrow> bool" where
  "num_ok num \<longleftrightarrow> (\<forall>r. num r \<notin> set (map fst kinds))"

lemma known_json: "num_ok num \<Longrightarrow> js_string num k = Some s \<Longrightarrow> s \<in> set (map fst kinds) \<Longrightarrow> json_value k"
proof (rule js_string_json)
  assume "num_ok num"
  moreover have "s \<in> set (map fst kinds) \<Longrightarrow> 44 \<notin> set s" for s by (auto simp: kinds_def lit_def)
  ultimately show "only_strings num (\<lambda>s. s \<in> set (map fst kinds))"
    unfolding only_strings_def num_ok_def by (simp add: kinds_def)
qed auto

lemma restore_item_sound:
  assumes "restore_item num v = Inr it" "num_ok num"
  shows "sound num it"
proof -
  obtain m s where m: "measure_raw num v = Inr m" and it: "it = \<lparr>kind = jget v ''kind'', title = take 80 s,
      floors = (if isBuilding (jget v ''kind'') then Fin (num_of (jget v ''floors'')) else Fin 1),
      points = map xy_of (elems (jget v ''points''))\<rparr>"
    using assms(1) by (auto simp: restore_item_def Let_def bindr_Inr_iff split: option.splits)
  note parts = measure_raw_parts [OF m]
  have "xy_ok (js_pos (xy_of p))" if "xy_ok p" for p
    using that unfolding xy_ok_js_pos by (simp add: xy_ok_def xy_of_def)
  then have xs: "list_all (\<lambda>p. xy_ok (js_pos (xy_of p))) (elems (jget v ''points''))"
    using parts(3) by (auto simp: list_all_iff)
  let ?k = "jget v ''kind''" and ?ps = "map xy_of (elems (jget v ''points''))"
  have fl: "measured ?k (num_of (JNum (floors it))) ?ps = Inr m"
    using parts(1) measured_floors [of ?k "1" ?ps "num_of (jget v ''floors'')"] by (simp add: it)
  have "isBuilding ?k \<Longrightarrow> floors_ok (JNum (floors it))"
    using parts(6) by (simp add: it floors_ok_def)
  moreover have "kind it = ?k" "points it = ?ps" by (simp_all add: it)
  ultimately have "measure_item num it = Inr m"
    using parts(2,4,5,7) xs fl unfolding measure_raw_def item_js_parts Let_def
    by (simp add: throw_if_def comp_def list_all_iff not_less)
  moreover have "json_value (kind it)"
    using known_json [OF assms(2)] parts(2) by (auto simp: it known_kind_def)
  ultimately show ?thesis by (simp add: sound_def it)
qed

section \<open>The order of drawing, stated\<close>

text \<open>The balance does not depend on the order in which the items were drawn: for any rearrangement
  of the items that can be balanced, the sums are the same, and either both orders give the same
  site area, free area and coverage, or both give a warning (the same one, unless the warnings are
  about buildings that lie outside or overlap).\<close>

theorem balance_order:
  assumes "mset items = mset items'" "balance_of num items = Inr b"
  shows "\<exists>b'. balance_of num items' = Inr b' \<and> footprint b' = footprint b \<and> floor_area b' = floor_area b \<and> count b' = count b
    \<and> (\<forall>a f c. outcome b' = Areas a f c \<longleftrightarrow> outcome b = Areas a f c) \<and> (outcome b' = NeedsOneSite \<longleftrightarrow> outcome b = NeedsOneSite)"
  by (rule balance_perm [OF assms])

section \<open>A triangle\<close>

definition triangle :: item where
  "triangle = \<lparr>kind = JStr (lit ''site''), title = lit ''Garten'', floors = Fin 1,
     points = [(0, 0), (1 / 10, 0), (0, 1 / 10)]\<rparr>"

lemma distance_equator: "\<bar>x' - x\<bar> \<le> 180 \<Longrightarrow> distance (x, 0) (x', 0) = R * \<bar>x' - x\<bar> * rad"
proof -
  assume "\<bar>x' - x\<bar> \<le> 180"
  then have "\<bar>(x' - x) * rad / 2\<bar> \<le> pi / 2"
    using mult_left_mono [of "\<bar>x' - x\<bar>" 180 "pi / 360"] by (simp add: rad_def abs_mult)
  from arcsin_abs_sin [OF this] show ?thesis
    by (simp add: distance_def min_absorb2 abs_square_le_1 abs_mult rad_def mult.commute)
qed

lemma distance_at_least:
  assumes "0 \<le> cos (snd a * rad)" "0 \<le> cos (snd b * rad)" "\<bar>snd b - snd a\<bar> \<le> 180"
  shows "R * \<bar>snd b - snd a\<bar> * rad \<le> distance a b"
proof -
  let ?s = "sin ((snd b - snd a) * rad / 2)"
  let ?h = "min 1 (?s\<^sup>2 + cos (snd a * rad) * cos (snd b * rad) * (sin ((fst b - fst a) * rad / 2))\<^sup>2)"
  have "?s\<^sup>2 \<le> ?h" using assms(1,2) by (simp add: abs_square_le_1)
  then have "\<bar>?s\<bar> \<le> sqrt ?h" using real_sqrt_le_mono [of "?s\<^sup>2" ?h] by simp
  moreover have "0 \<le> ?h" using \<open>?s\<^sup>2 \<le> ?h\<close> zero_le_power2 [of ?s] by linarith
  moreover have "sqrt ?h \<le> 1" by simp
  ultimately have "arcsin \<bar>?s\<bar> \<le> arcsin (sqrt ?h)" by (intro arcsin_le_arcsin) auto
  moreover have "\<bar>(snd b - snd a) * rad / 2\<bar> \<le> pi / 2"
    using assms(3) mult_left_mono [of "\<bar>snd b - snd a\<bar>" 180 "pi / 360"] by (simp add: rad_def abs_mult)
  from arcsin_abs_sin [OF this] have "arcsin \<bar>?s\<bar> = \<bar>snd b - snd a\<bar> * rad / 2"
    by (simp add: abs_mult rad_def)
  ultimately show ?thesis by (simp add: distance_def mult.commute)
qed

lemma small_angle: "2 / 1800 \<le> rad / 10" "rad / 10 \<le> 4 / 1800"
  using pi_ge_two pi_less_4 by (simp_all add: rad_def)

lemma small_sine: "1 / 1800 \<le> sin (rad / 10)"
proof -
  define t where "t = rad / 10"
  have "\<bar>sin t - t\<bar> \<le> t\<^sup>2 / 2"
    using Maclaurin_sin_bound [of t 2] by (simp add: sin_coeff_def numeral_2_eq_2)
  moreover have "t\<^sup>2 \<le> (4 / 1800)\<^sup>2" using small_angle by (intro power_mono) (auto simp: t_def)
  moreover have "(4 / 1800 :: real)\<^sup>2 = 1 / 202500" by (simp add: power2_eq_square)
  moreover have "2 / 1800 \<le> t" using small_angle by (simp add: t_def)
  ultimately have "1 / 1800 \<le> sin t" by linarith
  then show ?thesis by (simp add: t_def)
qed

lemma triangle_sides:
  "unwrap (points triangle) = points triangle" "length (points triangle) = 3"
  "side (points triangle) 0 = ((0, 0), (1 / 10, 0))" "side (points triangle) (Suc 0) = ((1 / 10, 0), (0, 1 / 10))"
  "side (points triangle) 2 = ((0, 1 / 10), (0, 0))"
  by (simp_all add: triangle_def unwrap_def near_same side_def)

lemma triangle_distances:
  "1 / 100 \<le> distance (0, 0) (1 / 10, 0)" "1 / 100 \<le> distance (0, 1 / 10) (0, 0)"
  "1 / 100 \<le> distance (1 / 10, 0) (0, 1 / 10)"
  "distance (0, 0) (1 / 10, 0) \<le> 20000" "distance (0, 0) (0, 1 / 10) \<le> 20000" "distance (0, 0) (0, 0) \<le> 20000"
proof -
  have "0 \<le> cos (rad / 10)" using small_angle by (intro cos_ge_zero) (use pi_ge_two in auto)
  then show "1 / 100 \<le> distance (1 / 10, 0) (0, 1 / 10)"
    using distance_at_least [of "(1 / 10, 0)" "(0, 1 / 10)"] small_angle(1) by simp
qed (use small_angle in \<open>simp_all add: distance_equator distance_meridian\<close>)

lemma triangle_measured: "\<exists>m. measure_item num triangle = Inr m"
proof -
  let ?p = "points triangle"
  have "\<not> meets_later ?p i" if "i < 3" for i
    using that by (auto simp: meets_later_def skip_pair_def triangle_sides)
  moreover have "\<not> touches_next ?p i" if "i \<in> {0, Suc 0, 2}" for i
    using that by (auto simp: touches_next_def side_def onSegment_def cross_def triangle_def)
  moreover have "strip (0, 0) (1 / 10, 0) + (strip (1 / 10, 0) (0, 1 / 10) + strip (0, 1 / 10) (0, 0)) = - (rad / 10 * sin (rad / 10))"
    by (simp add: strip_def)
  moreover have "1 / 100 \<le> \<bar>- (rad / 10 * sin (rad / 10))\<bar> * R * R / 2"
  proof -
    have "(2 / 1800) * (1 / 1800) \<le> rad / 10 * sin (rad / 10)"
      using small_angle(1) small_sine by (intro mult_mono) auto
    then show ?thesis by simp
  qed
  moreover have "[0..<3] = [0, Suc 0, 2]" "{0..<3} = {0, Suc 0, 2}" by (simp_all add: upt_rec) auto
  moreover have "\<not> isLine (kind triangle)" by (simp add: triangle_def isLine_def)
  ultimately have "is_ok (measured (kind triangle) 1 ?p)"
    unfolding is_ok_iff measured_iff sides_of_def triangle_sides
    using triangle_distances by (simp add: Let_def triangle_sides)
  then show ?thesis
    using triangle_distances
    by (auto simp: is_ok_iff measure_raw_def Let_def triangle_def isLine_def isBuilding_def known_kind_def kinds_def throw_if_def comp_def)
qed

theorem measured_outline_simple_witness:
  "\<exists>m :: metrics. 1 / 100 \<le> area_m2 m \<and> 3 / 100 \<le> length_m m
     \<and> \<not> onSegment (0, 0) (1 / 10, 0) (0, 1 / 10)"
proof -
  obtain m where m: "measure_item (\<lambda>_. []) triangle = Inr m" using triangle_measured by blast
  have p: "points triangle = unwrap (map xy_of (elems (jget (item_js triangle) ''points'')))"
    using triangle_sides(1) by (simp add: comp_def)
  have "\<not> isLine (jget (item_js triangle) ''kind'')" by (simp add: triangle_def isLine_def)
  note t = measured_outline_simple [OF m this p]
  have "\<not> onSegment (fst (side (points triangle) 0)) (snd (side (points triangle) 0)) (points triangle ! 2)"
    using t triangle_sides(2) by auto
  then have "\<not> onSegment (0, 0) (1 / 10, 0) (0, 1 / 10)" by (simp add: side_def triangle_def)
  moreover have "1 / 100 \<le> area_m2 m" "3 / 100 \<le> length_m m" using t triangle_sides(2) by auto
  ultimately show ?thesis by blast
qed

definition path :: item where
  "path = \<lparr>kind = JStr (lit ''line''), title = lit ''Weg'', floors = Fin 1, points = [(0, 0), (0, 1 / 10)]\<rparr>"

lemma balance_sample: "\<exists>b. balance_of num [triangle, path] = Inr b"
proof -
  have "buildings_of [triangle, path] = []" "sites_of [triangle, path] = [triangle]"
    by (simp_all add: buildings_of_def sites_of_def triangle_def path_def isBuilding_def isSite_def)
  moreover have "placed_well triangle []" by (simp add: placed_well_def)
  ultimately show ?thesis
    using triangle_measured [of num] unfolding balance_iff by (auto simp: total_def Let_def is_ok_iff intro!: exI [of _ "\<lparr>footprint = 0, floor_area = 0, count = 0,
      outcome = Areas (area_m2 (projr (measure_item num triangle))) (max 0 (area_m2 (projr (measure_item num triangle)))) 0\<rparr>"])
qed

theorem balance_order_witness:
  "\<exists>b b'. balance_of (\<lambda>_. []) [triangle, path] = Inr b \<and> balance_of (\<lambda>_. []) [path, triangle] = Inr b'
     \<and> footprint b' = footprint b"
proof -
  obtain b where b: "balance_of (\<lambda>_. []) [triangle, path] = Inr b" using balance_sample by blast
  have "mset [triangle, path] = mset [path, triangle]" by simp
  from balance_order [OF this b] show ?thesis using b by auto
qed

end
