(* ===== verification/PlanningMachine.thy ===== *)
theory PlanningMachine
  imports Planning OsmGeometry
begin

text \<open>
  The sketching tool of \<open>planning.js\<close> (\<open>create\<close>) as a state machine: the items kept, the points of the
  sketch being drawn, the form fields, what the browser has stored and the warning about it. One
  function per handler; the browser's answer to a write is part of the event. A disabled button
  fires no event.
\<close>

section \<open>State\<close>

datatype plan_note = Welcome | SetPoints | PointsSet nat | Dropped | Taken | Failed plan_err | Removed
  | MaxPoints | BadLatitude | BeyondRange | Measured metrics | NotMeasured plan_err

record plan =
  items :: "item list"
  draft :: "pos list"
  active :: bool
  storage :: "js option option"     \<comment> \<open>the stored text: none, unreadable, or a JSON value\<close>
  storageWarning :: bool
  planKind :: jstr
  planName :: jstr
  planFloors :: jsnum
  plan_note :: plan_note

definition init_plan :: "(real \<Rightarrow> jstr) \<Rightarrow> js option option \<Rightarrow> plan" where
  "init_plan num stored =
     (let loaded = (case stored of None \<Rightarrow> Inr [] | Some raw \<Rightarrow> restore_plan num raw)
      in \<lparr>items = (case loaded of Inr its \<Rightarrow> its | Inl _ \<Rightarrow> []), draft = [], active = False, storage = stored,
          storageWarning = (\<not> is_ok loaded), planKind = lit ''line'', planName = [], planFloors = Fin 1,
          plan_note = Welcome\<rparr>)"

section \<open>Operations\<close>

definition draftItem :: "plan \<Rightarrow> item" where
  "draftItem st =
     (let name = take 80 (trim (planName st))
      in \<lparr>kind = JStr (planKind st), title = (if name = [] then the (map_of kinds (planKind st)) else name),
          floors = planFloors st, points = draft st\<rparr>)"

definition save_items :: "bool \<Rightarrow> plan \<Rightarrow> plan" where
  \<comment> \<open>\<open>persist\<close>: \<open>writable\<close> tells whether the browser takes the text\<close>
  "save_items writable st =
     (if writable then st\<lparr>storage := Some (Some (stored_plan (items st))), storageWarning := False\<rparr>
      else st\<lparr>storageWarning := True\<rparr>)"

definition stop :: "plan_note \<Rightarrow> plan \<Rightarrow> plan" where
  "stop msg st = st\<lparr>active := False, draft := [], plan_note := msg\<rparr>"

definition start_click :: "plan \<Rightarrow> plan" where
  "start_click st =
     (if active st \<or> 100 \<le> length (items st) then st
      else st\<lparr>active := True, draft := [], plan_note := SetPoints\<rparr>)"

definition undo_point :: "plan \<Rightarrow> plan" where
  "undo_point st =
     (if draft st = [] then st
      else st\<lparr>draft := butlast (draft st), plan_note := PointsSet (length (draft st) - 1)\<rparr>)"

definition cancel_sketch :: "plan \<Rightarrow> plan" where
  \<comment> \<open>the button, Escape, and \<open>cancel\<close> called by the page\<close>
  "cancel_sketch st = (if active st then stop Dropped st else st)"

definition finish_click :: "(real \<Rightarrow> jstr) \<Rightarrow> bool \<Rightarrow> plan \<Rightarrow> plan" where
  "finish_click num writable st =
     (if \<not> active st \<or> length (draft st) < (if planKind st = lit ''line'' then 2 else 3) then st
      else case measure_item num (draftItem st) of
             Inl e \<Rightarrow> st\<lparr>plan_note := Failed e\<rparr>
           | Inr _ \<Rightarrow> stop Taken (save_items writable (st\<lparr>items := items st @ [draftItem st]\<rparr>)))"

definition remove_click :: "nat \<Rightarrow> bool \<Rightarrow> plan \<Rightarrow> plan" where
  "remove_click i writable st =
     (if length (items st) \<le> i then st
      else (save_items writable (st\<lparr>items := take i (items st) @ drop (Suc i) (items st)\<rparr>))\<lparr>plan_note := Removed\<rparr>)"

definition addPoint :: "(real \<Rightarrow> jstr) \<Rightarrow> jsnum \<Rightarrow> jsnum \<Rightarrow> bool \<Rightarrow> plan \<Rightarrow> plan" where
  "addPoint num lng lat on_marker st =
     (if \<not> active st \<or> on_marker then st
      else if 500 \<le> length (draft st) then st\<lparr>plan_note := MaxPoints\<rparr>
      else case (lng, lat) of
             (Fin x, Fin y) \<Rightarrow>
               (let p = (normLon x, y)
                in if 85 < \<bar>y\<bar> then st\<lparr>plan_note := BadLatitude\<rparr>
                   else if draft st \<noteq> [] \<and> 20000 < distance (hd (draft st)) p then st\<lparr>plan_note := BeyondRange\<rparr>
                   else if draft st \<noteq> [] \<and> distance (last (draft st)) p < 1 / 100 then st
                   else let st' = st\<lparr>draft := draft st @ [p]\<rparr>
                        in st'\<lparr>plan_note := (case measure_item num (draftItem st') of Inr m \<Rightarrow> Measured m | Inl e \<Rightarrow> NotMeasured e)\<rparr>)
           | _ \<Rightarrow> st\<lparr>plan_note := BadLatitude\<rparr>)"

definition a_kind :: "jstr \<Rightarrow> bool" where
  "a_kind k \<longleftrightarrow> k \<in> set (map fst kinds)"

datatype plan_event =
    StartSketch | UndoPoint | CancelSketch | FinishSketch bool | RemoveItem nat bool
  | AddPoint jsnum jsnum bool | ChooseKind jstr | TypeName jstr | TypeFloors jsnum

fun plan_step :: "(real \<Rightarrow> jstr) \<Rightarrow> plan_event \<Rightarrow> plan \<Rightarrow> plan" where
  "plan_step num StartSketch st = start_click st"
| "plan_step num UndoPoint st = undo_point st"
| "plan_step num CancelSketch st = cancel_sketch st"
| "plan_step num (FinishSketch writable) st = finish_click num writable st"
| "plan_step num (RemoveItem i writable) st = remove_click i writable st"
| "plan_step num (AddPoint lng lat on_marker) st = addPoint num lng lat on_marker st"
| "plan_step num (ChooseKind k) st = (if active st \<or> \<not> a_kind k then st else st\<lparr>planKind := k\<rparr>)"
| "plan_step num (TypeName s) st = st\<lparr>planName := s\<rparr>"
| "plan_step num (TypeFloors n) st = st\<lparr>planFloors := n\<rparr>"

definition sketch_features :: "plan \<Rightarrow> js list" where
  \<comment> \<open>what \<open>render\<close> draws of the sketch\<close>
  "sketch_features st =
     (if 1 < length (draft st)
      then [JObj [(lit ''type'', JStr (lit ''Feature'')),
              (lit ''properties'', JObj [(lit ''kind'', JStr (planKind st)), (lit ''draft'', JBool True)]),
              (lit ''geometry'', JObj [(lit ''type'', JStr (lit ''LineString'')),
                 (lit ''coordinates'', JArr (map js_pos (unwrap (draft st))))])]]
      else [])
     @ map (\<lambda>p. JObj [(lit ''type'', JStr (lit ''Feature'')), (lit ''properties'', JObj [(lit ''draft'', JBool True)]),
              (lit ''geometry'', JObj [(lit ''type'', JStr (lit ''Point'')), (lit ''coordinates'', js_pos p)])])
         (unwrap (draft st))"

definition zoom_to :: "item \<Rightarrow> pos \<times> pos" where
  \<comment> \<open>the extent of an item that is shown on the map\<close>
  "zoom_to it = (let p = unwrap (points it)
     in ((Min (fst ` set p), Min (snd ` set p)), (Max (fst ` set p), Max (snd ` set p))))"

definition enabled :: "plan \<Rightarrow> bool \<times> bool \<times> bool \<times> bool \<times> bool" where
  \<comment> \<open>start, finish, undo, cancel, export\<close>
  "enabled st = (\<not> (active st \<or> 100 \<le> length (items st)),
     \<not> (\<not> active st \<or> length (draft st) < (if planKind st = lit ''line'' then 2 else 3)),
     draft st \<noteq> [], active st, items st \<noteq> [])"

section \<open>The invariant\<close>

definition point_ok :: "pos \<Rightarrow> bool" where
  "point_ok p \<longleftrightarrow> - 180 \<le> fst p \<and> fst p < 180 \<and> \<bar>snd p\<bar> \<le> 85"

definition draft_ok :: "pos list \<Rightarrow> bool" where
  "draft_ok ps \<longleftrightarrow> length ps \<le> 500 \<and> list_all point_ok ps
     \<and> list_all (\<lambda>p. p = hd ps \<or> distance (hd ps) p \<le> 20000) ps
     \<and> (\<forall>i. i + 1 < length ps \<longrightarrow> 1 / 100 \<le> distance (ps ! i) (ps ! (i + 1)))"

definition reads_back :: "(real \<Rightarrow> jstr) \<Rightarrow> js option option \<Rightarrow> item list \<Rightarrow> bool" where
  \<comment> \<open>opening the page with this text in the storage shows the same items\<close>
  "reads_back num stored its \<longleftrightarrow>
     (let st' = init_plan num stored
      in \<not> storageWarning st' \<and> map (normal num) (items st') = map (normal num) its)"

definition plan_ok :: "(real \<Rightarrow> jstr) \<Rightarrow> plan \<Rightarrow> bool" where
  "plan_ok num st \<longleftrightarrow>
     list_all (sound num) (items st) \<and> length (items st) \<le> 100 \<and> (active st \<longrightarrow> length (items st) < 100)
     \<and> (\<not> active st \<longrightarrow> draft st = []) \<and> draft_ok (draft st)
     \<and> (\<not> storageWarning st \<longrightarrow> reads_back num (storage st) (items st)) \<and> a_kind (planKind st)"

inductive plan_reachable :: "(real \<Rightarrow> jstr) \<Rightarrow> js option option \<Rightarrow> plan \<Rightarrow> bool" for num stored where
  plan_init: "plan_reachable num stored (init_plan num stored)"
| plan_next: "plan_reachable num stored st \<Longrightarrow> plan_reachable num stored (plan_step num ev st)"

lemma draft_ok_Nil [simp]: "draft_ok []"
  by (simp add: draft_ok_def)

lemma draft_ok_snoc:
  assumes "draft_ok ps" "length ps < 500" "point_ok p"
    "ps \<noteq> [] \<Longrightarrow> distance (hd ps) p \<le> 20000" "ps \<noteq> [] \<Longrightarrow> 1 / 100 \<le> distance (last ps) p"
  shows "draft_ok (ps @ [p])"
proof (cases ps rule: rev_cases)
  case (snoc qs q)
  have "1 / 100 \<le> distance ((ps @ [p]) ! i) ((ps @ [p]) ! (i + 1))" if "i + 1 < length (ps @ [p])" for i
  proof (cases "i + 1 < length ps")
    case True
    then show ?thesis using assms(1) by (simp add: draft_ok_def nth_append)
  next
    case False
    then have "i = length qs" using that snoc by simp
    then show ?thesis using assms(5) snoc by (simp add: nth_append)
  qed
  then show ?thesis using assms snoc by (auto simp: draft_ok_def list_all_iff hd_append)
qed (use assms in \<open>simp add: draft_ok_def\<close>)

lemma draft_ok_butlast: "draft_ok ps \<Longrightarrow> draft_ok (butlast ps)"
proof -
  assume ok: "draft_ok ps"
  have "hd (butlast ps) = hd ps" if "butlast ps \<noteq> []" using that by (cases ps rule: rev_cases) auto
  then show ?thesis
    using ok by (cases "butlast ps = []") (auto simp: draft_ok_def list_all_iff nth_butlast dest: in_set_butlastD)
qed

lemma saved_reads_back:
  "length its \<le> 100 \<Longrightarrow> list_all (sound num) its \<Longrightarrow> reads_back num (Some (Some (stored_plan its))) its"
  using restore_stored by (simp add: reads_back_def init_plan_def Let_def comp_def)

lemma draftItem_parts [simp]:
  "kind (draftItem st) = JStr (planKind st)" "points (draftItem st) = draft st" "floors (draftItem st) = planFloors st"
  by (simp_all add: draftItem_def Let_def)

lemma kinds_names: "a_kind k \<Longrightarrow> the (map_of kinds k) \<noteq> [] \<and> length (the (map_of kinds k)) \<le> 80"
  by (auto simp: kinds_def a_kind_def)

lemma draftItem_title: "a_kind (planKind st) \<Longrightarrow> title (draftItem st) \<noteq> [] \<and> length (title (draftItem st)) \<le> 80"
  using kinds_names by (simp add: draftItem_def Let_def)

lemma save_keeps [simp]:
  "items (save_items w st) = items st" "draft (save_items w st) = draft st" "active (save_items w st) = active st"
  "planKind (save_items w st) = planKind st"
  by (simp_all add: save_items_def)

lemma save_items_ok:
  assumes "length (items st) \<le> 100" "list_all (sound num) (items st)" "\<not> storageWarning (save_items w st)"
  shows "reads_back num (storage (save_items w st)) (items st)"
  using assms saved_reads_back by (auto simp: save_items_def split: if_splits)

lemma finish_ok: "plan_ok num st \<Longrightarrow> plan_ok num (finish_click num w st)"
proof -
  assume ok: "plan_ok num st"
  show ?thesis
  proof (cases "finish_click num w st = st")
    case False
    show ?thesis
    proof (cases "measure_item num (draftItem st)")
      case (Inl e)
      then show ?thesis using ok False
        by (auto simp: finish_click_def plan_ok_def)
    next
      case (Inr m)
      define st1 where "st1 = st\<lparr>items := items st @ [draftItem st]\<rparr>"
      have a: "active st" using False by (auto simp: finish_click_def split: if_splits)
      have eq: "finish_click num w st = stop Taken (save_items w st1)"
        using False Inr by (auto simp: finish_click_def st1_def split: if_splits)
      have "sound num (draftItem st)"
        using Inr draftItem_title [of st] ok by (auto simp: sound_def plan_ok_def)
      then have its: "list_all (sound num) (items st1)" "length (items st1) \<le> 100"
        using ok a by (auto simp: plan_ok_def st1_def)
      show ?thesis
        using ok its save_items_ok [OF its(2,1), of w]
        unfolding eq plan_ok_def by (auto simp: stop_def) (simp_all add: st1_def)
    qed
  qed (use ok in simp)
qed

lemma remove_ok: "plan_ok num st \<Longrightarrow> plan_ok num (remove_click i w st)"
proof -
  assume ok: "plan_ok num st"
  define st1 where "st1 = st\<lparr>items := take i (items st) @ drop (Suc i) (items st)\<rparr>"
  have "length (items st1) \<le> length (items st)" "list_all (sound num) (items st1)"
    using ok by (auto simp: st1_def plan_ok_def list_all_iff dest: in_set_takeD in_set_dropD)
  then have its: "list_all (sound num) (items st1)" "length (items st1) \<le> 100" "active st \<Longrightarrow> length (items st1) < 100"
    using ok by (auto simp: plan_ok_def)
  show ?thesis
  proof (cases "length (items st) \<le> i")
    case False
    have same: "draft st1 = draft st" "active st1 = active st" "planKind st1 = planKind st" by (simp_all add: st1_def)
    have eq: "remove_click i w st = (save_items w st1)\<lparr>plan_note := Removed\<rparr>"
      using False by (simp add: remove_click_def st1_def)
    show ?thesis
      using ok its save_items_ok [OF its(2,1), of w]
      unfolding eq plan_ok_def by (auto simp: same)
  qed (use ok in \<open>simp add: remove_click_def\<close>)
qed

lemma plan_ok_frame:
  assumes "plan_ok num st" "items st' = items st" "storage st' = storage st" "storageWarning st' = storageWarning st"
    "a_kind (planKind st')" "draft_ok (draft st')" "\<not> active st' \<Longrightarrow> draft st' = []"
    "active st' \<Longrightarrow> length (items st) < 100"
  shows "plan_ok num st'"
  using assms by (auto simp: plan_ok_def)

lemma addPoint_ok: "plan_ok num st \<Longrightarrow> plan_ok num (addPoint num lng lat mk st)"
proof -
  assume ok: "plan_ok num st"
  have same: "items (addPoint num lng lat mk st) = items st" "storage (addPoint num lng lat mk st) = storage st"
    "storageWarning (addPoint num lng lat mk st) = storageWarning st" "planKind (addPoint num lng lat mk st) = planKind st"
    "active (addPoint num lng lat mk st) = active st"
    by (simp_all add: addPoint_def Let_def split: jsnum.split)
  have "draft_ok (draft (addPoint num lng lat mk st)) \<and> (\<not> active st \<longrightarrow> draft (addPoint num lng lat mk st) = [])"
  proof (cases "draft (addPoint num lng lat mk st) = draft st")
    case False
    then obtain x y where p: "draft (addPoint num lng lat mk st) = draft st @ [(normLon x, y)]"
        "active st" "length (draft st) < 500" "\<bar>y\<bar> \<le> 85"
        "draft st \<noteq> [] \<Longrightarrow> distance (hd (draft st)) (normLon x, y) \<le> 20000"
        "draft st \<noteq> [] \<Longrightarrow> 1 / 100 \<le> distance (last (draft st)) (normLon x, y)"
      by (auto simp: addPoint_def Let_def not_less split: if_splits jsnum.splits)
    have "point_ok (normLon x, y)" using normLon_range p(4) by (simp add: point_ok_def)
    then show ?thesis using draft_ok_snoc [OF _ p(3)] p ok by (auto simp: plan_ok_def)
  qed (use ok in \<open>auto simp: plan_ok_def\<close>)
  then show ?thesis
    using ok by (intro plan_ok_frame [OF ok]) (auto simp: same plan_ok_def)
qed

lemma other_steps_ok:
  "plan_ok num st \<Longrightarrow> plan_ok num (start_click st)" "plan_ok num st \<Longrightarrow> plan_ok num (undo_point st)"
  "plan_ok num st \<Longrightarrow> plan_ok num (cancel_sketch st)"
  by (auto simp: plan_ok_def start_click_def undo_point_def cancel_sketch_def stop_def draft_ok_butlast)

lemma plan_step_ok: "plan_ok num st \<Longrightarrow> plan_ok num (plan_step num ev st)"
  by (cases ev) (simp_all add: finish_ok remove_ok addPoint_ok other_steps_ok, simp_all add: plan_ok_def)

lemma init_plan_ok: "num_ok num \<Longrightarrow> plan_ok num (init_plan num stored)"
proof (cases "case stored of None \<Rightarrow> Inr [] | Some raw \<Rightarrow> restore_plan num raw")
  case (Inl e)
  then show ?thesis by (simp add: plan_ok_def init_plan_def kinds_def a_kind_def)
next
  case (Inr its)
  assume "num_ok num"
  have "list_all (sound num) its \<and> length its \<le> 100"
  proof (cases stored)
    case (Some raw)
    then obtain d where d: "length (elems (jget d ''items'')) \<le> 100"
        "mapr (restore_item num) (elems (jget d ''items'')) = Inr its"
      using Inr by (auto simp: restore_plan_def throw_if_Inr_iff not_less split: option.splits)
    have "sound num it" if "it \<in> set its" for it
      using mapr_set [OF d(2) that] restore_item_sound [OF _ \<open>num_ok num\<close>] by blast
    then show ?thesis using mapr_length [OF d(2)] d(1) by (simp add: list_all_iff)
  qed (use Inr in simp)
  then show ?thesis using Inr by (simp add: plan_ok_def init_plan_def reads_back_def kinds_def a_kind_def)
qed

lemma plan_reachable_ok: "plan_reachable num stored st \<Longrightarrow> num_ok num \<Longrightarrow> plan_ok num st"
  by (induction rule: plan_reachable.induct) (auto simp: init_plan_ok plan_step_ok)

section \<open>Every reachable sketch\<close>

lemma mapr_sound: "(\<And>x. x \<in> set xs \<Longrightarrow> is_ok (f x)) \<Longrightarrow> is_ok (mapr f xs)"
  by (auto simp: is_ok_iff mapr_projr)

lemma balance_sound: "list_all (sound num) its \<Longrightarrow> is_ok (balance_of num its)"
proof -
  assume s: "list_all (sound num) its"
  then have "is_ok (mapr (measure_item num) (filter (\<lambda>x. isBuilding (kind x)) its))"
    by (intro mapr_sound) (auto simp: list_all_iff sound_def)
  then obtain ms where ms: "mapr (measure_item num) (filter (\<lambda>x. isBuilding (kind x)) its) = Inr ms" by (auto simp: is_ok_iff)
  have "is_ok (measure_item num (hd (filter (\<lambda>x. isSite (kind x)) its)))" if "length (filter (\<lambda>x. isSite (kind x)) its) = 1"
    using s that hd_in_set [of "filter (\<lambda>x. isSite (kind x)) its"]
    by (cases "filter (\<lambda>x. isSite (kind x)) its = []") (auto simp: list_all_iff sound_def)
  then show ?thesis by (auto simp: balance_of_def Let_def ms is_ok_iff split: option.split)
qed

lemma collection_sound: "list_all (sound num) its \<Longrightarrow> is_ok (collection num its)"
proof -
  assume s: "list_all (sound num) its"
  have "is_ok (mapr (\<lambda>it. bindr (measure_item num it) (\<lambda>m. Inr (item_feature it m))) its)"
    using s by (intro mapr_sound) (auto simp: list_all_iff sound_def is_ok_iff)
  then show ?thesis by (auto simp: collection_def is_ok_iff)
qed

text \<open>C31: Whatever was stored before and whatever the user does, the drawing tool never holds an item it
  cannot show: every item can be measured, the balance and the export of all items succeed, there
  are at most 100 of them, and a sketch has at most 500 points, all on the map, each at least a
  centimetre from the one before and within 20 km of the first.\<close>

theorem planning_never_throws:
  assumes "plan_reachable num stored st" "num_ok num"
  shows "is_ok (balance_of num (items st)) \<and> is_ok (collection num (items st)) \<and> length (items st) \<le> 100
    \<and> (\<forall>it\<in>set (items st). is_ok (measure_item num it)) \<and> draft_ok (draft st) \<and> (draft st \<noteq> [] \<longrightarrow> active st)"
  using plan_reachable_ok [OF assms] balance_sound [of num "items st"] collection_sound [of num "items st"]
  by (auto simp: plan_ok_def list_all_iff sound_def)

text \<open>C32: What the tool says is saved is saved: in every reachable state without a warning, opening the
  page again with what the browser has stored raises no warning and shows the same items with the
  same measurements; only the number of floors of items that are no buildings is set back to one,
  and an item without a name gets the name of its kind.\<close>

theorem planning_survives_reload:
  assumes "plan_reachable num stored st" "num_ok num" "\<not> storageWarning st"
  shows "\<not> storageWarning (init_plan num (storage st))
    \<and> map (normal num) (items (init_plan num (storage st))) = map (normal num) (items st)
    \<and> map (measure_item num) (items (init_plan num (storage st))) = map (measure_item num) (items st)"
proof -
  have r: "\<not> storageWarning (init_plan num (storage st))"
    "map (normal num) (items (init_plan num (storage st))) = map (normal num) (items st)"
    using plan_reachable_ok [OF assms(1,2)] assms(3) by (auto simp: plan_ok_def reads_back_def Let_def)
  have "map (measure_item num) its = map (measure_item num) (map (normal num) its)" for its
    by (simp add: normal_measure comp_def)
  then show ?thesis using r by metis
qed

section \<open>A page opened with a stored triangle\<close>

definition reopened :: plan where
  "reopened = plan_step (\<lambda>_. []) StartSketch (init_plan (\<lambda>_. []) (Some (Some (stored_plan [triangle]))))"

lemma num_ok_sample: "num_ok (\<lambda>_. [])"
  by (simp add: num_ok_def kinds_def)

lemma triangle_stored: "restore_plan (\<lambda>_. []) (Some (stored_plan [triangle])) = Inr [normal (\<lambda>_. []) triangle]"
proof -
  have "sound (\<lambda>_. []) triangle"
    using triangle_measured [of "\<lambda>_. []"] by (auto simp: sound_def) (simp_all add: triangle_def)
  then show ?thesis using restore_stored [of "[triangle]"] by simp
qed

lemma reopened_parts: "items reopened = [normal (\<lambda>_. []) triangle]" "\<not> storageWarning reopened"
  "storage reopened = Some (Some (stored_plan [triangle]))"
  using triangle_stored by (simp_all add: reopened_def start_click_def init_plan_def)

lemma reopened_reachable: "plan_reachable (\<lambda>_. []) (Some (Some (stored_plan [triangle]))) reopened"
  unfolding reopened_def by (intro plan_next plan_init)

theorem planning_never_throws_witness:
  "is_ok (balance_of (\<lambda>_. []) (items reopened)) \<and> is_ok (measure_item (\<lambda>_. []) (normal (\<lambda>_. []) triangle))"
  using planning_never_throws [OF reopened_reachable num_ok_sample] reopened_parts by auto

theorem planning_survives_reload_witness:
  "map (measure_item (\<lambda>_. [])) (items (init_plan (\<lambda>_. []) (Some (Some (stored_plan [triangle])))))
     = [measure_item (\<lambda>_. []) (normal (\<lambda>_. []) triangle)]"
  using planning_survives_reload [OF reopened_reachable num_ok_sample reopened_parts(2)]
  by (simp only: reopened_parts) simp

end
