(* ===== verification/AiOutput.thy ===== *)
theory AiOutput
  imports Planning OsmGeometry
begin

text \<open>
  Drawings and cards proposed by the assistant (\<open>src/cmd/web/ai-ui.js\<close>): the check of a proposed geometry,
  circles on the sphere, arrow heads, the limit of 200 drawings, and what each item of an answer
  becomes on the page. A proposal is an arbitrary JSON value.
\<close>

datatype ai_err = BadCoordinates | OnePoint | BadRadius | ThreePoints | TwoPoints | BadItem | BadPrompt | BadChart
  | LimitReached | NotText | Throws

section \<open>Colours and geometries\<close>

definition is_hex :: "16 word \<Rightarrow> bool" where
  "is_hex c \<longleftrightarrow> (let n = unat c in 48 \<le> n \<and> n \<le> 57 \<or> 65 \<le> n \<and> n \<le> 70 \<or> 97 \<le> n \<and> n \<le> 102)"

definition is_color :: "jstr \<Rightarrow> bool" where
  \<comment> \<open>\<open>/^#[0-9a-f]{6}$/i\<close>\<close>
  "is_color s \<longleftrightarrow> length s = 7 \<and> hd s = 35 \<and> list_all is_hex (tl s)"

definition color :: "(real \<Rightarrow> jstr) \<Rightarrow> js \<Rightarrow> js option" where
  \<comment> \<open>the test turns the value into a string, which can throw; the value itself is returned\<close>
  "color num v =
     (case (if truthy v then js_string num v else Some []) of
        None \<Rightarrow> None
      | Some s \<Rightarrow> Some (if is_color s then v else JStr (lit ''#2563eb'')))"

definition lonlat_ok :: "js \<Rightarrow> bool" where
  "lonlat_ok p \<longleftrightarrow> is_array p \<and> length (elems p) = 2 \<and> list_all isFinite (elems p)
     \<and> \<bar>num_of (elems p ! 0)\<bar> \<le> 180 \<and> \<bar>num_of (elems p ! 1)\<bar> \<le> 85"

definition atan2 :: "real \<Rightarrow> real \<Rightarrow> real" where
  \<comment> \<open>\<open>Math.atan2(y, x)\<close>\<close>
  "atan2 y x = (if x = 0 \<and> y = 0 then 0
     else if 0 \<le> y then arccos (x / sqrt (x\<^sup>2 + y\<^sup>2)) else - arccos (x / sqrt (x\<^sup>2 + y\<^sup>2)))"

definition circle_point :: "real \<Rightarrow> real \<Rightarrow> real \<Rightarrow> real \<Rightarrow> pos" where
  \<comment> \<open>the point at the given bearing and angular distance, before the longitude is brought into range\<close>
  "circle_point lon lat d bearing =
     (let y = arcsin (sin lat * cos d + cos lat * sin d * cos bearing);
          x = lon + atan2 (sin bearing * sin d * cos lat) (cos d - sin lat * sin y)
      in (x * 180 / pi, y * 180 / pi))"

definition circle_ring :: "pos \<Rightarrow> real \<Rightarrow> pos list" where
  "circle_ring center radius_m =
     (let lon = fst center * pi / 180; lat = snd center * pi / 180; d = radius_m / 6371008.8
      in map (\<lambda>i. let p = circle_point lon lat d (real i / 64 * 2 * pi) in (js_rem (fst p + 540) 360 - 180, snd p)) [0..<65])"

datatype ai_geometry = APoint js | ALine "js list" | APolygon "js list" | ARing "pos list"

definition geometry :: "js \<Rightarrow> ai_err + ai_geometry" where
  "geometry item =
     (let points = jget item ''coordinates''; ps = elems points; t = jget item ''type''
      in throw_if (\<not> is_array points \<or> ps = [] \<or> 500 < length ps \<or> \<not> list_all lonlat_ok ps) BadCoordinates
         (throw_if (t = JStr (lit ''place'') \<and> length ps \<noteq> 1) OnePoint
         (if t = JStr (lit ''marker'') \<or> t = JStr (lit ''place'') then Inr (APoint (hd ps))
          else if t = JStr (lit ''circle'')
          then let r = jget item ''radius_m''
               in throw_if (\<not> isFinite r \<or> num_of r < 1 \<or> 100000 < num_of r) BadRadius
                    (Inr (ARing (circle_ring (num_of (elems (hd ps) ! 0), num_of (elems (hd ps) ! 1)) (num_of r))))
          else if t = JStr (lit ''polygon'')
          then throw_if (length ps < 3) ThreePoints (Inr (APolygon (ps @ [hd ps])))
          else throw_if ((t \<noteq> JStr (lit ''line'') \<and> t \<noteq> JStr (lit ''arrow'')) \<or> length ps < 2) TwoPoints (Inr (ALine ps)))))"

section \<open>Circles lie at their radius\<close>

lemma cos_atan2: "cos (atan2 y x) * sqrt (x\<^sup>2 + y\<^sup>2) = x"
proof (cases "x = 0 \<and> y = 0")
  case False
  then have p: "0 < sqrt (x\<^sup>2 + y\<^sup>2)" by (auto simp: sum_power2_gt_zero_iff)
  have "\<bar>x\<bar> \<le> sqrt (x\<^sup>2 + y\<^sup>2)" by (rule real_le_rsqrt) simp
  then have "\<bar>x / sqrt (x\<^sup>2 + y\<^sup>2)\<bar> \<le> 1" using p by simp
  then have "cos (arccos (x / sqrt (x\<^sup>2 + y\<^sup>2))) = x / sqrt (x\<^sup>2 + y\<^sup>2)" by (intro cos_arccos_abs)
  then have "cos (atan2 y x) = x / sqrt (x\<^sup>2 + y\<^sup>2)" using False by (auto simp: atan2_def)
  then show ?thesis using p by simp
qed simp

lemma atan2_range: "\<bar>atan2 y x\<bar> \<le> pi"
proof (cases "x = 0 \<and> y = 0")
  case False
  then have p: "0 < sqrt (x\<^sup>2 + y\<^sup>2)" by (auto simp: sum_power2_gt_zero_iff)
  have "\<bar>x\<bar> \<le> sqrt (x\<^sup>2 + y\<^sup>2)" by (rule real_le_rsqrt) simp
  then have "\<bar>x / sqrt (x\<^sup>2 + y\<^sup>2)\<bar> \<le> 1" using p by simp
  then have "- 1 \<le> x / sqrt (x\<^sup>2 + y\<^sup>2)" "x / sqrt (x\<^sup>2 + y\<^sup>2) \<le> 1" by (simp_all only: abs_le_iff) linarith
  from arccos_bounded [OF this] have "\<bar>arccos (x / sqrt (x\<^sup>2 + y\<^sup>2))\<bar> \<le> pi" by simp
  then show ?thesis by (simp add: atan2_def)
qed (simp add: atan2_def)

lemma two_squares: "(a * c - s * e)\<^sup>2 + (s * c + a * e)\<^sup>2 = (a\<^sup>2 + s\<^sup>2) * (c\<^sup>2 + e\<^sup>2)" for a c s e :: real
  by (simp add: power2_eq_square algebra_simps)

lemma common_factor: "(a * c)\<^sup>2 + (s * d * a)\<^sup>2 = a\<^sup>2 * (c\<^sup>2 + (d * s)\<^sup>2)" for a c s d :: real
  by (simp add: power2_eq_square algebra_simps)

lemma rotated:
  fixes lat d b :: real
  shows "(cos lat * cos d - sin lat * sin d * cos b)\<^sup>2 + (sin lat * cos d + cos lat * sin d * cos b)\<^sup>2
    = 1 - (sin d * sin b)\<^sup>2"
proof -
  have "(cos d)\<^sup>2 + (sin d * cos b)\<^sup>2 = 1 - (sin d * sin b)\<^sup>2"
    by (simp add: power_mult_distrib cos_squared_eq algebra_simps)
  then show ?thesis using two_squares [of "cos lat" "cos d" "sin lat" "sin d * cos b"] by (simp add: mult.assoc)
qed

lemma circle_sine_range: "\<bar>sin lat * cos d + cos lat * sin d * cos b\<bar> \<le> (1 :: real)"
proof -
  have "(sin lat * cos d + cos lat * sin d * cos b)\<^sup>2 \<le> 1"
    using rotated [of lat d b] zero_le_power2 [of "cos lat * cos d - sin lat * sin d * cos b"]
      zero_le_power2 [of "sin d * sin b"] by linarith
  then show ?thesis by (simp add: abs_square_le_1)
qed

text \<open>The scalar product of the directions to the centre and to a point of the circle is the cosine of the
  angular radius.\<close>

lemma circle_point_dot:
  fixes lon lat d b :: real
  assumes "0 \<le> cos lat"
  defines "y \<equiv> arcsin (sin lat * cos d + cos lat * sin d * cos b)"
  defines "t \<equiv> atan2 (sin b * sin d * cos lat) (cos d - sin lat * sin y)"
  shows "sin lat * sin y + cos lat * cos y * cos t = cos d"
proof -
  let ?s = "sin lat * cos d + cos lat * sin d * cos b" and ?c = "cos lat * cos d - sin lat * sin d * cos b"
  have s: "\<bar>?s\<bar> \<le> 1" by (rule circle_sine_range)
  then have sy: "sin y = ?s" and cy: "cos y = sqrt (1 - ?s\<^sup>2)"
    unfolding y_def by (auto simp: cos_arcsin)
  have "cos d - sin lat * ?s = cos d * (1 - (sin lat)\<^sup>2) - sin lat * (cos lat * sin d * cos b)"
    by (simp add: power2_eq_square algebra_simps)
  also have "1 - (sin lat)\<^sup>2 = cos lat * cos lat" using cos_squared_eq [of lat] by (simp add: power2_eq_square)
  also have "cos d * (cos lat * cos lat) - sin lat * (cos lat * sin d * cos b) = cos lat * ?c" by (simp add: algebra_simps)
  finally have x: "cos d - sin lat * sin y = cos lat * ?c" by (simp only: sy)
  have "(cos lat * ?c)\<^sup>2 + (sin b * sin d * cos lat)\<^sup>2 = (cos lat)\<^sup>2 * (?c\<^sup>2 + (sin d * sin b)\<^sup>2)"
    by (rule common_factor)
  also have "\<dots> = (cos lat)\<^sup>2 * (1 - ?s\<^sup>2)" using rotated [of lat d b] by simp
  finally have n: "(cos lat * ?c)\<^sup>2 + (sin b * sin d * cos lat)\<^sup>2 = (cos lat)\<^sup>2 * (1 - ?s\<^sup>2)" .
  have "cos t * sqrt ((cos lat * ?c)\<^sup>2 + (sin b * sin d * cos lat)\<^sup>2) = cos lat * ?c"
    using cos_atan2 [of "sin b * sin d * cos lat" "cos lat * ?c"] unfolding t_def x .
  then have "cos t * (cos lat * cos y) = cos lat * ?c"
    unfolding n real_sqrt_mult cy using assms(1) by simp
  moreover have "cos lat * cos y * cos t = cos t * (cos lat * cos y)" by simp
  ultimately show ?thesis using x by linarith
qed

lemma chord_dot: "chord2 (on_sphere a) (on_sphere b)
    = 2 - 2 * (sin (snd a * rad) * sin (snd b * rad) + cos (snd a * rad) * cos (snd b * rad) * cos ((fst b - fst a) * rad))"
proof -
  have "cos ((fst b - fst a) * rad) = cos (fst a * rad) * cos (fst b * rad) + sin (fst a * rad) * sin (fst b * rad)"
    using cos_diff [of "fst b * rad" "fst a * rad"] by (simp only: left_diff_distrib mult.commute [of "cos (fst b * rad)"] mult.commute [of "sin (fst b * rad)"])
  moreover have "1 = (cos (snd p * rad) * cos (fst p * rad))\<^sup>2 + (cos (snd p * rad) * sin (fst p * rad))\<^sup>2 + (sin (snd p * rad))\<^sup>2" for p :: pos
    using unit_square [of "snd p * rad" "fst p * rad"] by (simp add: power_mult_distrib)
  from this [of a] this [of b] have "2 = (cos (snd a * rad) * cos (fst a * rad))\<^sup>2 + (cos (snd a * rad) * sin (fst a * rad))\<^sup>2 + (sin (snd a * rad))\<^sup>2
      + ((cos (snd b * rad) * cos (fst b * rad))\<^sup>2 + (cos (snd b * rad) * sin (fst b * rad))\<^sup>2 + (sin (snd b * rad))\<^sup>2)" by linarith
  ultimately show ?thesis by (simp add: on_sphere_def power2_diff algebra_simps)
qed

lemma circle_distance:
  assumes "\<bar>snd center\<bar> \<le> 90" "0 \<le> d" "d \<le> pi"
  shows "distance center (circle_point (fst center * pi / 180) (snd center * pi / 180) d b) = R * d"
proof -
  let ?lat = "snd center * pi / 180" and ?lon = "fst center * pi / 180"
  let ?y = "arcsin (sin ?lat * cos d + cos ?lat * sin d * cos b)"
  let ?t = "atan2 (sin b * sin d * cos ?lat) (cos d - sin ?lat * sin ?y)"
  let ?p = "circle_point ?lon ?lat d b"
  have "\<bar>snd center\<bar> * (pi / 180) \<le> 90 * (pi / 180)" using assms(1) by (rule mult_right_mono) simp
  moreover have "\<bar>?lat\<bar> = \<bar>snd center\<bar> * (pi / 180)" by (simp add: abs_mult)
  ultimately have "\<bar>?lat\<bar> \<le> pi / 2" by linarith
  then have "- (pi / 2) \<le> ?lat" "?lat \<le> pi / 2" by linarith+
  then have "0 \<le> cos ?lat" by (rule cos_ge_zero)
  note dot = circle_point_dot [OF this, of d b]
  have r: "snd center * rad = ?lat" "snd ?p * rad = ?y" "(fst ?p - fst center) * rad = ?t"
    by (simp_all add: circle_point_def Let_def rad_def) (simp add: field_simps)
  have "chord2 (on_sphere center) (on_sphere ?p) = 2 - 2 * cos d"
    unfolding chord_dot r using dot by simp
  also have "\<dots> = (2 * sin (d / 2))\<^sup>2"
    using cos_double_sin [of "d / 2"] by (simp add: power_mult_distrib)
  finally have "chord2 (on_sphere center) (on_sphere ?p) = (2 * sin (d / 2))\<^sup>2" .
  then have "sqrt (chord2 (on_sphere center) (on_sphere ?p)) = \<bar>2 * sin (d / 2)\<bar>" by (simp only: real_sqrt_abs)
  also have "\<dots> = 2 * sin (d / 2)" using sin_ge_zero [of "d / 2"] assms(2,3) by simp
  finally have "sqrt (chord2 (on_sphere center) (on_sphere ?p)) = 2 * sin (d / 2)" .
  moreover have "arcsin (sin (d / 2)) = d / 2" using assms(2,3) by (intro arcsin_sin) auto
  ultimately show ?thesis by (simp add: distance_chord)
qed

lemma js_rem_turn: "0 \<le> x \<Longrightarrow> turns_apart (js_rem x 360 - 180) (x - 540)"
  unfolding turns_apart_def js_rem_def by (intro exI [of _ "1 - (if 0 \<le> x / 360 then \<lfloor>x / 360\<rfloor> else \<lceil>x / 360\<rceil>)"]) simp

lemma circle_longitude:
  assumes "\<bar>fst center\<bar> \<le> 180"
  shows "\<bar>fst (circle_point (fst center * pi / 180) lat d b)\<bar> \<le> 360"
proof -
  let ?t = "atan2 (sin b * sin d * cos lat) (cos d - sin lat * sin (arcsin (sin lat * cos d + cos lat * sin d * cos b)))"
  have "fst (circle_point (fst center * pi / 180) lat d b) = fst center + ?t * (180 / pi)"
    by (simp add: circle_point_def Let_def add_divide_distrib distrib_right)
  moreover have "\<bar>?t * (180 / pi)\<bar> \<le> 180"
    using mult_right_mono [OF atan2_range [of "sin b * sin d * cos lat"
      "cos d - sin lat * sin (arcsin (sin lat * cos d + cos lat * sin d * cos b))"], of "180 / pi"] by (simp add: abs_mult)
  ultimately show ?thesis using assms by linarith
qed

lemma circle_latitude: "\<bar>snd (circle_point lon lat d b)\<bar> \<le> 90"
proof -
  have "- 1 \<le> sin lat * cos d + cos lat * sin d * cos b" "sin lat * cos d + cos lat * sin d * cos b \<le> 1"
    using circle_sine_range [of lat d b] by linarith+
  then have y: "- (pi / 2) \<le> arcsin (sin lat * cos d + cos lat * sin d * cos b)"
      "arcsin (sin lat * cos d + cos lat * sin d * cos b) \<le> pi / 2"
    using arcsin_bounded by blast+
  then have "\<bar>arcsin (sin lat * cos d + cos lat * sin d * cos b)\<bar> \<le> pi / 2" by linarith
  from mult_right_mono [OF this, of "180 / pi"] show ?thesis by (simp add: circle_point_def Let_def abs_mult)
qed

lemma ring_point:
  assumes "p \<in> set (circle_ring center radius)" "\<bar>fst center\<bar> \<le> 180" "\<bar>snd center\<bar> \<le> 90" "1 \<le> radius" "radius \<le> 100000"
  shows "distance center p = radius" "- 180 \<le> fst p \<and> fst p < 180 \<and> \<bar>snd p\<bar> \<le> 90"
proof -
  let ?d = "radius / R"
  obtain b where p: "p = (js_rem (fst (circle_point (fst center * pi / 180) (snd center * pi / 180) ?d b) + 540) 360 - 180,
      snd (circle_point (fst center * pi / 180) (snd center * pi / 180) ?d b))"
    using assms(1) by (auto simp: circle_ring_def Let_def)
  let ?q = "circle_point (fst center * pi / 180) (snd center * pi / 180) ?d b"
  have x: "0 \<le> fst ?q + 540" using circle_longitude [OF assms(2), of "snd center * pi / 180" ?d b] by linarith
  have "?d \<le> pi" using assms(5) pi_ge_two by simp
  then have "distance center ?q = radius" using circle_distance [OF assms(3), of ?d b] assms(4) by simp
  moreover have "turns_apart (fst p) (fst ?q)" using js_rem_turn [OF x] by (simp add: p)
  ultimately show "distance center p = radius"
    using distance_turn [of center center p ?q] by (simp add: p)
  show "- 180 \<le> fst p \<and> fst p < 180 \<and> \<bar>snd p\<bar> \<le> 90"
    using js_rem_nonneg [OF x, of 360] circle_latitude [of "fst center * pi / 180" "snd center * pi / 180" ?d b] by (simp add: p)
qed

text \<open>A circle that the assistant draws is a circle: each of its 65 points, the first and last of which
  coincide, is at exactly the asked distance from its centre, measured as the sketching tool measures
  distances, and is a position on the map, also across the date line.\<close>

theorem circle_at_radius:
  assumes "geometry item = Inr (ARing ring)"
  shows "\<exists>center. center = xy_of (hd (elems (jget item ''coordinates'')))
    \<and> (\<forall>p\<in>set ring. distance center p = num_of (jget item ''radius_m'') \<and> - 180 \<le> fst p \<and> fst p < 180 \<and> \<bar>snd p\<bar> \<le> 90)
    \<and> length ring = 65 \<and> hd ring = last ring"
proof -
  let ?c = "xy_of (hd (elems (jget item ''coordinates'')))" and ?r = "num_of (jget item ''radius_m'')"
  have g: "elems (jget item ''coordinates'') \<noteq> []" "list_all lonlat_ok (elems (jget item ''coordinates''))"
      "1 \<le> ?r" "?r \<le> 100000" "ring = circle_ring ?c ?r"
    using assms by (auto simp: geometry_def Let_def throw_if_Inr_iff not_less xy_of_def split: if_splits)
  have "lonlat_ok (hd (elems (jget item ''coordinates'')))" using g(1,2) by (cases "elems (jget item ''coordinates'')") auto
  then have "\<bar>fst ?c\<bar> \<le> 180" "\<bar>snd ?c\<bar> \<le> 90" by (simp_all add: lonlat_ok_def xy_of_def)
  note points = ring_point [OF _ this g(3,4)]
  have b: "circle_point lon lat d 0 = circle_point lon lat d (2 * pi)" for lon lat d by (simp add: circle_point_def)
  have "[0..<65] = 0 # [1..<64] @ [64]" by (simp add: upt_rec [of 0] upt_Suc_append [of 1 64, symmetric, simplified])
  then have "hd ring = last ring" using b by (simp add: g(5) circle_ring_def Let_def)
  moreover have "length ring = 65" by (simp add: g(5) circle_ring_def Let_def)
  ultimately show ?thesis using points g(5) by auto
qed

section \<open>Items of an answer\<close>

record drawing =
  d_color :: js
  d_geometry :: ai_geometry

record ai =
  drawings :: "(jstr \<times> drawing) list"    \<comment> \<open>the map \<open>features\<close>, in insertion order\<close>
  sequence :: nat

datatype ai_box =
    ButtonBox jstr jstr jstr              \<comment> \<open>heading, label, prompt to send\<close>
  | PlaceBox jstr jstr js                 \<comment> \<open>heading, text, position\<close>
  | CardBox jstr jstr
  | ChartBox jstr "(jstr \<times> real) list"   \<comment> \<open>rows: text and width in percent\<close>
  | DrawingBox jstr "jstr list"           \<comment> \<open>heading and the IDs its button removes\<close>
  | RefusedBox ai_err

definition js_text :: "(real \<Rightarrow> jstr) \<Rightarrow> js \<Rightarrow> jstr \<Rightarrow> nat \<Rightarrow> ai_err + jstr" where
  \<comment> \<open>\<open>String(v || dflt).slice(0, n)\<close>\<close>
  "js_text num v dflt n =
     (if truthy v then (case js_string num v of None \<Rightarrow> Inl NotText | Some s \<Rightarrow> Inr (take n s)) else Inr (take n dflt))"

definition put_drawing :: "jstr \<Rightarrow> drawing \<Rightarrow> (jstr \<times> drawing) list \<Rightarrow> (jstr \<times> drawing) list" where
  "put_drawing k v ds =
     (if k \<in> set (map fst ds) then map (\<lambda>(k', v'). (k', if k' = k then v else v')) ds else ds @ [(k, v)])"

definition head_id :: "jstr \<Rightarrow> jstr" where
  "head_id k = k @ lit ''-head''"

definition arrow_head :: "pos \<Rightarrow> pos \<Rightarrow> pos list" where
  \<comment> \<open>the triangle at the end of the last segment; none if it has no length\<close>
  "arrow_head a b =
     (let c = cos (snd b * pi / 180); dx = (fst b - fst a) * c; dy = snd b - snd a; len = sqrt (dx\<^sup>2 + dy\<^sup>2)
      in if len \<le> 0 then []
         else let z = min (len * 0.18) 0.01; ux = dx / len; uy = dy / len
              in [b, (fst b - (ux + uy * 0.5) * z / c, snd b - (uy - ux * 0.5) * z),
                  (fst b - (ux - uy * 0.5) * z / c, snd b - (uy + ux * 0.5) * z), b])"

definition draw :: "(real \<Rightarrow> jstr) \<Rightarrow> js \<Rightarrow> ai \<Rightarrow> (ai_err + jstr list) \<times> ai" where
  \<comment> \<open>the branch for drawings, with the IDs of what was added\<close>
  "draw num item st =
     (let arrow = (jget item ''type'' = JStr (lit ''arrow''))
      in if 200 < length (drawings st) + (if arrow then 2 else 1) then (Inl LimitReached, st)
         else case geometry item of
                Inl e \<Rightarrow> (Inl e, st)
              | Inr g \<Rightarrow>
                  (let st = st\<lparr>sequence := sequence st + 1\<rparr>; k = digits (sequence st)
                   in case color num (jget item ''color'') of
                        None \<Rightarrow> (Inl Throws, st)
                      | Some col \<Rightarrow>
                          (let st = st\<lparr>drawings := put_drawing k \<lparr>d_color = col, d_geometry = g\<rparr> (drawings st)\<rparr>;
                               ps = map xy_of (elems (jget item ''coordinates''));
                               ring = (if arrow then arrow_head (last (butlast ps)) (last ps) else [])
                           in if ring = [] then (Inr [k], st)
                              else (Inr [k, head_id k],
                                    st\<lparr>drawings := put_drawing (head_id k) \<lparr>d_color = col, d_geometry = ARing ring\<rparr> (drawings st)\<rparr>))))"

definition chart_rows :: "(real \<Rightarrow> jstr) \<Rightarrow> js \<Rightarrow> ai_err + (jstr \<times> real) list" where
  "chart_rows num item =
     (let vs = elems (jget item ''values'')
      in throw_if (\<not> is_array (jget item ''values'') \<or> vs = [] \<or> 30 < length vs
             \<or> \<not> list_all (\<lambda>v. truthy v \<and> isFinite (jget v ''value'') \<and> 0 \<le> num_of (jget v ''value'')) vs) BadChart
         (let top = max (Max (set (map (\<lambda>v. num_of (jget v ''value'')) vs))) 1
          in mapr (\<lambda>v.
               bindr (case js_string num (jget v ''label'') of None \<Rightarrow> Inl NotText | Some s \<Rightarrow> Inr (take 100 s)) (\<lambda>label.
               bindr (js_text num (jget item ''unit'') [] 30) (\<lambda>unit.
                 Inr (label @ lit '': '' @ num (num_of (jget v ''value'')) @ lit '' '' @ unit,
                      num_of (jget v ''value'') / top * 100)))) vs))"

definition render_item :: "(real \<Rightarrow> jstr) \<Rightarrow> js \<Rightarrow> ai \<Rightarrow> ai_box \<times> ai" where
  "render_item num item st =
     (let refuse = (\<lambda>r. case r of Inl e \<Rightarrow> RefusedBox e | Inr b \<Rightarrow> b); t = jget item ''type''
      in if \<not> (is_object item \<or> is_array item) then (RefusedBox BadItem, st)
         else case js_text num (jget item ''label'') (lit ''KI-Ausgabe'') 200 of
                Inl e \<Rightarrow> (RefusedBox e, st)
              | Inr heading \<Rightarrow>
                  if t = JStr (lit ''button'')
                  then (refuse (case jget item ''prompt'' of
                          JStr s \<Rightarrow> throw_if (trim s = [] \<or> 2000 < length s) BadPrompt
                            (case js_string num (if truthy (jget item ''label'') then jget item ''label'' else JStr (lit ''Anfragen'')) of
                               None \<Rightarrow> Inl NotText | Some label \<Rightarrow> Inr (ButtonBox heading label s))
                        | _ \<Rightarrow> Inl BadPrompt), st)
                  else if t = JStr (lit ''place'')
                  then (refuse (bindr (geometry item) (\<lambda>_.
                          bindr (js_text num (jget item ''text'') [] 5000) (\<lambda>s.
                            Inr (PlaceBox heading s (hd (elems (jget item ''coordinates''))))))), st)
                  else if t = JStr (lit ''card'')
                  then (refuse (bindr (js_text num (jget item ''text'') [] 5000) (\<lambda>s. Inr (CardBox heading s))), st)
                  else if t = JStr (lit ''chart'')
                  then (refuse (bindr (chart_rows num item) (\<lambda>rows. Inr (ChartBox heading rows))), st)
                  else (case draw num item st of
                          (Inl e, st') \<Rightarrow> (RefusedBox e, st')
                        | (Inr ids, st') \<Rightarrow> (DrawingBox heading ids, st')))"

definition render_items :: "(real \<Rightarrow> jstr) \<Rightarrow> js \<Rightarrow> ai \<Rightarrow> ai_box list \<times> ai" where
  \<comment> \<open>at most 20 items of an answer\<close>
  "render_items num items st =
     fold (\<lambda>item (boxes, st). let (b, st') = render_item num item st in (boxes @ [b], st')) (take 20 (elems items)) ([], st)"

definition remove_ids :: "jstr list \<Rightarrow> ai \<Rightarrow> ai" where
  "remove_ids ids st = st\<lparr>drawings := filter (\<lambda>p. fst p \<notin> set ids) (drawings st)\<rparr>"

definition clear_all :: "ai \<Rightarrow> ai" where
  "clear_all st = st\<lparr>drawings := []\<rparr>"

definition init_ai :: ai where
  "init_ai = \<lparr>drawings = [], sequence = 0\<rparr>"

section \<open>Drawings keep their limit and their identity\<close>

definition made_by :: "nat \<Rightarrow> jstr \<Rightarrow> bool" where
  "made_by n k \<longleftrightarrow> k = digits n \<or> k = head_id (digits n)"

definition ai_ok :: "ai \<Rightarrow> bool" where
  "ai_ok st \<longleftrightarrow> distinct (map fst (drawings st)) \<and> length (drawings st) \<le> 200
     \<and> (\<forall>k\<in>set (map fst (drawings st)). \<exists>n\<le> sequence st. made_by n k)"

lemma head_id_inj [simp]: "head_id a = head_id b \<longleftrightarrow> a = b"
  by (simp add: head_id_def)

lemma head_id_new: "head_id s \<noteq> digits n" "digits n \<noteq> head_id s"
proof -
  have "\<not> is_digit (word_of_nat (of_char CHR ''-''))" by (simp add: is_digit_def)
  moreover have "word_of_nat (of_char CHR ''-'') \<in> set (head_id s)" by (simp add: head_id_def lit_def)
  ultimately show "head_id s \<noteq> digits n" "digits n \<noteq> head_id s" using digits_digit by metis+
qed

lemma made_by_inj: "made_by m k \<Longrightarrow> made_by n k \<Longrightarrow> m = n"
  by (auto simp: made_by_def head_id_new)

lemma put_drawing_new: "k \<notin> set (map fst ds) \<Longrightarrow> put_drawing k v ds = ds @ [(k, v)]"
  by (simp add: put_drawing_def)

lemma draw_adds:
  assumes "ai_ok st" "draw num item st = (r, st')"
  shows "ai_ok st' \<and> sequence st \<le> sequence st'
    \<and> (case r of Inl _ \<Rightarrow> drawings st' = drawings st
       | Inr ids \<Rightarrow> \<exists>new. drawings st' = drawings st @ new \<and> map fst new = ids \<and> set ids \<inter> set (map fst (drawings st)) = {}
           \<and> (\<exists>g. geometry item = Inr g \<and> d_geometry (snd (hd new)) = g))"
proof -
  let ?n = "sequence st + 1"
  have later: "\<exists>n\<le>m. made_by n k" if "\<exists>n\<le> sequence st. made_by n k" "sequence st \<le> m" for k m
    using that order_trans by blast
  have fresh: "k \<notin> set (map fst (drawings st))" if "made_by ?n k" for k
    using assms(1) that made_by_inj [of ?n k] unfolding ai_ok_def by fastforce
  have ids: "made_by ?n (digits ?n)" "made_by ?n (head_id (digits ?n))" by (auto simp: made_by_def)
  show ?thesis
  proof (cases "geometry item")
    case (Inl e)
    then show ?thesis using assms by (auto simp: draw_def Let_def split: if_splits)
  next
    case (Inr g)
    show ?thesis
    proof (cases "200 < length (drawings st) + (if jget item ''type'' = JStr (lit ''arrow'') then 2 else 1) \<or> color num (jget item ''color'') = None")
      case True
      then have "(st' = st \<or> st' = st\<lparr>sequence := ?n\<rparr>) \<and> (\<exists>e. r = Inl e)"
        using assms(2) Inr by (auto simp: draw_def Let_def split: if_splits option.splits)
      moreover have "ai_ok (st\<lparr>sequence := ?n\<rparr>)"
        using assms(1) later [of _ ?n] unfolding ai_ok_def by simp
      ultimately show ?thesis using assms(1) by auto
    next
      case False
      then obtain col where col: "color num (jget item ''color'') = Some col" by auto
      let ?ps = "map xy_of (elems (jget item ''coordinates''))"
      let ?ring = "if jget item ''type'' = JStr (lit ''arrow'') then arrow_head (last (butlast ?ps)) (last ?ps) else []"
      let ?one = "[(digits ?n, \<lparr>d_color = col, d_geometry = g\<rparr>)]"
      let ?new = "?one @ (if ?ring = [] then [] else [(head_id (digits ?n), \<lparr>d_color = col, d_geometry = ARing ?ring\<rparr>)])"
      have hd_new: "head_id (digits ?n) \<notin> set (map fst (drawings st @ ?one))"
        using fresh [OF ids(2)] head_id_new by auto
      have st': "st' = st\<lparr>sequence := ?n, drawings := drawings st @ ?new\<rparr>" "r = Inr (map fst ?new)"
        using assms(2) False Inr col put_drawing_new [OF fresh [OF ids(1)]] put_drawing_new [OF hd_new]
        by (auto simp: draw_def Let_def split: if_splits)
      have "distinct (map fst (drawings st @ ?new))"
        using assms(1) fresh [OF ids(1)] hd_new by (auto simp: ai_ok_def)
      moreover have "length (drawings st @ ?new) \<le> 200" using False by (auto split: if_splits)
      moreover have "\<forall>k\<in>set (map fst (drawings st @ ?new)). \<exists>n\<le>?n. made_by n k"
        using assms(1) later [of _ ?n] ids unfolding ai_ok_def by auto
      ultimately have "ai_ok st'" by (simp add: st'(1) ai_ok_def)
      moreover have "set (map fst ?new) \<inter> set (map fst (drawings st)) = {}"
        using fresh [OF ids(1)] fresh [OF ids(2)] by auto
      ultimately show ?thesis using Inr by (auto simp: st')
    qed
  qed
qed

lemma render_item_ok: "ai_ok st \<Longrightarrow> ai_ok (snd (render_item num item st))"
  using draw_adds [of st num item "fst (draw num item st)" "snd (draw num item st)"]
  by (auto simp: render_item_def Let_def split: sum.split prod.split)

lemma render_items_ok: "ai_ok st \<Longrightarrow> ai_ok (snd (render_items num items st))"
proof -
  have "ai_ok (snd b) \<Longrightarrow> ai_ok (snd (fold (\<lambda>item (boxes, st). let (b, st') = render_item num item st in (boxes @ [b], st')) xs b))" for xs b
  proof (induction xs arbitrary: b)
    case (Cons x xs)
    show ?case
      using Cons.prems render_item_ok [of "snd b" num x] Cons.IH [of "(fst b @ [fst (render_item num x (snd b))], snd (render_item num x (snd b)))"]
      by (cases b; cases "render_item num x (snd b)") auto
  qed simp
  then show "ai_ok st \<Longrightarrow> ?thesis" by (simp add: render_items_def)
qed

lemma remove_ids_ok: "ai_ok st \<Longrightarrow> ai_ok (remove_ids ids st)"
  by (auto simp: ai_ok_def remove_ids_def distinct_map_filter intro: order_trans [OF length_filter_le])

inductive ai_reachable :: "(real \<Rightarrow> jstr) \<Rightarrow> ai \<Rightarrow> bool" for num where
  ai_start: "ai_reachable num init_ai"
| ai_answer: "ai_reachable num st \<Longrightarrow> ai_reachable num (snd (render_items num items st))"
| ai_remove: "ai_reachable num st \<Longrightarrow> ai_reachable num (remove_ids ids st)"
| ai_clear: "ai_reachable num st \<Longrightarrow> ai_reachable num (clear_all st)"

lemma ai_reachable_ok: "ai_reachable num st \<Longrightarrow> ai_ok st"
proof (induction rule: ai_reachable.induct)
  case ai_start
  show ?case by (simp add: init_ai_def ai_ok_def)
qed (auto simp: render_items_ok remove_ids_ok, simp add: clear_all_def ai_ok_def)

text \<open>However many answers the assistant gives, there are never more than 200 drawings on the map, each
  under an identifier of its own; a drawing that is refused leaves the others as they were, one that
  is accepted has a checked geometry, and its button for removal takes away exactly what was added.\<close>

theorem drawings_limited:
  assumes "ai_reachable num st" "draw num item st = (r, st')"
  shows "length (drawings st') \<le> 200 \<and> distinct (map fst (drawings st'))
    \<and> (case r of Inl _ \<Rightarrow> drawings st' = drawings st
       | Inr ids \<Rightarrow> drawings (remove_ids ids st') = drawings st \<and> (\<exists>g. geometry item = Inr g \<and> g \<in> d_geometry ` snd ` set (drawings st')))"
proof -
  note a = draw_adds [OF ai_reachable_ok [OF assms(1)] assms(2)]
  show ?thesis
  proof (cases r)
    case (Inr ids)
    then obtain new g where n: "drawings st' = drawings st @ new" "map fst new = ids" "set ids \<inter> set (map fst (drawings st)) = {}"
        "geometry item = Inr g" "d_geometry (snd (hd new)) = g" "ids \<noteq> [] \<longrightarrow> new \<noteq> []"
      using a by auto
    have "ids \<noteq> []" using assms(2) Inr by (auto simp: draw_def Let_def split: if_splits sum.splits option.splits)
    then have "g \<in> d_geometry ` snd ` set (drawings st')" using n by (cases new) auto
    moreover have "filter (\<lambda>p. fst p \<notin> set ids) new = []" unfolding n(2) [symmetric] by (force simp: filter_empty_conv)
    moreover have "filter (\<lambda>p. fst p \<notin> set ids) (drawings st) = drawings st" using n(3) by (auto simp: filter_id_conv)
    ultimately show ?thesis using a n(1,4) Inr by (auto simp: ai_ok_def remove_ids_def)
  qed (use a in \<open>auto simp: ai_ok_def\<close>)
qed

section \<open>A circle\<close>

definition circle_item :: js where
  "circle_item = JObj [(lit ''type'', JStr (lit ''circle'')), (lit ''coordinates'', JArr [js_pos (9, 51)]),
     (lit ''radius_m'', JNum (Fin 500)), (lit ''color'', JStr (lit ''#ff0000''))]"

lemma circle_geometry: "geometry circle_item = Inr (ARing (circle_ring (9, 51) 500))"
  by (simp add: geometry_def circle_item_def lonlat_ok_def js_pos_def throw_if_def Let_def)

theorem circle_at_radius_witness: "distance (9, 51) ` set (circle_ring (9, 51) 500) \<subseteq> {500}"
  using circle_at_radius [OF circle_geometry] by (auto simp: circle_item_def xy_of_js_pos)

theorem drawings_limited_witness:
  "\<exists>r st'. draw (\<lambda>_. []) circle_item init_ai = (r, st') \<and> length (drawings st') \<le> 200"
proof -
  obtain r st' where d: "draw (\<lambda>_. []) circle_item init_ai = (r, st')" by (cases "draw (\<lambda>_. []) circle_item init_ai")
  then show ?thesis using drawings_limited [OF ai_start d] by blast
qed

end
