(* ===== verification/OfflineStyle.thy ===== *)
theory OfflineStyle
  imports AiOutput
begin

text \<open>
  The look of the offline map (\<open>src/cmd/web/offline-style.js\<close>): a style is an object with colours, two
  factors and three switches. \<open>normalize\<close> makes one of an arbitrary value, \<open>scaleWidth\<close> and \<open>paintFor\<close>
  apply it to a layer of the map, and the editor mods, stores and restores it. The colour test
  turns a value into a string first, which throws for some objects: then \<open>normalize\<close> is \<open>None\<close>.
\<close>

section \<open>Styles\<close>

definition standard :: "(string \<times> js) list" where
  "standard = [(''background'', JStr (lit ''#f4f2eb'')), (''water'', JStr (lit ''#aad3df'')), (''forest'', JStr (lit ''#c6d9ba'')),
     (''farmland'', JStr (lit ''#eee7ce'')), (''meadow'', JStr (lit ''#dce5c7'')), (''buildings'', JStr (lit ''#d8cec3'')),
     (''motorway'', JStr (lit ''#f1c582'')), (''primary'', JStr (lit ''#f8e4ac'')), (''residential'', JStr (lit ''#ffffff'')),
     (''text'', JStr (lit ''#243346'')), (''halo'', JStr (lit ''#ffffff'')), (''roadWidth'', JNum (Fin 1)), (''labelSize'', JNum (Fin 1)),
     (''showBuildings'', JBool True), (''showPaths'', JBool True), (''showLabels'', JBool True)]"

type_synonym style = "(string \<times> js) list"

definition field :: "style \<Rightarrow> string \<Rightarrow> js" where
  "field st k = (case map_of st k of Some v \<Rightarrow> v | None \<Rightarrow> JUndef)"

definition override :: "style \<Rightarrow> (string \<times> js) list \<Rightarrow> style" where
  \<comment> \<open>\<open>{...st, ...mods}\<close> for mods of fields that are there\<close>
  "override st mods = map (\<lambda>(k, v). (k, case map_of mods k of Some w \<Rightarrow> w | None \<Rightarrow> v)) st"

definition style_presets :: "(string \<times> style) list" where
  "style_presets = [
     (''standard'', standard),
     (''atlas'', override standard [(''background'', JStr (lit ''#fffff5'')), (''water'', JStr (lit ''#a9cdee'')),
        (''forest'', JStr (lit ''#d4eaa5'')), (''farmland'', JStr (lit ''#f5f2dd'')), (''meadow'', JStr (lit ''#e4efc8'')),
        (''motorway'', JStr (lit ''#ffab68'')), (''primary'', JStr (lit ''#ffdc70'')), (''buildings'', JStr (lit ''#ded7df'')),
        (''text'', JStr (lit ''#323b40'')), (''roadWidth'', JNum (Fin 1.15))]),
     (''night'', override standard [(''background'', JStr (lit ''#17212c'')), (''water'', JStr (lit ''#264d64'')),
        (''forest'', JStr (lit ''#2a4439'')), (''farmland'', JStr (lit ''#353b30'')), (''meadow'', JStr (lit ''#304337'')),
        (''buildings'', JStr (lit ''#48515d'')), (''motorway'', JStr (lit ''#d7a65e'')), (''primary'', JStr (lit ''#bcb288'')),
        (''residential'', JStr (lit ''#788492'')), (''text'', JStr (lit ''#e6edf5'')), (''halo'', JStr (lit ''#17212c''))]),
     (''contrast'', override standard [(''background'', JStr (lit ''#ffffff'')), (''water'', JStr (lit ''#83c7e5'')),
        (''forest'', JStr (lit ''#abd09c'')), (''farmland'', JStr (lit ''#f1e8bb'')), (''motorway'', JStr (lit ''#e99a36'')),
        (''primary'', JStr (lit ''#edc657'')), (''residential'', JStr (lit ''#e2ded7'')), (''text'', JStr (lit ''#17212b'')),
        (''roadWidth'', JNum (Fin 1.35)), (''labelSize'', JNum (Fin 1.15))])]"

fun is_text :: "js \<Rightarrow> bool" where "is_text (JStr _) = True" | "is_text _ = False"
fun is_bool :: "js \<Rightarrow> bool" where "is_bool (JBool _) = True" | "is_bool _ = False"

definition ranges :: "(string \<times> real \<times> real) list" where
  "ranges = [(''roadWidth'', 0.6, 2), (''labelSize'', 0.8, 1.5)]"

definition color_passes :: "(real \<Rightarrow> jstr) \<Rightarrow> js \<Rightarrow> bool option" where
  "color_passes num v = map_option is_color (if truthy v then js_string num v else Some [])"

definition normal_field :: "(real \<Rightarrow> jstr) \<Rightarrow> js \<Rightarrow> string \<times> js \<Rightarrow> (string \<times> js) option" where
  \<comment> \<open>one field of the result: a default, or the value given if it is of the right sort\<close>
  "normal_field num input kv =
     (let k = fst kv; dflt = snd kv; v = jget input k
      in if is_text dflt
         then map_option (\<lambda>ok. (k, if ok then v else dflt)) (color_passes num v)
         else if is_bool dflt then Some (k, if is_bool v then v else dflt)
         else case map_of ranges k of
                Some (lo, hi) \<Rightarrow> Some (k, if isFinite v then JNum (Fin (max lo (min hi (num_of v)))) else dflt)
              | None \<Rightarrow> Some (k, dflt))"

definition normalize :: "(real \<Rightarrow> jstr) \<Rightarrow> js \<Rightarrow> style option" where
  "normalize num v = those (map (normal_field num v) standard)"

section \<open>Layers\<close>

fun js_scale :: "real \<Rightarrow> jsnum \<Rightarrow> jsnum" where
  \<comment> \<open>times a positive factor\<close>
  "js_scale f (Fin r) = Fin (r * f)"
| "js_scale f n = n"

definition scaled_at :: "js list \<Rightarrow> nat \<Rightarrow> bool" where
  \<comment> \<open>the places of an expression that hold widths\<close>
  "scaled_at xs i \<longleftrightarrow>
     (if xs \<noteq> [] \<and> hd xs = JStr (lit ''interpolate'') then 4 \<le> i \<and> even i
      else xs \<noteq> [] \<and> hd xs = JStr (lit ''match'') \<and> (3 \<le> i \<and> odd i \<and> i < length xs - 1 \<or> i = length xs - 1))"

function scaleWidth :: "real \<Rightarrow> js \<Rightarrow> js" where
  "scaleWidth f (JNum n) = JNum (js_scale f n)"
| "scaleWidth f (JArr xs) = JArr (map (\<lambda>(i, x). if scaled_at xs i then scaleWidth f x else x) (enumerate 0 xs))"
| "scaleWidth f JUndef = JUndef"
| "scaleWidth f JNull = JNull"
| "scaleWidth f (JBool b) = JBool b"
| "scaleWidth f (JStr s) = JStr s"
| "scaleWidth f (JObj ps) = JObj ps"
  by pat_completeness auto
termination
proof (relation "measure (\<lambda>(f, v). size v)")
  fix xs :: "js list" and z i x and f :: real
  assume "z \<in> set (enumerate 0 xs)" "(i, x) = z"
  then have "(i, x) \<in> set (enumerate 0 xs)" by simp
  then have "snd (i, x) \<in> snd ` set (enumerate 0 xs)" by (rule imageI)
  then have "x \<in> set xs" by (simp only: set_map [symmetric] map_snd_enumerate snd_conv)
  then show "((f, x), f, JArr xs) \<in> measure (\<lambda>(f, v). size v)" by (auto dest: size_list_estimation' [where f = size])
qed simp

definition by_class :: "(js \<times> js) list \<Rightarrow> js \<Rightarrow> js" where
  \<comment> \<open>\<open>['match', ['get', 'class'], ..., otherwise]\<close>\<close>
  "by_class cases otherwise = JArr ([JStr (lit ''match''), JArr [JStr (lit ''get''), JStr (lit ''class'')]]
     @ concat (map (\<lambda>(a, b). [a, b]) cases) @ [otherwise])"

definition layer_colors :: "style \<Rightarrow> jstr \<Rightarrow> (string \<times> js) option" where
  "layer_colors st i =
     (if i = lit ''background'' then Some (''background-color'', field st ''background'')
      else if i = lit ''water'' then Some (''fill-color'', field st ''water'')
      else if i = lit ''forest'' then Some (''fill-color'', field st ''forest'')
      else if i = lit ''buildings'' then Some (''fill-color'', field st ''buildings'')
      else None)"

definition put_when :: "bool \<Rightarrow> string \<Rightarrow> js \<Rightarrow> js \<Rightarrow> js" where
  "put_when b k v paint = (if b then jset paint k v else paint)"

definition paintFor :: "jstr \<Rightarrow> js \<Rightarrow> js \<Rightarrow> style \<Rightarrow> js" where
  \<comment> \<open>for the layer's ID, \<open>source-layer\<close> and \<open>paint\<close>\<close>
  "paintFor i source_layer layer_paint st =
     (let paint = (if truthy layer_paint then layer_paint else JObj []);
          paint = (case layer_colors st i of Some (k, v) \<Rightarrow> jset paint k v | None \<Rightarrow> paint);
          paint = put_when (i = lit ''offline-buildings-extrusion'') ''fill-extrusion-color'' (field st ''buildings'') paint;
          paint = put_when (i = lit ''farmland'') ''fill-color''
            (by_class [(JStr (lit ''meadow''), field st ''meadow'')] (field st ''farmland'')) paint;
          paint = put_when (i = lit ''roads'') ''line-color''
            (by_class [(JArr [JStr (lit ''motorway''), JStr (lit ''trunk'')], field st ''motorway''),
                       (JArr [JStr (lit ''primary''), JStr (lit ''secondary'')], field st ''primary'')] (field st ''residential'')) paint;
          paint = put_when (take 18 i = lit ''offline-waterways-'') ''line-color'' (field st ''water'') paint
      in put_when (source_layer = JStr (lit ''transportation'')) ''line-width''
           (scaleWidth (num_of (field st ''roadWidth'')) (jget paint ''line-width'')) paint)"

section \<open>The map\<close>

record style_layer =
  layer_id :: jstr
  layer_source :: js
  source_layer :: js
  layer_paint :: js

record style_map =
  styled_layers :: "style_layer list"
  style_active :: bool

datatype style_call =
    SetPaint jstr jstr js        \<comment> \<open>layer, property and value\<close>
  | SetVisible jstr bool
  | SetVariable string js

definition activate_style :: "style_layer list \<Rightarrow> bool \<Rightarrow> style_map" where
  \<comment> \<open>with the layers of the map's style\<close>
  "activate_style all_layers enabled =
     \<lparr>styled_layers = (if enabled
        then filter (\<lambda>l. layer_source l \<in> (\<lambda>t. JStr (lit t)) ` {''tinytiles'', ''offline-waterways'', ''offline-buildings''}
                          \<or> layer_id l = lit ''background'') all_layers
        else []),
      style_active = enabled\<rparr>"

definition layer_calls :: "style \<Rightarrow> style_layer \<Rightarrow> style_call list" where
  "layer_calls st l =
     (let i = layer_id l
      in (case paintFor i (source_layer l) (layer_paint l) st of JObj ps \<Rightarrow> map (\<lambda>(k, v). SetPaint i k v) ps | _ \<Rightarrow> [])
         @ (if i = lit ''buildings'' \<or> i = lit ''offline-buildings-extrusion''
            then [SetVisible i (truthy (field st ''showBuildings''))] else [])
         @ (if i = lit ''paths'' then [SetVisible i (truthy (field st ''showPaths''))] else []))"

definition apply_style :: "(jstr \<Rightarrow> bool) \<Rightarrow> style_map \<Rightarrow> style \<Rightarrow> style_call list" where
  \<comment> \<open>\<open>on_map\<close>: the layers that are still on the map\<close>
  "apply_style on_map m st =
     (if \<not> style_active m then []
      else concat (map (layer_calls st) (filter (\<lambda>l. on_map (layer_id l)) (styled_layers m)))
        @ [SetVariable ''--offline-label-color'' (field st ''text''), SetVariable ''--offline-label-halo'' (field st ''halo''),
           SetVariable ''--offline-label-size'' (field st ''labelSize''),
           SetVariable ''--offline-label-display'' (JStr (lit (if truthy (field st ''showLabels'') then ''block'' else ''none'')))])"

section \<open>The editor\<close>

record style_editor =
  draft_style :: style
  preset_choice :: string
  stored_style :: "js option option"   \<comment> \<open>the stored text: none, unreadable, or a JSON value\<close>

definition style_js :: "style \<Rightarrow> js" where
  "style_js st = JObj (map (\<lambda>(k, v). (lit k, v)) st)"

definition load_style :: "(real \<Rightarrow> jstr) \<Rightarrow> js option option \<Rightarrow> style" where
  \<comment> \<open>no text is read as \<open>null\<close>\<close>
  "load_style num stored =
     (case stored of
        Some None \<Rightarrow> standard
      | Some (Some v) \<Rightarrow> (case normalize num v of Some st \<Rightarrow> st | None \<Rightarrow> standard)
      | None \<Rightarrow> (case normalize num JNull of Some st \<Rightarrow> st | None \<Rightarrow> standard))"

definition preset_of :: "style \<Rightarrow> string" where
  "preset_of st = (case find (\<lambda>p. snd p = st) style_presets of Some p \<Rightarrow> fst p | None \<Rightarrow> ''custom'')"

definition init_editor :: "(real \<Rightarrow> jstr) \<Rightarrow> js option option \<Rightarrow> style_editor" where
  "init_editor num stored =
     \<lparr>draft_style = load_style num stored, preset_choice = preset_of (load_style num stored), stored_style = stored\<rparr>"

datatype style_event =
    EditField string js | ChoosePreset string | SaveStyle bool | ResetStyle

fun style_step :: "(real \<Rightarrow> jstr) \<Rightarrow> style_event \<Rightarrow> style_editor \<Rightarrow> style_editor" where
  "style_step num (EditField k v) e =
     (if k \<notin> set (map fst standard) then e
      else case normalize num (style_js (override (draft_style e) [(k, v)])) of
             None \<Rightarrow> e
           | Some st \<Rightarrow> e\<lparr>draft_style := st, preset_choice := ''custom''\<rparr>)"
| "style_step num (ChoosePreset p) e =
     (case map_of style_presets p of
        None \<Rightarrow> e\<lparr>preset_choice := p\<rparr>
      | Some st \<Rightarrow> e\<lparr>draft_style := st, preset_choice := p\<rparr>)"
| "style_step num (SaveStyle writable) e =
     (if writable then e\<lparr>stored_style := Some (Some (clone (style_js (draft_style e))))\<rparr> else e)"
| "style_step num ResetStyle e = e\<lparr>draft_style := standard, preset_choice := ''standard''\<rparr>"

lemma apply_on_map:
  assumes "c \<in> set (apply_style on_map (activate_style ls enabled) st)"
  shows "enabled \<and> (case c of SetPaint i k v \<Rightarrow> on_map i
      | SetVisible i b \<Rightarrow> on_map i \<and> b = truthy (field st (if i = lit ''paths'' then ''showPaths'' else ''showBuildings''))
      | SetVariable k v \<Rightarrow> True)"
  using assms
  by (auto simp: apply_style_def activate_style_def layer_calls_def Let_def split: if_splits js.splits)

section \<open>Normal styles\<close>

definition field_ok :: "(real \<Rightarrow> jstr) \<Rightarrow> string \<times> js \<Rightarrow> bool" where
  "field_ok num kv \<longleftrightarrow>
     (case map_of standard (fst kv) of
        None \<Rightarrow> False
      | Some dflt \<Rightarrow>
          if is_text dflt then color_passes num (snd kv) = Some True
          else if is_bool dflt then is_bool (snd kv)
          else case map_of ranges (fst kv) of
                 Some (lo, hi) \<Rightarrow> isFinite (snd kv) \<and> lo \<le> num_of (snd kv) \<and> num_of (snd kv) \<le> hi
               | None \<Rightarrow> False)"

definition style_ok :: "(real \<Rightarrow> jstr) \<Rightarrow> style \<Rightarrow> bool" where
  "style_ok num st \<longleftrightarrow> map fst st = map fst standard \<and> list_all (field_ok num) st"

definition colors_only :: "(real \<Rightarrow> jstr) \<Rightarrow> bool" where
  \<comment> \<open>no number is written like a colour\<close>
  "colors_only num \<longleftrightarrow> (\<forall>r. \<not> is_color (num r))"

lemma color_no_comma: "is_color s \<Longrightarrow> 44 \<notin> set s"
  by (cases s) (auto simp: is_color_def list_all_iff is_hex_def)

lemma color_json: "colors_only num \<Longrightarrow> color_passes num v = Some True \<Longrightarrow> json_value v"
proof -
  assume "colors_only num"
  then have "only_strings num is_color"
    using color_no_comma unfolding only_strings_def colors_only_def by (simp add: is_color_def)
  moreover assume "color_passes num v = Some True"
  then obtain s where "js_string num v = Some s" "is_color s" by (auto simp: color_passes_def is_color_def split: if_splits)
  ultimately show "json_value v" by (rule js_string_json)
qed

lemma color_text: "color_passes num (JStr s) = Some (is_color s)"
  by (cases s) (auto simp: color_passes_def is_color_def)

lemma standard_keys: "map fst standard = [''background'', ''water'', ''forest'', ''farmland'', ''meadow'', ''buildings'',
    ''motorway'', ''primary'', ''residential'', ''text'', ''halo'', ''roadWidth'', ''labelSize'', ''showBuildings'', ''showPaths'', ''showLabels'']"
  by (simp add: standard_def)

lemma is_color_lit: "is_color (lit cs) \<longleftrightarrow> length cs = 7 \<and> hd cs = CHR ''#''
    \<and> list_all (\<lambda>c. let n = of_char c :: nat in 48 \<le> n \<and> n \<le> 57 \<or> 65 \<le> n \<and> n \<le> 70 \<or> 97 \<le> n \<and> n \<le> 102) (tl cs)"
proof (cases cs)
  case (Cons c r)
  have "(word_of_nat (of_char c) :: 16 word) = 35 \<longleftrightarrow> lit [c] = lit [CHR ''#'']" by (simp add: lit_def)
  then have "(word_of_nat (of_char c) :: 16 word) = 35 \<longleftrightarrow> c = CHR ''#''" by simp
  then show ?thesis by (simp add: Cons is_color_def is_hex_def lit_def unat_lit_char list_all_iff Let_def)
qed (simp add: is_color_def)

definition sort_ok :: "string \<times> js \<Rightarrow> bool" where
  "sort_ok kv \<longleftrightarrow>
     (case snd kv of JStr s \<Rightarrow> is_color s
      | JBool _ \<Rightarrow> True
      | v \<Rightarrow> (case map_of ranges (fst kv) of Some (lo, hi) \<Rightarrow> lo \<le> 1 \<and> 1 \<le> hi \<and> v = JNum (Fin 1) | None \<Rightarrow> False))"

lemma standard_sorts: "kv \<in> set standard \<Longrightarrow> map_of standard (fst kv) = Some (snd kv) \<and> sort_ok kv"
proof -
  assume kv: "kv \<in> set standard"
  have "distinct (map fst standard)" by (simp add: standard_keys)
  then have "map_of standard (fst kv) = Some (snd kv)" using kv by (intro map_of_is_SomeI) auto
  moreover have "list_all sort_ok standard"
    by (simp add: standard_def sort_ok_def is_color_lit ranges_def)
  ultimately show ?thesis using kv by (simp add: list_all_iff)
qed

lemma clamped: "lo \<le> hi \<Longrightarrow> lo \<le> max lo (min hi r) \<and> max lo (min hi r) \<le> (hi :: real)"
  by auto

lemma normal_field_ok:
  assumes "kv \<in> set standard" "normal_field num input kv = Some kv'"
  shows "fst kv' = fst kv \<and> field_ok num kv'"
proof -
  note s = standard_sorts [OF assms(1)]
  consider (colour) c where "snd kv = JStr c" "is_color c" | (switch) b where "snd kv = JBool b"
    | (factor) lo hi where "snd kv = JNum (Fin 1)" "map_of ranges (fst kv) = Some (lo, hi)" "lo \<le> 1" "1 \<le> hi"
    using s by (auto simp: sort_ok_def split: js.splits option.splits)
  then show ?thesis
  proof cases
    case colour
    then show ?thesis
      using assms(2) s by (auto simp: normal_field_def Let_def field_ok_def color_text)
  next
    case switch
    then show ?thesis using assms(2) s by (auto simp: normal_field_def Let_def field_ok_def)
  next
    case factor
    then show ?thesis
      using assms(2) s clamped [of lo hi] by (auto simp: normal_field_def Let_def field_ok_def)
  qed
qed

lemma those_list_all2: "those (map f xs) = Some ys \<longleftrightarrow> list_all2 (\<lambda>x y. f x = Some y) xs ys"
proof (induction xs arbitrary: ys)
  case (Cons x xs)
  show ?case by (cases ys) (auto simp: Cons split: option.split)
qed auto

lemma normalize_ok: "normalize num v = Some st \<Longrightarrow> style_ok num st"
proof -
  assume "normalize num v = Some st"
  then have n: "list_all2 (\<lambda>kv kv'. normal_field num v kv = Some kv') standard st"
    by (simp add: normalize_def those_list_all2)
  then have l: "length st = length standard" by (auto dest: list_all2_lengthD)
  have f: "fst (st ! i) = fst (standard ! i) \<and> field_ok num (st ! i)" if "i < length standard" for i
    by (rule normal_field_ok [OF nth_mem [OF that], of num v]) (use n that in \<open>simp add: list_all2_conv_all_nth\<close>)
  have "map fst st = map fst standard" by (rule nth_equalityI) (use l f in auto)
  moreover have "list_all (field_ok num) st" using l f by (simp add: list_all_length)
  ultimately show ?thesis by (simp add: style_ok_def)
qed

lemma style_value: "style_ok num st \<Longrightarrow> (k, v) \<in> set st \<Longrightarrow> map_of st k = Some v \<and> field_ok num (k, v)"
proof -
  assume ok: "style_ok num st" and "(k, v) \<in> set st"
  moreover have "distinct (map fst st)" using ok by (simp add: style_ok_def standard_keys)
  ultimately show ?thesis by (auto simp: style_ok_def list_all_iff)
qed

lemma field_json: "colors_only num \<Longrightarrow> field_ok num (k, v) \<Longrightarrow> json_value v"
  using color_json by (auto simp: field_ok_def split: option.splits if_splits elim: is_bool.elims isFinite_cases)

lemma style_json: "colors_only num \<Longrightarrow> style_ok num st \<Longrightarrow> json_value (style_js st)"
  using field_json by (auto simp: style_js_def style_ok_def list_all_iff)

lemma map_of_lit: "map_of (map (\<lambda>(k, v). (lit k, v)) st) (lit k) = map_of st k"
  by (induction st) auto

lemma jget_style: "map_of st k = Some v \<Longrightarrow> jget (style_js st) k = v"
  by (simp add: style_js_def map_of_lit)

lemma normalize_same:
  assumes "style_ok num st"
  shows "normalize num (style_js st) = Some st"
proof -
  have keys: "map fst st = map fst standard" using assms by (simp add: style_ok_def)
  then have len: "length st = length standard" by (metis length_map)
  have "normal_field num (style_js st) (standard ! i) = Some (st ! i)" if i: "i < length standard" for i
  proof -
    obtain k v where kv: "st ! i = (k, v)" by (cases "st ! i")
    then have "(k, v) \<in> set st" using i len nth_mem by metis
    note v = style_value [OF assms this]
    have k: "fst (standard ! i) = k" using keys i len kv by (metis fst_conv nth_map)
    note s = standard_sorts [OF nth_mem [OF i]]
    have f: "field_ok num (k, v)" "jget (style_js st) k = v" using v jget_style by auto
    consider (colour) c where "snd (standard ! i) = JStr c" | (switch) b where "snd (standard ! i) = JBool b"
      | (factor) lo hi where "snd (standard ! i) = JNum (Fin 1)" "map_of ranges k = Some (lo, hi)"
      using s k by (auto simp: sort_ok_def split: js.splits option.splits)
    then show ?thesis
    proof cases
      case colour
      then show ?thesis using s f k kv by (auto simp: normal_field_def Let_def field_ok_def)
    next
      case switch
      then show ?thesis using s f k kv by (auto simp: normal_field_def Let_def field_ok_def)
    next
      case factor
      then obtain r where "v = JNum (Fin r)" "lo \<le> r" "r \<le> hi" using s f k by (auto simp: field_ok_def elim!: isFinite_cases)
      then show ?thesis using s f k kv factor by (auto simp: normal_field_def Let_def max_def min_def)
    qed
  qed
  then show ?thesis using len by (simp add: normalize_def those_list_all2 list_all2_conv_all_nth)
qed

lemma standard_ok: "style_ok num standard"
proof -
  have "field_ok num kv" if "kv \<in> set standard" for kv
    using standard_sorts [OF that]
    by (cases kv; cases "snd kv") (auto simp: field_ok_def sort_ok_def color_text split: option.splits)
  then show ?thesis by (simp add: style_ok_def list_all_iff)
qed

lemma override_ok:
  assumes "style_ok num st" "list_all (field_ok num) mods"
  shows "style_ok num (override st mods)"
  using assms by (auto simp: style_ok_def override_def list_all_iff comp_def case_prod_unfold split: option.split dest!: map_of_SomeD)

lemma presets_ok: "(p, st) \<in> set style_presets \<Longrightarrow> style_ok num st"
proof -
  have c: "field_ok num (k, JStr s)" if "map_of standard k = Some (JStr t)" "is_color s" for k s t
    using that by (simp add: field_ok_def color_text)
  have m: "map_of standard = map_of [(''background'', JStr (lit ''#f4f2eb'')), (''water'', JStr (lit ''#aad3df'')), (''forest'', JStr (lit ''#c6d9ba'')),
     (''farmland'', JStr (lit ''#eee7ce'')), (''meadow'', JStr (lit ''#dce5c7'')), (''buildings'', JStr (lit ''#d8cec3'')),
     (''motorway'', JStr (lit ''#f1c582'')), (''primary'', JStr (lit ''#f8e4ac'')), (''residential'', JStr (lit ''#ffffff'')),
     (''text'', JStr (lit ''#243346'')), (''halo'', JStr (lit ''#ffffff'')), (''roadWidth'', JNum (Fin 1)), (''labelSize'', JNum (Fin 1)),
     (''showBuildings'', JBool True), (''showPaths'', JBool True), (''showLabels'', JBool True)]" by (simp add: standard_def)
  assume "(p, st) \<in> set style_presets"
  then show ?thesis
    by (auto simp: style_presets_def standard_ok intro!: override_ok)
      (simp_all add: field_ok_def m color_text is_color_lit ranges_def)
qed

lemma load_style_ok: "style_ok num (load_style num stored)"
  using normalize_ok standard_ok by (auto simp: load_style_def split: option.split)

lemma style_step_ok: "style_ok num (draft_style e) \<Longrightarrow> style_ok num (draft_style (style_step num ev e))"
  using normalize_ok [of num] standard_ok presets_ok
  by (cases ev) (auto split: option.split dest!: map_of_SomeD)

lemma style_run_ok: "style_ok num (draft_style (fold (style_step num) evs (init_editor num stored)))"
proof -
  have "style_ok num (draft_style (fold (style_step num) evs e))" if "style_ok num (draft_style e)" for e
    using that by (induction evs arbitrary: e) (auto simp: style_step_ok simp del: style_step.simps)
  then show ?thesis using load_style_ok by (simp add: init_editor_def)
qed

text \<open>C36: Whatever was stored and whatever is entered, the style of the offline map is complete and proper:
  it has exactly the sixteen fields, every colour passes the colour test, both factors are in their
  ranges; and once it is stored it comes back unchanged when the page is opened again.\<close>

theorem style_survives_reload:
  assumes "colors_only num" "e = fold (style_step num) evs (init_editor num stored)"
  shows "style_ok num (draft_style e)
    \<and> load_style num (stored_style (style_step num (SaveStyle True) e)) = draft_style e"
  using style_run_ok [of num evs stored] normalize_same [of num "draft_style e"] style_json [OF assms(1), of "draft_style e"]
  by (simp add: assms(2) load_style_def)

lemma js_scale_mult: "js_scale b (js_scale a n) = js_scale (a * b) n"
  by (cases n) auto

lemma scaled_head: "xs \<noteq> [] \<Longrightarrow> hd xs = JStr s \<Longrightarrow> hd (map (\<lambda>(i, x). if scaled_at xs i then scaleWidth f x else x) (enumerate 0 xs)) = JStr s"
  by (cases xs) auto

lemma scaled_places: "elems (scaleWidth f (JArr xs)) = ys \<Longrightarrow> scaled_at xs i \<Longrightarrow> scaled_at ys i"
proof -
  assume ys: "elems (scaleWidth f (JArr xs)) = ys" and sc: "scaled_at xs i"
  then have ne: "xs \<noteq> []" by (auto simp: scaled_at_def split: if_splits)
  have len: "length ys = length xs" using ys by auto
  obtain w where w: "hd xs = JStr w" using sc by (auto simp: scaled_at_def split: if_splits)
  have "hd ys = JStr w" using ys scaled_head [OF ne w, of f] by simp
  then show "scaled_at ys i" using sc w len ne by (cases ys) (auto simp: scaled_at_def split: if_splits)
qed

text \<open>Scaling the widths of a layer by one factor and then by another is scaling them by the product,
  however the expression is nested, and the factor one changes nothing.\<close>

theorem scaleWidth_product:
  "scaleWidth b (scaleWidth a v) = scaleWidth (a * b) v \<and> scaleWidth 1 v = v"
proof -
  have "scaleWidth b (scaleWidth a v) = scaleWidth (a * b) v"
  proof (induction a v rule: scaleWidth.induct)
    case (2 f xs)
    let ?ys = "map (\<lambda>(i, x). if scaled_at xs i then scaleWidth f x else x) (enumerate 0 xs)"
    have nth: "?ys ! i = (if scaled_at xs i then scaleWidth f (xs ! i) else xs ! i)" if "i < length xs" for i
      using that by (simp add: nth_enumerate_eq)
    have same: "scaled_at ?ys i \<longleftrightarrow> scaled_at xs i" if "i < length xs" for i
    proof
      assume a: "scaled_at ?ys i"
      then obtain w where w: "hd ?ys = JStr w" by (auto simp: scaled_at_def split: if_splits)
      have ne: "xs \<noteq> []" using that by auto
      have "hd xs = JStr w"
      proof (cases "scaled_at xs 0")
        case True
        then obtain u where u: "hd xs = JStr u" by (auto simp: scaled_at_def split: if_splits)
        then show ?thesis using w scaled_head [OF ne u, of f] by simp
      next
        case False
        then show ?thesis using w ne by (cases xs) auto
      qed
      then show "scaled_at xs i" using a w ne by (auto simp: scaled_at_def split: if_splits)
    next
      assume "scaled_at xs i"
      then show "scaled_at ?ys i" by (rule scaled_places [of f, rotated]) simp
    qed
    have "scaleWidth b (scaleWidth f (xs ! i)) = scaleWidth (f * b) (xs ! i)" if "i < length xs" "scaled_at xs i" for i
    proof -
      have "(i, xs ! i) \<in> set (enumerate 0 xs)" using that(1) by (simp add: in_set_enumerate_eq)
      from 2 [OF this refl that(2)] show ?thesis .
    qed
    then have "map (\<lambda>(i, x). if scaled_at ?ys i then scaleWidth b x else x) (enumerate 0 ?ys)
      = map (\<lambda>(i, x). if scaled_at xs i then scaleWidth (f * b) x else x) (enumerate 0 xs)"
      by (intro nth_equalityI) (auto simp: nth_enumerate_eq nth same)
    then show ?case by simp
  qed (auto simp: js_scale_mult)
  moreover have "scaleWidth 1 v = v"
  proof (induction "1 :: real" v rule: scaleWidth.induct)
    case (1 n)
    show ?case by (cases n) auto
  next
    case (2 xs)
    have "(case p of (i, x) \<Rightarrow> if scaled_at xs i then scaleWidth 1 x else x) = snd p" if "p \<in> set (enumerate 0 xs)" for p
      using 2 [OF that] by (cases p) auto
    then have "map (\<lambda>(i, x). if scaled_at xs i then scaleWidth 1 x else x) (enumerate 0 xs) = map snd (enumerate 0 xs)"
      by (intro map_cong) auto
    then show ?case by simp
  qed auto
  ultimately show ?thesis by simp
qed

theorem style_survives_reload_witness:
  "load_style (\<lambda>_. []) (stored_style (style_step (\<lambda>_. []) (SaveStyle True) (init_editor (\<lambda>_. []) (Some None)))) = standard"
proof -
  have "colors_only (\<lambda>_. [])" by (simp add: colors_only_def is_color_def)
  from style_survives_reload [OF this, of _ "[]" "Some None"] show ?thesis
    by (simp add: init_editor_def load_style_def)
qed

end
