(* ===== verification/Requests.thy ===== *)
theory Requests
  imports Prelude
begin

text \<open>
  Answers that arrive late. Several parts of the page start a request, go on, and use the answer only
  if nothing has happened in between that makes it stale; each has its own token for that: a serial
  number (\<open>osm-hover.js\<close>), a revision (\<open>map-post.js\<close>), or the identity of the request's controller
  (\<open>offline-buildings.js\<close>). The locale is what they share: the one token that is accepted, the tokens
  handed out so far, and the promise that an event never makes an old token acceptable again.
\<close>

locale latest_wins =
  fixes live :: "'s \<Rightarrow> 't option" and used :: "'s \<Rightarrow> 't set" and step :: "'e \<Rightarrow> 's \<Rightarrow> 's" and inv :: "'s \<Rightarrow> bool"
  assumes live_used: "inv s \<Longrightarrow> live s = Some t \<Longrightarrow> t \<in> used s"
    and inv_step: "inv s \<Longrightarrow> inv (step e s)"
    and used_step: "inv s \<Longrightarrow> used s \<subseteq> used (step e s)"
    and live_step: "inv s \<Longrightarrow> live (step e s) = Some t \<Longrightarrow> t \<in> used s \<Longrightarrow> live s = Some t"
begin

definition stale :: "'t \<Rightarrow> 's \<Rightarrow> bool" where
  "stale t s \<longleftrightarrow> t \<in> used s \<and> live s \<noteq> Some t"

lemma stale_step: "inv s \<Longrightarrow> stale t s \<Longrightarrow> stale t (step e s)"
  using live_step [of s e t] used_step [of s e] by (auto simp: stale_def)

lemma inv_run: "inv s \<Longrightarrow> inv (fold step es s)"
  by (induction es arbitrary: s) (auto simp: inv_step)

lemma stale_run: "inv s \<Longrightarrow> stale t s \<Longrightarrow> stale t (fold step es s)"
  by (induction es arbitrary: s) (auto simp: inv_step stale_step)

lemma superseded: "inv s \<Longrightarrow> live s = Some t \<Longrightarrow> live s' = Some t' \<Longrightarrow> s' = step e s \<Longrightarrow> t' \<noteq> t \<Longrightarrow> stale t s'"
  using used_step [of s e] live_used [of s t] by (auto simp: stale_def)

end

end
