(* ===== verification/MapPost.thy ===== *)
theory MapPost
  imports Requests OsmGeometry LonWrap
begin

text \<open>
  The picture post of a map section (\<open>src/cmd/web/map-post.js\<close>): breaking a text into lines that fit, the
  caption, the layout of the picture, and the state machine that offers a preview only while nothing
  has changed since it was requested. What the canvas measures and draws, the map and the check of a
  link are parameters; a preview takes two events, its request and its end.
\<close>

datatype post_err = TextTooLong | NoRoom | CaptureFailed | PngFailed | Forbidden

section \<open>Breaking text into lines\<close>

fun runs :: "(16 word \<Rightarrow> bool) \<Rightarrow> jstr \<Rightarrow> jstr \<Rightarrow> jstr list" where
  \<comment> \<open>the pieces between separators, the first one continuing a piece already read\<close>
  "runs sep acc [] = [acc]"
| "runs sep acc (c # s) = (if sep c then acc # runs sep [] s else runs sep (acc @ [c]) s)"

definition paragraphs :: "jstr \<Rightarrow> jstr list" where
  \<comment> \<open>\<open>text.split('\n')\<close>\<close>
  "paragraphs s = runs (\<lambda>c. c = 10) [] s"

definition words_of :: "jstr \<Rightarrow> jstr list" where
  \<comment> \<open>\<open>paragraph.split(/\s+/).filter(Boolean)\<close>\<close>
  "words_of s = filter (\<lambda>w. w \<noteq> []) (runs js_space [] s)"

fun chars :: "jstr \<Rightarrow> jstr list" where
  \<comment> \<open>\<open>for (const char of word)\<close>: by code points\<close>
  "chars [] = []"
| "chars [a] = [[a]]"
| "chars (a # b # r) = (if high_surrogate a \<and> low_surrogate b then [a, b] # chars r else [a] # chars (b # r))"

type_synonym broken = "jstr list \<times> jstr"   \<comment> \<open>the lines finished and the line being filled\<close>

definition put_char :: "(jstr \<Rightarrow> real) \<Rightarrow> real \<Rightarrow> jstr \<Rightarrow> broken \<Rightarrow> broken" where
  "put_char gauge width c b =
     (if snd b \<noteq> [] \<and> width < gauge (snd b @ c) then (fst b @ [snd b], c) else (fst b, snd b @ c))"

definition put_word :: "(jstr \<Rightarrow> real) \<Rightarrow> real \<Rightarrow> jstr \<Rightarrow> broken \<Rightarrow> broken" where
  "put_word gauge width w b =
     (let candidate = (if snd b = [] then w else snd b @ 32 # w)
      in if gauge candidate \<le> width then (fst b, candidate)
         else fold (put_char gauge width) (chars w)
                (if snd b = [] then b else (fst b @ [snd b], [])))"

definition put_paragraph :: "(jstr \<Rightarrow> real) \<Rightarrow> real \<Rightarrow> jstr \<Rightarrow> jstr list \<Rightarrow> jstr list" where
  "put_paragraph gauge width p lines =
     (let b = fold (put_word gauge width) (words_of p) (lines, [])
      in if snd b = [] then fst b else fst b @ [snd b])"

definition wrap :: "jstr \<Rightarrow> (jstr \<Rightarrow> real) \<Rightarrow> real \<Rightarrow> nat \<Rightarrow> post_err + jstr list" where
  "wrap text gauge width maxLines =
     (let lines = fold (put_paragraph gauge width) (paragraphs text) []
      in throw_if (maxLines < length lines) TextTooLong (Inr lines))"

section \<open>Caption\<close>

record post_fields =
  title :: jstr
  description :: jstr
  location :: jstr
  date :: jstr
  link :: jstr
  alt :: jstr

definition labelled :: "jstr \<Rightarrow> jstr \<Rightarrow> jstr" where
  "labelled label v = (if v = [] then [] else label @ v)"

definition pin_text :: "pos option \<Rightarrow> jstr" where
  "pin_text pin =
     (case pin of None \<Rightarrow> []
      | Some (x, y) \<Rightarrow>
          lit ''Kartenpunkt: '' @ toFixed 6 y @ lit '', '' @ toFixed 6 x @ [10]
          @ lit ''https://www.openstreetmap.org/?mlat='' @ toFixed 6 y @ lit ''&mlon='' @ toFixed 6 x
          @ lit ''#map=16/'' @ toFixed 6 y @ lit ''/'' @ toFixed 6 x)"

definition caption :: "post_fields \<Rightarrow> pos option \<Rightarrow> jstr" where
  "caption f pin = join_with [10, 10] (filter (\<lambda>s. s \<noteq> [])
     [title f, description f, labelled (lit ''Ort: '') (location f), labelled (lit ''Termin / Zeitraum: '') (date f),
      pin_text pin, labelled (lit ''Weitere Informationen: '') (link f), lit ''Bildbeschreibung: '' @ alt f])"

section \<open>Layout\<close>

definition formats :: "(string \<times> real \<times> real) list" where
  "formats = [(''square'', 1080, 1080), (''landscape'', 1200, 630), (''portrait'', 1080, 1350)]"

record layout =
  top :: real          \<comment> \<open>where the map begins\<close>
  map_height :: real
  draw_x :: real
  draw_y :: real
  draw_w :: real
  draw_h :: real
  credit_lines :: "jstr list"

definition text_block :: "(real \<Rightarrow> jstr \<Rightarrow> real) \<Rightarrow> jstr \<Rightarrow> real \<Rightarrow> real \<Rightarrow> nat \<Rightarrow> real \<Rightarrow> post_err + real" where
  \<comment> \<open>the new position below a text of the given size; an empty one takes no room\<close>
  "text_block gauge s fontsize width maxLines y =
     (if s = [] then Inr y
      else bindr (wrap s (gauge fontsize) width maxLines) (\<lambda>lines. Inr (y + real (length lines) * fontsize * 1.25 + 12)))"

definition layout_of :: "(real \<Rightarrow> jstr \<Rightarrow> real) \<Rightarrow> post_fields \<Rightarrow> jstr \<Rightarrow> real \<times> real \<Rightarrow> real \<times> real \<Rightarrow> post_err + layout" where
  \<comment> \<open>for the picture's and the map image's width and height\<close>
  "layout_of gauge f attribution wh snapshot =
     (let w = fst wh; h = snd wh; whenWhere = join_with [32, 183, 32] (filter (\<lambda>s. s \<noteq> []) [location f, date f])
      in bindr (text_block gauge (title f) 38 (w - 72) 2 30) (\<lambda>y.
         bindr (text_block gauge (description f) 23 (w - 72) 3 y) (\<lambda>y.
         bindr (text_block gauge whenWhere 21 (w - 72) 2 y) (\<lambda>y.
         bindr (wrap (attribution @ [32, 183, 32] @ lit ''openstreetmap.org/copyright'') (gauge 16) (w - 72) 6) (\<lambda>credits.
           let footer = real (length credits) * 21 + 52; mapHeight = h - y - footer
           in throw_if (mapHeight < 150) NoRoom
                (let scale = min (w / fst snapshot) (mapHeight / snd snapshot);
                     dw = fst snapshot * scale; dh = snd snapshot * scale
                 in Inr \<lparr>top = y, map_height = mapHeight, draw_x = (w - dw) / 2, draw_y = y + (mapHeight - dh) / 2,
                      draw_w = dw, draw_h = dh, credit_lines = credits\<rparr>))))))"

section \<open>The preview\<close>

datatype post_status = Idle | PinSet | NeedText | BadLink | StillLoading | Working | Changed | Ready | PostFailed post_err

record preview =
  pv_fields :: post_fields
  pv_pin :: "pos option"
  pv_format :: string

record post =
  pin :: "pos option"
  form :: post_fields
  format :: string
  busy :: bool
  revision :: nat
  pending :: "(nat \<times> post_fields \<times> string) option"   \<comment> \<open>\<open>generation\<close>, the texts and the format when it began\<close>
  image :: "preview option"
  post_status :: post_status

definition empty_fields :: post_fields where
  "empty_fields = \<lparr>title = [], description = [], location = [], date = [], link = [], alt = []\<rparr>"

definition init_post :: post where
  "init_post = \<lparr>pin = None, form = empty_fields, format = ''square'', busy = False, revision = 0, pending = None,
     image = None, post_status = Idle\<rparr>"

definition trimmed :: "post_fields \<Rightarrow> post_fields" where
  "trimmed f = \<lparr>title = trim (title f), description = trim (description f), location = trim (location f),
     date = trim (date f), link = trim (link f), alt = trim (alt f)\<rparr>"

definition invalidate :: "post \<Rightarrow> post" where
  "invalidate st = st\<lparr>revision := revision st + 1, image := None, post_status := Idle\<rparr>"

definition set_pin :: "pos \<Rightarrow> post \<Rightarrow> post" where
  "set_pin center st = (invalidate (st\<lparr>pin := Some (normLon (fst center), snd center)\<rparr>))\<lparr>post_status := PinSet\<rparr>"

definition generate :: "(jstr \<Rightarrow> bool) \<Rightarrow> bool \<Rightarrow> post \<Rightarrow> post" where
  \<comment> \<open>\<open>link_ok\<close>: an absolute HTTP or HTTPS address; \<open>loaded\<close>: the map and its tiles are there\<close>
  "generate link_ok loaded st =
     (if busy st then st
      else let st = invalidate st; f = trimmed (form st)
           in if title f = [] \<or> alt f = [] then st\<lparr>post_status := NeedText\<rparr>
              else if link f \<noteq> [] \<and> \<not> link_ok (link f) then st\<lparr>post_status := BadLink\<rparr>
              else if \<not> loaded then st\<lparr>post_status := StillLoading\<rparr>
              else st\<lparr>busy := True, pending := Some (revision st, f, format st), post_status := Working\<rparr>)"

definition generated :: "post_err option \<Rightarrow> post \<Rightarrow> post" where
  \<comment> \<open>the end of the request, with the error of the layout, the map or the canvas if there was one\<close>
  "generated failure st =
     (case pending st of
        None \<Rightarrow> st
      | Some (generation, f, fmt) \<Rightarrow>
          (let st = st\<lparr>busy := False, pending := None\<rparr>
           in case failure of
                Some e \<Rightarrow> st\<lparr>post_status := PostFailed e\<rparr>
              | None \<Rightarrow>
                  if generation \<noteq> revision st then st\<lparr>post_status := Changed\<rparr>
                  else st\<lparr>image := Some \<lparr>pv_fields = f, pv_pin = pin st, pv_format = fmt\<rparr>, post_status := Ready\<rparr>))"

datatype post_event =
    PinHere pos | Unpin | EditForm post_fields string | MapMoved | StyleLoaded
  | Generate bool | Generated "post_err option"

fun post_step :: "(jstr \<Rightarrow> bool) \<Rightarrow> post_event \<Rightarrow> post \<Rightarrow> post" where
  "post_step link_ok (PinHere p) st = set_pin p st"
| "post_step link_ok Unpin st = invalidate (st\<lparr>pin := None\<rparr>)"
| "post_step link_ok (EditForm f fmt) st = invalidate (st\<lparr>form := f, format := fmt\<rparr>)"
| "post_step link_ok MapMoved st = invalidate st"
| "post_step link_ok StyleLoaded st = invalidate st"
| "post_step link_ok (Generate loaded) st = generate link_ok loaded st"
| "post_step link_ok (Generated failure) st = generated failure st"

section \<open>A preview shows what the form says\<close>

lemmas post_defs = invalidate_def set_pin_def generate_def generated_def Let_def

definition post_ok :: "post \<Rightarrow> bool" where
  "post_ok st \<longleftrightarrow>
     (busy st \<longleftrightarrow> pending st \<noteq> None)
     \<and> (\<forall>g f fmt. pending st = Some (g, f, fmt) \<longrightarrow> g \<le> revision st \<and> (g = revision st \<longrightarrow> f = trimmed (form st) \<and> fmt = format st))
     \<and> (\<forall>pv. image st = Some pv \<longrightarrow> pv_fields pv = trimmed (form st) \<and> pv_pin pv = pin st \<and> pv_format pv = format st
          \<and> title (pv_fields pv) \<noteq> [] \<and> alt (pv_fields pv) \<noteq> [])
     \<and> (\<forall>g f fmt. pending st = Some (g, f, fmt) \<longrightarrow> title f \<noteq> [] \<and> alt f \<noteq> [])"

lemma invalidate_ok: "post_ok st \<Longrightarrow> post_ok (invalidate (st\<lparr>pin := p, form := f, format := fmt\<rparr>))"
  by (fastforce simp: post_ok_def invalidate_def)

lemma invalidated_ok: "post_ok st \<Longrightarrow> post_ok (invalidate st)"
  by (fastforce simp: post_ok_def invalidate_def)

lemma status_ok: "post_ok (st\<lparr>post_status := x\<rparr>) = post_ok st"
  by (simp add: post_ok_def)

lemma generate_ok: "post_ok st \<Longrightarrow> post_ok (generate link_ok loaded st)"
proof -
  assume ok: "post_ok st"
  note i = invalidated_ok [OF ok]
  show ?thesis
    unfolding generate_def Let_def using ok i
    by (auto simp: status_ok) (auto simp: post_ok_def invalidate_def)
qed

lemma generated_ok: "post_ok st \<Longrightarrow> post_ok (generated failure st)"
  by (auto simp: post_ok_def generated_def Let_def split: option.split)

lemma post_step_ok: "post_ok st \<Longrightarrow> post_ok (post_step link_ok ev st)"
proof (cases ev)
  case (PinHere p)
  moreover assume "post_ok st"
  ultimately show ?thesis
    using invalidate_ok [of st, where p = "Some (normLon (fst p), snd p)" and f = "form st" and fmt = "format st"] by (simp add: set_pin_def status_ok)
next
  case Unpin
  moreover assume "post_ok st"
  ultimately show ?thesis using invalidate_ok [of st, where p = None and f = "form st" and fmt = "format st"] by simp
next
  case (EditForm f fmt)
  moreover assume "post_ok st"
  ultimately show ?thesis using invalidate_ok [of st, where p = "pin st" and f = f and fmt = fmt] by simp
qed (auto intro: invalidated_ok generate_ok generated_ok)

lemma init_post_ok: "post_ok init_post"
  by (simp add: post_ok_def init_post_def)

lemma post_run_ok: "post_ok (fold (post_step link_ok) evs init_post)"
proof -
  have "post_ok (fold (post_step link_ok) evs st)" if "post_ok st" for st
    using that by (induction evs arbitrary: st) (auto simp: post_step_ok)
  then show ?thesis using init_post_ok by blast
qed

lemma revision_grows: "revision st \<le> revision (post_step link_ok ev st)"
  by (cases ev) (auto simp: post_defs split: option.split)

interpretation post_revisions: latest_wins "\<lambda>st. Some (revision st)" "\<lambda>st. {..revision st}" "post_step link_ok" "\<lambda>_. True"
  for link_ok
proof
  fix s :: post and e and t
  show "{..revision s} \<subseteq> {..revision (post_step link_ok e s)}" using revision_grows by auto
  show "Some (revision (post_step link_ok e s)) = Some t \<Longrightarrow> t \<in> {..revision s} \<Longrightarrow> Some (revision s) = Some t"
    using revision_grows [of s link_ok e] by auto
qed auto

text \<open>A preview that is offered for download shows what the form says: in every state the tool can reach,
  a picture that is offered was made from the texts, the pin and the format as they are now, and has a
  heading and a description; a picture whose request was overtaken by a change is never offered.\<close>

theorem preview_matches_form:
  assumes "st = fold (post_step link_ok) evs init_post" "image st = Some pv"
  shows "pv_fields pv = trimmed (form st) \<and> pv_pin pv = pin st \<and> pv_format pv = format st
    \<and> title (pv_fields pv) \<noteq> [] \<and> alt (pv_fields pv) \<noteq> []"
  using post_run_ok [of link_ok evs] assms by (auto simp: post_ok_def)

section \<open>Breaking loses no text and exceeds no line\<close>

abbreviation ink :: "jstr \<Rightarrow> jstr" where
  "ink \<equiv> filter (\<lambda>c. \<not> js_space c)"

lemma concat_runs: "concat (runs sep acc s) = acc @ filter (\<lambda>c. \<not> sep c) s"
  by (induction sep acc s rule: runs.induct) auto

lemma concat_nonempty: "concat (filter (\<lambda>w. w \<noteq> []) ws) = concat ws"
  by (induction ws) auto

lemma concat_words: "concat (words_of p) = ink p"
  by (simp add: words_of_def concat_nonempty concat_runs)

lemma ink_paragraphs: "concat (map ink (paragraphs s)) = ink s"
proof -
  have "js_space 10" by (simp add: js_space_def)
  then have "filter (\<lambda>c. \<not> js_space c \<and> c \<noteq> 10) s = ink s" by (intro filter_cong) auto
  moreover have "concat (map ink xs) = ink (concat xs)" for xs by (induction xs) auto
  ultimately show ?thesis by (simp add: paragraphs_def concat_runs conj_commute)
qed

lemma chars_props: "concat (chars w) = w" "c \<in> set (chars w) \<Longrightarrow> c \<noteq> [] \<and> chars c = [c]"
  by (induction w rule: chars.induct) (auto split: if_splits)

definition content :: "broken \<Rightarrow> jstr" where
  "content b = ink (concat (fst b) @ snd b)"

definition fits :: "(jstr \<Rightarrow> real) \<Rightarrow> real \<Rightarrow> jstr \<Rightarrow> bool" where
  "fits gauge width l \<longleftrightarrow> l \<noteq> [] \<and> (gauge l \<le> width \<or> chars l = [l])"

definition all_fit :: "(jstr \<Rightarrow> real) \<Rightarrow> real \<Rightarrow> broken \<Rightarrow> bool" where
  "all_fit gauge width b \<longleftrightarrow> list_all (fits gauge width) (fst b) \<and> (snd b \<noteq> [] \<longrightarrow> fits gauge width (snd b))"

lemma put_char_props:
  assumes "c \<noteq> []" "chars c = [c]" "all_fit gauge width b"
  shows "all_fit gauge width (put_char gauge width c b)" "content (put_char gauge width c b) = content b @ ink c"
  using assms by (auto simp: put_char_def all_fit_def fits_def content_def not_less)

lemma put_chars_props:
  assumes "\<forall>c\<in>set cs. c \<noteq> [] \<and> chars c = [c]" "all_fit gauge width b"
  shows "all_fit gauge width (fold (put_char gauge width) cs b)
    \<and> content (fold (put_char gauge width) cs b) = content b @ ink (concat cs)"
  using assms by (induction cs arbitrary: b) (auto simp: put_char_props)

lemma put_word_props:
  assumes "w \<noteq> []" "all_fit gauge width b"
  shows "all_fit gauge width (put_word gauge width w b) \<and> content (put_word gauge width w b) = content b @ ink w"
proof -
  let ?b = "if snd b = [] then b else (fst b @ [snd b], [])"
  have b: "all_fit gauge width ?b" "content ?b = content b" using assms(2) by (auto simp: all_fit_def content_def)
  have sp: "js_space 32" by (simp add: js_space_def)
  show ?thesis
  proof (cases "gauge (if snd b = [] then w else snd b @ 32 # w) \<le> width")
    case True
    then have eq: "put_word gauge width w b = (fst b, if snd b = [] then w else snd b @ 32 # w)"
      by (simp add: put_word_def Let_def)
    have "fits gauge width (if snd b = [] then w else snd b @ 32 # w)"
      using True assms(1) by (simp add: fits_def)
    then show ?thesis
      using assms(2) sp unfolding eq by (simp add: all_fit_def content_def)
  next
    case False
    then have eq: "put_word gauge width w b = fold (put_char gauge width) (chars w) ?b"
      by (simp add: put_word_def Let_def)
    have "\<forall>c\<in>set (chars w). c \<noteq> [] \<and> chars c = [c]" using chars_props(2) by blast
    from put_chars_props [OF this b(1)] show ?thesis unfolding eq b(2) chars_props(1) .
  qed
qed

lemma put_words_props:
  assumes "\<forall>w\<in>set ws. w \<noteq> []" "all_fit gauge width b"
  shows "all_fit gauge width (fold (put_word gauge width) ws b)
    \<and> content (fold (put_word gauge width) ws b) = content b @ ink (concat ws)"
  using assms by (induction ws arbitrary: b) (auto simp: put_word_props)

lemma put_paragraph_props:
  assumes "list_all (fits gauge width) ls"
  shows "list_all (fits gauge width) (put_paragraph gauge width p ls)
    \<and> ink (concat (put_paragraph gauge width p ls)) = ink (concat ls) @ ink p"
proof -
  have ws: "\<forall>w\<in>set (words_of p). w \<noteq> []" by (simp add: words_of_def)
  have "all_fit gauge width (ls, [])" using assms by (simp add: all_fit_def)
  from put_words_props [OF ws this] show ?thesis
    by (auto simp: put_paragraph_def Let_def all_fit_def content_def concat_words)
qed

lemma wrap_lines:
  assumes "list_all (fits gauge width) ls"
  shows "list_all (fits gauge width) (fold (put_paragraph gauge width) ps ls)
    \<and> ink (concat (fold (put_paragraph gauge width) ps ls)) = ink (concat ls) @ concat (map ink ps)"
  using assms by (induction ps arbitrary: ls) (auto simp: put_paragraph_props)

text \<open>Breaking a text into lines loses nothing and fits: the lines together hold exactly the characters of
  the text, white space aside, in their order; no line is empty, each is at most as wide as asked or a
  single character that is wider by itself, and there are at most as many as allowed.\<close>

theorem wrap_keeps_text:
  assumes "wrap text gauge width maxLines = Inr lines"
  shows "ink (concat lines) = ink text \<and> length lines \<le> maxLines
    \<and> (\<forall>l\<in>set lines. l \<noteq> [] \<and> (gauge l \<le> width \<or> chars l = [l]))"
  using assms wrap_lines [of gauge width "[]" "paragraphs text"] ink_paragraphs [of "text"]
  by (auto simp: wrap_def Let_def throw_if_Inr_iff list_all_iff fits_def)

section \<open>The picture's layout\<close>

lemma text_block_below: "text_block gauge s z width n y = Inr y' \<Longrightarrow> 0 \<le> z \<Longrightarrow> y \<le> y'"
  by (auto simp: text_block_def bindr_Inr_iff split: if_splits)

text \<open>The map image lies within its frame: below the texts, above the credits and within the picture's
  width, in its own proportions, and the frame is at least 150 pixels high.\<close>

theorem layout_fits:
  assumes "layout_of gauge f attribution wh snapshot = Inr l" "0 < fst wh" "0 < fst snapshot" "0 < snd snapshot"
  shows "30 \<le> top l \<and> 150 \<le> map_height l \<and> top l + map_height l + real (length (credit_lines l)) * 21 + 52 = snd wh
    \<and> 0 \<le> draw_x l \<and> draw_x l + draw_w l \<le> fst wh \<and> top l \<le> draw_y l \<and> draw_y l + draw_h l \<le> top l + map_height l
    \<and> draw_w l * snd snapshot = draw_h l * fst snapshot \<and> 0 < draw_w l \<and> length (credit_lines l) \<le> 6"
proof -
  obtain y1 y2 y credits where y: "text_block gauge (title f) 38 (fst wh - 72) 2 30 = Inr y1"
      "text_block gauge (description f) 23 (fst wh - 72) 3 y1 = Inr y2"
      "text_block gauge (join_with [32, 183, 32] (filter (\<lambda>s. s \<noteq> []) [location f, date f])) 21 (fst wh - 72) 2 y2 = Inr y"
      "wrap (attribution @ [32, 183, 32] @ lit ''openstreetmap.org/copyright'') (gauge 16) (fst wh - 72) 6 = Inr credits"
    and room: "150 \<le> snd wh - y - (real (length credits) * 21 + 52)"
    and l: "l = (let mapHeight = snd wh - y - (real (length credits) * 21 + 52);
        scale = min (fst wh / fst snapshot) (mapHeight / snd snapshot)
      in \<lparr>top = y, map_height = mapHeight, draw_x = (fst wh - fst snapshot * scale) / 2,
           draw_y = y + (mapHeight - snd snapshot * scale) / 2,
           draw_w = fst snapshot * scale, draw_h = snd snapshot * scale, credit_lines = credits\<rparr>)"
    using assms(1) by (auto simp: layout_of_def Let_def bindr_Inr_iff throw_if_Inr_iff not_less)
  let ?mh = "snd wh - y - (real (length credits) * 21 + 52)"
  let ?scale = "min (fst wh / fst snapshot) (?mh / snd snapshot)"
  have "fst snapshot * ?scale \<le> fst snapshot * (fst wh / fst snapshot)" "snd snapshot * ?scale \<le> snd snapshot * (?mh / snd snapshot)"
    using assms(3,4) by (intro mult_left_mono; simp)+
  then have s: "fst snapshot * ?scale \<le> fst wh" "snd snapshot * ?scale \<le> ?mh" using assms(3,4) by simp_all
  have p: "0 < ?scale" using assms(2-4) room by (simp add: min_def)
  have "30 \<le> y" using text_block_below [OF y(1)] text_block_below [OF y(2)] text_block_below [OF y(3)] by simp
  moreover have "length credits \<le> 6" using y(4) by (auto simp: wrap_def Let_def throw_if_Inr_iff not_less)
  ultimately show ?thesis
    unfolding l Let_def using s p room assms(3) by (simp add: field_simps)
qed

section \<open>A post with a heading\<close>

definition sample_form :: post_fields where
  "sample_form = empty_fields\<lparr>title := [72, 105], alt := [65]\<rparr>"

definition narrow :: "jstr \<Rightarrow> real" where
  "narrow s = 10 * real (length s)"

theorem wrap_keeps_text_witness:
  "wrap [97, 32, 98] narrow 10 2 = Inr [[97], [98]]
   \<and> ink (concat [[97], [98]]) = ink [97, 32, 98]"
proof -
  have "wrap [97, 32, 98] narrow 10 2 = Inr [[97], [98]]"
    by (simp add: wrap_def paragraphs_def put_paragraph_def words_of_def js_space_def put_word_def put_char_def high_surrogate_def narrow_def Let_def throw_if_def)
  then show ?thesis using wrap_keeps_text by blast
qed

definition sample_preview :: preview where
  "sample_preview = \<lparr>pv_fields = sample_form, pv_pin = None, pv_format = ''square''\<rparr>"

theorem preview_matches_form_witness:
  "image (fold (post_step (\<lambda>_. True)) [EditForm sample_form ''square'', Generate True, Generated None] init_post) = Some sample_preview
   \<and> title (pv_fields sample_preview) \<noteq> []"
proof -
  have "trimmed sample_form = sample_form"
    by (simp add: trimmed_def sample_form_def empty_fields_def trim_def js_space_def)
  then have "image (fold (post_step (\<lambda>_. True)) [EditForm sample_form ''square'', Generate True, Generated None] init_post) = Some sample_preview"
    by (simp add: post_defs init_post_def sample_preview_def) (simp add: sample_form_def empty_fields_def)
  then show ?thesis using preview_matches_form [OF refl] by blast
qed

lemma flat_words: "0 \<le> width \<Longrightarrow> fst (fold (put_word (\<lambda>_. 0) width) ws b) = fst b"
  by (induction ws arbitrary: b) (auto simp: put_word_def Let_def)

lemma flat_paragraphs: "0 \<le> width \<Longrightarrow> length (fold (put_paragraph (\<lambda>_. 0) width) ps ls) \<le> length ls + length ps"
proof (induction ps arbitrary: ls)
  case (Cons p ps)
  have "length (put_paragraph (\<lambda>_. 0) width p ls) \<le> length ls + 1"
    using flat_words [OF Cons.prems, of "words_of p" "(ls, [])"] by (simp add: put_paragraph_def Let_def)
  then show ?case using Cons.IH [OF Cons.prems, of "put_paragraph (\<lambda>_. 0) width p ls"] by simp
qed simp

lemma length_runs: "length (runs sep acc s) = Suc (length (filter sep s))"
  by (induction sep acc s rule: runs.induct) auto

lemma credits_wrap: "\<exists>ls. wrap ([32, 183, 32] @ lit ''openstreetmap.org/copyright'') (\<lambda>_. 0) 1008 6 = Inr ls \<and> length ls \<le> 1"
proof -
  have "filter (\<lambda>c. c = 10) ([32, 183, 32] @ lit ''openstreetmap.org/copyright'') = []"
    by (simp add: lit_def)
  then have "length (paragraphs ([32, 183, 32] @ lit ''openstreetmap.org/copyright'')) = 1"
    unfolding paragraphs_def length_runs by simp
  then show ?thesis
    using flat_paragraphs [of 1008 "paragraphs ([32, 183, 32] @ lit ''openstreetmap.org/copyright'')" "[]"]
    by (simp add: wrap_def Let_def throw_if_def)
qed

theorem layout_fits_witness:
  "\<exists>l. layout_of (\<lambda>_ _. 0) empty_fields [] (1080, 1080) (800, 600) = Inr l \<and> 150 \<le> map_height l \<and> draw_w l * 600 = draw_h l * 800"
proof -
  obtain ls where "wrap ([32, 183, 32] @ lit ''openstreetmap.org/copyright'') (\<lambda>_. 0) 1008 6 = Inr ls" "length ls \<le> 1"
    using credits_wrap by blast
  then have "is_ok (layout_of (\<lambda>_ _. 0) empty_fields [] (1080, 1080) (800, 600))"
    by (simp add: layout_of_def text_block_def empty_fields_def Let_def throw_if_def)
  then obtain l where "layout_of (\<lambda>_ _. 0) empty_fields [] (1080, 1080) (800, 600) = Inr l" by (auto simp: is_ok_iff)
  then show ?thesis using layout_fits by fastforce
qed

end
