(* ===== verification/OsmHover.thy ===== *)
theory OsmHover
  imports Requests LonWrap
begin

text \<open>
  Objects under the pointer (\<open>src/cmd/web/osm-hover.js\<close>). The pointer's rest starts a look-up of the local
  index, the nearest hit within 22 pixels a request for the object at the OSM API. Requests under
  way are the list \<open>flight\<close>; an answer is an event that takes one of them out. A request that is
  aborted is taken out at once, as its answer would be ignored. The order of names
  (\<open>localeCompare\<close>) and the projection of the map are parameters.
\<close>

section \<open>Data\<close>

record hit =     \<comment> \<open>a feature of the local index\<close>
  hit_node :: bool
  hit_id :: int
  hit_label :: jstr
  hit_pos :: pos

record osm_el =
  el_type :: jstr
  el_id :: int
  el_pos :: pos
  el_nodes :: "int list"
  el_tags :: "(jstr \<times> jstr) list"
  el_version :: "int option"

type_synonym osm_object = "osm_el \<times> osm_el list"   \<comment> \<open>the object and the elements it came with\<close>

datatype shape = AtPoint pos | AlongLine "pos list"

datatype hover_error = NoConnection | Gone | HttpStatus nat | NoObject

datatype hover_info =
    Hidden
  | Intro
  | Loading jstr
  | Details jstr osm_el "(jstr \<times> jstr) list" hit
  | LocalOnly jstr hover_error
  | IndexError bool                 \<comment> \<open>no connection, or another error\<close>

datatype stage = LookUp "real \<times> real" | Inspect hit

record hover =
  enabled :: bool
  timer :: "((real \<times> real) \<times> pos) option"
  serial :: nat
  current :: "shape option"
  cache :: "(jstr \<times> int) \<Rightarrow> osm_object option"
  info :: hover_info
  flight :: "(nat \<times> stage) list"

definition init_hover :: hover where
  "init_hover = \<lparr>enabled = False, timer = None, serial = 0, current = None, cache = (\<lambda>_. None), info = Hidden, flight = []\<rparr>"

definition hit_type :: "hit \<Rightarrow> jstr" where
  "hit_type f = (if hit_node f then lit ''node'' else lit ''way'')"

definition hit_key :: "hit \<Rightarrow> jstr" where
  "hit_key f = hit_type f @ lit ''/'' @ int_str (hit_id f)"

definition hit_title :: "hit \<Rightarrow> jstr" where
  "hit_title f = (if hit_label f = [] then hit_key f else hit_label f)"

section \<open>Shapes\<close>

definition featureFor :: "osm_object \<Rightarrow> pos \<Rightarrow> shape" where
  "featureFor obj fallback =
     (if el_type (fst obj) = lit ''node'' then AtPoint (el_pos (fst obj))
      else let nodes = map_of (rev (map (\<lambda>n. (el_id n, el_pos n)) (filter (\<lambda>e. el_type e = lit ''node'') (snd obj))));
               way = (case find (\<lambda>e. el_type e = lit ''way'' \<and> el_id e = el_id (fst obj)) (snd obj) of Some w \<Rightarrow> w | None \<Rightarrow> fst obj);
               coordinates = List.map_filter nodes (el_nodes way)
           in if 1 < length coordinates then AlongLine coordinates else AtPoint fallback)"

definition shown_tags :: "(jstr \<Rightarrow> nat) \<Rightarrow> (jstr \<times> jstr) list \<Rightarrow> (jstr \<times> jstr) list" where
  "shown_tags rank ts = take 8 (sort_key (\<lambda>t. rank (fst t)) ts)"

definition object_name :: "osm_el \<Rightarrow> hit \<Rightarrow> jstr" where
  "object_name e f =
     (case map_of (el_tags e) (lit ''name'') of Some s \<Rightarrow> if s = [] then hit_title f else s | None \<Rightarrow> hit_title f)"

definition nearest :: "(pos \<Rightarrow> real \<times> real) \<Rightarrow> real \<times> real \<Rightarrow> hit list \<Rightarrow> (hit \<times> real) option" where
  "nearest project pt hits =
     (case sort_key snd (map (\<lambda>f. (f, sqrt ((fst (project (hit_pos f)) - fst pt)\<^sup>2 + (snd (project (hit_pos f)) - snd pt)\<^sup>2))) hits) of
        [] \<Rightarrow> None | n # _ \<Rightarrow> Some n)"

section \<open>Operations\<close>

definition without_inspections :: "(nat \<times> stage) list \<Rightarrow> (nat \<times> stage) list" where
  \<comment> \<open>\<open>request.abort()\<close>: only the request at the OSM API has the controller\<close>
  "without_inspections fl = filter (\<lambda>p. case snd p of LookUp _ \<Rightarrow> True | Inspect _ \<Rightarrow> False) fl"

definition clear :: "hover \<Rightarrow> hover" where
  "clear st = st\<lparr>current := None, flight := without_inspections (flight st), serial := serial st + 1, info := Hidden\<rparr>"

definition show_object :: "(jstr \<Rightarrow> nat) \<Rightarrow> hit \<Rightarrow> osm_object \<Rightarrow> hover \<Rightarrow> hover" where
  "show_object rank f obj st =
     st\<lparr>current := Some (featureFor obj (hit_pos f)),
        info := Details (object_name (fst obj) f) (fst obj) (shown_tags rank (el_tags (fst obj))) f\<rparr>"

definition inspect :: "(jstr \<Rightarrow> nat) \<Rightarrow> hit \<Rightarrow> nat \<Rightarrow> hover \<Rightarrow> hover" where
  \<comment> \<open>up to the request, or to the end if the object is in the cache\<close>
  "inspect rank f token st =
     (let st = st\<lparr>info := Loading (hit_title f)\<rparr>
      in case cache st (hit_type f, hit_id f) of
           Some obj \<Rightarrow> if token \<noteq> serial st \<or> \<not> enabled st then st else show_object rank f obj st
         | None \<Rightarrow> st\<lparr>flight := flight st @ [(token, Inspect f)]\<rparr>)"

definition lookup :: "(real \<times> real) \<times> pos \<Rightarrow> hover \<Rightarrow> hover" where
  "lookup event st =
     st\<lparr>serial := serial st + 1,
        flight := without_inspections (flight st) @ [(serial st + 1, LookUp (fst event))]\<rparr>"

datatype pois_reply = PoisFailed bool | PoisBody "hit list"

definition lookup_reply :: "(jstr \<Rightarrow> nat) \<Rightarrow> (pos \<Rightarrow> real \<times> real) \<Rightarrow> nat \<Rightarrow> real \<times> real \<Rightarrow> pois_reply \<Rightarrow> hover \<Rightarrow> hover" where
  "lookup_reply rank project token pt reply st =
     (if token \<noteq> serial st \<or> \<not> enabled st then st
      else case reply of
             PoisFailed offline \<Rightarrow> st\<lparr>info := IndexError offline\<rparr>
           | PoisBody hits \<Rightarrow>
               (case nearest project pt hits of
                  None \<Rightarrow> clear st
                | Some (f, d) \<Rightarrow> if 22 < d then clear st else inspect rank f token st))"

datatype object_reply = ObjectOffline | ObjectStatus nat | ObjectBody "osm_el list"

definition find_object :: "hit \<Rightarrow> object_reply \<Rightarrow> hover_error + osm_object" where
  "find_object f reply =
     (case reply of
        ObjectOffline \<Rightarrow> Inl NoConnection
      | ObjectStatus n \<Rightarrow> Inl (if n = 404 then Gone else HttpStatus n)
      | ObjectBody es \<Rightarrow>
          (case find (\<lambda>e. el_type e = hit_type f \<and> el_id e = hit_id f) es of
             None \<Rightarrow> Inl NoObject | Some e \<Rightarrow> Inr (e, es)))"

definition inspect_reply :: "(jstr \<Rightarrow> nat) \<Rightarrow> nat \<Rightarrow> hit \<Rightarrow> object_reply \<Rightarrow> hover \<Rightarrow> hover" where
  "inspect_reply rank token f reply st =
     (case find_object f reply of
        Inl e \<Rightarrow>
          if token \<noteq> serial st then st
          else st\<lparr>current := Some (AtPoint (hit_pos f)), info := LocalOnly (hit_title f) e\<rparr>
      | Inr obj \<Rightarrow>
          (let st = st\<lparr>cache := (cache st)((hit_type f, hit_id f) \<mapsto> obj)\<rparr>
           in if token \<noteq> serial st \<or> \<not> enabled st then st else show_object rank f obj st))"

section \<open>Events\<close>

datatype hover_event =
    Toggle
  | Move "real \<times> real" pos
  | Rest                         \<comment> \<open>the timer\<close>
  | PointerOut
  | PoisArrive nat pois_reply    \<comment> \<open>for the request at this place of \<open>flight\<close>\<close>
  | ObjectArrive nat object_reply

definition without :: "nat \<Rightarrow> hover \<Rightarrow> hover" where
  "without i st = st\<lparr>flight := take i (flight st) @ drop (Suc i) (flight st)\<rparr>"

fun hover_step :: "(jstr \<Rightarrow> nat) \<Rightarrow> (pos \<Rightarrow> real \<times> real) \<Rightarrow> hover_event \<Rightarrow> hover \<Rightarrow> hover" where
  "hover_step rank project Toggle st =
     (if enabled st then clear (st\<lparr>enabled := False\<rparr>) else st\<lparr>enabled := True, info := Intro\<rparr>)"
| "hover_step rank project (Move pt at_pos) st = (if enabled st then st\<lparr>timer := Some (pt, at_pos)\<rparr> else st)"
| "hover_step rank project Rest st =
     (case timer st of None \<Rightarrow> st | Some e \<Rightarrow> lookup e (st\<lparr>timer := None\<rparr>))"
| "hover_step rank project PointerOut st = (if enabled st then clear (st\<lparr>timer := None\<rparr>) else st)"
| "hover_step rank project (PoisArrive i reply) st =
     (if length (flight st) \<le> i then st
      else case flight st ! i of
             (token, LookUp pt) \<Rightarrow> lookup_reply rank project token pt reply (without i st)
           | _ \<Rightarrow> st)"
| "hover_step rank project (ObjectArrive i reply) st =
     (if length (flight st) \<le> i then st
      else case flight st ! i of
             (token, Inspect f) \<Rightarrow> inspect_reply rank token f reply (without i st)
           | _ \<Rightarrow> st)"

section \<open>The latest look-up wins\<close>

lemmas hover_defs = clear_def lookup_def lookup_reply_def inspect_def inspect_reply_def show_object_def without_def Let_def

lemma serial_grows: "serial st \<le> serial (hover_step rank project ev st)"
  by (cases ev) (auto simp: hover_defs split: option.split prod.split stage.split pois_reply.split sum.split)

interpretation hover_requests: latest_wins "\<lambda>st. Some (serial st)" "\<lambda>st. {..serial st}" "hover_step rank project" "\<lambda>_. True"
  for rank project
proof
  fix s :: hover and e and t
  show "{..serial s} \<subseteq> {..serial (hover_step rank project e s)}" using serial_grows by auto
  show "Some (serial (hover_step rank project e s)) = Some t \<Longrightarrow> t \<in> {..serial s} \<Longrightarrow> Some (serial s) = Some t"
    using serial_grows [of s rank project e] by auto
qed auto

fun request_ok :: "nat \<Rightarrow> bool \<Rightarrow> nat \<times> stage \<Rightarrow> bool" where
  "request_ok sr on (t, LookUp _) \<longleftrightarrow> t \<le> sr"
| "request_ok sr on (t, Inspect _) \<longleftrightarrow> t \<le> sr \<and> (t = sr \<longrightarrow> on)"

definition hover_ok :: "hover \<Rightarrow> bool" where
  \<comment> \<open>nothing is shown while switched off; a request for an object that is not stale was made while
    switched on; no request has a token that is still to come\<close>
  "hover_ok st \<longleftrightarrow> (\<not> enabled st \<longrightarrow> current st = None \<and> info st = Hidden)
     \<and> list_all (request_ok (serial st) (enabled st)) (flight st)"

lemma kept_requests: "list_all (request_ok sr on) fl \<Longrightarrow> sr \<le> sr' \<Longrightarrow> list_all (request_ok sr' on') (without_inspections fl)"
proof -
  have "request_ok sr on p \<Longrightarrow> sr \<le> sr' \<Longrightarrow> \<not> (\<exists>t f. p = (t, Inspect f)) \<Longrightarrow> request_ok sr' on' p" for p
    by (cases p; cases "snd p") auto
  then show "list_all (request_ok sr on) fl \<Longrightarrow> sr \<le> sr' \<Longrightarrow> ?thesis"
    by (auto simp: without_inspections_def list_all_iff split: stage.splits)
qed

lemma switched_on: "list_all (request_ok sr on) fl \<Longrightarrow> list_all (request_ok sr True) fl"
proof -
  have "request_ok sr on p \<Longrightarrow> request_ok sr True p" for p by (cases p; cases "snd p") auto
  then show "list_all (request_ok sr on) fl \<Longrightarrow> ?thesis" by (auto simp: list_all_iff)
qed

lemma without_fields [simp]: "enabled (without i st) = enabled st" "current (without i st) = current st"
  "info (without i st) = info st" "serial (without i st) = serial st"
  by (simp_all add: without_def)

lemma without_ok: "hover_ok st \<Longrightarrow> hover_ok (without i st)"
  by (auto simp: hover_ok_def without_def list_all_iff dest: in_set_takeD in_set_dropD)

lemma clear_ok: "hover_ok st \<Longrightarrow> hover_ok (clear (st\<lparr>enabled := b, timer := t\<rparr>))"
  using kept_requests [of "serial st" "enabled st" "flight st" "serial st + 1" b]
  by (simp add: hover_ok_def clear_def)

lemma lookup_ok: "hover_ok st \<Longrightarrow> hover_ok (lookup e (st\<lparr>timer := t\<rparr>))"
  using kept_requests [of "serial st" "enabled st" "flight st" "serial st + 1" "enabled st"]
  by (simp add: hover_ok_def lookup_def)

lemma show_object_fields [simp]: "enabled (show_object rank f obj st) = enabled st"
  "serial (show_object rank f obj st) = serial st" "flight (show_object rank f obj st) = flight st"
  by (simp_all add: show_object_def)

lemma inspect_ok: "hover_ok st \<Longrightarrow> enabled st \<Longrightarrow> hover_ok (inspect rank f (serial st) st)"
  by (auto simp: hover_ok_def inspect_def Let_def split: option.split)

lemma cleared_ok: "hover_ok st \<Longrightarrow> hover_ok (clear st)"
  using kept_requests [of "serial st" "enabled st" "flight st" "serial st + 1" "enabled st"]
  by (simp add: hover_ok_def clear_def)

lemma noted_ok: "hover_ok st \<Longrightarrow> enabled st \<Longrightarrow> hover_ok (st\<lparr>info := x\<rparr>)"
  by (simp add: hover_ok_def)

lemma lookup_reply_ok: "hover_ok st \<Longrightarrow> hover_ok (lookup_reply rank project token pt reply st)"
  by (simp add: lookup_reply_def cleared_ok noted_ok inspect_ok split: pois_reply.split option.split)

lemma inspect_reply_ok:
  "hover_ok st \<Longrightarrow> (token = serial st \<Longrightarrow> enabled st) \<Longrightarrow> hover_ok (inspect_reply rank token f reply st)"
  by (auto simp: inspect_reply_def Let_def hover_ok_def split: sum.split)

lemma inspecting: "hover_ok st \<Longrightarrow> i < length (flight st) \<Longrightarrow> flight st ! i = (t, Inspect f) \<Longrightarrow> t = serial st \<Longrightarrow> enabled st"
  by (auto simp: hover_ok_def list_all_length)

lemma hover_step_ok: "hover_ok st \<Longrightarrow> hover_ok (hover_step rank project ev st)"
proof -
  assume ok: "hover_ok st"
  show ?thesis
  proof (cases ev)
    case Toggle
    then show ?thesis
      using ok clear_ok [OF ok, where b = False and t = "timer st"] switched_on [of "serial st" False "flight st"]
      by (cases "enabled st") (simp_all add: hover_ok_def)
  next
    case (ObjectArrive i reply)
    then show ?thesis
      using ok inspect_reply_ok [OF without_ok [OF ok]] inspecting [OF ok, of i]
      by (auto split: prod.split stage.split)
  next
    case (Move pt p)
    then show ?thesis using ok by (cases "enabled st") (simp_all add: hover_ok_def)
  next
    case PointerOut
    then show ?thesis using ok clear_ok [OF ok, where b = "enabled st" and t = None] by simp
  qed (use ok lookup_ok lookup_reply_ok [OF without_ok [OF ok]] in \<open>auto split: option.split prod.split stage.split\<close>)
qed

text \<open>Objects under the pointer: whatever the order in which answers arrive, once a newer look-up has
  begun, no answer to an older one, neither of the local index nor of the OSM API, ever changes what
  is shown, however many events lie between; and while the inspection is switched off nothing is
  shown.\<close>

theorem hover_latest_wins:
  assumes "hover_ok st" "token < serial st" "st' = fold (hover_step rank project) evs st"
    "i < length (flight st')" "fst (flight st' ! i) = token"
  shows "info (hover_step rank project (PoisArrive i reply) st') = info st'
    \<and> current (hover_step rank project (PoisArrive i reply) st') = current st'
    \<and> info (hover_step rank project (ObjectArrive i answer) st') = info st'
    \<and> current (hover_step rank project (ObjectArrive i answer) st') = current st'
    \<and> (\<not> enabled st' \<longrightarrow> current st' = None \<and> info st' = Hidden)"
proof -
  have "hover_requests.stale token st" using assms(2) by (simp add: hover_requests.stale_def)
  then have "hover_requests.stale token st'" unfolding assms(3) by (intro hover_requests.stale_run) auto
  then have old: "token \<noteq> serial st'" by (simp add: hover_requests.stale_def)
  have "hover_ok (fold (hover_step rank project) evs s)" if "hover_ok s" for s
    using that by (induction evs arbitrary: s) (auto simp: hover_step_ok)
  then have "hover_ok st'" using assms(1,3) by blast
  then show ?thesis
    using assms(4,5) old
    by (cases "flight st' ! i"; cases "snd (flight st' ! i)")
      (auto simp: lookup_reply_def inspect_reply_def Let_def hover_ok_def split: sum.split)
qed

section \<open>Two look-ups\<close>

definition two_lookups :: hover where
  "two_lookups = fold (hover_step (\<lambda>_. 0) id) [Toggle, Move (0, 0) (9, 51), Rest, Move (50, 0) (9, 52)] init_hover"

lemma two_lookups_parts: "serial two_lookups = 1" "flight two_lookups = [(1, LookUp (0, 0))]" "hover_ok two_lookups"
  by (simp_all add: two_lookups_def init_hover_def lookup_def without_inspections_def hover_ok_def)

theorem hover_latest_wins_witness:
  "info (hover_step (\<lambda>_. 0) id (PoisArrive 0 (PoisFailed True)) (hover_step (\<lambda>_. 0) id Rest (hover_step (\<lambda>_. 0) id Rest two_lookups))) = Intro"
proof -
  let ?st = "hover_step (\<lambda>_. 0) id Rest two_lookups"
  have st: "hover_ok ?st" using hover_step_ok two_lookups_parts(3) by blast
  have "1 < serial ?st" "flight ?st = [(1, LookUp (0, 0)), (2, LookUp (50, 0))]" "info ?st = Intro" "timer ?st = None"
    by (simp_all add: two_lookups_def init_hover_def lookup_def without_inspections_def)
  then show ?thesis
    using hover_latest_wins [OF st, of 1 ?st "\<lambda>_. 0" id "[]" 0 "PoisFailed True" ObjectOffline]
    by (simp del: hover_step.simps(5,6))
qed

end
