(* ===== verification/MapRenderer.thy ===== *)
theory MapRenderer
  imports Json OsmGeometry LonWrap "HOL-Library.Multiset"
begin

text \<open>
  Which map library is used and how (\<open>src/cmd/web/map-renderer.js\<close>): the settings made proper, the
  options passed to the map, the view that is kept over a reload, when a reload is needed, and the
  order in which the parts of the map are drawn into a picture. The settings and the stored view are
  arbitrary JSON values; the clock and the page are parameters.
\<close>

section \<open>Settings\<close>

definition defaults :: "(string \<times> string) list" where
  "defaults = [(''quality'', ''balanced''), (''view'', ''flat''), (''buildings'', ''auto''), (''sky'', ''auto''), (''interaction'', ''full'')]"

definition choices :: "(string \<times> string list) list" where
  "choices = [(''quality'', [''economy'', ''balanced'', ''sharp'']), (''view'', [''flat'', ''perspective'', ''steep'']),
     (''buildings'', [''auto'', ''canvas'']), (''sky'', [''auto'', ''off'']), (''interaction'', [''full'', ''simple''])]"

type_synonym micromap = "(string \<times> string) list"

definition with_values :: "micromap \<Rightarrow> (string \<times> string) list \<Rightarrow> micromap" where
  \<comment> \<open>\<open>{...m, ...values}\<close> for values of keys that are there\<close>
  "with_values m values = map (\<lambda>(k, v). (k, case map_of values k of Some w \<Rightarrow> w | None \<Rightarrow> v)) m"

definition renderer_presets :: "(string \<times> micromap) list" where
  "renderer_presets = [(''standard'', defaults),
     (''performance'', with_values defaults [(''quality'', ''economy''), (''buildings'', ''canvas''), (''sky'', ''off''), (''interaction'', ''simple'')]),
     (''perspective'', with_values defaults [(''quality'', ''sharp''), (''view'', ''perspective'')])]"

datatype renderer = MicroMap | MapLibre

record config =
  renderer :: renderer
  micromap :: micromap

definition chosen :: "string \<Rightarrow> js \<Rightarrow> string option" where
  \<comment> \<open>\<open>choices[key].includes(v)\<close>: the choice that the value is\<close>
  "chosen k v = find (\<lambda>c. v = JStr (lit c)) (the (map_of choices k))"

definition normalize_config :: "js \<Rightarrow> config" where
  "normalize_config settings =
     (let mm = jget settings ''micromap''
      in \<lparr>renderer = (if jget settings ''renderer'' = JStr (lit ''maplibre'') then MapLibre else MicroMap),
          micromap = map (\<lambda>(k, d). (k, case chosen k (jget mm k) of Some c \<Rightarrow> c | None \<Rightarrow> d)) defaults\<rparr>)"

definition config_js :: "config \<Rightarrow> js" where
  "config_js c = JObj [(lit ''renderer'', JStr (lit (case renderer c of MicroMap \<Rightarrow> ''micromap'' | MapLibre \<Rightarrow> ''maplibre''))),
     (lit ''micromap'', JObj (map (\<lambda>(k, v). (lit k, JStr (lit v))) (micromap c)))]"

definition opt :: "config \<Rightarrow> string \<Rightarrow> string" where
  "opt c k = the (map_of (micromap c) k)"

datatype override = NoOverride | OtherOverride | UseMicroMap | UseMapLibre   \<comment> \<open>\<open>?renderer=\<close> of the address\<close>

definition load_config :: "js \<Rightarrow> override \<Rightarrow> config" where
  "load_config settings url =
     (let c = normalize_config settings
      in case url of UseMicroMap \<Rightarrow> c\<lparr>renderer := MicroMap\<rparr> | UseMapLibre \<Rightarrow> c\<lparr>renderer := MapLibre\<rparr> | _ \<Rightarrow> c)"

record map_options =
  pixelRatio :: real
  pitch :: real
  maxPitch :: real
  webgl :: bool
  dragRotate :: bool
  touchPitch :: bool
  pitchWithRotate :: bool

definition options :: "config \<Rightarrow> map_options option" where
  \<comment> \<open>none for MapLibre\<close>
  "options c =
     (if renderer c \<noteq> MicroMap then None
      else Some \<lparr>pixelRatio = the (map_of [(''economy'', 1), (''balanced'', 1.5), (''sharp'', 2)] (opt c ''quality'')),
         pitch = the (map_of [(''flat'', 0), (''perspective'', 45), (''steep'', 60)] (opt c ''view'')), maxPitch = 60,
         webgl = (opt c ''buildings'' \<noteq> ''canvas''), dragRotate = (opt c ''interaction'' = ''full''),
         touchPitch = (opt c ''interaction'' = ''full''), pitchWithRotate = (opt c ''interaction'' = ''full'')\<rparr>)"

definition presetName :: "micromap \<Rightarrow> string" where
  "presetName m =
     (case find (\<lambda>p. list_all (\<lambda>k. map_of (snd p) k = map_of m k) (map fst defaults)) renderer_presets of
        Some p \<Rightarrow> fst p | None \<Rightarrow> ''custom'')"

definition needsReload :: "config \<Rightarrow> config \<Rightarrow> bool" where
  "needsReload cur nxt \<longleftrightarrow> renderer cur \<noteq> renderer nxt
     \<or> renderer nxt = MicroMap \<and> list_ex (\<lambda>k. opt cur k \<noteq> opt nxt k) (map fst defaults)"

section \<open>The view kept over a reload\<close>

record session =
  display :: config
  viewport :: "js option"       \<comment> \<open>what \<open>sessionStorage\<close> holds under \<open>viewportKey\<close>\<close>
  reloaded :: bool

definition viewport_js :: "pos \<Rightarrow> real \<Rightarrow> real \<Rightarrow> js" where
  "viewport_js center zoom now = JObj [(lit ''center'', JArr [JNum (Fin (fst center)), JNum (Fin (snd center))]),
     (lit ''zoom'', JNum (Fin zoom)), (lit ''time'', JNum (Fin now))]"

fun recent :: "real \<Rightarrow> jsnum \<Rightarrow> bool" where
  "recent now (Fin t) \<longleftrightarrow> now - t < 60000 \<and> t \<le> now"
| "recent now _ \<longleftrightarrow> False"

definition saved_view :: "(js \<Rightarrow> jsnum) \<Rightarrow> real \<Rightarrow> js \<Rightarrow> (pos \<times> real) option" where
  \<comment> \<open>the checks of \<open>mapOptions\<close>; \<open>number\<close> is the conversion of a value to a number by an arithmetic operation\<close>
  "saved_view number now saved =
     (let t = jget saved ''time''; c = jget saved ''center''; z = jget saved ''zoom''
      in if recent now (number t) \<and> is_array c \<and> length (elems c) = 2 \<and> list_all isFinite (elems c)
            \<and> \<bar>num_of (elems c ! 0)\<bar> \<le> 180 \<and> \<bar>num_of (elems c ! 1)\<bar> \<le> 85.051129 \<and> isFinite z \<and> 0 \<le> num_of z \<and> num_of z \<le> 22
         then Some ((num_of (elems c ! 0), num_of (elems c ! 1)), num_of z) else None)"

definition mapOptions :: "(js \<Rightarrow> jsnum) \<Rightarrow> real \<Rightarrow> session \<Rightarrow> (map_options option \<times> (pos \<times> real) option) \<times> session" where
  \<comment> \<open>the options, the view to restore, and the session without the view\<close>
  "mapOptions number now s =
     (case viewport s of
        None \<Rightarrow> ((options (display s), None), s)
      | Some v \<Rightarrow> ((options (display s), saved_view number now v), s\<lparr>viewport := None\<rparr>))"

definition applySavedSettings :: "js \<Rightarrow> pos \<Rightarrow> real \<Rightarrow> real \<Rightarrow> bool \<Rightarrow> session \<Rightarrow> session" where
  \<comment> \<open>with the map's centre and zoom, the clock, and whether the session storage takes a text\<close>
  "applySavedSettings settings center zoom now writable s =
     (let nxt = normalize_config settings
      in if needsReload (display s) nxt
         then s\<lparr>viewport := (if writable then Some (clone (viewport_js center zoom now)) else viewport s), reloaded := True\<rparr>
         else s\<lparr>display := nxt\<rparr>)"

definition reopen :: "js \<Rightarrow> session \<Rightarrow> session" where
  \<comment> \<open>the page after the reload: the saved settings, no override in the address\<close>
  "reopen settings s = s\<lparr>display := load_config settings NoOverride, reloaded := False\<rparr>"

section \<open>Drawing order\<close>

record css =
  css_display :: string
  css_visibility :: string
  css_opacity :: string
  css_z :: "int option"      \<comment> \<open>the number read from \<open>z-index\<close>, none for \<open>auto\<close>\<close>

record node =
  path :: "css list"         \<comment> \<open>the computed styles from just below the container down to the element\<close>
  control :: bool            \<comment> \<open>inside a marker, pop-up or control\<close>
  ready :: bool              \<comment> \<open>an image that is loaded, a canvas with a size\<close>
  rect :: "real \<times> real \<times> real \<times> real"   \<comment> \<open>left, top, width, height relative to the container\<close>

record layer =
  node :: node
  index :: nat
  stack :: "int list"        \<comment> \<open>\<open>z-index\<close> values from the outermost element inwards\<close>

definition unseen :: "css \<Rightarrow> bool" where
  "unseen c \<longleftrightarrow> css_display c = ''none'' \<or> css_visibility c = ''hidden'' \<or> css_opacity c = ''0''"

definition stack_of :: "css list \<Rightarrow> int list option" where
  "stack_of cs = (if list_ex unseen cs then None else Some (map (\<lambda>c. case css_z c of Some z \<Rightarrow> z | None \<Rightarrow> 0) cs))"

definition layers_of :: "node list \<Rightarrow> layer list" where
  "layers_of nodes =
     concat (map (\<lambda>(i, n). case stack_of (path n) of None \<Rightarrow> [] | Some zs \<Rightarrow> [\<lparr>node = n, index = i, stack = zs\<rparr>])
       (enumerate 0 nodes))"

fun stack_diff :: "int list \<Rightarrow> int list \<Rightarrow> int" where
  \<comment> \<open>the first difference, a missing value counting as 0\<close>
  "stack_diff [] [] = 0"
| "stack_diff (a # as) [] = (if a \<noteq> 0 then a else stack_diff as [])"
| "stack_diff [] (b # bs) = (if b \<noteq> 0 then - b else stack_diff [] bs)"
| "stack_diff (a # as) (b # bs) = (if a \<noteq> b then a - b else stack_diff as bs)"

definition layer_cmp :: "layer \<Rightarrow> layer \<Rightarrow> int" where
  "layer_cmp a b = (let d = stack_diff (stack a) (stack b) in if d \<noteq> 0 then d else int (index a) - int (index b))"

fun insert_by :: "('a \<Rightarrow> 'a \<Rightarrow> int) \<Rightarrow> 'a \<Rightarrow> 'a list \<Rightarrow> 'a list" where
  "insert_by cmp x [] = [x]"
| "insert_by cmp x (y # ys) = (if cmp x y \<le> 0 then x # y # ys else y # insert_by cmp x ys)"

definition sort_by :: "('a \<Rightarrow> 'a \<Rightarrow> int) \<Rightarrow> 'a list \<Rightarrow> 'a list" where
  \<comment> \<open>\<open>xs.sort(cmp)\<close> for a comparison that is an order\<close>
  "sort_by cmp xs = foldr (insert_by cmp) xs []"

datatype capture_err = NotFlat | TooBig

datatype picture =
    MapCanvas                                                \<comment> \<open>the canvas of MapLibre\<close>
  | Composed "int \<times> int" string "layer list"               \<comment> \<open>size, background and the parts in drawing order\<close>

definition drawn :: "real \<Rightarrow> real \<Rightarrow> layer \<Rightarrow> bool" where
  "drawn w h l \<longleftrightarrow> \<not> control (node l) \<and> ready (node l)
     \<and> (case rect (node l) of (x, y, rw, rh) \<Rightarrow> rw \<noteq> 0 \<and> rh \<noteq> 0 \<and> 0 < x + rw \<and> x < w \<and> 0 < y + rh \<and> y < h)"

definition background :: "string \<Rightarrow> string" where
  "background col = (if col \<noteq> '''' \<and> col \<noteq> ''transparent'' \<and> col \<noteq> ''rgba(0, 0, 0, 0)'' then col else ''#ffffff'')"

definition capture :: "renderer \<Rightarrow> real \<Rightarrow> real \<Rightarrow> real \<times> real \<Rightarrow> string \<Rightarrow> node list \<Rightarrow> capture_err + picture" where
  \<comment> \<open>for the pitch, the bearing, the size and background of the container and the elements within it\<close>
  "capture lib tilt bearing wh col nodes =
     (if lib \<noteq> MicroMap then Inr MapCanvas
      else throw_if (0.001 < \<bar>tilt\<bar> \<or> 0.001 < \<bar>bearing\<bar>) NotFlat
        (throw_if (fst wh = 0 \<or> snd wh = 0 \<or> 16000000 < fst wh * snd wh) TooBig
          (Inr (Composed (\<lfloor>fst wh + 1 / 2\<rfloor>, \<lfloor>snd wh + 1 / 2\<rfloor>) (background col)
             (filter (drawn (fst wh) (snd wh)) (sort_by layer_cmp (layers_of nodes)))))))"

section \<open>Proper settings\<close>

definition config_ok :: "config \<Rightarrow> bool" where
  "config_ok c \<longleftrightarrow> map fst (micromap c) = map fst defaults \<and> list_all (\<lambda>(k, v). v \<in> set (the (map_of choices k))) (micromap c)"

lemma chosen_in: "chosen k v = Some c \<Longrightarrow> c \<in> set (the (map_of choices k))"
  by (auto simp: chosen_def find_Some_iff)

lemma defaults_in: "list_all (\<lambda>(k, v). v \<in> set (the (map_of choices k))) defaults"
  by (simp add: defaults_def choices_def)

lemma normalize_config_ok: "config_ok (normalize_config settings)"
proof -
  have "v' \<in> set (the (map_of choices k))"
    if "(k, v') = (case p of (k, d) \<Rightarrow> (k, case chosen k (jget mm k) of Some c \<Rightarrow> c | None \<Rightarrow> d))" "p \<in> set defaults" for k v' p mm
    using that defaults_in chosen_in by (cases p) (auto simp: list_all_iff split: option.splits)
  then show ?thesis
    by (auto simp: config_ok_def normalize_config_def Let_def list_all_iff comp_def case_prod_unfold)
qed

lemma renderer_values: "config_ok c \<Longrightarrow> k \<in> set (map fst defaults) \<Longrightarrow> opt c k \<in> set (the (map_of choices k))"
proof -
  assume ok: "config_ok c" and k: "k \<in> set (map fst defaults)"
  then have "k \<in> fst ` set (micromap c)" unfolding config_ok_def by (metis list.set_map)
  then obtain v where v: "map_of (micromap c) k = Some v" by (cases "map_of (micromap c) k") (auto simp: map_of_eq_None_iff)
  then show ?thesis using ok map_of_SomeD [OF v] by (auto simp: config_ok_def list_all_iff opt_def)
qed

lemma chosen_own: "c \<in> set (the (map_of choices k)) \<Longrightarrow> chosen k (JStr (lit c)) = Some c"
proof -
  have "c \<in> set xs \<Longrightarrow> find (\<lambda>x. c = x) xs = Some c" for xs by (induction xs) auto
  then show "c \<in> set (the (map_of choices k)) \<Longrightarrow> ?thesis" by (simp add: chosen_def)
qed

lemma normalize_config_js:
  assumes "config_ok c"
  shows "normalize_config (config_js c) = c"
proof -
  have d: "distinct (map fst (micromap c))" using assms by (simp add: config_ok_def defaults_def)
  let ?mm = "JObj (map (\<lambda>(k, v). (lit k, JStr (lit v))) (micromap c))"
  have get: "jget ?mm k = JStr (lit v)" if "(k, v) \<in> set (micromap c)" for k v
  proof -
    have "map_of (map (\<lambda>(k, v). (lit k, JStr (lit v))) m) (lit k) = map_option (\<lambda>v. JStr (lit v)) (map_of m k)" for m
      by (induction m) auto
    then show ?thesis using that d by (simp add: map_of_is_SomeI)
  qed
  have "(case defaults ! i of (k, dflt) \<Rightarrow> (k, case chosen k (jget ?mm k) of Some c \<Rightarrow> c | None \<Rightarrow> dflt)) = micromap c ! i"
    if i: "i < length defaults" for i
  proof -
    have len: "length (micromap c) = length defaults" using assms unfolding config_ok_def by (metis length_map)
    obtain k v where kv: "micromap c ! i = (k, v)" by (cases "micromap c ! i")
    have m: "(k, v) \<in> set (micromap c)" using kv i len nth_mem by metis
    have "fst (defaults ! i) = k" using assms i len kv unfolding config_ok_def by (metis fst_conv nth_map)
    moreover have "chosen k (jget ?mm k) = Some v"
      using get [OF m] chosen_own assms m by (auto simp: config_ok_def list_all_iff)
    ultimately show ?thesis using kv by (simp add: case_prod_unfold)
  qed
  moreover have "length defaults = length (micromap c)" using assms unfolding config_ok_def by (metis length_map)
  ultimately have "map (\<lambda>(k, dflt). (k, case chosen k (jget ?mm k) of Some c \<Rightarrow> c | None \<Rightarrow> dflt)) defaults = micromap c"
    by (intro nth_equalityI) auto
  then show ?thesis
    by (cases "renderer c") (simp_all add: normalize_config_def config_js_def Let_def)
qed

text \<open>C37: Whatever the stored settings are, the settings in force are proper: each of the five has one of
  its choices, so every option passed to the map is defined and within its range, and writing the
  settings out and reading them again changes nothing.\<close>

theorem settings_proper:
  "normalize_config (config_js (normalize_config settings)) = normalize_config settings
   \<and> (\<forall>k\<in>set (map fst defaults). opt (normalize_config settings) k \<in> set (the (map_of choices k)))
   \<and> (case options (normalize_config settings) of
        None \<Rightarrow> renderer (normalize_config settings) = MapLibre
      | Some m \<Rightarrow> pixelRatio m \<in> {1, 1.5, 2} \<and> pitch m \<in> {0, 45, 60} \<and> pitch m \<le> maxPitch m)"
proof -
  let ?c = "normalize_config settings"
  note v = renderer_values [OF normalize_config_ok [of settings]]
  have "opt ?c ''quality'' \<in> {''economy'', ''balanced'', ''sharp''}" "opt ?c ''view'' \<in> {''flat'', ''perspective'', ''steep''}"
    using v [of "''quality''"] v [of "''view''"] by (simp_all add: defaults_def choices_def)
  then have "\<forall>m. options ?c = Some m \<longrightarrow> pixelRatio m \<in> {1, 1.5, 2} \<and> pitch m \<in> {0, 45, 60} \<and> pitch m \<le> maxPitch m"
    by (auto simp: options_def)
  moreover have "options ?c = None \<Longrightarrow> renderer ?c = MapLibre" by (cases "renderer ?c") (auto simp: options_def)
  ultimately show ?thesis
    using v normalize_config_js [OF normalize_config_ok [of settings]] by (auto split: option.split)
qed

text \<open>When saved settings need a reload, the reload keeps the view: opening the page within a minute
  shows the same centre and zoom under the new settings, which then need no further reload, and the
  view is used only once.\<close>

theorem reload_keeps_view:
  assumes "needsReload (display s) (normalize_config settings)" "\<bar>fst center\<bar> \<le> 180" "\<bar>snd center\<bar> \<le> 85.051129"
    "0 \<le> zoom" "zoom \<le> 22" "now \<le> later" "later < now + 60000" "\<And>n. number (JNum n) = n"
  defines "s' \<equiv> reopen settings (applySavedSettings settings center zoom now True s)"
  shows "snd (fst (mapOptions number later s')) = Some (center, zoom) \<and> display s' = normalize_config settings
    \<and> \<not> needsReload (display s') (normalize_config settings)
    \<and> snd (fst (mapOptions number again (snd (mapOptions number later s')))) = None"
proof -
  have v: "viewport s' = Some (clone (viewport_js center zoom now))" "display s' = normalize_config settings"
    using assms(1) by (auto simp: s'_def reopen_def applySavedSettings_def Let_def load_config_def)
  have "clone (viewport_js center zoom now) = viewport_js center zoom now" by (simp add: viewport_js_def)
  moreover have "saved_view number later (viewport_js center zoom now) = Some (center, zoom)"
    using assms(2-8) by (simp add: saved_view_def viewport_js_def Let_def)
  ultimately show ?thesis
    using v by (auto simp: mapOptions_def needsReload_def list_ex_iff)
qed

section \<open>The picture is drawn from back to front\<close>

lemma stack_diff_antisym: "stack_diff a b = - stack_diff b a"
  by (induction a b rule: stack_diff.induct) auto

lemma stack_diff_nil: "stack_diff a [] \<le> 0 \<Longrightarrow> stack_diff [] c \<le> 0 \<Longrightarrow> stack_diff a c \<le> 0 \<and> (stack_diff a c = 0 \<longrightarrow> stack_diff a [] = 0 \<and> stack_diff [] c = 0)"
proof (induction a c rule: stack_diff.induct)
  case (4 a as b bs)
  then show ?case by (auto split: if_splits)
qed (auto split: if_splits)

lemma stack_diff_trans: "stack_diff a b \<le> 0 \<Longrightarrow> stack_diff b c \<le> 0
    \<Longrightarrow> stack_diff a c \<le> 0 \<and> (stack_diff a c = 0 \<longrightarrow> stack_diff a b = 0 \<and> stack_diff b c = 0)"
proof (induction a b arbitrary: c rule: stack_diff.induct)
  case 1
  then show ?case by simp
next
  case (2 x a)
  then show ?case using stack_diff_nil by blast
next
  case (3 y b)
  show ?case
  proof (cases c)
    case Nil
    then show ?thesis using 3 by (auto split: if_splits)
  next
    case (Cons z c')
    then show ?thesis using 3 by (auto split: if_splits)
  qed
next
  case (4 x a y b)
  show ?case
  proof (cases c)
    case Nil
    then show ?thesis using 4 by (auto split: if_splits)
  next
    case (Cons z c')
    then show ?thesis using 4 by (auto split: if_splits)
  qed
qed

lemma layer_cmp_trans: "layer_cmp a b \<le> 0 \<Longrightarrow> layer_cmp b c \<le> 0 \<Longrightarrow> layer_cmp a c \<le> 0"
  using stack_diff_trans [of "stack a" "stack b" "stack c"] by (auto simp: layer_cmp_def Let_def split: if_splits)

lemma layer_cmp_total: "layer_cmp a b \<le> 0 \<or> layer_cmp b a \<le> 0"
  using stack_diff_antisym [of "stack a" "stack b"] by (auto simp: layer_cmp_def Let_def)

lemma set_insert_by [simp]: "set (insert_by cmp x ys) = insert x (set ys)"
  by (induction ys) auto

lemma mset_insert_by [simp]: "mset (insert_by cmp x ys) = add_mset x (mset ys)"
  by (induction ys) auto

lemma mset_sort_by: "mset (sort_by cmp xs) = mset xs"
  by (induction xs) (auto simp: sort_by_def)

lemma sorted_insert_by:
  assumes "\<And>a b c. cmp a b \<le> 0 \<Longrightarrow> cmp b c \<le> 0 \<Longrightarrow> cmp a c \<le> 0" "\<And>a b. cmp a b \<le> 0 \<or> cmp b a \<le> 0"
    "sorted_wrt (\<lambda>a b. cmp a b \<le> 0) ys"
  shows "sorted_wrt (\<lambda>a b. cmp a b \<le> 0) (insert_by cmp x ys)"
  using assms(3)
proof (induction ys)
  case (Cons y ys)
  then show ?case using assms(1,2) by auto (metis assms(1))
qed simp

lemma sorted_sort_by: "sorted_wrt (\<lambda>a b. layer_cmp a b \<le> 0) (sort_by layer_cmp xs)"
  by (induction xs) (simp_all add: sort_by_def sorted_insert_by [OF layer_cmp_trans layer_cmp_total])

lemma layer_node: "l \<in> set (layers_of nodes) \<Longrightarrow> index l < length nodes \<and> nodes ! index l = node l"
  by (auto simp: layers_of_def in_set_enumerate_eq split: option.splits)

lemma layers_distinct: "distinct (map index (layers_of nodes))"
proof -
  let ?f = "\<lambda>p. case stack_of (path (snd p)) of None \<Rightarrow> [] | Some zs \<Rightarrow> [\<lparr>node = snd p, index = fst p, stack = zs\<rparr>]"
  have "map index (concat (map ?f ps)) = map fst (filter (\<lambda>p. stack_of (path (snd p)) \<noteq> None) ps)" for ps
    by (induction ps) (auto split: option.split)
  then have "map index (layers_of nodes) = map fst (filter (\<lambda>p. stack_of (path (snd p)) \<noteq> None) (enumerate 0 nodes))"
    unfolding layers_of_def case_prod_unfold .
  moreover have "distinct (map fst (filter P (enumerate 0 nodes)))" for P
    by (intro distinct_map_filter) simp
  ultimately show ?thesis by simp
qed

lemma layer_cmp_zero: "layer_cmp a b = 0 \<Longrightarrow> index a = index b"
  by (auto simp: layer_cmp_def Let_def split: if_splits)

lemma strictly_sorted:
  assumes "sorted_wrt (\<lambda>a b. layer_cmp a b \<le> 0) xs" "distinct (map index xs)"
  shows "sorted_wrt (\<lambda>a b. layer_cmp a b < 0) xs"
  using assms
proof (induction xs)
  case (Cons x xs)
  have "layer_cmp x y < 0" if "y \<in> set xs" for y
    using Cons.prems that layer_cmp_zero [of x y] by (force simp: order_less_le)
  then show ?case using Cons by simp
qed simp

text \<open>A picture of the map is composed of exactly the visible parts that lie within it and are ready, each
  once, and from back to front in an order that is fixed by the page: a part is drawn strictly after
  every part that lies behind it. The ground is never transparent.\<close>

theorem capture_back_to_front:
  assumes "capture MicroMap tilt bearing wh col nodes = Inr (Composed sz ground out)"
  shows "sorted_wrt (\<lambda>a b. layer_cmp a b < 0) out
    \<and> mset out = mset (filter (drawn (fst wh) (snd wh)) (layers_of nodes))
    \<and> (\<forall>l\<in>set out. nodes ! index l = node l \<and> \<not> list_ex unseen (path (node l)))
    \<and> ground \<noteq> ''transparent''"
proof -
  have out: "out = filter (drawn (fst wh) (snd wh)) (sort_by layer_cmp (layers_of nodes))" "ground = background col"
    using assms by (auto simp: capture_def throw_if_Inr_iff)
  have m: "mset (sort_by layer_cmp (layers_of nodes)) = mset (layers_of nodes)" by (rule mset_sort_by)
  have "distinct (map index (sort_by layer_cmp (layers_of nodes)))"
    using layers_distinct [of nodes] m by (metis mset_eq_imp_distinct_iff mset_map)
  then have "sorted_wrt (\<lambda>a b. layer_cmp a b < 0) out"
    unfolding out by (intro sorted_wrt_filter strictly_sorted sorted_sort_by)
  moreover have "set out \<subseteq> set (layers_of nodes)" using mset_eq_setD [OF m] by (auto simp: out)
  moreover have "\<not> list_ex unseen (path (node l))" if "l \<in> set (layers_of nodes)" for l
    using that by (auto simp: layers_of_def stack_of_def split: option.splits if_splits)
  moreover have "background col \<noteq> ''transparent''" by (auto simp: background_def)
  ultimately show ?thesis
    using layer_node m out by (auto simp: subset_iff)
qed

section \<open>Examples\<close>

definition example_node :: "int option list \<Rightarrow> node" where
  "example_node zs = \<lparr>path = map (\<lambda>z. \<lparr>css_display = ''block'', css_visibility = ''visible'', css_opacity = ''1'', css_z = z\<rparr>) zs,
     control = False, ready = True, rect = (0, 0, 100, 100)\<rparr>"

theorem capture_back_to_front_witness:
  "sorted_wrt (\<lambda>a b. layer_cmp a b < 0) [\<lparr>node = example_node [None], index = 1, stack = [0]\<rparr>, \<lparr>node = example_node [Some 2], index = 0, stack = [2]\<rparr>]"
proof -
  have "capture MicroMap 0 0 (100, 100) '''' [example_node [Some 2], example_node [None]]
    = Inr (Composed (100, 100) ''#ffffff''
        [\<lparr>node = example_node [None], index = 1, stack = [0]\<rparr>, \<lparr>node = example_node [Some 2], index = 0, stack = [2]\<rparr>])"
    by (simp add: capture_def layers_of_def stack_of_def unseen_def sort_by_def layer_cmp_def example_node_def drawn_def
        background_def throw_if_def)
  from capture_back_to_front [OF this] show ?thesis by blast
qed

theorem settings_proper_witness:
  "opt (normalize_config JNull) ''view'' \<in> {''flat'', ''perspective'', ''steep''}"
  using settings_proper [of JNull] by (simp add: defaults_def choices_def)

definition flat_session :: session where
  "flat_session = \<lparr>display = normalize_config JNull, viewport = None, reloaded = False\<rparr>"

definition maplibre_settings :: js where
  "maplibre_settings = JObj [(lit ''renderer'', JStr (lit ''maplibre''))]"

theorem reload_keeps_view_witness:
  "snd (fst (mapOptions (\<lambda>v. case v of JNum n \<Rightarrow> n | _ \<Rightarrow> NaN) 2000
     (reopen maplibre_settings (applySavedSettings maplibre_settings (9, 51) 12 1000 True flat_session)))) = Some ((9, 51), 12)"
proof -
  have "needsReload (display flat_session) (normalize_config maplibre_settings)"
    by (simp add: needsReload_def flat_session_def normalize_config_def maplibre_settings_def)
  from reload_keeps_view [OF this, of "(9, 51)" 12 1000 2000 "\<lambda>v. case v of JNum n \<Rightarrow> n | _ \<Rightarrow> NaN"] show ?thesis by simp
qed

end
