(* ===== verification/OfflineBuildings.thy ===== *)
theory OfflineBuildings
  imports Requests
begin

text \<open>
  Buildings of the offline map (\<open>src/cmd/web/offline-buildings.js\<close>): which map shows them, the timer
  that waits for the map to rest, and the request whose answer is used only if it is still the one
  asked for. A controller is a number; \<open>shown\<close> is what the source of each map holds (\<open>None\<close> for an empty
  collection or no source). An aborted request is answered by an error, which changes nothing.
\<close>

record 'data buildings =
  active_map :: "nat option"
  enabled :: bool
  waiting :: bool                   \<comment> \<open>the timer\<close>
  request :: "nat option"
  controllers :: nat                \<comment> \<open>controllers made so far\<close>
  flight :: "(nat \<times> nat) list"      \<comment> \<open>controller and map of the requests under way\<close>
  shown :: "nat \<Rightarrow> 'data option"

definition init_buildings :: "'data buildings" where
  "init_buildings = \<lparr>active_map = None, enabled = False, waiting = False, request = None, controllers = 0, flight = [],
     shown = (\<lambda>_. None)\<rparr>"

abbreviation minZoom :: real where "minZoom \<equiv> 14"

definition clear_source :: "'data buildings \<Rightarrow> 'data buildings" where
  "clear_source st = (case active_map st of None \<Rightarrow> st | Some m \<Rightarrow> st\<lparr>shown := (shown st)(m := None)\<rparr>)"

definition cancel :: "'data buildings \<Rightarrow> 'data buildings" where
  "cancel st = st\<lparr>request := None\<rparr>"

definition queue :: "real \<Rightarrow> 'data buildings \<Rightarrow> 'data buildings" where
  \<comment> \<open>with the zoom of the map\<close>
  "queue zoom st =
     (if \<not> enabled st then st
      else let st = cancel (st\<lparr>waiting := False\<rparr>)
           in if zoom < minZoom then clear_source st else st\<lparr>waiting := True\<rparr>)"

definition refresh :: "real \<Rightarrow> 'data buildings \<Rightarrow> 'data buildings" where
  "refresh zoom st =
     (if \<not> enabled st \<or> zoom < minZoom then st
      else case active_map st of
             None \<Rightarrow> st
           | Some m \<Rightarrow> st\<lparr>request := Some (controllers st), controllers := controllers st + 1,
                            flight := flight st @ [(controllers st, m)]\<rparr>)"

datatype 'data building_reply = ReplyFailed | Collection 'data | NoCollection

definition reply :: "nat \<times> nat \<Rightarrow> 'data building_reply \<Rightarrow> 'data buildings \<Rightarrow> 'data buildings" where
  "reply cm r st =
     (case r of
        ReplyFailed \<Rightarrow> st
      | _ \<Rightarrow> if \<not> enabled st \<or> request st \<noteq> Some (fst cm) \<or> active_map st \<noteq> Some (snd cm) then st
             else st\<lparr>shown := (shown st)(snd cm := (case r of Collection d \<Rightarrow> Some d | _ \<Rightarrow> None))\<rparr>)"

definition activate :: "nat \<Rightarrow> bool \<Rightarrow> real \<Rightarrow> 'data buildings \<Rightarrow> 'data buildings" where
  "activate target visible zoom st =
     (let st = (if active_map st \<noteq> None \<and> (active_map st \<noteq> Some target \<or> \<not> visible)
                then (clear_source (cancel (st\<lparr>waiting := False\<rparr>)))\<lparr>enabled := False\<rparr> else st);
          st = st\<lparr>active_map := Some target, enabled := visible\<rparr>
      in if visible then queue zoom st else st)"

datatype 'data building_event =
    Activate nat bool real
  | Moved real                 \<comment> \<open>\<open>moveend\<close> and \<open>zoomend\<close>\<close>
  | NewStyle real
  | Rested real                \<comment> \<open>the timer\<close>
  | Answer nat "'data building_reply"

fun buildings_step :: "'data building_event \<Rightarrow> 'data buildings \<Rightarrow> 'data buildings" where
  "buildings_step (Activate target visible zoom) st = activate target visible zoom st"
| "buildings_step (Moved zoom) st = queue zoom st"
| "buildings_step (NewStyle zoom) st = (if enabled st then queue zoom (clear_source (cancel st)) else st)"
| "buildings_step (Rested zoom) st = (if waiting st then refresh zoom (st\<lparr>waiting := False\<rparr>) else st)"
| "buildings_step (Answer i r) st =
     (if length (flight st) \<le> i then st
      else reply (flight st ! i) r (st\<lparr>flight := take i (flight st) @ drop (Suc i) (flight st)\<rparr>))"

section \<open>The request that counts\<close>

definition buildings_ok :: "'data buildings \<Rightarrow> bool" where
  "buildings_ok st \<longleftrightarrow> (\<forall>c. request st = Some c \<longrightarrow> c < controllers st)
     \<and> (\<forall>m. shown st m \<noteq> None \<longrightarrow> enabled st \<and> active_map st = Some m)
     \<and> (\<not> enabled st \<longrightarrow> request st = None \<and> \<not> waiting st) \<and> (enabled st \<longrightarrow> active_map st \<noteq> None)"

lemmas buildings_defs = clear_source_def cancel_def queue_def refresh_def reply_def activate_def Let_def

lemma queue_ok: "buildings_ok st \<Longrightarrow> buildings_ok (queue zoom st)"
  by (auto simp: buildings_ok_def queue_def cancel_def clear_source_def Let_def split: option.split)

lemma cleared_source_ok: "buildings_ok st \<Longrightarrow> buildings_ok (clear_source (cancel st))"
  by (auto simp: buildings_ok_def cancel_def clear_source_def split: option.split)

lemma activate_ok:
  assumes "buildings_ok st"
  shows "buildings_ok (activate target visible zoom st)"
proof -
  define st1 where "st1 = (if active_map st \<noteq> None \<and> (active_map st \<noteq> Some target \<or> \<not> visible)
    then (clear_source (cancel (st\<lparr>waiting := False\<rparr>)))\<lparr>enabled := False\<rparr> else st)"
  have "m = target \<and> visible" if "shown st1 m \<noteq> None" for m
    using assms that by (auto simp: st1_def buildings_ok_def clear_source_def cancel_def split: if_splits)
  moreover have "\<not> visible \<longrightarrow> request st1 = None \<and> \<not> waiting st1" "\<forall>c. request st1 = Some c \<longrightarrow> c < controllers st1"
    using assms by (auto simp: st1_def buildings_ok_def clear_source_def cancel_def)
  ultimately have "buildings_ok (st1\<lparr>active_map := Some target, enabled := visible\<rparr>)"
    by (auto simp: buildings_ok_def)
  moreover have "activate target visible zoom st = (if visible then queue zoom (st1\<lparr>active_map := Some target, enabled := visible\<rparr>)
      else st1\<lparr>active_map := Some target, enabled := visible\<rparr>)"
    by (simp only: activate_def st1_def Let_def)
  ultimately show ?thesis using queue_ok by (cases visible) simp_all
qed

lemma refresh_ok: "buildings_ok st \<Longrightarrow> buildings_ok (refresh zoom (st\<lparr>waiting := False\<rparr>))"
  by (auto simp: buildings_ok_def refresh_def split: option.split)

lemma reply_ok: "buildings_ok st \<Longrightarrow> buildings_ok (reply cm r (st\<lparr>flight := fl\<rparr>))"
  by (auto simp: buildings_ok_def reply_def split: building_reply.split)

lemma buildings_step_ok: "buildings_ok st \<Longrightarrow> buildings_ok (buildings_step ev st)"
  by (cases ev) (auto intro: activate_ok queue_ok refresh_ok reply_ok cleared_source_ok)

lemma controllers_grow: "controllers st \<le> controllers (buildings_step ev st)
    \<and> (\<forall>c. request (buildings_step ev st) = Some c \<longrightarrow> request st = Some c \<or> controllers st \<le> c)"
  by (cases ev) (auto simp: buildings_defs split: option.split building_reply.split)

interpretation building_requests: latest_wins request "\<lambda>st. {..<controllers st}" buildings_step buildings_ok
proof
  fix s :: "'a buildings" and e and t :: nat
  show "buildings_ok s \<Longrightarrow> request s = Some t \<Longrightarrow> t \<in> {..<controllers s}" by (auto simp: buildings_ok_def)
  show "{..<controllers s} \<subseteq> {..<controllers (buildings_step e s)}" using controllers_grow [of s e] by auto
  show "request (buildings_step e s) = Some t \<Longrightarrow> t \<in> {..<controllers s} \<Longrightarrow> request s = Some t"
    using controllers_grow [of s e] by force
qed (rule buildings_step_ok)

text \<open>Buildings are drawn only on the map that is active, and only while they are switched on; and an
  answer to a request that was cancelled or overtaken never changes any map, whatever happens before
  it arrives.\<close>

theorem buildings_current_only:
  assumes "st = fold buildings_step evs init_buildings" "c < controllers st" "request st \<noteq> Some c"
    "st' = fold buildings_step later st" "i < length (flight st')" "fst (flight st' ! i) = c"
  shows "(\<forall>m. shown st' m \<noteq> None \<longrightarrow> enabled st' \<and> active_map st' = Some m)
    \<and> shown (buildings_step (Answer i r) st') = shown st'"
proof -
  have "buildings_ok (init_buildings :: 'a buildings)" by (simp add: buildings_ok_def init_buildings_def)
  then have ok: "buildings_ok st" unfolding assms(1) by (rule building_requests.inv_run)
  then have "building_requests.stale c st" using assms(2,3) by (simp add: building_requests.stale_def)
  then have "building_requests.stale c st'" unfolding assms(4) by (rule building_requests.stale_run [OF ok])
  then have "request st' \<noteq> Some c" by (simp add: building_requests.stale_def)
  moreover have "buildings_ok st'" unfolding assms(4) by (rule building_requests.inv_run [OF ok])
  ultimately show ?thesis
    using assms(5,6) by (auto simp: buildings_ok_def reply_def split: building_reply.split)
qed

theorem buildings_current_only_witness:
  "shown (buildings_step (Answer 0 (Collection ''houses''))
     (fold buildings_step [Activate 7 True 15, Rested 15, Moved 16] init_buildings)) = (\<lambda>_. None)"
proof -
  let ?st = "fold buildings_step [Activate 7 True 15, Rested 15, Moved 16] (init_buildings :: string buildings)"
  have "controllers ?st = 1" "request ?st = None" "flight ?st = [(0, 7)]" "shown ?st = (\<lambda>_. None)"
    by (simp_all add: buildings_defs init_buildings_def)
  then show ?thesis
    using buildings_current_only [of ?st "[Activate 7 True 15, Rested 15, Moved 16]" 0 ?st "[]" 0 "Collection ''houses''"]
    by (simp del: fold_simps buildings_step.simps)
qed

end
