(* ===== verification/MapContext.thy ===== *)
theory MapContext
  imports OsmGeometry
begin

text \<open>
  The menu of a place on the map (\<open>src/cmd/web/map-context.js\<close>): it opens by a right click, by a long
  press of one finger or by the keyboard, stays on the screen, and the click and the native menu event
  that follow a long press are swallowed. The size of window and menu and the projection of the map are
  parameters; where the keyboard focus goes back to is not modelled.
\<close>

type_synonym point = "real \<times> real"         \<comment> \<open>longitude and latitude\<close>

record surroundings =
  origin :: "real \<times> real"             \<comment> \<open>of the canvas in the window\<close>
  window :: "real \<times> real"
  menu_size :: "real \<times> real"
  buttons :: nat
  unproject :: "real \<times> real \<Rightarrow> point option"   \<comment> \<open>\<open>None\<close> when a coordinate is not finite\<close>

type_synonym press = "nat \<times> real \<times> real"     \<comment> \<open>\<open>{id, x, y}\<close>\<close>

record context_menu =
  shown :: bool
  place :: "point option"
  left_top :: "real \<times> real"
  focus :: int
  timer :: "press option"             \<comment> \<open>the press the timer was started for\<close>
  touch :: "press option"
  held :: bool
  suppressUntil :: real
  pointers :: "nat set"
  ran :: "(nat \<times> point option) list"     \<comment> \<open>actions run, with their places\<close>

definition init_menu :: context_menu where
  "init_menu = \<lparr>shown = False, place = None, left_top = (0, 0), focus = 0, timer = None, touch = None, held = False,
     suppressUntil = 0, pointers = {}, ran = []\<rparr>"

definition cancelHold :: "context_menu \<Rightarrow> context_menu" where
  "cancelHold m = m\<lparr>timer := None, touch := None\<rparr>"

definition close_menu :: "context_menu \<Rightarrow> context_menu" where
  "close_menu m = m\<lparr>shown := False\<rparr>"

definition placed :: "real \<Rightarrow> real \<Rightarrow> real \<Rightarrow> real" where
  "placed c extent own = max 8 (min c (extent - own - 8))"

definition openAt :: "surroundings \<Rightarrow> real \<Rightarrow> real \<Rightarrow> point option option \<Rightarrow> context_menu \<Rightarrow> context_menu" where
  \<comment> \<open>\<open>location\<close> is the place given, if one is\<close>
  "openAt w x y location m =
     (let m = cancelHold m;
          raw = (case location of Some l \<Rightarrow> l | None \<Rightarrow> unproject w (x - fst (origin w), y - snd (origin w)));
          m = m\<lparr>place := map_option (\<lambda>(lng, lat). (normLon lng, lat)) raw\<rparr>
      in if raw = None then m
         else m\<lparr>shown := True, left_top := (placed x (fst (window w)) (fst (menu_size w)), placed y (snd (window w)) (snd (menu_size w))),
                focus := 0\<rparr>)"

datatype pointer_kind = Mouse | Touch | Pen

datatype menu_key = Escape | Tab | ArrowDown | ArrowUp | Home | End

datatype context_event =
    ContextMenu bool real real real            \<comment> \<open>on a control, position, time\<close>
  | PointerDown pointer_kind nat bool bool bool real real
      \<comment> \<open>pointer, within the menu, within the map, on a control, position\<close>
  | Held real                                  \<comment> \<open>the timer runs out\<close>
  | PointerMove nat real real
  | PointerEnd nat real                        \<comment> \<open>\<open>pointerup\<close> or \<open>pointercancel\<close>, time\<close>
  | MenuShortcut real real "point option"        \<comment> \<open>the centre of the map\<close>
  | MenuKey menu_key int                       \<comment> \<open>with the index of the focused button\<close>
  | Choose nat
  | Resize
  | Blur
  | MoveStart

definition pointer_down :: "nat \<Rightarrow> bool \<Rightarrow> real \<Rightarrow> real \<Rightarrow> context_menu \<Rightarrow> context_menu" where
  "pointer_down i control x y m =
     (let m = cancelHold (m\<lparr>pointers := insert i (pointers m)\<rparr>)
      in if card (pointers m) \<noteq> 1 \<or> control then m
         else m\<lparr>held := False, suppressUntil := 0, touch := Some (i, x, y), timer := Some (i, x, y)\<rparr>)"

definition timer_fires :: "surroundings \<Rightarrow> real \<Rightarrow> context_menu \<Rightarrow> context_menu" where
  "timer_fires w now m =
     (case timer m of
        None \<Rightarrow> m
      | Some start \<Rightarrow>
          let m = m\<lparr>timer := None\<rparr>
          in if touch m \<noteq> Some start \<or> card (pointers m) \<noteq> 1 then m
             else case start of (i, x, y) \<Rightarrow> openAt w x y None (m\<lparr>held := True, suppressUntil := now + 1500\<rparr>))"

definition pointer_end :: "nat \<Rightarrow> real \<Rightarrow> context_menu \<Rightarrow> context_menu" where
  "pointer_end i now m =
     (let m = cancelHold (m\<lparr>pointers := pointers m - {i}\<rparr>)
      in if held m then m\<lparr>suppressUntil := now + 750, held := False\<rparr> else m)"

definition next_focus :: "menu_key \<Rightarrow> int \<Rightarrow> nat \<Rightarrow> int" where
  "next_focus k i n =
     (case k of Home \<Rightarrow> 0 | End \<Rightarrow> int n - 1 | _ \<Rightarrow> (i + (if k = ArrowDown then 1 else - 1) + int n) mod int n)"

fun context_step :: "surroundings \<Rightarrow> context_event \<Rightarrow> context_menu \<Rightarrow> context_menu" where
  "context_step w (ContextMenu control x y now) m =
     (if control \<or> held m \<or> now < suppressUntil m then m
      else openAt w x y None (if pointers m \<noteq> {} then m\<lparr>held := True, suppressUntil := now + 1500\<rparr> else m))"
| "context_step w (PointerDown kind i in_menu in_map control x y) m =
     (let m = (if in_menu then m else close_menu m)
      in if \<not> in_map \<or> kind = Mouse then m else pointer_down i control x y m)"
| "context_step w (Held now) m = timer_fires w now m"
| "context_step w (PointerMove i x y) m =
     (case touch m of
        Some (j, tx, ty) \<Rightarrow> if i = j \<and> sqrt ((x - tx)\<^sup>2 + (y - ty)\<^sup>2) > 10 then cancelHold m else m
      | None \<Rightarrow> m)"
| "context_step w (PointerEnd i now) m = pointer_end i now m"
| "context_step w (MenuShortcut px py centre) m = openAt w (fst (origin w) + px) (snd (origin w) + py) (Some centre) m"
| "context_step w (MenuKey k i) m =
     (case k of Escape \<Rightarrow> close_menu m | Tab \<Rightarrow> close_menu m | _ \<Rightarrow> m\<lparr>focus := next_focus k i (buttons w)\<rparr>)"
| "context_step w (Choose i) m = (close_menu m)\<lparr>ran := ran m @ [(i, place m)]\<rparr>"
| "context_step w Resize m = close_menu m"
| "context_step w Blur m = close_menu ((cancelHold m)\<lparr>pointers := {}, held := False, suppressUntil := 0\<rparr>)"
| "context_step w MoveStart m = close_menu (cancelHold m)"

definition click_swallowed :: "real \<Rightarrow> context_menu \<Rightarrow> bool" where
  "click_swallowed now m \<longleftrightarrow> now < suppressUntil m"

section \<open>A press and its timer\<close>

definition menu_ok :: "surroundings \<Rightarrow> context_menu \<Rightarrow> bool" where
  "menu_ok w m \<longleftrightarrow> timer m = touch m \<and> (\<forall>p. touch m = Some p \<longrightarrow> pointers m = {fst p} \<and> \<not> held m)
     \<and> (case place m of Some p \<Rightarrow> - 180 \<le> fst p \<and> fst p < 180 | None \<Rightarrow> True)
     \<and> (shown m \<longrightarrow> 8 \<le> fst (left_top m) \<and> 8 \<le> snd (left_top m)
          \<and> (fst (menu_size w) + 16 \<le> fst (window w) \<longrightarrow> fst (left_top m) + fst (menu_size w) + 8 \<le> fst (window w))
          \<and> (snd (menu_size w) + 16 \<le> snd (window w) \<longrightarrow> snd (left_top m) + snd (menu_size w) + 8 \<le> snd (window w)))"

lemmas menu_defs = cancelHold_def close_menu_def openAt_def pointer_down_def timer_fires_def pointer_end_def Let_def

lemma placed_fits: "8 \<le> placed c extent own \<and> (own + 16 \<le> extent \<longrightarrow> placed c extent own + own + 8 \<le> extent)"
  by (auto simp: placed_def)

lemma init_menu_ok: "menu_ok w init_menu"
  by (simp add: menu_ok_def init_menu_def)

lemma cancelHold_ok: "menu_ok w m \<Longrightarrow> menu_ok w (cancelHold m)"
  by (simp add: menu_ok_def cancelHold_def)

lemma close_menu_ok: "menu_ok w m \<Longrightarrow> menu_ok w (close_menu m)"
  by (simp add: menu_ok_def close_menu_def)

lemma openAt_ok:
  assumes "menu_ok w m"
  shows "menu_ok w (openAt w x y l (m\<lparr>held := h, suppressUntil := s\<rparr>))"
  using assms placed_fits by (auto simp: menu_ok_def openAt_def cancelHold_def Let_def normLon_range split: option.split)

lemma openAt_ok': "menu_ok w m \<Longrightarrow> menu_ok w (openAt w x y l m)"
  using openAt_ok [of w m x y l "suppressUntil m" "held m"] by simp

lemma pointer_down_ok: "menu_ok w m \<Longrightarrow> menu_ok w (pointer_down i control x y m)"
  by (auto simp: menu_ok_def pointer_down_def cancelHold_def Let_def card_1_singleton_iff split: option.split)

lemma pointer_end_ok: "menu_ok w m \<Longrightarrow> menu_ok w (pointer_end i now m)"
  by (auto simp: menu_ok_def pointer_end_def cancelHold_def Let_def)

lemma timer_fires_ok:
  assumes "menu_ok w m"
  shows "menu_ok w (timer_fires w now m)"
proof (cases "timer m")
  case (Some p)
  then have t: "touch m = Some p" using assms by (simp add: menu_ok_def)
  then have "pointers m = {fst p}" using assms unfolding menu_ok_def by blast
  then have "timer_fires w now m = openAt w (fst (snd p)) (snd (snd p)) None (m\<lparr>held := True, suppressUntil := now + 1500\<rparr>)"
    using Some t by (cases p) (simp add: timer_fires_def openAt_def cancelHold_def Let_def)
  then show ?thesis using openAt_ok [OF assms] by simp
qed (use assms in \<open>simp add: timer_fires_def\<close>)

lemma context_step_ok: "menu_ok w m \<Longrightarrow> menu_ok w (context_step w ev m)"
proof (cases ev)
  case (Blur)
  assume "menu_ok w m"
  then show ?thesis by (auto simp: Blur menu_ok_def cancelHold_def close_menu_def)
next
  case (Choose i)
  assume "menu_ok w m"
  then show ?thesis by (auto simp: Choose menu_ok_def close_menu_def)
next
  case (MenuKey k i)
  assume "menu_ok w m"
  then show ?thesis by (cases k) (auto simp: MenuKey menu_ok_def close_menu_def)
qed (auto intro: openAt_ok openAt_ok' pointer_down_ok pointer_end_ok timer_fires_ok close_menu_ok cancelHold_ok
       simp: Let_def split: option.split)

lemma context_run_ok: "menu_ok w (fold (context_step w) evs init_menu)"
proof -
  have "menu_ok w (fold (context_step w) evs m)" if "menu_ok w m" for m
    using that by (induction evs arbitrary: m) (auto simp: context_step_ok simp del: context_step.simps)
  then show ?thesis using init_menu_ok by blast
qed

text \<open>Whatever happens, an open menu lies within the window wherever it fits with its margin, the
  longitude of its place is between -180 and 180, and the arrow keys move the focus round the buttons:
  down and up undo each other and never leave the menu.\<close>

theorem menu_on_screen:
  assumes "m = fold (context_step w) evs init_menu" "shown m" "0 \<le> i" "i < int (buttons w)"
    "fst (menu_size w) + 16 \<le> fst (window w)" "snd (menu_size w) + 16 \<le> snd (window w)"
  shows "8 \<le> fst (left_top m) \<and> fst (left_top m) + fst (menu_size w) \<le> fst (window w) - 8
    \<and> 8 \<le> snd (left_top m) \<and> snd (left_top m) + snd (menu_size w) \<le> snd (window w) - 8
    \<and> (\<forall>p. place m = Some p \<longrightarrow> - 180 \<le> fst p \<and> fst p < 180)
    \<and> (\<forall>k. 0 \<le> next_focus k i (buttons w) \<and> next_focus k i (buttons w) < int (buttons w))
    \<and> next_focus ArrowUp (next_focus ArrowDown i (buttons w)) (buttons w) = i"
proof -
  have "menu_ok w m" unfolding assms(1) by (rule context_run_ok)
  moreover have "0 \<le> next_focus k i (buttons w) \<and> next_focus k i (buttons w) < int (buttons w)" for k
    using assms(3,4) by (cases k) (auto simp: next_focus_def)
  moreover have "next_focus ArrowUp (next_focus ArrowDown i (buttons w)) (buttons w) = i"
    using assms(3,4) by (simp add: next_focus_def mod_simps)
  ultimately show ?thesis using assms(2,5,6) by (auto simp: menu_ok_def)
qed

text \<open>A long press opens the menu: when one finger touches the map, not on a control, and then moves
  less than ten pixels from there until the timer runs out, whatever the mouse does meanwhile, the menu
  opens for the place that was touched; and until 750 ms after the finger is lifted no click goes through
  and no native menu event opens the menu elsewhere.\<close>

theorem long_press_opens:
  assumes "m0 = fold (context_step w) evs init_menu" "pointers m0 = {}" "kind \<noteq> Mouse"
    "m1 = context_step w (PointerDown kind i in_menu True False x y) m0"
    "\<forall>e\<in>set moves. \<exists>j u v. e = PointerMove j u v \<and> (j = i \<longrightarrow> sqrt ((u - x)\<^sup>2 + (v - y)\<^sup>2) \<le> 10)"
    "m2 = context_step w (Held now) (fold (context_step w) moves m1)"
    "unproject w (x - fst (origin w), y - snd (origin w)) = Some p" "now < lift"
  shows "shown m2 \<and> place m2 = Some (normLon (fst p), snd p)
    \<and> (t < now + 1500 \<longrightarrow> click_swallowed t m2) \<and> context_step w (ContextMenu control u v t) m2 = m2
    \<and> (let m3 = context_step w (PointerEnd i lift) m2
       in place m3 = place m2 \<and> (t < lift + 750 \<longrightarrow> click_swallowed t m3 \<and> context_step w (ContextMenu control u v t) m3 = m3))"
proof -
  have t1: "touch m1 = Some (i, x, y)" "timer m1 = Some (i, x, y)" "pointers m1 = {i}"
    using assms(2-4) by (auto simp: pointer_down_def cancelHold_def close_menu_def Let_def)
  have "fold (context_step w) moves m1 = m1"
    using assms(5)
  proof (induction moves)
    case (Cons e es)
    then have "context_step w e m1 = m1" using t1(1) by auto
    then show ?case using Cons by simp
  qed simp
  then have m2: "m2 = openAt w x y None (m1\<lparr>timer := None, held := True, suppressUntil := now + 1500\<rparr>)"
    using assms(6) t1 by (simp add: timer_fires_def Let_def)
  have s: "shown m2" "place m2 = Some (normLon (fst p), snd p)" "held m2" "suppressUntil m2 = now + 1500"
    using assms(7) by (simp_all add: m2 openAt_def cancelHold_def Let_def case_prod_unfold)
  then show ?thesis
    by (auto simp: click_swallowed_def pointer_end_def cancelHold_def Let_def)
qed

section \<open>Examples\<close>

definition example_window :: surroundings where
  "example_window = \<lparr>origin = (0, 50), window = (800, 600), menu_size = (200, 300), buttons = 4, unproject = (\<lambda>(x, y). Some (x, y))\<rparr>"

lemma normLon_same: "- 180 \<le> l \<Longrightarrow> l < 180 \<Longrightarrow> normLon l = l"
proof -
  assume l: "- 180 \<le> l" "l < 180"
  obtain k :: int where k: "normLon l = l + 360 * of_int k" using normLon_congruent by blast
  have "of_int k < (1 :: real)" "- 1 < (of_int k :: real)" using normLon_range [of l] k l by linarith+
  then have "k = 0" by linarith
  then show ?thesis using k by simp
qed

theorem menu_on_screen_witness:
  "fst (left_top (fold (context_step example_window) [ContextMenu False 700 400 1] init_menu)) + 200 \<le> (800 - 8 :: real)"
  using menu_on_screen [of "fold (context_step example_window) [ContextMenu False 700 400 1] init_menu" example_window
      "[ContextMenu False 700 400 1]" 0]
  by (simp add: example_window_def init_menu_def openAt_def cancelHold_def)

theorem long_press_opens_witness:
  "shown (fold (context_step example_window) [PointerDown Touch 1 False True False 100 150, PointerMove 1 103 154, Held 550] init_menu)"
  using long_press_opens [of init_menu example_window "[]" Touch _ 1 False 100 150 "[PointerMove 1 103 154]" _ 550 "(100, 100)" 600,
    OF _ _ _ refl _ refl]
  by (simp add: example_window_def init_menu_def real_le_rsqrt real_sqrt_le_iff real_le_lsqrt del: context_step.simps)

end
