(* ===== verification/Operations.thy ===== *)
theory Operations
  imports Json
begin

text \<open>
  The log of deliveries and maintenance (\<open>src/cmd/web/app.js\<close>, "proof-of-delivery and maintenance log"): a
  record is posted to the server, or kept in the browser's own log where the deployment says so; when
  there is no connection it waits in a queue in the browser's storage, which is sent later, one record
  after the other. The storage holds JSON values; whether a write succeeds, the clock, the random event
  IDs and the answers of the server are parameters of the events. \<open>num\<close> is the text of a number.
\<close>

section \<open>Records\<close>

datatype op_err =
    QueueDamaged | QueueFull | EntryTooMany | NoEventID | NoRandom | LocalDamaged | LocalFull
  | CodeMissing | RecipientMissing
  | StorageFailed            \<comment> \<open>\<open>setItem\<close> throws\<close>
  | TypeFailure
  | NetworkFailure           \<comment> \<open>\<open>fetch\<close> fails, with a \<open>TypeError\<close>\<close>
  | Refused | BadAnswer

fun is_type_error :: "op_err \<Rightarrow> bool" where
  "is_type_error TypeFailure = True"
| "is_type_error NetworkFailure = True"
| "is_type_error _ = False"

record op_form =
  f_type :: jstr
  f_code :: jstr
  f_recipient :: jstr
  f_status :: jstr
  f_check_status :: jstr
  f_reference :: jstr
  f_check_reference :: jstr
  f_technician :: jstr
  f_work :: jstr
  f_notes :: jstr

datatype op_type = Pod | Maintenance | Check

definition operationType :: "jstr \<Rightarrow> op_type" where
  "operationType v = (if v = lit ''maintenance'' then Maintenance else if v = lit ''check'' then Check else Pod)"

definition type_text :: "op_type \<Rightarrow> jstr" where
  "type_text t = lit (case t of Pod \<Rightarrow> ''pod'' | Maintenance \<Rightarrow> ''maintenance'' | Check \<Rightarrow> ''check'')"

definition or_text :: "jstr \<Rightarrow> string \<Rightarrow> jstr" where
  "or_text s dflt = (if s = [] then lit dflt else s)"

definition operationPayload :: "op_form \<Rightarrow> (real \<times> real) option \<Rightarrow> jstr option \<Rightarrow> jstr \<Rightarrow> op_err + js" where
  \<comment> \<open>with the position, a new event ID (none if the browser has no random numbers) and the time\<close>
  "operationPayload f position new_id now =
     (let t = operationType (f_type f); code = trim (f_code f); recipient = trim (f_recipient f)
      in throw_if (code = []) CodeMissing (throw_if (t = Pod \<and> recipient = []) RecipientMissing
           (case new_id of
              None \<Rightarrow> Inl NoRandom
            | Some i \<Rightarrow> Inr (JObj ([(lit ''client_event_id'', JStr i), (lit ''type'', JStr (type_text t)), (lit ''asset_code'', JStr code),
                (lit ''status'', JStr (case t of Pod \<Rightarrow> lit ''delivered'' | Maintenance \<Rightarrow> or_text (f_status f) ''completed''
                   | Check \<Rightarrow> or_text (f_check_status f) ''checked'')),
                (lit ''recipient'', JStr (if t = Pod then recipient else [])),
                (lit ''reference'', JStr (case t of Pod \<Rightarrow> trim (f_reference f) | Check \<Rightarrow> trim (f_check_reference f) | Maintenance \<Rightarrow> [])),
                (lit ''technician'', JStr (if t = Maintenance then trim (f_technician f) else [])),
                (lit ''work_type'', JStr (if t = Maintenance then f_work f else [])),
                (lit ''notes'', JStr (trim (f_notes f))), (lit ''occurred_at'', JStr now)]
                @ (case position of None \<Rightarrow> [] | Some (lat, lon) \<Rightarrow>
                     [(lit ''latitude'', JNum (Fin lat)), (lit ''longitude'', JNum (Fin lon))]))))))"

section \<open>Storage\<close>

type_synonym stored = "js option option"     \<comment> \<open>nothing, a text that is not JSON, or a value\<close>

definition pendingOperations :: "stored \<Rightarrow> op_err + js list" where
  "pendingOperations s = (case s of None \<Rightarrow> Inr [] | Some (Some (JArr xs)) \<Rightarrow> Inr xs | _ \<Rightarrow> Inl QueueDamaged)"

definition localOperations :: "stored \<Rightarrow> op_err + js list" where
  "localOperations s = (case s of None \<Rightarrow> Inr [] | Some (Some (JArr xs)) \<Rightarrow> Inr xs | _ \<Rightarrow> Inl LocalDamaged)"

definition operationsQueueLimit :: nat where "operationsQueueLimit = 100"

datatype op_status =
    Quiet | Failed op_err | QueuedNow nat | SavedNow | StillWaiting nat op_err | AllTransferred

datatype flushing =
    Sending "js list" nat "op_err option"    \<comment> \<open>records to send, the first under way; how many are through; the last failure\<close>
  | Listing                                  \<comment> \<open>all tried, the log is loaded again\<close>

record ops =
  pending :: stored
  local_log :: stored
  op_records :: "js list option"             \<comment> \<open>the log shown; none if the server sent something else than a list\<close>
  browser_local :: bool
  posts :: "js list"                         \<comment> \<open>records of the form that are under way\<close>
  listings :: "bool list"                    \<comment> \<open>logs under way; whether the queue waits for it\<close>
  flush :: "flushing option"
  position :: "(real \<times> real) option"
  status :: op_status

definition savePendingOperations :: "bool \<Rightarrow> js list \<Rightarrow> ops \<Rightarrow> op_err + ops" where
  "savePendingOperations writable rs st =
     throw_if (operationsQueueLimit < length rs) QueueFull
       (throw_if (\<not> writable) StorageFailed (Inr (st\<lparr>pending := Some (Some (clone (JArr rs)))\<rparr>)))"

definition saveLocalOperations :: "bool \<Rightarrow> js list \<Rightarrow> ops \<Rightarrow> op_err + ops" where
  "saveLocalOperations writable rs st =
     throw_if (500 < length rs) LocalFull
       (throw_if (\<not> writable) StorageFailed (Inr (st\<lparr>local_log := Some (Some (clone (JArr rs)))\<rparr>)))"

definition event_id :: "js \<Rightarrow> js" where
  "event_id r = jget r ''client_event_id''"

definition strict_eq :: "js \<Rightarrow> js \<Rightarrow> bool" where
  \<comment> \<open>\<open>===\<close> of two values that were parsed separately\<close>
  "strict_eq v w \<longleftrightarrow> v = w \<and> v \<noteq> JNum NaN \<and> \<not> is_array v \<and> \<not> is_object v"

fun has_event :: "js list \<Rightarrow> js \<Rightarrow> op_err + bool" where
  "has_event [] i = Inr False"
| "has_event (x # xs) i = (if nullish x then Inl TypeFailure else if strict_eq (event_id x) i then Inr True else has_event xs i)"

fun without_event :: "js list \<Rightarrow> js \<Rightarrow> op_err + js list" where
  "without_event [] i = Inr []"
| "without_event (x # xs) i =
     (if nullish x then Inl TypeFailure
      else bindr (without_event xs i) (\<lambda>ys. Inr (if strict_eq (event_id x) i then ys else x # ys)))"

definition queueOperation :: "bool \<Rightarrow> js \<Rightarrow> ops \<Rightarrow> op_err + ops" where
  "queueOperation writable r st =
     bindr (pendingOperations (pending st)) (\<lambda>q.
       throw_if (\<not> truthy (event_id r)) NoEventID
         (bindr (has_event q (event_id r)) (\<lambda>found.
            if found then Inr st
            else throw_if (operationsQueueLimit \<le> length q) EntryTooMany
              (bindr (savePendingOperations writable (q @ [r]) st) (\<lambda>st.
                 Inr (st\<lparr>status := QueuedNow (length q + 1)\<rparr>))))))"

section \<open>Saving a record\<close>

definition fail :: "op_err \<Rightarrow> ops \<Rightarrow> ops" where
  "fail e st = st\<lparr>status := Failed e\<rparr>"

definition submit_local :: "(real \<Rightarrow> jstr) \<Rightarrow> bool \<Rightarrow> jstr \<Rightarrow> js \<Rightarrow> ops \<Rightarrow> op_err + js \<times> ops" where
  "submit_local num writable now r st =
     (case js_string num (event_id r) of
        None \<Rightarrow> Inl TypeFailure
      | Some i \<Rightarrow>
          let created = jset (jset (jset r ''id'' (JStr (lit ''browser_'' @ i))) ''actor'' (JStr (lit ''browser-local'')))
                ''created_at'' (JStr now)
          in bindr (localOperations (local_log st)) (\<lambda>old.
               throw_if (500 \<le> length old) LocalFull
                 (bindr (saveLocalOperations writable (created # old) st) (\<lambda>st. Inr (created, st)))))"

definition submit_failed :: "bool \<Rightarrow> bool \<Rightarrow> js \<Rightarrow> op_err \<Rightarrow> ops \<Rightarrow> ops" where
  "submit_failed online writable r e st =
     (if is_type_error e \<or> \<not> online
      then (case queueOperation writable r st of Inl e' \<Rightarrow> fail e' st | Inr st' \<Rightarrow> st')
      else fail e st)"

definition submit_done :: "bool \<Rightarrow> bool \<Rightarrow> js \<Rightarrow> js \<Rightarrow> ops \<Rightarrow> ops" where
  \<comment> \<open>an entry that is \<open>null\<close> cannot be shown: a \<open>TypeError\<close>\<close>
  "submit_done online writable r created st =
     (case op_records st of
        None \<Rightarrow> submit_failed online writable r TypeFailure st
      | Some rs \<Rightarrow>
          let rs = take 100 (created # rs); st = st\<lparr>op_records := Some rs\<rparr>
          in if list_ex nullish rs then submit_failed online writable r TypeFailure st
             else st\<lparr>position := None, status := SavedNow\<rparr>)"

definition submit :: "(real \<Rightarrow> jstr) \<Rightarrow> bool \<Rightarrow> bool \<Rightarrow> jstr \<Rightarrow> op_err + js \<Rightarrow> ops \<Rightarrow> ops" where
  "submit num online writable now payload st =
     (case payload of
        Inl e \<Rightarrow> fail e st
      | Inr r \<Rightarrow>
          if browser_local st
          then (case submit_local num writable now r st of
                  Inl e \<Rightarrow> submit_failed online writable r e st
                | Inr (created, st') \<Rightarrow> submit_done online writable r created st')
          else st\<lparr>posts := posts st @ [r]\<rparr>)"

datatype op_answer = Answer js | Unreadable | Rejected | NoConnection

fun answer_result :: "op_answer \<Rightarrow> op_err + js" where
  "answer_result (Answer v) = Inr v"
| "answer_result Unreadable = Inl BadAnswer"
| "answer_result Rejected = Inl Refused"
| "answer_result NoConnection = Inl NetworkFailure"

definition post_reply :: "bool \<Rightarrow> bool \<Rightarrow> js \<Rightarrow> op_answer \<Rightarrow> ops \<Rightarrow> ops" where
  "post_reply online writable r a st =
     (case answer_result a of
        Inl e \<Rightarrow> submit_failed online writable r e st
      | Inr created \<Rightarrow> submit_done online writable r created st)"

section \<open>Sending the queue\<close>

fun spread :: "js \<Rightarrow> (jstr \<times> js) list" where
  \<comment> \<open>\<open>{...v}\<close>\<close>
  "spread (JObj ps) = ps"
| "spread (JArr xs) = map (\<lambda>(i, x). (int_str (int i), x)) (enumerate 0 xs)"
| "spread (JStr s) = map (\<lambda>(i, c). (int_str (int i), JStr [c])) (enumerate 0 s)"
| "spread _ = []"

fun give_ids :: "jstr list \<Rightarrow> js list \<Rightarrow> op_err + js list" where
  "give_ids ids [] = Inr []"
| "give_ids ids (r # rs) =
     (if nullish r then Inl TypeFailure
      else if truthy (event_id r) then bindr (give_ids ids rs) (\<lambda>rs. Inr (r # rs))
      else case ids of
             [] \<Rightarrow> Inl NoRandom
           | i # ids \<Rightarrow> bindr (give_ids ids rs) (\<lambda>rs. Inr (JObj (obj_put (lit ''client_event_id'') (JStr i) (spread r)) # rs)))"

definition loadOperations :: "bool \<Rightarrow> ops \<Rightarrow> ops" where
  \<comment> \<open>\<open>for_queue\<close>: the queue waits for it\<close>
  "loadOperations for_queue st =
     (if browser_local st
      then (case localOperations (local_log st) of
              Inl e \<Rightarrow> (fail e st)\<lparr>flush := (if for_queue then None else flush st)\<rparr>
            | Inr old \<Rightarrow>
                let st = st\<lparr>op_records := Some old, flush := (if for_queue then None else flush st)\<rparr>
                in if for_queue \<and> list_ex nullish old then fail TypeFailure st else st)
      else st\<lparr>listings := listings st @ [for_queue], flush := (if for_queue then Some Listing else flush st)\<rparr>)"

definition flush_end :: "nat \<Rightarrow> op_err option \<Rightarrow> ops \<Rightarrow> ops" where
  "flush_end n failure st =
     (if n = 0 \<and> failure = None then st\<lparr>flush := None\<rparr>
      else case pendingOperations (pending st) of
             Inl e \<Rightarrow> (fail e st)\<lparr>flush := None\<rparr>
           | Inr q \<Rightarrow>
               let st = st\<lparr>status := (case failure of Some e \<Rightarrow> StillWaiting (length q) e | None \<Rightarrow> AllTransferred)\<rparr>
               in if 0 < n then loadOperations True st else st\<lparr>flush := None\<rparr>)"

definition sent :: "bool \<Rightarrow> js \<Rightarrow> ops \<Rightarrow> op_err + ops" where
  \<comment> \<open>takes a record out of the queue as it is now\<close>
  "sent writable r st =
     bindr (pendingOperations (pending st)) (\<lambda>q.
       bindr (without_event q (event_id r)) (\<lambda>q. savePendingOperations writable q st))"

fun flush_go :: "(real \<Rightarrow> jstr) \<Rightarrow> bool \<Rightarrow> jstr \<Rightarrow> js list \<Rightarrow> nat \<Rightarrow> op_err option \<Rightarrow> ops \<Rightarrow> ops" where
  "flush_go num writable now [] n failure st = flush_end n failure st"
| "flush_go num writable now (r # rs) n failure st =
     (if browser_local st
      then (case bindr (submit_local num writable now r st) (\<lambda>cs. Inr (snd cs)) of
              Inl e \<Rightarrow> flush_go num writable now rs n (Some e) st
            | Inr st1 \<Rightarrow>
                (case sent writable r st1 of
                   Inl e \<Rightarrow> flush_go num writable now rs n (Some e) st1
                 | Inr st2 \<Rightarrow> flush_go num writable now rs (n + 1) failure st2))
      else st\<lparr>flush := Some (Sending (r # rs) n failure)\<rparr>)"

definition flush_start :: "(real \<Rightarrow> jstr) \<Rightarrow> bool \<Rightarrow> bool \<Rightarrow> jstr list \<Rightarrow> jstr \<Rightarrow> ops \<Rightarrow> ops" where
  "flush_start num online writable ids now st =
     (if flush st \<noteq> None \<or> browser_local st \<or> \<not> online then st
      else case bindr (pendingOperations (pending st)) (give_ids ids) of
             Inl e \<Rightarrow> fail e st
           | Inr q \<Rightarrow>
               if q = [] then st
               else case savePendingOperations writable q st of
                      Inl e \<Rightarrow> fail e st
                    | Inr st \<Rightarrow> flush_go num writable now q 0 None st)"

definition flush_reply :: "(real \<Rightarrow> jstr) \<Rightarrow> bool \<Rightarrow> jstr \<Rightarrow> op_answer \<Rightarrow> ops \<Rightarrow> ops" where
  "flush_reply num writable now a st =
     (case flush st of
        Some (Sending (r # rs) n failure) \<Rightarrow>
          (case bindr (answer_result a) (\<lambda>_. sent writable r st) of
             Inl e \<Rightarrow> flush_go num writable now rs n (Some e) st
           | Inr st' \<Rightarrow> flush_go num writable now rs (n + 1) failure st')
      | _ \<Rightarrow> st)"

definition list_reply :: "bool \<Rightarrow> op_answer \<Rightarrow> ops \<Rightarrow> ops" where
  "list_reply for_queue a st =
     (let st = (case a of Answer v \<Rightarrow> st\<lparr>op_records := (if is_array v then Some (elems v) else None)\<rparr> | _ \<Rightarrow> st)
      in if for_queue then st\<lparr>flush := None\<rparr> else st)"

section \<open>Events\<close>

datatype op_event =
    Submit bool bool jstr "op_err + js"        \<comment> \<open>on-line, storage can be written, time, the payload\<close>
  | PostReply nat op_answer bool bool
  | FlushStart bool bool "jstr list" jstr      \<comment> \<open>every 30 seconds, and when the connection is back\<close>
  | FlushReply op_answer bool jstr
  | ListReply nat op_answer
  | Reload
  | Deployment bool
  | Located "(real \<times> real) option"

definition drop_nth :: "nat \<Rightarrow> 'a list \<Rightarrow> 'a list" where
  "drop_nth i xs = take i xs @ drop (Suc i) xs"

fun op_step :: "(real \<Rightarrow> jstr) \<Rightarrow> op_event \<Rightarrow> ops \<Rightarrow> ops" where
  "op_step num (Submit online writable now payload) st = submit num online writable now payload st"
| "op_step num (PostReply i a online writable) st =
     (if i < length (posts st) then post_reply online writable (posts st ! i) a (st\<lparr>posts := drop_nth i (posts st)\<rparr>) else st)"
| "op_step num (FlushStart online writable ids now) st = flush_start num online writable ids now st"
| "op_step num (FlushReply a writable now) st = flush_reply num writable now a st"
| "op_step num (ListReply i a) st =
     (if i < length (listings st) then list_reply (listings st ! i) a (st\<lparr>listings := drop_nth i (listings st)\<rparr>) else st)"
| "op_step num Reload st = loadOperations False st"
| "op_step num (Deployment b) st = st\<lparr>browser_local := b\<rparr>"
| "op_step num (Located p) st = (case p of Some _ \<Rightarrow> st\<lparr>position := p, status := Quiet\<rparr> | None \<Rightarrow> st\<lparr>status := Quiet\<rparr>)"

section \<open>The log on the page and as a file\<close>

definition history_label :: "js \<Rightarrow> jstr" where
  "history_label r =
     (if jget r ''type'' = JStr (lit ''maintenance'') then [0xD83D, 0xDD27] @ lit '' Wartung''
      else if jget r ''type'' = JStr (lit ''check'') then [0xD83D, 0xDCCB] @ lit '' Lagecheck''
      else [0xD83D, 0xDCE6] @ lit '' Zustellung'')"

definition joined :: "(real \<Rightarrow> jstr) \<Rightarrow> js list \<Rightarrow> op_err + jstr" where
  \<comment> \<open>\<open>values.filter(Boolean).join(' \<cdot> ')\<close> with a middle dot\<close>
  "joined num vs =
     bindr (mapr (\<lambda>v. case js_string num v of None \<Rightarrow> Inl TypeFailure | Some t \<Rightarrow> Inr t) (filter truthy vs))
       (\<lambda>ts. Inr (join_with [32, 183, 32] ts))"

definition history_entry :: "(real \<Rightarrow> jstr) \<Rightarrow> (js \<Rightarrow> jstr) \<Rightarrow> js \<Rightarrow> op_err + jstr \<times> jstr" where
  \<comment> \<open>title and detail; \<open>date\<close> is the text of a point in time\<close>
  "history_entry num date r =
     throw_if (nullish r) TypeFailure
       (bindr (case js_string num (if truthy (jget r ''asset_code'') then jget r ''asset_code'' else JStr (lit ''ohne ID'')) of
                 None \<Rightarrow> Inl TypeFailure | Some t \<Rightarrow> Inr t) (\<lambda>code.
        bindr (joined num (map (jget r)
                 (if jget r ''type'' = JStr (lit ''maintenance'') then [''work_type'', ''status'', ''technician'']
                  else if jget r ''type'' = JStr (lit ''check'') then [''status'', ''reference'']
                  else [''recipient'', ''reference'']))) (\<lambda>context.
        bindr (joined num [JStr context, jget r ''actor'',
                 JStr (if truthy (jget r ''occurred_at'') then date (jget r ''occurred_at'') else []),
                 JStr (if nullish (jget r ''latitude'') then [] else [0xD83D, 0xDCCD])]) (\<lambda>detail.
          Inr (history_label r @ [32, 183, 32] @ code, detail)))))"

definition csv_columns :: "string list" where
  "csv_columns = [''id'', ''type'', ''asset_code'', ''status'', ''recipient'', ''reference'', ''technician'', ''work_type'', ''notes'',
     ''occurred_at'', ''created_at'', ''latitude'', ''longitude'']"

definition quote_text :: "jstr \<Rightarrow> jstr" where
  "quote_text s = [34] @ concat (map (\<lambda>c. if c = 34 then [34, 34] else [c]) s) @ [34]"

definition quote :: "(real \<Rightarrow> jstr) \<Rightarrow> js \<Rightarrow> op_err + jstr" where
  "quote num v =
     (case (if nullish v then Some [] else js_string num v) of None \<Rightarrow> Inl TypeFailure | Some t \<Rightarrow> Inr (quote_text t))"

definition operationCSV :: "(real \<Rightarrow> jstr) \<Rightarrow> js list \<Rightarrow> op_err + jstr" where
  "operationCSV num rs =
     bindr (mapr (\<lambda>r. throw_if (nullish r) TypeFailure
                        (bindr (mapr (\<lambda>k. quote num (jget r k)) csv_columns) (\<lambda>cells. Inr (join_with [59] cells)))) rs)
       (\<lambda>rows. Inr (join_with [10] ((0xFEFF # join_with [59] (map lit csv_columns)) # rows)))"

text \<open>A quoted text can be read back: the first quote that is not doubled ends it.\<close>

fun read_quoted :: "jstr \<Rightarrow> jstr \<times> jstr" where
  "read_quoted [] = ([], [])"
| "read_quoted [c] = (if c = 34 then ([], []) else ([c], []))"
| "read_quoted (c # d # s) =
     (if c = 34 then (if d = 34 then (case read_quoted s of (t, r) \<Rightarrow> (34 # t, r)) else ([], d # s))
      else (case read_quoted (d # s) of (t, r) \<Rightarrow> (c # t, r)))"

lemma read_quoted_plain: "c \<noteq> 34 \<Longrightarrow> read_quoted (c # s) = (case read_quoted s of (t, r) \<Rightarrow> (c # t, r))"
  by (cases s) auto

lemma quote_reads_back: "rest = [] \<or> hd rest \<noteq> 34 \<Longrightarrow> read_quoted (tl (quote_text s @ rest)) = (s, rest)"
proof (induction s)
  case Nil
  then show ?case by (cases rest) (auto simp: quote_text_def)
next
  case (Cons c s)
  then show ?case by (simp add: quote_text_def read_quoted_plain)
qed

definition operationHeaders :: "bool \<Rightarrow> jstr \<Rightarrow> jstr option \<Rightarrow> jstr option \<times> jstr option" where
  \<comment> \<open>for operators that need a token: the one sent, and the one the session keeps\<close>
  "operationHeaders auth_required entered session =
     (let token = (if trim entered \<noteq> [] then trim entered else case session of Some t \<Rightarrow> t | None \<Rightarrow> [])
      in if \<not> auth_required then (None, session)
         else if token = [] then (None, session) else (Some token, Some token))"

section \<open>Nothing is lost\<close>

definition ids :: "js list \<Rightarrow> jstr set" where
  "ids rs = {c. c \<noteq> [] \<and> JStr c \<in> event_id ` set rs}"

definition kept_ids :: "stored \<Rightarrow> jstr set" where
  "kept_ids s = (case s of Some (Some (JArr q)) \<Rightarrow> ids q | _ \<Rightarrow> {})"

lemma ids_simps [simp]:
  "ids [] = {}" "ids (xs @ ys) = ids xs \<union> ids ys"
  "ids (r # rs) = (case event_id r of JStr c \<Rightarrow> if c = [] then {} else {c} | _ \<Rightarrow> {}) \<union> ids rs"
  by (auto simp: ids_def split: js.split)

lemma clone_is_str: "clone v = JStr c \<longleftrightarrow> v = JStr c"
  by (cases v) (auto split: jsnum.split)

lemma map_of_clone: "map_of ps k = Some (JStr c) \<Longrightarrow> map_of (map (\<lambda>(k, v). (k, clone v)) (filter (\<lambda>p. snd p \<noteq> JUndef) ps)) k = Some (JStr c)"
  by (induction ps) (auto split: if_splits)

lemma event_id_clone: "event_id r = JStr c \<Longrightarrow> event_id (clone r) = JStr c"
  by (cases r) (auto simp: event_id_def map_of_clone split: option.splits)

lemma ids_clone: "ids rs \<subseteq> ids (map clone rs)"
proof
  fix c
  assume "c \<in> ids rs"
  then obtain r where "c \<noteq> []" "r \<in> set rs" "event_id r = JStr c" unfolding ids_def by force
  moreover from this have "JStr c = event_id (clone r)" using event_id_clone by simp
  ultimately show "c \<in> ids (map clone rs)" unfolding ids_def by simp
qed

lemma ids_one: "event_id r = JStr c \<Longrightarrow> c \<noteq> [] \<Longrightarrow> c \<in> ids (map clone (r # rs))"
  using event_id_clone [of r c] by (simp add: ids_def)

lemma pendingOperations_kept: "pendingOperations s = Inr q \<Longrightarrow> kept_ids s = ids q"
  by (auto simp: pendingOperations_def kept_ids_def split: option.splits js.splits)

lemma localOperations_kept: "localOperations s = Inr q \<Longrightarrow> kept_ids s = ids q"
  by (auto simp: localOperations_def kept_ids_def split: option.splits js.splits)

lemma savePending_Inr: "savePendingOperations w rs st = Inr st' \<longleftrightarrow>
    length rs \<le> 100 \<and> w \<and> st' = st\<lparr>pending := Some (Some (JArr (map clone rs)))\<rparr>"
  by (auto simp: savePendingOperations_def throw_if_Inr_iff operationsQueueLimit_def)

lemma saveLocal_Inr: "saveLocalOperations w rs st = Inr st' \<longleftrightarrow>
    length rs \<le> 500 \<and> w \<and> st' = st\<lparr>local_log := Some (Some (JArr (map clone rs)))\<rparr>"
  by (auto simp: saveLocalOperations_def throw_if_Inr_iff)

lemma kept_ids_array [simp]: "kept_ids (Some (Some (JArr q))) = ids q"
  by (simp add: kept_ids_def)

lemma strict_eq_str: "strict_eq v (JStr c) \<longleftrightarrow> v = JStr c"
  by (auto simp: strict_eq_def)

lemma has_event_True: "has_event q (JStr c) = Inr True \<Longrightarrow> c \<noteq> [] \<Longrightarrow> c \<in> ids q"
  by (induction q) (auto simp: strict_eq_str ids_def split: if_splits)

lemma without_event_ids: "without_event q i = Inr q' \<Longrightarrow> ids q \<subseteq> ids q' \<union> {c. i = JStr c}"
proof (induction q arbitrary: q')
  case (Cons x q)
  then obtain ys where ys: "without_event q i = Inr ys" "q' = (if strict_eq (event_id x) i then ys else x # ys)"
    by (auto simp: bindr_Inr_iff split: if_splits)
  show ?case using Cons.IH [OF ys(1)] ys(2) by (auto simp: strict_eq_def split: js.splits)
qed simp

lemma queue_takes:
  assumes "queueOperation w r st = Inr st'"
  shows "kept_ids (pending st) \<subseteq> kept_ids (pending st') \<and> (\<forall>c. event_id r = JStr c \<longrightarrow> c \<in> kept_ids (pending st'))
    \<and> local_log st' = local_log st \<and> posts st' = posts st \<and> flush st' = flush st"
proof -
  obtain q found where q: "pendingOperations (pending st) = Inr q" "truthy (event_id r)" "has_event q (event_id r) = Inr found"
    "if found then st' = st else \<exists>st1. savePendingOperations w (q @ [r]) st = Inr st1 \<and> st' = st1\<lparr>status := QueuedNow (length q + 1)\<rparr>"
    using assms by (auto simp: queueOperation_def bindr_Inr_iff throw_if_Inr_iff split: if_splits)
  note k = pendingOperations_kept [OF q(1)]
  show ?thesis
  proof (cases found)
    case True
    have "c \<in> ids q" if c: "event_id r = JStr c" for c
      using q(2,3) True has_event_True [of q c] unfolding c by simp
    then show ?thesis using q(4) True k by simp
  next
    case False
    then have st': "pending st' = Some (Some (JArr (map clone (q @ [r]))))" "local_log st' = local_log st" "posts st' = posts st"
      "flush st' = flush st" using q by (auto simp: savePending_Inr)
    have "c \<in> ids (q @ [r])" if "event_id r = JStr c" for c using that q(2) by auto
    then show ?thesis using st' k ids_clone [of "q @ [r]"] by (simp add: subset_iff del: map_append ids_simps)
      (simp add: ids_def)
  qed
qed

lemma submit_failed_keeps:
  "kept_ids (pending st) \<subseteq> kept_ids (pending (submit_failed online w r e st))
   \<and> local_log (submit_failed online w r e st) = local_log st \<and> posts (submit_failed online w r e st) = posts st
   \<and> flush (submit_failed online w r e st) = flush st
   \<and> (\<forall>c. event_id r = JStr c \<longrightarrow> c \<in> kept_ids (pending (submit_failed online w r e st))
        \<or> (\<exists>e'. status (submit_failed online w r e st) = Failed e'))"
proof (cases "(is_type_error e \<or> \<not> online) \<and> is_ok (queueOperation w r st)")
  case True
  then obtain st' where "queueOperation w r st = Inr st'" by (auto simp: is_ok_iff)
  then show ?thesis using queue_takes [of w r st st'] True by (auto simp: submit_failed_def)
next
  case False
  then show ?thesis by (cases "queueOperation w r st") (auto simp: submit_failed_def fail_def)
qed

lemma submit_done_keeps:
  "kept_ids (pending st) \<subseteq> kept_ids (pending (submit_done online w r v st))
   \<and> local_log (submit_done online w r v st) = local_log st \<and> posts (submit_done online w r v st) = posts st
   \<and> flush (submit_done online w r v st) = flush st
   \<and> (\<forall>c. event_id r = JStr c \<longrightarrow> status (submit_done online w r v st) = SavedNow
        \<or> c \<in> kept_ids (pending (submit_done online w r v st)) \<or> (\<exists>e. status (submit_done online w r v st) = Failed e))"
  using submit_failed_keeps [of "st\<lparr>op_records := Some (take 100 (v # the (op_records st)))\<rparr>" online w r TypeFailure]
    submit_failed_keeps [of st online w r TypeFailure]
  by (auto simp: submit_done_def Let_def split: option.split)

lemma post_reply_keeps:
  "kept_ids (pending st) \<subseteq> kept_ids (pending (post_reply online w r a st)) \<and> local_log (post_reply online w r a st) = local_log st
   \<and> posts (post_reply online w r a st) = posts st \<and> flush (post_reply online w r a st) = flush st
   \<and> (\<forall>c. event_id r = JStr c \<longrightarrow> c \<in> kept_ids (pending (post_reply online w r a st))
        \<or> status (post_reply online w r a st) = SavedNow \<and> is_ok (answer_result a)
        \<or> (\<exists>e. status (post_reply online w r a st) = Failed e))"
proof (cases "answer_result a")
  case (Inl e)
  then show ?thesis using submit_failed_keeps [of st online w r e] by (auto simp: post_reply_def)
next
  case (Inr v)
  then show ?thesis using submit_done_keeps [of st online w r v] by (auto simp: post_reply_def)
qed

lemma submit_local_Inr:
  assumes "submit_local num w now r st = Inr (v, st')"
  shows "pending st' = pending st \<and> posts st' = posts st \<and> flush st' = flush st
    \<and> kept_ids (local_log st) \<subseteq> kept_ids (local_log st') \<and> (\<forall>c. c \<noteq> [] \<and> event_id r = JStr c \<longrightarrow> c \<in> kept_ids (local_log st'))"
proof -
  obtain i old where i: "js_string num (event_id r) = Some i" "localOperations (local_log st) = Inr old"
    "saveLocalOperations w (v # old) st = Inr st'"
    "v = jset (jset (jset r ''id'' (JStr (lit ''browser_'' @ i))) ''actor'' (JStr (lit ''browser-local''))) ''created_at'' (JStr now)"
    using assms by (auto simp: submit_local_def Let_def bindr_Inr_iff throw_if_Inr_iff split: option.splits)
  have "event_id v = event_id r" if "is_object r" using that by (simp add: i(4) event_id_def)
  then have "event_id v = JStr c" if "event_id r = JStr c" for c
    using that jget_object [of r "''client_event_id''"] by (simp add: event_id_def)
  then have "c \<in> ids (map clone (v # old))" if "c \<noteq> []" "event_id r = JStr c" for c using that ids_one by blast
  moreover have "kept_ids (local_log st) \<subseteq> ids (map clone (v # old))"
    using ids_clone [of "v # old"] by (auto simp: localOperations_kept [OF i(2)] ids_def)
  moreover have "st' = st\<lparr>local_log := Some (Some (JArr (map clone (v # old))))\<rparr>" using i(3) by (simp add: saveLocal_Inr)
  ultimately show ?thesis by (simp del: list.map ids_simps)
qed

lemma sent_Inr:
  assumes "sent w r st = Inr st'"
  shows "kept_ids (pending st) \<subseteq> kept_ids (pending st') \<union> {c. event_id r = JStr c} \<and> local_log st' = local_log st"
proof -
  obtain q q' where q: "pendingOperations (pending st) = Inr q" "without_event q (event_id r) = Inr q'"
    "st' = st\<lparr>pending := Some (Some (JArr (map clone q')))\<rparr>"
    using assms by (auto simp: sent_def bindr_Inr_iff savePending_Inr)
  then show ?thesis
    using without_event_ids [OF q(2)] ids_clone [of q'] by (auto simp: pendingOperations_kept [OF q(1)])
qed

lemma load_keeps: "pending (loadOperations b st) = pending st \<and> local_log (loadOperations b st) = local_log st \<and> posts (loadOperations b st) = posts st"
  by (auto simp: loadOperations_def fail_def Let_def split: sum.split)

lemma flush_end_keeps: "pending (flush_end n f st) = pending st \<and> local_log (flush_end n f st) = local_log st"
  using load_keeps by (auto simp: flush_end_def fail_def Let_def split: sum.split option.split)

lemma flush_go_keeps: "kept_ids (local_log st) \<subseteq> kept_ids (local_log (flush_go num w now rs n f st))
    \<and> kept_ids (pending st) \<subseteq> kept_ids (pending (flush_go num w now rs n f st)) \<union> kept_ids (local_log (flush_go num w now rs n f st))"
proof (induction rs arbitrary: n f st)
  case Nil
  then show ?case using flush_end_keeps by auto
next
  case (Cons r rs)
  show ?case
  proof (cases "browser_local st \<and> is_ok (submit_local num w now r st)")
    case True
    then obtain v st1 where s: "submit_local num w now r st = Inr (v, st1)" by (auto simp: is_ok_iff)
    note k = submit_local_Inr [OF s]
    show ?thesis
    proof (cases "sent w r st1")
      case (Inl e)
      then show ?thesis using True s k Cons.IH [of st1 n "Some e"] by auto
    next
      case (Inr st2)
      have "c \<noteq> []" if "c \<in> kept_ids (pending st)" for c
        using that by (auto simp: kept_ids_def ids_def split: option.splits js.splits)
      note st2 = sent_Inr [OF Inr] and ih = Cons.IH [of st2 "n + 1" f]
      have "flush_go num w now (r # rs) n f st = flush_go num w now rs (n + 1) f st2" using True s Inr by simp
      moreover have "kept_ids (pending st) \<subseteq> kept_ids (pending st2) \<union> kept_ids (local_log st2)"
        using st2 k \<open>\<And>c. c \<in> kept_ids (pending st) \<Longrightarrow> c \<noteq> []\<close> by (simp add: subset_iff) blast
      ultimately show ?thesis using ih st2 k by (simp only:) blast
    qed
  next
    case False
    then show ?thesis using Cons.IH [of st n] by (cases "submit_local num w now r st") auto
  qed
qed

lemma give_ids_keep: "give_ids is rs = Inr rs' \<Longrightarrow> ids rs \<subseteq> ids rs'"
proof (induction "is" rs arbitrary: rs' rule: give_ids.induct)
  case (2 "is" r rs)
  show ?case
  proof (cases "truthy (event_id r)")
    case True
    then show ?thesis using 2 by (auto simp: bindr_Inr_iff split: if_splits)
  next
    case False
    then have "(case event_id r of JStr c \<Rightarrow> if c = [] then {} else {c} | _ \<Rightarrow> {}) = {}" by (auto split: js.split)
    then show ?thesis using 2 False by (fastforce simp: bindr_Inr_iff split: if_splits list.splits)
  qed
qed simp

lemma op_step_keeps:
  assumes "c \<in> kept_ids (pending st)"
  shows "c \<in> kept_ids (pending (op_step num ev st)) \<or> c \<in> kept_ids (local_log (op_step num ev st))
    \<or> (\<exists>v w now r rs n f. ev = FlushReply (Answer v) w now \<and> flush st = Some (Sending (r # rs) n f) \<and> event_id r = JStr c)"
proof (cases ev)
  case (Submit online w now p)
  then show ?thesis
    using assms submit_failed_keeps submit_done_keeps submit_local_Inr [of num w now _ st]
    by (auto simp: submit_def fail_def split: sum.split) (metis subsetD)+
next
  case (PostReply i a online w)
  then show ?thesis
    using assms post_reply_keeps [of "st\<lparr>posts := drop_nth i (posts st)\<rparr>" online w "posts st ! i" a] by auto
next
  case (FlushStart online w new now)
  show ?thesis
  proof (cases "\<exists>q st'. bindr (pendingOperations (pending st)) (give_ids new) = Inr q \<and> savePendingOperations w q st = Inr st'")
    case True
    then obtain q q0 st' where q: "pendingOperations (pending st) = Inr q0" "give_ids new q0 = Inr q" "savePendingOperations w q st = Inr st'"
      by (auto simp: bindr_Inr_iff)
    then have "c \<in> kept_ids (pending st')"
      using assms pendingOperations_kept [OF q(1)] give_ids_keep [OF q(2)] ids_clone [of q] by (auto simp: savePending_Inr)
    then have "c \<in> kept_ids (pending (flush_go num w now q 0 None st')) \<union> kept_ids (local_log (flush_go num w now q 0 None st'))"
      using flush_go_keeps by blast
    then show ?thesis using FlushStart q assms by (auto simp: flush_start_def)
  next
    case False
    then show ?thesis using FlushStart assms by (auto simp: flush_start_def fail_def split: sum.split)
  qed
next
  case (FlushReply a w now)
  show ?thesis
  proof (cases "\<exists>r rs n f. flush st = Some (Sending (r # rs) n f)")
    case True
    then obtain r rs n f where f: "flush st = Some (Sending (r # rs) n f)" by blast
    show ?thesis
    proof (cases "bindr (answer_result a) (\<lambda>_. sent w r st)")
      case (Inl e)
      then show ?thesis using FlushReply f assms flush_go_keeps [of st num w now rs n "Some e"] by (auto simp: flush_reply_def)
    next
      case (Inr st')
      then obtain v where v: "a = Answer v" and s: "sent w r st = Inr st'" by (cases a) auto
      show ?thesis
        using FlushReply f v s assms sent_Inr [OF s] flush_go_keeps [of st' num w now rs "n + 1" f] by (auto simp: flush_reply_def)
    qed
  next
    case False
    then show ?thesis using FlushReply assms by (auto simp: flush_reply_def split: option.split flushing.split list.split)
  qed
next
  case (Located p)
  then show ?thesis using assms by (cases p) auto
qed (use assms load_keeps in \<open>auto simp: list_reply_def Let_def split: op_answer.split\<close>)

lemma op_step_local: "kept_ids (local_log st) \<subseteq> kept_ids (local_log (op_step num ev st))"
proof (cases ev)
  case (Submit online w now p)
  have "kept_ids (local_log st) \<subseteq> kept_ids (local_log st1)" if "submit_local num w now r st = Inr (v, st1)" for r v st1
    using submit_local_Inr [OF that] by blast
  then show ?thesis
    using Submit submit_failed_keeps submit_done_keeps by (auto simp: submit_def fail_def split: sum.split)
next
  case (PostReply i a online w)
  then show ?thesis
    using post_reply_keeps [of "st\<lparr>posts := drop_nth i (posts st)\<rparr>" online w "posts st ! i" a] by auto
next
  case (FlushStart online w new now)
  then show ?thesis
    using flush_go_keeps [of _ num w now] by (fastforce simp: flush_start_def fail_def savePending_Inr split: sum.split)
next
  case (FlushReply a w now)
  have "kept_ids (local_log st) \<subseteq> kept_ids (local_log (flush_go num w now rs n f st1))" if "bindr (answer_result a) (\<lambda>_. sent w r st) = Inr st1" for r rs n f st1
    using that sent_Inr [of w r st st1] flush_go_keeps [of st1 num w now rs n f] by (auto simp: bindr_Inr_iff)
  then show ?thesis
    using FlushReply flush_go_keeps [of st num w now] by (auto simp: flush_reply_def split: option.split flushing.split list.split sum.split)
next
  case (Located p)
  then show ?thesis by (cases p) auto
qed (use load_keeps in \<open>auto simp: list_reply_def Let_def split: op_answer.split\<close>)

lemma flush_go_posts: "posts (flush_go num w now rs n f st) = posts st"
proof (induction rs arbitrary: n f st)
  case Nil
  then show ?case using load_keeps by (auto simp: flush_end_def fail_def Let_def split: sum.split option.split)
next
  case (Cons r rs)
  have "posts st2 = posts st1" if "sent w r st1 = Inr st2" for st1 st2 :: ops
    using that by (auto simp: sent_def bindr_Inr_iff savePending_Inr)
  moreover have "posts st1 = posts st" if "submit_local num w now r st = Inr (v, st1)" for v st1
    using submit_local_Inr [OF that] by blast
  ultimately show ?case using Cons.IH by (auto simp: bindr_Inr_iff split: sum.split)
qed

definition held :: "ops \<Rightarrow> jstr set" where
  "held st = ids (posts st) \<union> kept_ids (pending st) \<union> kept_ids (local_log st)"

definition settled :: "(real \<Rightarrow> jstr) \<Rightarrow> jstr \<Rightarrow> op_event \<Rightarrow> ops \<Rightarrow> bool" where
  \<comment> \<open>the server has confirmed the record, or an error is shown for the form, which keeps its input\<close>
  "settled num c ev st \<longleftrightarrow>
     (\<exists>v w now r rs n f. ev = FlushReply (Answer v) w now \<and> flush st = Some (Sending (r # rs) n f) \<and> event_id r = JStr c)
     \<or> (\<exists>i a online w. ev = PostReply i a online w \<and> i < length (posts st) \<and> event_id (posts st ! i) = JStr c
          \<and> (is_ok (answer_result a) \<or> (\<exists>e. status (op_step num ev st) = Failed e)))"

lemma ids_drop: "i < length rs \<Longrightarrow> c \<in> ids rs \<Longrightarrow> event_id (rs ! i) = JStr c \<or> c \<in> ids (drop_nth i rs)"
proof -
  assume "i < length rs"
  then have "set rs = insert (rs ! i) (set (drop_nth i rs))"
    using id_take_nth_drop [of i rs] by (metis drop_nth_def insert_is_Un list.set(2) set_append sup_left_commute)
  then show "c \<in> ids rs \<Longrightarrow> ?thesis" by (auto simp: ids_def)
qed

lemma op_step_posts:
  assumes "c \<in> ids (posts st)"
  shows "c \<in> held (op_step num ev st) \<or> settled num c ev st"
proof (cases ev)
  case (Submit online w now p)
  have "posts st1 = posts st" if "submit_local num w now r st = Inr (v, st1)" for r v st1
    using submit_local_Inr [OF that] by blast
  then have "ids (posts st) \<subseteq> ids (posts (op_step num ev st))"
    using Submit submit_failed_keeps submit_done_keeps by (auto simp: submit_def fail_def split: sum.split)
  then show ?thesis using assms by (auto simp: held_def)
next
  case (PostReply i a online w)
  show ?thesis
  proof (cases "i < length (posts st)")
    case True
    let ?st = "st\<lparr>posts := drop_nth i (posts st)\<rparr>"
    note k = post_reply_keeps [of ?st online w "posts st ! i" a]
    consider "event_id (posts st ! i) = JStr c" | "c \<in> ids (drop_nth i (posts st))" using ids_drop [OF True assms] by blast
    then show ?thesis
    proof cases
      case 1
      then show ?thesis using k True PostReply unfolding settled_def held_def by auto
    next
      case 2
      then show ?thesis using k True PostReply by (simp add: held_def)
    qed
  next
    case False
    then show ?thesis using assms PostReply by (simp add: held_def)
  qed
next
  case (FlushStart online w new now)
  then have "posts (op_step num ev st) = posts st"
    using flush_go_posts by (auto simp: flush_start_def fail_def savePending_Inr split: sum.split)
  then show ?thesis using assms by (simp add: held_def)
next
  case (FlushReply a w now)
  have "posts st1 = posts st" if "bindr x (\<lambda>_. sent w r st) = Inr st1" for x :: "op_err + js" and r st1
    using that by (auto simp: sent_def bindr_Inr_iff savePending_Inr)
  then have "posts (op_step num ev st) = posts st"
    using FlushReply flush_go_posts by (auto simp: flush_reply_def split: option.split flushing.split list.split sum.split)
  then show ?thesis using assms by (simp add: held_def)
next
  case (Located p)
  then show ?thesis using assms by (cases p) (auto simp: held_def)
qed (use assms load_keeps in \<open>auto simp: held_def list_reply_def Let_def split: op_answer.split\<close>)

lemma held_step: "c \<in> held st \<Longrightarrow> c \<in> held (op_step num ev st) \<or> settled num c ev st"
proof -
  assume "c \<in> held st"
  then consider "c \<in> ids (posts st)" | "c \<in> kept_ids (pending st)" | "c \<in> kept_ids (local_log st)" by (auto simp: held_def)
  then show ?thesis
  proof cases
    case 1
    then show ?thesis by (rule op_step_posts)
  next
    case 2
    then show ?thesis using op_step_keeps [OF 2, of num ev] unfolding held_def settled_def by blast
  next
    case 3
    then show ?thesis using op_step_local [of st num ev] by (auto simp: held_def)
  qed
qed

lemma held_run: "c \<in> held st \<Longrightarrow> c \<in> held (fold (op_step num) evs st)
    \<or> (\<exists>es ev rest. evs = es @ ev # rest \<and> settled num c ev (fold (op_step num) es st))"
proof (induction evs arbitrary: st)
  case (Cons ev evs)
  from held_step [OF Cons.prems, of num ev] show ?case
  proof
    assume "c \<in> held (op_step num ev st)"
    from Cons.IH [OF this] show ?thesis by (metis append_Cons fold_simps(2))
  next
    assume "settled num c ev st"
    then show ?thesis by (metis append_Nil fold_simps(1))
  qed
qed simp

lemma submit_holds:
  assumes "event_id r = JStr c" "c \<noteq> []"
  shows "c \<in> held (submit num online w now (Inr r) st) \<or> (\<exists>e. status (submit num online w now (Inr r) st) = Failed e)"
proof (cases "browser_local st")
  case True
  show ?thesis
  proof (cases "submit_local num w now r st")
    case (Inl e)
    then show ?thesis using True submit_failed_keeps [of st online w r e] assms by (auto simp: submit_def held_def)
  next
    case (Inr cs)
    obtain v st1 where s: "submit_local num w now r st = Inr (v, st1)" using Inr by (cases cs) auto
    then show ?thesis
      using True submit_local_Inr [OF s] submit_done_keeps [of st1 online w r v] assms by (auto simp: submit_def held_def)
  qed
next
  case False
  then show ?thesis using assms by (simp add: submit_def held_def)
qed

text \<open>C34: No record of the log is lost. A record that is saved from the form is under way to the server, or in
  the queue, or in the browser's own log, or an error is shown at once; and from then on, whatever
  happens and in whatever order the answers arrive, it stays there until the server has confirmed this
  record, or the form that sent it shows an error.\<close>

theorem no_record_lost:
  assumes "event_id r = JStr c" "c \<noteq> []" "st1 = op_step num (Submit online w now (Inr r)) st"
    "st2 = fold (op_step num) evs st1"
  shows "(c \<in> held st1 \<or> (\<exists>e. status st1 = Failed e))
    \<and> (c \<in> held st1 \<longrightarrow> c \<in> held st2 \<or> (\<exists>es ev rest. evs = es @ ev # rest \<and> settled num c ev (fold (op_step num) es st1)))"
  using submit_holds [OF assms(1,2)] held_run [of c st1] assms(3,4) by simp

section \<open>The queue is sent\<close>

definition identified :: "js \<Rightarrow> bool" where
  "identified r \<longleftrightarrow> json_value r \<and> (\<exists>c. c \<noteq> [] \<and> event_id r = JStr c)"

lemma identified_props:
  assumes "identified r"
  shows "json_value r" "\<not> nullish r" "truthy (event_id r)"
  using assms by (auto simp: identified_def event_id_def) (cases r, auto)+

lemma without_event_identified:
  "list_all identified q \<Longrightarrow> without_event q (JStr c) = Inr (filter (\<lambda>x. event_id x \<noteq> JStr c) q)"
  by (induction q) (auto simp: identified_props strict_eq_str)

lemma give_ids_identified: "list_all identified q \<Longrightarrow> give_ids new q = Inr q"
  by (induction q) (auto simp: identified_props)

lemma clone_identified: "list_all identified q \<Longrightarrow> map clone q = q"
  by (induction q) (auto simp: identified_props)

lemma identified_filter: "list_all identified q \<Longrightarrow> list_all identified (filter P q)"
  by (simp add: list_all_iff)

lemma sent_identified:
  assumes "pending st = Some (Some (JArr q))" "list_all identified q" "length q \<le> 100" "event_id r = JStr c"
  shows "sent True r st = Inr (st\<lparr>pending := Some (Some (JArr (filter (\<lambda>x. event_id x \<noteq> JStr c) q)))\<rparr>)"
proof -
  have "length (filter (\<lambda>x. event_id x \<noteq> JStr c) q) \<le> 100" using assms(3) length_filter_le order_trans by blast
  then show ?thesis
    using assms
    by (simp add: sent_def pendingOperations_def without_event_identified savePendingOperations_def operationsQueueLimit_def
        throw_if_def clone_identified identified_filter)
qed

lemma replies_empty_queue:
  assumes "flush st = Some (Sending rs n None)" "rs \<noteq> [] \<or> 0 < n" "pending st = Some (Some (JArr q))" "list_all identified q"
    "list_all identified rs" "length q \<le> 100" "event_id ` set q \<subseteq> event_id ` set rs" "\<not> browser_local st" "rs \<noteq> []" "length vs = length rs"
  shows "pending (fold (op_step num) (map (\<lambda>v. FlushReply (Answer v) True now) vs) st) = Some (Some (JArr []))
    \<and> status (fold (op_step num) (map (\<lambda>v. FlushReply (Answer v) True now) vs) st) = AllTransferred
    \<and> flush (fold (op_step num) (map (\<lambda>v. FlushReply (Answer v) True now) vs) st) = Some Listing"
  using assms
proof (induction rs arbitrary: n st q vs)
  case (Cons r rs)
  obtain v vs' where vs: "vs = v # vs'" using Cons.prems(10) by (cases vs) auto
  obtain c where c: "event_id r = JStr c" using Cons.prems(5) by (auto simp: identified_def)
  let ?q = "filter (\<lambda>x. event_id x \<noteq> JStr c) q"
  let ?st = "st\<lparr>pending := Some (Some (JArr ?q))\<rparr>"
  have s: "sent True r st = Inr ?st" by (rule sent_identified [OF Cons.prems(3,4,6) c])
  have step: "op_step num (FlushReply (Answer v) True now) st = flush_go num True now rs (n + 1) None ?st"
    using Cons.prems(1) s by (simp add: flush_reply_def)
  have q: "event_id ` set ?q \<subseteq> event_id ` set rs" using Cons.prems(7) c by auto
  show ?case
  proof (cases "rs = []")
    case True
    then have "?q = []" using q by auto
    then show ?thesis
      using True step vs Cons.prems(8,10) by (simp add: flush_end_def pendingOperations_def loadOperations_def Let_def)
  next
    case False
    then obtain r' rs' where rs: "rs = r' # rs'" by (cases rs) auto
    then have st': "op_step num (FlushReply (Answer v) True now) st = ?st\<lparr>flush := Some (Sending rs (n + 1) None)\<rparr>"
      using step Cons.prems(8) by simp
    have len: "length ?q \<le> 100" using Cons.prems(6) length_filter_le order_trans by blast
    show ?thesis
      unfolding vs
      using Cons.IH [of "?st\<lparr>flush := Some (Sending rs (n + 1) None)\<rparr>" "n + 1" ?q vs'] False q len Cons.prems(4,5,8,10) identified_filter vs st'
      by (simp del: op_step.simps)
  qed
qed simp


section \<open>Limits\<close>

definition entries_in :: "stored \<Rightarrow> nat" where
  "entries_in s = (case s of Some (Some (JArr q)) \<Rightarrow> length q | _ \<Rightarrow> 0)"

definition within_limits :: "ops \<Rightarrow> bool" where
  "within_limits st \<longleftrightarrow> entries_in (pending st) \<le> 100 \<and> entries_in (local_log st) \<le> 500"

lemma entries_in_array [simp]: "entries_in (Some (Some (JArr q))) = length q"
  by (simp add: entries_in_def)

lemma limits_frame: "within_limits st \<Longrightarrow> pending st' = pending st \<Longrightarrow> local_log st' = local_log st \<Longrightarrow> within_limits st'"
  by (simp add: within_limits_def)

lemma savePending_limits: "savePendingOperations w rs st = Inr st' \<Longrightarrow> within_limits st \<Longrightarrow> within_limits st'"
  by (auto simp: savePending_Inr within_limits_def)

lemma queue_limits: "queueOperation w r st = Inr st' \<Longrightarrow> within_limits st \<Longrightarrow> within_limits st'"
  by (auto simp: queueOperation_def bindr_Inr_iff throw_if_Inr_iff savePending_Inr within_limits_def split: if_splits)

lemma submit_local_limits: "submit_local num w now r st = Inr (v, st') \<Longrightarrow> within_limits st \<Longrightarrow> within_limits st'"
  by (auto simp: submit_local_def Let_def bindr_Inr_iff throw_if_Inr_iff saveLocal_Inr within_limits_def split: option.splits)

lemma sent_limits: "sent w r st = Inr st' \<Longrightarrow> within_limits st \<Longrightarrow> within_limits st'"
  by (auto simp: sent_def bindr_Inr_iff savePending_Inr within_limits_def)

lemma fail_limits: "within_limits (fail e st) = within_limits st"
  by (simp add: within_limits_def fail_def)

lemma submit_failed_limits: "within_limits st \<Longrightarrow> within_limits (submit_failed online w r e st)"
  using queue_limits by (auto simp: submit_failed_def fail_limits split: sum.split)

lemma submit_done_limits: "within_limits st \<Longrightarrow> within_limits (submit_done online w r v st)"
  using submit_failed_limits by (auto simp: submit_done_def Let_def within_limits_def split: option.split)

lemma flush_go_limits: "within_limits st \<Longrightarrow> within_limits (flush_go num w now rs n f st)"
proof (induction rs arbitrary: n f st)
  case Nil
  then show ?case using limits_frame flush_end_keeps by simp
next
  case (Cons r rs)
  show ?case
  proof (cases "browser_local st")
    case True
    then show ?thesis using Cons submit_local_limits sent_limits by (auto simp: bindr_Inr_iff split: sum.split)
  qed (use Cons.prems in \<open>simp add: within_limits_def\<close>)
qed

lemma op_step_limits: "within_limits st \<Longrightarrow> within_limits (op_step num ev st)"
proof (cases ev)
  case (Submit online w now p)
  assume "within_limits st"
  moreover from this have "within_limits (st\<lparr>posts := ps\<rparr>)" for ps by (simp add: within_limits_def)
  ultimately show ?thesis
    using Submit submit_failed_limits submit_done_limits submit_local_limits by (auto simp: submit_def fail_limits split: sum.split)
next
  case (PostReply i a online w)
  assume "within_limits st"
  moreover from this have "within_limits (st\<lparr>posts := ps\<rparr>)" for ps by (simp add: within_limits_def)
  ultimately show ?thesis
    using PostReply submit_failed_limits submit_done_limits by (auto simp: post_reply_def split: sum.split)
next
  case (FlushStart online w new now)
  assume "within_limits st"
  then show ?thesis
    using FlushStart flush_go_limits savePending_limits by (auto simp: flush_start_def fail_limits split: sum.split)
next
  case (FlushReply a w now)
  assume "within_limits st"
  then show ?thesis
    using FlushReply flush_go_limits sent_limits
    by (auto simp: flush_reply_def bindr_Inr_iff split: option.split flushing.split list.split sum.split)
next
  case (Located p)
  assume "within_limits st"
  then show ?thesis using Located by (cases p) (auto simp: within_limits_def)
next
  case (ListReply i a)
  assume "within_limits st"
  then show ?thesis by (rule limits_frame) (auto simp: ListReply list_reply_def Let_def split: op_answer.split)
next
  case Reload
  assume "within_limits st"
  then show ?thesis by (rule limits_frame) (auto simp: Reload load_keeps)
next
  case (Deployment b)
  assume "within_limits st"
  then show ?thesis by (rule limits_frame) (auto simp: Deployment)
qed

section \<open>Examples\<close>

definition parcel :: js where
  "parcel = JObj [(lit ''client_event_id'', JStr (lit ''e1'')), (lit ''asset_code'', JStr (lit ''4711''))]"

definition empty_ops :: ops where
  "empty_ops = \<lparr>pending = None, local_log = None, op_records = Some [], browser_local = False, posts = [], listings = [],
     flush = None, position = None, status = Quiet\<rparr>"

lemma parcel_id: "event_id parcel = JStr (lit ''e1'')" "identified parcel"
  by (simp_all add: parcel_def event_id_def identified_def)

theorem no_record_lost_witness:
  "lit ''e1'' \<in> held (op_step (\<lambda>_. []) (PostReply 0 NoConnection False True) (op_step (\<lambda>_. []) (Submit True True [] (Inr parcel)) empty_ops))"
proof -
  let ?st1 = "op_step (\<lambda>_. []) (Submit True True [] (Inr parcel)) empty_ops"
  have st1: "?st1 = empty_ops\<lparr>posts := [parcel]\<rparr>" by (simp add: submit_def empty_ops_def)
  have r: "\<not> settled (\<lambda>_. []) (lit ''e1'') (PostReply 0 NoConnection False True) ?st1"
    unfolding st1 by (simp add: settled_def post_reply_def submit_failed_def queueOperation_def pendingOperations_def empty_ops_def
        drop_nth_def parcel_id savePendingOperations_def operationsQueueLimit_def throw_if_def is_ok_iff)
  note t = no_record_lost [OF parcel_id(1) _ refl refl, of "\<lambda>_. []" True True "[]" empty_ops "[PostReply 0 NoConnection False True]"]
  have "lit ''e1'' \<in> held ?st1" unfolding st1 by (simp add: held_def parcel_id)
  then have "lit ''e1'' \<in> held (fold (op_step (\<lambda>_. [])) [PostReply 0 NoConnection False True] ?st1)
    \<or> (\<exists>es ev rest. [PostReply 0 NoConnection False True] = es @ ev # rest \<and> settled (\<lambda>_. []) (lit ''e1'') ev (fold (op_step (\<lambda>_. [])) es ?st1))"
    using t by simp
  then show ?thesis using r by (auto simp: Cons_eq_append_conv simp del: op_step.simps)
qed


text \<open>In the mode in which records stay in the browser the queue is never sent; a record that does not fit
  into the full log while the browser is off-line goes there all the same, and is announced as waiting.\<close>

lemma local_mode_queues:
  assumes "browser_local st" "pending st = None" "local_log st = Some (Some (JArr old))" "length old = 500"
    "event_id r = JStr c" "c \<noteq> []" "browser_local st'"
  shows "status (op_step num (Submit False True now (Inr r)) st) = QueuedNow 1"
    "pending (op_step num (FlushStart True w new later) st') = pending st'"
proof -
  have "submit_local num True now r st = Inl LocalFull"
    using assms by (simp add: submit_local_def Let_def localOperations_def throw_if_def)
  then show "status (op_step num (Submit False True now (Inr r)) st) = QueuedNow 1"
    using assms by (simp add: submit_def submit_failed_def queueOperation_def pendingOperations_def savePendingOperations_def
        operationsQueueLimit_def throw_if_def)
  show "pending (op_step num (FlushStart True w new later) st') = pending st'"
    using assms(7) by (simp add: flush_start_def)
qed

end
