(* ===== verification/Territory.thy ===== *)
theory Territory
  imports AiOutput
begin

text \<open>
  Territories of a map layer and the route through them (\<open>src/cmd/web/app.js\<close>): the colour of a
  territory, the test whether a place is in one, and the list of territories a path passes through with the
  kilometres where it enters and leaves them. The IDs of territories are texts; their collation
  (\<open>localeCompare\<close>) is a parameter.
\<close>

unbundle bit_operations_syntax

section \<open>Colours\<close>

text \<open>JavaScript computes these with 32 bits: \<open>>>> 0\<close>, \<open>Math.imul\<close> and \<open>^\<close> on numbers below \<open>2 ^ 53\<close>.\<close>

definition hash_text :: "jstr \<Rightarrow> 32 word" where
  "hash_text s = foldl (\<lambda>h c. h * 31 + ucast c) 0 s"

definition finalize :: "32 word \<Rightarrow> 32 word" where
  "finalize h =
     (let h = (h XOR drop_bit 16 h) * 2246822507; h = (h XOR drop_bit 13 h) * 3266489909
      in h XOR drop_bit 16 h)"

definition territoryColor :: "jstr \<Rightarrow> nat" where
  \<comment> \<open>the hue of \<open>hsl(hue, 65%, 50%)\<close>\<close>
  "territoryColor s = unat (finalize (hash_text s)) mod 360"

section \<open>Places\<close>

type_synonym ring = "pos list"

datatype territory_geometry = NoGeometry | Polygon "ring list" | MultiPolygon "ring list list" | OtherGeometry

record territory =
  tgeometry :: territory_geometry
  territory_id :: "jstr option"

definition crosses :: "real \<Rightarrow> real \<Rightarrow> pos \<Rightarrow> pos \<Rightarrow> bool" where
  "crosses lon lat i j \<longleftrightarrow> (lat < snd i) \<noteq> (lat < snd j) \<and> lon < (fst j - fst i) * (lat - snd i) / (snd j - snd i) + fst i"

fun ring_loop :: "real \<Rightarrow> real \<Rightarrow> pos \<Rightarrow> pos list \<Rightarrow> bool \<Rightarrow> bool" where
  \<comment> \<open>with the point before\<close>
  "ring_loop lon lat j [] ins = ins"
| "ring_loop lon lat j (i # is) ins = ring_loop lon lat i is (if crosses lon lat i j then \<not> ins else ins)"

definition territoryPointInRing :: "ring \<Rightarrow> real \<Rightarrow> real \<Rightarrow> bool" where
  "territoryPointInRing ring lon lat = (ring \<noteq> [] \<and> ring_loop lon lat (last ring) ring False)"

definition territoryPolygonContains :: "ring list \<Rightarrow> real \<Rightarrow> real \<Rightarrow> bool" where
  "territoryPolygonContains rings lon lat \<longleftrightarrow>
     (case rings of [] \<Rightarrow> False
      | outer # holes \<Rightarrow> territoryPointInRing outer lon lat \<and> list_all (\<lambda>h. \<not> territoryPointInRing h lon lat) holes)"

fun territoryGeometryContains :: "territory_geometry \<Rightarrow> real \<Rightarrow> real \<Rightarrow> bool" where
  "territoryGeometryContains (Polygon rings) lon lat = territoryPolygonContains rings lon lat"
| "territoryGeometryContains (MultiPolygon ps) lon lat = list_ex (\<lambda>p. territoryPolygonContains p lon lat) ps"
| "territoryGeometryContains _ lon lat = False"

definition id_text :: "territory \<Rightarrow> jstr" where
  "id_text t = (case territory_id t of Some s \<Rightarrow> s | None \<Rightarrow> [])"

fun first_least :: "(jstr \<Rightarrow> jstr \<Rightarrow> int) \<Rightarrow> territory \<Rightarrow> territory list \<Rightarrow> territory" where
  \<comment> \<open>the first element of the sorted list\<close>
  "first_least cmp t [] = t"
| "first_least cmp t (u # us) = first_least cmp (if cmp (id_text u) (id_text t) < 0 then u else t) us"

definition territoryFindFeature :: "(jstr \<Rightarrow> jstr \<Rightarrow> int) \<Rightarrow> territory list \<Rightarrow> real \<Rightarrow> real \<Rightarrow> territory option" where
  "territoryFindFeature cmp ts lat lon =
     (case filter (\<lambda>t. territoryGeometryContains (tgeometry t) lon lat) ts of
        [] \<Rightarrow> None | t # us \<Rightarrow> Some (first_least cmp t us))"

section \<open>Paths\<close>

definition territoryHaversineMeters :: "pos \<Rightarrow> pos \<Rightarrow> real" where
  \<comment> \<open>of points with longitude and latitude\<close>
  "territoryHaversineMeters p q =
     (let a = (sin ((snd q - snd p) * pi / 180 / 2))\<^sup>2
            + cos (snd p * pi / 180) * cos (snd q * pi / 180) * (sin ((fst q - fst p) * pi / 180 / 2))\<^sup>2
      in 2 * 6371000 * atan2 (sqrt a) (sqrt (1 - a)))"

record passage =
  passed :: jstr
  entered_at_km :: real
  left_at_km :: real

definition id_at :: "(jstr \<Rightarrow> jstr \<Rightarrow> int) \<Rightarrow> territory list \<Rightarrow> pos \<Rightarrow> jstr" where
  "id_at cmp ts p = (case territoryFindFeature cmp ts (snd p) (fst p) of Some t \<Rightarrow> id_text t | None \<Rightarrow> [])"

fun events_loop :: "(pos \<Rightarrow> jstr) \<Rightarrow> pos option \<Rightarrow> real \<Rightarrow> (jstr \<times> real) option \<Rightarrow> pos list \<Rightarrow> passage list \<Rightarrow> passage list" where
  "events_loop idf prev km cur [] events =
     (case cur of Some (i, e) \<Rightarrow> events @ [\<lparr>passed = i, entered_at_km = e, left_at_km = km\<rparr>] | None \<Rightarrow> events)"
| "events_loop idf prev km cur (p # ps) events =
     (let km = (case prev of Some q \<Rightarrow> km + territoryHaversineMeters q p / 1000 | None \<Rightarrow> km); i = idf p
      in case cur of
           None \<Rightarrow> events_loop idf (Some p) km (if i = [] then None else Some (i, km)) ps events
         | Some (c, e) \<Rightarrow>
             if i = [] then events_loop idf (Some p) km None ps (events @ [\<lparr>passed = c, entered_at_km = e, left_at_km = km\<rparr>])
             else if c \<noteq> i then events_loop idf (Some p) km (Some (i, km)) ps (events @ [\<lparr>passed = c, entered_at_km = e, left_at_km = km\<rparr>])
             else events_loop idf (Some p) km cur ps events)"

definition territoryEventsForPath :: "(jstr \<Rightarrow> jstr \<Rightarrow> int) \<Rightarrow> territory list \<Rightarrow> pos list \<Rightarrow> passage list" where
  "territoryEventsForPath cmp ts route = events_loop (id_at cmp ts) None 0 None route []"

section \<open>The colour hash loses nothing\<close>

lemma xorshift_inj:
  fixes x y :: "32 word"
  assumes "x XOR drop_bit n x = y XOR drop_bit n y" "0 < n"
  shows "x = y"
proof -
  have top: "\<forall>i\<ge>32 - k. bit x i \<longleftrightarrow> bit y i" if "k \<le> 32" for k
    using that
  proof (induction k)
    case 0
    then show ?case by (auto simp: not_le dest: bit_imp_le_length)
  next
    case (Suc k)
    have "bit x i \<longleftrightarrow> bit y i" if "32 - Suc k \<le> i" for i
    proof (cases "32 - k \<le> i")
      case False
      then have i: "i = 32 - Suc k" "i < 32" using that Suc.prems by auto
      then have "32 - k \<le> n + i" using assms(2) Suc.prems by auto
      then have "bit x (n + i) \<longleftrightarrow> bit y (n + i)" using Suc by simp
      moreover have "bit (x XOR drop_bit n x) i \<longleftrightarrow> bit (y XOR drop_bit n y) i" using assms(1) by simp
      ultimately show ?thesis by (auto simp: bit_simps)
    qed (use Suc in simp)
    then show ?case by blast
  qed
  show ?thesis by (rule bit_eqI) (use top [of 32] in simp)
qed

lemma times_odd_inj:
  fixes a b m k :: "32 word"
  assumes "m * k = 1" "a * m = b * m"
  shows "a = b"
proof -
  have "a * (m * k) = b * (m * k)" using assms(2) by (simp only: mult.assoc [symmetric])
  then show ?thesis by (simp add: assms(1))
qed

lemma finalize_inj: "finalize x = finalize y \<Longrightarrow> x = y"
proof -
  assume "finalize x = finalize y"
  then have "((x XOR drop_bit 16 x) * 2246822507 XOR drop_bit 13 ((x XOR drop_bit 16 x) * 2246822507)) * 3266489909
    = ((y XOR drop_bit 16 y) * 2246822507 XOR drop_bit 13 ((y XOR drop_bit 16 y) * 2246822507)) * (3266489909 :: 32 word)"
    unfolding finalize_def Let_def by (rule xorshift_inj) simp
  then have "(x XOR drop_bit 16 x) * 2246822507 XOR drop_bit 13 ((x XOR drop_bit 16 x) * 2246822507)
    = (y XOR drop_bit 16 y) * 2246822507 XOR drop_bit 13 ((y XOR drop_bit 16 y) * (2246822507 :: 32 word))"
    by (rule times_odd_inj [of _ 2127672349, rotated]) simp
  then have "(x XOR drop_bit 16 x) * 2246822507 = (y XOR drop_bit 16 y) * (2246822507 :: 32 word)"
    by (rule xorshift_inj) simp
  then have "x XOR drop_bit 16 x = y XOR drop_bit 16 y"
    by (rule times_odd_inj [of _ 2781581891, rotated]) simp
  then show "x = y" by (rule xorshift_inj) simp
qed

lemma hash_snoc: "hash_text (s @ [c]) = hash_text s * 31 + ucast c"
  by (simp add: hash_text_def)

text \<open>The names of zones that differ in their last character only never have the same hash.\<close>

lemma hash_last: "hash_text (s @ [c]) = hash_text (s @ [d]) \<longleftrightarrow> c = d"
proof -
  have u: "bit w n = bit (ucast w :: 32 word) n" if "n < 16" for w :: "16 word" and n using that by (simp add: bit_simps)
  have "ucast c = (ucast d :: 32 word) \<longleftrightarrow> c = d"
  proof
    assume "ucast c = (ucast d :: 32 word)"
    then show "c = d" by (intro bit_word_eqI) (simp add: u)
  qed simp
  then show ?thesis by (simp add: hash_snoc)
qed

lemma neighbours_differ: "finalize (hash_text (s @ [c])) = finalize (hash_text (s @ [d])) \<longleftrightarrow> c = d"
  using finalize_inj hash_last by blast

section \<open>Distances\<close>

lemma atan2_unit: "0 \<le> a \<Longrightarrow> a \<le> 1 \<Longrightarrow> atan2 (sqrt a) (sqrt (1 - a)) = arcsin (sqrt a)"
proof -
  assume a: "0 \<le> a" "a \<le> 1"
  have "atan2 (sqrt a) (sqrt (1 - a)) = arccos (sqrt (1 - a))" using a by (auto simp: atan2_def)
  moreover have s: "- 1 \<le> sqrt a" "sqrt a \<le> 1" using a by (auto intro: order_trans [of "- 1" 0])
  moreover have "cos (arcsin (sqrt a)) = sqrt (1 - a)" using a s by (subst cos_arcsin) auto
  moreover have "0 \<le> arcsin (sqrt a)" using a arcsin_le_arcsin [of 0 "sqrt a"] by simp
  moreover have "arcsin (sqrt a) \<le> pi" using arcsin_bounded [OF s] pi_ge_zero by linarith
  ultimately show ?thesis using arccos_cos [of "arcsin (sqrt a)"] by simp
qed

lemma quarter: "4 * h = c \<Longrightarrow> 0 \<le> c \<Longrightarrow> c \<le> 4 \<Longrightarrow> 0 \<le> h \<and> h \<le> (1 :: real)"
  by linarith

lemma haversine_distance: "territoryHaversineMeters p q = distance p q * (6371000 / R)"
proof -
  let ?h = "(sin ((snd q - snd p) * rad / 2))\<^sup>2 + cos (snd p * rad) * cos (snd q * rad) * (sin ((fst q - fst p) * rad / 2))\<^sup>2"
  have "4 * ?h = chord2 (on_sphere p) (on_sphere q)"
    using chord_haversine [of "snd q * rad" "snd p * rad" "fst q * rad" "fst p * rad"] by (simp add: on_sphere_def algebra_simps)
  moreover have "0 \<le> chord2 (on_sphere p) (on_sphere q)" by (cases "on_sphere p"; cases "on_sphere q") simp
  ultimately have h: "0 \<le> ?h \<and> ?h \<le> 1" using chord_at_most [of p q] by (rule quarter)
  have "territoryHaversineMeters p q = 2 * 6371000 * atan2 (sqrt ?h) (sqrt (1 - ?h))"
    by (simp add: territoryHaversineMeters_def rad_def Let_def)
  moreover have "atan2 (sqrt ?h) (sqrt (1 - ?h)) = arcsin (sqrt ?h)" using h by (intro atan2_unit) simp_all
  moreover have "min 1 ?h = ?h" using h by linarith
  moreover have "distance p q = 2 * R * arcsin (sqrt (min 1 ?h))" by (simp only: distance_def Let_def)
  ultimately show ?thesis by simp
qed

lemma haversine_nonneg: "0 \<le> territoryHaversineMeters p q"
  using distance_range [of p q] by (simp add: haversine_distance)

section \<open>Territories along a path\<close>

fun stations :: "pos option \<Rightarrow> real \<Rightarrow> pos list \<Rightarrow> (pos \<times> real) list" where
  \<comment> \<open>the points with the kilometres up to them\<close>
  "stations prev km [] = []"
| "stations prev km (p # ps) =
     (let km = (case prev of Some q \<Rightarrow> km + territoryHaversineMeters q p / 1000 | None \<Rightarrow> km) in (p, km) # stations (Some p) km ps)"

fun left_of :: "real \<Rightarrow> jstr \<Rightarrow> (jstr \<times> real) list \<Rightarrow> real" where
  \<comment> \<open>where the run ends: at the first point after it, or at its last point\<close>
  "left_of km i [] = km"
| "left_of km i ((j, k) # xs) = (if j = i then left_of k i xs else k)"

function passages :: "(jstr \<times> real) list \<Rightarrow> passage list" where
  \<comment> \<open>one passage for each longest run of points in the same territory\<close>
  "passages [] = []"
| "passages ((i, k) # xs) =
     (if i = [] then passages xs
      else \<lparr>passed = i, entered_at_km = k, left_at_km = left_of k i xs\<rparr> # passages (dropWhile (\<lambda>x. fst x = i) xs))"
  by pat_completeness auto
termination by (relation "measure length") (auto intro: le_imp_less_Suc length_dropWhile_le)

lemma left_of_after: "dropWhile (\<lambda>x. fst x = i) xs = y # ys \<Longrightarrow> left_of k i xs = snd y"
  by (induction k i xs rule: left_of.induct) (auto split: if_splits)

lemma left_of_ge: "\<forall>x\<in>set xs. k \<le> snd x \<Longrightarrow> k \<le> m \<Longrightarrow> k \<le> left_of m i xs"
  by (induction m i xs rule: left_of.induct) auto

fun run_loop :: "real \<Rightarrow> (jstr \<times> real) option \<Rightarrow> (jstr \<times> real) list \<Rightarrow> passage list" where
  "run_loop km cur [] = (case cur of Some (i, e) \<Rightarrow> [\<lparr>passed = i, entered_at_km = e, left_at_km = km\<rparr>] | None \<Rightarrow> [])"
| "run_loop km cur ((i, k) # xs) =
     (case cur of
        None \<Rightarrow> run_loop k (if i = [] then None else Some (i, k)) xs
      | Some (c, e) \<Rightarrow>
          if c = i then run_loop k cur xs
          else \<lparr>passed = c, entered_at_km = e, left_at_km = k\<rparr> # run_loop k (if i = [] then None else Some (i, k)) xs)"

lemma events_loop_runs:
  assumes "\<forall>i e. cur = Some (i, e) \<longrightarrow> i \<noteq> []"
  shows "events_loop idf prev km cur ps events = events @ run_loop km cur (map (\<lambda>(p, k). (idf p, k)) (stations prev km ps))"
  using assms
proof (induction ps arbitrary: prev km cur events)
  case (Cons p ps)
  then show ?case by (cases cur) (auto simp: Let_def)
qed (simp split: option.split)

lemma run_loop_passages:
  "run_loop km None xs = passages xs
   \<and> (\<forall>i e. i \<noteq> [] \<longrightarrow> run_loop km (Some (i, e)) xs =
        \<lparr>passed = i, entered_at_km = e, left_at_km = left_of km i xs\<rparr> # passages (dropWhile (\<lambda>x. fst x = i) xs))"
proof (induction xs arbitrary: km)
  case (Cons x xs)
  obtain i k where x: "x = (i, k)" by (cases x)
  note none = conjunct1 [OF Cons.IH] and some = conjunct2 [OF Cons.IH, rule_format]
  show ?case unfolding x by (auto simp: none some)
qed simp

definition km_at :: "pos option \<Rightarrow> real \<Rightarrow> pos \<Rightarrow> real" where
  "km_at prev km p = (case prev of Some q \<Rightarrow> km + territoryHaversineMeters q p / 1000 | None \<Rightarrow> km)"

lemma stations_Cons: "stations prev km (p # ps) = (p, km_at prev km p) # stations (Some p) (km_at prev km p) ps"
  by (simp add: km_at_def Let_def)

lemma km_at_ge: "km \<le> km_at prev km p"
  using haversine_nonneg by (simp add: km_at_def split: option.split)

lemma stations_ge: "x \<in> set (stations prev km ps) \<Longrightarrow> km \<le> snd x"
proof (induction ps arbitrary: prev km)
  case (Cons p ps)
  then show ?case using km_at_ge [of km prev p] by (fastforce simp: stations_Cons simp del: stations.simps)
qed simp

lemma stations_sorted: "sorted (map snd (stations prev km ps))"
proof (induction ps arbitrary: prev km)
  case (Cons p ps)
  then show ?case using stations_ge by (auto simp: stations_Cons simp del: stations.simps)
qed simp

lemma passages_ordered:
  assumes "sorted (map snd xs)"
  shows "(\<forall>e\<in>set (passages xs). passed e \<noteq> [] \<and> entered_at_km e \<le> left_at_km e \<and> (passed e, entered_at_km e) \<in> set xs)
    \<and> sorted_wrt (\<lambda>a b. left_at_km a \<le> entered_at_km b) (passages xs)"
  using assms
proof (induction xs rule: passages.induct)
  case (2 i k xs)
  let ?ys = "dropWhile (\<lambda>x. fst x = i) xs"
  have sub: "set ?ys \<subseteq> set xs" by (meson set_dropWhileD subsetI)
  have srt: "sorted (map snd ?ys)"
    using 2(3) by (metis dropWhile_eq_drop drop_map list.simps(9) sorted_simps(2) sorted_wrt_drop)
  show ?case
  proof (cases "i = []")
    case True
    have "sorted (map snd xs)" using 2(3) by simp
    note ih = 2(1) [OF True this]
    show ?thesis using True ih by auto
  next
    case False
    note ih = 2(2) [OF False srt]
    have k: "\<forall>x\<in>set xs. k \<le> snd x" using 2(3) by auto
    have "left_of k i xs \<le> entered_at_km e" if "e \<in> set (passages ?ys)" for e
    proof (cases ?ys)
      case (Cons y ys)
      have "(passed e, entered_at_km e) \<in> set ?ys" using ih that by blast
      then have "snd y \<le> entered_at_km e" using srt Cons by auto
      then show ?thesis using left_of_after [OF Cons] by simp
    next
      case Nil
      show ?thesis using that unfolding Nil by simp
    qed
    then show ?thesis using False ih left_of_ge [OF k order_refl] sub by auto
  qed
qed simp

text \<open>The list of territories of a route is exact: it has one passage for each longest run of points that lie
  in the same territory, from the kilometre of its first point to that of the first point after it; the
  passages follow one another along the route without overlapping, and none is empty or turned round.\<close>

theorem territory_passages:
  "territoryEventsForPath cmp ts route = passages (map (\<lambda>(p, k). (id_at cmp ts p, k)) (stations None 0 route))
   \<and> list_all (\<lambda>e. passed e \<noteq> [] \<and> 0 \<le> entered_at_km e \<and> entered_at_km e \<le> left_at_km e) (territoryEventsForPath cmp ts route)
   \<and> sorted_wrt (\<lambda>a b. left_at_km a \<le> entered_at_km b) (territoryEventsForPath cmp ts route)"
proof -
  let ?xs = "map (\<lambda>(p, k). (id_at cmp ts p, k)) (stations None 0 route)"
  have e: "territoryEventsForPath cmp ts route = passages ?xs"
    using run_loop_passages [of 0 ?xs] by (simp add: territoryEventsForPath_def events_loop_runs)
  have s: "map snd ?xs = map snd (stations None 0 route)" by (simp add: comp_def case_prod_unfold)
  have "sorted (map snd ?xs)" unfolding s by (rule stations_sorted)
  note o = passages_ordered [OF this]
  have "0 \<le> snd x" if "x \<in> set ?xs" for x using that stations_ge [of _ None 0 route] by auto
  then have "0 \<le> entered_at_km ev" if "ev \<in> set (passages ?xs)" for ev using o that by fastforce
  then show ?thesis using e o by (simp add: list_all_iff)
qed

section \<open>The territory of a place\<close>

lemma first_least_least:
  assumes trans: "\<And>a b c. cmp a b \<le> 0 \<Longrightarrow> cmp b c \<le> 0 \<Longrightarrow> cmp a c \<le> 0" and anti: "\<And>a b. cmp a b \<le> 0 \<longleftrightarrow> \<not> cmp b a < (0 :: int)"
  shows "first_least cmp t us \<in> set (t # us) \<and> (\<forall>u\<in>set (t # us). cmp (id_text (first_least cmp t us)) (id_text u) \<le> 0)"
proof (induction us arbitrary: t)
  have refl: "cmp a a \<le> 0" for a using anti [of a a] by linarith
  {
    case Nil
    show ?case using refl by simp
  next
    case (Cons u us)
    let ?v = "if cmp (id_text u) (id_text t) < 0 then u else t"
    have v: "cmp (id_text ?v) (id_text t) \<le> 0" "cmp (id_text ?v) (id_text u) \<le> 0"
      using refl anti [of "id_text t" "id_text u"] by (simp_all split: if_split)
    let ?w = "first_least cmp ?v us"
    have w: "?w \<in> set (?v # us)" "\<forall>u\<in>set (?v # us). cmp (id_text ?w) (id_text u) \<le> 0" using Cons [of ?v] by simp_all
    have wv: "cmp (id_text ?w) (id_text ?v) \<le> 0" using w(2) by (simp only: list.set_intros)
    have "cmp (id_text ?w) (id_text x) \<le> 0" if x: "x \<in> set (t # u # us)" for x
    proof (cases "x \<in> set us")
      case True
      then show ?thesis using w(2) by (simp only: list.set_intros)
    next
      case False
      then have "x = t \<or> x = u" using x by simp
      then show ?thesis using trans [OF wv v(1)] trans [OF wv v(2)] by blast
    qed
    moreover have "?v \<in> {t, u}" by (simp split: if_split)
    then have "?w \<in> set (t # u # us)" using w(1) by (auto split: if_splits)
    ultimately show ?case by (simp only: first_least.simps) blast
  }
qed

lemma found_territory:
  assumes "\<And>a b c. cmp a b \<le> 0 \<Longrightarrow> cmp b c \<le> 0 \<Longrightarrow> cmp a c \<le> 0" "\<And>a b. cmp a b \<le> 0 \<longleftrightarrow> \<not> cmp b a < (0 :: int)"
  shows "case territoryFindFeature cmp ts lat lon of
      None \<Rightarrow> \<forall>t\<in>set ts. \<not> territoryGeometryContains (tgeometry t) lon lat
    | Some t \<Rightarrow> t \<in> set ts \<and> territoryGeometryContains (tgeometry t) lon lat
        \<and> (\<forall>u\<in>set ts. territoryGeometryContains (tgeometry u) lon lat \<longrightarrow> cmp (id_text t) (id_text u) \<le> 0)"
proof (cases "filter (\<lambda>t. territoryGeometryContains (tgeometry t) lon lat) ts")
  case Nil
  then show ?thesis by (simp add: territoryFindFeature_def filter_empty_conv)
next
  case (Cons t us)
  have "set (t # us) = {t \<in> set ts. territoryGeometryContains (tgeometry t) lon lat}"
    unfolding Cons [symmetric] by auto
  then show ?thesis using first_least_least [of cmp t us, OF assms] Cons by (auto simp: territoryFindFeature_def)
qed

text \<open>Two zones whose names differ only in the last character never share their 32-bit colour hash, and the
  mixing at the end of the hash never makes two hashes equal; every hue is below 360.\<close>

theorem color_hash_distinct:
  "(finalize (hash_text (name @ [c])) = finalize (hash_text (name @ [d])) \<longleftrightarrow> c = d)
   \<and> (finalize h = finalize h' \<longleftrightarrow> h = h') \<and> territoryColor name < 360"
proof (intro conjI)
  show "finalize (hash_text (name @ [c])) = finalize (hash_text (name @ [d])) \<longleftrightarrow> c = d" by (rule neighbours_differ)
  show "finalize h = finalize h' \<longleftrightarrow> h = h'" using finalize_inj by blast
  show "territoryColor name < 360" by (simp add: territoryColor_def)
qed

end
