(* ===== verification/RouteFields.thy ===== *)
theory RouteFields
  imports Json
begin

text \<open>
  Points, search results and the two fields of a route (\<open>src/cmd/web/app.js\<close>). A field keeps, beside its
  text, the point that was chosen for it, and uses the point only as long as the text is the one it was
  chosen with. Also the texts of a search result.

  \<open>number\<close> is the conversion \<open>Number(v)\<close> and \<open>num\<close> the text of a number. A value of the server is a JSON
  value; one whose conversion to a string throws is \<open>None\<close> in \<open>js_string\<close>.
\<close>

section \<open>Points\<close>

type_synonym point = "real \<times> real"    \<comment> \<open>latitude, longitude\<close>

definition to_num :: "(js \<Rightarrow> jsnum) \<Rightarrow> js \<Rightarrow> jsnum" where
  "to_num number v = (case v of JNum n \<Rightarrow> n | _ \<Rightarrow> number v)"

definition normalizeLatLon :: "(js \<Rightarrow> jsnum) \<Rightarrow> js \<Rightarrow> js \<Rightarrow> point option" where
  "normalizeLatLon number lat lon =
     (case (to_num number lat, to_num number lon) of (Fin a, Fin b) \<Rightarrow> Some (a, b) | _ \<Rightarrow> None)"

definition SEARCH_COORD_PRECISION :: nat where "SEARCH_COORD_PRECISION = 6"

definition formatLatLon :: "(js \<Rightarrow> jsnum) \<Rightarrow> js \<Rightarrow> js \<Rightarrow> nat \<Rightarrow> jstr" where
  "formatLatLon number lat lon d =
     (case normalizeLatLon number lat lon of
        None \<Rightarrow> []
      | Some (a, b) \<Rightarrow> toFixed d a @ lit '','' @ toFixed d b)"

definition normalizeSearchResult :: "(js \<Rightarrow> jsnum) \<Rightarrow> js \<Rightarrow> js option" where
  "normalizeSearchResult number item =
     (if \<not> truthy item then None
      else case normalizeLatLon number (jget item ''lat'') (jget item ''lon'') of
             None \<Rightarrow> None
           | Some (a, b) \<Rightarrow>
               Some (jset (jset (JObj (entries_of item)) ''lat'' (JNum (Fin a))) ''lon'' (JNum (Fin b))))"

lemma normalizeLatLon_finite [simp]: "normalizeLatLon number (JNum (Fin a)) (JNum (Fin b)) = Some (a, b)"
  by (simp add: normalizeLatLon_def to_num_def)

section \<open>Search results\<close>

definition or_else :: "js \<Rightarrow> js \<Rightarrow> js" where
  \<comment> \<open>\<open>a || b\<close>\<close>
  "or_else a b = (if truthy a then a else b)"

definition dot :: jstr where "dot = [32, 0x2022, 32]"

definition join_dot :: "(real \<Rightarrow> jstr) \<Rightarrow> js list \<Rightarrow> jstr option" where
  \<comment> \<open>\<open>parts.join(sep)\<close> of parts that are not nullish\<close>
  "join_dot num vs = map_option (join_with dot) (those (map (js_string num) vs))"

definition tags_of :: "js \<Rightarrow> js" where
  "tags_of item = (if truthy item \<and> truthy (jget item ''tags'') then jget item ''tags'' else JObj [])"

definition getResultPrimary :: "js \<Rightarrow> js" where
  "getResultPrimary item =
     or_else (jget (tags_of item) ''name'') (or_else (jget (tags_of item) ''brand'')
       (or_else (jget (tags_of item) ''operator'') (or_else (jget item ''label'') (JStr []))))"

definition getResultSecondary :: "(real \<Rightarrow> jstr) \<Rightarrow> js \<Rightarrow> jstr option" where
  "getResultSecondary num item =
     (let parts = filter truthy (map (jget item) [''subtitle'', ''match''])
      in if parts \<noteq> [] then join_dot num parts
         else join_dot num (filter truthy (map (jget (tags_of item)) [''shop'', ''amenity'', ''addr:street'', ''addr:city''])))"

definition getResultInputValue :: "js \<Rightarrow> js" where
  "getResultInputValue item = (if \<not> truthy item then JStr [] else or_else (jget item ''label'') (getResultPrimary item))"

definition resultCoordValue :: "(js \<Rightarrow> jsnum) \<Rightarrow> js \<Rightarrow> jstr" where
  "resultCoordValue number item = formatLatLon number (jget item ''lat'') (jget item ''lon'') SEARCH_COORD_PRECISION"

section \<open>The fields of a route\<close>

text \<open>What the page keeps with a field: its text and the three entries of its data set.\<close>

record field =
  shown :: jstr
  resolvedLat :: "jstr option"
  resolvedLon :: "jstr option"
  resolvedDisplay :: "jstr option"

datatype location = At real real | Query jstr

fun attr_js :: "jstr option \<Rightarrow> js" where
  "attr_js None = JUndef"
| "attr_js (Some s) = JStr s"

definition resolvedRoutePoint :: "(js \<Rightarrow> jsnum) \<Rightarrow> field \<Rightarrow> point option" where
  "resolvedRoutePoint number f =
     (let display = (case resolvedDisplay f of Some d \<Rightarrow> d | None \<Rightarrow> [])
      in if display = [] \<or> trim (shown f) \<noteq> display then None
         else normalizeLatLon number (attr_js (resolvedLat f)) (attr_js (resolvedLon f)))"

definition clearResolvedRoutePoint :: "field \<Rightarrow> field" where
  "clearResolvedRoutePoint f = f\<lparr>resolvedLat := None, resolvedLon := None, resolvedDisplay := None\<rparr>"

datatype field_err = NoString

text \<open>The functions that set a point return whether they did, beside the field.\<close>

definition setResolvedRoutePoint :: "(real \<Rightarrow> jstr) \<Rightarrow> (js \<Rightarrow> jsnum) \<Rightarrow> js \<Rightarrow> js \<Rightarrow> js \<Rightarrow> field \<Rightarrow> field_err + bool \<times> field" where
  "setResolvedRoutePoint num number lat lon label f =
     (case normalizeLatLon number lat lon of
        None \<Rightarrow> Inr (False, f)
      | Some (a, b) \<Rightarrow>
          (case (if truthy label then js_string num label
                 else Some (formatLatLon number (JNum (Fin a)) (JNum (Fin b)) SEARCH_COORD_PRECISION)) of
             None \<Rightarrow> Inl NoString
           | Some t \<Rightarrow> Inr (True, f\<lparr>shown := trim t, resolvedLat := Some (num a), resolvedLon := Some (num b),
                                   resolvedDisplay := Some (trim t)\<rparr>)))"

definition setResolvedRouteResponsePoint :: "(real \<Rightarrow> jstr) \<Rightarrow> (js \<Rightarrow> jsnum) \<Rightarrow> js \<Rightarrow> field \<Rightarrow> field_err + bool \<times> field" where
  "setResolvedRouteResponsePoint num number p f =
     (case normalizeLatLon number (jget p ''lat'') (jget p ''lon'') of
        None \<Rightarrow> Inr (False, f)
      | Some (a, b) \<Rightarrow>
          let same = (case resolvedRoutePoint number f of
                        Some (a', b') \<Rightarrow> \<bar>a' - a\<bar> < 1 / 10 ^ 7 \<and> \<bar>b' - b\<bar> < 1 / 10 ^ 7 | None \<Rightarrow> False);
              label = (if same then JStr (trim (shown f)) else or_else (jget p ''label'') (JStr (shown f)))
          in setResolvedRoutePoint num number (JNum (Fin a)) (JNum (Fin b)) label f)"

definition setResolvedSearchResult :: "(real \<Rightarrow> jstr) \<Rightarrow> (js \<Rightarrow> jsnum) \<Rightarrow> js \<Rightarrow> field \<Rightarrow> field_err + bool \<times> field" where
  "setResolvedSearchResult num number r f =
     (case normalizeSearchResult number r of
        None \<Rightarrow> Inr (False, f)
      | Some n \<Rightarrow> setResolvedRoutePoint num number (jget n ''lat'') (jget n ''lon'')
                    (or_else (getResultInputValue n) (JStr (resultCoordValue number n))) f)"

definition applySearchResultToInput :: "(real \<Rightarrow> jstr) \<Rightarrow> (js \<Rightarrow> jsnum) \<Rightarrow> bool \<Rightarrow> js \<Rightarrow> field \<Rightarrow> field_err + bool \<times> field" where
  \<comment> \<open>\<open>endpoint\<close>: the field is the start or the destination, not a stop on the way\<close>
  "applySearchResultToInput num number endpoint r f =
     (if endpoint then setResolvedSearchResult num number r f
      else let v = resultCoordValue number r
           in Inr (if v = [] then (False, f) else (True, f\<lparr>shown := v\<rparr>)))"

definition routeLocationForInput :: "(js \<Rightarrow> jsnum) \<Rightarrow> field \<Rightarrow> location" where
  "routeLocationForInput number f =
     (case resolvedRoutePoint number f of Some (a, b) \<Rightarrow> At a b | None \<Rightarrow> Query (trim (shown f)))"

fun routeLocationHasValue :: "location \<Rightarrow> bool" where
  "routeLocationHasValue (Query q) = (q \<noteq> [])"
| "routeLocationHasValue (At a b) = True"

definition typed :: "jstr \<Rightarrow> field \<Rightarrow> field" where
  \<comment> \<open>the user changes the text: the listener on \<open>input\<close>; an empty text is also the button that clears the field\<close>
  "typed s f = clearResolvedRoutePoint (f\<lparr>shown := s\<rparr>)"

definition assigned :: "jstr \<Rightarrow> field \<Rightarrow> field" where
  \<comment> \<open>the agent writes the text, without an event\<close>
  "assigned s f = f\<lparr>shown := s\<rparr>"

definition setStopAsDestination :: "(js \<Rightarrow> jsnum) \<Rightarrow> js \<Rightarrow> js \<Rightarrow> field \<Rightarrow> field" where
  "setStopAsDestination number lat lon f =
     (let v = formatLatLon number lat lon SEARCH_COORD_PRECISION
      in if v = [] then f else (clearResolvedRoutePoint f)\<lparr>shown := v\<rparr>)"

section \<open>What a field sends\<close>

text \<open>Everything that happens to the field of the start or the destination. A step that throws leaves the
  field as it is.\<close>

datatype field_event =
    Typed jstr
  | Assigned jstr
  | Marker js js
  | Located js js js          \<comment> \<open>a point of the map or of GPS, with its label\<close>
  | Chosen js                 \<comment> \<open>a result of the search\<close>
  | Responded js              \<comment> \<open>the end of a route the server has found\<close>

definition taken :: "field \<Rightarrow> field_err + bool \<times> field \<Rightarrow> field" where
  "taken f r = (case r of Inl _ \<Rightarrow> f | Inr (_, f') \<Rightarrow> f')"

fun field_step :: "(real \<Rightarrow> jstr) \<Rightarrow> (js \<Rightarrow> jsnum) \<Rightarrow> field_event \<Rightarrow> field \<Rightarrow> field" where
  "field_step num number (Typed s) f = typed s f"
| "field_step num number (Assigned s) f = assigned s f"
| "field_step num number (Marker lat lon) f = setStopAsDestination number lat lon f"
| "field_step num number (Located lat lon label) f = taken f (setResolvedRoutePoint num number lat lon label f)"
| "field_step num number (Chosen r) f = taken f (setResolvedSearchResult num number r f)"
| "field_step num number (Responded p) f = taken f (setResolvedRouteResponsePoint num number p f)"

definition empty_field :: field where
  "empty_field = \<lparr>shown = [], resolvedLat = None, resolvedLon = None, resolvedDisplay = None\<rparr>"

text \<open>The specification has no data set and no conversions: a text, and the point chosen last with its label.
  \<open>pick\<close> takes a point under the first of some labels that is not empty.\<close>

type_synonym choice = "jstr \<times> (point \<times> jstr) option"

fun pick :: "(real \<Rightarrow> jstr) \<Rightarrow> point \<Rightarrow> js list \<Rightarrow> choice \<Rightarrow> choice" where
  "pick num p labels c =
     (case find truthy labels of
        None \<Rightarrow> c
      | Some l \<Rightarrow> (case js_string num l of None \<Rightarrow> c | Some t \<Rightarrow> (trim t, Some (p, trim t))))"

fun holds :: "choice \<Rightarrow> point option" where
  "holds (t, None) = None"
| "holds (t, Some (p, d)) = (if d \<noteq> [] \<and> trim t = d then Some p else None)"

definition coords :: "point \<Rightarrow> jstr" where
  "coords p = toFixed 6 (fst p) @ lit '','' @ toFixed 6 (snd p)"

definition near :: "point \<Rightarrow> point \<Rightarrow> bool" where
  "near p q \<longleftrightarrow> \<bar>fst p - fst q\<bar> < 1 / 10 ^ 7 \<and> \<bar>snd p - snd q\<bar> < 1 / 10 ^ 7"

fun choice_step :: "(real \<Rightarrow> jstr) \<Rightarrow> (js \<Rightarrow> jsnum) \<Rightarrow> field_event \<Rightarrow> choice \<Rightarrow> choice" where
  "choice_step num number (Typed s) (t, h) = (s, None)"
| "choice_step num number (Assigned s) (t, h) = (s, h)"
| "choice_step num number (Marker lat lon) (t, h) =
     (case normalizeLatLon number lat lon of None \<Rightarrow> (t, h) | Some p \<Rightarrow> (coords p, None))"
| "choice_step num number (Located lat lon label) (t, h) =
     (case normalizeLatLon number lat lon of None \<Rightarrow> (t, h) | Some p \<Rightarrow> pick num p [label, JStr (coords p)] (t, h))"
| "choice_step num number (Chosen r) (t, h) =
     (case normalizeLatLon number (jget r ''lat'') (jget r ''lon'') of
        None \<Rightarrow> (t, h)
      | Some p \<Rightarrow> pick num p (jget r ''label'' # map (jget (tags_of r)) [''name'', ''brand'', ''operator''] @ [JStr (coords p)]) (t, h))"
| "choice_step num number (Responded r) (t, h) =
     (case normalizeLatLon number (jget r ''lat'') (jget r ''lon'') of
        None \<Rightarrow> (t, h)
      | Some p \<Rightarrow>
          pick num p ((case holds (t, h) of Some q \<Rightarrow> (if near q p then [JStr (trim t)] else [jget r ''label'', JStr t])
                       | None \<Rightarrow> [jget r ''label'', JStr t]) @ [JStr (coords p)]) (t, h))"

definition location_of :: "choice \<Rightarrow> location" where
  "location_of c = (case holds c of Some (a, b) \<Rightarrow> At a b | None \<Rightarrow> Query (trim (fst c)))"

text \<open>\<open>Number(String(x))\<close> is \<open>x\<close> for both coordinates, as it is for every number of JavaScript; required of the
  points that events bring.\<close>

definition reads_back :: "(real \<Rightarrow> jstr) \<Rightarrow> (js \<Rightarrow> jsnum) \<Rightarrow> point \<Rightarrow> bool" where
  "reads_back num number p \<longleftrightarrow>
     number (JStr (num (fst p))) = Fin (fst p) \<and> number (JStr (num (snd p))) = Fin (snd p)"

fun offers :: "(js \<Rightarrow> jsnum) \<Rightarrow> field_event \<Rightarrow> point option" where
  "offers number (Located lat lon label) = normalizeLatLon number lat lon"
| "offers number (Chosen r) = normalizeLatLon number (jget r ''lat'') (jget r ''lon'')"
| "offers number (Responded r) = normalizeLatLon number (jget r ''lat'') (jget r ''lon'')"
| "offers number _ = None"

definition readable :: "(real \<Rightarrow> jstr) \<Rightarrow> (js \<Rightarrow> jsnum) \<Rightarrow> field_event \<Rightarrow> bool" where
  "readable num number ev = (case offers number ev of Some p \<Rightarrow> reads_back num number p | None \<Rightarrow> True)"

definition choice_ok :: "(real \<Rightarrow> jstr) \<Rightarrow> (js \<Rightarrow> jsnum) \<Rightarrow> choice \<Rightarrow> bool" where
  "choice_ok num number c = (case snd c of Some (p, d) \<Rightarrow> reads_back num number p | None \<Rightarrow> True)"

definition field_of :: "(real \<Rightarrow> jstr) \<Rightarrow> choice \<Rightarrow> field" where
  "field_of num c = (case snd c of
     None \<Rightarrow> \<lparr>shown = fst c, resolvedLat = None, resolvedLon = None, resolvedDisplay = None\<rparr>
   | Some (p, d) \<Rightarrow> \<lparr>shown = fst c, resolvedLat = Some (num (fst p)), resolvedLon = Some (num (snd p)), resolvedDisplay = Some d\<rparr>)"

lemma resolved_field_of:
  assumes "choice_ok num number c"
  shows "resolvedRoutePoint number (field_of num c) = holds c"
proof -
  have "normalizeLatLon number (JStr (num (fst p))) (JStr (num (snd p))) = Some p" if "reads_back num number p" for p
    using that by (simp add: normalizeLatLon_def to_num_def reads_back_def)
  then show ?thesis
    using assms by (cases c rule: holds.cases) (auto simp: resolvedRoutePoint_def field_of_def choice_ok_def Let_def split: prod.splits)
qed

lemma pick_choice_ok: "choice_ok num number c \<Longrightarrow> reads_back num number p \<Longrightarrow> choice_ok num number (pick num p ls c)"
  by (auto simp: choice_ok_def split: option.split)

lemma choice_step_ok: "choice_ok num number c \<Longrightarrow> readable num number ev \<Longrightarrow> choice_ok num number (choice_step num number ev c)"
  by (cases c; cases ev)
    (auto simp: readable_def pick_choice_ok simp del: pick.simps holds.simps split: option.split,
     auto simp: choice_ok_def)

lemma formatLatLon_coords: "formatLatLon number lat lon 6 = (case normalizeLatLon number lat lon of None \<Rightarrow> [] | Some p \<Rightarrow> coords p)"
  by (auto simp: formatLatLon_def coords_def split: option.split)

lemma coords_nonempty [simp]: "coords p \<noteq> []"
  by (simp add: coords_def)

lemma set_point:
  "taken (field_of num c) (setResolvedRoutePoint num number lat lon label (field_of num c)) =
     field_of num (case normalizeLatLon number lat lon of None \<Rightarrow> c | Some p \<Rightarrow> pick num p [label, JStr (coords p)] c)"
  by (cases c)
    (auto simp: setResolvedRoutePoint_def taken_def field_of_def formatLatLon_coords SEARCH_COORD_PRECISION_def
      split: option.split prod.split)

lemma normalized_result:
  assumes "normalizeSearchResult number r = Some n"
  shows "normalizeLatLon number (jget r ''lat'') (jget r ''lon'') = normalizeLatLon number (jget n ''lat'') (jget n ''lon'')"
    "jget n ''label'' = jget r ''label''" "tags_of n = tags_of r" "truthy n"
proof -
  obtain a b where ab: "normalizeLatLon number (jget r ''lat'') (jget r ''lon'') = Some (a, b)" "truthy r"
    and n: "n = jset (jset (JObj (entries_of r)) ''lat'' (JNum (Fin a))) ''lon'' (JNum (Fin b))"
    using assms unfolding normalizeSearchResult_def by (auto split: if_splits option.splits)
  have obj: "is_object (jset (JObj (entries_of r)) ''lat'' (JNum (Fin a)))" "is_object (JObj (entries_of r))"
    by simp_all
  have other: "jget (JObj (entries_of r)) k = jget r k" for k by (cases r) auto
  have get: "jget n k = (if k = ''lon'' then JNum (Fin b) else if k = ''lat'' then JNum (Fin a) else jget r k)" for k
    unfolding n by (simp only: jget_jset [OF obj(1)] jget_jset [OF obj(2)] other)
  show "normalizeLatLon number (jget r ''lat'') (jget r ''lon'') = normalizeLatLon number (jget n ''lat'') (jget n ''lon'')"
    by (simp add: ab get)
  show "truthy n" by (simp add: n)
  then show "tags_of n = tags_of r" by (simp add: tags_of_def ab get)
  show "jget n ''label'' = jget r ''label''" by (simp add: get)
qed

lemma field_step_refines:
  assumes "choice_ok num number c" "number JUndef = NaN"
  shows "field_step num number ev (field_of num c) = field_of num (choice_step num number ev c)"
proof (cases ev)
  case (Chosen r)
  show ?thesis
  proof (cases "normalizeSearchResult number r")
    case None
    have "normalizeLatLon number (jget r ''lat'') (jget r ''lon'') = None"
    proof (cases "truthy r")
      case False
      then have "jget r k = JUndef" for k by (cases r) auto
      then show ?thesis using assms by (simp add: normalizeLatLon_def to_num_def)
    qed (use None in \<open>auto simp: normalizeSearchResult_def split: option.splits\<close>)
    with None Chosen show ?thesis
      by (cases c) (simp add: setResolvedSearchResult_def taken_def)
  next
    case (Some n)
    note n = normalized_result [OF Some]
    obtain p where p: "normalizeLatLon number (jget n ''lat'') (jget n ''lon'') = Some p"
      using Some n(1) by (auto simp: normalizeSearchResult_def split: if_splits option.splits)
    have "or_else (getResultInputValue n) (JStr (resultCoordValue number n)) =
        or_else (jget r ''label'') (or_else (jget (tags_of r) ''name'') (or_else (jget (tags_of r) ''brand'')
          (or_else (jget (tags_of r) ''operator'') (JStr (coords p)))))"
      using n p by (simp add: getResultInputValue_def getResultPrimary_def resultCoordValue_def
          formatLatLon_coords SEARCH_COORD_PRECISION_def or_else_def)
    with Some Chosen p n(1) show ?thesis
      by (cases c) (simp add: setResolvedSearchResult_def set_point or_else_def)
  qed
next
  case (Responded r)
  let ?label = "jget r ''label''"
  have st: "choice_step num number (Responded r) c =
      (case normalizeLatLon number (jget r ''lat'') (jget r ''lon'') of
         None \<Rightarrow> c
       | Some p \<Rightarrow> pick num p ((case holds c of Some q \<Rightarrow> (if near q p then [JStr (trim (fst c))] else [?label, JStr (fst c)])
                      | None \<Rightarrow> [?label, JStr (fst c)]) @ [JStr (coords p)]) c)"
    by (cases c) (simp del: pick.simps holds.simps split: option.split)
  have words: "shown (field_of num c) = fst c" by (simp add: field_of_def split: option.split)
  show ?thesis
    unfolding Responded st
    by (cases "normalizeLatLon number (jget r ''lat'') (jget r ''lon'')"; cases "holds c")
      (simp_all add: setResolvedRouteResponsePoint_def taken_def Let_def resolved_field_of [OF assms(1)] words near_def
        or_else_def set_point [unfolded taken_def] case_prod_beta del: holds.simps)
next
  case (Located lat lon label)
  then show ?thesis by (cases c) (simp add: set_point del: pick.simps)
qed (cases c; auto simp: field_of_def typed_def assigned_def clearResolvedRoutePoint_def setStopAsDestination_def Let_def
  formatLatLon_coords SEARCH_COORD_PRECISION_def split: option.split prod.split)+

text \<open>C38: A field sends what the user chose: after any sequence of typing, choosing results, taking a point from
  the map or from GPS, texts of the agent, and answers of the server, the location a route is computed with is
  the one of the specification: the exact point chosen last, as long as the field shows the text it was chosen
  with and nothing was typed since, and otherwise the text that is shown.\<close>

theorem field_sends_choice:
  assumes "number JUndef = NaN" "list_all (readable num number) evs"
  shows "routeLocationForInput number (fold (field_step num number) evs empty_field)
         = location_of (fold (choice_step num number) evs ([], None))"
proof -
  have "choice_ok num number c \<Longrightarrow>
      fold (field_step num number) evs (field_of num c) = field_of num (fold (choice_step num number) evs c)
      \<and> choice_ok num number (fold (choice_step num number) evs c)" for c
    using assms(2) by (induction evs arbitrary: c) (simp_all add: field_step_refines assms(1) choice_step_ok)
  from this [of "([], None)"] show ?thesis
    by (simp add: choice_ok_def empty_field_def field_of_def [of num "([], None)"] routeLocationForInput_def resolved_field_of)
      (auto simp: location_of_def field_of_def split: option.splits)
qed

text \<open>A label of blanks is a point that is said to be set but never used.\<close>

lemma blank_label_lost:
  "setResolvedRoutePoint num number (JNum (Fin a)) (JNum (Fin b)) (JStr [32]) f = Inr (True, f') \<Longrightarrow>
   resolvedRoutePoint number f' = None"
  by (auto simp: setResolvedRoutePoint_def resolvedRoutePoint_def trim_def js_space_def Let_def)

text \<open>A result is chosen, the server answers with the same point under another name, and the text is changed.\<close>

definition town :: js where
  "town = JObj [(lit ''label'', JStr (lit ''Passau'')), (lit ''lat'', JNum (Fin 48)), (lit ''lon'', JNum (Fin 13))]"

definition two_numbers :: "real \<Rightarrow> jstr" where
  "two_numbers r = (if r = 48 then lit ''48'' else lit ''13'')"

definition read_two :: "js \<Rightarrow> jsnum" where
  "read_two v = (if v = JStr (lit ''48'') then Fin 48 else if v = JStr (lit ''13'') then Fin 13 else NaN)"

theorem field_sends_choice_witness:
  "routeLocationForInput read_two (fold (field_step two_numbers read_two) [Chosen town, Responded town] empty_field) = At 48 13
   \<and> routeLocationForInput read_two (fold (field_step two_numbers read_two) [Chosen town, Typed (lit ''Passau'')] empty_field)
     = Query (lit ''Passau'')"
proof -
  have t: "jget town ''lat'' = JNum (Fin 48)" "jget town ''lon'' = JNum (Fin 13)" "jget town ''label'' = JStr (lit ''Passau'')"
    by (simp_all add: town_def)
  have tr: "trim (lit ''Passau'') = lit ''Passau''" by (simp add: trim_def lit_def js_space_def)
  have r: "read_two JUndef = NaN" "list_all (readable two_numbers read_two) [Chosen town, Responded town]"
    "list_all (readable two_numbers read_two) [Chosen town, Typed (lit ''Passau'')]"
    by (simp_all add: readable_def t reads_back_def two_numbers_def read_two_def)
  show ?thesis
    unfolding field_sends_choice [OF r(1,2)] field_sends_choice [OF r(1,3)]
    by (simp add: t tr location_of_def near_def)
qed

end
