(* ===== verification/Overlays.thy ===== *)
theory Overlays
  imports MapRenderer Requests RouteFields
begin

text \<open>
  The overlays of the map that follow its section (\<open>src/cmd/web/app.js\<close>): labels and waterways of the
  off-line map, hydrants and fire stations. Each waits until the map rests, asks the server for the
  section shown, and shows the answer if it is still the one asked for. The first part is what they
  share, the second the four refresh functions with their differences, the third what each makes of an
  answer. \<open>number\<close> is the conversion \<open>Number(v)\<close> and \<open>num\<close> the text of a number.
\<close>

section \<open>What the overlays share\<close>

record 'c overlay =
  on :: bool
  waiting :: bool                \<comment> \<open>the timer\<close>
  request :: "nat option"
  controllers :: nat             \<comment> \<open>controllers made so far\<close>
  flight :: "nat list"
  content :: "'c option"         \<comment> \<open>\<open>None\<close>: nothing is shown\<close>

definition init_overlay :: "'c overlay" where
  "init_overlay = \<lparr>on = False, waiting = False, request = None, controllers = 0, flight = [], content = None\<rparr>"

definition queue_overlay :: "'c overlay \<Rightarrow> 'c overlay" where
  "queue_overlay st = (if on st then st\<lparr>waiting := True\<rparr> else st)"

definition ask :: "'c overlay \<Rightarrow> 'c overlay" where
  \<comment> \<open>aborts the request under way and starts a new one\<close>
  "ask st = st\<lparr>request := Some (controllers st), controllers := controllers st + 1, flight := flight st @ [controllers st]\<rparr>"

definition set_visible :: "bool \<Rightarrow> 'c overlay \<Rightarrow> 'c overlay" where
  "set_visible b st =
     (if on st = b then (if b then queue_overlay st else st)
      else let st = st\<lparr>on := b, waiting := False, request := None\<rparr>
           in if b then queue_overlay st else st\<lparr>content := None\<rparr>)"

definition answer :: "('p \<Rightarrow> 'c option) \<Rightarrow> nat \<Rightarrow> 'p option \<Rightarrow> 'c overlay \<Rightarrow> 'c overlay" where
  \<comment> \<open>\<open>None\<close>: the request failed\<close>
  "answer show_it c p st =
     (case p of
        None \<Rightarrow> st
      | Some v \<Rightarrow> if \<not> on st \<or> request st \<noteq> Some c then st else st\<lparr>content := show_it v\<rparr>)"

datatype 'p overlay_event =
    Toggle bool
  | Moved                        \<comment> \<open>\<open>moveend\<close> and \<open>zoomend\<close>\<close>
  | Rested real                  \<comment> \<open>the timer, with the zoom\<close>
  | Arrives nat "'p option"

fun overlay_step :: "(real \<Rightarrow> 'c overlay \<Rightarrow> 'c overlay) \<Rightarrow> ('p \<Rightarrow> 'c option) \<Rightarrow> 'p overlay_event \<Rightarrow> 'c overlay \<Rightarrow> 'c overlay" where
  "overlay_step refresh show_it (Toggle b) st = set_visible b st"
| "overlay_step refresh show_it Moved st = queue_overlay st"
| "overlay_step refresh show_it (Rested zoom) st = (if waiting st then refresh zoom (st\<lparr>waiting := False\<rparr>) else st)"
| "overlay_step refresh show_it (Arrives i p) st =
     (if i < length (flight st)
      then answer show_it (flight st ! i) p (st\<lparr>flight := take i (flight st) @ drop (Suc i) (flight st)\<rparr>) else st)"

section \<open>The four refresh functions\<close>

definition refreshOfflineLabels :: "real \<Rightarrow> 'c overlay \<Rightarrow> 'c overlay" where
  "refreshOfflineLabels zoom st =
     (if \<not> on st then st
      else let st = st\<lparr>request := None\<rparr>
           in if zoom < 7 then st\<lparr>content := None\<rparr> else ask st)"

definition refreshOfflineWaterways :: "real \<Rightarrow> 'c overlay \<Rightarrow> 'c overlay" where
  "refreshOfflineWaterways zoom st =
     (if \<not> on st then st
      else if zoom < 7 then st\<lparr>request := None, content := None\<rparr> else ask st)"

definition refreshHydrants :: "real \<Rightarrow> 'c overlay \<Rightarrow> 'c overlay" where
  "refreshHydrants zoom st =
     (if \<not> on st then st else if zoom < 14 then st\<lparr>content := None\<rparr> else ask st)"

definition refreshFireStations :: "real \<Rightarrow> 'c overlay \<Rightarrow> 'c overlay" where
  "refreshFireStations zoom st =
     (if \<not> on st then st else if zoom < 11 then st\<lparr>content := None\<rparr> else ask st)"

section \<open>Answers\<close>

datatype label_kind = Place | Road

record map_label =
  label_at :: "real \<times> real"
  label_name :: jstr
  rank :: jsnum
  label_kind :: label_kind

datatype overlay_err = NotReadable

definition read_label :: "(js \<Rightarrow> jsnum) \<Rightarrow> (real \<Rightarrow> jstr) \<Rightarrow> js \<Rightarrow> overlay_err + map_label option" where
  "read_label number num l =
     throw_if (nullish l) NotReadable
       (case (if truthy (jget l ''name'') then js_string num (jget l ''name'') else Some []) of
          None \<Rightarrow> Inl NotReadable
        | Some t \<Rightarrow>
            Inr (case normalizeLatLon number (jget l ''lat'') (jget l ''lon'') of
                   None \<Rightarrow> None
                 | Some p \<Rightarrow>
                     if trim t = [] then None
                     else Some \<lparr>label_at = p, label_name = trim t,
                            rank = (case number (jget l ''rank'') of NaN \<Rightarrow> Fin 0 | n \<Rightarrow> n),
                            label_kind = (if jget l ''kind'' = JStr (lit ''place'') then Place else Road)\<rparr>))"

fun num_sign :: "jsnum \<Rightarrow> jsnum \<Rightarrow> int" where
  \<comment> \<open>the sign of the difference; infinities of the same sign are equal; a rank is never \<open>NaN\<close>, which counts as 0\<close>
  "num_sign (Fin a) (Fin b) = (if a < b then - 1 else if a = b then 0 else 1)"
| "num_sign PosInf PosInf = 0"
| "num_sign NegInf NegInf = 0"
| "num_sign PosInf _ = 1"
| "num_sign _ PosInf = - 1"
| "num_sign NegInf _ = - 1"
| "num_sign _ NegInf = 1"
| "num_sign NaN NaN = 0"
| "num_sign NaN (Fin b) = (if 0 < b then - 1 else if b = 0 then 0 else 1)"
| "num_sign (Fin a) NaN = (if a < 0 then - 1 else if a = 0 then 0 else 1)"

definition label_cmp :: "map_label \<Rightarrow> map_label \<Rightarrow> int" where
  "label_cmp a b =
     (if label_kind a = label_kind b then num_sign (rank b) (rank a) else if label_kind a = Place then - 1 else 1)"

type_synonym box = "real \<times> real \<times> real \<times> real"    \<comment> \<open>left, right, top, bottom\<close>

fun offlineLabelBoxesOverlap :: "box \<Rightarrow> box \<Rightarrow> bool" where
  "offlineLabelBoxesOverlap (l, r, t, b) (l', r', t', b') \<longleftrightarrow> l < r' \<and> r > l' \<and> t < b' \<and> b > t'"

fun outside :: "box \<Rightarrow> box \<Rightarrow> bool" where
  "outside (vl, vr, vt, vb) (l, r, t, b) \<longleftrightarrow> l < vl \<or> r > vr \<or> t < vt \<or> b > vb"

fun widened :: "box \<Rightarrow> box" where
  "widened (l, r, t, b) = (l - 5, r + 5, t - 3, b + 3)"

fun place_labels :: "box \<Rightarrow> (map_label \<Rightarrow> box) \<Rightarrow> map_label list \<Rightarrow> box list \<Rightarrow> map_label list" where
  \<comment> \<open>\<open>box_of\<close> is the rectangle of the element once it is on the map\<close>
  "place_labels view box_of [] occupied = []"
| "place_labels view box_of (l # ls) occupied =
     (let b = widened (box_of l)
      in if outside view b \<or> list_ex (offlineLabelBoxesOverlap b) occupied
         then place_labels view box_of ls occupied
         else l # place_labels view box_of ls (occupied @ [b]))"

definition show_labels :: "(js \<Rightarrow> jsnum) \<Rightarrow> (real \<Rightarrow> jstr) \<Rightarrow> box \<Rightarrow> (map_label \<Rightarrow> box) \<Rightarrow> js \<Rightarrow> map_label list option" where
  "show_labels number num view box_of payload =
     (if nullish payload then None
      else case mapr (read_label number num) (elems (jget payload ''labels'')) of
             Inl e \<Rightarrow> None
           | Inr ls \<Rightarrow> Some (place_labels view box_of (sort_by label_cmp (concat (map (\<lambda>l. case l of None \<Rightarrow> [] | Some x \<Rightarrow> [x]) ls))) []))"

definition show_waterways :: "js \<Rightarrow> js option" where
  "show_waterways data = (if jget data ''type'' = JStr (lit ''FeatureCollection'') then Some data else None)"

fun markers :: "(js \<Rightarrow> jsnum) \<Rightarrow> js list \<Rightarrow> ((real \<times> real) \<times> js) list" where
  \<comment> \<open>place and record; an entry that is \<open>null\<close> ends the loop with an error\<close>
  "markers number [] = []"
| "markers number (h # hs) =
     (if nullish h then []
      else case normalizeLatLon number (jget h ''lat'') (jget h ''lon'') of
             None \<Rightarrow> markers number hs | Some p \<Rightarrow> (p, h) # markers number hs)"

definition show_markers :: "(js \<Rightarrow> jsnum) \<Rightarrow> string \<Rightarrow> js \<Rightarrow> ((real \<times> real) \<times> js) list option" where
  \<comment> \<open>of the field \<open>hydrants\<close> or \<open>stations\<close>\<close>
  "show_markers number k payload = (if nullish payload then None else Some (markers number (elems (jget payload k))))"

definition hydrantTitle :: "js \<Rightarrow> jstr" where
  "hydrantTitle t =
     (if t = JStr (lit ''underground'') then lit ''Unterflurhydrant''
      else if t = JStr (lit ''pillar'') then 220 # lit ''berflurhydrant''
      else if t = JStr (lit ''wall'') then lit ''Wandhydrant'' else lit ''Hydrant'')"

section \<open>Only the answer that was asked for is shown\<close>

definition overlay_ok :: "'c overlay \<Rightarrow> bool" where
  "overlay_ok st \<longleftrightarrow> (\<forall>c. request st = Some c \<longrightarrow> c < controllers st) \<and> (\<forall>c\<in>set (flight st). c < controllers st)
     \<and> (\<not> on st \<longrightarrow> content st = None \<and> request st = None \<and> \<not> waiting st)"

text \<open>What a refresh function promises: it changes nothing while the overlay is off, starts no timer, shows
  nothing new by itself, and a request it leaves current is the old one or a new one under way.\<close>

locale overlay_refresh =
  fixes refresh :: "real \<Rightarrow> 'c overlay \<Rightarrow> 'c overlay"
  assumes off: "\<not> on st \<Longrightarrow> refresh z st = st"
    and same: "on (refresh z st) = on st" "waiting (refresh z st) = waiting st"
    and clears: "content (refresh z st) = content st \<or> content (refresh z st) = None"
    and asks: "request (refresh z st) \<in> {None, request st} \<and> controllers (refresh z st) = controllers st \<and> flight (refresh z st) = flight st
      \<or> request (refresh z st) = Some (controllers st) \<and> controllers (refresh z st) = controllers st + 1
        \<and> flight (refresh z st) = flight st @ [controllers st]"
begin

lemma overlay_refresh_ok:
  assumes "overlay_ok st"
  shows "overlay_ok (refresh z st)"
proof (cases "on st")
  case True
  then show ?thesis
    using assms asks [of z st] same(1) [of z st] by (force simp: overlay_ok_def)
next
  case False
  then show ?thesis using assms off by simp
qed

lemma overlay_step_ok:
  assumes "overlay_ok st"
  shows "overlay_ok (overlay_step refresh show_it ev st)"
proof (cases ev)
  case (Toggle b)
  then show ?thesis using assms by (auto simp: overlay_ok_def set_visible_def queue_overlay_def Let_def)
next
  case Moved
  then show ?thesis using assms by (auto simp: overlay_ok_def queue_overlay_def)
next
  case (Rested z)
  have "overlay_ok (st\<lparr>waiting := False\<rparr>)" using assms by (auto simp: overlay_ok_def)
  then show ?thesis using Rested assms overlay_refresh_ok by simp
next
  case (Arrives i p)
  have "c < controllers st" if "c \<in> set (take i (flight st)) \<or> c \<in> set (drop (Suc i) (flight st))" for c
    using that assms by (auto simp: overlay_ok_def dest: in_set_takeD in_set_dropD)
  then show ?thesis
    using Arrives assms by (auto simp: overlay_ok_def answer_def split: option.split)
qed

lemma step_requests:
  "controllers st \<le> controllers (overlay_step refresh show_it ev st)
   \<and> (\<forall>c. request (overlay_step refresh show_it ev st) = Some c \<longrightarrow> request st = Some c \<or> controllers st \<le> c)"
proof (cases ev)
  case (Rested z)
  show ?thesis
    using Rested asks [of z "st\<lparr>waiting := False\<rparr>"] by auto
qed (auto simp: set_visible_def queue_overlay_def answer_def Let_def split: option.split)

end

sublocale overlay_refresh \<subseteq> latest_wins request "\<lambda>st. {..<controllers st}" "overlay_step refresh show_it" overlay_ok for show_it
proof
  fix s :: "'c overlay" and e and t :: nat
  show "overlay_ok s \<Longrightarrow> request s = Some t \<Longrightarrow> t \<in> {..<controllers s}" by (auto simp: overlay_ok_def)
  show "{..<controllers s} \<subseteq> {..<controllers (overlay_step refresh show_it e s)}" using step_requests [of s show_it e] by auto
  show "request (overlay_step refresh show_it e s) = Some t \<Longrightarrow> t \<in> {..<controllers s} \<Longrightarrow> request s = Some t"
    using step_requests [of s show_it e] by force
qed (rule overlay_step_ok)

interpretation labels: overlay_refresh refreshOfflineLabels
  by unfold_locales (auto simp: refreshOfflineLabels_def ask_def Let_def)

interpretation waterways: overlay_refresh refreshOfflineWaterways
  by unfold_locales (auto simp: refreshOfflineWaterways_def ask_def)

interpretation hydrants: overlay_refresh refreshHydrants
  by unfold_locales (auto simp: refreshHydrants_def ask_def)

interpretation stations: overlay_refresh refreshFireStations
  by unfold_locales (auto simp: refreshFireStations_def ask_def)

lemma init_overlay_ok: "overlay_ok init_overlay"
  by (simp add: overlay_ok_def init_overlay_def)

context overlay_refresh
begin

lemma overtaken:
  assumes "overlay_ok st" "c < controllers st" "request st \<noteq> Some c"
  shows "overlay_ok (fold (overlay_step refresh show_it) later st) \<and> request (fold (overlay_step refresh show_it) later st) \<noteq> Some c"
proof -
  have "stale c st" using assms by (simp add: stale_def)
  then show ?thesis using inv_run [OF assms(1), of show_it later] stale_run [OF assms(1), of c show_it later] by (simp add: stale_def)
qed

lemma run_ok: "overlay_ok (fold (overlay_step refresh show_it) evs init_overlay)"
  by (rule inv_run [OF init_overlay_ok])

end

text \<open>Each of the four overlays shows nothing while it is off, and an answer that was overtaken or cancelled
  never changes what is shown, however late it comes.\<close>

theorem overlays_current_only:
  assumes "refresh \<in> {refreshOfflineLabels, refreshOfflineWaterways, refreshHydrants, refreshFireStations}"
    "st = fold (overlay_step refresh show_it) evs init_overlay" "c < controllers st" "request st \<noteq> Some c"
    "st' = fold (overlay_step refresh show_it) later st" "i < length (flight st')" "flight st' ! i = c"
  shows "(\<not> on st' \<longrightarrow> content st' = None) \<and> content (overlay_step refresh show_it (Arrives i p) st') = content st'"
proof -
  have ok: "overlay_ok st"
    using assms(1) labels.run_ok waterways.run_ok hydrants.run_ok stations.run_ok unfolding assms(2) by blast
  have "overlay_ok st' \<and> request st' \<noteq> Some c"
    using assms(1) labels.overtaken [OF ok assms(3,4)] waterways.overtaken [OF ok assms(3,4)] hydrants.overtaken [OF ok assms(3,4)]
      stations.overtaken [OF ok assms(3,4)] unfolding assms(5) by blast
  then show ?thesis using assms(6,7) by (auto simp: overlay_ok_def answer_def split: option.split)
qed

section \<open>Zoomed out\<close>

text \<open>The labels and the waterways give up the request under way when the map is too far out; hydrants and fire
  stations do not.\<close>

lemma quiet_step:
  assumes "\<And>z. ev \<noteq> Rested z" "content st = None \<and> request st = None"
  shows "content (overlay_step refresh show_it ev st) = None \<and> request (overlay_step refresh show_it ev st) = None"
  using assms by (cases ev) (auto simp: set_visible_def queue_overlay_def answer_def Let_def split: option.split)

lemma quiet_run:
  assumes "\<forall>z. Rested z \<notin> set evs" "content st = None \<and> request st = None"
  shows "content (fold (overlay_step refresh show_it) evs st) = None"
  using assms
proof (induction evs arbitrary: st)
  case (Cons ev evs)
  have "\<And>z. ev \<noteq> Rested z" using Cons.prems(1) by auto
  from quiet_step [OF this Cons.prems(2)] show ?case using Cons by simp
qed simp

text \<open>Labels and waterways stay away when the map is zoomed out too far: from the moment the map has come to
  rest there, no answer can bring them back until the map comes to rest again.\<close>

theorem zoomed_out_stays_empty:
  assumes "refresh \<in> {refreshOfflineLabels, refreshOfflineWaterways}" "overlay_ok st" "waiting st" "zoom < 7"
    "\<forall>z. Rested z \<notin> set evs"
  shows "content (fold (overlay_step refresh show_it) evs (overlay_step refresh show_it (Rested zoom) st)) = None"
proof -
  have "on st" using assms(2,3) by (auto simp: overlay_ok_def)
  then have "content (overlay_step refresh show_it (Rested zoom) st) = None \<and> request (overlay_step refresh show_it (Rested zoom) st) = None"
    using assms(1,3,4) by (auto simp: refreshOfflineLabels_def refreshOfflineWaterways_def Let_def)
  then show ?thesis by (rule quiet_run [OF assms(5)])
qed

text \<open>A late answer brings the hydrants back on a map that shows a whole country.\<close>

lemma hydrants_come_back:
  "content (fold (overlay_step refreshHydrants (show_markers number ''hydrants''))
     [Toggle True, Rested 15, Moved, Rested 5, Arrives 0 (Some (JObj [(lit ''hydrants'', JArr [JObj [(lit ''lat'', JNum (Fin 51)), (lit ''lon'', JNum (Fin 9))]])]))]
     init_overlay) = Some [((51, 9), JObj [(lit ''lat'', JNum (Fin 51)), (lit ''lon'', JNum (Fin 9))])]"
  by (simp add: init_overlay_def set_visible_def queue_overlay_def refreshHydrants_def ask_def answer_def show_markers_def
      normalizeLatLon_def to_num_def)

section \<open>Labels do not cover each other\<close>

lemma place_labels_sub: "set (place_labels view box_of ls occ) \<subseteq> set ls"
proof (induction ls arbitrary: occ)
  case (Cons l ls)
  show ?case using Cons [of occ] Cons [of "occ @ [widened (box_of l)]"] by (auto simp: Let_def)
qed simp

lemma overlap_sym: "offlineLabelBoxesOverlap a b \<longleftrightarrow> offlineLabelBoxesOverlap b a"
  by (cases a; cases b) auto

lemma place_labels_apart:
  "(\<forall>l\<in>set (place_labels view box_of ls occ). \<not> outside view (widened (box_of l))
      \<and> (\<forall>b\<in>set occ. \<not> offlineLabelBoxesOverlap (widened (box_of l)) b))
   \<and> sorted_wrt (\<lambda>k l. \<not> offlineLabelBoxesOverlap (widened (box_of k)) (widened (box_of l))) (place_labels view box_of ls occ)"
proof (induction ls arbitrary: occ)
  case (Cons l ls)
  show ?case
    using Cons [of occ] Cons [of "occ @ [widened (box_of l)]"] overlap_sym by (auto simp: Let_def list_ex_iff)
qed simp

lemma place_labels_maximal:
  assumes "ls = before @ l # after" "l \<notin> set (place_labels view box_of ls occ)"
  shows "outside view (widened (box_of l)) \<or> (\<exists>b\<in>set occ. offlineLabelBoxesOverlap (widened (box_of l)) b)
    \<or> (\<exists>k\<in>set before. k \<in> set (place_labels view box_of ls occ) \<and> offlineLabelBoxesOverlap (widened (box_of l)) (widened (box_of k)))"
  using assms
proof (induction before arbitrary: ls occ)
  case Nil
  then show ?case by (auto simp: Let_def list_ex_iff split: if_splits)
next
  case (Cons k before)
  show ?case
  proof (cases "outside view (widened (box_of k)) \<or> list_ex (offlineLabelBoxesOverlap (widened (box_of k))) occ")
    case True
    then have e: "place_labels view box_of ls occ = place_labels view box_of (before @ l # after) occ" using Cons.prems by simp
    show ?thesis using Cons.IH [OF refl, of occ] Cons.prems e by auto
  next
    case False
    then have e: "place_labels view box_of ls occ = k # place_labels view box_of (before @ l # after) (occ @ [widened (box_of k)])"
      using Cons.prems by simp
    show ?thesis using Cons.IH [OF refl, of "occ @ [widened (box_of k)]"] Cons.prems e by auto
  qed
qed

lemma sorted_wrt_both: "sorted_wrt (\<lambda>a b. P a b \<and> Q a b) xs \<longleftrightarrow> sorted_wrt P xs \<and> sorted_wrt Q xs"
  by (induction xs) auto

lemma place_labels_sorted: "sorted_wrt P ls \<Longrightarrow> sorted_wrt P (place_labels view box_of ls occ)"
proof (induction ls arbitrary: occ)
  case (Cons l ls)
  then show ?case using place_labels_sub by (fastforce simp: Let_def)
qed simp

lemma num_sign_trans: "num_sign a b \<le> 0 \<Longrightarrow> num_sign b c \<le> 0 \<Longrightarrow> num_sign a c \<le> 0"
  by (cases a; cases b; cases c) (auto split: if_splits)

lemma num_sign_total: "num_sign a b \<le> 0 \<or> num_sign b a \<le> 0"
  by (cases a; cases b) auto

lemma label_cmp_trans: "label_cmp a b \<le> 0 \<Longrightarrow> label_cmp b c \<le> 0 \<Longrightarrow> label_cmp a c \<le> 0"
  using num_sign_trans [of "rank c" "rank b" "rank a"] by (auto simp: label_cmp_def split: if_splits)

lemma label_cmp_total: "label_cmp a b \<le> 0 \<or> label_cmp b a \<le> 0"
  using num_sign_total [of "rank a" "rank b"] by (cases "label_kind a"; cases "label_kind b") (auto simp: label_cmp_def)

lemma sorted_labels: "sorted_wrt (\<lambda>a b. label_cmp a b \<le> 0) (sort_by label_cmp ls)"
  by (induction ls) (simp_all add: sort_by_def sorted_insert_by [OF label_cmp_trans label_cmp_total])

text \<open>The labels of the off-line map never cover each other and lie within the map; they are chosen in
  order, places before roads and the higher rank first, and none is left out without need: a label that is
  missing does not fit on the map or would cover one that goes before it.\<close>

theorem labels_placed:
  assumes "shown_ls = place_labels view box_of (sort_by label_cmp ls) []"
  shows "(\<forall>l\<in>set shown_ls. l \<in> set ls \<and> \<not> outside view (widened (box_of l)))
    \<and> sorted_wrt (\<lambda>k l. \<not> offlineLabelBoxesOverlap (widened (box_of k)) (widened (box_of l)) \<and> label_cmp k l \<le> 0) shown_ls
    \<and> (\<forall>l\<in>set ls. l \<in> set shown_ls \<or> outside view (widened (box_of l))
         \<or> (\<exists>k\<in>set shown_ls. label_cmp k l \<le> 0 \<and> offlineLabelBoxesOverlap (widened (box_of l)) (widened (box_of k))))"
proof -
  let ?s = "sort_by label_cmp ls"
  have set: "set ?s = set ls" by (rule mset_eq_setD [OF mset_sort_by])
  have "\<exists>k\<in>set shown_ls. label_cmp k l \<le> 0 \<and> offlineLabelBoxesOverlap (widened (box_of l)) (widened (box_of k))"
    if l: "l \<in> set ls" "l \<notin> set shown_ls" "\<not> outside view (widened (box_of l))" for l
  proof -
    have "l \<in> set ?s" using l(1) unfolding set .
    then obtain before after where s: "?s = before @ l # after" by (blast dest: split_list)
    note place_labels_maximal [OF s l(2) [unfolded assms]]
    then obtain k where "k \<in> set before" "k \<in> set shown_ls" "offlineLabelBoxesOverlap (widened (box_of l)) (widened (box_of k))"
      using l(3) unfolding assms by fastforce
    moreover have "label_cmp k l \<le> 0" using sorted_labels [of ls] \<open>k \<in> set before\<close> unfolding s by (auto simp: sorted_wrt_append)
    ultimately show ?thesis by blast
  qed
  then have "\<forall>l\<in>set ls. l \<in> set shown_ls \<or> outside view (widened (box_of l))
         \<or> (\<exists>k\<in>set shown_ls. label_cmp k l \<le> 0 \<and> offlineLabelBoxesOverlap (widened (box_of l)) (widened (box_of k)))" by blast
  moreover have "sorted_wrt (\<lambda>a b. label_cmp a b \<le> 0) shown_ls"
    unfolding assms by (rule place_labels_sorted [OF sorted_labels])
  moreover have "set shown_ls \<subseteq> set ls" using place_labels_sub set unfolding assms by blast
  ultimately show ?thesis
    using place_labels_apart [of view box_of ?s "[]"] unfolding assms [symmetric] sorted_wrt_both by blast
qed

section \<open>Examples\<close>

definition at_corner :: "label_kind \<Rightarrow> real \<Rightarrow> map_label" where
  "at_corner k r = \<lparr>label_at = (0, 0), label_name = [], rank = Fin r, label_kind = k\<rparr>"

theorem labels_placed_witness:
  "at_corner Road 9 \<notin> set (place_labels (0, 100, 0, 100) (\<lambda>_. (10, 20, 10, 20)) (sort_by label_cmp [at_corner Road 9, at_corner Place 1]) [])"
proof -
  have "place_labels (0, 100, 0, 100) (\<lambda>_. (10, 20, 10, 20)) (sort_by label_cmp [at_corner Road 9, at_corner Place 1]) [] = [at_corner Place 1]"
    by (simp add: sort_by_def label_cmp_def at_corner_def)
  from labels_placed [OF this [symmetric]] show ?thesis by (auto simp: at_corner_def sort_by_def label_cmp_def)
qed

theorem overlays_current_only_witness:
  "content (overlay_step refreshHydrants (\<lambda>p :: nat. Some p) (Arrives 0 (Some 7))
     (fold (overlay_step refreshHydrants (\<lambda>p :: nat. Some p)) [Toggle True, Rested 15, Moved, Rested 16] init_overlay)) = None"
proof -
  let ?st = "fold (overlay_step refreshHydrants (\<lambda>p :: nat. Some p)) [Toggle True, Rested 15, Moved, Rested 16] init_overlay"
  have s: "controllers ?st = 2" "request ?st = Some 1" "flight ?st = [0, 1]" "content ?st = None"
    by (simp_all add: init_overlay_def set_visible_def queue_overlay_def refreshHydrants_def ask_def)
  show ?thesis
    using overlays_current_only [of refreshHydrants ?st "\<lambda>p :: nat. Some p" "[Toggle True, Rested 15, Moved, Rested 16]" 0 ?st "[]" 0 "Some 7"] s
    by (simp del: fold_simps overlay_step.simps)
qed

theorem zoomed_out_stays_empty_witness:
  "content (fold (overlay_step refreshOfflineLabels (\<lambda>p :: nat. Some p)) [Arrives 0 (Some 7)]
     (overlay_step refreshOfflineLabels (\<lambda>p. Some p) (Rested 5)
        (fold (overlay_step refreshOfflineLabels (\<lambda>p. Some p)) [Toggle True, Rested 15, Moved] init_overlay))) = None"
proof (rule zoomed_out_stays_empty)
  show "overlay_ok (fold (overlay_step refreshOfflineLabels (\<lambda>p :: nat. Some p)) [Toggle True, Rested 15, Moved] init_overlay)"
    by (rule labels.run_ok)
qed (simp_all add: init_overlay_def set_visible_def queue_overlay_def refreshOfflineLabels_def ask_def Let_def)

end
