(* ===== verification/Markup.thy ===== *)
theory Markup
  imports Json
begin

text \<open>
  Text in HTML and XML (\<open>escapeHtml\<close>, \<open>highlight\<close>, \<open>xmlEscape\<close> of \<open>src/cmd/web/app.js\<close>), and what a
  reader of the markup makes of it. The first section is the general fact: text whose special characters
  are written as the entities of a table is read back without loss.
\<close>

section \<open>Entities\<close>

type_synonym entity_table = "(16 word \<times> string) list"

definition entity :: "entity_table \<Rightarrow> 16 word \<Rightarrow> jstr" where
  "entity tab c = (case map_of tab c of Some t \<Rightarrow> lit t | None \<Rightarrow> [c])"

definition entities :: "entity_table \<Rightarrow> jstr \<Rightarrow> jstr" where
  "entities tab s = concat (map (entity tab) s)"

function read_entities :: "entity_table \<Rightarrow> jstr \<Rightarrow> jstr" where
  "read_entities tab [] = []"
| "read_entities tab (c # s) =
     (case find (\<lambda>(d, t). prefix (lit t) (c # s)) tab of
        Some (d, t) \<Rightarrow> d # read_entities tab (drop (length t - 1) s)
      | None \<Rightarrow> c # read_entities tab s)"
  by pat_completeness auto
termination by (relation "measure (\<lambda>(_, s). length s)") auto

definition table_ok :: "entity_table \<Rightarrow> bool" where
  \<comment> \<open>the ampersand is in the table, every entity begins with it, and none is the beginning of another\<close>
  "table_ok tab \<longleftrightarrow> 38 \<in> fst ` set tab \<and> list_all (\<lambda>(d, t). t \<noteq> '''' \<and> hd (lit t) = 38) tab
     \<and> list_all (\<lambda>x. list_all (\<lambda>y. prefix (lit (snd x)) (lit (snd y)) \<longrightarrow> x = y) tab) tab"

lemma table_okD:
  assumes "table_ok tab"
  shows "38 \<in> fst ` set tab" "(d, t) \<in> set tab \<Longrightarrow> \<exists>l. lit t = 38 # l \<and> length l = length t - 1"
    "x \<in> set tab \<Longrightarrow> y \<in> set tab \<Longrightarrow> prefix (lit (snd x)) (lit (snd y)) \<Longrightarrow> x = y"
proof -
  show "38 \<in> fst ` set tab" using assms by (simp add: table_ok_def)
  show "\<exists>l. lit t = 38 # l \<and> length l = length t - 1" if m: "(d, t) \<in> set tab"
  proof -
    have "t \<noteq> ''''" "hd (lit t) = 38" using assms m by (auto simp: table_ok_def list_all_iff)
    then show ?thesis by (cases t) (simp_all add: lit_def)
  qed
  show "x = y" if "x \<in> set tab" "y \<in> set tab" "prefix (lit (snd x)) (lit (snd y))"
    using assms that unfolding table_ok_def list_all_iff by blast
qed

lemma find_entity:
  assumes ok: "table_ok tab" and mem: "(d, t) \<in> set tab"
  shows "find (\<lambda>(d, u). prefix (lit u) (lit t @ r)) tab = Some (d, t)"
proof -
  let ?P = "\<lambda>(d', t'). prefix (lit t') (lit t @ r)"
  have only: "x = (d, t)" if x: "x \<in> set tab" "prefix (lit (snd x)) (lit t @ r)" for x
  proof -
    have "prefix (lit (snd x)) (lit t) \<or> prefix (lit t) (lit (snd x))"
      using x(2) by (metis prefix_same_cases prefixI)
    then show ?thesis using table_okD(3) [OF ok x(1) mem] table_okD(3) [OF ok mem x(1)] by auto
  qed
  have "?P (d, t)" by simp
  then have "find ?P tab \<noteq> None" using mem unfolding find_None_iff by blast
  then obtain x where x: "find ?P tab = Some x" by auto
  then have "x \<in> set tab" "?P x" unfolding find_Some_iff by (metis nth_mem)+
  then have "x = (d, t)" using only by (auto split: prod.splits)
  with x show ?thesis by simp
qed

lemma no_entity:
  assumes "table_ok tab" "c \<noteq> 38"
  shows "find (\<lambda>(d, t). prefix (lit t) (c # s)) tab = None"
proof -
  have "\<not> prefix (lit t) (c # s)" if "(d, t) \<in> set tab" for d t
    using table_okD(2) [OF assms(1) that] assms(2) by auto
  then show ?thesis by (auto simp: find_None_iff)
qed

theorem read_entities_back: "table_ok tab \<Longrightarrow> read_entities tab (entities tab s) = s"
proof (induction s)
  case (Cons c s)
  show ?case
  proof (cases "map_of tab c")
    case None
    then have "c \<noteq> 38" using Cons.prems table_okD(1) by (fastforce simp: map_of_eq_None_iff)
    then show ?thesis using Cons None by (simp add: entities_def entity_def no_entity)
  next
    case (Some t)
    then have mem: "(c, t) \<in> set tab" by (rule map_of_SomeD)
    then obtain l where t: "lit t = 38 # l" "length l = length t - 1"
      using table_okD(2) [OF Cons.prems mem] by blast
    have "find (\<lambda>(d, t). prefix (lit t) (38 # l @ entities tab s)) tab = Some (c, t)"
      using find_entity [OF Cons.prems mem, of "entities tab s"] t(1) by simp
    then show ?thesis
      using Cons Some t by (simp add: entities_def entity_def)
  qed
qed (simp add: entities_def)

lemma entity_chars: "d \<in> set (entity tab c) \<Longrightarrow> d \<notin> fst ` set tab \<or> (\<exists>x\<in>set tab. d \<in> set (lit (snd x)))"
proof (cases "map_of tab c")
  case (Some t)
  then show "d \<in> set (entity tab c) \<Longrightarrow> ?thesis"
    using map_of_SomeD [OF Some] by (force simp: entity_def)
qed (simp add: entity_def map_of_eq_None_iff)

lemma entities_safe:
  assumes "P \<subseteq> fst ` set tab" "list_all (\<lambda>x. P \<inter> set (lit (snd x)) = {}) tab"
  shows "set (entities tab s) \<inter> P = {}"
proof -
  have "d \<notin> P" if d: "d \<in> set (entities tab s)" for d
  proof -
    obtain c where "d \<in> set (entity tab c)" using d by (auto simp: entities_def)
    then show ?thesis using entity_chars [of d tab c] assms by (auto simp: list_all_iff)
  qed
  then show ?thesis by blast
qed

section \<open>HTML\<close>

definition replace_all :: "16 word \<Rightarrow> string \<Rightarrow> jstr \<Rightarrow> jstr" where
  "replace_all c t s = concat (map (\<lambda>d. if d = c then lit t else [d]) s)"

definition escapeHtml :: "jstr \<Rightarrow> jstr" where
  "escapeHtml s = replace_all 39 ''&#39;'' (replace_all 34 ''&quot;'' (replace_all 62 ''&gt;''
     (replace_all 60 ''&lt;'' (replace_all 38 ''&amp;'' s))))"

definition mark_open :: jstr where "mark_open = lit ''<mark>''"
definition mark_close :: jstr where "mark_close = lit ''</mark>''"

text \<open>The regular expression is the query with every special character escaped, so it matches the query
  itself; \<open>canon\<close> is the folding of case that the flag \<open>i\<close> asks for.\<close>

definition matches :: "(16 word \<Rightarrow> 16 word) \<Rightarrow> jstr \<Rightarrow> jstr \<Rightarrow> bool" where
  "matches canon q s \<longleftrightarrow> length q \<le> length s \<and> map canon (take (length q) s) = map canon q"

function mark_all :: "(16 word \<Rightarrow> 16 word) \<Rightarrow> jstr \<Rightarrow> jstr \<Rightarrow> jstr" where
  "mark_all canon q [] = []"
| "mark_all canon q (c # s) =
     (if q \<noteq> [] \<and> matches canon q (c # s)
      then mark_open @ take (length q) (c # s) @ mark_close @ mark_all canon q (drop (length q) (c # s))
      else c # mark_all canon q s)"
  by pat_completeness auto
termination by (relation "measure (\<lambda>(_, _, s). length s)") auto

definition highlight :: "(16 word \<Rightarrow> 16 word) \<Rightarrow> jstr \<Rightarrow> jstr \<Rightarrow> jstr" where
  "highlight canon t q = (if t = [] \<or> q = [] then escapeHtml t else mark_all canon q (escapeHtml t))"

section \<open>What a reader sees\<close>

definition html_table :: entity_table where
  "html_table = [(38, ''&amp;''), (60, ''&lt;''), (62, ''&gt;''), (34, ''&quot;''), (39, ''&#39;'')]"

lemma table_ok_html: "table_ok html_table"
  by (simp add: table_ok_def html_table_def lit_def)

lemma replace_all_concat: "replace_all c t (concat (map f s)) = concat (map (\<lambda>x. replace_all c t (f x)) s)"
  by (simp add: replace_all_def map_concat comp_def) (induction s; simp)

lemma escapeHtml_entities: "escapeHtml s = entities html_table s"
proof -
  have one: "s = concat (map (\<lambda>c. [c]) s)" by (induction s) auto
  have "replace_all 39 ''&#39;'' (replace_all 34 ''&quot;'' (replace_all 62 ''&gt;''
     (replace_all 60 ''&lt;'' (replace_all 38 ''&amp;'' [c])))) = entity html_table c" for c
    by (simp add: replace_all_def entity_def html_table_def lit_def)
  then show ?thesis
    unfolding escapeHtml_def entities_def by (subst one) (simp only: replace_all_concat)
qed

text \<open>The text of a piece of HTML without its tags.\<close>

function strip_tags :: "jstr \<Rightarrow> jstr" where
  "strip_tags [] = []"
| "strip_tags (c # s) = (if c = 60 then strip_tags (drop 1 (dropWhile (\<lambda>d. d \<noteq> 62) s)) else c # strip_tags s)"
  by pat_completeness auto
termination
  by (relation "measure length") (auto simp: less_Suc_eq_le intro: le_trans [OF diff_le_self length_dropWhile_le])

lemma strip_plain: "60 \<notin> set s \<Longrightarrow> strip_tags (s @ r) = s @ strip_tags r"
  by (induction s) auto

lemma strip_marks: "strip_tags (mark_open @ s) = strip_tags s" "strip_tags (mark_close @ s) = strip_tags s"
  by (simp_all add: mark_open_def mark_close_def lit_def)

lemma strip_mark_all: "60 \<notin> set s \<Longrightarrow> strip_tags (mark_all canon q s) = s"
proof (induction canon q s rule: mark_all.induct)
  case (2 canon q c s)
  show ?case
  proof (cases "q \<noteq> [] \<and> matches canon q (c # s)")
    case True
    have sub: "60 \<notin> set (take (length q) (c # s))" "60 \<notin> set (drop (length q) (c # s))"
      using 2(3) by (meson in_set_takeD in_set_dropD)+
    show ?thesis using True 2(1) sub by (simp add: strip_marks strip_plain del: take_Cons drop_Cons)
  next
    case False
    then show ?thesis using 2 by auto
  qed
qed simp

text \<open>A match is shown without changing the text: what \<open>highlight\<close> builds has no markup but the marks it
  adds, so that without tags it is the escaped text, and reading the entities of that gives the text itself,
  whatever the text and the query hold.\<close>

theorem highlight_keeps_text:
  "strip_tags (highlight canon t q) = escapeHtml t
   \<and> read_entities html_table (escapeHtml t) = t
   \<and> set (escapeHtml t) \<inter> {60, 62, 34, 39} = {}"
proof -
  have safe: "set (escapeHtml t) \<inter> {60, 62, 34, 39} = {}"
    unfolding escapeHtml_entities by (rule entities_safe) (simp_all add: html_table_def lit_def)
  then have "60 \<notin> set (escapeHtml t)" by auto
  then have "strip_tags (highlight canon t q) = escapeHtml t"
    using strip_plain [of "escapeHtml t" "[]"] by (simp add: highlight_def strip_mark_all)
  then show ?thesis
    using safe read_entities_back [OF table_ok_html, of t] by (simp add: escapeHtml_entities)
qed

text \<open>But a query can match inside an entity: in a text with an ampersand the query \<open>amp\<close> marks the name of
  the entity, and the reader sees \<open>&amp;\<close> instead of the ampersand.\<close>

lemma marked_entity: "canon 38 \<noteq> canon 97 \<Longrightarrow> highlight canon (lit ''&'') (lit ''amp'') = lit ''&<mark>amp</mark>;''"
  by (simp add: highlight_def escapeHtml_def replace_all_def lit_def mark_open_def mark_close_def matches_def)

section \<open>XML\<close>

definition xml_table :: entity_table where
  "xml_table = [(60, ''&lt;''), (62, ''&gt;''), (38, ''&amp;''), (34, ''&quot;''), (39, ''&apos;'')]"

definition xml_text :: "jstr \<Rightarrow> jstr" where
  \<comment> \<open>the replacement in \<open>xmlEscape\<close>, each character on its own\<close>
  "xml_text s = concat (map (entity xml_table) s)"

definition xmlEscape :: "(real \<Rightarrow> jstr) \<Rightarrow> js \<Rightarrow> jstr option" where
  "xmlEscape num v = map_option xml_text (js_string num (if nullish v then JStr [] else v))"

lemma table_ok_xml: "table_ok xml_table"
  by (simp add: table_ok_def xml_table_def lit_def)

lemma xml_text_back: "read_entities xml_table (xml_text s) = s"
  using read_entities_back [OF table_ok_xml] by (simp add: xml_text_def entities_def)

lemma xml_text_safe: "set (xml_text s) \<inter> {60, 62, 34, 39} = {}"
  using entities_safe [of "{60, 62, 34, 39}" xml_table s]
  by (simp add: xml_text_def entities_def xml_table_def lit_def)

end
