(* ===== verification/Routing.thy ===== *)
theory Routing
  imports Requests RouteFields
begin

text \<open>
  The route planner (\<open>src/cmd/web/app.js\<close>, from \<open>apiRoute\<close> to the buttons of the route): one computation
  at a time, which may ask for the position first, then asks the server, and at last shows a route or an
  error. A computation is named by the number of its controller (\<open>new AbortController\<close>); \<open>calls\<close> are the
  computations that wait, with what they keep meanwhile. A step of the machine is what runs between two
  waits. The path of an answer is a list of coordinates, as the server writes it; the other parts are
  JSON values. Texts of the interface are constructors; whether they are shown in a toast is left out.
\<close>

section \<open>Errors\<close>

record failure =
  f_message :: jstr
  f_details :: js
  f_abort :: bool

datatype route_end = Start | Goal

datatype route_message =
    NoGoal
  | NoEnds
  | AskToCheck              \<comment> \<open>an error without a message\<close>
  | NotUnique route_end
  | NotFound route_end
  | NoConnection
  | Told jstr

definition starts :: "string \<Rightarrow> jstr \<Rightarrow> bool" where
  "starts p s = prefix (lit p) s"

definition routeErrorMessage :: "failure \<Rightarrow> route_message" where
  "routeErrorMessage e =
     (let target = (if truthy (jget (f_details e) ''target'') then jget (f_details e) ''target''
                    else if starts ''from:'' (f_message e) then JStr (lit ''from'')
                    else if starts ''to:'' (f_message e) then JStr (lit ''to'') else JUndef);
          label = (if target = JStr (lit ''from'') then Start else Goal)
      in if truthy (jget (f_details e) ''ambiguous'') then NotUnique label
         else if starts ''from: not found:'' (f_message e) \<or> starts ''to: not found:'' (f_message e) then NotFound label
         else if f_message e \<in> lit ` {''Failed to fetch'', ''Load failed'', ''NetworkError when attempting to fetch resource'',
                                      ''NetworkError when attempting to fetch resource.''} then NoConnection
         else if f_message e = [] then AskToCheck else Told (f_message e))"

definition api_failure :: "(real \<Rightarrow> jstr) \<Rightarrow> js \<Rightarrow> jstr \<Rightarrow> failure option" where
  \<comment> \<open>an answer with an error status; \<open>None\<close>: the body is \<open>null\<close> or its error has no text, and a \<open>TypeError\<close> takes its place\<close>
  "api_failure num body statusText =
     (if nullish body then None
      else map_option (\<lambda>m. \<lparr>f_message = m, f_details = body, f_abort = False\<rparr>)
             (js_string num (or_else (jget body ''error'') (JStr statusText))))"

section \<open>State\<close>

record reply =
  r_path :: "point list option"     \<comment> \<open>\<open>None\<close>: not a list\<close>
  r_data :: js

record waypoint =
  wp_id :: nat
  wp_text :: jstr
  wp_demand :: real

datatype query =
    Direct location location js
  | Tour location location "(jstr \<times> location \<times> real option) list" js

record wait =
  w_from :: location
  w_to :: location
  w_waypoints :: bool
  w_stops :: bool
  w_gps :: bool
  w_options :: js

datatype phase = ForPosition wait | ForAnswer wait

datatype status = Ready | Computing | GoalMissing | Locating | PositionKnown | EndsMissing | RouteFound | TourFound | NotComputed

record panel =
  editor_hidden :: bool
  result_hidden :: bool
  go_hidden :: bool
  clear_hidden :: bool
  edit_hidden :: bool
  show_hidden :: bool
  return_hidden :: bool

datatype go_label = Busy | First | Again

record routing =
  from_field :: field
  to_field :: field
  from_choices :: "js list option"
  to_choices :: "js list option"
  waypoints :: "waypoint list"
  waypointSeq :: nat
  stops :: "(jstr \<times> point) list"
  routeRequest :: "nat option"
  controllers :: nat
  calls :: "(nat \<times> phase) list"
  scheduled :: bool                 \<comment> \<open>the timer of \<open>debouncedCompute\<close>\<close>
  asked :: "query list"             \<comment> \<open>sent to the server, the latest first\<close>
  currentRouteMeta :: "reply option"
  currentRouteBBox :: "(point \<times> point) option"
  polyline :: "point list option"
  lastRoutePath :: "point list option"
  maneuvers :: "js list"
  route_error :: "(route_message \<times> bool) option"   \<comment> \<open>with the remark that the previous route stays\<close>
  status_text :: status
  spinner :: bool
  disabled :: bool
  go_text :: go_label
  panel :: panel
  userLocation :: "point option"

definition field_at :: "route_end \<Rightarrow> routing \<Rightarrow> field" where
  "field_at e st = (case e of Start \<Rightarrow> from_field st | Goal \<Rightarrow> to_field st)"

definition put_field :: "route_end \<Rightarrow> field \<Rightarrow> routing \<Rightarrow> routing" where
  "put_field e f st = (case e of Start \<Rightarrow> st\<lparr>from_field := f\<rparr> | Goal \<Rightarrow> st\<lparr>to_field := f\<rparr>)"

definition put_choices :: "route_end \<Rightarrow> js list option \<Rightarrow> routing \<Rightarrow> routing" where
  "put_choices e c st = (case e of Start \<Rightarrow> st\<lparr>from_choices := c\<rparr> | Goal \<Rightarrow> st\<lparr>to_choices := c\<rparr>)"

abbreviation clearRouteLocationChoices :: "route_end \<Rightarrow> routing \<Rightarrow> routing" where
  "clearRouteLocationChoices e \<equiv> put_choices e None"

section \<open>The panel\<close>

definition panel_for :: "bool \<Rightarrow> bool \<Rightarrow> panel" where
  "panel_for editing route =
     \<lparr>editor_hidden = \<not> editing, result_hidden = editing, go_hidden = \<not> editing, clear_hidden = (\<not> editing \<or> route),
      edit_hidden = editing, show_hidden = editing, return_hidden = (\<not> editing \<or> \<not> route)\<rparr>"

definition setRouteEditing :: "bool \<Rightarrow> routing \<Rightarrow> routing" where
  "setRouteEditing wanted st =
     (let route = currentRouteMeta st \<noteq> None; editing = wanted \<or> \<not> route
      in st\<lparr>panel := panel_for editing route, go_text := (if route then Again else First)\<rparr>)"

definition setRouteError :: "(route_message \<times> bool) option \<Rightarrow> routing \<Rightarrow> routing" where
  "setRouteError m st =
     st\<lparr>status_text := (if m = None \<and> route_error st \<noteq> None then Ready else status_text st), route_error := m\<rparr>"

definition setComputeDisabled :: "bool \<Rightarrow> routing \<Rightarrow> routing" where
  "setComputeDisabled dis st =
     st\<lparr>disabled := dis, go_text := (if dis then Busy else if currentRouteMeta st \<noteq> None then Again else First)\<rparr>"

section \<open>Showing a route\<close>

fun extend_box :: "point \<times> point \<Rightarrow> point \<Rightarrow> point \<times> point" where
  "extend_box ((a, b), (c, d)) (x, y) = ((min a x, min b y), (max c x, max d y))"

definition renderPath :: "point list \<Rightarrow> reply \<Rightarrow> routing \<Rightarrow> routing" where
  "renderPath ps meta st =
     (case ps of
        [] \<Rightarrow> setRouteEditing True (st\<lparr>currentRouteMeta := None, currentRouteBBox := None, polyline := None, lastRoutePath := Some []\<rparr>)
      | p # _ \<Rightarrow> setRouteEditing False (st\<lparr>currentRouteMeta := Some meta, currentRouteBBox := Some (foldl extend_box (p, p) ps),
                   polyline := Some ps, lastRoutePath := Some ps\<rparr>))"

definition steps_of :: "js \<Rightarrow> js" where
  \<comment> \<open>the steps of the route, or those of its legs one after the other\<close>
  "steps_of data =
     (let steps = (if truthy (jget data ''steps'') then jget data ''steps'' else JNull)
      in if (steps = JNull \<or> steps = JArr [] \<or> steps = JStr []) \<and> is_array (jget data ''legs'')
         then JArr (concat (map (\<lambda>l. if truthy l \<and> truthy (jget l ''steps'')
                                       then (case jget l ''steps'' of JArr xs \<Rightarrow> xs | v \<Rightarrow> [v]) else [])
                      (elems (jget data ''legs''))))
         else steps)"

definition renderManeuvers :: "js \<Rightarrow> routing \<Rightarrow> routing" where
  "renderManeuvers steps st = st\<lparr>maneuvers := filter (\<lambda>s. is_object s \<or> is_array s) (elems steps)\<rparr>"

definition renderDisambiguationButtons :: "(js \<Rightarrow> jsnum) \<Rightarrow> js \<Rightarrow> routing \<Rightarrow> routing" where
  "renderDisambiguationButtons number details st =
     (if elems (jget details ''suggestions'') = [] then st
      else put_choices (if jget details ''target'' = JStr (lit ''from'') then Start else Goal)
             (Some (List.map_filter (normalizeSearchResult number) (take 6 (elems (jget details ''suggestions''))))) st)"

section \<open>A computation\<close>

definition cancelRouteComputation :: "routing \<Rightarrow> routing" where
  "cancelRouteComputation st =
     (let st' = st\<lparr>scheduled := False\<rparr>
      in if routeRequest st' = None then st'
         else (setComputeDisabled False (st'\<lparr>routeRequest := None, spinner := False\<rparr>))\<lparr>status_text := Ready\<rparr>)"

definition finish :: "nat \<Rightarrow> routing \<Rightarrow> routing" where
  \<comment> \<open>the \<open>finally\<close> of \<open>compute\<close>\<close>
  "finish n st =
     (if routeRequest st = Some n then setComputeDisabled False (st\<lparr>routeRequest := None, spinner := False\<rparr>) else st)"

definition failed_route :: "(js \<Rightarrow> jsnum) \<Rightarrow> nat \<Rightarrow> failure \<Rightarrow> routing \<Rightarrow> routing" where
  \<comment> \<open>the \<open>catch\<close> of \<open>compute\<close>\<close>
  "failed_route number n e st =
     (if routeRequest st \<noteq> Some n \<or> f_abort e then st
      else renderDisambiguationButtons number (f_details e)
             (setRouteError (Some (routeErrorMessage e, currentRouteMeta st \<noteq> None))
               (setRouteEditing True (st\<lparr>status_text := NotComputed\<rparr>))))"

definition refuse :: "status \<Rightarrow> route_message \<Rightarrow> nat \<Rightarrow> routing \<Rightarrow> routing" where
  "refuse s m n st = finish n (setRouteError (Some (m, False)) (setRouteEditing True (st\<lparr>status_text := s\<rparr>)))"

definition tour_stops :: "routing \<Rightarrow> (jstr \<times> location \<times> real option) list" where
  \<comment> \<open>the stops of \<open>apiTripSolve\<close>: the filled fields, then the markers\<close>
  "tour_stops st =
     map (\<lambda>w. (lit ''WP'' @ digits (wp_id w), Query (trim (wp_text w)), if wp_demand w = 0 then None else Some (wp_demand w)))
       (filter (\<lambda>w. trim (wp_text w) \<noteq> []) (waypoints st))
     @ map (\<lambda>(i, p). (i, At (fst p) (snd p), None)) (stops st)"

definition ask_server :: "nat \<Rightarrow> wait \<Rightarrow> routing \<Rightarrow> routing" where
  \<comment> \<open>\<open>compute\<close> from the second test on; \<open>w\<close> holds the ends\<close>
  "ask_server n w st =
     (if \<not> w_waypoints w \<and> \<not> w_stops w then
        if \<not> routeLocationHasValue (w_from w) \<or> \<not> routeLocationHasValue (w_to w) then refuse EndsMissing NoEnds n st
        else st\<lparr>asked := Direct (w_from w) (w_to w) (w_options w) # asked st, calls := (n, ForAnswer w) # calls st\<rparr>
      else st\<lparr>asked := Tour (w_from w) (w_to w) (tour_stops st) (w_options w) # asked st,
              calls := (n, ForAnswer w) # calls st\<rparr>)"

definition no_start :: "(js \<Rightarrow> jsnum) \<Rightarrow> routing \<Rightarrow> bool" where
  "no_start number st \<longleftrightarrow> trim (shown (from_field st)) = [] \<and> resolvedRoutePoint number (from_field st) = None"

definition compute :: "(js \<Rightarrow> jsnum) \<Rightarrow> js \<Rightarrow> routing \<Rightarrow> routing" where
  "compute number options st =
     (let st = cancelRouteComputation st;
          n = controllers st;
          w = \<lparr>w_from = routeLocationForInput number (from_field st), w_to = routeLocationForInput number (to_field st),
               w_waypoints = list_ex (\<lambda>w. trim (wp_text w) \<noteq> []) (waypoints st), w_stops = (stops st \<noteq> []),
               w_gps = False, w_options = options\<rparr>;
          st = setRouteError None (st\<lparr>routeRequest := Some n, controllers := n + 1\<rparr>);
          st = setComputeDisabled True (st\<lparr>status_text := Computing, spinner := True\<rparr>)
      in if \<not> w_waypoints w \<and> \<not> w_stops w \<and> \<not> routeLocationHasValue (w_to w) then refuse GoalMissing NoGoal n st
         else if no_start number st
         then st\<lparr>status_text := Locating, calls := (n, ForPosition (w\<lparr>w_gps := True\<rparr>)) # calls st\<rparr>
         else ask_server n w st)"

definition forget_call :: "nat \<Rightarrow> routing \<Rightarrow> routing" where
  "forget_call n st = st\<lparr>calls := filter (\<lambda>c. fst c \<noteq> n) (calls st)\<rparr>"

definition own_position :: js where
  "own_position = JStr (lit ''Mein Standort'')"

definition set_located :: "(real \<Rightarrow> jstr) \<Rightarrow> (js \<Rightarrow> jsnum) \<Rightarrow> point \<Rightarrow> routing \<Rightarrow> routing" where
  "set_located num number p st =
     st\<lparr>from_field := taken (from_field st)
          (setResolvedRoutePoint num number (JNum (Fin (fst p))) (JNum (Fin (snd p))) own_position (from_field st))\<rparr>"

text \<open>The position has come (\<open>Inr\<close>) or cannot be had. A start that was entered meanwhile is kept.\<close>

definition position_arrives ::
  "(real \<Rightarrow> jstr) \<Rightarrow> (js \<Rightarrow> jsnum) \<Rightarrow> nat \<Rightarrow> failure + point \<Rightarrow> routing \<Rightarrow> routing" where
  "position_arrives num number n a st =
     (case map_of (calls st) n of
        Some (ForPosition w) \<Rightarrow>
          (let st = forget_call n st
           in if routeRequest st \<noteq> Some n then st
              else case a of
                Inl e \<Rightarrow> finish n (failed_route number n e st)
              | Inr p \<Rightarrow>
                  let st = (if no_start number st then (set_located num number p st)\<lparr>userLocation := Some p\<rparr> else st)
                  in ask_server n (w\<lparr>w_from := routeLocationForInput number (from_field st)\<rparr>) (st\<lparr>status_text := PositionKnown\<rparr>))
      | _ \<Rightarrow> st)"

text \<open>The answer of the server is shown; \<open>Inl\<close>: an exception on the way, after what had been shown.\<close>

definition take_end :: "(real \<Rightarrow> jstr) \<Rightarrow> (js \<Rightarrow> jsnum) \<Rightarrow> route_end \<Rightarrow> js \<Rightarrow> routing \<Rightarrow> (failure \<times> routing) + routing" where
  "take_end num number e v st =
     (if \<not> truthy v then Inr st
      else case setResolvedRouteResponsePoint num number v (field_at e st) of
        Inl _ \<Rightarrow> Inl (\<lparr>f_message = lit ''Cannot convert object to primitive value'', f_details = JUndef, f_abort = False\<rparr>, st)
      | Inr (_, f) \<Rightarrow> Inr (put_field e f st))"

definition show_direct ::
  "(real \<Rightarrow> jstr) \<Rightarrow> (js \<Rightarrow> jsnum) \<Rightarrow> point list \<Rightarrow> reply \<Rightarrow> routing \<Rightarrow> (failure \<times> routing) + routing" where
  "show_direct num number ps r st =
     bindr (take_end num number Start (jget (r_data r) ''from'') (renderPath ps r st)) (\<lambda>st.
     bindr (take_end num number Goal (jget (r_data r) ''to'') st) (\<lambda>st.
       Inr ((renderManeuvers (steps_of (r_data r)) (clearRouteLocationChoices Goal (clearRouteLocationChoices Start st)))
              \<lparr>status_text := RouteFound\<rparr>)))"

definition show_tour :: "point list \<Rightarrow> reply \<Rightarrow> routing \<Rightarrow> (failure \<times> routing) + routing" where
  "show_tour ps r st =
     (let st = (renderManeuvers (steps_of (r_data r)) (renderPath ps r st))\<lparr>status_text := TourFound\<rparr>
      in if is_array (or_else (jget (r_data r) ''order'') (JArr [])) then Inr st
         else Inl (\<lparr>f_message = lit ''orderIds.forEach is not a function'', f_details = JUndef, f_abort = False\<rparr>, st))"

definition no_route :: failure where
  "no_route = \<lparr>f_message = lit ''Keine befahrbare Route gefunden.'', f_details = JUndef, f_abort = False\<rparr>"

definition show_answer ::
  "(real \<Rightarrow> jstr) \<Rightarrow> (js \<Rightarrow> jsnum) \<Rightarrow> wait \<Rightarrow> reply \<Rightarrow> routing \<Rightarrow> (failure \<times> routing) + routing" where
  "show_answer num number w r st =
     (case r_path r of
        Some (p # ps) \<Rightarrow> if \<not> w_waypoints w \<and> \<not> w_stops w then show_direct num number (p # ps) r st else show_tour (p # ps) r st
      | _ \<Rightarrow> Inl (no_route, st))"

definition answer_arrives ::
  "(real \<Rightarrow> jstr) \<Rightarrow> (js \<Rightarrow> jsnum) \<Rightarrow> nat \<Rightarrow> failure + reply \<Rightarrow> routing \<Rightarrow> routing" where
  "answer_arrives num number n a st =
     (case map_of (calls st) n of
        Some (ForAnswer w) \<Rightarrow>
          (let st = forget_call n st
           in if routeRequest st \<noteq> Some n then st
              else finish n
                (case a of
                   Inl e \<Rightarrow> failed_route number n e st
                 | Inr r \<Rightarrow> (case show_answer num number w r st of
                               Inl (e, st) \<Rightarrow> failed_route number n e st
                             | Inr st \<Rightarrow> st)))
      | _ \<Rightarrow> st)"

section \<open>Buttons and fields\<close>

definition drop_route :: "routing \<Rightarrow> routing" where
  "drop_route st = st\<lparr>polyline := None, currentRouteMeta := None, currentRouteBBox := None, lastRoutePath := None\<rparr>"

definition field_typed :: "route_end \<Rightarrow> jstr \<Rightarrow> routing \<Rightarrow> routing" where
  \<comment> \<open>an \<open>input\<close> event of a field: its own listener, then that of its suggestions\<close>
  "field_typed e s st = clearRouteLocationChoices e (cancelRouteComputation (put_field e (typed s (field_at e st)) st))"

definition clear_click :: "routing \<Rightarrow> routing" where
  "clear_click st =
     (let st = drop_route ((cancelRouteComputation st)\<lparr>stops := []\<rparr>);
          st = field_typed Goal [] (field_typed Start [] st);
          st = st\<lparr>waypoints := [], status_text := Ready\<rparr>
      in setRouteEditing True (setRouteError None st))"

definition clearRoute_click :: "routing \<Rightarrow> routing" where
  "clearRoute_click st =
     setRouteEditing True (setRouteError None ((drop_route (cancelRouteComputation st))\<lparr>status_text := Ready\<rparr>))"

definition editRoute_click :: "routing \<Rightarrow> routing" where
  "editRoute_click st = setRouteEditing True (cancelRouteComputation st)"

definition returnToRoute_click :: "routing \<Rightarrow> routing" where
  "returnToRoute_click st = setRouteEditing False (setRouteError None (cancelRouteComputation st))"

definition suggestion_click :: "(real \<Rightarrow> jstr) \<Rightarrow> (js \<Rightarrow> jsnum) \<Rightarrow> route_end \<Rightarrow> js \<Rightarrow> routing \<Rightarrow> routing" where
  "suggestion_click num number e r st =
     (case applySearchResultToInput num number True r (field_at e st) of
        Inr (True, f) \<Rightarrow> clearRouteLocationChoices e (cancelRouteComputation (put_field e f st))
      | _ \<Rightarrow> st)"

definition choice_click :: "(real \<Rightarrow> jstr) \<Rightarrow> (js \<Rightarrow> jsnum) \<Rightarrow> route_end \<Rightarrow> js \<Rightarrow> routing \<Rightarrow> routing" where
  \<comment> \<open>a result below an ambiguous field\<close>
  "choice_click num number e r st =
     (case setResolvedSearchResult num number r (field_at e st) of
        Inr (True, f) \<Rightarrow> clearRouteLocationChoices e (put_field e f st)
      | _ \<Rightarrow> st)"

definition useLocation :: "(real \<Rightarrow> jstr) \<Rightarrow> (js \<Rightarrow> jsnum) \<Rightarrow> point \<Rightarrow> routing \<Rightarrow> routing" where
  "useLocation num number p st = (set_located num number p st)\<lparr>userLocation := Some p\<rparr>"

definition map_point :: "(real \<Rightarrow> jstr) \<Rightarrow> (js \<Rightarrow> jsnum) \<Rightarrow> js \<Rightarrow> route_end \<Rightarrow> point \<Rightarrow> routing \<Rightarrow> routing" where
  \<comment> \<open>"route from here", "route to here" of the menu of the map\<close>
  "map_point num number options e p st =
     (let st = setRouteEditing True st;
          st = cancelRouteComputation (put_field e (taken (field_at e st)
                 (setResolvedRoutePoint num number (JNum (Fin (fst p))) (JNum (Fin (snd p))) JUndef (field_at e st))) st)
      in if trim (shown (field_at (if e = Start then Goal else Start) st)) \<noteq> [] then compute number options st else st)"

definition marker_as_goal :: "(js \<Rightarrow> jsnum) \<Rightarrow> js \<Rightarrow> js \<Rightarrow> js \<Rightarrow> routing \<Rightarrow> routing" where
  "marker_as_goal number options lat lon st =
     (if formatLatLon number lat lon SEARCH_COORD_PRECISION = [] then st
      else compute number options (st\<lparr>to_field := setStopAsDestination number lat lon (to_field st)\<rparr>))"

definition addWaypoint :: "jstr \<Rightarrow> routing \<Rightarrow> routing" where
  "addWaypoint s st =
     st\<lparr>waypoints := waypoints st @ [\<lparr>wp_id = waypointSeq st, wp_text = s, wp_demand = 0\<rparr>], waypointSeq := waypointSeq st + 1\<rparr>"

definition addWaypointWithValue :: "jstr \<Rightarrow> routing \<Rightarrow> routing" where
  "addWaypointWithValue s st = (addWaypoint s st)\<lparr>scheduled := True\<rparr>"

definition waypoint_typed :: "nat \<Rightarrow> jstr \<Rightarrow> routing \<Rightarrow> routing" where
  "waypoint_typed i s st =
     cancelRouteComputation (st\<lparr>waypoints := map (\<lambda>w. if wp_id w = i then w\<lparr>wp_text := s\<rparr> else w) (waypoints st)\<rparr>)"

definition waypoint_chosen :: "(js \<Rightarrow> jsnum) \<Rightarrow> nat \<Rightarrow> js \<Rightarrow> routing \<Rightarrow> routing" where
  "waypoint_chosen number i r st =
     (if resultCoordValue number r = [] then st else waypoint_typed i (resultCoordValue number r) st)"

definition removeWaypoint :: "(js \<Rightarrow> jsnum) \<Rightarrow> js \<Rightarrow> nat \<Rightarrow> routing \<Rightarrow> routing" where
  "removeWaypoint number options i st =
     (case find (\<lambda>w. wp_id w = i) (waypoints st) of
        None \<Rightarrow> st
      | Some w \<Rightarrow>
          let st = st\<lparr>waypoints := remove1 w (waypoints st)\<rparr>
          in if trim (wp_text w) \<noteq> [] then compute number options st else st)"

section \<open>The machine\<close>

text \<open>The first argument of an event that may compute a route are the settings the form shows then.\<close>

datatype route_event =
    Go js
  | Timer js
  | Position nat "failure + point"
  | Answered nat "failure + reply"
  | FieldTyped route_end jstr
  | SuggestionPicked route_end js
  | ChoicePicked route_end js
  | LocationFound point
  | MapPoint js route_end point
  | MarkerAsGoal js js js
  | AgentText route_end jstr
  | NewWaypoint
  | WaypointOf jstr
  | WaypointTyped nat jstr
  | WaypointChosen nat js
  | WaypointChanged
  | WaypointRemoved js nat
  | MarkerSet jstr point
  | MarkerGone jstr
  | ClearAll
  | ClearRoute
  | EditRoute
  | ReturnToRoute

fun route_step :: "(real \<Rightarrow> jstr) \<Rightarrow> (js \<Rightarrow> jsnum) \<Rightarrow> route_event \<Rightarrow> routing \<Rightarrow> routing" where
  "route_step num number (Go options) st = compute number options st"
| "route_step num number (Timer options) st = (if scheduled st then compute number options st else st)"
| "route_step num number (Position n a) st = position_arrives num number n a st"
| "route_step num number (Answered n a) st = answer_arrives num number n a st"
| "route_step num number (FieldTyped e s) st = field_typed e s st"
| "route_step num number (SuggestionPicked e r) st = suggestion_click num number e r st"
| "route_step num number (ChoicePicked e r) st = choice_click num number e r st"
| "route_step num number (LocationFound p) st = useLocation num number p st"
| "route_step num number (MapPoint options e p) st = map_point num number options e p st"
| "route_step num number (MarkerAsGoal options lat lon) st = marker_as_goal number options lat lon st"
| "route_step num number (AgentText e s) st = put_field e (assigned s (field_at e st)) st"
| "route_step num number NewWaypoint st = addWaypoint [] st"
| "route_step num number (WaypointOf s) st = addWaypointWithValue s st"
| "route_step num number (WaypointTyped i s) st = waypoint_typed i s st"
| "route_step num number (WaypointChosen i r) st = waypoint_chosen number i r st"
| "route_step num number WaypointChanged st = st\<lparr>scheduled := True\<rparr>"
| "route_step num number (WaypointRemoved options i) st = removeWaypoint number options i st"
| "route_step num number (MarkerSet i p) st = st\<lparr>stops := stops st @ [(i, p)]\<rparr>"
| "route_step num number (MarkerGone i) st = st\<lparr>stops := filter (\<lambda>s. fst s \<noteq> i) (stops st)\<rparr>"
| "route_step num number ClearAll st = clear_click st"
| "route_step num number ClearRoute st = clearRoute_click st"
| "route_step num number EditRoute st = editRoute_click st"
| "route_step num number ReturnToRoute st = returnToRoute_click st"

definition init_routing :: routing where
  "init_routing = \<lparr>from_field = empty_field, to_field = empty_field, from_choices = None, to_choices = None,
     waypoints = [], waypointSeq = 1, stops = [], routeRequest = None, controllers = 0, calls = [], scheduled = False,
     asked = [], currentRouteMeta = None, currentRouteBBox = None, polyline = None, lastRoutePath = None, maneuvers = [],
     route_error = None, status_text = Ready, spinner = False, disabled = False, go_text = First,
     panel = panel_for True False, userLocation = None\<rparr>"

section \<open>The route that is shown\<close>

definition in_box :: "point \<times> point \<Rightarrow> point \<Rightarrow> bool" where
  "in_box b p \<longleftrightarrow> fst (fst b) \<le> fst p \<and> snd (fst b) \<le> snd p \<and> fst p \<le> fst (snd b) \<and> snd p \<le> snd (snd b)"

definition box_of :: "point list \<Rightarrow> point \<times> point" where
  "box_of ps = foldl extend_box (hd ps, hd ps) ps"

definition query_ok :: "query \<Rightarrow> bool" where
  "query_ok q = (case q of Direct a b _ \<Rightarrow> routeLocationHasValue a \<and> routeLocationHasValue b | _ \<Rightarrow> True)"

definition whole_route :: "point list option \<Rightarrow> bool \<Rightarrow> (point \<times> point) option \<Rightarrow> point list option \<Rightarrow> bool" where
  "whole_route line meta box last_path \<longleftrightarrow>
     (case line of
        None \<Rightarrow> \<not> meta \<and> box = None
      | Some ps \<Rightarrow> ps \<noteq> [] \<and> meta \<and> last_path = Some ps \<and> box = Some (box_of ps))"

text \<open>A route is there as a whole or not at all, the panel fits, an error is visible, and what it says of the
  previous route is true.\<close>

definition panel_ok :: "panel \<Rightarrow> bool \<Rightarrow> bool" where
  "panel_ok p route \<longleftrightarrow> p = panel_for (\<not> editor_hidden p) route \<and> (route \<or> \<not> editor_hidden p)"

definition route_ok :: "routing \<Rightarrow> bool" where
  "route_ok st \<longleftrightarrow>
     whole_route (polyline st) (currentRouteMeta st \<noteq> None) (currentRouteBBox st) (lastRoutePath st)
     \<and> panel_ok (panel st) (currentRouteMeta st \<noteq> None)
     \<and> (route_error st \<noteq> None \<longrightarrow> \<not> editor_hidden (panel st) \<and> routeRequest st = None)
     \<and> (\<forall>m. route_error st = Some (m, True) \<longrightarrow> currentRouteMeta st \<noteq> None)
     \<and> list_all query_ok (asked st)"

definition busy_ok :: "routing \<Rightarrow> bool" where
  "busy_ok st \<longleftrightarrow>
     spinner st = (routeRequest st \<noteq> None) \<and> disabled st = (routeRequest st \<noteq> None)
     \<and> go_text st = (if disabled st then Busy else if currentRouteMeta st \<noteq> None then Again else First)
     \<and> (\<forall>n. routeRequest st = Some n \<longrightarrow> n < controllers st \<and> n \<in> fst ` set (calls st))
     \<and> distinct (map fst (calls st)) \<and> (\<forall>n\<in>fst ` set (calls st). n < controllers st)"

definition routing_ok :: "routing \<Rightarrow> bool" where
  "routing_ok st \<longleftrightarrow> route_ok st \<and> busy_ok st"

lemmas ok_defs = routing_ok_def route_ok_def busy_ok_def

lemma panel_for_ok [simp]: "panel_ok (panel_for e r) r' \<longleftrightarrow> (e \<or> r') \<and> (e \<longrightarrow> r = r')" "editor_hidden (panel_for e r) \<longleftrightarrow> \<not> e"
  by (auto simp: panel_ok_def panel_for_def)

lemma init_routing_ok: "routing_ok init_routing"
  by (simp add: ok_defs init_routing_def whole_route_def)

lemma put_frame [simp]:
  "routing_ok (put_field e f st) = routing_ok st"
  "routing_ok (put_choices e c st) = routing_ok st"
  by (cases e; simp add: put_field_def put_choices_def ok_defs)+

lemma cancel_ok: "routing_ok st \<Longrightarrow> routing_ok (cancelRouteComputation st)"
  by (cases "routeRequest st") (simp_all add: cancelRouteComputation_def setComputeDisabled_def ok_defs Let_def)

lemma cancel_idle [simp]:
  "routeRequest (cancelRouteComputation st) = None"
  "controllers (cancelRouteComputation st) = controllers st"
  "polyline (cancelRouteComputation st) = polyline st"
  "currentRouteMeta (cancelRouteComputation st) = currentRouteMeta st"
  by (simp_all add: cancelRouteComputation_def setComputeDisabled_def Let_def)

text \<open>Between two waits the computation in progress is not among those that wait: \<open>running n\<close> is the invariant
  there, and \<open>finish\<close> or a new wait restores \<open>routing_ok\<close>.\<close>

definition running :: "nat \<Rightarrow> routing \<Rightarrow> bool" where
  "running n st \<longleftrightarrow> route_ok (st\<lparr>routeRequest := None\<rparr>) \<and> spinner st \<and> disabled st \<and> routeRequest st = Some n
     \<and> n < controllers st \<and> distinct (map fst (calls st)) \<and> (\<forall>m\<in>fst ` set (calls st). m < controllers st \<and> m \<noteq> n)"

lemma running_editing: "running n st \<Longrightarrow> running n (setRouteEditing True st)"
  by (simp add: running_def route_ok_def setRouteEditing_def Let_def)

lemma running_finish: "running n st \<Longrightarrow> routing_ok (finish n st) \<and> routeRequest (finish n st) = None"
  by (simp add: running_def ok_defs finish_def setComputeDisabled_def)

lemma running_error:
  "running n st \<Longrightarrow> (k \<longrightarrow> currentRouteMeta st \<noteq> None) \<Longrightarrow> running n (setRouteError (Some (m, k)) (setRouteEditing True st))"
  by (simp add: running_def route_ok_def setRouteEditing_def setRouteError_def Let_def)

lemma running_frame [simp]:
  "running n (st\<lparr>status_text := s\<rparr>) = running n st"
  "running n (st\<lparr>maneuvers := ms\<rparr>) = running n st"
  "running n (st\<lparr>userLocation := u\<rparr>) = running n st"
  "running n (st\<lparr>from_field := f\<rparr>) = running n st"
  "running n (put_field e f st) = running n st"
  "running n (put_choices e c st) = running n st"
  by (cases e; simp add: running_def route_ok_def put_field_def put_choices_def)+

lemma running_waits:
  "running n st \<Longrightarrow> route_error st = None \<Longrightarrow> go_text st = Busy \<Longrightarrow> routing_ok (st\<lparr>calls := (n, ph) # calls st\<rparr>)"
  by (auto simp: running_def ok_defs)

lemma running_render:
  assumes "running n st" "route_error st = None"
  shows "running n (renderPath (p # ps) r st)"
  using assms by (simp add: running_def route_ok_def renderPath_def setRouteEditing_def Let_def whole_route_def box_of_def)

lemma running_failed: "running n st \<Longrightarrow> running n (failed_route number n e st)"
  using running_error [of n "st\<lparr>status_text := NotComputed\<rparr>" "currentRouteMeta st \<noteq> None" "routeErrorMessage e"]
  by (simp add: failed_route_def renderDisambiguationButtons_def)

lemma running_refuse: "running n st \<Longrightarrow> routing_ok (refuse s m n st) \<and> routeRequest (refuse s m n st) = None"
  using running_finish [OF running_error [of n "st\<lparr>status_text := s\<rparr>" False m]] by (simp add: refuse_def)

definition result_state :: "(failure \<times> routing) + routing \<Rightarrow> routing" where
  "result_state r = (case r of Inl (e, st) \<Rightarrow> st | Inr st \<Rightarrow> st)"

lemma running_bind:
  "running n (result_state r) \<Longrightarrow> (\<And>st. r = Inr st \<Longrightarrow> running n st \<Longrightarrow> running n (result_state (f st))) \<Longrightarrow>
   running n (result_state (bindr r f))"
  by (cases r) (auto simp: result_state_def)

lemma running_take: "running n st \<Longrightarrow> running n (result_state (take_end num number e v st))"
  by (auto simp: take_end_def result_state_def split: sum.split)

lemma running_show:
  assumes "running n st" "route_error st = None"
  shows "running n (result_state (show_answer num number w r st))"
proof -
  have "running n (result_state (show_direct num number (p # ps) r st))" for p ps
    unfolding show_direct_def
    by (intro running_bind running_take running_render assms)
      (simp_all add: result_state_def renderManeuvers_def)
  moreover have "running n (result_state (show_tour (p # ps) r st))" for p ps
    using running_render [OF assms, of p ps r] by (simp add: show_tour_def Let_def result_state_def renderManeuvers_def)
  ultimately show ?thesis
    using assms(1) by (auto simp: show_answer_def result_state_def split: option.split list.split)
qed

lemma running_of_ok:
  assumes "routing_ok st" "routeRequest st = Some n"
  shows "running n (forget_call n st)" "route_error (forget_call n st) = None" "go_text (forget_call n st) = Busy"
proof -
  show err: "route_error (forget_call n st) = None"
    using assms by (cases "route_error st") (simp_all add: ok_defs forget_call_def)
  show "go_text (forget_call n st) = Busy" using assms by (simp add: ok_defs forget_call_def)
  show "running n (forget_call n st)"
    using assms err by (simp add: ok_defs running_def forget_call_def distinct_map_filter)
qed

lemma forget_ok: "routing_ok st \<Longrightarrow> routeRequest st \<noteq> Some n \<Longrightarrow> routing_ok (forget_call n st)"
  by (auto simp: ok_defs forget_call_def distinct_map_filter)

lemma answer_ok:
  assumes "routing_ok st"
  shows "routing_ok (answer_arrives num number n a st)"
proof (cases "\<exists>w. map_of (calls st) n = Some (ForAnswer w)")
  case True
  then obtain w where w: "map_of (calls st) n = Some (ForAnswer w)" by blast
  show ?thesis
  proof (cases "routeRequest st = Some n")
    case True
    note run = running_of_ok [OF assms True]
    have "running n (case show_answer num number w r (forget_call n st) of
        Inl (e, st) \<Rightarrow> failed_route number n e st | Inr st \<Rightarrow> st)" for r
      using running_show [OF run(1,2), of num number w r]
      by (cases "show_answer num number w r (forget_call n st)") (auto simp: result_state_def running_failed)
    then show ?thesis
      using running_failed [OF run(1)] running_finish True w
      by (cases a) (auto simp: answer_arrives_def Let_def forget_call_def)
  next
    case False
    then show ?thesis using forget_ok [OF assms False] w by (simp add: answer_arrives_def forget_call_def)
  qed
next
  case False
  then have "answer_arrives num number n a st = st"
    by (auto simp: answer_arrives_def split: option.split phase.split)
  with assms show ?thesis by simp
qed

lemma ask_ok:
  assumes "running n st" "route_error st = None" "go_text st = Busy"
  shows "routing_ok (ask_server n w st)"
  using assms running_refuse [OF assms(1), of EndsMissing NoEnds]
  by (auto simp: ask_server_def running_def ok_defs query_ok_def)

lemma ask_settles: "running n st \<Longrightarrow> routeRequest (ask_server n w st) = None \<or> map_of (calls (ask_server n w st)) n = Some (ForAnswer w)"
  using running_refuse [of n st EndsMissing NoEnds] by (simp add: ask_server_def)

lemma position_ok:
  assumes "routing_ok st"
  shows "routing_ok (position_arrives num number n a st)"
proof (cases "\<exists>w. map_of (calls st) n = Some (ForPosition w)")
  case True
  then obtain w where w: "map_of (calls st) n = Some (ForPosition w)" by blast
  show ?thesis
  proof (cases "routeRequest st = Some n")
    case True
    note run = running_of_ok [OF assms True]
    let ?st = "forget_call n st"
    have "running n (finish_arg)" if "finish_arg = failed_route number n e ?st" for e finish_arg
      using running_failed [OF run(1)] that by simp
    then have "routing_ok (finish n (failed_route number n e ?st))" for e using running_finish by blast
    moreover have "running n ((set_located num number p ?st)\<lparr>userLocation := Some p\<rparr>)" for p
      using run(1) by (simp add: set_located_def)
    ultimately show ?thesis
      using ask_ok run w True
      by (cases a) (auto simp: position_arrives_def Let_def set_located_def forget_call_def)
  next
    case False
    then show ?thesis using forget_ok [OF assms False] w by (simp add: position_arrives_def forget_call_def)
  qed
next
  case False
  then have "position_arrives num number n a st = st"
    by (auto simp: position_arrives_def split: option.split phase.split)
  with assms show ?thesis by simp
qed

definition begun :: "routing \<Rightarrow> routing" where
  \<comment> \<open>the state of \<open>compute\<close> before its first test\<close>
  "begun st = (let st = cancelRouteComputation st; n = controllers st
     in setComputeDisabled True ((setRouteError None (st\<lparr>routeRequest := Some n, controllers := n + 1\<rparr>))
          \<lparr>status_text := Computing, spinner := True\<rparr>))"

lemma begun_running:
  assumes "routing_ok st"
  shows "running (controllers st) (begun st)" "route_error (begun st) = None" "go_text (begun st) = Busy"
    "routeRequest (begun st) = Some (controllers st)" "controllers (begun st) = controllers st + 1" "waypoints (begun st) = waypoints st" "stops (begun st) = stops st"
    "from_field (begun st) = from_field st" "to_field (begun st) = to_field st"
proof -
  have "routing_ok (cancelRouteComputation st)" using assms by (rule cancel_ok)
  then show "running (controllers st) (begun st)" "route_error (begun st) = None" "go_text (begun st) = Busy"
    "routeRequest (begun st) = Some (controllers st)" "controllers (begun st) = controllers st + 1"
    by (auto simp: begun_def Let_def setComputeDisabled_def setRouteError_def running_def ok_defs)
  show "waypoints (begun st) = waypoints st" "stops (begun st) = stops st"
    "from_field (begun st) = from_field st" "to_field (begun st) = to_field st"
    by (simp_all add: begun_def Let_def setComputeDisabled_def setRouteError_def cancelRouteComputation_def)
qed

lemma compute_begun:
  "\<exists>w. compute number options st = refuse GoalMissing NoGoal (controllers st) (begun st)
     \<or> compute number options st = (begun st)\<lparr>status_text := Locating, calls := (controllers st, ForPosition w) # calls (begun st)\<rparr>
     \<or> compute number options st = ask_server (controllers st) w (begun st)"
  by (auto simp: compute_def begun_def Let_def)

lemma compute_ok: "routing_ok st \<Longrightarrow> routing_ok (compute number options st)"
proof -
  assume "routing_ok st"
  note b = begun_running [OF this]
  from compute_begun [of number options st] obtain w where
    "compute number options st = refuse GoalMissing NoGoal (controllers st) (begun st)
     \<or> compute number options st = (begun st)\<lparr>status_text := Locating, calls := (controllers st, ForPosition w) # calls (begun st)\<rparr>
     \<or> compute number options st = ask_server (controllers st) w (begun st)" by blast
  then show ?thesis
    using running_refuse [OF b(1)] ask_ok [OF b(1-3)]
      running_waits [of "controllers st" "(begun st)\<lparr>status_text := Locating\<rparr>"] b(1-3) by auto
qed

lemma routing_frame [simp]:
  "routing_ok (st\<lparr>from_field := f\<rparr>) = routing_ok st"
  "routing_ok (st\<lparr>to_field := f\<rparr>) = routing_ok st"
  "routing_ok (st\<lparr>waypoints := ws\<rparr>) = routing_ok st"
  "routing_ok (st\<lparr>waypointSeq := i\<rparr>) = routing_ok st"
  "routing_ok (st\<lparr>stops := ss\<rparr>) = routing_ok st"
  "routing_ok (st\<lparr>scheduled := b\<rparr>) = routing_ok st"
  "routing_ok (st\<lparr>status_text := t\<rparr>) = routing_ok st"
  "routing_ok (st\<lparr>userLocation := u\<rparr>) = routing_ok st"
  by (simp_all add: ok_defs)

lemma typed_ok: "routing_ok st \<Longrightarrow> routing_ok (field_typed e s st)"
  by (simp add: field_typed_def cancel_ok)

text \<open>Nothing runs: a button that drops the route, or changes the view, leaves everything in order.\<close>

lemma idle_editing: "routing_ok st \<Longrightarrow> routeRequest st = None \<Longrightarrow> routing_ok (setRouteEditing True st)"
  by (simp add: ok_defs setRouteEditing_def Let_def)

lemma idle_result: "routing_ok st \<Longrightarrow> routeRequest st = None \<Longrightarrow> routing_ok (setRouteEditing False (setRouteError None st))"
  by (cases "currentRouteMeta st") (simp_all add: ok_defs setRouteEditing_def setRouteError_def Let_def)

lemma idle_drop: "routing_ok st \<Longrightarrow> routeRequest st = None \<Longrightarrow> routing_ok (setRouteEditing True (setRouteError None (drop_route st)))"
  by (simp add: ok_defs setRouteEditing_def setRouteError_def drop_route_def Let_def whole_route_def)

lemma cancel_none: "routeRequest st = None \<Longrightarrow> cancelRouteComputation st = st\<lparr>scheduled := False\<rparr>"
  by (simp add: cancelRouteComputation_def Let_def)

lemma clear_click_ok:
  assumes "routing_ok st"
  shows "routing_ok (clear_click st)"
proof -
  define c where "c = cancelRouteComputation st"
  have c: "routing_ok c" "routeRequest c = None" using cancel_ok [OF assms] by (simp_all add: c_def)
  then show ?thesis
    unfolding clear_click_def c_def [symmetric]
    by (simp add: ok_defs drop_route_def field_typed_def field_at_def put_field_def put_choices_def cancel_none
        setRouteEditing_def setRouteError_def Let_def whole_route_def)
qed

lemma map_point_ok:
  assumes "routing_ok st"
  shows "routing_ok (map_point num number options e p st)"
proof -
  have "routing_ok (cancelRouteComputation (put_field e f (setRouteEditing True st)))" for f
    using assms
    by (cases "routeRequest st"; cases e)
      (simp_all add: cancelRouteComputation_def setComputeDisabled_def put_field_def setRouteEditing_def ok_defs Let_def)
  then show ?thesis by (simp add: map_point_def Let_def compute_ok)
qed

lemma route_step_ok: "routing_ok st \<Longrightarrow> routing_ok (route_step num number ev st)"
proof (induction num number ev st rule: route_step.induct)
  case (9 num number options e p st)
  then show ?case by (simp add: map_point_ok)
next
  case (20 num number st)
  then show ?case by (simp add: clear_click_ok)
next
  case (21 num number st)
  then show ?case
    using idle_drop [of "cancelRouteComputation st"] cancel_ok [of st]
    by (simp add: clearRoute_click_def drop_route_def setRouteError_def setRouteEditing_def Let_def ok_defs)
qed (auto simp: compute_ok position_ok answer_ok typed_ok suggestion_click_def choice_click_def useLocation_def set_located_def
    cancel_ok marker_as_goal_def addWaypoint_def addWaypointWithValue_def waypoint_typed_def waypoint_chosen_def removeWaypoint_def
    editRoute_click_def returnToRoute_click_def idle_editing idle_result Let_def
    split: sum.split bool.split option.split)

lemma route_reachable_ok: "routing_ok (fold (route_step num number) evs init_routing)"
proof -
  have "routing_ok st \<Longrightarrow> routing_ok (fold (route_step num number) evs st)" for st
    by (induction evs arbitrary: st) (simp_all add: route_step_ok)
  then show ?thesis using init_routing_ok by blast
qed

section \<open>One computation at a time\<close>

definition later :: "routing \<Rightarrow> routing \<Rightarrow> bool" where
  "later st st' \<longleftrightarrow> controllers st \<le> controllers st'
     \<and> (\<forall>m. routeRequest st' = Some m \<longrightarrow> routeRequest st = Some m \<or> controllers st \<le> m)"

lemma later_trans: "later a b \<Longrightarrow> later b c \<Longrightarrow> later a c"
  unfolding later_def by fastforce

lemma later_same: "controllers st' = controllers st \<Longrightarrow> routeRequest st' = routeRequest st \<or> routeRequest st' = None \<Longrightarrow> later st st'"
  by (auto simp: later_def)

lemma put_request [simp]:
  "routeRequest (put_field e f st) = routeRequest st" "controllers (put_field e f st) = controllers st"
  "routeRequest (put_choices e c st) = routeRequest st" "controllers (put_choices e c st) = controllers st"
  "routeRequest (setRouteEditing b st) = routeRequest st" "controllers (setRouteEditing b st) = controllers st"
  "routeRequest (setRouteError m st) = routeRequest st" "controllers (setRouteError m st) = controllers st"
  "routeRequest (renderPath ps r st) = routeRequest st" "controllers (renderPath ps r st) = controllers st"
  "routeRequest (forget_call n st) = routeRequest st" "controllers (forget_call n st) = controllers st"
  "routeRequest (failed_route number n x st) = routeRequest st" "controllers (failed_route number n x st) = controllers st"
  "controllers (finish n st) = controllers st"
  by (auto simp: put_field_def put_choices_def setRouteEditing_def setRouteError_def renderPath_def forget_call_def
      failed_route_def renderDisambiguationButtons_def finish_def setComputeDisabled_def Let_def split: route_end.split list.split)

lemma finish_request: "routeRequest (finish n st) = None \<or> routeRequest (finish n st) = routeRequest st"
  by (simp add: finish_def setComputeDisabled_def)

lemma finish_later: "later st (finish n st)"
  using finish_request [of n st] by (intro later_same) auto

lemma refuse_later: "later st (refuse s m n st)"
proof -
  have "later st (setRouteError (Some (m, False)) (setRouteEditing True (st\<lparr>status_text := s\<rparr>)))"
    by (intro later_same) simp_all
  then show ?thesis unfolding refuse_def using finish_later by (rule later_trans)
qed

lemma ask_later: "later st (ask_server n w st)"
  by (simp add: ask_server_def refuse_later later_same)

lemma compute_later: "routing_ok st \<Longrightarrow> later st (compute number options st)"
proof -
  assume "routing_ok st"
  note b = begun_running [OF this]
  from compute_begun [of number options st] obtain w where c:
    "compute number options st = refuse GoalMissing NoGoal (controllers st) (begun st)
     \<or> compute number options st = (begun st)\<lparr>status_text := Locating, calls := (controllers st, ForPosition w) # calls (begun st)\<rparr>
     \<or> compute number options st = ask_server (controllers st) w (begun st)" by blast
  have "later st (begun st)" using b(4,5) by (simp add: later_def)
  moreover have "later (begun st) (compute number options st)"
    using c by (elim disjE) (simp_all only: refuse_later ask_later, simp add: later_same)
  ultimately show ?thesis by (rule later_trans)
qed

lemma take_later: "routeRequest (result_state (take_end num number e v st)) = routeRequest st"
  "controllers (result_state (take_end num number e v st)) = controllers st"
  by (auto simp: take_end_def result_state_def split: sum.split)

lemma show_later:
  "routeRequest (result_state (show_answer num number w r st)) = routeRequest st"
  "controllers (result_state (show_answer num number w r st)) = controllers st"
proof -
  have bind: "controllers (result_state (bindr x f)) = c \<and> routeRequest (result_state (bindr x f)) = q"
    if "controllers (result_state x) = c \<and> routeRequest (result_state x) = q"
      "\<And>s. controllers s = c \<and> routeRequest s = q \<Longrightarrow> controllers (result_state (f s)) = c \<and> routeRequest (result_state (f s)) = q"
    for x f c q
    using that by (cases x) (auto simp: result_state_def)
  have "controllers (result_state (show_direct num number (p # ps) r st)) = controllers st
      \<and> routeRequest (result_state (show_direct num number (p # ps) r st)) = routeRequest st" for p ps
    unfolding show_direct_def
    by (intro bind) (simp_all add: take_later result_state_def [of "Inr _"] renderManeuvers_def)
  moreover have "controllers (result_state (show_tour (p # ps) r st)) = controllers st
      \<and> routeRequest (result_state (show_tour (p # ps) r st)) = routeRequest st" for p ps
    by (simp add: show_tour_def Let_def result_state_def renderManeuvers_def)
  ultimately show "routeRequest (result_state (show_answer num number w r st)) = routeRequest st"
    "controllers (result_state (show_answer num number w r st)) = controllers st"
    by (auto simp: show_answer_def result_state_def [of "Inl _"] split: option.split list.split)
qed

lemma answer_later: "later st (answer_arrives num number n a st)"
proof -
  let ?st = "forget_call n st"
  have forget: "later st ?st" by (intro later_same) simp_all
  have shown: "later ?st (case show_answer num number w r ?st of Inl (e, s) \<Rightarrow> failed_route number n e s | Inr s \<Rightarrow> s)" for w r
    using show_later [of num number w r ?st] by (intro later_same) (auto simp: result_state_def split: sum.splits prod.splits)
  have failed: "later ?st (failed_route number n e ?st)" for e by (intro later_same) simp_all
  have "later st (finish n (case a of Inl e \<Rightarrow> failed_route number n e ?st
      | Inr r \<Rightarrow> (case show_answer num number w r ?st of Inl (e, s) \<Rightarrow> failed_route number n e s | Inr s \<Rightarrow> s)))" for w
    using later_trans [OF forget later_trans [OF shown finish_later]] later_trans [OF forget later_trans [OF failed finish_later]]
    by (cases a) simp_all
  moreover have "later st st" by (simp add: later_def)
  ultimately show ?thesis
    using forget unfolding answer_arrives_def Let_def by (simp split: option.split phase.split)
qed

lemma position_later: "later st (position_arrives num number n a st)"
proof -
  let ?st = "forget_call n st"
  have forget: "later st ?st" by (intro later_same) simp_all
  have failed: "later ?st (failed_route number n e ?st)" for e by (intro later_same) simp_all
  have located: "later ?st ((if no_start number ?st then (set_located num number p ?st)\<lparr>userLocation := Some p\<rparr> else ?st)
      \<lparr>status_text := PositionKnown\<rparr>)" for p
    by (intro later_same) (simp_all add: set_located_def)
  have refl: "later st st" by (simp add: later_def)
  show ?thesis
  proof (cases a)
    case (Inl e)
    then show ?thesis
      using forget refl later_trans [OF forget later_trans [OF failed finish_later]]
      unfolding position_arrives_def Let_def by (simp split: option.split phase.split)
  next
    case (Inr p)
    then show ?thesis
      using forget refl later_trans [OF forget later_trans [OF located ask_later]]
      unfolding position_arrives_def Let_def by (simp split: option.split phase.split)
  qed
qed

lemma cancel_later: "later st (cancelRouteComputation st)"
  by (intro later_same) simp_all

lemma typed_later: "later st (field_typed e s st)"
  by (intro later_same) (simp_all add: field_typed_def)

lemma drop_request [simp]: "routeRequest (drop_route st) = routeRequest st" "controllers (drop_route st) = controllers st"
  by (simp_all add: drop_route_def)

lemma route_step_later: "routing_ok st \<Longrightarrow> later st (route_step num number ev st)"
proof (induction num number ev st rule: route_step.induct)
  case (9 num number options e p st)
  let ?st = "cancelRouteComputation (put_field e (taken (field_at e (setRouteEditing True st)) (setResolvedRoutePoint num number
     (JNum (Fin (fst p))) (JNum (Fin (snd p))) JUndef (field_at e (setRouteEditing True st)))) (setRouteEditing True st))"
  have one: "later st ?st" by (intro later_same) simp_all
  have "routing_ok ?st"
    using map_point_ok [OF 9, of num number options e p] 9
    by (cases "routeRequest st"; cases e)
      (simp_all add: cancelRouteComputation_def setComputeDisabled_def put_field_def setRouteEditing_def ok_defs Let_def)
  then have "later ?st (compute number options ?st)" by (rule compute_later)
  then have "later st (compute number options ?st)" using one later_trans by blast
  then show ?case using one by (simp add: map_point_def Let_def)
next
  case (10 num number options lat lon st)
  then show ?case
    using compute_later [of "st\<lparr>to_field := setStopAsDestination number lat lon (to_field st)\<rparr>" number options]
    by (simp add: marker_as_goal_def later_def)
next
  case (17 num number options i st)
  then show ?case
    using compute_later [of "st\<lparr>waypoints := ws\<rparr>" number options for ws]
    by (auto simp: removeWaypoint_def Let_def later_def split: option.split)
qed (auto simp: compute_later position_later answer_later typed_later waypoint_chosen_def waypoint_typed_def
    suggestion_click_def choice_click_def useLocation_def set_located_def addWaypoint_def addWaypointWithValue_def
    clear_click_def clearRoute_click_def editRoute_click_def returnToRoute_click_def field_typed_def Let_def
    intro!: later_same split: sum.split bool.split option.split)

interpretation planner: latest_wins routeRequest "\<lambda>st. {..<controllers st}" "route_step num number" routing_ok
  for num number
proof
  fix st :: routing and t
  show "routing_ok st \<Longrightarrow> routeRequest st = Some t \<Longrightarrow> t \<in> {..<controllers st}" by (simp add: ok_defs)
next
  fix st ev
  assume ok: "routing_ok st"
  show "routing_ok (route_step num number ev st)" using ok by (rule route_step_ok)
  show "{..<controllers st} \<subseteq> {..<controllers (route_step num number ev st)}"
    using route_step_later [OF ok, of num number ev] by (auto simp: later_def)
  show "routeRequest (route_step num number ev st) = Some t \<Longrightarrow> t \<in> {..<controllers st} \<Longrightarrow> routeRequest st = Some t" for t
    using route_step_later [OF ok, of num number ev] by (auto simp: later_def)
qed

text \<open>C16: Only the latest computation of a route has an effect: once a computation has been overtaken by another or
  cancelled by a change of the fields or a button, whatever happens afterwards, neither the position nor the answer
  it waited for changes anything on the page.\<close>

theorem overtaken_route_ignored:
  assumes "n < controllers (fold (route_step num number) before init_routing)"
    and "routeRequest (fold (route_step num number) before init_routing) \<noteq> Some n"
    and "now = fold (route_step num number) after (fold (route_step num number) before init_routing)"
  shows "route_step num number (Answered n a) now \<in> {now, forget_call n now}
         \<and> route_step num number (Position n p) now \<in> {now, forget_call n now}"
proof -
  have "planner.stale n now"
    using assms planner.stale_run [OF route_reachable_ok] by (simp add: planner.stale_def)
  then have "routeRequest now \<noteq> Some n" by (simp add: planner.stale_def)
  then show ?thesis
    by (auto simp: answer_arrives_def position_arrives_def Let_def forget_call_def split: option.split phase.split)
qed

lemma live_waits:
  assumes "routing_ok st" "routeRequest st = Some n"
  obtains ph where "map_of (calls st) n = Some ph"
  using assms that by (cases "map_of (calls st) n") (auto simp: ok_defs map_of_eq_None_iff)

lemma busy_iff: "routing_ok st \<Longrightarrow> spinner st = (routeRequest st \<noteq> None) \<and> disabled st = (routeRequest st \<noteq> None)"
  by (simp add: ok_defs)

lemma answer_ends:
  assumes "routing_ok st" "map_of (calls st) n = Some (ForAnswer w)" "routeRequest st \<in> {None, Some n}"
  shows "routeRequest (answer_arrives num number n a st) = None"
proof -
  let ?x = "\<lambda>r. case show_answer num number w r (forget_call n st) of Inl (e, st) \<Rightarrow> failed_route number n e st | Inr st \<Rightarrow> st"
  have "routeRequest (?x r) = routeRequest st" for r
    using show_later(1) [of num number w r "forget_call n st"] by (auto simp: result_state_def split: sum.splits prod.splits)
  then have "routeRequest (finish n (case a of Inl e \<Rightarrow> failed_route number n e (forget_call n st) | Inr r \<Rightarrow> ?x r)) = None"
    if "routeRequest st = Some n" using that by (cases a) (simp_all add: finish_def setComputeDisabled_def)
  then show ?thesis using assms(2,3) by (auto simp: answer_arrives_def Let_def)
qed

lemma position_ends:
  assumes "routing_ok st" "map_of (calls st) n = Some (ForPosition w)" "routeRequest st = Some n"
  shows "routeRequest (position_arrives num number n p st) = None
         \<or> (\<exists>w. map_of (calls (position_arrives num number n p st)) n = Some (ForAnswer w)
              \<and> routeRequest (position_arrives num number n p st) = Some n)"
proof (cases p)
  case (Inl e)
  then show ?thesis using assms by (simp add: position_arrives_def Let_def finish_def setComputeDisabled_def)
next
  case (Inr q)
  let ?st = "forget_call n st"
  let ?s = "(if no_start number ?st then (set_located num number q ?st)\<lparr>userLocation := Some q\<rparr> else ?st)\<lparr>status_text := PositionKnown\<rparr>"
  have "running n ?s" using running_of_ok [OF assms(1,3)] by (simp add: set_located_def)
  then have "routeRequest (ask_server n v ?s) = None \<or> map_of (calls (ask_server n v ?s)) n = Some (ForAnswer v) \<and> routeRequest (ask_server n v ?s) = Some n" for v
    using running_refuse [of n ?s EndsMissing NoEnds] by (auto simp: ask_server_def running_def)
  moreover have "\<exists>v. position_arrives num number n p st = ask_server n v ?s"
    using assms Inr unfolding position_arrives_def Let_def by (intro exI) simp
  ultimately show ?thesis by metis
qed

text \<open>C18: The planner never stays busy: whenever the page shows that a route is computed, that computation waits for
  the position or for the server, and it ends with the answer, or with the answer after the position, whether these
  are a result or an error: then the spinner is off and the button can be used.\<close>

theorem computation_ends:
  assumes "st = fold (route_step num number) evs init_routing" "spinner st"
  shows "\<exists>n w. routeRequest st = Some n \<and>
    (map_of (calls st) n = Some (ForAnswer w) \<and> (\<forall>a. \<not> spinner (route_step num number (Answered n a) st)
        \<and> \<not> disabled (route_step num number (Answered n a) st))
     \<or> map_of (calls st) n = Some (ForPosition w) \<and>
       (\<forall>p a. \<not> spinner (route_step num number (Answered n a) (route_step num number (Position n p) st))
        \<and> \<not> disabled (route_step num number (Answered n a) (route_step num number (Position n p) st))))"
proof -
  have ok: "routing_ok st" using route_reachable_ok assms(1) by simp
  then obtain n where n: "routeRequest st = Some n" using assms(2) busy_iff by fastforce
  obtain ph where ph: "map_of (calls st) n = Some ph" using live_waits [OF ok n] .
  show ?thesis
  proof (cases ph)
    case (ForAnswer w)
    have "routeRequest (answer_arrives num number n a st) = None" for a
      using answer_ends [OF ok] ph n ForAnswer by simp
    then show ?thesis using n ph ForAnswer busy_iff [OF answer_ok [OF ok]] by auto
  next
    case (ForPosition w)
    let ?s = "\<lambda>p. position_arrives num number n p st"
    have ok': "routing_ok (?s p)" for p using ok by (rule position_ok)
    have "routeRequest (answer_arrives num number n a (?s p)) = None" for a p
    proof (cases "map_of (calls (?s p)) n")
      case None
      then show ?thesis
        using position_ends [OF ok _ n, of w num number p] ph ForPosition by (auto simp: answer_arrives_def)
    next
      case (Some ph')
      then show ?thesis
        using position_ends [OF ok _ n, of w num number p] ph ForPosition answer_ends [OF ok', of p n _ num number a]
        by (cases ph') (auto simp: answer_arrives_def)
    qed
    then show ?thesis using n ph ForPosition busy_iff [OF answer_ok [OF ok']] by auto
  qed
qed



section \<open>Runs\<close>

text \<open>The user types a start and a destination and asks for the route.\<close>

definition asking :: "route_event list" where
  "asking = [FieldTyped Start [65], FieldTyped Goal [66], Go JNull]"

definition found :: reply where
  "found = \<lparr>r_path = Some [(48, 13), (49, 14)], r_data = JObj []\<rparr>"

definition offline :: failure where
  "offline = \<lparr>f_message = lit ''Failed to fetch'', f_details = JUndef, f_abort = False\<rparr>"

abbreviation run_plain :: "route_event list \<Rightarrow> routing" where
  "run_plain evs \<equiv> fold (route_step (\<lambda>_. []) (\<lambda>_. NaN)) evs init_routing"

lemma trim_letter: "trim [65] = [65]" "trim [66] = [66]"
  by (simp_all add: trim_def js_space_def)

lemmas route_eval = init_routing_def empty_field_def field_typed_def typed_def clearResolvedRoutePoint_def field_at_def put_field_def
  put_choices_def cancelRouteComputation_def compute_def routeLocationForInput_def resolvedRoutePoint_def setRouteError_def
  setComputeDisabled_def no_start_def ask_server_def trim_letter Let_def

lemma asked_state:
  "routeRequest (run_plain asking) = Some 0" "controllers (run_plain asking) = 1" "spinner (run_plain asking)"
  "map_of (calls (run_plain asking)) 0 = Some (ForAnswer \<lparr>w_from = Query [65], w_to = Query [66], w_waypoints = False,
     w_stops = False, w_gps = False, w_options = JNull\<rparr>)"
  "asked (run_plain asking) = [Direct (Query [65]) (Query [66]) JNull]"
  by (simp_all add: asking_def route_eval)

theorem overtaken_route_ignored_witness:
  "routeRequest (run_plain (asking @ [FieldTyped Goal [67]])) = None
   \<and> polyline (route_step (\<lambda>_. []) (\<lambda>_. NaN) (Answered 0 (Inr found)) (run_plain (asking @ [FieldTyped Goal [67]]))) = None"
proof -
  have idle: "routeRequest (run_plain (asking @ [FieldTyped Goal [67]])) = None"
    "0 < controllers (run_plain (asking @ [FieldTyped Goal [67]]))" "polyline (run_plain (asking @ [FieldTyped Goal [67]])) = None"
    by (simp_all add: asking_def route_eval)
  have "routeRequest (run_plain (asking @ [FieldTyped Goal [67]])) \<noteq> Some 0" using idle(1) by simp
  from overtaken_route_ignored [OF idle(2) this, of "run_plain (asking @ [FieldTyped Goal [67]])" "[]" "Inr found" "Inr (48, 13)"]
  have "route_step (\<lambda>_. []) (\<lambda>_. NaN) (Answered 0 (Inr found)) (run_plain (asking @ [FieldTyped Goal [67]]))
     \<in> {run_plain (asking @ [FieldTyped Goal [67]]), forget_call 0 (run_plain (asking @ [FieldTyped Goal [67]]))}"
    by simp
  then show ?thesis using idle by (auto simp: forget_call_def)
qed

theorem computation_ends_witness:
  "spinner (run_plain asking) \<and> \<not> spinner (route_step (\<lambda>_. []) (\<lambda>_. NaN) (Answered 0 (Inl offline)) (run_plain asking))"
  using computation_ends [OF refl asked_state(3)] asked_state(1,3,4) by auto



text \<open>Neither the button for the own position nor a choice below an ambiguous field cancels the computation under
  way: its answer puts the old start back.\<close>

lemma position_overwritten:
  fixes old_start :: js
  defines "old_start \<equiv> JObj [(lit ''label'', JStr [65]), (lit ''lat'', JNum (Fin 50)), (lit ''lon'', JNum (Fin 10))]"
  shows "shown (from_field (run_plain (asking @ [LocationFound (48, 13)]))) = lit ''Mein Standort''"
    "shown (from_field (run_plain (asking @ [LocationFound (48, 13),
       Answered 0 (Inr (found\<lparr>r_data := JObj [(lit ''from'', old_start)]\<rparr>))]))) = [65]"
proof -
  have own: "trim (lit ''Mein Standort'') = lit ''Mein Standort''" by (simp add: trim_def js_space_def lit_def)
  show "shown (from_field (run_plain (asking @ [LocationFound (48, 13)]))) = lit ''Mein Standort''"
    by (simp add: useLocation_def set_located_def setResolvedRoutePoint_def own_position_def taken_def own)
  have keeps: "routeRequest (run_plain (asking @ [LocationFound (48, 13)])) = Some 0"
    "calls (run_plain (asking @ [LocationFound (48, 13)])) = calls (run_plain asking)"
    by (simp_all add: useLocation_def set_located_def asked_state)
  have old: "jget (JObj [(lit ''from'', old_start)]) ''from'' = old_start" "jget (JObj [(lit ''from'', old_start)]) ''to'' = JUndef"
    "jget old_start ''lat'' = JNum (Fin 50)" "jget old_start ''lon'' = JNum (Fin 10)" "jget old_start ''label'' = JStr [65]" "truthy old_start"
    by (simp_all add: old_start_def)
  have "normalizeLatLon (\<lambda>_. NaN) (attr_js x) (attr_js y) = None" for x y
    by (cases x; cases y) (simp_all add: normalizeLatLon_def to_num_def)
  then have none: "resolvedRoutePoint (\<lambda>_. NaN) f = None" for f
    by (simp add: resolvedRoutePoint_def Let_def)
  have put_back: "setResolvedRouteResponsePoint (\<lambda>_. []) (\<lambda>_. NaN) old_start f = Inr (True, f\<lparr>shown := [65], resolvedLat := Some [],
      resolvedLon := Some [], resolvedDisplay := Some [65]\<rparr>)" for f
    by (simp add: setResolvedRouteResponsePoint_def old none setResolvedRoutePoint_def or_else_def Let_def trim_letter)
  show "shown (from_field (run_plain (asking @ [LocationFound (48, 13),
       Answered 0 (Inr (found\<lparr>r_data := JObj [(lit ''from'', old_start)]\<rparr>))]))) = [65]"
    using keeps asked_state(4)
    by (simp add: answer_arrives_def forget_call_def show_answer_def show_direct_def found_def take_end_def old put_back
        renderPath_def setRouteEditing_def renderManeuvers_def put_choices_def put_field_def finish_def setComputeDisabled_def
        Let_def del: jget.simps)
qed

end
