(* ===== verification/Pins.thy ===== *)
theory Pins
  imports Markup RouteFields
begin

text \<open>
  The markers a user sets on the map (\<open>src/cmd/web/app.js\<close>, \<open>saveCustomMarkers\<close> to \<open>syncStopIcons\<close>): they can
  be renamed, moved, given an icon and deleted, serve as stops of a tour, and are kept in the browser. A
  handler that saves has the argument \<open>w\<close>: whether the browser's storage can be written. What the map
  library draws is left out.
\<close>

section \<open>State\<close>

record pin =
  pin_id :: js
  pin_at :: point
  pin_label :: js
  pin_icon :: js

text \<open>The item of the storage: absent, not JSON, or a value.\<close>

type_synonym pin_store = "js option option"

record pins =
  pin_list :: "pin list"
  stopSeq :: nat
  pin_store :: pin_store

definition pushpin :: jstr where "pushpin = [0xD83D, 0xDCCD]"

definition pin_js :: "pin \<Rightarrow> js" where
  "pin_js p = JObj [(lit ''id'', pin_id p), (lit ''lat'', JNum (Fin (fst (pin_at p)))), (lit ''lon'', JNum (Fin (snd (pin_at p)))),
     (lit ''label'', pin_label p), (lit ''icon'', pin_icon p)]"

definition saveCustomMarkers :: "bool \<Rightarrow> pins \<Rightarrow> pins" where
  "saveCustomMarkers w st = (if w then st\<lparr>pin_store := Some (Some (clone (JArr (map pin_js (pin_list st)))))\<rparr> else st)"

datatype pin_err = NotReadable | NotText

definition html_of :: "js \<Rightarrow> pin_err + jstr" where
  \<comment> \<open>\<open>escapeHtml\<close> on a value: what is not empty and not a string has no \<open>replaceAll\<close>\<close>
  "html_of v = (if \<not> truthy v then Inr [] else case v of JStr s \<Rightarrow> Inr (escapeHtml s) | _ \<Rightarrow> Inl NotText)"

definition createStopMarker :: "js \<Rightarrow> point \<Rightarrow> js \<Rightarrow> js \<Rightarrow> pin_err + pin" where
  "createStopMarker i p label icon =
     (let label = or_else label i; icon = or_else icon (JStr pushpin)
      in bindr (html_of icon) (\<lambda>_. bindr (html_of label) (\<lambda>_.
           Inr \<lparr>pin_id = i, pin_at = p, pin_label = label, pin_icon = icon\<rparr>)))"

definition marker_number :: "jstr \<Rightarrow> nat option" where
  \<comment> \<open>the group of \<open>/^M(\d+)$/\<close>\<close>
  "marker_number s = (case s of [] \<Rightarrow> None | c # ds \<Rightarrow> if c = 77 \<and> ds \<noteq> [] \<and> list_all is_digit ds then Some (undigits ds) else None)"

section \<open>Handlers\<close>

text \<open>The loop of \<open>restoreCustomMarkers\<close>: the markers so far and the largest number. It stops with the first
  exception, which nothing catches.\<close>

fun restore_loop :: "(real \<Rightarrow> jstr) \<Rightarrow> (js \<Rightarrow> jsnum) \<Rightarrow> js list \<Rightarrow> pin list \<Rightarrow> nat \<Rightarrow> pin_err + pin list \<times> nat" where
  "restore_loop num number [] ps m = Inr (ps, m)"
| "restore_loop num number (e # es) ps m =
     throw_if (nullish e) NotReadable
       (case normalizeLatLon number (jget e ''lat'') (jget e ''lon'') of
          None \<Rightarrow> restore_loop num number es ps m
        | Some p \<Rightarrow>
            if \<not> truthy (jget e ''id'') then restore_loop num number es ps m
            else bindr (createStopMarker (jget e ''id'') p (jget e ''label'') (jget e ''icon'')) (\<lambda>x.
              case js_string num (jget e ''id'') of
                None \<Rightarrow> Inl NotText
              | Some s \<Rightarrow> restore_loop num number es (ps @ [x])
                            (case marker_number s of Some k \<Rightarrow> max m k | None \<Rightarrow> m)))"

definition restoreCustomMarkers :: "(real \<Rightarrow> jstr) \<Rightarrow> (js \<Rightarrow> jsnum) \<Rightarrow> pins \<Rightarrow> pin_err + pins" where
  "restoreCustomMarkers num number st =
     (let saved = (case pin_store st of Some (Some v) \<Rightarrow> v | _ \<Rightarrow> JArr [])
      in if elems saved = [] then Inr st
         else bindr (restore_loop num number (elems saved) (pin_list st) 0) (\<lambda>(ps, m).
           Inr (st\<lparr>pin_list := ps, stopSeq := max (stopSeq st) (m + 1)\<rparr>)))"

definition load_pins :: "(real \<Rightarrow> jstr) \<Rightarrow> (js \<Rightarrow> jsnum) \<Rightarrow> pin_store \<Rightarrow> pin_err + pins" where
  \<comment> \<open>a load of the page\<close>
  "load_pins num number s = restoreCustomMarkers num number \<lparr>pin_list = [], stopSeq = 1, pin_store = s\<rparr>"

definition set_marker :: "bool \<Rightarrow> point \<Rightarrow> pins \<Rightarrow> pin_err + pins" where
  "set_marker w p st =
     bindr (createStopMarker (JStr (77 # digits (stopSeq st))) p JUndef JUndef) (\<lambda>x.
       Inr (saveCustomMarkers w (st\<lparr>pin_list := pin_list st @ [x], stopSeq := stopSeq st + 1\<rparr>)))"

definition deleteStopMarker :: "bool \<Rightarrow> js \<Rightarrow> pins \<Rightarrow> pins" where
  "deleteStopMarker w i st =
     (case find (\<lambda>x. pin_id x = i) (pin_list st) of
        None \<Rightarrow> st
      | Some x \<Rightarrow> saveCustomMarkers w (st\<lparr>pin_list := remove1 x (pin_list st)\<rparr>))"

definition deleteAllStopMarkers :: "bool \<Rightarrow> bool \<Rightarrow> pins \<Rightarrow> pins" where
  "deleteAllStopMarkers w confirmed st =
     (if pin_list st = [] \<or> \<not> confirmed then st else saveCustomMarkers w (st\<lparr>pin_list := [], stopSeq := 1\<rparr>))"

definition reset_markers :: "pins \<Rightarrow> pins" where
  \<comment> \<open>the markers in the handler of the button that resets the planner\<close>
  "reset_markers st = st\<lparr>pin_list := [], stopSeq := 1\<rparr>"

definition change_pin :: "bool \<Rightarrow> js \<Rightarrow> (pin \<Rightarrow> pin) \<Rightarrow> pins \<Rightarrow> pins" where
  "change_pin w i f st = saveCustomMarkers w (st\<lparr>pin_list := map (\<lambda>x. if pin_id x = i then f x else x) (pin_list st)\<rparr>)"

definition rename_pin :: "bool \<Rightarrow> js \<Rightarrow> jstr option \<Rightarrow> pins \<Rightarrow> pins" where
  "rename_pin w i answer st =
     (case answer of
        None \<Rightarrow> st
      | Some s \<Rightarrow> if trim s = [] then st else change_pin w i (\<lambda>x. x\<lparr>pin_label := JStr (trim s)\<rparr>) st)"

definition CUSTOM_MARKER_ICONS :: "jstr list" where
  "CUSTOM_MARKER_ICONS = [pushpin, [0xD83C, 0xDFE0], [0xD83C, 0xDFE2], [0x26FD], [0xD83C, 0xDD7F, 0xFE0F], [0xD83D, 0xDEA7],
     [0x2B50], [0xD83D, 0xDCE6]]"

definition pick_icon :: "bool \<Rightarrow> js \<Rightarrow> nat \<Rightarrow> pins \<Rightarrow> pins" where
  "pick_icon w i k st =
     (if k < length CUSTOM_MARKER_ICONS
      then change_pin w i (\<lambda>x. x\<lparr>pin_icon := JStr (CUSTOM_MARKER_ICONS ! k)\<rparr>) st else st)"

definition drag_pin :: "bool \<Rightarrow> js \<Rightarrow> point \<Rightarrow> pins \<Rightarrow> pins" where
  "drag_pin w i p st = change_pin w i (\<lambda>x. x\<lparr>pin_at := p\<rparr>) st"

datatype pin_event =
    SetMarker bool point
  | DeleteMarker bool js
  | DeleteAll bool bool
  | Reset
  | Rename bool js "jstr option"
  | PickIcon bool js nat
  | Drag bool js point
  | Reload

text \<open>\<open>Inl\<close>: an exception that stops the script of the page.\<close>

fun pin_step :: "(real \<Rightarrow> jstr) \<Rightarrow> (js \<Rightarrow> jsnum) \<Rightarrow> pins \<Rightarrow> pin_event \<Rightarrow> pin_err + pins" where
  "pin_step num number st (SetMarker w p) = set_marker w p st"
| "pin_step num number st (DeleteMarker w i) = Inr (deleteStopMarker w i st)"
| "pin_step num number st (DeleteAll w c) = Inr (deleteAllStopMarkers w c st)"
| "pin_step num number st Reset = Inr (reset_markers st)"
| "pin_step num number st (Rename w i a) = Inr (rename_pin w i a st)"
| "pin_step num number st (PickIcon w i k) = Inr (pick_icon w i k st)"
| "pin_step num number st (Drag w i p) = Inr (drag_pin w i p st)"
| "pin_step num number st Reload = load_pins num number (pin_store st)"

section \<open>The list of markers\<close>

text \<open>What the list and the pins show for an order of the stops; \<open>rank_text\<close> is \<open>idToRank.get(id) || idx + 1\<close>.\<close>

definition listed :: "js list \<Rightarrow> pins \<Rightarrow> pin list" where
  "listed order st =
     (let order = (if order \<noteq> [] then order else map pin_id (pin_list st))
      in List.map_filter (\<lambda>i. find (\<lambda>x. pin_id x = i) (pin_list st)) order)"

definition rank_of_pin :: "js list \<Rightarrow> nat \<Rightarrow> pin \<Rightarrow> nat" where
  \<comment> \<open>a later place of the same id wins, as in \<open>Map.set\<close>\<close>
  "rank_of_pin order k x =
     (case find (\<lambda>j. order ! j = pin_id x) (rev [0..<length order]) of Some j \<Rightarrow> j + 1 | None \<Rightarrow> k + 1)"

definition syncStopIcons :: "js list \<Rightarrow> pins \<Rightarrow> nat list" where
  "syncStopIcons order st = map (\<lambda>(k, x). rank_of_pin order k x) (enumerate 0 (pin_list st))"

section \<open>Invariant\<close>

fun full_text :: "js \<Rightarrow> bool" where
  "full_text (JStr s) = (s \<noteq> [])"
| "full_text _ = False"

definition pin_ok :: "pin \<Rightarrow> bool" where
  "pin_ok x \<longleftrightarrow> full_text (pin_id x) \<and> full_text (pin_label x) \<and> full_text (pin_icon x)"

definition number_of :: "js \<Rightarrow> nat option" where
  "number_of i = (case i of JStr s \<Rightarrow> marker_number s | _ \<Rightarrow> None)"

definition below :: "nat \<Rightarrow> pin \<Rightarrow> bool" where
  "below n x \<longleftrightarrow> (case number_of (pin_id x) of Some k \<Rightarrow> k < n | None \<Rightarrow> True)"

definition list_ok :: "pin list \<Rightarrow> bool" where
  "list_ok ps \<longleftrightarrow> list_all pin_ok ps \<and> distinct (map pin_id ps)"

definition pins_ok :: "pins \<Rightarrow> bool" where
  "pins_ok st \<longleftrightarrow> list_ok (pin_list st) \<and> list_all (below (stopSeq st)) (pin_list st)
     \<and> (pin_store st = None \<or> (\<exists>ps. list_ok ps \<and> pin_store st = Some (Some (JArr (map pin_js ps)))))"

lemma full_text_iff: "full_text v \<longleftrightarrow> (\<exists>s. v = JStr s \<and> s \<noteq> [])"
  by (cases v) auto

lemma clone_pin: "pin_ok x \<Longrightarrow> clone (pin_js x) = pin_js x"
  by (auto simp: pin_ok_def full_text_iff pin_js_def)

lemma save_pins_ok: "pins_ok st \<Longrightarrow> pins_ok (saveCustomMarkers w st)"
proof -
  assume ok: "pins_ok st"
  then have "map clone (map pin_js (pin_list st)) = map pin_js (pin_list st)"
    by (auto simp: pins_ok_def list_ok_def list_all_iff clone_pin)
  then show ?thesis using ok by (auto simp: saveCustomMarkers_def pins_ok_def)
qed

lemma create_pin: "pin_ok x \<Longrightarrow> createStopMarker (pin_id x) (pin_at x) (pin_label x) (pin_icon x) = Inr x"
  by (auto simp: pin_ok_def full_text_iff createStopMarker_def or_else_def html_of_def Let_def)

lemma pin_js_get:
  "jget (pin_js x) ''id'' = pin_id x" "jget (pin_js x) ''lat'' = JNum (Fin (fst (pin_at x)))"
  "jget (pin_js x) ''lon'' = JNum (Fin (snd (pin_at x)))" "jget (pin_js x) ''label'' = pin_label x"
  "jget (pin_js x) ''icon'' = pin_icon x" "\<not> nullish (pin_js x)"
  by (simp_all add: pin_js_def)

lemma restore_pins:
  assumes "list_all pin_ok ps"
  shows "\<exists>m'. restore_loop num number (map pin_js ps) acc m = Inr (acc @ ps, m') \<and> m \<le> m' \<and> list_all (below (m' + 1)) ps"
  using assms
proof (induction ps arbitrary: acc m)
  case (Cons x ps)
  then have x: "pin_ok x" by simp
  then obtain s where s: "pin_id x = JStr s" "s \<noteq> []" by (auto simp: pin_ok_def full_text_iff)
  let ?m = "case marker_number s of Some k \<Rightarrow> max m k | None \<Rightarrow> m"
  obtain m' where m': "restore_loop num number (map pin_js ps) (acc @ [x]) ?m = Inr ((acc @ [x]) @ ps, m')" "?m \<le> m'"
    "list_all (below (m' + 1)) ps"
    using Cons.IH [of "acc @ [x]" ?m] Cons.prems by auto
  have "below (m' + 1) x" using m'(2) s by (auto simp: below_def number_of_def split: option.splits)
  moreover have "m \<le> m'" using m'(2) by (auto split: option.splits)
  moreover have "restore_loop num number (map pin_js (x # ps)) acc m = Inr (acc @ x # ps, m')"
    using m'(1) create_pin [OF x] s by (simp add: pin_js_get)
  ultimately show ?case using m'(3) by simp
qed simp

lemma load_pins_ok:
  assumes "list_ok ps"
  shows "\<exists>st. load_pins num number (Some (Some (JArr (map pin_js ps)))) = Inr st \<and> pin_list st = ps \<and> pins_ok st"
proof (cases "ps = []")
  case True
  then show ?thesis
    using assms by (auto simp: load_pins_def restoreCustomMarkers_def pins_ok_def intro!: exI [of _ "[]"])
next
  case False
  obtain m where m: "restore_loop num number (map pin_js ps) [] 0 = Inr (ps, m)" "list_all (below (m + 1)) ps"
    using restore_pins [of ps num number "[]" 0] assms by (auto simp: list_ok_def)
  then show ?thesis
    using False assms by (auto simp: load_pins_def restoreCustomMarkers_def pins_ok_def)
qed

lemma number_of_new: "marker_number (77 # digits n) = Some n"
  by (auto simp: marker_number_def list_all_iff digits_digit)

lemma new_pin: "createStopMarker (JStr (77 # digits n)) p JUndef JUndef =
    Inr \<lparr>pin_id = JStr (77 # digits n), pin_at = p, pin_label = JStr (77 # digits n), pin_icon = JStr pushpin\<rparr>"
  by (simp add: createStopMarker_def or_else_def html_of_def pushpin_def Let_def)

lemma set_marker_ok: "pins_ok st \<Longrightarrow> \<exists>st'. set_marker w p st = Inr st' \<and> pins_ok st'"
proof -
  assume ok: "pins_ok st"
  let ?x = "\<lparr>pin_id = JStr (77 # digits (stopSeq st)), pin_at = p, pin_label = JStr (77 # digits (stopSeq st)), pin_icon = JStr pushpin\<rparr>"
  have "pin_id ?x \<notin> pin_id ` set (pin_list st)"
  proof
    assume "pin_id ?x \<in> pin_id ` set (pin_list st)"
    then obtain y where "y \<in> set (pin_list st)" "pin_id y = pin_id ?x" by auto
    then have "below (stopSeq st) y" "number_of (pin_id y) = Some (stopSeq st)"
      using ok by (simp_all add: pins_ok_def list_all_iff number_of_def number_of_new)
    then show False by (simp add: below_def)
  qed
  moreover have "list_all (below (stopSeq st + 1)) (pin_list st)"
    using ok by (auto simp: pins_ok_def list_all_iff below_def split: option.splits)
  ultimately have "pins_ok (st\<lparr>pin_list := pin_list st @ [?x], stopSeq := stopSeq st + 1\<rparr>)"
    using ok by (auto simp: pins_ok_def list_ok_def pin_ok_def pushpin_def below_def number_of_def number_of_new)
  then show ?thesis by (simp add: set_marker_def new_pin save_pins_ok)
qed

lemma change_pin_ok:
  assumes "pins_ok st" "\<And>x. pin_ok x \<Longrightarrow> pin_ok (f x) \<and> pin_id (f x) = pin_id x"
  shows "pins_ok (change_pin w i f st)"
proof -
  have ids: "map pin_id (map (\<lambda>x. if pin_id x = i then f x else x) (pin_list st)) = map pin_id (pin_list st)"
    using assms by (auto simp: pins_ok_def list_ok_def list_all_iff)
  let ?ps = "map (\<lambda>x. if pin_id x = i then f x else x) (pin_list st)"
  have "distinct (map pin_id ?ps)" unfolding ids using assms(1) by (simp add: pins_ok_def list_ok_def)
  moreover have "list_all pin_ok ?ps" "list_all (below (stopSeq st)) ?ps"
    using assms by (auto simp: pins_ok_def list_ok_def list_all_iff below_def)
  ultimately have "pins_ok (st\<lparr>pin_list := ?ps\<rparr>)"
    using assms(1) by (simp add: pins_ok_def list_ok_def del: map_map)
  then show ?thesis unfolding change_pin_def by (rule save_pins_ok)
qed

lemma remove_pin_ok: "pins_ok st \<Longrightarrow> pins_ok (st\<lparr>pin_list := remove1 x (pin_list st)\<rparr>)"
proof -
  assume ok: "pins_ok st"
  have sub: "set (remove1 x (pin_list st)) \<subseteq> set (pin_list st)" by (rule set_remove1_subset)
  have "distinct (map pin_id (remove1 x (pin_list st)))"
    using ok sub by (auto simp: pins_ok_def list_ok_def distinct_map intro: inj_on_subset)
  then show ?thesis
    using ok sub by (auto simp: pins_ok_def list_ok_def list_all_iff)
qed

lemma pin_step_ok: "pins_ok st \<Longrightarrow> \<exists>st'. pin_step num number st ev = Inr st' \<and> pins_ok st'"
proof (cases ev)
  case (DeleteMarker w i)
  then show "pins_ok st \<Longrightarrow> ?thesis"
    by (auto simp: deleteStopMarker_def save_pins_ok remove_pin_ok split: option.split)
next
  case (DeleteAll w c)
  moreover have "pins_ok st \<Longrightarrow> pins_ok (st\<lparr>pin_list := [], stopSeq := 1\<rparr>)"
    by (auto simp: pins_ok_def list_ok_def)
  ultimately show "pins_ok st \<Longrightarrow> ?thesis" by (auto simp: deleteAllStopMarkers_def save_pins_ok)
next
  case Reset
  then show "pins_ok st \<Longrightarrow> ?thesis" by (auto simp: reset_markers_def pins_ok_def list_ok_def)
next
  case (Rename w i a)
  then show "pins_ok st \<Longrightarrow> ?thesis"
    by (auto simp: rename_pin_def pin_ok_def intro!: change_pin_ok split: option.split)
next
  case (PickIcon w i k)
  moreover have "full_text (JStr (CUSTOM_MARKER_ICONS ! k))" if "k < length CUSTOM_MARKER_ICONS"
    using nth_mem [OF that] by (auto simp: CUSTOM_MARKER_ICONS_def pushpin_def)
  ultimately show "pins_ok st \<Longrightarrow> ?thesis"
    by (auto simp: pick_icon_def pin_ok_def intro!: change_pin_ok)
next
  case (Drag w i p)
  then show "pins_ok st \<Longrightarrow> ?thesis" by (auto simp: drag_pin_def pin_ok_def intro!: change_pin_ok)
next
  case Reload
  have "pins_ok \<lparr>pin_list = [], stopSeq = 1, pin_store = None\<rparr>" by (simp add: pins_ok_def list_ok_def)
  then have none: "\<exists>st. load_pins num number None = Inr st \<and> pins_ok st"
    by (simp add: load_pins_def restoreCustomMarkers_def)
  assume "pins_ok st"
  then consider "pin_store st = None" | ps where "list_ok ps" "pin_store st = Some (Some (JArr (map pin_js ps)))"
    by (auto simp: pins_ok_def)
  then show ?thesis using none load_pins_ok [of _ num number] Reload by cases force+
qed (simp add: set_marker_ok)

definition run_pins :: "(real \<Rightarrow> jstr) \<Rightarrow> (js \<Rightarrow> jsnum) \<Rightarrow> pin_event list \<Rightarrow> pin_err + pins" where
  \<comment> \<open>from the first load of the page, with an empty storage\<close>
  "run_pins num number evs = foldr_err (pin_step num number) \<lparr>pin_list = [], stopSeq = 1, pin_store = None\<rparr> evs"

lemma run_pins_ok: "\<exists>st. run_pins num number evs = Inr st \<and> pins_ok st"
proof -
  have "pins_ok st \<Longrightarrow> \<exists>st'. foldr_err (pin_step num number) st evs = Inr st' \<and> pins_ok st'" for st
  proof (induction evs arbitrary: st)
    case (Cons ev evs)
    then show ?case using pin_step_ok [of st num number ev] by auto
  qed simp
  then show ?thesis by (simp add: run_pins_def pins_ok_def list_ok_def)
qed

text \<open>The markers of the user are safe: whatever is done with them, in any order and with any number of loads of the
  page in between, no two of them get the same ID, loading them never fails, and after they have been saved a new load
  of the page has the same markers, with their places, names and icons, in the same order.\<close>

theorem markers_survive_reload:
  "\<exists>st st'. run_pins num number evs = Inr st \<and> distinct (map pin_id (pin_list st))
     \<and> pin_step num number (saveCustomMarkers True st) Reload = Inr st' \<and> pin_list st' = pin_list st"
proof -
  obtain st where st: "run_pins num number evs = Inr st" "pins_ok st" using run_pins_ok by blast
  then have "map clone (map pin_js (pin_list st)) = map pin_js (pin_list st)"
    by (auto simp: pins_ok_def list_ok_def list_all_iff clone_pin)
  then have store: "pin_store (saveCustomMarkers True st) = Some (Some (JArr (map pin_js (pin_list st))))"
    by (simp add: saveCustomMarkers_def)
  obtain st' where "load_pins num number (Some (Some (JArr (map pin_js (pin_list st))))) = Inr st' \<and> pin_list st' = pin_list st"
    using load_pins_ok [of "pin_list st" num number] st(2) by (auto simp: pins_ok_def)
  then show ?thesis using st store by (auto simp: pins_ok_def list_ok_def)
qed

text \<open>The button that resets the planner does not save: the markers are back after the next load.\<close>

lemma reset_comes_back:
  "\<exists>st. run_pins num number [SetMarker True (48, 13), Reset, Reload] = Inr st \<and> length (pin_list st) = 1"
proof -
  have ok: "list_ok [\<lparr>pin_id = JStr (77 # digits 1), pin_at = (48, 13), pin_label = JStr (77 # digits 1), pin_icon = JStr pushpin\<rparr>]"
    by (simp add: list_ok_def pin_ok_def pushpin_def)
  from load_pins_ok [OF this, of num number] clone_pin ok show ?thesis
    by (auto simp: run_pins_def set_marker_def new_pin saveCustomMarkers_def reset_markers_def list_ok_def)
qed

text \<open>An entry \<open>null\<close> in the storage is read before it is tested.\<close>

lemma null_entry_throws: "load_pins num number (Some (Some (JArr [JNull]))) = Inl NotReadable"
  by (simp add: load_pins_def restoreCustomMarkers_def)

end
