(* ===== verification/Suggest.thy ===== *)
theory Suggest
  imports Requests RouteFields Markup
begin

text \<open>
  The suggestions below a field (\<open>makeSuggest\<close> of \<open>src/cmd/web/app.js\<close>): a short wait after typing, a
  request, the list of at most six results, and its use with the mouse and the keyboard. Every change of
  the text or of the list raises \<open>seq\<close>, and an answer counts only if it carries the present number. The
  computation of a route that typing cancels belongs to \<open>Routing\<close>. \<open>endpoint\<close> says that the field is the
  start or the destination and not a stop on the way.
\<close>

section \<open>State\<close>

datatype content =
    Nothing
  | Loading
  | NoResults
  | Options "js list"

record suggest =
  entry :: field
  seq :: nat
  timer :: "(nat \<times> jstr) option"        \<comment> \<open>the number and the text it was started with\<close>
  requests :: "(nat \<times> jstr) list"       \<comment> \<open>no answer yet\<close>
  reading :: "(nat \<times> jstr) list"        \<comment> \<open>the body of the answer is being read\<close>
  content :: content
  visible :: bool
  selectedIndex :: int
  active :: "int option"                  \<comment> \<open>\<open>aria-activedescendant\<close>\<close>
  on_map :: "js list"                     \<comment> \<open>the results shown on the map\<close>

definition cancelPending :: "suggest \<Rightarrow> suggest" where
  "cancelPending st = st\<lparr>seq := seq st + 1, timer := None\<rparr>"

definition hide :: "suggest \<Rightarrow> suggest" where
  "hide st = (cancelPending st)\<lparr>selectedIndex := - 1, content := Nothing, visible := False, active := None\<rparr>"

definition reveal :: "suggest \<Rightarrow> suggest" where
  "reveal st = (if content st = Nothing then st else st\<lparr>visible := True\<rparr>)"

definition options_of :: "suggest \<Rightarrow> js list" where
  "options_of st = (case content st of Options xs \<Rightarrow> xs | _ \<Rightarrow> [])"

definition updateActive :: "suggest \<Rightarrow> suggest" where
  "updateActive st =
     st\<lparr>active := (if 0 \<le> selectedIndex st \<and> selectedIndex st < int (length (options_of st)) then Some (selectedIndex st) else None)\<rparr>"

section \<open>Typing and answers\<close>

definition onInput :: "bool \<Rightarrow> jstr \<Rightarrow> suggest \<Rightarrow> suggest" where
  "onInput endpoint s st =
     (let st = cancelPending (st\<lparr>entry := (if endpoint then typed s (entry st) else (entry st)\<lparr>shown := s\<rparr>)\<rparr>);
          q = trim s
      in if length q < 2 then hide st
         else let st = reveal (st\<lparr>content := Loading\<rparr>)
              in st\<lparr>active := None, selectedIndex := - 1, timer := Some (seq st, q)\<rparr>)"

definition timer_fires :: "suggest \<Rightarrow> suggest" where
  "timer_fires st = (case timer st of None \<Rightarrow> st | Some r \<Rightarrow> st\<lparr>timer := None, requests := r # requests st\<rparr>)"

definition drop_number :: "nat \<Rightarrow> (nat \<times> jstr) list \<Rightarrow> (nat \<times> jstr) list" where
  "drop_number n = filter (\<lambda>r. fst r \<noteq> n)"

definition responded :: "nat \<Rightarrow> bool \<Rightarrow> suggest \<Rightarrow> suggest" where
  \<comment> \<open>\<open>fetch\<close> returns, with an error status or not\<close>
  "responded n good st =
     (case map_of (requests st) n of
        None \<Rightarrow> st
      | Some q \<Rightarrow>
          let st' = st\<lparr>requests := drop_number n (requests st)\<rparr>
          in if n \<noteq> seq st then st' else if \<not> good then hide st' else st'\<lparr>reading := (n, q) # reading st'\<rparr>)"

text \<open>What the list needs of a result: it can be read, and its two texts are strings.\<close>

definition listable :: "(real \<Rightarrow> jstr) \<Rightarrow> js \<Rightarrow> bool" where
  "listable num item \<longleftrightarrow> \<not> nullish item \<and> (case getResultPrimary item of JStr s \<Rightarrow> True | v \<Rightarrow> False)
     \<and> getResultSecondary num item \<noteq> None"

definition body_read :: "(real \<Rightarrow> jstr) \<Rightarrow> nat \<Rightarrow> js option \<Rightarrow> suggest \<Rightarrow> suggest" where
  \<comment> \<open>\<open>None\<close>: the body is no JSON\<close>
  "body_read num n body st =
     (case map_of (reading st) n of
        None \<Rightarrow> st
      | Some q \<Rightarrow>
          let st' = st\<lparr>reading := drop_number n (reading st)\<rparr>
          in if n \<noteq> seq st then st'
             else case body of
               None \<Rightarrow> hide st'
             | Some data \<Rightarrow>
                 let st' = st'\<lparr>selectedIndex := - 1\<rparr>
                 in if elems data = [] then reveal (st'\<lparr>content := NoResults\<rparr>)
                    else if \<not> list_all (listable num) (take 6 (elems data)) then hide st'
                    else reveal (updateActive (st'\<lparr>content := Options (take 6 (elems data)), on_map := elems data\<rparr>)))"

definition failed :: "nat \<Rightarrow> bool \<Rightarrow> suggest \<Rightarrow> suggest" where
  \<comment> \<open>\<open>fetch\<close> throws: no connection, or the request was aborted\<close>
  "failed n aborted st =
     (let st' = st\<lparr>requests := drop_number n (requests st), reading := drop_number n (reading st)\<rparr>
      in if n \<noteq> seq st \<or> aborted \<or> n \<notin> fst ` set (requests st @ reading st) then st' else hide st')"

section \<open>Choosing\<close>

definition choose_option :: "(real \<Rightarrow> jstr) \<Rightarrow> (js \<Rightarrow> jsnum) \<Rightarrow> bool \<Rightarrow> nat \<Rightarrow> suggest \<Rightarrow> suggest" where
  \<comment> \<open>a click on the option\<close>
  "choose_option num number endpoint i st =
     (if i < length (options_of st) then
        (case applySearchResultToInput num number endpoint (options_of st ! i) (entry st) of
           Inr (True, f) \<Rightarrow> hide (st\<lparr>entry := f\<rparr>)
         | _ \<Rightarrow> st)
      else st)"

datatype key = Escape | ArrowDown | ArrowUp | Enter

definition onKeyDown :: "(real \<Rightarrow> jstr) \<Rightarrow> (js \<Rightarrow> jsnum) \<Rightarrow> bool \<Rightarrow> key \<Rightarrow> suggest \<Rightarrow> suggest" where
  "onKeyDown num number endpoint k st =
     (let n = int (length (options_of st))
      in if k = Escape then hide st
         else if n = 0 then st
         else case k of
           ArrowDown \<Rightarrow> updateActive (st\<lparr>selectedIndex := min (selectedIndex st + 1) (n - 1)\<rparr>)
         | ArrowUp \<Rightarrow> updateActive (st\<lparr>selectedIndex := max (selectedIndex st - 1) 0\<rparr>)
         | _ \<Rightarrow> if 0 \<le> selectedIndex st then choose_option num number endpoint (nat (selectedIndex st)) st else st)"

definition consumes :: "key \<Rightarrow> suggest \<Rightarrow> bool" where
  \<comment> \<open>\<open>preventDefault\<close>: the key does not reach \<open>handleRouteEntryKeyDown\<close>, which computes the route on Enter\<close>
  "consumes k st =
     (let n = int (length (options_of st))
      in if k = Escape then visible st
         else n \<noteq> 0 \<and> (k = Enter \<longrightarrow> 0 \<le> selectedIndex st \<and> selectedIndex st < n))"

definition mouse_over :: "nat \<Rightarrow> suggest \<Rightarrow> suggest" where
  "mouse_over i st = (if i < length (options_of st) then updateActive (st\<lparr>selectedIndex := int i\<rparr>) else st)"

datatype suggest_event =
    Input jstr
  | Timer
  | Responded nat bool
  | BodyRead nat "js option"
  | Failed nat bool
  | Key key
  | MouseOver nat
  | Click nat
  | PointChange field          \<comment> \<open>another part of the page has set the field and says so\<close>
  | ClickElsewhere

fun suggest_step :: "(real \<Rightarrow> jstr) \<Rightarrow> (js \<Rightarrow> jsnum) \<Rightarrow> bool \<Rightarrow> suggest_event \<Rightarrow> suggest \<Rightarrow> suggest" where
  "suggest_step num number endpoint (Input s) st = onInput endpoint s st"
| "suggest_step num number endpoint Timer st = timer_fires st"
| "suggest_step num number endpoint (Responded n good) st = responded n good st"
| "suggest_step num number endpoint (BodyRead n body) st = body_read num n body st"
| "suggest_step num number endpoint (Failed n aborted) st = failed n aborted st"
| "suggest_step num number endpoint (Key k) st = onKeyDown num number endpoint k st"
| "suggest_step num number endpoint (MouseOver i) st = mouse_over i st"
| "suggest_step num number endpoint (Click i) st = choose_option num number endpoint i st"
| "suggest_step num number endpoint (PointChange f) st = hide (st\<lparr>entry := f\<rparr>)"
| "suggest_step num number endpoint ClickElsewhere st = hide st"

definition init_suggest :: suggest where
  "init_suggest = \<lparr>entry = empty_field, seq = 0, timer = None, requests = [], reading = [], content = Nothing, visible = False,
     selectedIndex = - 1, active = None, on_map = []\<rparr>"

section \<open>Invariant\<close>

definition asked_for :: "nat \<Rightarrow> jstr \<Rightarrow> nat \<times> jstr \<Rightarrow> bool" where
  \<comment> \<open>a request is for an earlier text, or for the one that is shown\<close>
  "asked_for n t r \<longleftrightarrow> fst r \<le> n \<and> (fst r = n \<longrightarrow> snd r = t)"

definition content_ok :: "content \<Rightarrow> bool \<Rightarrow> int \<Rightarrow> int option \<Rightarrow> bool" where
  "content_ok c v i a \<longleftrightarrow>
     v = (c \<noteq> Nothing) \<and> - 1 \<le> i \<and> i < (case c of Options xs \<Rightarrow> int (length xs) | _ \<Rightarrow> 0)
     \<and> a = (if 0 \<le> i then Some i else None)
     \<and> (case c of Options xs \<Rightarrow> xs \<noteq> [] \<and> length xs \<le> 6 | _ \<Rightarrow> True)"

definition pending :: "suggest \<Rightarrow> (nat \<times> jstr) list" where
  "pending st = (case timer st of Some r \<Rightarrow> [r] | None \<Rightarrow> []) @ requests st @ reading st"

definition of_number :: "nat \<Rightarrow> (nat \<times> jstr) list \<Rightarrow> (nat \<times> jstr) list" where
  "of_number n = filter (\<lambda>r. fst r = n)"

text \<open>At most one request has the present number, it asks for the text that is shown, and while it is under way the
  list says that the search runs.\<close>

definition suggest_ok :: "suggest \<Rightarrow> bool" where
  "suggest_ok st \<longleftrightarrow>
     list_all (asked_for (seq st) (trim (shown (entry st)))) (pending st)
     \<and> length (of_number (seq st) (pending st)) \<le> 1
     \<and> (of_number (seq st) (pending st) \<noteq> [] \<longrightarrow> content st = Loading)
     \<and> content_ok (content st) (visible st) (selectedIndex st) (active st)"

lemma of_number_simps [simp]:
  "of_number n (xs @ ys) = of_number n xs @ of_number n ys"
  "of_number n (drop_number m xs) = (if n = m then [] else of_number n xs)"
  "of_number n [] = []"
  "of_number n (r # xs) = (if fst r = n then r # of_number n xs else of_number n xs)"
  by (auto simp: of_number_def drop_number_def filter_empty_conv intro: filter_cong)

lemma of_later: "list_all (asked_for n t) rs \<Longrightarrow> n < m \<Longrightarrow> of_number m rs = []"
  by (fastforce simp: of_number_def list_all_iff asked_for_def filter_empty_conv)

lemma of_number_in: "r \<in> set rs \<Longrightarrow> fst r = n \<Longrightarrow> of_number n rs \<noteq> []"
  by (auto simp: of_number_def filter_empty_conv)

lemma content_options: "content st = Options xs \<Longrightarrow> options_of st = xs"
  by (simp add: options_of_def)

lemma asked_for_next: "list_all (asked_for n t) rs \<Longrightarrow> list_all (asked_for (Suc n) t') rs"
  by (fastforce simp: list_all_iff asked_for_def)

lemma pending_hide: "pending (hide st) = requests st @ reading st"
  by (simp add: pending_def hide_def cancelPending_def)

lemma hide_ok: "suggest_ok st \<Longrightarrow> suggest_ok (hide (st\<lparr>entry := f\<rparr>))"
proof -
  assume ok: "suggest_ok st"
  then have "list_all (asked_for (seq st) (trim (shown (entry st)))) (requests st @ reading st)"
    by (simp add: suggest_ok_def pending_def)
  then have "list_all (asked_for (Suc (seq st)) t) (requests st @ reading st)" "of_number (Suc (seq st)) (requests st @ reading st) = []" for t
    using asked_for_next of_later by blast+
  then show ?thesis by (simp add: suggest_ok_def pending_hide) (simp add: hide_def cancelPending_def content_ok_def)
qed

lemma hide_ok_same: "suggest_ok st \<Longrightarrow> suggest_ok (hide st)"
  using hide_ok [of st "entry st"] by simp

lemma active_ok:
  assumes "suggest_ok st" "content st = Options xs" "- 1 \<le> i" "i < int (length xs)"
  shows "suggest_ok (updateActive (st\<lparr>selectedIndex := i\<rparr>))"
  using assms by (simp add: suggest_ok_def updateActive_def content_ok_def options_of_def pending_def)

lemma drop_asked: "list_all P rs \<Longrightarrow> list_all P (drop_number n rs)"
  by (simp add: drop_number_def list_all_iff)

lemma drop_ok:
  assumes "suggest_ok st"
  shows "suggest_ok (st\<lparr>requests := drop_number n (requests st)\<rparr>)" "suggest_ok (st\<lparr>reading := drop_number n (reading st)\<rparr>)"
  using assms by (auto simp: suggest_ok_def pending_def drop_asked)

lemma input_ok: "suggest_ok st \<Longrightarrow> suggest_ok (onInput endpoint s st)"
proof -
  assume ok: "suggest_ok st"
  let ?f = "if endpoint then typed s (entry st) else (entry st)\<lparr>shown := s\<rparr>"
  have f: "shown ?f = s" by (simp add: typed_def clearResolvedRoutePoint_def)
  have old: "list_all (asked_for (seq st) (trim (shown (entry st)))) (requests st @ reading st)"
    using ok by (simp add: suggest_ok_def pending_def)
  then have rs: "list_all (asked_for (Suc (seq st)) t) (requests st @ reading st)" "of_number (Suc (seq st)) (requests st @ reading st) = []"
    "list_all (asked_for (Suc (Suc (seq st))) t) (requests st @ reading st)" "of_number (Suc (Suc (seq st))) (requests st @ reading st) = []" for t
    using asked_for_next of_later [OF old, of "Suc (seq st)"] of_later [OF old, of "Suc (Suc (seq st))"] by (blast, simp, blast, simp)
  show ?thesis
  proof (cases "length (trim s) < 2")
    case True
    then show ?thesis
      using rs(3,4) by (auto simp: onInput_def Let_def hide_def cancelPending_def suggest_ok_def content_ok_def pending_def)
  next
    case False
    then show ?thesis
      using rs(1,2) f
      by (auto simp: onInput_def Let_def cancelPending_def reveal_def suggest_ok_def content_ok_def asked_for_def pending_def)
  qed
qed

lemma timer_ok: "suggest_ok st \<Longrightarrow> suggest_ok (timer_fires st)"
  by (cases "timer st") (auto simp: timer_fires_def suggest_ok_def pending_def)

lemma responded_ok: "suggest_ok st \<Longrightarrow> suggest_ok (responded n good st)"
proof -
  assume ok: "suggest_ok st"
  note dropped = drop_ok(1) [OF ok, of n]
  have moved: "suggest_ok (st\<lparr>requests := drop_number n (requests st), reading := (n, q) # reading st\<rparr>)"
    if q: "map_of (requests st) n = Some q" for q
  proof -
    have m: "(n, q) \<in> set (requests st)" using q by (rule map_of_SomeD)
    then have "asked_for (seq st) (trim (shown (entry st))) (n, q)"
      using ok by (auto simp: suggest_ok_def pending_def list_all_iff)
    moreover have "of_number n (requests st) \<noteq> []" using m of_number_in by fastforce
    ultimately show ?thesis
      using ok by (cases "of_number n (requests st)") (auto simp: suggest_ok_def pending_def drop_asked)
  qed
  then show ?thesis
    using ok dropped hide_ok_same [OF dropped] by (auto simp: responded_def Let_def split: option.split)
qed

lemma body_ok: "suggest_ok st \<Longrightarrow> suggest_ok (body_read num n body st)"
proof (cases "map_of (reading st) n")
  case (Some q)
  assume ok: "suggest_ok st"
  let ?st = "st\<lparr>reading := drop_number n (reading st)\<rparr>"
  note dropped = drop_ok(2) [OF ok, of n]
  show ?thesis
  proof (cases "n = seq st")
    case True
    have m: "(n, q) \<in> set (reading st)" using Some by (rule map_of_SomeD)
    then have live: "of_number n (reading st) \<noteq> []" using of_number_in by fastforce
    then have load: "content st = Loading" "of_number (seq st) (pending ?st) = []"
      using ok True by (cases "of_number n (reading st)"; auto simp: suggest_ok_def pending_def)+
    then have sel: "selectedIndex st = - 1" "active st = None"
      using ok by (auto simp: suggest_ok_def content_ok_def)
    have pend: "pending (?st\<lparr>selectedIndex := i, content := c, on_map := xs\<rparr>) = pending ?st" for i c xs by (simp add: pending_def)
    have shown_ok: "suggest_ok (reveal (updateActive (?st\<lparr>selectedIndex := - 1, content := c, on_map := xs\<rparr>)))"
      if "c \<noteq> Nothing" "case c of Options ys \<Rightarrow> ys \<noteq> [] \<and> length ys \<le> 6 | _ \<Rightarrow> True" for c xs
      using dropped load(2) sel that
      by (simp add: suggest_ok_def updateActive_def reveal_def content_ok_def pending_def split: content.splits)
    have hidden: "suggest_ok (hide (?st\<lparr>selectedIndex := - 1\<rparr>))"
      using hide_ok_same [OF dropped] by (simp add: hide_def cancelPending_def)
    have none: "reveal (updateActive (?st\<lparr>selectedIndex := - 1, content := NoResults, on_map := on_map st\<rparr>)) = reveal (?st\<lparr>selectedIndex := - 1, content := NoResults\<rparr>)"
      using sel by (simp add: updateActive_def reveal_def)
    show ?thesis
      using Some True hide_ok_same [OF dropped] hidden shown_ok [of NoResults "on_map st"] none shown_ok
      by (auto simp: body_read_def Let_def split: option.split)
  qed (use Some dropped in \<open>simp add: body_read_def\<close>)
qed (simp add: body_read_def)

lemma failed_ok: "suggest_ok st \<Longrightarrow> suggest_ok (failed n aborted st)"
proof -
  assume ok: "suggest_ok st"
  have "suggest_ok (st\<lparr>requests := drop_number n (requests st), reading := drop_number n (reading st)\<rparr>)"
    using drop_ok(2) [OF drop_ok(1) [OF ok, of n], of n] by simp
  then show ?thesis using hide_ok_same by (auto simp: failed_def Let_def)
qed

lemma choose_ok: "suggest_ok st \<Longrightarrow> suggest_ok (choose_option num number endpoint i st)"
  using hide_ok by (auto simp: choose_option_def split: sum.split bool.split)

lemma select_ok:
  assumes "suggest_ok st" "options_of st \<noteq> []" "- 1 \<le> i" "i < int (length (options_of st))"
  shows "suggest_ok (updateActive (st\<lparr>selectedIndex := i\<rparr>))"
  using assms active_ok by (cases "content st") (simp_all add: options_of_def)

lemma selected_range: "suggest_ok st \<Longrightarrow> options_of st \<noteq> [] \<Longrightarrow> - 1 \<le> selectedIndex st \<and> selectedIndex st < int (length (options_of st))"
  by (auto simp: suggest_ok_def content_ok_def options_of_def split: content.splits)

lemma key_ok: "suggest_ok st \<Longrightarrow> suggest_ok (onKeyDown num number endpoint k st)"
proof -
  assume ok: "suggest_ok st"
  show ?thesis
  proof (cases "options_of st = []")
    case False
    then have "0 < int (length (options_of st))" by simp
    then show ?thesis
      using ok False selected_range [OF ok False] hide_ok_same [OF ok] choose_ok [OF ok]
      by (cases k) (auto simp: onKeyDown_def Let_def intro!: select_ok)
  qed (use ok hide_ok_same in \<open>simp add: onKeyDown_def\<close>)
qed

lemma suggest_step_ok: "suggest_ok st \<Longrightarrow> suggest_ok (suggest_step num number endpoint ev st)"
  by (cases ev) (auto simp: input_ok timer_ok responded_ok body_ok failed_ok key_ok choose_ok hide_ok hide_ok_same mouse_over_def
      intro!: select_ok)

lemma init_suggest_ok: "suggest_ok init_suggest"
  by (simp add: suggest_ok_def init_suggest_def pending_def content_ok_def)

lemma suggest_run_ok: "suggest_ok (fold (suggest_step num number endpoint) evs init_suggest)"
proof -
  have "suggest_ok st \<Longrightarrow> suggest_ok (fold (suggest_step num number endpoint) evs st)" for st
    by (induction evs arbitrary: st) (simp_all add: suggest_step_ok)
  then show ?thesis using init_suggest_ok by blast
qed

section \<open>The latest text wins\<close>

lemma seq_mono: "seq st \<le> seq (suggest_step num number endpoint ev st)"
  by (cases ev)
    (auto simp: onInput_def timer_fires_def responded_def body_read_def failed_def onKeyDown_def choose_option_def mouse_over_def
      hide_def cancelPending_def reveal_def updateActive_def Let_def
      split: option.split sum.split bool.split key.split)

interpretation suggestions: latest_wins "\<lambda>st. Some (seq st)" "\<lambda>st. {..seq st}" "suggest_step num number endpoint" suggest_ok
  for num number endpoint
proof
  fix st ev
  show "{..seq st} \<subseteq> {..seq (suggest_step num number endpoint ev st)}" using seq_mono by auto
  show "Some (seq (suggest_step num number endpoint ev st)) = Some t \<Longrightarrow> t \<in> {..seq st} \<Longrightarrow> Some (seq st) = Some t" for t
    using seq_mono [of st num number endpoint ev] by auto
qed (auto simp: suggest_step_ok)

text \<open>Suggestions belong to the text in the field: when an answer of the server changes what is shown below the
  field, it was asked for exactly the text that is shown now; and an answer for an earlier number, before which the
  text was changed, a suggestion taken or the list closed, changes nothing, whatever happens in between.\<close>

theorem suggestions_match_text:
  assumes "st = fold (suggest_step num number endpoint) evs init_suggest"
    and "now = fold (suggest_step num number endpoint) later st"
  shows "(content (suggest_step num number endpoint (BodyRead n body) st) \<noteq> content st \<longrightarrow>
      (n, trim (shown (entry st))) \<in> set (reading st) \<and> n = seq st)
    \<and> (n < seq st \<longrightarrow> content (suggest_step num number endpoint (BodyRead n body) now) = content now
      \<and> entry (suggest_step num number endpoint (BodyRead n body) now) = entry now)"
proof (intro conjI impI)
  have ok: "suggest_ok st" using suggest_run_ok assms by simp
  {
    assume ch: "content (suggest_step num number endpoint (BodyRead n body) st) \<noteq> content st"
    obtain q where q: "map_of (reading st) n = Some q" "n = seq st"
      using ch by (cases "map_of (reading st) n") (auto simp: body_read_def Let_def split: if_splits)
    then have m: "(n, q) \<in> set (reading st)" using map_of_SomeD by fast
    then have "asked_for (seq st) (trim (shown (entry st))) (n, q)"
      using ok by (simp add: suggest_ok_def pending_def list_all_iff)
    then have "q = trim (shown (entry st))" using q(2) by (simp add: asked_for_def)
    with m q(2) show "(n, trim (shown (entry st))) \<in> set (reading st)" "n = seq st" by simp_all
  next
    assume "n < seq st"
    then have "suggestions.stale n st" by (simp add: suggestions.stale_def)
    then have "suggestions.stale n now" using suggestions.stale_run [OF ok] assms(2) by simp
    then have "n \<noteq> seq now" by (simp add: suggestions.stale_def)
    then show "content (suggest_step num number endpoint (BodyRead n body) now) = content now"
      "entry (suggest_step num number endpoint (BodyRead n body) now) = entry now"
      by (simp_all add: body_read_def split: option.split)
  }
qed

text \<open>The list and the keyboard agree: after any sequence of events the list is visible exactly when it has content,
  the selected place is an option of the list or none, it is the one announced as active, and the key Enter either
  takes that option or, if there is none, is left to the field, which computes the route.\<close>

theorem suggestion_selection:
  "content_ok (content st) (visible st) (selectedIndex st) (active st)
   \<and> (consumes Enter st \<longleftrightarrow> active st \<noteq> None)
   \<and> onKeyDown num number endpoint Enter st
     = (case active st of Some i \<Rightarrow> choose_option num number endpoint (nat i) st | None \<Rightarrow> st)"
  if "st = fold (suggest_step num number endpoint) evs init_suggest"
proof -
  have ok: "suggest_ok st" using suggest_run_ok that by simp
  then have "content_ok (content st) (visible st) (selectedIndex st) (active st)" by (simp add: suggest_ok_def)
  then show ?thesis
    by (cases "content st") (auto simp: content_ok_def consumes_def onKeyDown_def options_of_def Let_def)
qed

section \<open>A run\<close>

text \<open>The user types two letters, the answer comes, and the key for down selects the first of its results.\<close>

definition inn :: js where
  "inn = JObj [(lit ''label'', JStr (lit ''Inn'')), (lit ''lat'', JNum (Fin 48)), (lit ''lon'', JNum (Fin 13))]"

definition inn_typed :: "suggest_event list" where
  "inn_typed = [Input [73, 110], Timer, Responded 1 True]"

abbreviation run_inn :: "suggest_event list \<Rightarrow> suggest" where
  "run_inn evs \<equiv> fold (suggest_step (\<lambda>_. []) (\<lambda>_. NaN) True) evs init_suggest"

lemma inn_listed: "listable num inn"
  by (simp add: listable_def inn_def getResultPrimary_def or_else_def tags_of_def getResultSecondary_def join_dot_def)

lemma inn_state:
  "content (run_inn inn_typed) = Loading" "seq (run_inn inn_typed) = 1" "reading (run_inn inn_typed) = [(1, [73, 110])]"
  "content (run_inn (inn_typed @ [BodyRead 1 (Some (JArr [inn]))])) = Options [inn]"
  by (simp_all add: inn_typed_def init_suggest_def empty_field_def onInput_def cancelPending_def typed_def clearResolvedRoutePoint_def
      trim_def js_space_def reveal_def timer_fires_def responded_def drop_number_def body_read_def inn_listed updateActive_def Let_def)

theorem suggestions_match_text_witness:
  "content (run_inn (inn_typed @ [BodyRead 1 (Some (JArr [inn]))])) = Options [inn]
   \<and> (1, trim (shown (entry (run_inn inn_typed)))) \<in> set (reading (run_inn inn_typed))"
  using suggestions_match_text [OF refl refl, of "\<lambda>_. []" "\<lambda>_. NaN" True 1 "Some (JArr [inn])" inn_typed "[]"] inn_state
  by simp

theorem suggestion_selection_witness:
  "content_ok (content (run_inn (inn_typed @ [BodyRead 1 (Some (JArr [inn])), Key ArrowDown]))) True 0 (Some 0)
   \<and> consumes Enter (run_inn (inn_typed @ [BodyRead 1 (Some (JArr [inn])), Key ArrowDown]))"
proof -
  let ?st = "run_inn (inn_typed @ [BodyRead 1 (Some (JArr [inn])), Key ArrowDown])"
  have st: "visible ?st" "selectedIndex ?st = 0" "active ?st = Some 0"
    by (simp_all add: inn_typed_def init_suggest_def empty_field_def onInput_def cancelPending_def typed_def clearResolvedRoutePoint_def
      trim_def js_space_def reveal_def timer_fires_def responded_def drop_number_def body_read_def inn_listed updateActive_def
      onKeyDown_def options_of_def Let_def)
  show ?thesis using suggestion_selection [OF refl, of "\<lambda>_. []" "\<lambda>_. NaN" True] st
    by (metis option.distinct(1))
qed

end
