(* ===== verification/GisTools.thy ===== *)
theory GisTools
  imports Json OsmGeometry LonWrap Requests
begin

text \<open>
  The GIS tools of the page (\<open>src/cmd/web/app.js\<close>, \<open>gisLongitude\<close> to \<open>gisExport\<close>): points of interest in the
  map's section or around its centre, and the length of a line the user clicks on the map, which the
  server measures. Each tool has one request at a time; a request is named by the number of its
  controller. Positions are finite; the texts shown are constructors.
\<close>

section \<open>Positions\<close>

definition gisLongitude :: "real \<Rightarrow> real" where
  "gisLongitude lon = js_rem (js_rem (lon + 180) 360 + 360) 360 - 180"

lemma gisLongitude_normLon: "gisLongitude = normLon"
  by (rule ext) (simp add: gisLongitude_def normLon_def)

text \<open>The parameters of a search: what is asked for, and where.\<close>

datatype gis_place =
    Around real real jstr                    \<comment> \<open>latitude, longitude, radius as it was entered\<close>
  | Box real real real real                  \<comment> \<open>west, south, east, north\<close>

record poi_params =
  p_query :: jstr
  p_category :: jstr
  p_place :: gis_place

record section_shown =
  west :: real
  south :: real
  east :: real
  north :: real
  middle :: "real \<times> real"                   \<comment> \<open>longitude, latitude\<close>

definition gisPOIParams :: "bool \<Rightarrow> jstr \<Rightarrow> jstr \<Rightarrow> jstr \<Rightarrow> section_shown \<Rightarrow> poi_params" where
  "gisPOIParams nearby query category radius v =
     \<lparr>p_query = trim query, p_category = category,
      p_place =
        (if nearby then Around (snd (middle v)) (gisLongitude (fst (middle v))) radius
         else let wide = west v < - 180 \<or> east v > 180 \<or> east v - west v \<ge> 360;
                  w = (if wide then - 180 else west v); e = (if wide then 180 else east v)
              in Box w (max (- 90) (south v)) e (min 90 (north v)))\<rparr>"

fun display_loop :: "pos list \<Rightarrow> pos list \<Rightarrow> pos list" where
  "display_loop [] display = display"
| "display_loop ((lon, lat) # ps) display =
     display_loop ps (display @ [(if display = [] then lon
        else raised (fst (last display)) (lowered (fst (last display)) lon), lat)])"

definition gisDisplayCoordinates :: "pos list \<Rightarrow> pos list" where
  "gisDisplayCoordinates ps = display_loop ps []"

lemma display_loop_unwrap: "d \<noteq> [] \<Longrightarrow> display_loop ps d = d @ unwrap_from (fst (last d)) ps"
  by (induction ps d rule: display_loop.induct) (auto simp: near_def)

lemma gisDisplay_unwrap: "gisDisplayCoordinates ps = unwrap ps"
  by (cases ps) (auto simp: gisDisplayCoordinates_def unwrap_def display_loop_unwrap)

section \<open>Measuring\<close>

datatype measure_status =
    Untouched
  | TooFew nat
  | Measuring nat
  | Length js nat
  | NotMeasured

record measure =
  gisMeasureActive :: bool
  gisMeasurePoints :: "pos list"
  timer :: bool
  gisMeasureRequest :: "nat option"
  controllers :: nat
  flight :: "(nat \<times> pos list) list"       \<comment> \<open>the lines sent, by number\<close>
  measure_status :: measure_status
  drawn :: "pos list"                       \<comment> \<open>the points on the map; from two on, their line too\<close>

definition updateGISMeasurement :: "measure \<Rightarrow> measure" where
  "updateGISMeasurement st =
     (let n = length (gisMeasurePoints st);
          st = st\<lparr>timer := False, gisMeasureRequest := None, drawn := gisDisplayCoordinates (gisMeasurePoints st)\<rparr>
      in if n < 2 then st\<lparr>measure_status := TooFew n\<rparr> else st\<lparr>measure_status := Measuring n, timer := True\<rparr>)"

definition addGISMeasurePoint :: "bool \<Rightarrow> pos \<Rightarrow> measure \<Rightarrow> measure" where
  \<comment> \<open>\<open>on_marker\<close>: the click met a marker or a pop-up\<close>
  "addGISMeasurePoint on_marker p st =
     (if on_marker \<or> length (gisMeasurePoints st) \<ge> 10000 then st
      else updateGISMeasurement (st\<lparr>gisMeasurePoints := gisMeasurePoints st @ [(gisLongitude (fst p), snd p)]\<rparr>))"

definition measure_timer :: "measure \<Rightarrow> measure" where
  "measure_timer st =
     (if timer st
      then st\<lparr>timer := False, gisMeasureRequest := Some (controllers st), controllers := controllers st + 1,
             flight := (controllers st, gisMeasurePoints st) # flight st\<rparr>
      else st)"

text \<open>An answer is the JSON value of a good one, or \<open>None\<close>, an error. A request that was aborted is never the
  present one, because \<open>abort()\<close> always goes with a new value of \<open>gisMeasureRequest\<close>; so the test for
  \<open>AbortError\<close> is that for the present request.\<close>

definition measure_answer :: "nat \<Rightarrow> js option \<Rightarrow> measure \<Rightarrow> measure" where
  "measure_answer n a st =
     (if n \<notin> fst ` set (flight st) then st
      else let st = st\<lparr>flight := filter (\<lambda>f. fst f \<noteq> n) (flight st)\<rparr>
           in if gisMeasureRequest st \<noteq> Some n then st
              else (case a of
                      Some d \<Rightarrow> if nullish d then st\<lparr>measure_status := NotMeasured\<rparr>
                               else st\<lparr>measure_status := Length (jget d ''length_m'') (length (gisMeasurePoints st))\<rparr>
                    | None \<Rightarrow> st\<lparr>measure_status := NotMeasured\<rparr>)
                   \<lparr>gisMeasureRequest := None\<rparr>)"

datatype measure_event =
    Toggle
  | Point bool pos
  | Undo
  | Clear
  | Timer
  | Answer nat "js option"

fun measure_step :: "measure_event \<Rightarrow> measure \<Rightarrow> measure" where
  "measure_step Toggle st = st\<lparr>gisMeasureActive := \<not> gisMeasureActive st\<rparr>"
| "measure_step (Point on_marker p) st = (if gisMeasureActive st then addGISMeasurePoint on_marker p st else st)"
| "measure_step Undo st = updateGISMeasurement (st\<lparr>gisMeasurePoints := butlast (gisMeasurePoints st)\<rparr>)"
| "measure_step Clear st = updateGISMeasurement (st\<lparr>gisMeasurePoints := []\<rparr>)"
| "measure_step Timer st = measure_timer st"
| "measure_step (Answer n a) st = measure_answer n a st"

definition init_measure :: measure where
  "init_measure = \<lparr>gisMeasureActive = False, gisMeasurePoints = [], timer = False, gisMeasureRequest = None, controllers = 0,
     flight = [], measure_status = Untouched, drawn = []\<rparr>"

section \<open>Points of interest\<close>

datatype poi_status = Quiet | Searching | Found nat | Failed_search

record poi =
  gisPOIData :: "js option"
  gisPOIRequest :: "nat option"
  poi_controllers :: nat
  poi_flight :: "(nat \<times> poi_params) list"
  export_enabled :: bool
  on_map :: "js list"                       \<comment> \<open>the search results shown on the map\<close>
  poi_status :: poi_status

definition queryGISPOIs :: "poi_params \<Rightarrow> poi \<Rightarrow> poi" where
  "queryGISPOIs q st =
     st\<lparr>gisPOIRequest := Some (poi_controllers st), poi_controllers := poi_controllers st + 1,
        poi_flight := (poi_controllers st, q) # poi_flight st, poi_status := Searching, export_enabled := False, gisPOIData := None\<rparr>"

definition poi_item :: "js \<Rightarrow> js option" where
  \<comment> \<open>the result shown for a feature; \<open>None\<close>: it cannot be read and throws\<close>
  "poi_item f =
     (let p = jget f ''properties''; g = jget f ''geometry''; c = jget g ''coordinates''
      in if nullish f \<or> nullish p \<or> nullish g \<or> nullish c then None
         else Some (JObj [(lit ''id'', jget p ''osm_id''), (lit ''kind'', jget p ''kind''), (lit ''label'', jget p ''label''),
                (lit ''lon'', case elems c of x # _ \<Rightarrow> x | [] \<Rightarrow> JUndef), (lit ''lat'', case elems c of _ # y # _ \<Rightarrow> y | _ \<Rightarrow> JUndef)]))"

definition poi_answer :: "nat \<Rightarrow> js option \<Rightarrow> poi \<Rightarrow> poi" where
  "poi_answer n a st =
     (if n \<notin> fst ` set (poi_flight st) then st
      else let st = st\<lparr>poi_flight := filter (\<lambda>f. fst f \<noteq> n) (poi_flight st)\<rparr>
           in if gisPOIRequest st \<noteq> Some n then st
              else (case a of
                      None \<Rightarrow> st\<lparr>poi_status := Failed_search\<rparr>
                    | Some d \<Rightarrow>
                        let st = st\<lparr>gisPOIData := Some d\<rparr>
                        in if \<not> is_array (jget d ''features'') then st\<lparr>poi_status := Failed_search\<rparr>
                           else (case those (map poi_item (elems (jget d ''features''))) of
                                   None \<Rightarrow> st\<lparr>poi_status := Failed_search\<rparr>
                                 | Some xs \<Rightarrow> st\<lparr>on_map := xs, export_enabled := True, poi_status := Found (length xs)\<rparr>))
                   \<lparr>gisPOIRequest := None\<rparr>)"

definition gisExport :: "poi \<Rightarrow> js option" where
  \<comment> \<open>the value written to the file\<close>
  "gisExport st = gisPOIData st"

datatype poi_event = Search poi_params | PoiAnswer nat "js option"

fun poi_step :: "poi_event \<Rightarrow> poi \<Rightarrow> poi" where
  "poi_step (Search q) st = queryGISPOIs q st"
| "poi_step (PoiAnswer n a) st = poi_answer n a st"

definition init_poi :: poi where
  "init_poi = \<lparr>gisPOIData = None, gisPOIRequest = None, poi_controllers = 0, poi_flight = [], export_enabled = False,
     on_map = [], poi_status = Quiet\<rparr>"

section \<open>The line that is measured\<close>

definition status_fits :: "measure \<Rightarrow> bool" where
  "status_fits st \<longleftrightarrow>
     (case measure_status st of
        Untouched \<Rightarrow> gisMeasurePoints st = [] \<and> \<not> timer st \<and> gisMeasureRequest st = None
      | TooFew k \<Rightarrow> k = length (gisMeasurePoints st) \<and> k < 2 \<and> \<not> timer st \<and> gisMeasureRequest st = None
      | Measuring k \<Rightarrow> k = length (gisMeasurePoints st) \<and> 2 \<le> k \<and> timer st = (gisMeasureRequest st = None)
      | Length l k \<Rightarrow> k = length (gisMeasurePoints st) \<and> 2 \<le> k \<and> \<not> timer st \<and> gisMeasureRequest st = None
      | NotMeasured \<Rightarrow> 2 \<le> length (gisMeasurePoints st) \<and> \<not> timer st \<and> gisMeasureRequest st = None)"

definition measure_ok :: "measure \<Rightarrow> bool" where
  "measure_ok st \<longleftrightarrow>
     length (gisMeasurePoints st) \<le> 10000 \<and> list_all (\<lambda>p. - 180 \<le> fst p \<and> fst p < 180) (gisMeasurePoints st)
     \<and> drawn st = unwrap (gisMeasurePoints st) \<and> status_fits st
     \<and> list_all (\<lambda>f. fst f < controllers st \<and> (gisMeasureRequest st = Some (fst f) \<longrightarrow> snd f = gisMeasurePoints st)) (flight st)
     \<and> (\<forall>n. gisMeasureRequest st = Some n \<longrightarrow> n \<in> fst ` set (flight st))"

lemma update_ok:
  assumes "length (gisMeasurePoints st) \<le> 10000" "list_all (\<lambda>p. - 180 \<le> fst p \<and> fst p < 180) (gisMeasurePoints st)"
    "list_all (\<lambda>f. fst f < controllers st) (flight st)"
  shows "measure_ok (updateGISMeasurement st)"
  using assms by (simp add: measure_ok_def status_fits_def updateGISMeasurement_def gisDisplay_unwrap Let_def)

lemma flight_below: "measure_ok st \<Longrightarrow> list_all (\<lambda>f. fst f < controllers st) (flight st)"
  by (simp add: measure_ok_def list_all_iff)

lemma measure_timer_ok: "measure_ok st \<Longrightarrow> measure_ok (measure_timer st)"
  by (auto simp: measure_ok_def measure_timer_def status_fits_def list_all_iff split: measure_status.splits)

lemma answer_measure_ok: "measure_ok st \<Longrightarrow> measure_ok (measure_answer n a st)"
proof -
  assume ok: "measure_ok st"
  show ?thesis
  proof (cases "gisMeasureRequest st = Some n \<and> n \<in> fst ` set (flight st)")
    case True
    then have "2 \<le> length (gisMeasurePoints st)" "\<not> timer st"
      using ok by (auto simp: measure_ok_def status_fits_def split: measure_status.splits)
    moreover have "list_all (\<lambda>f. fst f < controllers st) (flight st)" using ok by (rule flight_below)
    ultimately show ?thesis
      using ok True by (cases a) (auto simp: measure_answer_def Let_def measure_ok_def status_fits_def list_all_iff)
  next
    case False
    then show ?thesis using ok by (auto simp: measure_answer_def Let_def measure_ok_def status_fits_def list_all_iff split: measure_status.splits)
  qed
qed

lemma measure_step_ok: "measure_ok st \<Longrightarrow> measure_ok (measure_step ev st)"
proof (induction ev st rule: measure_step.induct)
  case (1 st)
  then show ?case by (auto simp: measure_ok_def status_fits_def split: measure_status.splits)
next
  case (2 on_marker p st)
  have "list_all (\<lambda>p. - 180 \<le> fst p \<and> fst p < 180) (gisMeasurePoints st @ [(gisLongitude (fst p), snd p)])"
    using 2 normLon_range by (simp add: measure_ok_def gisLongitude_normLon)
  then show ?case
    using 2 flight_below [OF 2] by (auto simp: addGISMeasurePoint_def intro!: update_ok)
next
  case (3 st)
  then have "list_all (\<lambda>p. - 180 \<le> fst p \<and> fst p < 180) (butlast (gisMeasurePoints st))"
    by (auto simp: measure_ok_def list_all_iff dest: in_set_butlastD)
  moreover have "length (gisMeasurePoints st) \<le> 10000" using 3 by (simp add: measure_ok_def)
  ultimately show ?case using flight_below [OF 3] by (auto intro!: update_ok)
next
  case (4 st)
  then show ?case using flight_below [OF 4] by (auto intro!: update_ok)
qed (simp_all add: measure_timer_ok answer_measure_ok)

lemma measure_run_ok: "measure_ok (fold measure_step evs init_measure)"
proof -
  have "measure_ok st \<Longrightarrow> measure_ok (fold measure_step evs st)" for st
    by (induction evs arbitrary: st) (simp_all add: measure_step_ok)
  moreover have "measure_ok init_measure"
    by (simp add: measure_ok_def init_measure_def status_fits_def unwrap_def)
  ultimately show ?thesis by blast
qed

interpretation measuring: latest_wins gisMeasureRequest "\<lambda>st. {..<controllers st}" measure_step measure_ok
proof
  fix st ev t
  assume ok: "measure_ok st"
  show "gisMeasureRequest st = Some t \<Longrightarrow> t \<in> {..<controllers st}"
    using ok by (auto simp: measure_ok_def list_all_iff)
  show "measure_ok (measure_step ev st)" using ok by (rule measure_step_ok)
  show "{..<controllers st} \<subseteq> {..<controllers (measure_step ev st)}"
    by (cases ev) (auto simp: addGISMeasurePoint_def updateGISMeasurement_def measure_timer_def measure_answer_def Let_def split: option.splits)
  show "gisMeasureRequest (measure_step ev st) = Some t \<Longrightarrow> t \<in> {..<controllers st} \<Longrightarrow> gisMeasureRequest st = Some t"
    by (cases ev) (auto simp: addGISMeasurePoint_def updateGISMeasurement_def measure_timer_def measure_answer_def Let_def split: if_splits option.splits)
qed

text \<open>The length shown is that of the line on the map: after any sequence of clicks, undos, timers and late answers,
  the line that is drawn is the one of the points, at most half a turn from point to point; a status that counts
  points counts the present ones; an answer changes the status only if it was asked for exactly these points; and
  while the page says that it measures, there is a timer, or a request for these points whose answer, whenever it
  comes, ends the measuring.\<close>

theorem measured_line_current:
  assumes "st = fold measure_step evs init_measure"
  shows "drawn st = unwrap (gisMeasurePoints st) \<and> length (gisMeasurePoints st) \<le> 10000 \<and> status_fits st
    \<and> (measure_status (measure_step (Answer n a) st) \<noteq> measure_status st \<longrightarrow> (n, gisMeasurePoints st) \<in> set (flight st))
    \<and> (measure_status st = Measuring k \<longrightarrow> timer st \<or>
        (\<exists>m. (m, gisMeasurePoints st) \<in> set (flight st) \<and> gisMeasureRequest st = Some m \<and>
          (\<forall>a. measure_status (measure_step (Answer m a) st) \<in> insert NotMeasured (range (\<lambda>l. Length l k)))))"
proof (intro conjI impI)
  have ok: "measure_ok st" using measure_run_ok assms by simp
  then show "drawn st = unwrap (gisMeasurePoints st)" "length (gisMeasurePoints st) \<le> 10000" "status_fits st"
    by (simp_all add: measure_ok_def)
  show "(n, gisMeasurePoints st) \<in> set (flight st)"
    if "measure_status (measure_step (Answer n a) st) \<noteq> measure_status st"
    using that ok by (cases a) (auto simp: measure_answer_def Let_def measure_ok_def list_all_iff split: if_splits)
  assume k: "measure_status st = Measuring k"
  show "timer st \<or> (\<exists>m. (m, gisMeasurePoints st) \<in> set (flight st) \<and> gisMeasureRequest st = Some m \<and>
      (\<forall>a. measure_status (measure_step (Answer m a) st) \<in> insert NotMeasured (range (\<lambda>l. Length l k))))"
  proof (cases "gisMeasureRequest st")
    case None
    then show ?thesis using ok k by (simp add: measure_ok_def status_fits_def)
  next
    case (Some m)
    then have "(m, gisMeasurePoints st) \<in> set (flight st)" "length (gisMeasurePoints st) = k"
      using ok k by (auto simp: measure_ok_def status_fits_def list_all_iff)
    moreover have "m \<in> fst ` set (flight st)" using ok Some by (simp add: measure_ok_def)
    ultimately show ?thesis
      using Some by (auto simp: measure_answer_def Let_def split: option.split)
  qed
qed

section \<open>What is searched and exported\<close>

text \<open>The section sent to the server is within the globe, whatever the map shows, and not turned around.\<close>

lemma section_valid:
  assumes "west v < east v" "south v < north v" "south v < 90" "- 90 < north v"
    and "p_place (gisPOIParams False q c r v) = Box w so e n"
  shows "- 180 \<le> w \<and> w < e \<and> e \<le> 180 \<and> - 90 \<le> so \<and> so < n \<and> n \<le> 90"
  using assms by (auto simp: gisPOIParams_def Let_def split: if_splits)

definition poi_ok :: "poi \<Rightarrow> bool" where
  "poi_ok st \<longleftrightarrow>
     (export_enabled st \<longrightarrow> gisPOIRequest st = None \<and> (\<exists>d. gisPOIData st = Some d \<and> is_array (jget d ''features'')
        \<and> map poi_item (elems (jget d ''features'')) = map Some (on_map st) \<and> poi_status st = Found (length (on_map st))))
     \<and> (poi_status st = Searching \<longleftrightarrow> gisPOIRequest st \<noteq> None)
     \<and> list_all (\<lambda>f. fst f < poi_controllers st) (poi_flight st)
     \<and> (\<forall>n. gisPOIRequest st = Some n \<longrightarrow> n \<in> fst ` set (poi_flight st))"

lemma those_Some: "those xs = Some ys \<longleftrightarrow> xs = map Some ys"
  by (induction xs arbitrary: ys) (auto split: option.split)

lemma poi_step_ok: "poi_ok st \<Longrightarrow> poi_ok (poi_step ev st)"
proof (induction ev st rule: poi_step.induct)
  case (1 q st)
  then show ?case by (auto simp: poi_ok_def queryGISPOIs_def list_all_iff)
next
  case (2 n a st)
  show ?case
  proof (cases "n \<in> fst ` set (poi_flight st) \<and> gisPOIRequest st = Some n")
    case True
    then have "\<not> export_enabled st" using 2 by (auto simp: poi_ok_def)
    then show ?thesis
      using 2 True by (auto simp: poi_answer_def Let_def poi_ok_def list_all_iff those_Some split: option.split)
  next
    case False
    then show ?thesis using 2 by (auto simp: poi_answer_def Let_def poi_ok_def list_all_iff)
  qed
qed

lemma poi_run_ok: "poi_ok (fold poi_step evs init_poi)"
proof -
  have "poi_ok st \<Longrightarrow> poi_ok (fold poi_step evs st)" for st
    by (induction evs arbitrary: st) (simp_all add: poi_step_ok)
  moreover have "poi_ok init_poi" by (simp add: poi_ok_def init_poi_def)
  ultimately show ?thesis by blast
qed

text \<open>What can be exported is what the map shows: the button is on only after a search has ended, and the file holds
  the features whose results are on the map, all of them and in their order.\<close>

theorem export_is_shown:
  assumes "st = fold poi_step evs init_poi" "export_enabled st"
  shows "\<exists>d. gisExport st = Some d \<and> map poi_item (elems (jget d ''features'')) = map Some (on_map st)
    \<and> poi_status st = Found (length (elems (jget d ''features'')))"
proof -
  from poi_run_ok [of evs] assms obtain d where
    d: "gisPOIData st = Some d" "map poi_item (elems (jget d ''features'')) = map Some (on_map st)" "poi_status st = Found (length (on_map st))"
    by (auto simp: poi_ok_def)
  then have "length (on_map st) = length (elems (jget d ''features''))" by (metis length_map)
  with d show ?thesis by (simp add: gisExport_def)
qed

section \<open>A run\<close>

definition two_clicks :: "measure_event list" where
  "two_clicks = [Toggle, Point False (179, 48), Point False (- 179, 48), Timer]"

theorem measured_line_current_witness:
  "drawn (fold measure_step two_clicks init_measure) = [(179, 48), (181, 48)]
   \<and> measure_status (measure_step (Answer 0 (Some (JObj []))) (fold measure_step two_clicks init_measure)) = Length JUndef 2"
proof -
  let ?st = "fold measure_step two_clicks init_measure"
  have lon: "gisLongitude 179 = 179" "gisLongitude (- 179) = - 179"
    by (simp_all add: gisLongitude_def js_rem_def)
  have points: "gisMeasurePoints ?st = [(179, 48), (- 179, 48)]" "gisMeasureRequest ?st = Some 0" "measure_status ?st = Measuring 2"
    "flight ?st = [(0, [(179, 48), (- 179, 48)])]"
    by (simp_all add: two_clicks_def init_measure_def addGISMeasurePoint_def updateGISMeasurement_def measure_timer_def lon Let_def)
  have "raised 179 (lowered 179 (- 179)) = 181" by (simp add: lowered.simps raised.simps)
  then have "unwrap [(179, 48), (- 179, 48)] = [(179, 48), (181, 48)]" by (simp add: unwrap_def near_def)
  then show ?thesis
    using measured_line_current [OF refl, of two_clicks 0 "Some (JObj [])" 2] points
    by (simp add: measure_answer_def)
qed

end
