(* ===== verification/TinyTiles.thy ===== *)
theory TinyTiles
  imports RouteFields
begin

text \<open>
  The build of the off-line map (\<open>src/cmd/web/app.js\<close>, \<open>normalizedTinyTilesState\<close> to the buttons of the
  tiny tiles): the server builds, the page starts the build, asks for its state from time to time, shows
  it, and may switch to the finished map by itself. The events are the clicks, the timer, and the answers
  of the server; what waits for the answer of the one request for the state is a continuation
  (\<open>waiter\<close>). A status is the JSON value the server sends. The announcement of new territories, the
  cards of the sources and the texts are left out.
\<close>

section \<open>A status\<close>

datatype tiny_state = Idle | Building | Ready | Broken

definition lower :: "jstr \<Rightarrow> jstr" where
  \<comment> \<open>\<open>toLowerCase\<close> for the letters of the four words; no other character has one of these as its lower case\<close>
  "lower s = map (\<lambda>c. if 65 \<le> unat c \<and> unat c \<le> 90 then c + 32 else c) s"

definition normalizedTinyTilesState :: "(real \<Rightarrow> jstr) \<Rightarrow> js \<Rightarrow> tiny_state" where
  \<comment> \<open>of \<open>status.state\<close>; a state whose conversion to a string throws counts as none\<close>
  "normalizedTinyTilesState num v =
     (case js_string num (or_else v (JStr (lit ''idle''))) of
        Some s \<Rightarrow> if lower s = lit ''building'' then Building else if lower s = lit ''ready'' then Ready
                  else if lower s = lit ''failed'' then Broken else Idle
      | None \<Rightarrow> Idle)"

abbreviation state_of :: "(real \<Rightarrow> jstr) \<Rightarrow> js \<Rightarrow> tiny_state" where
  "state_of num status \<equiv> normalizedTinyTilesState num (jget status ''state'')"

definition status_with :: "string \<Rightarrow> js" where
  "status_with s = JObj [(lit ''state'', JStr (lit s))]"

text \<open>The zoom levels of the form: \<open>None\<close> is not a number. \<open>Inl\<close> is the error that is shown.\<close>

definition tinyTilesZoomsFromUI :: "int option \<Rightarrow> int option \<Rightarrow> unit + int \<times> int" where
  "tinyTilesZoomsFromUI lo hi =
     (case (lo, hi) of
        (Some a, Some b) \<Rightarrow> if a < 5 \<or> b > 14 \<or> a > b then Inl () else Inr (a, b)
      | _ \<Rightarrow> Inl ())"

definition is_integer :: "js \<Rightarrow> bool" where
  "is_integer v = (case v of JNum (Fin r) \<Rightarrow> isInt r | _ \<Rightarrow> False)"

definition style_max_zoom :: "js \<Rightarrow> real" where
  \<comment> \<open>\<open>max_zoom\<close> in \<open>tinyTilesStyleSettings\<close>\<close>
  "style_max_zoom status =
     (let lo = (if is_integer (jget status ''min_zoom'') then num_of (jget status ''min_zoom'') else 8);
          hi = (if is_integer (jget status ''max_zoom'') then num_of (jget status ''max_zoom'') else 14)
      in max 5 (min 14 (max lo hi)))"

definition tinyTilesStyleSettings :: "js \<Rightarrow> js" where
  "tinyTilesStyleSettings status = JObj [(lit ''map_type'', JStr (lit ''vector'')), (lit ''upstream'', JStr []),
     (lit ''style_url'', JStr (lit ''/static/styles/tinytiles-minimal.json'')), (lit ''wms_layers'', JStr []),
     (lit ''attribution'', JStr (169 # lit '' OpenStreetMap contributors'')), (lit ''max_zoom'', JNum (Fin (style_max_zoom status)))]"

text \<open>Sizes: how often the value is divided by 1024, and the number that is shown then.\<close>

fun scale :: "nat \<Rightarrow> real \<Rightarrow> real \<times> nat" where
  "scale 0 x = (x, 0)"
| "scale (Suc k) x = (if x \<ge> 1024 then (case scale k (x / 1024) of (y, u) \<Rightarrow> (y, u + 1)) else (x, 0))"

definition formatTinyTilesBytes :: "(nat \<Rightarrow> real \<Rightarrow> jstr) \<Rightarrow> jsnum \<Rightarrow> jstr" where
  \<comment> \<open>\<open>local d\<close> is the German notation with at most \<open>d\<close> decimals\<close>
  "formatTinyTilesBytes local bytes =
     (case bytes of
        Fin b \<Rightarrow> if b \<le> 0 then []
                 else (case scale 4 b of (x, u) \<Rightarrow>
                   local (if x \<ge> 10 \<or> u = 0 then 0 else 1) x @ lit '' '' @ lit ([''B'', ''KB'', ''MB'', ''GB'', ''TB''] ! u))
      | _ \<Rightarrow> [])"

definition formatTinyTilesDuration :: "real option \<Rightarrow> real option \<Rightarrow> real \<Rightarrow> tiny_state \<Rightarrow> jstr" where
  \<comment> \<open>the two times in milliseconds, if they can be read\<close>
  "formatTinyTilesDuration started finished now s =
     (case (started, if finished \<noteq> None then finished else if s = Building then Some now else None) of
        (Some a, Some b) \<Rightarrow>
          if b \<le> a then []
          else let secs = nat \<lfloor>(b - a) / 1000 + 1 / 2\<rfloor>; rest = secs mod 60
               in if secs < 60 then digits secs @ lit '' Sek.''
                  else digits (secs div 60) @ lit '' Min.'' @ (if rest = 0 then [] else lit '' '' @ digits rest @ lit '' Sek.'')
      | _ \<Rightarrow> [])"

definition bar :: "tiny_state \<Rightarrow> jsnum \<Rightarrow> int option" where
  \<comment> \<open>the progress bar of \<open>updateTinyTilesUI\<close>: a percentage, or none\<close>
  "bar s progress =
     (case progress of Fin p \<Rightarrow> if s = Building then Some (max 0 (min 100 \<lfloor>p + 1 / 2\<rfloor>)) else None | _ \<Rightarrow> None)"

section \<open>State of the page\<close>

datatype waiter =
    Poll
  | Load
  | ActivateButton
  | SelectSource "int option" "int option"     \<comment> \<open>the form's zoom levels when the answer is used\<close>
  | AfterConflict

record tiny =
  latest :: js
  timer :: bool
  inflight :: "waiter option"
  auto_activate :: bool
  load_requested :: bool
  overlay :: bool
  shown_state :: tiny_state
  build_disabled :: bool
  posts :: "bool list"                          \<comment> \<open>builds asked for, not answered: with \<open>autoActivate\<close>\<close>
  activations :: "js list"                      \<comment> \<open>the statuses whose map was activated, the latest first\<close>
  source_local :: bool

definition updateTinyTilesUI :: "(real \<Rightarrow> jstr) \<Rightarrow> js \<Rightarrow> tiny \<Rightarrow> tiny" where
  "updateTinyTilesUI num status st =
     st\<lparr>shown_state := state_of num status, build_disabled := (state_of num status = Building)\<rparr>"

definition activateTinyTilesMap :: "js \<Rightarrow> tiny \<Rightarrow> tiny" where
  "activateTinyTilesMap status st = st\<lparr>load_requested := True, overlay := True, activations := status # activations st\<rparr>"

definition activation_done :: "bool \<Rightarrow> tiny \<Rightarrow> tiny" where
  \<comment> \<open>the new layer is on the map, or it could not be used\<close>
  "activation_done applied st = st\<lparr>source_local := (applied \<or> source_local st), load_requested := False, overlay := False\<rparr>"

definition handleTinyTilesStatus :: "(real \<Rightarrow> jstr) \<Rightarrow> js \<Rightarrow> tiny \<Rightarrow> tiny" where
  "handleTinyTilesStatus num status st =
     (let safe = (if truthy status then status else status_with ''idle'');
          s = state_of num safe;
          st = updateTinyTilesUI num safe (st\<lparr>latest := safe\<rparr>);
          st = (if load_requested st \<and> s = Building then st\<lparr>overlay := True\<rparr> else st)
      in if s = Building then st\<lparr>timer := True\<rparr>
         else let st = st\<lparr>timer := False\<rparr>;
                  st = (if s = Broken
                        then (if load_requested st then st\<lparr>auto_activate := False, load_requested := False, overlay := False\<rparr>
                              else st\<lparr>auto_activate := False\<rparr>)
                        else st)
              in if s = Ready \<and> auto_activate st then activateTinyTilesMap safe (st\<lparr>auto_activate := False\<rparr>) else st)"

section \<open>Starting a build\<close>

definition startTinyTilesBuild :: "(real \<Rightarrow> jstr) \<Rightarrow> int option \<Rightarrow> int option \<Rightarrow> bool \<Rightarrow> bool \<Rightarrow> tiny \<Rightarrow> tiny" where
  "startTinyTilesBuild num lo hi autoActivate showMapOverlay st =
     (case tinyTilesZoomsFromUI lo hi of
        Inl _ \<Rightarrow> st
      | Inr _ \<Rightarrow>
          (handleTinyTilesStatus num (status_with ''building'') (st\<lparr>build_disabled := True, load_requested := showMapOverlay\<rparr>))
            \<lparr>posts := autoActivate # posts st\<rparr>)"

definition start_failed :: "(real \<Rightarrow> jstr) \<Rightarrow> tiny \<Rightarrow> tiny" where
  "start_failed num st =
     handleTinyTilesStatus num (status_with ''failed'') (st\<lparr>auto_activate := False, load_requested := False, overlay := False\<rparr>)"

text \<open>What follows the status that was waited for; \<open>JNull\<close>: there is none.\<close>

definition use_status :: "(real \<Rightarrow> jstr) \<Rightarrow> waiter \<Rightarrow> js \<Rightarrow> tiny \<Rightarrow> tiny" where
  "use_status num w status st =
     (case w of
        Poll \<Rightarrow> if truthy status \<and> state_of num status = Building then st\<lparr>timer := True\<rparr> else st
      | Load \<Rightarrow> st
      | ActivateButton \<Rightarrow> if \<not> truthy status \<or> state_of num status \<noteq> Ready then st else activateTinyTilesMap status st
      | SelectSource lo hi \<Rightarrow>
          if \<not> truthy status then st\<lparr>load_requested := False, overlay := False\<rparr>
          else if state_of num status = Ready then activateTinyTilesMap status st
          else if state_of num status = Building then st\<lparr>auto_activate := True\<rparr>
          else startTinyTilesBuild num lo hi True True st
      | AfterConflict \<Rightarrow> if truthy status then st else start_failed num st)"

definition fetchTinyTilesStatus :: "(real \<Rightarrow> jstr) \<Rightarrow> waiter \<Rightarrow> tiny \<Rightarrow> tiny" where
  "fetchTinyTilesStatus num w st =
     (if inflight st \<noteq> None then use_status num w (latest st) st else st\<lparr>inflight := Some w\<rparr>)"

definition status_arrives :: "(real \<Rightarrow> jstr) \<Rightarrow> js option \<Rightarrow> tiny \<Rightarrow> tiny" where
  \<comment> \<open>the answer to the request for the status; \<open>None\<close>: an error\<close>
  "status_arrives num answer st =
     (case inflight st of
        None \<Rightarrow> st
      | Some w \<Rightarrow>
          (case answer of
             Some status \<Rightarrow>
               use_status num w status
                 ((handleTinyTilesStatus num (if truthy status then status else JObj []) st)\<lparr>inflight := None\<rparr>)
           | None \<Rightarrow>
               (let st = st\<lparr>timer := False\<rparr>;
                    st = (if w = Poll then st else updateTinyTilesUI num (status_with ''idle'') st)
                in use_status num w JNull (st\<lparr>inflight := None\<rparr>))))"

datatype post_answer =
    Accepted js
  | Conflict
  | Refused

definition post_arrives :: "(real \<Rightarrow> jstr) \<Rightarrow> post_answer \<Rightarrow> tiny \<Rightarrow> tiny" where
  \<comment> \<open>the answer to the oldest build that was asked for\<close>
  "post_arrives num a st =
     (if posts st = [] then st
      else let auto = last (posts st); st = st\<lparr>posts := butlast (posts st)\<rparr>
           in case a of
                Accepted status \<Rightarrow>
                  handleTinyTilesStatus num (if truthy status then status else status_with ''building'') (st\<lparr>auto_activate := auto\<rparr>)
              | Conflict \<Rightarrow> fetchTinyTilesStatus num AfterConflict (st\<lparr>auto_activate := auto\<rparr>)
              | Refused \<Rightarrow> start_failed num st)"

definition selectTinyTilesSource :: "(real \<Rightarrow> jstr) \<Rightarrow> int option \<Rightarrow> int option \<Rightarrow> tiny \<Rightarrow> tiny" where
  "selectTinyTilesSource num lo hi st =
     fetchTinyTilesStatus num (SelectSource lo hi) (st\<lparr>source_local := True, load_requested := True, overlay := True\<rparr>)"

definition poll_fires :: "(real \<Rightarrow> jstr) \<Rightarrow> tiny \<Rightarrow> tiny" where
  "poll_fires num st = (if timer st then fetchTinyTilesStatus num Poll (st\<lparr>timer := False\<rparr>) else st)"

datatype tiny_event =
    BuildClick "int option" "int option"
  | TerritoryBuild "int option" "int option"
  | SourceSelected "int option" "int option"
  | ActivateClick
  | TimerFires
  | StatusAnswer "js option"
  | PostAnswer post_answer
  | ActivationDone bool

fun tiny_step :: "(real \<Rightarrow> jstr) \<Rightarrow> tiny_event \<Rightarrow> tiny \<Rightarrow> tiny" where
  "tiny_step num (BuildClick lo hi) st = (if build_disabled st then st else startTinyTilesBuild num lo hi True True st)"
| "tiny_step num (TerritoryBuild lo hi) st = startTinyTilesBuild num lo hi False False st"
| "tiny_step num (SourceSelected lo hi) st = selectTinyTilesSource num lo hi st"
| "tiny_step num ActivateClick st = fetchTinyTilesStatus num ActivateButton st"
| "tiny_step num TimerFires st = poll_fires num st"
| "tiny_step num (StatusAnswer a) st = status_arrives num a st"
| "tiny_step num (PostAnswer a) st = post_arrives num a st"
| "tiny_step num (ActivationDone b) st = activation_done b st"

text \<open>The page begins with a request for the status.\<close>

definition init_tiny :: tiny where
  "init_tiny = \<lparr>latest = status_with ''idle'', timer = False, inflight = Some Load, auto_activate = False, load_requested = False,
     overlay = False, shown_state = Idle, build_disabled = False, posts = [], activations = [], source_local = False\<rparr>"

section \<open>Bounds\<close>

lemma zooms_valid: "tinyTilesZoomsFromUI lo hi = Inr (a, b) \<Longrightarrow> 5 \<le> a \<and> a \<le> b \<and> b \<le> 14"
  by (auto simp: tinyTilesZoomsFromUI_def split: option.splits if_splits)

lemma style_zoom_range: "5 \<le> style_max_zoom status \<and> style_max_zoom status \<le> 14"
  by (simp add: style_max_zoom_def Let_def)

lemma bar_range: "bar s p = Some k \<Longrightarrow> 0 \<le> k \<and> k \<le> 100"
  by (auto simp: bar_def split: jsnum.splits if_splits)

text \<open>A size is shown in the unit that fits: below 1024 of it, and the number times the unit is the size.\<close>

lemma scale_exact: "scale k x = (y, u) \<Longrightarrow> u \<le> k \<and> x = y * 1024 ^ u \<and> (u < k \<longrightarrow> y < 1024) \<and> (0 < u \<longrightarrow> 1 \<le> y)"
proof (induction k x arbitrary: y u rule: scale.induct)
  case (2 k x)
  show ?case
  proof (cases "x \<ge> 1024")
    case True
    obtain y' u' where s: "scale k (x / 1024) = (y', u')" by fastforce
    from 2(1) [OF True s] show ?thesis using 2(2) True s by (cases u') (auto simp: field_simps)
  qed (use 2 in auto)
qed simp

section \<open>Invariant\<close>

lemma state_with [simp]:
  "state_of num (status_with ''building'') = Building"
  "state_of num (status_with ''failed'') = Broken"
  "state_of num (status_with ''idle'') = Idle"
  "state_of num (status_with ''ready'') = Ready"
  by (simp_all add: status_with_def normalizedTinyTilesState_def or_else_def lower_def lit_def)

lemma truthy_with [simp]: "truthy (status_with s)"
  by (simp add: status_with_def)

definition tiny_ok :: "(real \<Rightarrow> jstr) \<Rightarrow> tiny \<Rightarrow> bool" where
  "tiny_ok num st \<longleftrightarrow>
     build_disabled st = (shown_state st = Building)
     \<and> list_all (\<lambda>s. state_of num s = Ready) (activations st)
     \<and> (shown_state st = Building \<longrightarrow> state_of num (latest st) = Building)"

definition watched :: "tiny \<Rightarrow> bool" where
  \<comment> \<open>a build that is shown is being asked about\<close>
  "watched st \<longleftrightarrow> (shown_state st = Building \<longrightarrow> timer st \<or> inflight st \<noteq> None)"

lemma handle_ok: "list_all (\<lambda>s. state_of num s = Ready) (activations st) \<Longrightarrow> tiny_ok num (handleTinyTilesStatus num status st)"
  by (simp add: tiny_ok_def handleTinyTilesStatus_def updateTinyTilesUI_def activateTinyTilesMap_def Let_def)

lemma handle_watched: "watched ((handleTinyTilesStatus num status st)\<lparr>inflight := f\<rparr>)"
  by (simp add: watched_def handleTinyTilesStatus_def updateTinyTilesUI_def activateTinyTilesMap_def Let_def)

lemma handle_watched_same: "watched (handleTinyTilesStatus num status st)"
  by (simp add: watched_def handleTinyTilesStatus_def updateTinyTilesUI_def activateTinyTilesMap_def Let_def)

lemma tiny_frame [simp]:
  "tiny_ok num (st\<lparr>inflight := f\<rparr>) = tiny_ok num st"
  "tiny_ok num (st\<lparr>timer := t\<rparr>) = tiny_ok num st"
  "tiny_ok num (st\<lparr>auto_activate := b\<rparr>) = tiny_ok num st"
  "tiny_ok num (st\<lparr>load_requested := b\<rparr>) = tiny_ok num st"
  "tiny_ok num (st\<lparr>overlay := b\<rparr>) = tiny_ok num st"
  "tiny_ok num (st\<lparr>posts := ps\<rparr>) = tiny_ok num st"
  "tiny_ok num (st\<lparr>source_local := b\<rparr>) = tiny_ok num st"
  "watched (st\<lparr>auto_activate := b\<rparr>) = watched st"
  "watched (st\<lparr>load_requested := b\<rparr>) = watched st"
  "watched (st\<lparr>overlay := b\<rparr>) = watched st"
  "watched (st\<lparr>posts := ps\<rparr>) = watched st"
  "watched (st\<lparr>source_local := b\<rparr>) = watched st"
  "watched (st\<lparr>timer := True\<rparr>)"
  "watched (st\<lparr>inflight := Some w\<rparr>)"
  by (simp_all add: tiny_ok_def watched_def)

lemma start_ok:
  "tiny_ok num st \<Longrightarrow> tiny_ok num (startTinyTilesBuild num lo hi a m st)"
  "watched st \<Longrightarrow> watched (startTinyTilesBuild num lo hi a m st)"
  by (auto simp: startTinyTilesBuild_def handle_watched_same tiny_ok_def [of num st] intro!: handle_ok split: sum.split)

lemma failed_start_ok: "tiny_ok num st \<Longrightarrow> tiny_ok num (start_failed num st)" "watched (start_failed num st)"
  by (auto simp: start_failed_def handle_watched_same tiny_ok_def [of num st] intro!: handle_ok)

lemma tiny_activate_ok: "tiny_ok num st \<Longrightarrow> state_of num status = Ready \<Longrightarrow> tiny_ok num (activateTinyTilesMap status st)"
  "watched (activateTinyTilesMap status st) = watched st"
  by (simp_all add: tiny_ok_def watched_def activateTinyTilesMap_def)

lemma use_ok:
  "tiny_ok num st \<Longrightarrow> tiny_ok num (use_status num w status st)"
  "watched st \<Longrightarrow> watched (use_status num w status st)"
  by (cases w; auto simp: use_status_def start_ok failed_start_ok tiny_activate_ok)+

lemma fetch_ok:
  "tiny_ok num st \<Longrightarrow> tiny_ok num (fetchTinyTilesStatus num w st)"
  "watched st \<Longrightarrow> watched (fetchTinyTilesStatus num w st)"
  by (simp_all add: fetchTinyTilesStatus_def use_ok)

lemma tiny_status_ok:
  assumes "tiny_ok num st"
  shows "tiny_ok num (status_arrives num a st)"
    "watched st \<Longrightarrow> \<not> (a = None \<and> inflight st = Some Poll) \<Longrightarrow> watched (status_arrives num a st)"
proof -
  have "list_all (\<lambda>s. state_of num s = Ready) (activations st)" using assms by (simp add: tiny_ok_def)
  then have h: "tiny_ok num (handleTinyTilesStatus num s st)" for s by (rule handle_ok)
  have idle: "tiny_ok num (updateTinyTilesUI num (status_with ''idle'') s)" "watched (updateTinyTilesUI num (status_with ''idle'') s)"
    if "tiny_ok num s" for s
    using that by (simp_all add: tiny_ok_def updateTinyTilesUI_def watched_def)
  have idle': "watched ((updateTinyTilesUI num (status_with ''idle'') s)\<lparr>inflight := f\<rparr>)" for s f
    by (simp add: updateTinyTilesUI_def watched_def)
  show "tiny_ok num (status_arrives num a st)"
    using assms h idle by (auto simp: status_arrives_def Let_def intro!: use_ok split: option.split)
  show "watched (status_arrives num a st)" if "watched st" "\<not> (a = None \<and> inflight st = Some Poll)"
    using that idle' handle_watched by (cases "inflight st"; cases a) (auto simp: status_arrives_def Let_def intro!: use_ok(2))
qed

lemma post_ok:
  assumes "tiny_ok num st"
  shows "tiny_ok num (post_arrives num a st)" "watched st \<Longrightarrow> watched (post_arrives num a st)"
proof -
  have "list_all (\<lambda>s. state_of num s = Ready) (activations st)" using assms by (simp add: tiny_ok_def)
  then show "tiny_ok num (post_arrives num a st)" "watched st \<Longrightarrow> watched (post_arrives num a st)"
    using assms by (cases a; auto simp: post_arrives_def Let_def fetch_ok failed_start_ok handle_watched_same intro!: handle_ok)+
qed

lemma poll_ok:
  assumes "tiny_ok num st"
  shows "tiny_ok num (poll_fires num st)" "watched st \<Longrightarrow> watched (poll_fires num st)"
proof -
  show "tiny_ok num (poll_fires num st)" using assms by (simp add: poll_fires_def fetch_ok)
  have "watched (use_status num Poll (latest st) (st\<lparr>timer := False\<rparr>))" if "inflight st \<noteq> None"
    using that by (auto simp: use_status_def watched_def)
  then show "watched st \<Longrightarrow> watched (poll_fires num st)"
    by (auto simp: poll_fires_def fetchTinyTilesStatus_def)
qed

lemma tiny_step_ok:
  assumes "tiny_ok num st"
  shows "tiny_ok num (tiny_step num ev st)"
    "watched st \<Longrightarrow> \<not> (ev = StatusAnswer None \<and> inflight st = Some Poll) \<Longrightarrow> watched (tiny_step num ev st)"
  using assms
  by (cases ev; auto simp: start_ok fetch_ok poll_ok tiny_status_ok post_ok selectTinyTilesSource_def activation_done_def)+

fun polls_answered :: "(real \<Rightarrow> jstr) \<Rightarrow> tiny_event list \<Rightarrow> tiny \<Rightarrow> bool" where
  \<comment> \<open>no request of the timer fails\<close>
  "polls_answered num [] st \<longleftrightarrow> True"
| "polls_answered num (ev # evs) st \<longleftrightarrow>
     \<not> (ev = StatusAnswer None \<and> inflight st = Some Poll) \<and> polls_answered num evs (tiny_step num ev st)"

lemma tiny_run_ok: "tiny_ok num (fold (tiny_step num) evs init_tiny)"
proof -
  have "tiny_ok num st \<Longrightarrow> tiny_ok num (fold (tiny_step num) evs st)" for st
    by (induction evs arbitrary: st) (simp_all add: tiny_step_ok)
  then show ?thesis by (simp add: tiny_ok_def init_tiny_def)
qed


section \<open>Runs\<close>

definition build_run :: "tiny_event list" where
  "build_run = [StatusAnswer (Some (status_with ''idle'')), BuildClick (Some 8) (Some 14),
     PostAnswer (Accepted (status_with ''building'')), TimerFires]"

lemmas tiny_eval = init_tiny_def status_arrives_def use_status_def startTinyTilesBuild_def tinyTilesZoomsFromUI_def
  handleTinyTilesStatus_def updateTinyTilesUI_def activateTinyTilesMap_def post_arrives_def poll_fires_def fetchTinyTilesStatus_def selectTinyTilesSource_def
  Let_def

lemma build_run_state:
  "shown_state (fold (tiny_step num) build_run init_tiny) = Building" "inflight (fold (tiny_step num) build_run init_tiny) = Some Poll"
  "\<not> timer (fold (tiny_step num) build_run init_tiny)"
  by (simp_all add: build_run_def tiny_eval)


text \<open>One request of the timer that fails, and the build is never asked about again: the page shows it as running, with
  the button blocked, and nothing is scheduled.\<close>

lemma poll_lost:
  assumes "st = fold (tiny_step num) (build_run @ [StatusAnswer None]) init_tiny"
  shows "shown_state st = Building" "build_disabled st" "\<not> timer st" "inflight st = None" "posts st = []"
  using assms by (simp_all add: build_run_def tiny_eval)

text \<open>The request with which the page begins, or one of the timer, can be answered after a build was started: if it
  reports the previous map as ready, that map is activated as if it were the new one, and the polling ends.\<close>

lemma old_map_activated:
  assumes "st = fold (tiny_step num) [BuildClick (Some 8) (Some 14), PostAnswer (Accepted (status_with ''building'')),
     StatusAnswer (Some (status_with ''ready''))] init_tiny"
  shows "activations st = [status_with ''ready'']" "shown_state st = Ready" "\<not> timer st" "inflight st = None"
  using assms by (simp_all add: tiny_eval)

text \<open>The note that the map is loading can stay for good. When the local source is chosen while there is no map and the
  zoom levels of the form are not valid, no build is started, but the note is not taken away.\<close>

lemma overlay_without_build:
  assumes "st = fold (tiny_step num) [StatusAnswer (Some (status_with ''idle'')), SourceSelected (Some 3) (Some 14),
     StatusAnswer (Some (status_with ''idle''))] init_tiny"
  shows "overlay st" "posts st = []" "inflight st = None" "\<not> timer st"
  using assms by (simp_all add: tiny_eval)

text \<open>And when the postcode areas are asked for while a build with the note runs, the server refuses the second build;
  the first then ends without the map being activated, and the note stays.\<close>

lemma overlay_after_conflict:
  assumes "st = fold (tiny_step num) [StatusAnswer (Some (status_with ''idle'')), BuildClick (Some 8) (Some 14),
     PostAnswer (Accepted (status_with ''building'')), TerritoryBuild (Some 8) (Some 14), PostAnswer Conflict,
     StatusAnswer (Some (status_with ''building'')), TimerFires, StatusAnswer (Some (status_with ''ready''))] init_tiny"
  shows "overlay st" "\<not> load_requested st" "activations st = []" "inflight st = None" "\<not> timer st"
  using assms by (simp_all add: tiny_eval)

end
