(* ===== verification/RouteExport.thy ===== *)
theory RouteExport
  imports Markup RouteFields
begin

text \<open>
  A route as text (\<open>src/cmd/web/app.js\<close>): distances and times, the rows of the directions, the route as
  GPX and as GeoJSON. \<open>None\<close> is an exception: a part of the route that cannot be read or converted to a
  string. \<open>num\<close> is the text of a number, \<open>number\<close> the conversion \<open>Number(v)\<close>.
\<close>

section \<open>Distances and times\<close>

definition formatMeters :: "jsnum \<Rightarrow> jstr" where
  "formatMeters n =
     (case n of
        Fin m \<Rightarrow> if m \<ge> 1000 then toFixed 1 (m / 1000) @ lit '' km'' else int_str \<lfloor>m + 1 / 2\<rfloor> @ lit '' m''
      | PosInf \<Rightarrow> lit ''Infinity km''
      | NegInf \<Rightarrow> lit ''-Infinity m''
      | NaN \<Rightarrow> lit ''NaN m'')"

definition formatDuration :: "real \<Rightarrow> jstr" where
  "formatDuration s =
     (let mins = \<lfloor>s / 60 + 1 / 2\<rfloor>
      in if s = 0 then []
         else if mins \<ge> 60 then
           int_str (mins div 60) @ lit '' Std.'' @ (if mins mod 60 = 0 then [] else lit '' '' @ int_str (mins mod 60) @ lit '' Min.'')
         else if mins < 1 then lit ''< 1 min'' else int_str mins @ lit '' min'')"

section \<open>Directions\<close>

definition direction_labels :: "(string \<times> string) list" where
  "direction_labels = [(''turn-left'', ''Links abbiegen''), (''turn-right'', ''Rechts abbiegen''), (''uturn'', ''Wenden''),
     (''depart'', ''Losfahren''), (''arrive'', ''Ziel erreicht''), (''continue'', ''Geradeaus weiter''), (''turn'', ''Abbiegen'')]"

definition nullish_or :: "js \<Rightarrow> js \<Rightarrow> js" where
  \<comment> \<open>\<open>a ?? b\<close>\<close>
  "nullish_or a b = (if nullish a then b else a)"

definition label_for :: "jstr \<Rightarrow> string" where
  "label_for t = (case find (\<lambda>p. lit (fst p) = t) direction_labels of Some (_, l) \<Rightarrow> l | None \<Rightarrow> ''Route folgen'')"

record direction =
  d_type :: jstr
  d_text :: jstr
  d_at :: "point option"        \<comment> \<open>where a click on the row moves the map\<close>
  d_metrics :: "jstr list"

definition direction_point :: "js \<Rightarrow> js \<Rightarrow> point option" where
  "direction_point lat lon =
     (if isFinite lat \<and> isFinite lon \<and> \<bar>num_of lat\<bar> \<le> 90 \<and> \<bar>num_of lon\<bar> \<le> 180 then Some (num_of lat, num_of lon) else None)"

definition direction_row :: "(real \<Rightarrow> jstr) \<Rightarrow> js \<Rightarrow> direction option" where
  "direction_row num s =
     Option.bind (js_string num (nullish_or (jget s ''type'') (nullish_or (jget s ''Type'') (JStr [])))) (\<lambda>t.
     Option.bind (js_string num (nullish_or (jget s ''instruction'') (nullish_or (jget s ''Instruction'') (JStr [])))) (\<lambda>i.
       let distance = nullish_or (jget s ''distance_m'') (jget s ''DistanceM'');
           duration = nullish_or (jget s ''duration_s'') (jget s ''DurationS'')
       in Some \<lparr>d_type = t, d_text = (if trim i \<noteq> [] then trim i else lit (label_for t)),
            d_at = direction_point (nullish_or (jget s ''lat'') (jget s ''Lat'')) (nullish_or (jget s ''lon'') (jget s ''Lon'')),
            d_metrics = (if isFinite distance \<and> num_of distance > 0 then [formatMeters (Fin (num_of distance))] else [])
              @ (if isFinite duration \<and> num_of duration > 0
                 then [if num_of duration < 60 then lit ''< 1 min'' else formatDuration (num_of duration)] else [])\<rparr>))"

definition directions :: "(real \<Rightarrow> jstr) \<Rightarrow> js \<Rightarrow> direction list option" where
  \<comment> \<open>the rows of \<open>renderManeuvers\<close>\<close>
  "directions num steps = those (map (direction_row num) (filter (\<lambda>s. is_object s \<or> is_array s) (elems steps)))"

section \<open>GPX\<close>

definition gpx_num :: "(js \<Rightarrow> jsnum) \<Rightarrow> js \<Rightarrow> jstr" where
  "gpx_num number v =
     (case to_num number v of Fin r \<Rightarrow> toFixed 7 r | PosInf \<Rightarrow> lit ''Infinity'' | NegInf \<Rightarrow> lit ''-Infinity'' | NaN \<Rightarrow> lit ''NaN'')"

definition pt :: "(js \<Rightarrow> jsnum) \<Rightarrow> string \<Rightarrow> js \<Rightarrow> js \<Rightarrow> jstr \<Rightarrow> jstr" where
  "pt number tag lat lon inner =
     lit (''<'' @ tag @ '' lat='') @ [34] @ gpx_num number lat @ [34] @ lit '' lon='' @ [34] @ gpx_num number lon @ [34] @ lit ''>''
     @ inner @ lit (''</'' @ tag @ ''>'')"

definition named :: "jstr \<Rightarrow> jstr \<Rightarrow> jstr" where
  "named name type = lit ''<name>'' @ name @ lit ''</name><type>'' @ type @ lit ''</type>''"

definition end_label :: "js \<Rightarrow> js" where
  "end_label e = or_else (jget e ''label'') (or_else (jget e ''input'') (JStr []))"

definition end_point :: "(real \<Rightarrow> jstr) \<Rightarrow> (js \<Rightarrow> jsnum) \<Rightarrow> js \<Rightarrow> string \<Rightarrow> string \<Rightarrow> jstr list option" where
  \<comment> \<open>the way point of the start or the destination, if there is one\<close>
  "end_point num number e fallback type =
     (if \<not> truthy e then Some []
      else map_option (\<lambda>n. [pt number ''wpt'' (jget e ''lat'') (jget e ''lon'') (named n (lit type))])
             (xmlEscape num (or_else (end_label e) (JStr (lit fallback)))))"

definition stop_point :: "(real \<Rightarrow> jstr) \<Rightarrow> (js \<Rightarrow> jsnum) \<Rightarrow> nat \<times> js \<Rightarrow> jstr option" where
  "stop_point num number p =
     (case p of (i, st) \<Rightarrow>
        if nullish st then None
        else map_option (\<lambda>t. pt number ''wpt'' (jget st ''lat'') (jget st ''lon'')
                 (named (xml_text (digits (i + 1) @ lit ''. '' @ t)) (lit ''stop'')))
               (js_string num (or_else (jget st ''label'') (or_else (jget st ''id'') (JStr [])))))"

definition step_point :: "(real \<Rightarrow> jstr) \<Rightarrow> (js \<Rightarrow> jsnum) \<Rightarrow> js \<Rightarrow> jstr option" where
  "step_point num number st =
     (if nullish st then None
      else Option.bind (xmlEscape num (jget st ''instruction'')) (\<lambda>n.
           map_option (\<lambda>t. pt number ''rtept'' (jget st ''lat'') (jget st ''lon'') (named n t)) (xmlEscape num (jget st ''type''))))"

definition list_or_none :: "js \<Rightarrow> js list option" where
  \<comment> \<open>\<open>v || []\<close> of which a method of lists is called\<close>
  "list_or_none v = (if \<not> truthy v then Some [] else if is_array v then Some (elems v) else None)"

definition leg_steps :: "js \<Rightarrow> js list option" where
  "leg_steps leg =
     (if nullish leg then None
      else Some (case or_else (jget leg ''steps'') (JArr []) of JArr xs \<Rightarrow> xs | v \<Rightarrow> [v]))"

definition gpx_steps :: "js \<Rightarrow> js list option" where
  "gpx_steps meta =
     (if is_array (jget meta ''steps'') then Some (elems (jget meta ''steps''))
      else Option.bind (list_or_none (jget meta ''legs'')) (\<lambda>ls. map_option concat (those (map leg_steps ls))))"

definition gpx_name :: "(real \<Rightarrow> jstr) \<Rightarrow> js \<Rightarrow> jstr option" where
  "gpx_name num meta =
     (let a = end_label (jget meta ''from''); b = end_label (jget meta ''to'')
      in if truthy a \<and> truthy b
         then Option.bind (js_string num a) (\<lambda>x. map_option (\<lambda>y. x @ [32, 0x2192, 32] @ y) (js_string num b))
         else Some (lit ''OSMmini Route''))"

definition nl :: jstr where "nl = [10]"

definition gpx_text :: "(js \<Rightarrow> jsnum) \<Rightarrow> jstr \<Rightarrow> jstr \<Rightarrow> jstr list \<Rightarrow> jstr list \<Rightarrow> point list \<Rightarrow> jstr" where
  \<comment> \<open>the text put together from the name, the way points and the steps\<close>
  "gpx_text number name time ways rs line =
     lit ''<?xml version='' @ [34] @ lit ''1.0'' @ [34] @ lit '' encoding='' @ [34] @ lit ''UTF-8'' @ [34] @ lit ''?>'' @ nl
     @ lit ''<gpx version='' @ [34] @ lit ''1.1'' @ [34] @ lit '' creator='' @ [34] @ lit ''osmmini'' @ [34] @ lit '' xmlns='' @ [34]
     @ lit ''http://www.topografix.com/GPX/1/1'' @ [34] @ lit ''>'' @ nl
     @ lit ''  <metadata><name>'' @ name @ lit ''</name><time>'' @ time @ lit ''</time></metadata>'' @ nl
     @ concat (map (\<lambda>w. lit ''  '' @ w @ nl) ways)
     @ (if rs = [] then []
        else lit ''  <rte><name>'' @ name @ lit ''</name>'' @ nl
          @ join_with nl (map (\<lambda>r. lit ''    '' @ r) rs) @ nl @ lit ''  </rte>'' @ nl)
     @ lit ''  <trk><name>'' @ name @ lit ''</name>'' @ nl @ lit ''    <trkseg>'' @ nl
     @ join_with nl (map (\<lambda>c. lit ''      '' @ pt number ''trkpt'' (JNum (Fin (fst c))) (JNum (Fin (snd c))) []) line) @ nl
     @ lit ''    </trkseg>'' @ nl @ lit ''  </trk>'' @ nl @ lit ''</gpx>'' @ nl"

definition buildRouteGPX :: "(real \<Rightarrow> jstr) \<Rightarrow> (js \<Rightarrow> jsnum) \<Rightarrow> jstr \<Rightarrow> point list \<Rightarrow> js \<Rightarrow> jstr option" where
  \<comment> \<open>\<open>time\<close> is the text of the present time\<close>
  "buildRouteGPX num number time line meta =
     Option.bind (gpx_name num meta) (\<lambda>name.
     Option.bind (end_point num number (jget meta ''from'') ''Start'' ''start'') (\<lambda>a.
     Option.bind (list_or_none (jget meta ''stops'')) (\<lambda>stops.
     Option.bind (those (map (stop_point num number) (enumerate 0 stops))) (\<lambda>ws.
     Option.bind (end_point num number (jget meta ''to'') ''Ziel'' ''end'') (\<lambda>b.
     Option.bind (gpx_steps meta) (\<lambda>steps.
     map_option (\<lambda>rs. gpx_text number (xml_text name) time (a @ ws @ b) rs line)
       (those (map (step_point num number) steps))))))))"

section \<open>GeoJSON\<close>

definition export_route :: "point list \<Rightarrow> js \<Rightarrow> jstr \<Rightarrow> jstr \<Rightarrow> js" where
  \<comment> \<open>\<open>engine\<close> is the text of the page that is used when the route has none; the line is latitude, longitude\<close>
  "export_route line meta engine time =
     JObj [(lit ''type'', JStr (lit ''Feature'')),
       (lit ''geometry'', JObj [(lit ''type'', JStr (lit ''LineString'')),
          (lit ''coordinates'', JArr (map (\<lambda>p. JArr [JNum (Fin (snd p)), JNum (Fin (fst p))]) line))]),
       (lit ''properties'', JObj [(lit ''name'', JStr (lit ''OSMmini Route'')),
          (lit ''distance_m'', nullish_or (jget meta ''distance_m'') (JStr [])),
          (lit ''duration_s'', nullish_or (jget meta ''duration_s'') (JStr [])),
          (lit ''engine'', or_else (jget meta ''engine'') (or_else (JStr engine) (JStr []))),
          (lit ''timestamp'', JStr time)])]"

section \<open>The structure of the GPX file\<close>

text \<open>The names of the tags of a piece of XML, in their order: what follows each \<open><\<close>, up to a blank or the \<open>>\<close>.\<close>

function tag_names :: "jstr \<Rightarrow> jstr list" where
  "tag_names [] = []"
| "tag_names (c # s) =
     (if c = 60
      then takeWhile (\<lambda>d. d \<noteq> 32) (takeWhile (\<lambda>d. d \<noteq> 62) s) # tag_names (drop 1 (dropWhile (\<lambda>d. d \<noteq> 62) s))
      else tag_names s)"
  by pat_completeness auto
termination
  by (relation "measure length") (auto simp: less_Suc_eq_le intro: le_trans [OF diff_le_self length_dropWhile_le])

definition has_tags :: "jstr \<Rightarrow> jstr list \<Rightarrow> bool" where
  "has_tags p ns \<longleftrightarrow> (\<forall>r. tag_names (p @ r) = ns @ tag_names r)"

named_theorems tag_rules \<open>the tags of the pieces of a file\<close>

lemma has_tags_append [tag_rules]: "has_tags p ns \<Longrightarrow> has_tags q ms \<Longrightarrow> has_tags (p @ q) (ns @ ms)"
  by (simp add: has_tags_def)

lemma has_tags_text: "60 \<notin> set t \<Longrightarrow> has_tags t []"
proof -
  have "60 \<notin> set t \<Longrightarrow> tag_names (t @ r) = tag_names r" for r
    by (induction t) auto
  then show "60 \<notin> set t \<Longrightarrow> has_tags t []" by (simp add: has_tags_def)
qed

lemma has_tags_tag:
  assumes "62 \<notin> set t"
  shows "has_tags (60 # t @ [62]) [takeWhile (\<lambda>d. d \<noteq> 32) t]"
proof -
  have "takeWhile (\<lambda>d. d \<noteq> 62) (t @ 62 # r) = t" "dropWhile (\<lambda>d. d \<noteq> 62) (t @ 62 # r) = 62 # r" for r
    using assms by (induction t) auto
  then show ?thesis by (simp add: has_tags_def)
qed

lemma has_tags_same: "(\<And>p. p \<in> set ps \<Longrightarrow> has_tags p ns) \<Longrightarrow> has_tags (concat ps) (concat (replicate (length ps) ns))"
  by (induction ps) (auto simp: has_tags_def)

lemma join_same: "(\<And>p. p \<in> set ps \<Longrightarrow> has_tags p ns) \<Longrightarrow> has_tags (join_with nl ps) (concat (replicate (length ps) ns))"
  by (induction nl ps rule: join_with.induct) (auto simp: has_tags_def nl_def)

lemma toFixed_chars: "set (toFixed d x) \<subseteq> {c. is_digit c} \<union> {45, 46}"
proof -
  have "set (take k p) \<subseteq> Collect is_digit" "set (drop k p) \<subseteq> Collect is_digit"
    if "set p \<subseteq> Collect is_digit" for k and p :: jstr
    using that by (meson order_trans set_take_subset set_drop_subset)+
  moreover have "set (replicate m (word_of_nat 48) @ digits n) \<subseteq> Collect is_digit" for m n
    using digits_digit by (auto simp: is_digit_def)
  ultimately show ?thesis
    unfolding toFixed_def Let_def by (simp add: lit_def) blast
qed

lemma gpx_num_chars: "60 \<notin> set (gpx_num number v)" "62 \<notin> set (gpx_num number v)"
proof -
  have "60 \<notin> set (toFixed 7 r)" "62 \<notin> set (toFixed 7 r)" for r
    using toFixed_chars [of 7 r] by (auto simp: is_digit_def)
  then show "60 \<notin> set (gpx_num number v)" "62 \<notin> set (gpx_num number v)"
    by (simp_all add: gpx_num_def lit_def split: jsnum.split)
qed

lemma xml_text_chars: "60 \<notin> set (xml_text t)"
  by (auto simp: xml_text_def entity_def xml_table_def lit_def split: if_splits)

lemma xml_text_tags [tag_rules]: "tag_names (xml_text t @ r) = tag_names r"
  using has_tags_text [OF xml_text_chars] by (simp add: has_tags_def)

lemma pt_tags:
  assumes "has_tags inner ns" "\<forall>c \<in> set (lit tag). c \<noteq> 62 \<and> c \<noteq> 32"
  shows "has_tags (pt number tag lat lon inner) (lit tag # ns @ [47 # lit tag])"
proof -
  let ?t = "lit tag @ lit '' lat='' @ [34] @ gpx_num number lat @ [34] @ lit '' lon='' @ [34] @ gpx_num number lon @ [34]"
  have t: "takeWhile (\<lambda>d. d \<noteq> 32) ?t = lit tag"
    using assms(2) by (subst takeWhile_append2) (auto simp: lit_def)
  have u: "takeWhile (\<lambda>d. d \<noteq> 32) (47 # lit tag) = 47 # lit tag"
    using assms(2) by (simp add: takeWhile_eq_all_conv)
  have "62 \<notin> set ?t" "62 \<notin> set (47 # lit tag)"
    using assms(2) gpx_num_chars by (auto simp: lit_def)
  note tags = has_tags_tag [OF this(1), unfolded t] has_tags_tag [OF this(2), unfolded u]
  have "pt number tag lat lon inner = (60 # ?t @ [62]) @ inner @ 60 # (47 # lit tag) @ [62]"
    by (simp add: pt_def lit_def)
  then show ?thesis
    using has_tags_append [OF tags(1) has_tags_append [OF assms(1) tags(2)]] by simp
qed

text \<open>What the file consists of, for a number of way points, of steps and of points of the track.\<close>

definition name_type :: "jstr list" where
  "name_type = map lit [''name'', ''/name'', ''type'', ''/type'']"

definition gpx_structure :: "nat \<Rightarrow> nat \<Rightarrow> nat \<Rightarrow> jstr list" where
  "gpx_structure m k n =
     map lit [''?xml'', ''gpx'', ''metadata'', ''name'', ''/name'', ''time'', ''/time'', ''/metadata'']
     @ concat (replicate m (lit ''wpt'' # name_type @ [lit ''/wpt'']))
     @ (if k = 0 then []
        else map lit [''rte'', ''name'', ''/name''] @ concat (replicate k (lit ''rtept'' # name_type @ [lit ''/rtept''])) @ [lit ''/rte''])
     @ map lit [''trk'', ''name'', ''/name'', ''trkseg'']
     @ concat (replicate n [lit ''trkpt'', lit ''/trkpt''])
     @ map lit [''/trkseg'', ''/trk'', ''/gpx'']"

lemma named_tags:
  assumes "60 \<notin> set a" "60 \<notin> set b"
  shows "has_tags (named a b) name_type"
proof -
  have "tag_names (a @ r) = tag_names r" "tag_names (b @ r) = tag_names r" for r
    using assms has_tags_text by (simp_all add: has_tags_def)
  then show ?thesis by (simp add: has_tags_def named_def name_type_def lit_def)
qed

lemma way_point_tags:
  assumes "60 \<notin> set a" "60 \<notin> set b"
  shows "has_tags (pt number ''wpt'' lat lon (named a b)) (lit ''wpt'' # name_type @ [lit ''/wpt''])"
    "has_tags (pt number ''rtept'' lat lon (named a b)) (lit ''rtept'' # name_type @ [lit ''/rtept''])"
    "has_tags (pt number ''trkpt'' lat lon []) [lit ''trkpt'', lit ''/trkpt'']"
  using pt_tags [OF named_tags [OF assms], of "''wpt''"] pt_tags [OF named_tags [OF assms], of "''rtept''"]
    pt_tags [of "[]" "[]" "''trkpt''"]
  by (simp_all add: lit_def has_tags_def)

lemma xmlEscape_chars: "xmlEscape num v = Some t \<Longrightarrow> 60 \<notin> set t"
  using xml_text_chars by (auto simp: xmlEscape_def)

definition way_tags :: "jstr \<Rightarrow> bool" where "way_tags w = has_tags w (lit ''wpt'' # name_type @ [lit ''/wpt''])"

lemma end_point_tags:
  assumes "end_point num number e f ty = Some ws" "60 \<notin> set (lit ty)"
  shows "list_all way_tags ws \<and> length ws = of_bool (truthy e)"
  using assms way_point_tags(1) xmlEscape_chars by (fastforce simp: end_point_def way_tags_def split: if_splits)

lemma stop_point_tags: "stop_point num number p = Some w \<Longrightarrow> way_tags w"
proof -
  have "60 \<notin> set (lit ''stop'')" by (simp add: lit_def)
  then show "stop_point num number p = Some w \<Longrightarrow> way_tags w"
    using way_point_tags(1) [OF xml_text_chars] by (cases p) (auto simp: stop_point_def way_tags_def split: if_splits)
qed

lemma step_point_tags:
  "step_point num number st = Some w \<Longrightarrow> has_tags w (lit ''rtept'' # name_type @ [lit ''/rtept''])"
  using way_point_tags(2) xmlEscape_chars by (fastforce simp: step_point_def bind_eq_Some_conv split: if_splits)

lemma those_each: "those (map f xs) = Some ys \<Longrightarrow> (\<And>x y. f x = Some y \<Longrightarrow> P y) \<Longrightarrow> list_all P ys \<and> length ys = length xs"
  by (induction xs arbitrary: ys) (auto split: option.splits)

lemma ways_tags:
  assumes "list_all way_tags ws"
  shows "tag_names (concat (map (\<lambda>w. lit ''  '' @ w @ nl) ws) @ r)
    = concat (replicate (length ws) (lit ''wpt'' # name_type @ [lit ''/wpt''])) @ tag_names r"
  using assms by (induction ws) (simp_all add: way_tags_def has_tags_def nl_def lit_def [of "''  ''"])

lemma steps_tags:
  assumes "list_all (\<lambda>w. has_tags w ns) ws" "\<forall>c \<in> set i. c \<noteq> 60"
  shows "tag_names (join_with nl (map (\<lambda>w. i @ w) ws) @ r) = concat (replicate (length ws) ns) @ tag_names r"
proof -
  have "has_tags (i @ w) ns" if "w \<in> set ws" for w
    using that assms has_tags_text [of i] by (auto simp: list_all_iff has_tags_def)
  then have "has_tags (join_with nl (map (\<lambda>w. i @ w) ws)) (concat (replicate (length (map (\<lambda>w. i @ w) ws)) ns))"
    by (intro join_same) auto
  then show ?thesis by (simp add: has_tags_def)
qed

lemma track_tags: "tag_names (join_with nl (map (\<lambda>c. lit ''      '' @ pt number ''trkpt'' (f c) (g c) []) line) @ r)
    = concat (replicate (length line) [lit ''trkpt'', lit ''/trkpt'']) @ tag_names r"
proof -
  have "list_all (\<lambda>w. has_tags w [lit ''trkpt'', lit ''/trkpt'']) (map (\<lambda>c. pt number ''trkpt'' (f c) (g c) []) line)"
    using way_point_tags(3) [of "[]" "[]"] by (simp add: list_all_iff)
  from steps_tags [OF this, of "lit ''      ''"] show ?thesis by (simp add: comp_def lit_def [of "''      ''"])
qed

lemma literal_tags:
  "tag_names (nl @ r) = tag_names r" "tag_names nl = []"
  "tag_names (lit ''<?xml version='' @ 34 # lit ''1.0'' @ 34 # lit '' encoding='' @ 34 # lit ''UTF-8'' @ 34 # lit ''?>'' @ r)
    = lit ''?xml'' # tag_names r"
  "tag_names (lit ''<gpx version='' @ 34 # lit ''1.1'' @ 34 # lit '' creator='' @ 34 # lit ''osmmini'' @ 34 # lit '' xmlns='' @ 34
    # lit ''http://www.topografix.com/GPX/1/1'' @ 34 # lit ''>'' @ r) = lit ''gpx'' # tag_names r"
  "tag_names (lit ''  <metadata><name>'' @ r) = lit ''metadata'' # lit ''name'' # tag_names r"
  "tag_names (lit ''</name><time>'' @ r) = lit ''/name'' # lit ''time'' # tag_names r"
  "tag_names (lit ''</time></metadata>'' @ r) = lit ''/time'' # lit ''/metadata'' # tag_names r"
  "tag_names (lit ''  <rte><name>'' @ r) = lit ''rte'' # lit ''name'' # tag_names r"
  "tag_names (lit ''</name>'' @ r) = lit ''/name'' # tag_names r"
  "tag_names (lit ''  </rte>'' @ r) = lit ''/rte'' # tag_names r"
  "tag_names (lit ''  <trk><name>'' @ r) = lit ''trk'' # lit ''name'' # tag_names r"
  "tag_names (lit ''    <trkseg>'' @ r) = lit ''trkseg'' # tag_names r"
  "tag_names (lit ''    </trkseg>'' @ r) = lit ''/trkseg'' # tag_names r"
  "tag_names (lit ''  </trk>'' @ r) = lit ''/trk'' # tag_names r"
  "tag_names (lit ''</gpx>'' @ r) = lit ''/gpx'' # tag_names r"
  by (simp_all add: nl_def lit_def)

lemma gpx_text_tags:
  assumes "list_all way_tags ways" "list_all (\<lambda>w. has_tags w (lit ''rtept'' # name_type @ [lit ''/rtept''])) rs"
    "60 \<notin> set time"
  shows "tag_names (gpx_text number (xml_text name) time ways rs line) = gpx_structure (length ways) (length rs) (length line)"
proof -
  have time: "tag_names (time @ r) = tag_names r" for r using assms(3) has_tags_text by (simp add: has_tags_def)
  have "\<forall>c \<in> set (lit ''    ''). c \<noteq> 60" by (simp add: lit_def)
  note tags = time ways_tags [OF assms(1)] steps_tags [OF assms(2) this] track_tags xml_text_tags
  show ?thesis
    unfolding gpx_text_def gpx_structure_def by (simp add: tags literal_tags)
qed

lemma gpx_pieces:
  "buildRouteGPX num number time line meta = Some s \<longleftrightarrow>
    (\<exists>name a stops ws b steps rs. gpx_name num meta = Some name
      \<and> end_point num number (jget meta ''from'') ''Start'' ''start'' = Some a
      \<and> list_or_none (jget meta ''stops'') = Some stops \<and> those (map (stop_point num number) (enumerate 0 stops)) = Some ws
      \<and> end_point num number (jget meta ''to'') ''Ziel'' ''end'' = Some b
      \<and> gpx_steps meta = Some steps \<and> those (map (step_point num number) steps) = Some rs
      \<and> gpx_text number (xml_text name) time (a @ ws @ b) rs line = s)"
  unfolding buildRouteGPX_def bind_eq_Some_conv map_option_eq_Some by blast

text \<open>C40: the structure of the GPX file does not depend on what the labels, instructions and types contain: its tags are
  the declaration and the metadata, one way point for the start, each stop and the destination, the steps if there are
  any, and one point of the track per point of the line.\<close>

theorem gpx_well_built:
  assumes "buildRouteGPX num number time line meta = Some s" "60 \<notin> set time"
  shows "\<exists>stops steps. list_or_none (jget meta ''stops'') = Some stops \<and> gpx_steps meta = Some steps
    \<and> tag_names s = gpx_structure (of_bool (truthy (jget meta ''from'')) + length stops + of_bool (truthy (jget meta ''to'')))
        (length steps) (length line)"
proof -
  have types: "60 \<notin> set (lit ''start'')" "60 \<notin> set (lit ''end'')" by (simp_all add: lit_def)
  obtain name a stops ws b steps rs where
    p: "end_point num number (jget meta ''from'') ''Start'' ''start'' = Some a"
      "list_or_none (jget meta ''stops'') = Some stops" "those (map (stop_point num number) (enumerate 0 stops)) = Some ws"
      "end_point num number (jget meta ''to'') ''Ziel'' ''end'' = Some b"
      "gpx_steps meta = Some steps" "those (map (step_point num number) steps) = Some rs"
      "gpx_text number (xml_text name) time (a @ ws @ b) rs line = s"
    using assms(1) unfolding gpx_pieces by blast
  have a: "list_all way_tags a" "length a = of_bool (truthy (jget meta ''from''))" using end_point_tags [OF p(1) types(1)] by blast+
  have b: "list_all way_tags b" "length b = of_bool (truthy (jget meta ''to''))" using end_point_tags [OF p(4) types(2)] by blast+
  have w: "list_all way_tags ws" "length ws = length stops" using those_each [OF p(3), OF stop_point_tags] by auto
  have r: "list_all (\<lambda>w. has_tags w (lit ''rtept'' # name_type @ [lit ''/rtept''])) rs" "length rs = length steps"
    using those_each [OF p(6), OF step_point_tags] by auto
  have "list_all way_tags (a @ ws @ b)" using a(1) w(1) b(1) by simp
  from gpx_text_tags [OF this r(1) assms(2), of number name line] show ?thesis
    using p(2,5,7) a(2) b(2) w(2) r(2) by (simp add: add.assoc del: of_bool_eq split del: split_of_bool)
qed

lemma gpx_well_built_witness:
  "\<exists>s. buildRouteGPX (\<lambda>_. []) (\<lambda>_. NaN) (lit ''now'') [(1, 2), (3, 4)]
      (JObj [(lit ''from'', JObj [(lit ''label'', JStr (lit ''<gpx>''))])]) = Some s
    \<and> tag_names s = gpx_structure 1 0 2"
proof -
  let ?meta = "JObj [(lit ''from'', JObj [(lit ''label'', JStr (lit ''<gpx>''))])]"
  have e: "buildRouteGPX (\<lambda>_. []) (\<lambda>_. NaN) (lit ''now'') [(1, 2), (3, 4)] ?meta \<noteq> None"
    by (simp add: buildRouteGPX_def gpx_name_def end_point_def end_label_def list_or_none_def gpx_steps_def or_else_def
        xmlEscape_def lit_def)
  then obtain s where s: "buildRouteGPX (\<lambda>_. []) (\<lambda>_. NaN) (lit ''now'') [(1, 2), (3, 4)] ?meta = Some s" by blast
  have "list_or_none (jget ?meta ''stops'') = Some []" "gpx_steps ?meta = Some []"
    "truthy (jget ?meta ''from'')" "\<not> truthy (jget ?meta ''to'')" "60 \<notin> set (lit ''now'')"
    by (simp_all add: list_or_none_def gpx_steps_def lit_def)
  then show ?thesis using gpx_well_built [OF s] s by (auto simp: numeral_2_eq_2)
qed

end
