(* ===== verification/TileSources.thy ===== *)
theory TileSources
  imports Markup TinyTiles
begin

text \<open>
  The sources of the map (\<open>src/cmd/web/app.js\<close>): the settings of a source, the cards of the presets, the
  form in which a source is edited, the key under which tiles are cached, and what the settings of a source
  make the map load. The settings come from the server, which writes each of these fields as a string and the
  zoom as an integer; the code takes an absent field as the empty string, so it is the empty string here.
  \<open>new URL\<close> is a parameter: the host and the path of an address, \<open>None\<close> when it is not one.
\<close>

section \<open>Settings and presets\<close>

record tiles =
  map_type :: jstr
  upstream :: jstr
  style_url :: jstr
  wms_layers :: jstr
  attribution :: jstr
  max_zoom :: int

record preset =
  p_id :: jstr
  p_label :: jstr
  p_tiles :: tiles

definition or_str :: "jstr \<Rightarrow> string \<Rightarrow> jstr" where
  "or_str s d = (if s = [] then lit d else s)"

fun has_text :: "jstr \<Rightarrow> jstr \<Rightarrow> bool" where
  "has_text [] p = (p = [])"
| "has_text (c # r) p = (take (length p) (c # r) = p \<or> has_text r p)"

definition starts :: "jstr \<Rightarrow> string \<Rightarrow> bool" where
  "starts s p \<longleftrightarrow> take (length p) s = lit p"

section \<open>The cards\<close>

datatype source_category = Offline | Bayern | Online

definition tilePresetCategory :: "jstr \<Rightarrow> source_category" where
  \<comment> \<open>of the preset's ID\<close>
  "tilePresetCategory i =
     (if i = lit ''tinytiles_local'' \<or> i = lit ''geodata_custom'' then Offline
      else if starts i ''bayern_'' \<or> i = lit ''geodaten_bavaria'' then Bayern
      else Online)"

definition isRecommendedTilePreset :: "jstr \<Rightarrow> bool" where
  "isRecommendedTilePreset i \<longleftrightarrow> i \<in> set (map lit [''tinytiles_local'', ''basemap_de'', ''bayern_vector_standard''])"

definition tilePresetKindLabel :: "jstr \<Rightarrow> string" where
  \<comment> \<open>of the preset's kind of map\<close>
  "tilePresetKindLabel k =
     (let t = lower (or_str k ''raster'')
      in if t = lit ''vector'' then ''Vektor'' else if t = lit ''wms'' then ''WMS'' else ''Raster'')"

definition tilePresetDescription :: "preset \<Rightarrow> jstr" where
  "tilePresetDescription p =
     (if p_id p = lit ''tinytiles_local'' then lit ''Aus deiner PBF '' @ [0x2013] @ lit '' ohne externe Tile-API''
      else if tilePresetCategory (p_id p) = Bayern
      then lit ''Bayern '' @ [183] @ (if map_type (p_tiles p) = lit ''vector'' then lit '' detaillierte Vektorkarte'' else lit '' amtliche Karte'')
      else if p_id p = lit ''basemap_de'' then lit ''Deutschland '' @ [183] @ lit '' amtliche Basiskarte''
      else lit ''Online '' @ [183] @ lit '' Kartenquelle des Anbieters'')"

datatype source_icon = Parcel | Satellite | Diamond | Grid | Rows

definition tilePresetIcon :: "preset \<Rightarrow> source_icon" where
  "tilePresetIcon p =
     (if p_id p = lit ''tinytiles_local'' then Parcel
      else if has_text (p_id p) (lit ''luftbild'') then Satellite
      else if map_type (p_tiles p) = lit ''vector'' then Diamond
      else if map_type (p_tiles p) = lit ''wms'' then Grid
      else Rows)"

definition tilePresetBadges :: "preset \<Rightarrow> string list" where
  "tilePresetBadges p =
     [case tilePresetCategory (p_id p) of Offline \<Rightarrow> ''Offline'' | Bayern \<Rightarrow> ''Bayern'' | Online \<Rightarrow> ''Online'',
      tilePresetKindLabel (map_type (p_tiles p))]"

function replace_text :: "jstr \<Rightarrow> jstr \<Rightarrow> jstr \<Rightarrow> jstr" where
  \<comment> \<open>\<open>s.replaceAll(a, b)\<close> of a text that is not empty, by one without \<open>$\<close>\<close>
  "replace_text a b [] = []"
| "replace_text a b (c # r) =
     (if a \<noteq> [] \<and> take (length a) (c # r) = a then b @ replace_text a b (drop (length a) (c # r)) else c # replace_text a b r)"
  by pat_completeness auto
termination
  by (relation "measure (\<lambda>(a, b, s). length s)") auto

definition tilePreviewURL :: "tiles \<Rightarrow> jstr" where
  "tilePreviewURL t =
     (if upstream t = [] \<or> map_type t = lit ''wms'' then []
      else replace_text (lit ''{y}'') (lit ''354'') (replace_text (lit ''{x}'') (lit ''544'') (replace_text (lit ''{z}'') (lit ''10'') (upstream t))))"

definition matchingPresetForTiles :: "preset list \<Rightarrow> tiles \<Rightarrow> preset option" where
  "matchingPresetForTiles ps t =
     (case find (\<lambda>p. style_url (p_tiles p) \<noteq> [] \<and> style_url (p_tiles p) = style_url t) ps of
        Some p \<Rightarrow> Some p
      | None \<Rightarrow> find (\<lambda>p. upstream (p_tiles p) \<noteq> [] \<and> upstream (p_tiles p) = upstream t
          \<and> or_str (map_type (p_tiles p)) ''raster'' = or_str (map_type t) ''raster''
          \<and> wms_layers (p_tiles p) = wms_layers t) ps)"

datatype source_filter = Recommended | InCategory source_category

fun visibleTilePresets :: "source_filter \<Rightarrow> preset list \<Rightarrow> preset list" where
  "visibleTilePresets Recommended ps = filter (isRecommendedTilePreset \<circ> p_id) ps"
| "visibleTilePresets (InCategory c) ps = filter (\<lambda>p. tilePresetCategory (p_id p) = c) ps"

definition welcome_cards :: "preset list \<Rightarrow> preset list" where
  \<comment> \<open>\<open>renderWelcomeOnlineCards\<close>\<close>
  "welcome_cards ps = List.map_filter (\<lambda>i. find (\<lambda>p. p_id p = lit i) ps) [''basemap_de'', ''bayern_vector_standard'']"

section \<open>The form\<close>

text \<open>What the browser makes of a text that is put into a field: a choice that the list does not have chooses
  nothing, a field of one line has no line breaks.\<close>

record source_form =
  f_type :: jstr
  f_upstream :: jstr
  f_style :: jstr
  f_layers :: jstr
  f_attribution :: jstr
  f_zoom :: jstr

definition type_options :: "jstr list" where
  "type_options = map lit [''raster'', ''raster-direct'', ''vector'', ''wms'']"

definition select_value :: "jstr \<Rightarrow> jstr" where
  "select_value s = (if s \<in> set type_options then s else [])"

definition one_line :: "jstr \<Rightarrow> jstr" where
  "one_line s = filter (\<lambda>c. c \<noteq> 10 \<and> c \<noteq> 13) s"

definition zoom_text :: "int \<Rightarrow> jstr" where
  "zoom_text z = (if z > 0 then int_str z else [])"

definition setTileSourceForm :: "tiles \<Rightarrow> source_form" where
  "setTileSourceForm t =
     \<lparr>f_type = select_value (or_str (map_type t) ''raster''), f_upstream = one_line (upstream t), f_style = one_line (style_url t),
      f_layers = one_line (wms_layers t), f_attribution = one_line (attribution t), f_zoom = zoom_text (max_zoom t)\<rparr>"

definition parseInt :: "jstr \<Rightarrow> int option" where
  \<comment> \<open>\<open>Number.parseInt(s, 10)\<close>, \<open>None\<close> for \<open>NaN\<close>\<close>
  "parseInt s =
     (let t = dropWhile js_space s; neg = (t \<noteq> [] \<and> hd t = 45);
          u = (if t \<noteq> [] \<and> hd t \<in> {43, 45} then tl t else t); d = takeWhile is_digit u
      in if d = [] then None else Some ((if neg then -1 else 1) * int (undigits d)))"

definition tileSettingsFromUI :: "source_form \<Rightarrow> tiles" where
  "tileSettingsFromUI f =
     \<lparr>map_type = f_type f, upstream = trim (f_upstream f), style_url = trim (f_style f), wms_layers = trim (f_layers f),
      attribution = f_attribution f, max_zoom = (case parseInt (f_zoom f) of Some z \<Rightarrow> if z > 0 then z else 0 | None \<Rightarrow> 0)\<rparr>"

definition updateMapTypeVisibility :: "jstr \<Rightarrow> bool \<times> bool \<times> bool" where
  \<comment> \<open>whether the rows of the address, of the style and of the layers are shown\<close>
  "updateMapTypeVisibility t = (t \<noteq> lit ''vector'', t = lit ''vector'', t = lit ''wms'')"

section \<open>What is loaded\<close>

definition tiny_style :: jstr where "tiny_style = lit ''/static/styles/tinytiles-minimal.json''"

definition isTinyTilesSettings :: "tiles \<Rightarrow> bool" where
  "isTinyTilesSettings t \<longleftrightarrow> style_url t = tiny_style"

datatype map_mode = OfflineMap | BavariaMap | OnlineMap

definition updateMapModeUI :: "tiles \<Rightarrow> map_mode" where
  "updateMapModeUI t =
     (if style_url t = tiny_style then OfflineMap
      else if has_text (style_url t) (lit ''bayernwolke.de'') \<or> has_text (upstream t) (lit ''bayernwolke.de'')
        \<or> has_text (upstream t) (lit ''geoservices.bayern.de'') then BavariaMap
      else OnlineMap)"

type_synonym url_parser = "jstr \<Rightarrow> (jstr \<times> jstr) option"

definition usesDirectRaster :: "url_parser \<Rightarrow> jstr \<Rightarrow> tiles \<Rightarrow> bool" where
  "usesDirectRaster url mapType t \<longleftrightarrow>
     mapType = lit ''raster-direct''
     \<or> (case url (upstream t) of Some (host, _) \<Rightarrow> lower host = lit ''tile.openstreetmap.org'' | None \<Rightarrow> False)"

definition bavaria_credit :: jstr where
  "bavaria_credit = 169 # lit '' Datenquellen: Bayerische Vermessungsverwaltung, GeoBasis-DE / BKG 2023 '' @ [0x2013]
     @ lit '' Daten ver'' @ [0xE4] @ lit ''ndert''"

definition bayernRasterFallback :: "url_parser \<Rightarrow> tiles \<Rightarrow> (jstr \<times> jstr) option" where
  \<comment> \<open>the address and the attribution\<close>
  "bayernRasterFallback url t =
     (case url (style_url t) of
        None \<Rightarrow> None
      | Some (host, p) \<Rightarrow>
          if lower host \<noteq> lit ''vtod1.bayernwolke.de'' \<or> \<not> starts p ''/styles/by_style_'' then None
          else Some (if has_text (lower p) (lit ''luftbild'')
                     then lit ''https://wmtsod1.bayernwolke.de/wmts/by_dop/smerc/{z}/{x}/{y}''
                     else lit ''https://wmtsod1.bayernwolke.de/wmts/by_webkarte/smerc/{z}/{x}/{y}'', escapeHtml bavaria_credit))"

section \<open>The key of the cache\<close>

unbundle bit_operations_syntax

text \<open>Two 32-bit numbers (\<open>Math.imul\<close> and \<open>^\<close> compute with 32 bits), written to the base 36.\<close>

fun digits36 :: "nat \<Rightarrow> jstr" where
  "digits36 n = (if n < 36 then [] else digits36 (n div 36)) @ [word_of_nat (if n mod 36 < 10 then 48 + n mod 36 else 87 + n mod 36)]"

declare digits36.simps [simp del]

definition source_text :: "jstr \<Rightarrow> tiles \<Rightarrow> jstr" where
  "source_text mapType t = join_with [0x1F] [mapType, upstream t, wms_layers t]"

definition key_step :: "16 word \<Rightarrow> 32 word \<times> 32 word \<Rightarrow> 32 word \<times> 32 word" where
  "key_step c h = ((fst h XOR ucast c) * 2654435761, (snd h XOR ucast c) * 1597334677)"

definition tileSourceCacheKey :: "jstr \<Rightarrow> tiles \<Rightarrow> jstr" where
  "tileSourceCacheKey mapType t =
     (let h = fold key_step (source_text mapType t) (0xDEADBEEF, 0x41C6CE57)
      in digits36 (unat (fst h)) @ 45 # digits36 (unat (snd h)))"

section \<open>The form and the settings\<close>

definition form_ok :: "source_form \<Rightarrow> bool" where
  "form_ok f \<longleftrightarrow> f_type f \<in> set type_options \<and> (\<forall>t \<in> {f_upstream f, f_style f, f_layers f, f_attribution f}. one_line t = t)"

definition tidy :: "tiles \<Rightarrow> bool" where
  \<comment> \<open>settings that the form can hold\<close>
  "tidy t \<longleftrightarrow> map_type t \<in> set type_options \<and> max_zoom t \<ge> 0
     \<and> (\<forall>s \<in> {upstream t, style_url t, wms_layers t}. one_line s = s \<and> trim s = s) \<and> one_line (attribution t) = attribution t"

lemma one_line_trim: "one_line s = s \<Longrightarrow> one_line (trim s) = trim s"
  unfolding one_line_def trim_def filter_id_conv
  by (auto dest!: set_dropWhileD)

lemma one_line_idem [simp]: "one_line (one_line s) = one_line s"
  by (simp add: one_line_def)

lemma digits_not_space: "c \<in> set (digits n) \<Longrightarrow> \<not> js_space c \<and> is_digit c \<and> c \<noteq> 43 \<and> c \<noteq> 45"
  using digits_digit [of c n] by (auto simp: is_digit_def js_space_def Let_def)

lemma parseInt_digits: "parseInt (digits n) = Some (int n)"
proof -
  have "hd (digits n) \<in> set (digits n)" by simp
  with digits_not_space [of "hd (digits n)" n]
  have h: "\<not> js_space (hd (digits n))" "hd (digits n) \<noteq> 43" "hd (digits n) \<noteq> 45" by auto
  have "dropWhile js_space (digits n) = digits n" using h(1) by (cases "digits n") auto
  moreover have t: "takeWhile is_digit (digits n) = digits n" unfolding takeWhile_eq_all_conv using digits_not_space by blast
  ultimately show ?thesis using h by (simp add: parseInt_def Let_def t)
qed

lemma parseInt_Nil [simp]: "parseInt [] = None"
  by (simp add: parseInt_def)

lemma zoom_back: "z \<ge> 0 \<Longrightarrow> (case parseInt (zoom_text z) of Some y \<Rightarrow> if y > 0 then y else 0 | None \<Rightarrow> 0) = z"
  by (auto simp: zoom_text_def int_str_def parseInt_digits)

text \<open>What a preset puts into the form is read back from it as it was.\<close>

lemma form_reads_back: "tidy t \<Longrightarrow> tileSettingsFromUI (setTileSourceForm t) = t"
  using zoom_back [of "max_zoom t"]
  by (cases t) (auto simp: tidy_def tileSettingsFromUI_def setTileSourceForm_def select_value_def or_str_def type_options_def lit_def)

lemma form_tidy: "form_ok f \<Longrightarrow> tidy (tileSettingsFromUI f)"
  using one_line_trim by (auto simp: form_ok_def tidy_def tileSettingsFromUI_def split: option.split)

lemma form_ok_set: "form_ok (setTileSourceForm t) \<longleftrightarrow> or_str (map_type t) ''raster'' \<in> set type_options"
  by (auto simp: form_ok_def setTileSourceForm_def select_value_def) (simp_all add: type_options_def lit_def)

section \<open>Keys of different sources\<close>

lemma xor_cancel: "(a :: 'a :: len word) XOR b = c XOR b \<Longrightarrow> a = c"
  by (metis xor.assoc xor_self_eq xor.right_neutral)

lemma factor_odd: "2654435761 * 244002641 = (1 :: 32 word)"
  by transfer (simp add: take_bit_eq_mod)

lemma odd_cancel: "x * 2654435761 = y * 2654435761 \<Longrightarrow> x = (y :: 32 word)"
proof -
  assume "x * 2654435761 = y * 2654435761"
  then have "x * 2654435761 * 244002641 = y * 2654435761 * 244002641" by (rule arg_cong)
  then show "x = y" unfolding mult.assoc factor_odd by (simp only: mult_1_right)
qed

lemma key_step_inj:
  assumes "fst (key_step c h) = fst (key_step d k)"
  shows "fst h XOR ucast c = fst k XOR ucast d"
  by (rule odd_cancel) (use assms in \<open>simp only: key_step_def fst_conv\<close>)

lemma same_suffix: "fst (fold key_step q h) = fst (fold key_step q k) \<Longrightarrow> fst h = fst k"
proof (induction q arbitrary: h k)
  case (Cons c q)
  from Cons.prems have "fst (key_step c h) = fst (key_step c k)"
    unfolding fold_simps by (rule Cons.IH)
  then show ?case by (rule xor_cancel [OF key_step_inj])
qed simp

lemma one_char:
  assumes "fst (fold key_step (p @ c # q) h) = fst (fold key_step (p @ d # q) h)"
  shows "c = d"
proof -
  have "fst (key_step c (fold key_step p h)) = fst (key_step d (fold key_step p h))"
    by (rule same_suffix [of q]) (use assms in simp)
  then have "ucast c XOR fst (fold key_step p h) = ucast d XOR fst (fold key_step p h)"
    by (metis key_step_inj xor.commute)
  then have "(ucast c :: 32 word) = ucast d" by (rule xor_cancel)
  then have "unat (ucast c :: 32 word) = unat (ucast d :: 32 word)" by (rule arg_cong)
  moreover have "unat (ucast x :: 32 word) = unat x" for x :: "16 word"
    by (simp add: unsigned_ucast_eq take_bit_nat_eq_self less_trans [OF unsigned_less])
  ultimately show "c = d" by (simp add: unsigned_word_eqI)
qed

lemma small_word_inj: "m < 65536 \<Longrightarrow> n < 65536 \<Longrightarrow> (word_of_nat m :: 16 word) = word_of_nat n \<longleftrightarrow> m = n"
  by (auto dest: arg_cong [where f = unat] simp: unat_of_nat)

definition digit36 :: "nat \<Rightarrow> nat" where "digit36 k = (if k < 10 then 48 + k else 87 + k)"

lemma digits36_eq: "digits36 n = (if n < 36 then [] else digits36 (n div 36)) @ [word_of_nat (digit36 (n mod 36))]"
  by (subst digits36.simps) (simp add: digit36_def)

lemma digit36_inj: "m < 36 \<Longrightarrow> n < 36 \<Longrightarrow> (word_of_nat (digit36 m) :: 16 word) = word_of_nat (digit36 n) \<longleftrightarrow> m = n"
  by (subst small_word_inj) (auto simp: digit36_def)

lemma digit36_not_dash: "n < 36 \<Longrightarrow> (word_of_nat (digit36 n) :: 16 word) \<noteq> 45"
  using small_word_inj [of "digit36 n" 45] by (auto simp: digit36_def)

lemma digits36_ne [simp]: "digits36 n \<noteq> []" "[] \<noteq> digits36 n"
  by (subst digits36_eq, simp)+

lemma digits36_inj: "digits36 m = digits36 n \<Longrightarrow> m = n"
proof (induction m arbitrary: n rule: less_induct)
  case (less m)
  have e: "(if m < 36 then [] else digits36 (m div 36)) = (if n < 36 then [] else digits36 (n div 36))"
    "m mod 36 = n mod 36"
    using less.prems by (subst (asm) (1 2) digits36_eq, simp add: digit36_inj)+
  show ?case
  proof (cases "m < 36")
    case True
    then have "n < 36" using e(1) by (auto split: if_splits)
    then show ?thesis using True e(2) by simp
  next
    case False
    then have "\<not> n < 36" "digits36 (m div 36) = digits36 (n div 36)" using e(1) by (auto split: if_splits)
    then have "m div 36 = n div 36" using False less.IH [of "m div 36" "n div 36"] by simp
    then show ?thesis using e(2) by (metis div_mult_mod_eq)
  qed
qed

lemma digits36_chars: "45 \<notin> set (digits36 n)"
proof (induction n rule: less_induct)
  case (less n)
  then have "45 \<notin> set (if n < 36 then [] else digits36 (n div 36))" by simp
  moreover have "45 \<notin> set [word_of_nat (digit36 (n mod 36)) :: 16 word]" using digit36_not_dash [of "n mod 36"] by simp
  ultimately show ?case by (subst digits36_eq) (simp only: set_append Un_iff simp_thms)
qed

text \<open>two sources whose texts differ in a single character, say in the version of a map, never share the tiles that
  the browser has cached: their keys are different, however long the addresses are.\<close>

theorem near_sources_apart:
  assumes "source_text k s = p @ c # q" "source_text l t = p @ d # q" "c \<noteq> d"
  shows "tileSourceCacheKey k s \<noteq> tileSourceCacheKey l t"
proof
  assume e: "tileSourceCacheKey k s = tileSourceCacheKey l t"
  let ?h = "\<lambda>x. fold key_step x (0xDEADBEEF, 0x41C6CE57)"
  have split: "takeWhile (\<lambda>x. x \<noteq> 45) (digits36 m @ 45 # r) = digits36 m" for m r
    using digits36_chars [of m] by (induction "digits36 m") (auto simp: takeWhile_append takeWhile_eq_all_conv)
  have "digits36 (unat (fst (?h (p @ c # q)))) = digits36 (unat (fst (?h (p @ d # q))))"
    using arg_cong [OF e, of "takeWhile (\<lambda>x. x \<noteq> 45)"] assms(1,2) by (simp only: tileSourceCacheKey_def Let_def split)
  then have "fst (?h (p @ c # q)) = fst (?h (p @ d # q))" using digits36_inj unsigned_word_eqI by blast
  then show False using one_char assms(3) by blast
qed

lemma near_sources_apart_witness:
  "tileSourceCacheKey (lit ''wms'') \<lparr>map_type = [], upstream = lit ''v1/x'', style_url = [], wms_layers = [], attribution = [], max_zoom = 0\<rparr>
   \<noteq> tileSourceCacheKey (lit ''wms'') \<lparr>map_type = [], upstream = lit ''v2/x'', style_url = [], wms_layers = [], attribution = [], max_zoom = 0\<rparr>"
  by (rule near_sources_apart [of _ _ "lit ''wms'' @ [0x1F] @ lit ''v''" 49 "lit ''/x'' @ [0x1F]" _ _ 50])
     (simp_all add: source_text_def lit_def)

end
