(* ===== verification/TileLayer.thy ===== *)
theory TileLayer
  imports TileSources Requests
begin

text \<open>
  The base layer of the map (\<open>src/cmd/web/app.js\<close>): \<open>applyTileLayer\<close> with its waits for the map, for a style and
  for the tiles of a source, and the handlers that use it: the cards of the sources, the own source, the saved
  settings, the off-line map. Several of these can be under way at once; each is a value of type \<open>loading\<close>
  that says what it waits for. What the map shows is the style that was set last and the raster sources that
  were added to it since. An answer of the map says whether the style or the source is ready; the part of an event that
  says what the browser and the map can do (\<open>able\<close>) is: is there WebGL, does \<open>setStyle\<close> return, does
  \<open>addSource\<close> return (the library throws while a style is loading).
\<close>

section \<open>Addresses\<close>

definition hex_upper :: "nat \<Rightarrow> 16 word" where
  "hex_upper d = word_of_nat (if d < 10 then 48 + d else 55 + d)"

definition percent :: "nat \<Rightarrow> jstr" where
  "percent b = [37, hex_upper (b div 16), hex_upper (b mod 16)]"

definition utf8_bytes :: "nat \<Rightarrow> nat list" where
  "utf8_bytes n =
     (if n < 0x80 then [n]
      else if n < 0x800 then [0xC0 + n div 64, 0x80 + n mod 64]
      else if n < 0x10000 then [0xE0 + n div 4096, 0x80 + n div 64 mod 64, 0x80 + n mod 64]
      else [0xF0 + n div 262144, 0x80 + n div 4096 mod 64, 0x80 + n div 64 mod 64, 0x80 + n mod 64])"

definition unescaped :: "nat \<Rightarrow> bool" where
  "unescaped n \<longleftrightarrow> 48 \<le> n \<and> n \<le> 57 \<or> 65 \<le> n \<and> n \<le> 90 \<or> 97 \<le> n \<and> n \<le> 122
     \<or> n \<in> {45, 95, 46, 33, 126, 42, 39, 40, 41}"

definition encodeURIComponent :: "jstr \<Rightarrow> jstr option" where
  \<comment> \<open>\<open>None\<close> is the exception for a surrogate that stands alone\<close>
  "encodeURIComponent s =
     (if \<exists>n \<in> set (codePoints s). 0xD800 \<le> n \<and> n \<le> 0xDFFF then None
      else Some (concat (map (\<lambda>n. if unescaped n then [word_of_nat n] else concat (map percent (utf8_bytes n))) (codePoints s))))"

definition wmsURL :: "tiles \<Rightarrow> jstr option" where
  "wmsURL t = map_option (\<lambda>layers.
     upstream t @ (if has_text (upstream t) (lit ''?'') then lit ''&'' else lit ''?'')
     @ lit ''SERVICE=WMS&VERSION=1.1.1&REQUEST=GetMap&FORMAT=image%2Fpng&TRANSPARENT=false&LAYERS='' @ layers
     @ lit ''&SRS=EPSG%3A3857&WIDTH=256&HEIGHT=256&BBOX={bbox-epsg-3857}'')
     (encodeURIComponent (wms_layers t))"

definition proxyURL :: "jstr \<Rightarrow> tiles \<Rightarrow> jstr" where
  "proxyURL mapType t = lit ''/tiles/{z}/{x}/{y}.png?source='' @ tileSourceCacheKey mapType t"

record raster_source =
  rs_url :: jstr
  rs_attribution :: jstr
  rs_maxzoom :: int

definition zoom_or_default :: "tiles \<Rightarrow> int" where
  "zoom_or_default t = (if max_zoom t > 0 then max_zoom t else 19)"

datatype raster_plan = NoRaster | Raster "raster_source option"   \<comment> \<open>\<open>None\<close>: building the address throws\<close>

definition raster_of :: "tiles \<Rightarrow> jstr \<Rightarrow> raster_source" where
  "raster_of t u = \<lparr>rs_url = u, rs_attribution = escapeHtml (attribution t), rs_maxzoom = zoom_or_default t\<rparr>"

definition raster_plan :: "url_parser \<Rightarrow> bool \<Rightarrow> jstr \<Rightarrow> tiles \<Rightarrow> raster_plan" where
  \<comment> \<open>the source that is put into the map when the style is not a vector style\<close>
  "raster_plan url direct mapType t =
     (if mapType = lit ''wms'' \<and> upstream t \<noteq> [] \<and> direct then Raster (map_option (raster_of t) (wmsURL t))
      else if upstream t \<noteq> []
      then Raster (Some (raster_of t (if direct \<or> usesDirectRaster url mapType t then upstream t else proxyURL mapType t)))
      else case bayernRasterFallback url t of
             Some (u, a) \<Rightarrow> Raster (Some ((raster_of t u)\<lparr>rs_attribution := a\<rparr>))
           | None \<Rightarrow> NoRaster)"

section \<open>State\<close>

datatype base_layer = RasterLayer nat | VectorLayer jstr
datatype base_kind = RasterKind | VectorKind
datatype map_style = FirstStyle | EmptyStyle | StyleFrom jstr

datatype asker =
    Background                 \<comment> \<open>the start of the page, saved settings: nobody looks at the result\<close>
  | Card jstr tiles            \<comment> \<open>a card; the card and the settings before\<close>
  | OwnSource
  | OfflineAsked tiles

datatype wait = MapLoad | VectorReady | VectorPaint | StyleReady | SourceReady | RasterPaint | LastPaint

record loading =
  l_no :: nat
  l_for :: asker
  l_tiles :: tiles
  l_direct :: bool
  l_gen :: nat
  l_wait :: wait

record able =
  webgl :: bool
  set_returns :: bool
  add_returns :: bool

record base =
  map_loaded :: bool
  generation :: nat
  current :: "base_layer option"
  kind :: "base_kind option"
  m_style :: map_style
  m_sources :: "(nat \<times> raster_source) list"    \<comment> \<open>the raster sources of the map, by the number in their name\<close>
  mode :: "tiles option"                        \<comment> \<open>what \<open>updateMapModeUI\<close> was called with last\<close>
  offline_parts :: bool                         \<comment> \<open>labels and waterways of the off-line map\<close>
  style_panel :: bool
  active :: jstr
  form :: source_form
  overlay :: bool
  loadings :: "loading list"
  asked :: nat

section \<open>\<open>applyTileLayer\<close>\<close>

definition park :: "loading \<Rightarrow> wait \<Rightarrow> base \<Rightarrow> base" where
  "park l w s = s\<lparr>loadings := map (\<lambda>k. if l_no k = l_no l then l\<lparr>l_wait := w\<rparr> else k) (loadings s)\<rparr>"

definition leave :: "loading \<Rightarrow> base \<Rightarrow> base" where
  "leave l s = s\<lparr>loadings := filter (\<lambda>k. l_no k \<noteq> l_no l) (loadings s)\<rparr>"

definition finish :: "bool \<Rightarrow> loading \<Rightarrow> base \<Rightarrow> base" where
  \<comment> \<open>what the caller does with the result\<close>
  "finish ok l s =
     (case l_for l of
        Background \<Rightarrow> leave l s
      | Card i t \<Rightarrow>
          if ok then park l LastPaint s else (leave l s)\<lparr>active := i, form := setTileSourceForm t, overlay := False\<rparr>
      | OwnSource \<Rightarrow> if ok then park l LastPaint s else (leave l s)\<lparr>overlay := False\<rparr>
      | OfflineAsked t \<Rightarrow>
          if ok then (leave l s)\<lparr>form := setTileSourceForm t, active := lit ''tinytiles_local'', overlay := False\<rparr>
          else (leave l s)\<lparr>overlay := False\<rparr>)"

definition thrown :: "loading \<Rightarrow> base \<Rightarrow> base" where
  \<comment> \<open>an exception: the callers that show something hide it\<close>
  "thrown l s = (if l_for l = Background then leave l s else (leave l s)\<lparr>overlay := False\<rparr>)"

definition mapType_of :: "tiles \<Rightarrow> jstr" where
  "mapType_of t = lower (or_str (map_type t) ''raster'')"

definition add_raster :: "able \<Rightarrow> raster_source option \<Rightarrow> loading \<Rightarrow> base \<Rightarrow> base" where
  "add_raster e r l s =
     (case r of
        Some r \<Rightarrow> if add_returns e then park l SourceReady (s\<lparr>m_sources := m_sources s @ [(l_gen l, r)]\<rparr>) else thrown l s
      | None \<Rightarrow> thrown l s)"

definition ensureRasterCapableStyle :: "able \<Rightarrow> raster_source option \<Rightarrow> loading \<Rightarrow> base \<Rightarrow> base" where
  "ensureRasterCapableStyle e r l s =
     (if kind s = Some RasterKind then add_raster e r l s
      else if kind s \<noteq> None
      then if set_returns e then park l StyleReady (s\<lparr>m_style := EmptyStyle, m_sources := [], current := None\<rparr>) else thrown l s
      else park l StyleReady s)"

definition raster_part :: "url_parser \<Rightarrow> able \<Rightarrow> loading \<Rightarrow> base \<Rightarrow> base" where
  "raster_part url e l s =
     (case raster_plan url (l_direct l) (mapType_of (l_tiles l)) (l_tiles l) of
        NoRaster \<Rightarrow> finish False l s
      | Raster r \<Rightarrow> ensureRasterCapableStyle e r l s)"

definition first_part :: "url_parser \<Rightarrow> able \<Rightarrow> loading \<Rightarrow> base \<Rightarrow> base" where
  \<comment> \<open>from the end of \<open>await mapInitialLoad\<close> to the next wait\<close>
  "first_part url e l s =
     (let g = generation s + 1; l = l\<lparr>l_gen := g\<rparr>; t = l_tiles l;
          s = s\<lparr>generation := g, style_panel := style_panel s \<and> isTinyTilesSettings t\<rparr>
      in if mapType_of t = lit ''vector'' \<and> style_url t \<noteq> [] \<and> webgl e \<and> set_returns e
         then park l VectorReady (s\<lparr>m_style := StyleFrom (style_url t), m_sources := []\<rparr>)
         else raster_part url e l s)"

definition shown :: "tiles \<Rightarrow> base \<Rightarrow> base" where
  "shown t s = s\<lparr>mode := Some t, offline_parts := isTinyTilesSettings t\<rparr>"

definition drop_source :: "nat \<Rightarrow> base \<Rightarrow> base" where
  "drop_source g s = s\<lparr>m_sources := filter (\<lambda>p. fst p \<noteq> g) (m_sources s)\<rparr>"

definition activated :: "loading \<Rightarrow> base \<Rightarrow> base" where
  \<comment> \<open>the source is ready: the one before is removed\<close>
  "activated l s =
     (case current s of Some (RasterLayer g) \<Rightarrow> if g \<noteq> l_gen l then drop_source g s else s | _ \<Rightarrow> s)
       \<lparr>current := Some (RasterLayer (l_gen l)), kind := Some RasterKind\<rparr>"

definition continue :: "url_parser \<Rightarrow> bool \<Rightarrow> able \<Rightarrow> loading \<Rightarrow> base \<Rightarrow> base" where
  \<comment> \<open>the answer to what a loading waits for; \<open>ready\<close> is the answer of the map\<close>
  "continue url ready e l s =
     (let t = l_tiles l; live = (ready \<and> l_gen l = generation s)
      in case l_wait l of
           MapLoad \<Rightarrow> if map_loaded s then first_part url e l s else s
         | VectorReady \<Rightarrow>
             if live then park l VectorPaint (s\<lparr>current := Some (VectorLayer (style_url t)), kind := Some VectorKind\<rparr>)
             else finish False l s
         | VectorPaint \<Rightarrow> finish True l ((shown t s)\<lparr>style_panel := isTinyTilesSettings t\<rparr>)
         | StyleReady \<Rightarrow>
             (case raster_plan url (l_direct l) (mapType_of t) t of
                Raster r \<Rightarrow> if live then add_raster e r l s else finish False l s
              | _ \<Rightarrow> finish False l s)
         | SourceReady \<Rightarrow>
             if live then park l RasterPaint (activated l s) else finish False l (drop_source (l_gen l) s)
         | RasterPaint \<Rightarrow> finish True l (shown t s)
         | LastPaint \<Rightarrow> (leave l s)\<lparr>overlay := False\<rparr>)"

section \<open>Events\<close>

definition applyTileLayer :: "asker \<Rightarrow> bool \<Rightarrow> tiles \<Rightarrow> base \<Rightarrow> base" where
  "applyTileLayer who direct t s =
     s\<lparr>asked := asked s + 1,
       loadings := loadings s @ [\<lparr>l_no = asked s, l_for = who, l_tiles = t, l_direct = direct, l_gen = 0, l_wait = MapLoad\<rparr>]\<rparr>"

definition selectTilePreset :: "preset \<Rightarrow> base \<Rightarrow> base" where
  \<comment> \<open>of a preset other than that of the off-line map, which is asked for by \<open>AskOffline\<close>\<close>
  "selectTilePreset p s =
     (let f = setTileSourceForm (p_tiles p)
      in applyTileLayer (Card (active s) (tileSettingsFromUI (form s))) True (tileSettingsFromUI f)
           (s\<lparr>active := p_id p, form := f, overlay := True\<rparr>))"

datatype base_event =
    MapLoaded
  | PickCard preset
  | PreviewOwn
  | EditForm source_form
  | ApplySaved tiles
  | AskOffline tiles
  | Continue nat bool able

fun base_step :: "url_parser \<Rightarrow> base_event \<Rightarrow> base \<Rightarrow> base" where
  "base_step url MapLoaded s = s\<lparr>map_loaded := True\<rparr>"
| "base_step url (PickCard p) s = (if p_id p = lit ''tinytiles_local'' then s else selectTilePreset p s)"
| "base_step url PreviewOwn s =
     applyTileLayer OwnSource True (tileSettingsFromUI (form s)) (s\<lparr>active := [], overlay := True\<rparr>)"
| "base_step url (EditForm f) s = s\<lparr>form := f, active := []\<rparr>"
| "base_step url (ApplySaved t) s = applyTileLayer Background False t s"
| "base_step url (AskOffline t) s = applyTileLayer (OfflineAsked t) False t (s\<lparr>overlay := True\<rparr>)"
| "base_step url (Continue n ready e) s =
     (case find (\<lambda>l. l_no l = n) (loadings s) of Some l \<Rightarrow> continue url ready e l s | None \<Rightarrow> s)"

definition first_base :: "source_form \<Rightarrow> tiles \<Rightarrow> base" where
  \<comment> \<open>the page at its start, with the settings that the server gave it\<close>
  "first_base f t = applyTileLayer Background False t
     \<lparr>map_loaded = False, generation = 0, current = None, kind = None, m_style = FirstStyle, m_sources = [], mode = None,
      offline_parts = False, style_panel = False, active = [], form = f, overlay = False, loadings = [], asked = 0\<rparr>"

section \<open>No source is left behind\<close>

abbreviation begun :: "loading \<Rightarrow> bool" where
  "begun l \<equiv> l_wait l \<noteq> MapLoad"

definition begun_in :: "loading set \<Rightarrow> loading set" where
  "begun_in L = {l \<in> L. begun l}"

definition gens :: "loading set \<Rightarrow> nat set" where
  "gens L = l_gen ` begun_in L"

definition gens_ok :: "loading set \<Rightarrow> nat \<Rightarrow> bool" where
  "gens_ok L g \<longleftrightarrow> gens L \<subseteq> {1..g} \<and> inj_on l_gen (begun_in L)"

definition vector_ok :: "loading set \<Rightarrow> (nat \<times> raster_source) list \<Rightarrow> nat \<Rightarrow> bool" where
  "vector_ok L src g \<longleftrightarrow> (\<forall>l \<in> L. l_wait l = VectorReady \<and> l_gen l = g \<longrightarrow> src = [])"

definition current_ok :: "loading set \<Rightarrow> base_layer option \<Rightarrow> base_kind option \<Rightarrow> nat \<Rightarrow> bool" where
  "current_ok L c k g \<longleftrightarrow>
     (case c of
        None \<Rightarrow> True
      | Some (VectorLayer u) \<Rightarrow> k = Some VectorKind
      | Some (RasterLayer n) \<Rightarrow> n \<le> g \<and> k = Some RasterKind
          \<and> (\<forall>l \<in> L. l_wait l \<in> {VectorReady, StyleReady, SourceReady} \<longrightarrow> l_gen l \<noteq> n))"

definition owned :: "loading set \<Rightarrow> base_layer option \<Rightarrow> nat \<Rightarrow> bool" where
  "owned L c n \<longleftrightarrow> c = Some (RasterLayer n) \<or> (\<exists>l \<in> L. l_wait l = SourceReady \<and> l_gen l = n)"

definition sources_ok :: "loading set \<Rightarrow> base_layer option \<Rightarrow> (nat \<times> raster_source) list \<Rightarrow> bool" where
  "sources_ok L c src \<longleftrightarrow> distinct (map fst src) \<and> (\<forall>n \<in> fst ` set src. owned L c n)"

definition layers_ok :: "loading set \<Rightarrow> base_layer option \<Rightarrow> base_kind option \<Rightarrow> (nat \<times> raster_source) list \<Rightarrow> nat \<Rightarrow> bool" where
  "layers_ok L c k src g \<longleftrightarrow> gens_ok L g \<and> vector_ok L src g \<and> current_ok L c k g \<and> sources_ok L c src"

lemma begun_insert: "begun_in (insert l R) = (if begun l then insert l (begun_in R) else begun_in R)"
  by (auto simp: begun_in_def)

lemma begun_not: "l \<notin> R \<Longrightarrow> l \<notin> begun_in R"
  by (simp add: begun_in_def)

lemma gens_insert: "begun l \<Longrightarrow> l \<notin> R \<Longrightarrow> gens_ok (insert l R) g \<longleftrightarrow> gens_ok R g \<and> l_gen l \<in> {1..g} \<and> l_gen l \<notin> gens R"
  by (auto simp: gens_ok_def gens_def begun_insert inj_on_insert begun_not)

lemma gens_insert_idle: "\<not> begun l \<Longrightarrow> gens_ok (insert l R) g \<longleftrightarrow> gens_ok R g"
  by (simp add: gens_ok_def gens_def begun_insert)

lemma gens_leave: "gens_ok (insert l R) g \<Longrightarrow> gens_ok R g"
  by (cases "l \<in> R"; cases "begun l") (auto simp: insert_absorb gens_insert gens_insert_idle)

lemma gens_ok_more: "gens_ok R g \<Longrightarrow> g \<le> g' \<Longrightarrow> gens_ok R g'"
  by (force simp: gens_ok_def)

lemma gens_put: "gens_ok R g \<Longrightarrow> l_gen l \<in> {1..g} \<Longrightarrow> l_gen l \<notin> gens R \<Longrightarrow> gens_ok (insert l R) g"
  by (cases "l \<in> R"; cases "begun l") (auto simp: insert_absorb gens_insert gens_insert_idle)

lemma gens_change:
  "gens_ok (insert l R) g \<Longrightarrow> begun l \<Longrightarrow> l \<notin> R \<Longrightarrow> gens_ok (insert (l\<lparr>l_wait := w\<rparr>) R) g"
  by (intro gens_put) (auto simp: gens_insert)

lemma gens_new: "gens_ok R g \<Longrightarrow> l_gen l = Suc g \<Longrightarrow> gens_ok (insert l R) (Suc g)"
  by (intro gens_put) (auto intro: gens_ok_more simp: gens_ok_def)

lemma vector_leave: "vector_ok (insert l R) src g \<Longrightarrow> vector_ok R src g"
  by (simp add: vector_ok_def)

lemma vector_fewer: "vector_ok L src g \<Longrightarrow> vector_ok L (filter P src) g"
  by (auto simp: vector_ok_def)

lemma vector_change: "vector_ok (insert l R) src g \<Longrightarrow> w \<noteq> VectorReady \<Longrightarrow> vector_ok (insert (l\<lparr>l_wait := w\<rparr>) R) src g"
  by (simp add: vector_ok_def)

lemma vector_new: "gens_ok R g \<Longrightarrow> l_wait l = VectorReady \<longrightarrow> src = [] \<Longrightarrow> vector_ok (insert l R) src (Suc g)"
  by (force simp: vector_ok_def gens_ok_def gens_def begun_in_def)

lemma current_leave: "current_ok (insert l R) c k g \<Longrightarrow> current_ok R c k g"
  by (simp add: current_ok_def split: option.splits base_layer.splits)

lemma current_change:
  "current_ok (insert l R) c k g \<Longrightarrow> l_wait l \<in> {VectorReady, StyleReady, SourceReady} \<or> w \<in> {VectorPaint, RasterPaint, LastPaint}
    \<Longrightarrow> current_ok (insert (l\<lparr>l_wait := w\<rparr>) R) c k g"
  by (auto simp: current_ok_def split: option.splits base_layer.splits)

lemma current_new: "current_ok R c k g \<Longrightarrow> l_gen l = Suc g \<Longrightarrow> current_ok (insert l R) c k (Suc g)"
  by (auto simp: current_ok_def split: option.splits base_layer.splits)

lemma owned_leave: "owned (insert l R) c n \<Longrightarrow> l_wait l \<noteq> SourceReady \<or> l_gen l \<noteq> n \<Longrightarrow> owned R c n"
  by (auto simp: owned_def)

lemma owned_more: "owned R c n \<Longrightarrow> owned (insert l R) c n"
  by (auto simp: owned_def)

lemma sources_leave: "sources_ok (insert l R) c src \<Longrightarrow> l_wait l \<noteq> SourceReady \<Longrightarrow> sources_ok R c src"
  unfolding sources_ok_def by (blast intro: owned_leave)

lemma sources_more: "sources_ok R c src \<Longrightarrow> sources_ok (insert l R) c src"
  unfolding sources_ok_def by (blast intro: owned_more)

lemma sources_Nil [simp]: "sources_ok R c []"
  by (simp add: sources_ok_def)

lemma fst_filter: "distinct (map fst xs) \<Longrightarrow> distinct (map fst (filter P xs))"
  by (induction xs) (auto simp: image_iff)

lemma layers_leave:
  "layers_ok (insert l R) c k src g \<Longrightarrow> l_wait l \<noteq> SourceReady \<Longrightarrow> layers_ok R c k src g"
  unfolding layers_ok_def by (blast intro: gens_leave vector_leave current_leave sources_leave)

lemma layers_begin:
  assumes "layers_ok R c k src g" "l_gen l = Suc g" "src' = src \<and> l_wait l \<noteq> VectorReady \<or> src' = []"
  shows "layers_ok (insert l R) c k src' (Suc g)"
proof -
  have "sources_ok (insert l R) c src'" using assms(1,3) sources_more [of R c src l] by (auto simp: layers_ok_def)
  moreover have "vector_ok (insert l R) src' (Suc g)" using assms by (intro vector_new) (auto simp: layers_ok_def)
  ultimately show ?thesis using assms(1,2) gens_new [of R g l] current_new [of R c k g l] by (simp add: layers_ok_def)
qed

lemma layers_reset:
  assumes "layers_ok R c k src g" "l_gen l = Suc g"
  shows "layers_ok (insert l R) None k [] (Suc g)"
  using assms gens_new [of R g l] vector_new [of R g l "[]"] by (simp add: layers_ok_def current_ok_def)

lemma layers_change:
  assumes "layers_ok (insert l R) c k src g" "l_wait l \<notin> {SourceReady, MapLoad}" "w \<in> {VectorPaint, RasterPaint, LastPaint}" "l \<notin> R"
  shows "layers_ok (insert (l\<lparr>l_wait := w\<rparr>) R) c k src g"
proof -
  let ?l = "l\<lparr>l_wait := w\<rparr>"
  have "sources_ok (insert ?l R) c src"
    using assms(1,2) sources_leave [of l R c src] sources_more [of R c src ?l] by (simp add: layers_ok_def)
  moreover have "gens_ok (insert ?l R) g" using assms by (intro gens_change) (auto simp: layers_ok_def)
  moreover have "vector_ok (insert ?l R) src g" using assms by (intro vector_change) (auto simp: layers_ok_def)
  moreover have "current_ok (insert ?l R) c k g" using assms by (intro current_change) (auto simp: layers_ok_def)
  ultimately show ?thesis by (simp add: layers_ok_def)
qed

lemma layers_vector:
  assumes "layers_ok (insert l R) c k src g" "l_wait l = VectorReady" "l_gen l = g" "l \<notin> R"
  shows "layers_ok (insert (l\<lparr>l_wait := VectorPaint\<rparr>) R) (Some (VectorLayer u)) (Some VectorKind) src g"
proof -
  let ?l = "l\<lparr>l_wait := VectorPaint\<rparr>"
  have "src = []" using assms by (simp add: layers_ok_def vector_ok_def)
  moreover have "gens_ok (insert ?l R) g" using assms by (intro gens_change) (auto simp: layers_ok_def)
  ultimately show ?thesis by (simp add: layers_ok_def vector_ok_def current_ok_def)
qed

lemma fresh_gen:
  assumes "layers_ok (insert l R) c k src g" "l_wait l \<in> {VectorReady, StyleReady}" "l \<notin> R"
  shows "l_gen l \<notin> fst ` set src"
proof
  assume "l_gen l \<in> fst ` set src"
  then have "owned (insert l R) c (l_gen l)" using assms(1) by (auto simp: layers_ok_def sources_ok_def)
  moreover have "c \<noteq> Some (RasterLayer (l_gen l))"
    using assms(1,2) by (auto simp: layers_ok_def current_ok_def)
  ultimately obtain m where m: "m \<in> R" "l_wait m = SourceReady" "l_gen m = l_gen l" using assms(2) by (auto simp: owned_def)
  then have "l_gen l \<in> gens R" by (auto simp: gens_def begun_in_def image_iff intro!: bexI [of _ m])
  moreover have "begun l" using assms(2) by auto
  ultimately show False using assms(1,3) gens_insert [of l R g] by (simp add: layers_ok_def)
qed

lemma layers_add:
  assumes "layers_ok (insert l R) c k src g" "l_wait l = StyleReady" "l_gen l = g" "l \<notin> R"
  shows "layers_ok (insert (l\<lparr>l_wait := SourceReady\<rparr>) R) c k (src @ [(l_gen l, r)]) g"
proof -
  let ?l = "l\<lparr>l_wait := SourceReady\<rparr>"
  have n: "l_gen l \<notin> fst ` set src" using fresh_gen [OF assms(1)] assms(2,4) by simp
  have "sources_ok R c src" using assms(1,2) sources_leave [of l R c src] by (simp add: layers_ok_def)
  then have "sources_ok (insert ?l R) c (src @ [(l_gen l, r)])"
    using n sources_more [of R c src ?l] by (auto simp: sources_ok_def owned_def)
  moreover have "gens_ok (insert ?l R) g" using assms by (intro gens_change) (auto simp: layers_ok_def)
  moreover have "g \<notin> gens R" using assms gens_insert [of l R g] by (simp add: layers_ok_def)
  then have "vector_ok (insert ?l R) x g" for x by (force simp: vector_ok_def gens_def begun_in_def)
  moreover have "current_ok (insert ?l R) c k g" using assms by (intro current_change) (auto simp: layers_ok_def)
  ultimately show ?thesis by (simp add: layers_ok_def)
qed

lemma owned_old: "gens_ok R g \<Longrightarrow> current_ok R c k g \<Longrightarrow> owned R c n \<Longrightarrow> n \<le> g"
  by (force simp: gens_ok_def gens_def begun_in_def current_ok_def owned_def split: option.splits base_layer.splits)

lemma layers_add_new:
  assumes "layers_ok R c k src g" "l_gen l = Suc g" "l_wait l = SourceReady"
  shows "layers_ok (insert l R) c k (src @ [(Suc g, r)]) (Suc g)"
proof -
  have "n \<le> g" if "n \<in> fst ` set src" for n
    using that assms(1) owned_old [of R g c k n] by (auto simp: layers_ok_def sources_ok_def)
  then have "Suc g \<notin> fst ` set src" by fastforce
  then have "sources_ok (insert l R) c (src @ [(Suc g, r)])"
    using assms sources_more [of R c src l] by (auto simp: layers_ok_def sources_ok_def owned_def)
  moreover have "vector_ok (insert l R) x (Suc g)" for x
    using assms vector_new [of R g l x] by (simp add: layers_ok_def)
  ultimately show ?thesis using assms gens_new [of R g l] current_new [of R c k g l] by (simp add: layers_ok_def)
qed

lemma layers_drop:
  assumes "layers_ok (insert l R) c k src g"
  shows "layers_ok R c k (filter (\<lambda>p. fst p \<noteq> l_gen l) src) g"
proof -
  have "sources_ok R c (filter (\<lambda>p. fst p \<noteq> l_gen l) src)"
    using assms fst_filter owned_leave [of l R c] by (auto simp: layers_ok_def sources_ok_def)
  then show ?thesis
    using assms gens_leave [of l R g] vector_leave [of l R src g] vector_fewer [of R src g] current_leave [of l R c k g]
    by (simp add: layers_ok_def)
qed

lemma layers_activate:
  assumes "layers_ok (insert l R) c k src g" "l_wait l = SourceReady" "l \<notin> R"
    "src' = filter (\<lambda>p. c \<noteq> Some (RasterLayer (fst p))) src"
  shows "layers_ok (insert (l\<lparr>l_wait := RasterPaint\<rparr>) R) (Some (RasterLayer (l_gen l))) (Some RasterKind) src' g"
proof -
  let ?l = "l\<lparr>l_wait := RasterPaint\<rparr>"
  have b: "begun l" using assms(2) by simp
  have g: "gens_ok (insert ?l R) g" using assms by (intro gens_change) (auto simp: layers_ok_def)
  have o: "l_gen l \<notin> gens R" "l_gen l \<le> g" using assms(1,3) gens_insert [OF b assms(3), of g] by (auto simp: layers_ok_def)
  have "vector_ok (insert ?l R) src' g"
    using assms vector_change [of l R src g RasterPaint] vector_fewer by (simp add: layers_ok_def)
  moreover have "current_ok (insert ?l R) (Some (RasterLayer (l_gen l))) (Some RasterKind) g"
    using o by (auto simp: current_ok_def gens_def begun_in_def image_iff)
  moreover have "owned (insert ?l R) (Some (RasterLayer (l_gen l))) n" if "n \<in> fst ` set src'" for n
  proof -
    have "owned (insert l R) c n" "c \<noteq> Some (RasterLayer n)" using that assms by (auto simp: layers_ok_def sources_ok_def)
    then show ?thesis by (auto simp: owned_def)
  qed
  moreover have "distinct (map fst src')" using assms fst_filter by (auto simp: layers_ok_def sources_ok_def)
  ultimately show ?thesis using g by (auto simp: layers_ok_def sources_ok_def)
qed

abbreviation layers_at :: "base \<Rightarrow> loading set \<Rightarrow> bool" where
  "layers_at s L \<equiv> layers_ok L (current s) (kind s) (m_sources s) (generation s)"

definition numbers_ok :: "base \<Rightarrow> bool" where
  "numbers_ok s \<longleftrightarrow> distinct (map l_no (loadings s)) \<and> (\<forall>l \<in> set (loadings s). l_no l < asked s)"

definition base_ok :: "base \<Rightarrow> bool" where
  "base_ok s \<longleftrightarrow> layers_at s (set (loadings s)) \<and> numbers_ok s"

definition others :: "loading \<Rightarrow> base \<Rightarrow> loading set" where
  "others l s = {k \<in> set (loadings s). l_no k \<noteq> l_no l}"

lemma not_other [simp]: "l \<notin> others l s" "l\<lparr>l_wait := w\<rparr> \<notin> others l s"
  by (simp_all add: others_def)

lemma split_loadings: "numbers_ok s \<Longrightarrow> l \<in> set (loadings s) \<Longrightarrow> set (loadings s) = insert l (others l s)"
  by (auto simp: others_def numbers_ok_def distinct_map inj_on_def)

lemma set_leave: "set (loadings (leave l s)) = others l s"
  by (auto simp: leave_def others_def)

lemma set_park: "l_no l \<in> l_no ` set (loadings s) \<Longrightarrow> set (loadings (park l w s)) = insert (l\<lparr>l_wait := w\<rparr>) (others l s)"
  by (auto simp: park_def others_def image_iff)

lemma map_no_park: "map l_no (loadings (park l w s)) = map l_no (loadings s)"
  by (simp add: park_def)

lemma numbers_leave: "numbers_ok s \<Longrightarrow> numbers_ok (leave l s)"
  by (auto simp: numbers_ok_def leave_def distinct_map inj_on_def)

lemma numbers_park: "numbers_ok s \<Longrightarrow> numbers_ok (park l w s)"
  unfolding numbers_ok_def map_no_park by (auto simp: park_def)

lemma leave_facts [simp]: "current (leave l s) = current s" "kind (leave l s) = kind s" "m_sources (leave l s) = m_sources s"
    "generation (leave l s) = generation s" "asked (leave l s) = asked s"
  by (simp_all add: leave_def)

lemma park_facts [simp]: "current (park l w s) = current s" "kind (park l w s) = kind s" "m_sources (park l w s) = m_sources s"
    "generation (park l w s) = generation s" "asked (park l w s) = asked s"
  by (simp_all add: park_def)

definition known :: "loading \<Rightarrow> base \<Rightarrow> bool" where
  "known l s \<longleftrightarrow> l_no l \<in> l_no ` set (loadings s)"

lemma park_ok: "numbers_ok s \<Longrightarrow> known l s \<Longrightarrow> layers_at s (insert (l\<lparr>l_wait := w\<rparr>) (others l s)) \<Longrightarrow> base_ok (park l w s)"
  by (simp add: base_ok_def set_park numbers_park known_def)

lemma numbers_leave_more: "numbers_ok s \<Longrightarrow> numbers_ok (leave l s\<lparr>active := i, form := f, overlay := b\<rparr>)"
  "numbers_ok s \<Longrightarrow> numbers_ok (leave l s\<lparr>overlay := b\<rparr>)" "numbers_ok s \<Longrightarrow> numbers_ok (leave l s\<lparr>form := f, active := i, overlay := b\<rparr>)"
  using numbers_leave [of s l] by (simp_all add: numbers_ok_def)

lemma leave_ok:
  assumes "numbers_ok s" "layers_at s (others l s)"
  shows "base_ok (finish False l s)" "base_ok (thrown l s)"
  using assms
  by (auto simp: finish_def thrown_def base_ok_def set_leave numbers_leave numbers_leave_more split: asker.split)

lemma finish_load_ok:
  assumes "numbers_ok s" "known l s" "layers_at s (insert l (others l s))" "l_wait l \<in> {VectorPaint, RasterPaint}"
  shows "base_ok (finish True l s)"
proof -
  have r: "layers_at s (others l s)" by (rule layers_leave [OF assms(3)]) (use assms(4) in auto)
  have "layers_at s (insert (l\<lparr>l_wait := LastPaint\<rparr>) (others l s))"
    using assms(3,4) by (intro layers_change) auto
  then have "base_ok (park l LastPaint s)" using park_ok assms(1,2) by blast
  then show ?thesis
    using assms(1) r by (cases "l_for l") (simp_all add: finish_def base_ok_def set_leave numbers_leave numbers_leave_more)
qed

lemma first_part_ok:
  assumes "numbers_ok s" "known l s" "layers_at s (others l s)"
  shows "base_ok (first_part url e l s)"
proof -
  let ?l = "l\<lparr>l_gen := Suc (generation s)\<rparr>"
  let ?s = "s\<lparr>generation := Suc (generation s), style_panel := style_panel s \<and> isTinyTilesSettings (l_tiles l)\<rparr>"
  have n: "numbers_ok ?s" "known ?l ?s" using assms(1,2) by (simp_all add: numbers_ok_def known_def)
  have o: "others ?l ?s = others l s" by (simp add: others_def)
  have gone: "layers_at ?s (others ?l ?s)"
    using layers_leave [OF layers_begin [OF assms(3), of "?l\<lparr>l_wait := RasterPaint\<rparr>" "m_sources s"]] unfolding o by simp
  have park: "base_ok (park ?l StyleReady ?s)"
    by (rule park_ok [OF n]) (use layers_begin [OF assms(3), of "?l\<lparr>l_wait := StyleReady\<rparr>" "m_sources s"] in \<open>simp add: o\<close>)
  have vector: "base_ok (park ?l VectorReady (?s\<lparr>m_style := x, m_sources := []\<rparr>))" for x
    by (rule park_ok) (use n layers_begin [OF assms(3), of "?l\<lparr>l_wait := VectorReady\<rparr>" "[]"] in \<open>simp_all add: others_def numbers_ok_def known_def\<close>)
  have reset: "base_ok (park ?l StyleReady (?s\<lparr>m_style := x, m_sources := [], current := None\<rparr>))" for x
    by (rule park_ok) (use n layers_reset [OF assms(3), of "?l\<lparr>l_wait := StyleReady\<rparr>"] in \<open>simp_all add: others_def numbers_ok_def known_def\<close>)
  have add: "base_ok (park ?l SourceReady (?s\<lparr>m_sources := m_sources ?s @ [(Suc (generation s), r)]\<rparr>))" for r
    by (rule park_ok) (use n layers_add_new [OF assms(3), of "?l\<lparr>l_wait := SourceReady\<rparr>"] in \<open>simp_all add: others_def numbers_ok_def known_def\<close>)
  note out = leave_ok [OF n(1) gone]
  have "base_ok (raster_part url e ?l ?s)"
    using out park reset add
    by (simp add: raster_part_def ensureRasterCapableStyle_def add_raster_def split: raster_plan.split option.split)
  then show ?thesis using vector by (simp add: first_part_def Let_def)
qed

lemma continue_ok:
  assumes "base_ok s" "l \<in> set (loadings s)"
  shows "base_ok (continue url ready e l s)"
proof -
  have n: "numbers_ok s" "known l s" using assms by (auto simp: base_ok_def known_def)
  have L: "layers_at s (insert l (others l s))"
    using assms split_loadings [of s l] by (simp add: base_ok_def)
  have gone: "l_wait l \<noteq> SourceReady \<Longrightarrow> layers_at s (others l s)" using layers_leave [OF L] by simp
  note out = leave_ok [OF n(1) gone]
  let ?live = "ready \<and> l_gen l = generation s"
  show ?thesis
  proof (cases "l_wait l")
    case MapLoad
    then show ?thesis using assms first_part_ok [OF n gone] by (simp add: continue_def Let_def)
  next
    case VectorReady
    have "base_ok (park l VectorPaint (s\<lparr>current := Some (VectorLayer (style_url (l_tiles l))), kind := Some VectorKind\<rparr>))" if ?live
      by (rule park_ok)
        (use that n layers_vector [OF L VectorReady] in \<open>simp_all add: others_def numbers_ok_def known_def\<close>)
    then show ?thesis using VectorReady out by (simp add: continue_def Let_def)
  next
    case VectorPaint
    let ?s = "(shown (l_tiles l) s)\<lparr>style_panel := isTinyTilesSettings (l_tiles l)\<rparr>"
    have "base_ok (finish True l ?s)"
      by (rule finish_load_ok) (use n L VectorPaint in \<open>simp_all add: shown_def others_def numbers_ok_def known_def\<close>)
    then show ?thesis using VectorPaint by (simp add: continue_def Let_def)
  next
    case StyleReady
    have "base_ok (park l SourceReady (s\<lparr>m_sources := m_sources s @ [(l_gen l, r)]\<rparr>))" if ?live for r
      by (rule park_ok)
        (use that n layers_add [OF L StyleReady] in \<open>simp_all add: others_def numbers_ok_def known_def\<close>)
    then show ?thesis using StyleReady out
      by (simp add: continue_def Let_def add_raster_def split: raster_plan.split option.split)
  next
    case SourceReady
    have "base_ok (finish False l (drop_source (l_gen l) s))"
      by (rule leave_ok) (use n layers_drop [OF L] in \<open>simp_all add: drop_source_def others_def numbers_ok_def\<close>)
    moreover have "base_ok (park l RasterPaint (activated l s))" if ?live
    proof (rule park_ok)
      have f: "filter (\<lambda>p. fst p \<noteq> g) (m_sources s) = filter (\<lambda>p. current s \<noteq> Some (RasterLayer (fst p))) (m_sources s)"
        if "current s = Some (RasterLayer g)" for g using that by (auto intro: filter_cong)
      have t: "m_sources s = filter (\<lambda>p. current s \<noteq> Some (RasterLayer (fst p))) (m_sources s)"
        if "\<forall>g. current s \<noteq> Some (RasterLayer g)" using that by simp
      have ne: "current s \<noteq> Some (RasterLayer (l_gen l))"
        using L SourceReady by (auto simp: layers_ok_def current_ok_def)
      note a = layers_activate [OF L SourceReady not_other(1)]
      show "layers_at (activated l s) (insert (l\<lparr>l_wait := RasterPaint\<rparr>) (others l (activated l s)))"
        using a [OF f] a [OF t] ne
        by (auto simp: activated_def drop_source_def others_def split: option.split base_layer.split)
    qed (use n in \<open>auto simp: activated_def drop_source_def numbers_ok_def known_def split: option.split base_layer.split\<close>)
    ultimately show ?thesis using SourceReady by (simp add: continue_def Let_def)
  next
    case RasterPaint
    have "base_ok (finish True l (shown (l_tiles l) s))"
      by (rule finish_load_ok) (use n L RasterPaint in \<open>simp_all add: shown_def others_def numbers_ok_def known_def\<close>)
    then show ?thesis using RasterPaint by (simp add: continue_def Let_def)
  next
    case LastPaint
    then show ?thesis
      using n gone by (simp add: continue_def Let_def base_ok_def set_leave numbers_leave_more)
  qed
qed

lemma apply_ok:
  assumes "base_ok s" shows "base_ok (applyTileLayer who d t s)"
proof -
  let ?l = "\<lparr>l_no = asked s, l_for = who, l_tiles = t, l_direct = d, l_gen = 0, l_wait = MapLoad\<rparr>"
  have "layers_ok (insert ?l L) c k src g" if "layers_ok L c k src g" for L c k src g
    using that sources_more [of L c src ?l]
    by (simp add: layers_ok_def gens_insert_idle vector_ok_def current_ok_def split: option.splits base_layer.splits)
  moreover have "numbers_ok (applyTileLayer who d t s)"
    using assms by (auto simp: base_ok_def numbers_ok_def applyTileLayer_def)
  ultimately show ?thesis using assms by (simp add: base_ok_def applyTileLayer_def)
qed

lemma base_ok_fields: "base_ok s \<Longrightarrow> base_ok (s\<lparr>active := a, form := f, overlay := b\<rparr>)" "base_ok s \<Longrightarrow> base_ok (s\<lparr>active := a, overlay := b\<rparr>)"
  "base_ok s \<Longrightarrow> base_ok (s\<lparr>form := f, active := a\<rparr>)" "base_ok s \<Longrightarrow> base_ok (s\<lparr>overlay := b\<rparr>)" "base_ok s \<Longrightarrow> base_ok (s\<lparr>map_loaded := b\<rparr>)"
  by (simp_all add: base_ok_def numbers_ok_def)

lemma base_step_ok: "base_ok s \<Longrightarrow> base_ok (base_step url ev s)"
proof (cases ev)
  case (Continue n ready e)
  then show "base_ok s \<Longrightarrow> ?thesis"
    using continue_ok by (auto simp: find_Some_iff split: option.split)
qed (simp_all add: selectTilePreset_def Let_def apply_ok base_ok_fields)

lemma first_base_ok: "base_ok (first_base f t)"
  unfolding first_base_def
  by (rule apply_ok) (simp add: base_ok_def layers_ok_def gens_ok_def gens_def begun_in_def vector_ok_def current_ok_def numbers_ok_def)

lemma base_run: "base_ok s \<Longrightarrow> base_ok (fold (base_step url) evs s)"
  by (induction evs arbitrary: s) (simp_all add: base_step_ok)

lemma base_ok_sources:
  assumes "base_ok s"
  shows "distinct (map fst (m_sources s))"
    "fst ` set (m_sources s)
      \<subseteq> {g. current s = Some (RasterLayer g)} \<union> l_gen ` {l. l \<in> set (loadings s) \<and> l_wait l = SourceReady}"
  using assms by (force simp: base_ok_def layers_ok_def sources_ok_def owned_def)+

text \<open>switching the source of the map leaves nothing behind: in every run, each raster source that is in the map is
  the one that is shown or one that a loading still waits for; when nothing is under way there is at most one.\<close>

theorem no_source_left:
  "let s = fold (base_step url) evs (first_base f t)
   in distinct (map fst (m_sources s)) \<and> fst ` set (m_sources s)
        \<subseteq> {g. current s = Some (RasterLayer g)} \<union> l_gen ` {l. l \<in> set (loadings s) \<and> l_wait l = SourceReady}"
  unfolding Let_def using base_ok_sources base_run first_base_ok by blast

section \<open>Late answers\<close>

text \<open>The number of \<open>applyTileLayer\<close> is one more case of the interface of late answers.\<close>

definition numbered :: "base \<Rightarrow> nat set" where
  "numbered s = {1..generation s}"

lemma generation_park: "generation (finish b l s) = generation s" "generation (thrown l s) = generation s"
  by (simp_all add: finish_def thrown_def split: asker.split)

lemma generation_continue: "generation (continue url ready e l s) \<in> {generation s, Suc (generation s)}"
  by (auto simp: continue_def first_part_def raster_part_def ensureRasterCapableStyle_def add_raster_def Let_def generation_park
      shown_def activated_def drop_source_def split: wait.split raster_plan.split option.split base_layer.split)

lemma generation_step: "generation (base_step url ev s) \<in> {generation s, Suc (generation s)}"
  using generation_continue
  by (cases ev) (auto simp: selectTilePreset_def applyTileLayer_def Let_def split: option.split)

interpretation base_layers: latest_wins "\<lambda>s. if generation s = 0 then None else Some (generation s)" numbered "base_step url" "\<lambda>_. True"
proof unfold_locales
  fix s :: base and ev and n :: nat
  show "numbered s \<subseteq> numbered (base_step url ev s)"
    using generation_step [of url ev s] by (auto simp: numbered_def)
  show "(if generation (base_step url ev s) = 0 then None else Some (generation (base_step url ev s))) = Some n \<Longrightarrow> n \<in> numbered s
      \<Longrightarrow> (if generation s = 0 then None else Some (generation s)) = Some n"
    using generation_step [of url ev s] by (auto simp: numbered_def split: if_splits)
qed (auto simp: numbered_def split: if_splits)

lemma find_by_number: "distinct (map l_no ls) \<Longrightarrow> l \<in> set ls \<Longrightarrow> find (\<lambda>k. l_no k = l_no l) ls = Some l"
  by (induction ls) auto


section \<open>A card is picked\<close>

definition steps_left :: "wait \<Rightarrow> nat" where
  "steps_left w = (case w of MapLoad \<Rightarrow> 5 | StyleReady \<Rightarrow> 4 | SourceReady \<Rightarrow> 3 | VectorReady \<Rightarrow> 3
     | VectorPaint \<Rightarrow> 2 | RasterPaint \<Rightarrow> 2 | LastPaint \<Rightarrow> 1)"

definition card_tiles :: "preset \<Rightarrow> tiles" where
  "card_tiles p = tileSettingsFromUI (setTileSourceForm (p_tiles p))"

definition picked :: "preset \<Rightarrow> base \<Rightarrow> base \<Rightarrow> bool" where
  \<comment> \<open>the page shows the preset\<close>
  "picked p s u \<longleftrightarrow> active u = p_id p \<and> form u = setTileSourceForm (p_tiles p) \<and> mode u = Some (card_tiles p)"

definition put_back :: "base \<Rightarrow> base \<Rightarrow> bool" where
  \<comment> \<open>the page shows what it showed before\<close>
  "put_back s u \<longleftrightarrow> active u = active s \<and> form u = setTileSourceForm (tileSettingsFromUI (form s)) \<and> mode u = mode s"

definition settled_pick :: "preset \<Rightarrow> base \<Rightarrow> base \<Rightarrow> bool" where
  "settled_pick p s u \<longleftrightarrow> loadings u = [] \<and> \<not> overlay u \<and> (picked p s u \<or> put_back s u)"

definition single :: "preset \<Rightarrow> base \<Rightarrow> loading \<Rightarrow> base \<Rightarrow> bool" where
  \<comment> \<open>only the loading of the card is under way\<close>
  "single p s l u \<longleftrightarrow> map_loaded u \<and> active u = p_id p \<and> form u = setTileSourceForm (p_tiles p)
     \<and> map l_no (loadings u) = [asked s] \<and> l_no l = asked s \<and> l_for l = Card (active s) (tileSettingsFromUI (form s))
     \<and> l_tiles l = card_tiles p \<and> l_direct l"

definition picking :: "preset \<Rightarrow> base \<Rightarrow> nat \<Rightarrow> base \<Rightarrow> bool" where
  "picking p s n u \<longleftrightarrow> (\<exists>l. loadings u = [l] \<and> single p s l u \<and> steps_left (l_wait l) \<le> n
     \<and> mode u = (if l_wait l = LastPaint then Some (card_tiles p) else mode s))"

definition willing :: "able \<Rightarrow> bool" where
  "willing e \<longleftrightarrow> set_returns e \<and> add_returns e"

definition addressable :: "url_parser \<Rightarrow> tiles \<Rightarrow> bool" where
  "addressable url t \<longleftrightarrow> raster_plan url True (mapType_of t) t \<noteq> Raster None"

lemma single_loading: "single p s l u \<Longrightarrow> \<exists>k. loadings u = [k] \<and> l_no k = asked s"
  by (auto simp: single_def)

lemma moved:
  assumes "single p s l u" "w \<noteq> LastPaint" "mode u = mode s" "steps_left w \<le> n"
  shows "picking p s n (park l w u)"
proof -
  obtain k where "loadings u = [k]" "l_no k = asked s" using single_loading [OF assms(1)] by blast
  then show ?thesis using assms by (simp add: picking_def single_def park_def)
qed

lemma failed_pick:
  assumes "single p s l u" "mode u = mode s"
  shows "settled_pick p s (finish False l u)"
proof -
  obtain k where "loadings u = [k]" "l_no k = asked s" using single_loading [OF assms(1)] by blast
  then show ?thesis using assms by (simp add: settled_pick_def put_back_def single_def finish_def leave_def)
qed

lemma passed:
  assumes "single p s l u" "mode u = Some (card_tiles p)"
  shows "picking p s 1 (finish True l u)"
proof -
  obtain k where "loadings u = [k]" "l_no k = asked s" using single_loading [OF assms(1)] by blast
  then show ?thesis using assms by (simp add: picking_def single_def finish_def park_def steps_left_def)
qed

lemma single_keeps: "single p s l u \<Longrightarrow> map_loaded u' = map_loaded u \<Longrightarrow> active u' = active u \<Longrightarrow> form u' = form u
    \<Longrightarrow> loadings u' = loadings u \<Longrightarrow> l_no l' = l_no l \<Longrightarrow> l_for l' = l_for l \<Longrightarrow> l_tiles l' = l_tiles l
    \<Longrightarrow> l_direct l' = l_direct l \<Longrightarrow> single p s l' u'"
  by (simp add: single_def)

definition able_to :: "url_parser \<Rightarrow> able \<Rightarrow> preset \<Rightarrow> bool" where
  "able_to url e p \<longleftrightarrow> willing e \<and> addressable url (card_tiles p)"

lemma add_raster_pick:
  assumes "single p s l u" "mode u = mode s" "willing e" "r \<noteq> None"
  shows "picking p s 3 (add_raster e r l u)"
proof -
  obtain x where "r = Some x" using assms(4) by blast
  moreover have "picking p s 3 (park l SourceReady (u\<lparr>m_sources := m_sources u @ [(l_gen l, x)]\<rparr>))"
    by (rule moved [OF single_keeps [OF assms(1)]]) (use assms(2) in \<open>simp_all add: steps_left_def\<close>)
  ultimately show ?thesis using assms(3) by (simp add: add_raster_def willing_def)
qed

lemma picking_more: "picking p s m u \<Longrightarrow> m \<le> n \<Longrightarrow> picking p s n u"
  by (auto simp: picking_def)

lemma first_part_pick:
  assumes "single p s l u" "mode u = mode s" "able_to url e p"
  shows "picking p s 4 (first_part url e l u) \<or> settled_pick p s (first_part url e l u)"
proof -
  let ?l = "l\<lparr>l_gen := Suc (generation u)\<rparr>"
  let ?u = "u\<lparr>generation := Suc (generation u), style_panel := style_panel u \<and> isTinyTilesSettings (l_tiles l)\<rparr>"
  have e: "willing e" "addressable url (card_tiles p)" using assms(3) by (simp_all add: able_to_def)
  have t: "l_tiles l = card_tiles p" "l_direct l" using assms(1) by (simp_all add: single_def)
  have S: "single p s ?l ?u" by (rule single_keeps [OF assms(1)]) simp_all
  have reset: "picking p s 4 (park ?l StyleReady (?u\<lparr>m_style := x, m_sources := [], current := None\<rparr>))" for x
    by (rule moved [OF single_keeps [OF S]]) (use assms(2) in \<open>simp_all add: steps_left_def\<close>)
  have vector: "picking p s 4 (park ?l VectorReady (?u\<lparr>m_style := x, m_sources := []\<rparr>))" for x
    by (rule moved [OF single_keeps [OF S]]) (use assms(2) in \<open>simp_all add: steps_left_def\<close>)
  have park: "picking p s 4 (park ?l StyleReady ?u)"
    by (rule moved [OF S]) (use assms(2) in \<open>simp_all add: steps_left_def\<close>)
  have add: "picking p s 4 (add_raster e (Some r) ?l ?u)" for r
    by (rule picking_more [OF add_raster_pick [OF S _ e(1)]]) (use assms(2) in simp_all)
  have out: "settled_pick p s (finish False ?l ?u)" by (rule failed_pick [OF S]) (use assms(2) in simp)
  have "picking p s 4 (raster_part url e ?l ?u) \<or> settled_pick p s (raster_part url e ?l ?u)"
  proof (cases "raster_plan url True (mapType_of (card_tiles p)) (card_tiles p)")
    case NoRaster
    then show ?thesis using out t by (simp add: raster_part_def)
  next
    case (Raster r)
    then obtain x where "r = Some x" using e(2) by (auto simp: addressable_def)
    then show ?thesis
      using Raster t reset park add e(1) by (simp add: raster_part_def ensureRasterCapableStyle_def willing_def)
  qed
  then show ?thesis using vector by (simp add: first_part_def Let_def)
qed

lemma picking_step:
  assumes "picking p s n u" "able_to url e p"
  shows "picking p s (n - 1) (base_step url (Continue (asked s) ready e) u)
    \<or> settled_pick p s (base_step url (Continue (asked s) ready e) u)"
proof -
  obtain l where l: "loadings u = [l]" "single p s l u" "steps_left (l_wait l) \<le> n"
    and m: "mode u = (if l_wait l = LastPaint then Some (card_tiles p) else mode s)"
    using assms(1) by (auto simp: picking_def)
  have no: "l_no l = asked s" "map_loaded u" "l_tiles l = card_tiles p" "l_direct l" using l(2) by (simp_all add: single_def)
  have "picking p s (n - 1) (continue url ready e l u) \<or> settled_pick p s (continue url ready e l u)"
  proof (cases "l_wait l")
    case MapLoad
    then have "4 \<le> n - 1" using l(3) by (simp add: steps_left_def)
    then show ?thesis
      using first_part_pick [OF l(2) _ assms(2)] m MapLoad no picking_more by (auto simp: continue_def)
  next
    case VectorReady
    have "picking p s (n - 1) (park l VectorPaint (u\<lparr>current := c, kind := k\<rparr>))" for c k
      by (rule moved [OF single_keeps [OF l(2)]]) (use m VectorReady l(3) in \<open>simp_all add: steps_left_def\<close>)
    then show ?thesis using failed_pick [OF l(2)] m VectorReady by (simp add: continue_def Let_def)
  next
    case VectorPaint
    have "picking p s (n - 1) (finish True l ((shown (l_tiles l) u)\<lparr>style_panel := x\<rparr>))" for x
      by (rule picking_more [OF passed [OF single_keeps [OF l(2)]]]) (use VectorPaint l(3) in \<open>simp_all add: shown_def no steps_left_def\<close>)
    then show ?thesis using VectorPaint by (simp add: continue_def Let_def steps_left_def)
  next
    case StyleReady
    have "r \<noteq> None" if "raster_plan url (l_direct l) (mapType_of (l_tiles l)) (l_tiles l) = Raster r" for r
      using that assms(2) no by (auto simp: able_to_def addressable_def)
    moreover have "picking p s (n - 1) (add_raster e r l u)" if "r \<noteq> None" for r
      by (rule picking_more [OF add_raster_pick [OF l(2) _ _ that]])
         (use m StyleReady l(3) assms(2) in \<open>simp_all add: steps_left_def able_to_def\<close>)
    ultimately show ?thesis
      using failed_pick [OF l(2)] m StyleReady by (simp add: continue_def Let_def split: raster_plan.split)
  next
    case SourceReady
    have "picking p s (n - 1) (park l RasterPaint (activated l u))"
      by (rule moved [OF single_keeps [OF l(2)]])
         (use m SourceReady l(3) in \<open>auto simp: activated_def drop_source_def steps_left_def split: option.split base_layer.split\<close>)
    moreover have "settled_pick p s (finish False l (drop_source g u))" for g
      by (rule failed_pick [OF single_keeps [OF l(2)]]) (use m SourceReady in \<open>simp_all add: drop_source_def\<close>)
    ultimately show ?thesis using SourceReady by (simp add: continue_def Let_def)
  next
    case RasterPaint
    have "picking p s (n - 1) (finish True l (shown (l_tiles l) u))"
      by (rule picking_more [OF passed [OF single_keeps [OF l(2)]]]) (use RasterPaint l(3) in \<open>simp_all add: shown_def no steps_left_def\<close>)
    then show ?thesis using RasterPaint by (simp add: continue_def Let_def steps_left_def)
  next
    case LastPaint
    then show ?thesis
      using l m by (simp add: continue_def Let_def settled_pick_def picked_def leave_def single_def)
  qed
  then show ?thesis using l(1) no by simp
qed

lemma settled_stays: "settled_pick p s u \<Longrightarrow> base_step url (Continue n r e) u = u"
  by (simp add: settled_pick_def)

lemma picking_run:
  assumes "picking p s n u" "\<forall>a \<in> set answers. able_to url (snd a) p" "n \<le> length answers"
  shows "settled_pick p s (fold (\<lambda>a. base_step url (Continue (asked s) (fst a) (snd a))) answers u)"
  using assms
proof (induction answers arbitrary: n u)
  case Nil
  have "steps_left w \<noteq> 0" for w by (cases w) (simp_all add: steps_left_def)
  then show ?case using Nil by (auto simp: picking_def) (metis less_irrefl)
next
  case (Cons a answers)
  let ?u = "base_step url (Continue (asked s) (fst a) (snd a)) u"
  have stays: "fold (\<lambda>a. base_step url (Continue (asked s) (fst a) (snd a))) as v = v" if "settled_pick p s v" for as v
    using settled_stays [OF that] by (induction as) auto
  consider "picking p s (n - 1) ?u" | "settled_pick p s ?u"
    using picking_step [OF Cons.prems(1), of url "snd a" "fst a"] Cons.prems(2) by auto
  then show ?case
  proof cases
    case 1
    then show ?thesis using Cons.IH [OF 1] Cons.prems(2,3) by (simp del: base_step.simps)
  next
    case 2
    then show ?thesis by (simp add: stays del: base_step.simps)
  qed
qed

text \<open>picking a card is all or nothing: when nothing else is under way, then after at most five answers of the map the
  switch is over, the note that a map is being loaded is gone, and either the page shows the source that was picked
  (card, form and map), or it is put back: the card and the settings in the form are those of before, and so is what the page says of the map.\<close>

theorem card_all_or_nothing:
  assumes "loadings s = []" "map_loaded s" "form_ok (form s)" "p_id p \<noteq> lit ''tinytiles_local''"
    "\<forall>a \<in> set answers. able_to url (snd a) p" "5 \<le> length answers"
    "u = fold (\<lambda>a. base_step url (Continue (asked s) (fst a) (snd a))) answers (base_step url (PickCard p) s)"
  shows "loadings u = [] \<and> \<not> overlay u
    \<and> ((active u = p_id p \<and> form u = setTileSourceForm (p_tiles p) \<and> mode u = Some (tileSettingsFromUI (form u)))
       \<or> (active u = active s \<and> tileSettingsFromUI (form u) = tileSettingsFromUI (form s) \<and> mode u = mode s))"
proof -
  have "picking p s 5 (base_step url (PickCard p) s)"
    using assms(1,2,4)
    by (simp add: selectTilePreset_def applyTileLayer_def picking_def single_def card_tiles_def steps_left_def Let_def)
  then have "settled_pick p s u" using picking_run assms(5-7) by blast
  moreover have "tileSettingsFromUI (setTileSourceForm (tileSettingsFromUI (form s))) = tileSettingsFromUI (form s)"
    using form_reads_back form_tidy assms(3) by blast
  ultimately show ?thesis by (auto simp: settled_pick_def picked_def put_back_def card_tiles_def)
qed

section \<open>Runs\<close>

definition can :: able where "can = \<lparr>webgl = True, set_returns = True, add_returns = True\<rparr>"

definition raster_tiles :: "jstr \<Rightarrow> tiles" where
  "raster_tiles u = \<lparr>map_type = lit ''raster-direct'', upstream = u, style_url = [], wms_layers = [], attribution = [], max_zoom = 0\<rparr>"

definition vector_tiles :: "jstr \<Rightarrow> tiles" where
  "vector_tiles u = \<lparr>map_type = lit ''vector'', upstream = [], style_url = u, wms_layers = [], attribution = [], max_zoom = 0\<rparr>"

definition map_card :: "string \<Rightarrow> tiles \<Rightarrow> preset" where
  "map_card i t = \<lparr>p_id = lit i, p_label = [], p_tiles = t\<rparr>"

definition start_run :: "base_event list" where
  "start_run = [MapLoaded, Continue 0 True can, Continue 0 True can, Continue 0 True can, Continue 0 True can]"

abbreviation start_form :: source_form where
  "start_form \<equiv> setTileSourceForm (raster_tiles [97])"

lemma sample_types: "mapType_of (raster_tiles u) = lit ''raster-direct''" "mapType_of (vector_tiles u) = lit ''vector''"
  "style_url (raster_tiles u) = []" "style_url (vector_tiles u) = u"
  by (simp_all add: mapType_of_def raster_tiles_def vector_tiles_def or_str_def lower_def lit_def)

lemma sample_tiny: "\<not> isTinyTilesSettings (raster_tiles u)" "\<not> isTinyTilesSettings (vector_tiles [x])"
  by (simp_all add: isTinyTilesSettings_def raster_tiles_def vector_tiles_def tiny_style_def lit_def)

lemma sample_plan: "raster_plan url d (lit ''raster-direct'') (raster_tiles [x]) = Raster (Some (raster_of (raster_tiles [x]) [x]))"
  by (simp add: raster_plan_def usesDirectRaster_def raster_tiles_def lit_def)

lemma sample_form: "x \<in> {97, 98, 99} \<Longrightarrow> tileSettingsFromUI (setTileSourceForm (raster_tiles [x])) = raster_tiles [x]"
  "x \<in> {97, 98, 99} \<Longrightarrow> tileSettingsFromUI (setTileSourceForm (vector_tiles [x])) = vector_tiles [x]"
  by (rule form_reads_back;
      auto simp: tidy_def raster_tiles_def vector_tiles_def type_options_def one_line_def trim_def js_space_def Let_def)+

lemma not_vector: "lit ''raster-direct'' \<noteq> lit ''vector''"
  by (simp add: lit_def)

lemmas layer_eval = first_base_def applyTileLayer_def selectTilePreset_def continue_def first_part_def raster_part_def
  ensureRasterCapableStyle_def add_raster_def finish_def thrown_def leave_def park_def shown_def drop_source_def activated_def
  can_def map_card_def sample_types sample_tiny sample_plan sample_form not_vector Let_def

lemma started_state: "fold (base_step (\<lambda>_. None)) start_run (first_base start_form (raster_tiles [97]))
    = \<lparr>map_loaded = True, generation = 1, current = Some (RasterLayer 1), kind = Some RasterKind, m_style = FirstStyle,
       m_sources = [(1, raster_of (raster_tiles [97]) [97])], mode = Some (raster_tiles [97]), offline_parts = False, style_panel = False,
       active = [], form = start_form, overlay = False, loadings = [], asked = 1\<rparr>"
  unfolding start_run_def by (simp add: layer_eval)

lemma no_source_left_now:
  "let s = fold (base_step (\<lambda>_. None)) start_run (first_base start_form (raster_tiles [97]))
   in fst ` set (m_sources s) = {1} \<and> current s = Some (RasterLayer 1)"
  unfolding started_state by simp


lemma card_all_or_nothing_witness:
  "let s = fold (base_step (\<lambda>_. None)) start_run (first_base start_form (raster_tiles [97]));
       u = fold (\<lambda>a. base_step (\<lambda>_. None) (Continue 1 (fst a) (snd a))) (replicate 5 (True, can))
             (base_step (\<lambda>_. None) (PickCard (map_card ''b'' (raster_tiles [98]))) s)
   in loadings u = [] \<and> \<not> overlay u"
proof -
  let ?s = "fold (base_step (\<lambda>_. None)) start_run (first_base start_form (raster_tiles [97]))"
  let ?p = "map_card ''b'' (raster_tiles [98])"
  let ?u = "fold (\<lambda>a. base_step (\<lambda>_. None) (Continue (asked ?s) (fst a) (snd a))) (replicate 5 (True, can)) (base_step (\<lambda>_. None) (PickCard ?p) ?s)"
  have s: "loadings ?s = []" "map_loaded ?s" "asked ?s = 1" "form ?s = start_form" unfolding started_state by simp_all
  have f: "form_ok (form ?s)" unfolding s(4) form_ok_set by (simp add: raster_tiles_def type_options_def or_str_def lit_def)
  have i: "p_id ?p \<noteq> lit ''tinytiles_local''" by (simp add: map_card_def lit_def)
  have "card_tiles ?p = raster_tiles [98]" by (simp add: card_tiles_def map_card_def sample_form)
  then have "able_to (\<lambda>_. None) can ?p"
    by (simp add: able_to_def willing_def addressable_def can_def sample_types sample_plan)
  then have a: "\<forall>a \<in> set (replicate 5 (True, can)). able_to (\<lambda>_. None) (snd a) ?p" by simp
  have "loadings ?u = [] \<and> \<not> overlay ?u"
    using card_all_or_nothing [OF s(1,2) f i a _ refl] by simp
  then show ?thesis using s(3) by simp
qed

text \<open>Two cards picked one after the other leave the page in disorder: the first switch fails because the second has
  begun, and puts back the card and the form of before, although the second source is the one that then comes up. The
  map shows the second source; the card and the form are those of neither, and saving stores the settings in the form.\<close>

lemma hasty_picks:
  assumes "s = fold (base_step (\<lambda>_. None)) (start_run @ [PickCard (map_card ''b'' (raster_tiles [98])), Continue 1 True can,
      PickCard (map_card ''c'' (raster_tiles [99])), Continue 2 True can, Continue 1 True can,
      Continue 2 True can, Continue 2 True can, Continue 2 True can]) (first_base start_form (raster_tiles [97]))"
  shows "mode s = Some (raster_tiles [99])" "active s = []" "form s = start_form" "loadings s = []"
  using assms unfolding fold_append comp_apply started_state by (simp_all add: layer_eval)

text \<open>A vector style that cannot be loaded does not leave the map as it was: the style of before is gone when the
  answer comes, while the page still counts the source of before as the one that is shown.\<close>

lemma broken_style:
  assumes "s = fold (base_step (\<lambda>_. None)) (start_run @ [PickCard (map_card ''b'' (vector_tiles [98])), Continue 1 True can,
      Continue 1 False can]) (first_base start_form (raster_tiles [97]))"
  shows "m_style s = StyleFrom [98]" "m_sources s = []" "current s = Some (RasterLayer 1)" "mode s = Some (raster_tiles [97])"
    "loadings s = []"
  using assms unfolding fold_append comp_apply started_state by (simp_all add: layer_eval)

text \<open>An exception of the map in a switch, as it throws when a source is added while another style is loading, leaves
  the card and the form of the source that did not come up.\<close>

lemma thrown_keeps_card:
  assumes "s = fold (base_step (\<lambda>_. None)) (start_run @ [PickCard (map_card ''b'' (raster_tiles [98])),
      Continue 1 True (can\<lparr>add_returns := False\<rparr>)]) (first_base start_form (raster_tiles [97]))"
  shows "active s = lit ''b''" "mode s = Some (raster_tiles [97])" "loadings s = []" "form s = setTileSourceForm (raster_tiles [98])"
  using assms unfolding fold_append comp_apply started_state by (simp_all add: layer_eval)

end
