(* ===== verification/PlaceSearch.thy ===== *)
theory PlaceSearch
  imports Requests RouteFields
begin

text \<open>
  The search of places (\<open>src/cmd/web/app.js\<close>): the field with its timer, the buttons of the categories, the
  request, the list of results, and the results on the map, which the map library groups into clusters. What the
  library finds in the visible tiles (\<open>querySourceFeatures\<close>) is part of the event; \<open>addable\<close> says whether it
  takes a new source, which it refuses with an exception while a style is loading. \<open>number\<close> is \<open>Number(v)\<close>.
\<close>

section \<open>State\<close>

datatype search = ByText jstr | ByCategory jstr

datatype place_status = Hint | TooShort | Searching | Found nat bool | NothingFound | Trouble

datatype heading = Discover | Results | Nearby

datatype pin = Bubble nat nat | ResultPin js      \<comment> \<open>a cluster: its ID and its size\<close>

record places =
  entry_text :: jstr
  p_timer :: bool
  live_request :: "nat option"                \<comment> \<open>\<open>placeSearchRequest\<close>, by its number\<close>
  begun_requests :: nat
  unanswered :: "(nat \<times> search) list"
  busy :: bool
  rows :: "js list"
  p_status :: place_status
  heading :: heading
  clear_visible :: bool
  pressed :: "jstr option"
  lastSearchResults :: "js list"
  search_source :: "js list option"           \<comment> \<open>the points in the map's source, if it exists\<close>
  rendered :: "pin list"

section \<open>Results on the map\<close>

definition SEARCH_RESULTS_RENDER_LIMIT :: nat where "SEARCH_RESULTS_RENDER_LIMIT = 320"
definition SEARCH_CLUSTER_RENDER_CAP :: nat where "SEARCH_CLUSTER_RENDER_CAP = 2200"

definition clearSearchResults :: "places \<Rightarrow> places" where
  "clearSearchResults st = st\<lparr>rendered := [], lastSearchResults := [], search_source := map_option (\<lambda>_. []) (search_source st)\<rparr>"

definition showSearchResultsOnMap :: "(js \<Rightarrow> jsnum) \<Rightarrow> bool \<Rightarrow> js list \<Rightarrow> places \<Rightarrow> places option" where
  \<comment> \<open>\<open>None\<close> is the exception of the map, after which the results are cleared\<close>
  "showSearchResultsOnMap number addable results st =
     (let st = clearSearchResults st;
          valid = take SEARCH_RESULTS_RENDER_LIMIT (List.map_filter (normalizeSearchResult number) results)
      in if results = [] then Some st
         else if search_source st = None \<and> \<not> addable then None
         else Some (st\<lparr>lastSearchResults := valid, search_source := Some valid\<rparr>))"

datatype tile_feature = Cluster nat nat bool | Leaf nat bool    \<comment> \<open>the flag: its coordinates are a pair\<close>

fun sync_loop :: "(js \<Rightarrow> jsnum) \<Rightarrow> js list \<Rightarrow> nat \<Rightarrow> nat list \<Rightarrow> tile_feature list \<Rightarrow> pin list" where
  \<comment> \<open>\<open>n\<close> markers so far, \<open>seen\<close> the clusters\<close>
  "sync_loop number found n seen [] = []"
| "sync_loop number found n seen (f # fs) =
     (if SEARCH_CLUSTER_RENDER_CAP \<le> n then []
      else case f of
        Cluster i k good \<Rightarrow>
          if \<not> good \<or> i \<in> set seen then sync_loop number found n seen fs
          else Bubble i k # sync_loop number found (n + 1) (i # seen) fs
      | Leaf i good \<Rightarrow>
          if \<not> good \<or> length found \<le> i \<or> normalizeSearchResult number (found ! i) = None then sync_loop number found n seen fs
          else ResultPin (found ! i) # sync_loop number found (n + 1) seen fs)"

definition syncSearchClusterMarkers :: "(js \<Rightarrow> jsnum) \<Rightarrow> tile_feature list \<Rightarrow> places \<Rightarrow> places" where
  "syncSearchClusterMarkers number fs st =
     (if search_source st = None \<or> lastSearchResults st = [] then st
      else st\<lparr>rendered := sync_loop number (lastSearchResults st) 0 [] fs\<rparr>)"

datatype bubble_size = Small | Medium | Large

definition bubble_size :: "nat \<Rightarrow> bubble_size" where
  "bubble_size n = (if n < 10 then Small else if n < 50 then Medium else Large)"

definition ensureSearchClusterSource :: "places \<Rightarrow> places" where
  "ensureSearchClusterSource st = (if search_source st = None then st\<lparr>search_source := Some []\<rparr> else st)"

section \<open>The search\<close>

definition cancelPlaceSearch :: "places \<Rightarrow> places" where
  "cancelPlaceSearch st = st\<lparr>p_timer := False, live_request := None, busy := False\<rparr>"

definition searchPlaces :: "jstr option \<Rightarrow> places \<Rightarrow> places" where
  \<comment> \<open>up to the request; \<open>Some\<close> is the category of a button\<close>
  "searchPlaces category st =
     (let st = cancelPlaceSearch st; q = trim (entry_text st)
      in if category = None \<and> length q < 2 then st
         else let n = begun_requests st + 1;
                  st = clearSearchResults (st\<lparr>begun_requests := n, live_request := Some n, p_status := Searching, busy := True, rows := []\<rparr>)
              in st\<lparr>clear_visible := True, pressed := category,
                   unanswered := (n, case category of None \<Rightarrow> ByText q | Some c \<Rightarrow> ByCategory c) # unanswered st\<rparr>)"

definition coordinate :: "js \<Rightarrow> nat \<Rightarrow> js" where
  "coordinate c i = (if i < length (elems c) then elems c ! i else JUndef)"

definition feature_place :: "js \<Rightarrow> js option" where
  \<comment> \<open>a result of the search by category\<close>
  "feature_place f =
     (let p = jget f ''properties''; c = jget (jget f ''geometry'') ''coordinates''
      in if nullish f \<or> nullish p \<or> nullish (jget f ''geometry'') \<or> nullish c then None
         else Some (JObj [(lit ''id'', jget p ''osm_id''), (lit ''kind'', jget p ''kind''), (lit ''label'', jget p ''label''),
                (lit ''lon'', coordinate c 0), (lit ''lat'', coordinate c 1)]))"

definition results_of :: "search \<Rightarrow> js \<Rightarrow> js list option" where
  \<comment> \<open>\<open>None\<close> is an exception\<close>
  "results_of s data =
     (case s of
        ByText q \<Rightarrow> Some (if is_array data then elems data else [])
      | ByCategory c \<Rightarrow>
          if nullish data then None
          else let fs = or_else (jget data ''features'') (JArr [])
               in if is_array fs then those (map feature_place (elems fs)) else None)"

datatype place_answer = Aborted | Wrong | Data js

definition trouble :: "places \<Rightarrow> places" where
  "trouble st = st\<lparr>rows := [], p_status := Trouble\<rparr>"

definition is_category :: "search \<Rightarrow> bool" where
  "is_category s = (case s of ByText _ \<Rightarrow> False | ByCategory _ \<Rightarrow> True)"

definition show_results :: "(js \<Rightarrow> jsnum) \<Rightarrow> bool \<Rightarrow> search \<Rightarrow> js list \<Rightarrow> places \<Rightarrow> places" where
  "show_results number addable s results st =
     (let valid = List.map_filter (normalizeSearchResult number) results
      in case showSearchResultsOnMap number addable valid (st\<lparr>rows := valid\<rparr>) of
           None \<Rightarrow> trouble (clearSearchResults st)
         | Some st \<Rightarrow> st\<lparr>heading := (if is_category s then Nearby else Results),
             p_status := (if valid = [] then NothingFound else Found (length valid) (is_category s))\<rparr>)"

definition place_reply :: "(js \<Rightarrow> jsnum) \<Rightarrow> nat \<Rightarrow> place_answer \<Rightarrow> bool \<Rightarrow> places \<Rightarrow> places" where
  "place_reply number n a addable st =
     (case map_of (unanswered st) n of
        None \<Rightarrow> st
      | Some s \<Rightarrow>
          let st = st\<lparr>unanswered := filter (\<lambda>p. fst p \<noteq> n) (unanswered st)\<rparr>
          in if live_request st \<noteq> Some n then st
             else (case a of
                     Aborted \<Rightarrow> st
                   | Wrong \<Rightarrow> trouble st
                   | Data d \<Rightarrow> (case results_of s d of None \<Rightarrow> trouble st | Some rs \<Rightarrow> show_results number addable s rs st))
               \<lparr>live_request := None, busy := False\<rparr>)"

definition resetPlaceSearch :: "bool \<Rightarrow> places \<Rightarrow> places" where
  "resetPlaceSearch clearInput st =
     (let st = cancelPlaceSearch st; st = (if clearInput then st\<lparr>entry_text := []\<rparr> else st)
      in clearSearchResults (st\<lparr>clear_visible := False, heading := Discover, p_status := Hint, pressed := None, rows := []\<rparr>))"

definition place_input :: "jstr \<Rightarrow> places \<Rightarrow> places" where
  "place_input s st =
     (let st = cancelPlaceSearch (st\<lparr>entry_text := s\<rparr>)
      in if length (trim s) \<ge> 2 then st\<lparr>p_timer := True\<rparr>
         else let st = resetPlaceSearch False st in if trim s \<noteq> [] then st\<lparr>p_status := TooShort\<rparr> else st)"

datatype place_event =
    PlaceInput jstr
  | PlaceTimer
  | Submit
  | CategoryButton jstr
  | PlaceReply nat place_answer bool
  | ClearButton
  | Locate nat bool
  | OtherResults "js list" bool     \<comment> \<open>results of the suggestions, of the GIS tools or of the assistant\<close>
  | StyleReplaced
  | MapMoved "tile_feature list"

fun place_step :: "(js \<Rightarrow> jsnum) \<Rightarrow> place_event \<Rightarrow> places \<Rightarrow> places" where
  "place_step number (PlaceInput s) st = place_input s st"
| "place_step number PlaceTimer st = (if p_timer st then searchPlaces None (st\<lparr>p_timer := False\<rparr>) else st)"
| "place_step number Submit st = searchPlaces None st"
| "place_step number (CategoryButton c) st = searchPlaces (Some c) st"
| "place_step number (PlaceReply n a addable) st = place_reply number n a addable st"
| "place_step number ClearButton st = resetPlaceSearch True st"
| "place_step number (Locate i addable) st =
     (if i < length (rows st)
      then (case showSearchResultsOnMap number addable [rows st ! i] st of Some st' \<Rightarrow> st' | None \<Rightarrow> clearSearchResults st)
      else st)"
| "place_step number (OtherResults rs addable) st =
     (case showSearchResultsOnMap number addable rs st of Some st' \<Rightarrow> st' | None \<Rightarrow> clearSearchResults st)"
| "place_step number StyleReplaced st = ensureSearchClusterSource (st\<lparr>search_source := None\<rparr>)"
| "place_step number (MapMoved fs) st = syncSearchClusterMarkers number fs st"

definition first_places :: places where
  "first_places = \<lparr>entry_text = [], p_timer = False, live_request = None, begun_requests = 0, unanswered = [], busy = False,
     rows = [], p_status = Hint, heading = Discover, clear_visible = False, pressed = None, lastSearchResults = [],
     search_source = None, rendered = []\<rparr>"

section \<open>What is drawn\<close>

lemma sync_size: "length (sync_loop number found n seen fs) \<le> SEARCH_CLUSTER_RENDER_CAP - n"
proof (induction fs arbitrary: n seen)
  case (Cons f fs)
  have "length xs \<le> SEARCH_CLUSTER_RENDER_CAP - Suc n \<Longrightarrow> \<not> SEARCH_CLUSTER_RENDER_CAP \<le> n
      \<Longrightarrow> Suc (length xs) \<le> SEARCH_CLUSTER_RENDER_CAP - n" for xs :: "pin list" by linarith
  then show ?case using Cons by (cases f) simp_all
qed simp

lemma sync_pins: "ResultPin x \<in> set (sync_loop number found n seen fs) \<Longrightarrow> x \<in> set found"
proof (induction fs arbitrary: n seen)
  case (Cons f fs)
  then show ?case by (cases f) (auto split: if_splits)
qed simp

section \<open>Invariant\<close>

definition normal :: "(js \<Rightarrow> jsnum) \<Rightarrow> js \<Rightarrow> bool" where
  \<comment> \<open>a place with coordinates\<close>
  "normal number x \<longleftrightarrow> (\<exists>i. normalizeSearchResult number i = Some x)"

definition places_ok :: "(js \<Rightarrow> jsnum) \<Rightarrow> places \<Rightarrow> bool" where
  "places_ok number st \<longleftrightarrow>
     busy st = (live_request st \<noteq> None)
     \<and> (live_request st \<noteq> None \<longrightarrow> rows st = [] \<and> p_status st = Searching \<and> \<not> p_timer st \<and> clear_visible st)
     \<and> length (lastSearchResults st) \<le> SEARCH_RESULTS_RENDER_LIMIT
     \<and> (\<forall>r \<in> set (rows st) \<union> set (lastSearchResults st). normal number r)
     \<and> (\<forall>n f. p_status st = Found n f \<longleftrightarrow> rows st \<noteq> [] \<and> n = length (rows st) \<and> f = (heading st = Nearby))
     \<and> (rows st \<noteq> [] \<longrightarrow> heading st \<noteq> Discover \<and> clear_visible st)
     \<and> (\<forall>x. ResultPin x \<in> set (rendered st) \<longrightarrow> x \<in> set (lastSearchResults st))
     \<and> length (rendered st) \<le> SEARCH_CLUSTER_RENDER_CAP
     \<and> (\<forall>n. live_request st = Some n \<longrightarrow> n = begun_requests st \<and> 0 < n)
     \<and> (\<forall>p \<in> set (unanswered st). fst p \<le> begun_requests st)"

lemma normal_filter: "x \<in> set (List.map_filter (normalizeSearchResult number) xs) \<Longrightarrow> normal number x"
  unfolding normal_def map_filter_def by force

lemma normal_take: "x \<in> set (take k (List.map_filter (normalizeSearchResult number) xs)) \<Longrightarrow> normal number x"
  using normal_filter in_set_takeD by metis

lemmas place_defs = cancelPlaceSearch_def clearSearchResults_def searchPlaces_def resetPlaceSearch_def place_input_def
  trouble_def Let_def

lemma place_cancel_ok: "places_ok number st \<Longrightarrow> places_ok number (cancelPlaceSearch st)"
  by (auto simp: places_ok_def cancelPlaceSearch_def)

lemma search_ok: "places_ok number st \<Longrightarrow> places_ok number (searchPlaces c st)"
  using place_cancel_ok [of number st]
  by (auto simp: places_ok_def place_defs intro: le_SucI)

lemma reset_ok: "places_ok number st \<Longrightarrow> places_ok number (resetPlaceSearch c st)"
  by (auto simp: places_ok_def place_defs)

lemma place_input_ok: "places_ok number st \<Longrightarrow> places_ok number (place_input s st)"
  by (auto simp: places_ok_def place_defs)

lemma show_on_map:
  assumes "showSearchResultsOnMap number addable results st = Some u"
  shows "rows u = rows st" "busy u = busy st" "live_request u = live_request st" "p_status u = p_status st" "p_timer u = p_timer st"
    "heading u = heading st" "clear_visible u = clear_visible st" "begun_requests u = begun_requests st" "unanswered u = unanswered st"
    "rendered u = []" "length (lastSearchResults u) \<le> SEARCH_RESULTS_RENDER_LIMIT"
    "x \<in> set (lastSearchResults u) \<Longrightarrow> normal number x" "results = [] \<Longrightarrow> lastSearchResults u = []"
  using assms normal_take
  by (auto simp: showSearchResultsOnMap_def clearSearchResults_def Let_def split: if_splits)

lemma locate_ok:
  assumes "places_ok number st" "showSearchResultsOnMap number addable results st = Some u"
  shows "places_ok number u"
  using assms(1) show_on_map [OF assms(2)] by (auto simp: places_ok_def)

lemma place_clear_ok: "places_ok number st \<Longrightarrow> places_ok number (clearSearchResults st)"
  by (auto simp: places_ok_def clearSearchResults_def)

lemma sync_ok: "places_ok number st \<Longrightarrow> places_ok number (syncSearchClusterMarkers number fs st)"
  using sync_size [of number "lastSearchResults st" 0 "[]" fs] sync_pins [of _ number "lastSearchResults st" 0 "[]" fs]
  by (auto simp: places_ok_def syncSearchClusterMarkers_def)

definition answered :: "places \<Rightarrow> places" where
  "answered st = st\<lparr>live_request := None, busy := False\<rparr>"

lemma trouble_ok: "places_ok number st \<Longrightarrow> live_request st \<noteq> None \<Longrightarrow> places_ok number (answered (trouble st))"
  by (auto simp: places_ok_def trouble_def answered_def)

lemma aborted_ok: "places_ok number st \<Longrightarrow> live_request st \<noteq> None \<Longrightarrow> places_ok number (answered st)"
  by (auto simp: places_ok_def answered_def)

lemma shown_ok:
  assumes "places_ok number st" "live_request st \<noteq> None" "\<forall>x \<in> set v. normal number x"
    "showSearchResultsOnMap number addable v (st\<lparr>rows := v\<rparr>) = Some u" "h \<noteq> Discover" "f = (h = Nearby)"
  shows "places_ok number (answered (u\<lparr>heading := h, p_status := (if v = [] then NothingFound else Found (length v) f)\<rparr>))"
proof -
  note u = show_on_map [OF assms(4)]
  have l: "rows u = v" "clear_visible u" "\<forall>p \<in> set (unanswered u). fst p \<le> begun_requests u"
    "p_timer u = False"
    using u assms(1,2) by (auto simp: places_ok_def)
  have n: "\<forall>x \<in> set (lastSearchResults u). normal number x" using u(12) by blast
  show ?thesis
    using l n u(10,11) assms(3,5,6) by (simp add: places_ok_def answered_def) blast
qed

lemma show_ok:
  assumes "places_ok number st" "live_request st \<noteq> None"
  shows "places_ok number (answered (show_results number addable s results st))"
proof -
  let ?valid = "List.map_filter (normalizeSearchResult number) results"
  show ?thesis
  proof (cases "showSearchResultsOnMap number addable ?valid (st\<lparr>rows := ?valid\<rparr>)")
    case None
    then show ?thesis
      using trouble_ok [OF place_clear_ok [OF assms(1)]] assms(2) by (simp add: show_results_def clearSearchResults_def)
  next
    case (Some u)
    have "\<forall>x \<in> set ?valid. normal number x" using normal_filter by blast
    from shown_ok [OF assms this Some, of "if is_category s then Nearby else Results" "is_category s"]
    show ?thesis by (cases "is_category s") (simp_all add: show_results_def Some Let_def)
  qed
qed

lemma place_reply_ok:
  assumes "places_ok number st" shows "places_ok number (place_reply number n a addable st)"
proof (cases "map_of (unanswered st) n")
  case None
  then show ?thesis using assms by (simp add: place_reply_def)
next
  case (Some s)
  let ?st = "st\<lparr>unanswered := filter (\<lambda>p. fst p \<noteq> n) (unanswered st)\<rparr>"
  have ok: "places_ok number ?st" using assms by (auto simp: places_ok_def)
  show ?thesis
  proof (cases "live_request st = Some n")
    case True
    then have l: "live_request ?st \<noteq> None" by simp
    show ?thesis
      using True Some trouble_ok [OF ok l] aborted_ok [OF ok l] show_ok [OF ok l]
      by (simp add: place_reply_def Let_def answered_def split: place_answer.split option.split)
  qed (use Some ok in \<open>simp add: place_reply_def Let_def\<close>)
qed

lemma place_step_ok: "places_ok number st \<Longrightarrow> places_ok number (place_step number ev st)"
proof (cases ev)
  case PlaceTimer
  assume "places_ok number st"
  then have "places_ok number (st\<lparr>p_timer := False\<rparr>)" by (auto simp: places_ok_def)
  then show ?thesis using PlaceTimer \<open>places_ok number st\<close> search_ok by simp
next
  case (Locate i addable)
  assume a: "places_ok number st"
  then show ?thesis using Locate locate_ok place_clear_ok by (auto split: option.split)
next
  case (OtherResults rs addable)
  assume "places_ok number st"
  then show ?thesis using OtherResults locate_ok place_clear_ok by (auto split: option.split)
next
  case StyleReplaced
  assume "places_ok number st"
  then show ?thesis using StyleReplaced by (auto simp: places_ok_def ensureSearchClusterSource_def)
qed (simp_all add: place_input_ok search_ok place_reply_ok reset_ok sync_ok)

lemma first_places_ok: "places_ok number first_places"
  by (simp add: places_ok_def first_places_def)

definition request_numbers :: "places \<Rightarrow> nat set" where
  "request_numbers st = {1..begun_requests st}"

interpretation place_searches: latest_wins live_request request_numbers "place_step number" "places_ok number"
proof unfold_locales
  fix st ev
  assume ok: "places_ok number st"
  have n: "(begun_requests (place_step number ev st) = begun_requests st
        \<and> live_request (place_step number ev st) \<in> {None, live_request st})
      \<or> (begun_requests (place_step number ev st) = Suc (begun_requests st)
        \<and> live_request (place_step number ev st) \<in> {None, Some (Suc (begun_requests st))})"
    by (cases ev) (auto simp: place_defs place_reply_def show_results_def syncSearchClusterMarkers_def ensureSearchClusterSource_def
        showSearchResultsOnMap_def split: option.split place_answer.split)
  show "request_numbers st \<subseteq> request_numbers (place_step number ev st)" using n by (auto simp: request_numbers_def)
  show "live_request (place_step number ev st) = Some t \<Longrightarrow> t \<in> request_numbers st \<Longrightarrow> live_request st = Some t" for t
    using n by (auto simp: request_numbers_def)
  show "places_ok number (place_step number ev st)" using ok by (rule place_step_ok)
qed (auto simp: places_ok_def request_numbers_def)

lemma places_run: "places_ok number (fold (place_step number) evs first_places)"
  using place_searches.inv_run first_places_ok by blast

section \<open>What holds\<close>

text \<open>C27: the list, the map and the texts of the search agree in every run: the page says that it is searching, with the list
  marked as busy and empty, whenever a request is open; a number of places is announced exactly when that many are in
  the list; everything that is in the list or on the map is a place with coordinates; and at most 2200 markers are drawn, each of a place that was found.\<close>

theorem search_in_step:
  assumes "st = fold (place_step number) evs first_places"
  shows "busy st = (live_request st \<noteq> None)
    \<and> (live_request st = None \<or> rows st = [] \<and> p_status st = Searching \<and> clear_visible st)
    \<and> (p_status st = Found n f \<longleftrightarrow> rows st \<noteq> [] \<and> n = length (rows st) \<and> f = (heading st = Nearby))
    \<and> set (rows st) \<union> set (lastSearchResults st) \<subseteq> {x. \<exists>i. normalizeSearchResult number i = Some x}
    \<and> length (rendered st) \<le> SEARCH_CLUSTER_RENDER_CAP
    \<and> {x. ResultPin x \<in> set (rendered st)} \<subseteq> set (lastSearchResults st)"
  using places_run [of number evs] assms by (auto simp: places_ok_def normal_def)

text \<open>an answer to a search that was overtaken, by another search, by typing or by the button that clears the field,
  changes nothing that the user sees, however late it comes.\<close>

theorem overtaken_search_ignored:
  assumes "st = fold (place_step number) evs first_places" "n \<in> {1..begun_requests st}" "live_request st \<noteq> Some n"
    "st' = fold (place_step number) evs' st"
  shows "\<exists>w. place_step number (PlaceReply n a addable) st' = st'\<lparr>unanswered := w\<rparr>"
proof -
  have "place_searches.stale n st" using assms(2,3) unfolding place_searches.stale_def request_numbers_def by blast
  then have "live_request st' \<noteq> Some n"
    using place_searches.stale_run [of number st n evs'] places_run [of number evs] assms(1,4) by (simp add: place_searches.stale_def)
  then show ?thesis by (cases "map_of (unanswered st') n") (auto simp: place_reply_def Let_def intro: exI [of _ "unanswered st'"])
qed

text \<open>The text that says that the page is searching can stay: when the form is sent with an empty field while a search by
  category is under way, the request is given up, but neither another is sent nor the text changed.\<close>

lemma searching_for_good:
  assumes "st = fold (place_step number) [CategoryButton (lit ''cafe''), Submit, PlaceReply 1 Aborted True] first_places"
  shows "p_status st = Searching" "live_request st = None" "\<not> p_timer st" "unanswered st = []" "\<not> busy st"
  using assms by (simp_all add: first_places_def place_defs place_reply_def)

text \<open>A base layer that replaces the style takes the results off the map, while the list keeps them.\<close>

lemma style_takes_results:
  assumes "rows st \<noteq> []" "lastSearchResults st \<noteq> []"
  shows "rendered (fold (place_step number) [StyleReplaced, MapMoved []] st) = []"
    "rows (fold (place_step number) [StyleReplaced, MapMoved []] st) = rows st"
  using assms by (simp_all add: ensureSearchClusterSource_def syncSearchClusterMarkers_def)

section \<open>A run\<close>

definition cafe :: js where
  "cafe = JObj [(lit ''lat'', JNum (Fin 48)), (lit ''lon'', JNum (Fin 12))]"

definition cafe_run :: "place_event list" where
  "cafe_run = [PlaceInput (lit ''cafe''), PlaceTimer, PlaceReply 1 (Data (JArr [cafe])) True]"

lemma cafe_trim: "trim (lit ''cafe'') = lit ''cafe''"
  by (simp add: trim_def js_space_def Let_def lit_def)

lemma cafe_normal: "\<exists>x. normalizeSearchResult (\<lambda>_. NaN) cafe = Some x"
  by (simp add: normalizeSearchResult_def cafe_def)

lemma cafe_end: "length (rows (fold (place_step (\<lambda>_. NaN)) cafe_run first_places)) = 1"
proof -
  obtain x where x: "normalizeSearchResult (\<lambda>_. NaN) cafe = Some x" using cafe_normal by blast
  show ?thesis
    by (simp add: cafe_run_def first_places_def place_defs cafe_trim place_reply_def results_of_def show_results_def
        showSearchResultsOnMap_def x map_filter_def is_category_def)
qed

lemma search_in_step_witness:
  "p_status (fold (place_step (\<lambda>_. NaN)) cafe_run first_places) = Found 1 (heading (fold (place_step (\<lambda>_. NaN)) cafe_run first_places) = Nearby)"
  using search_in_step [OF refl, of "\<lambda>_. NaN" cafe_run 1 "heading (fold (place_step (\<lambda>_. NaN)) cafe_run first_places) = Nearby"] cafe_end
  by auto

lemma overtaken_search_ignored_witness:
  "\<exists>w. place_step (\<lambda>_. NaN) (PlaceReply 1 Wrong True) (fold (place_step (\<lambda>_. NaN)) [CategoryButton (lit ''cafe''), ClearButton] first_places)
    = (fold (place_step (\<lambda>_. NaN)) [CategoryButton (lit ''cafe''), ClearButton] first_places)\<lparr>unanswered := w\<rparr>"
  by (rule overtaken_search_ignored [OF refl, where evs = "[CategoryButton (lit ''cafe''), ClearButton]" and evs' = "[]"])
     (simp_all add: first_places_def place_defs)

end
