(* ===== verification/Patterns.thy ===== *)
theory Patterns
  imports Prelude
begin

text \<open>
  The regular expressions with the flag \<open>i\<close> of the source, as the page's assistant uses them
  (\<open>src/cmd/web/app.js\<close>, \<open>sendAIQuery\<close>): \<open>hits\<close> is the backtracking of JavaScript, with its results in the order
  in which it finds them, and \<open>spans\<close> the relation between start and end of a match. A quantified part holds no capturing
  group in the source, and there is one such group at most.
\<close>

section \<open>Expressions\<close>

datatype char_class = Dot | Space | NonSpace | WordChar

datatype rx =
    Chars jstr
  | One char_class
  | Edge                     \<comment> \<open>\<open>\b\<close>\<close>
  | AtStart
  | AtEnd
  | Cat rx rx
  | Or rx rx
  | Many rx
  | Keep rx                  \<comment> \<open>the capturing group\<close>

definition word_char :: "16 word \<Rightarrow> bool" where
  "word_char c \<longleftrightarrow> (let n = unat c in (48 \<le> n \<and> n \<le> 57) \<or> (65 \<le> n \<and> n \<le> 90) \<or> n = 95 \<or> (97 \<le> n \<and> n \<le> 122))"

fun in_class :: "char_class \<Rightarrow> 16 word \<Rightarrow> bool" where
  "in_class Dot c = (unat c \<notin> {10, 13, 0x2028, 0x2029})"
| "in_class Space c = js_space c"
| "in_class NonSpace c = (\<not> js_space c)"
| "in_class WordChar c = word_char c"

definition upper_case :: "16 word \<Rightarrow> 16 word" where
  \<comment> \<open>the folding of case for the letters of the expressions: no other character is folded to one of them\<close>
  "upper_case c = (let n = unat c in if (97 \<le> n \<and> n \<le> 122) \<or> (0xE0 \<le> n \<and> n \<le> 0xFE \<and> n \<noteq> 0xF7) then c - 32 else c)"

definition edge :: "jstr \<Rightarrow> nat \<Rightarrow> bool" where
  "edge s i \<longleftrightarrow> (0 < i \<and> i \<le> length s \<and> word_char (s ! (i - 1))) \<noteq> (i < length s \<and> word_char (s ! i))"

definition letters_at :: "jstr \<Rightarrow> jstr \<Rightarrow> nat \<Rightarrow> bool" where
  "letters_at w s i \<longleftrightarrow> i + length w \<le> length s \<and> map upper_case (take (length w) (drop i s)) = map upper_case w"

section \<open>Backtracking\<close>

type_synonym place = "nat \<times> (nat \<times> nat) option"    \<comment> \<open>the position, and the group if it was passed\<close>

fun greedy :: "(place \<Rightarrow> place list) \<Rightarrow> nat \<Rightarrow> place \<Rightarrow> place list" where
  \<comment> \<open>an empty repetition is not tried again, so the number of characters left bounds the depth\<close>
  "greedy f 0 p = [p]"
| "greedy f (Suc k) p = concat (map (\<lambda>q. if fst p < fst q then greedy f k q else []) (f p)) @ [p]"

primrec hits :: "rx \<Rightarrow> jstr \<Rightarrow> place \<Rightarrow> place list" where
  "hits (Chars w) s p = (if letters_at w s (fst p) then [(fst p + length w, snd p)] else [])"
| "hits (One k) s p = (if fst p < length s \<and> in_class k (s ! fst p) then [(fst p + 1, snd p)] else [])"
| "hits Edge s p = (if edge s (fst p) then [p] else [])"
| "hits AtStart s p = (if fst p = 0 then [p] else [])"
| "hits AtEnd s p = (if fst p = length s then [p] else [])"
| "hits (Cat a b) s p = concat (map (hits b s) (hits a s p))"
| "hits (Or a b) s p = hits a s p @ hits b s p"
| "hits (Many a) s p = greedy (hits a s) (length s - fst p) p"
| "hits (Keep a) s p = map (\<lambda>q. (fst q, Some (fst p, fst q))) (hits a s p)"

abbreviation maybe :: "rx \<Rightarrow> rx" where "maybe a \<equiv> Or a (Chars [])"
abbreviation some :: "rx \<Rightarrow> rx" where "some a \<equiv> Cat a (Many a)"

fun any_of :: "rx list \<Rightarrow> rx" where
  "any_of [] = Chars []"
| "any_of [a] = a"
| "any_of (a # b # as) = Or a (any_of (b # as))"

fun seq :: "rx list \<Rightarrow> rx" where
  "seq [] = Chars []"
| "seq [a] = a"
| "seq (a # b # as) = Cat a (seq (b # as))"

definition rx_test :: "rx \<Rightarrow> jstr \<Rightarrow> bool" where
  "rx_test r s = list_ex (\<lambda>i. hits r s (i, None) \<noteq> []) [0..<Suc (length s)]"

definition group_text :: "jstr \<Rightarrow> place \<Rightarrow> jstr" where
  \<comment> \<open>\<open>m[1] || ''\<close>\<close>
  "group_text s p = (case snd p of None \<Rightarrow> [] | Some (a, b) \<Rightarrow> take (b - a) (drop a s))"

definition rx_group :: "rx \<Rightarrow> jstr \<Rightarrow> jstr option" where
  \<comment> \<open>\<open>s.match(r)\<close> and its group\<close>
  "rx_group r s = (case List.find (\<lambda>i. hits r s (i, None) \<noteq> []) [0..<Suc (length s)] of
     None \<Rightarrow> None | Some i \<Rightarrow> Some (group_text s (hd (hits r s (i, None)))))"

section \<open>What an expression matches\<close>

primrec spans :: "rx \<Rightarrow> jstr \<Rightarrow> nat \<Rightarrow> nat \<Rightarrow> bool" where
  "spans (Chars w) s = (\<lambda>i j. letters_at w s i \<and> j = i + length w)"
| "spans (One k) s = (\<lambda>i j. i < length s \<and> in_class k (s ! i) \<and> j = i + 1)"
| "spans Edge s = (\<lambda>i j. edge s i \<and> j = i)"
| "spans AtStart s = (\<lambda>i j. i = 0 \<and> j = 0)"
| "spans AtEnd s = (\<lambda>i j. i = length s \<and> j = i)"
| "spans (Cat a b) s = (\<lambda>i k. \<exists>j. spans a s i j \<and> spans b s j k)"
| "spans (Or a b) s = (\<lambda>i j. spans a s i j \<or> spans b s i j)"
| "spans (Many a) s = (spans a s)\<^sup>*\<^sup>*"
| "spans (Keep a) s = spans a s"

lemma steps_range:
  assumes "\<And>i j. R i j \<Longrightarrow> i \<le> n \<Longrightarrow> i \<le> j \<and> j \<le> n" and "R\<^sup>*\<^sup>* i j" and "i \<le> n"
  shows "i \<le> j \<and> j \<le> (n :: nat)"
  using assms(2) by (induction rule: rtranclp_induct) (use assms(1,3) le_trans in blast)+

lemma spans_range: "spans r s i j \<Longrightarrow> i \<le> length s \<Longrightarrow> i \<le> j \<and> j \<le> length s"
proof (induction r arbitrary: i j)
  case (Cat a b)
  then show ?case using le_trans by fastforce
next
  case (Many a)
  then show ?case using steps_range [of "spans a s" "length s" i j] by simp
qed (auto simp: letters_at_def)

lemma greedy_ends:
  assumes ends: "\<And>i c. i \<le> n \<Longrightarrow> fst ` set (f (i, c)) = {j. R i j}"
    and range: "\<And>i j. R i j \<Longrightarrow> i \<le> n \<Longrightarrow> i \<le> j \<and> j \<le> n"
  shows "i \<le> n \<Longrightarrow> n - i \<le> k \<Longrightarrow> fst ` set (greedy f k (i, c)) = {j. R\<^sup>*\<^sup>* i j}"
proof (induction k arbitrary: i c)
  case 0
  then have "j = i" if "R\<^sup>*\<^sup>* i j" for j using steps_range [OF range that] by simp
  then show ?case by auto
next
  case (Suc k)
  have sub: "fst ` set (greedy f k q) = {j. R\<^sup>*\<^sup>* (fst q) j}" if "q \<in> set (f (i, c))" "i < fst q" for q
  proof -
    have "R i (fst q)" using ends [OF Suc.prems(1), of c] that(1) by auto
    then have "fst q \<le> n" using range Suc.prems(1) by blast
    then show ?thesis using Suc.IH [of "fst q" "snd q"] Suc.prems that(2) by (simp add: split_pairs)
  qed
  have "fst ` set (greedy f (Suc k) (i, c)) = insert i (\<Union>q\<in>set (f (i, c)). if i < fst q then fst ` set (greedy f k q) else {})"
    by auto
  also have "\<dots> = insert i (\<Union>q\<in>set (f (i, c)). if i < fst q then {j. R\<^sup>*\<^sup>* (fst q) j} else {})"
    using sub by auto
  also have "\<dots> = insert i (\<Union>m\<in>fst ` set (f (i, c)). if i < m then {j. R\<^sup>*\<^sup>* m j} else {})" by (simp only: image_image)
  also have "\<dots> = insert i {j. \<exists>m. R i m \<and> i < m \<and> R\<^sup>*\<^sup>* m j}" unfolding ends [OF Suc.prems(1)] by auto
  also have "\<dots> = {j. R\<^sup>*\<^sup>* i j}"
  proof (intro set_eqI iffI)
    fix j assume "j \<in> {j. R\<^sup>*\<^sup>* i j}"
    then have "R\<^sup>*\<^sup>* i j" by simp
    then have "j = i \<or> (\<exists>m. R i m \<and> i < m \<and> R\<^sup>*\<^sup>* m j)"
    proof (induction rule: rtranclp_induct)
      case (step y z)
      then show ?case using range [of i z] Suc.prems(1) by (cases "i = z") (auto intro: rtranclp.rtrancl_into_rtrancl)
    qed simp
    then show "j \<in> insert i {j. \<exists>m. R i m \<and> i < m \<and> R\<^sup>*\<^sup>* m j}" by simp
  qed (auto intro: converse_rtranclp_into_rtranclp)
  finally show ?case .
qed

lemma hits_spans: "i \<le> length s \<Longrightarrow> fst ` set (hits r s (i, c)) = {j. spans r s i j}"
proof (induction r arbitrary: i c)
  case (Cat a b)
  have "fst ` set (hits (Cat a b) s (i, c)) = (\<Union>q\<in>set (hits a s (i, c)). fst ` set (hits b s q))" by auto
  also have "\<dots> = (\<Union>q\<in>set (hits a s (i, c)). {j. spans b s (fst q) j})"
  proof (rule SUP_cong [OF refl])
    fix q assume "q \<in> set (hits a s (i, c))"
    then have "spans a s i (fst q)" using Cat.IH(1) [OF Cat.prems, of c] by auto
    then have "fst q \<le> length s" using spans_range Cat.prems by blast
    then show "fst ` set (hits b s q) = {j. spans b s (fst q) j}" using Cat.IH(2) [of "fst q" "snd q"] by simp
  qed
  also have "\<dots> = (\<Union>m\<in>fst ` set (hits a s (i, c)). {j. spans b s m j})" by simp
  also have "\<dots> = {j. spans (Cat a b) s i j}" unfolding Cat.IH(1) [OF Cat.prems] by auto
  finally show ?case .
next
  case (Keep a)
  then show ?case by (simp add: image_image)
next
  case (Many a)
  then show ?case using greedy_ends [of "length s" "hits a s" "spans a s" i "length s - i" c] spans_range by simp
qed (auto simp: image_Un)

lemma hits_empty: "i \<le> length s \<Longrightarrow> hits r s (i, c) = [] \<longleftrightarrow> (\<nexists>j. spans r s i j)"
  using hits_spans [of i s r c] by (cases "hits r s (i, c)") auto

text \<open>The backtracking is exact: a pattern of the assistant is found in a text if and only if some part of the text is a match, so
  that neither the order in which the alternatives are tried nor the limit on empty repetitions loses one.\<close>

theorem backtracking_exact: "rx_test r s \<longleftrightarrow> (\<exists>i j. i \<le> length s \<and> spans r s i j)"
  unfolding rx_test_def list_ex_iff by (auto simp: hits_empty less_Suc_eq_le simp del: upt_Suc)

end
