(* ===== verification/Assistant.thy ===== *)
theory Assistant
  imports Routing PlaceSearch Patterns Markup TileSources
begin

text \<open>
  The assistant (\<open>src/cmd/web/app.js\<close>, \<open>sendAIQuery\<close> and what belongs to it): a question is answered on the page
  itself when one of seven patterns fits, by a route that the planner computes, or it is sent to the server with
  what the page shows, and the answer may bring a route, places and stops. The state holds those of the route planner
  (\<open>Routing\<close>) and of the search of places (\<open>PlaceSearch\<close>), which the assistant changes and whose events go on
  meanwhile. \<open>low\<close> is \<open>toLowerCase\<close>. What \<open>aiOutput\<close> draws (\<open>AiOutput\<close>), links, toasts, and the badge with the distance are left
  out; the distances of an answer are taken to be values whose conversion to a number does not throw.
\<close>

section \<open>The patterns\<close>

abbreviation word :: "string \<Rightarrow> rx" where "word s \<equiv> Chars (lit s)"
abbreviation gap :: rx where "gap \<equiv> some (One Space)"
abbreviation words :: "string list \<Rightarrow> rx" where "words ws \<equiv> any_of (map (\<lambda>w. Chars (lit w)) ws)"

definition visual_rx :: rx where
  "visual_rx = words [''zeichn'', ''markier'', ''pfeil'', ''kreis'', ''diagramm'', ''infokart'', ''ortskart'', ''button'', ''polygon'',
     ''visualisier'']"

definition chained_rx :: rx where
  "chained_rx = seq [
     any_of [seq [word ''ich'', gap, word ''meinte''], word ''gemeint'', seq [word ''vom'', gap, word ''aktuellen'', gap, word ''ort''],
       seq [word ''von'', gap, word ''meinem'', gap, word ''standort''], seq [word ''von'', gap, word ''hier''],
       seq [word ''vom'', gap, word ''standort'']],
     Many (One Dot),
     seq [word ''n'', Or (Chars [0xE4]) (word ''ae''), word ''chst'', Many (One WordChar), gap, word ''tankstelle''],
     Many (One Dot),
     maybe (seq [word ''und'', gap, word ''dann'', gap]),
     word ''weiter'', seq [gap, words [''zum'', ''zur'', ''nach'']], gap, Keep (some (One Dot)), AtEnd]"

definition continue_rx :: rx where
  "continue_rx = seq [AtStart, maybe (seq [word ''und'', gap]), word ''weiter'', maybe (seq [gap, words [''zum'', ''zur'', ''nach'']]), gap,
     Keep (some (One Dot)), AtEnd]"

definition sentence_rx :: rx where
  "sentence_rx = seq [Edge, any_of (map Chars [lit ''ich'', lit ''meinte'', lit ''vom'', lit ''von'', lit ''und dann'', lit ''zur n'',
     lit ''zur naechsten'', lit ''zur n'' @ [0xE4] @ lit ''chsten'']), Edge]"

definition preference_rx :: rx where
  "preference_rx = seq [AtStart, any_of (map Chars [lit ''normal'', lit ''ganz normal'', lit ''standard'', lit ''standardroute'',
     lit ''schnellste'', lit ''k'' @ [0xFC] @ lit ''rzeste'']), AtEnd]"

definition show_rx :: rx where
  "show_rx = any_of [seq [word ''route'', Many (One Dot), words [''karte'', ''anzeigen'', ''zeige'', ''einblenden'']],
     word ''auf der karte anzeigen'', word ''route anzeigen'', word ''ausgeben'', word ''abbiegehinweise'', word ''abbiegehinweis'',
     word ''anweisungen'']"

definition towards_rx :: rx where
  "towards_rx = seq [Edge, words [''nach'', ''zu'', ''zum'', ''zur'', ''von''], gap, One NonSpace]"

definition correction_rx :: rx where
  "correction_rx = seq [Edge, any_of [word ''falsch'', word ''nein'', Chars [110, 0xF6], word ''nicht richtig'', word ''nicht korrekt'',
     word ''korrigier'', word ''korrigiere'', seq [word ''noch'', maybe (word '' ''), word ''mal''], word ''erneut'',
     seq [word ''rechn'', words [''e'', ''et'', ''ung'']], word ''berechne'', word ''neu berechnen'', word ''neu berechnen''], Edge]"

fun pieces :: "bool \<Rightarrow> jstr \<Rightarrow> nat" where
  \<comment> \<open>the length of \<open>split(/\s+/)\<close>; the flag: in a run of white space\<close>
  "pieces b [] = 1"
| "pieces b (c # s) = (if js_space c then (if b then 0 else 1) + pieces True s else pieces False s)"

section \<open>State\<close>

datatype shortcut =
    Chained jstr jstr jstr       \<comment> \<open>start, stop, destination\<close>
  | Onward jstr jstr
  | Preferred
  | ShownAgain
  | Recomputed

datatype bubble_text =
    Thinking
  | Cancelled
  | Working shortcut
  | Computed shortcut "reply option"      \<comment> \<open>with the distances the details show; \<open>None\<close>: a dash\<close>
  | OnMap "reply option"
  | Takes reply                            \<comment> \<open>how long the ride takes\<close>
  | Answer jstr jstr jstr                  \<comment> \<open>provider, model and response as HTML\<close>
  | Failed jstr
  | Broken                                 \<comment> \<open>the text of an exception of the engine\<close>

record bubble =
  b_prompt :: jstr
  b_text :: bubble_text
  b_offers :: "js list"                    \<comment> \<open>the buttons of \<open>appendAITargetChoices\<close>\<close>
  b_from :: js

datatype ai_wait = ForServer jstr | ForRoute nat shortcut

record payload =
  q_prompt :: jstr
  q_model :: jstr
  q_session :: js
  route_from :: jstr
  route_to :: jstr
  route_dist :: real
  route_dur :: real
  route_engine :: js
  route_objective :: js
  route_bbox :: "(point \<times> point) option"
  map_center :: point
  user_position :: "point option"

record assistant =
  planner :: routing
  found_places :: places
  detail :: "reply option"                 \<comment> \<open>the route whose distances the details show\<close>
  prompt_text :: jstr
  aiRequestController :: "nat option"
  aiRequestMessage :: "nat option"
  ai_begun :: nat
  messages :: "(nat \<times> bubble) list"         \<comment> \<open>the latest first\<close>
  send_disabled :: bool
  stop_hidden :: bool
  session :: js
  stored_session :: "jstr option"
  ai_waiting :: "(nat \<times> ai_wait) list"
  sent :: "payload list"
  ai_models :: "(jstr \<times> jstr) list"
  ai_model :: jstr
  models_shown :: bool

section \<open>Which shortcut fits\<close>

datatype intent = ChainTo jstr | ContinueTo jstr | Prefer | ShowShown | ShowComputed | Again | HowLong reply | ToServer

definition group_of :: "rx \<Rightarrow> jstr \<Rightarrow> jstr" where
  "group_of r s = (case rx_group r s of None \<Rightarrow> [] | Some g \<Rightarrow> trim g)"

definition looksLikeSentence :: "jstr \<Rightarrow> bool" where
  "looksLikeSentence s \<longleftrightarrow> rx_test sentence_rx s \<or> 6 < pieces False s"

definition asks_duration :: "jstr \<Rightarrow> bool" where
  "asks_duration s \<longleftrightarrow> has_text s (lit ''wie lange'') \<or> has_text s (lit ''dauert'') \<or> has_text s (lit ''wie lang'')"

definition intent_of :: "(jstr \<Rightarrow> jstr) \<Rightarrow> jstr \<Rightarrow> routing \<Rightarrow> intent" where
  "intent_of low prompt st =
     (let lower = (if rx_test visual_rx prompt then [] else low prompt);
          start = trim (shown (from_field st)); goal = trim (shown (to_field st));
          chain = group_of chained_rx (trim prompt);
          onward = (if goal = [] then [] else group_of continue_rx (trim prompt));
          towards = rx_test towards_rx lower
      in if chain \<noteq> [] then ChainTo chain
         else if onward \<noteq> [] \<and> \<not> looksLikeSentence onward then ContinueTo onward
         else if rx_test preference_rx (trim prompt) \<and> start \<noteq> [] \<and> goal \<noteq> [] then Prefer
         else if rx_test show_rx lower \<and> \<not> towards \<and> polyline st \<noteq> None then ShowShown
         else if rx_test show_rx lower \<and> \<not> towards \<and> start \<noteq> [] \<and> goal \<noteq> [] then ShowComputed
         else if rx_test correction_rx lower \<and> \<not> towards then Again
         else case currentRouteMeta st of
                Some r \<Rightarrow> if \<not> towards \<and> asks_duration lower then HowLong r else ToServer
              | None \<Rightarrow> ToServer)"

section \<open>Messages and the end of a question\<close>

definition set_planner :: "routing \<Rightarrow> assistant \<Rightarrow> assistant" where
  \<comment> \<open>\<open>renderPath\<close> also fills the details, which nothing empties\<close>
  "set_planner p st = st\<lparr>planner := p, detail := (case currentRouteMeta p of Some r \<Rightarrow> Some r | None \<Rightarrow> detail st)\<rparr>"

definition change_bubble :: "nat \<Rightarrow> (bubble \<Rightarrow> bubble) \<Rightarrow> assistant \<Rightarrow> assistant" where
  \<comment> \<open>a bubble that is no longer shown is changed without effect\<close>
  "change_bubble n f st = st\<lparr>messages := map (\<lambda>(m, b). if m = n then (m, f b) else (m, b)) (messages st)\<rparr>"

definition say :: "nat \<Rightarrow> bubble_text \<Rightarrow> assistant \<Rightarrow> assistant" where
  "say n t st = change_bubble n (\<lambda>b. b\<lparr>b_text := t\<rparr>) st"

definition end_query :: "nat \<Rightarrow> assistant \<Rightarrow> assistant" where
  \<comment> \<open>the \<open>finally\<close> of \<open>sendAIQuery\<close>\<close>
  "end_query n st =
     (if aiRequestController st = Some n
      then st\<lparr>aiRequestController := None, aiRequestMessage := None, send_disabled := False, stop_hidden := True\<rparr> else st)"

definition forget_query :: "nat \<Rightarrow> assistant \<Rightarrow> assistant" where
  "forget_query n st = st\<lparr>ai_waiting := filter (\<lambda>p. fst p \<noteq> n) (ai_waiting st)\<rparr>"

definition after_route :: "nat \<Rightarrow> shortcut \<Rightarrow> assistant \<Rightarrow> assistant" where
  \<comment> \<open>what follows \<open>await compute()\<close>\<close>
  "after_route n kind st =
     end_query n ((if kind = Recomputed then id else say n (Computed kind (detail st))) (forget_query n st))"

definition settle_one :: "nat \<times> ai_wait \<Rightarrow> assistant \<Rightarrow> assistant" where
  "settle_one = (\<lambda>(n, w) st. case w of
     ForServer _ \<Rightarrow> st
   | ForRoute k kind \<Rightarrow> if k \<in> fst ` set (calls (planner st)) then st else after_route n kind st)"

definition settle :: "assistant \<Rightarrow> assistant" where
  \<comment> \<open>the questions whose computation has ended go on\<close>
  "settle st = fold settle_one (ai_waiting st) st"

definition cancelAIQuery :: "assistant \<Rightarrow> assistant" where
  "cancelAIQuery st =
     (let st = (case aiRequestMessage st of None \<Rightarrow> st | Some n \<Rightarrow> say n Cancelled st)
      in set_planner (cancelRouteComputation (planner st))
           (st\<lparr>aiRequestController := None, aiRequestMessage := None, send_disabled := False, stop_hidden := True\<rparr>))"

definition clear_chat :: "assistant \<Rightarrow> assistant" where
  "clear_chat st = (cancelAIQuery st)\<lparr>messages := [], session := JStr [], stored_session := None\<rparr>"

section \<open>A question\<close>

definition prepare :: "(jstr \<Rightarrow> jstr) \<Rightarrow> intent \<Rightarrow> routing \<Rightarrow> routing \<times> shortcut" where
  \<comment> \<open>what a shortcut does to the fields before it computes\<close>
  "prepare low i st =
     (case i of
        ChainTo d \<Rightarrow>
          (let st = (case userLocation st of
                       Some (a, b) \<Rightarrow> st\<lparr>from_field := assigned (toFixed 6 a @ lit '','' @ toFixed 6 b) (from_field st)\<rparr>
                     | None \<Rightarrow> st);
               fuel = trim (shown (to_field st));
               st = (if fuel \<noteq> [] \<and> low fuel \<noteq> low d \<and> \<not> list_ex (\<lambda>w. low (trim (wp_text w)) = low fuel) (waypoints st)
                     then addWaypointWithValue fuel st else st)
           in (st\<lparr>to_field := assigned d (to_field st)\<rparr>,
               Chained (if shown (from_field st) = [] then lit ''Start'' else shown (from_field st))
                 (if fuel = [] then lit ''Tankstelle'' else fuel) d))
      | ContinueTo d \<Rightarrow>
          (let goal = trim (shown (to_field st))
           in (st\<lparr>from_field := assigned goal (from_field st), to_field := assigned d (to_field st)\<rparr>, Onward goal d))
      | Prefer \<Rightarrow> (st, Preferred)
      | ShowComputed \<Rightarrow> (st, ShownAgain)
      | _ \<Rightarrow> (st, Recomputed))"

definition finite_or :: "js \<Rightarrow> real" where
  "finite_or v = (case v of JNum (Fin x) \<Rightarrow> x | _ \<Rightarrow> 0)"

definition context_location :: "(real \<Rightarrow> jstr) \<Rightarrow> (js \<Rightarrow> jsnum) \<Rightarrow> field \<Rightarrow> jstr" where
  "context_location num number f =
     (case resolvedRoutePoint number f of Some (a, b) \<Rightarrow> num a @ lit '','' @ num b | None \<Rightarrow> trim (shown f))"

definition payload_of :: "(real \<Rightarrow> jstr) \<Rightarrow> (js \<Rightarrow> jsnum) \<Rightarrow> jstr \<Rightarrow> point \<Rightarrow> assistant \<Rightarrow> payload" where
  \<comment> \<open>with \<open>aiRouteContext\<close>; a session that is falsy is not sent\<close>
  "payload_of num number prompt center st =
     (let p = planner st; data = (case currentRouteMeta p of Some r \<Rightarrow> r_data r | None \<Rightarrow> JUndef)
      in \<lparr>q_prompt = prompt, q_model = ai_model st, q_session = (if truthy (session st) then session st else JUndef),
          route_from = context_location num number (from_field p), route_to = context_location num number (to_field p),
          route_dist = finite_or (jget data ''distance_m''), route_dur = finite_or (jget data ''duration_s''),
          route_engine = or_else (jget data ''engine'') (JStr []), route_objective = or_else (jget data ''objective'') (JStr []),
          route_bbox = currentRouteBBox p, map_center = center, user_position = userLocation p\<rparr>)"

definition ask_route :: "(js \<Rightarrow> jsnum) \<Rightarrow> js \<Rightarrow> nat \<Rightarrow> routing \<times> shortcut \<Rightarrow> assistant \<Rightarrow> assistant" where
  "ask_route number options n p st =
     (let st = say n (Working (snd p)) st; k = controllers (fst p)
      in settle ((set_planner (compute number options (fst p)) st)\<lparr>ai_waiting := (n, ForRoute k (snd p)) # ai_waiting st\<rparr>))"

definition begin_query :: "assistant \<Rightarrow> assistant" where
  "begin_query st =
     (let n = ai_begun st
      in st\<lparr>ai_begun := n + 1, aiRequestController := Some n, aiRequestMessage := Some n, stop_hidden := False, send_disabled := True,
            messages := (n, \<lparr>b_prompt = trim (prompt_text st), b_text = Thinking, b_offers = [], b_from = JUndef\<rparr>) # messages st,
            prompt_text := []\<rparr>)"

definition sendAIQuery ::
  "(jstr \<Rightarrow> jstr) \<Rightarrow> (real \<Rightarrow> jstr) \<Rightarrow> (js \<Rightarrow> jsnum) \<Rightarrow> js \<Rightarrow> point \<Rightarrow> assistant \<Rightarrow> assistant" where
  "sendAIQuery low num number options center st =
     (let prompt = trim (prompt_text st); n = ai_begun st
      in if prompt = [] \<or> aiRequestController st \<noteq> None then st
         else let st = begin_query st; i = intent_of low prompt (planner st)
              in case i of
                   ShowShown \<Rightarrow> end_query n (say n (OnMap (detail st)) st)
                 | HowLong r \<Rightarrow> end_query n (say n (Takes r) st)
                 | ToServer \<Rightarrow> st\<lparr>sent := payload_of num number prompt center st # sent st,
                                  ai_waiting := (n, ForServer prompt) # ai_waiting st\<rparr>
                 | _ \<Rightarrow> ask_route number options n (prepare low i (planner st)) st)"

section \<open>The answer of the server\<close>

record ai_data =
  a_data :: js
  a_route :: "reply option"      \<comment> \<open>\<open>data.route\<close>, if it has a path\<close>

function bold :: "jstr \<Rightarrow> jstr" where
  \<comment> \<open>\<open>replace(/\*\*([^*\n]+)\*\*/g, '<strong>$1</strong>')\<close>\<close>
  "bold [] = []"
| "bold (c # s) =
     (let m = takeWhile (\<lambda>d. d \<noteq> 42 \<and> d \<noteq> 10) (drop 1 s); r = drop (Suc (length m)) s
      in if c = 42 \<and> take 1 s = [42] \<and> m \<noteq> [] \<and> take 2 r = [42, 42]
         then lit ''<strong>'' @ m @ lit ''</strong>'' @ bold (drop 2 r) else c # bold s)"
  by pat_completeness auto
termination by (relation "measure length") auto

definition esc_js :: "js \<Rightarrow> jstr option" where
  \<comment> \<open>\<open>escapeHtml\<close> of a value of the server; \<open>None\<close>: it is no text, and has no \<open>replaceAll\<close>\<close>
  "esc_js v = (if \<not> truthy v then Some [] else case v of JStr s \<Rightarrow> Some (escapeHtml s) | _ \<Rightarrow> None)"

definition answer_html :: "js \<Rightarrow> (jstr \<times> jstr \<times> jstr) option" where
  "answer_html d =
     (case (esc_js (jget d ''provider''), esc_js (jget d ''model''), esc_js (jget d ''response'')) of
        (Some p, Some m, Some r) \<Rightarrow> Some (p, m, bold r) | _ \<Rightarrow> None)"

definition setAISessionId :: "(real \<Rightarrow> jstr) \<Rightarrow> js \<Rightarrow> assistant \<Rightarrow> assistant" where
  "setAISessionId num d st =
     (let sid = or_else (jget d ''session_id'') (or_else (jget d ''sessionId'') (jget d ''SessionID''))
      in if truthy sid
         then st\<lparr>session := sid, stored_session := (case js_string num sid of Some s \<Rightarrow> Some s | None \<Rightarrow> stored_session st)\<rparr>
         else st)"

text \<open>From here on \<open>Inl\<close> is an exception, with what had been done before it.\<close>

definition whatever :: "'a + 'a \<Rightarrow> 'a" where
  \<comment> \<open>a \<open>try\<close> whose \<open>catch\<close> does nothing\<close>
  "whatever r = (case r of Inl x \<Rightarrow> x | Inr x \<Rightarrow> x)"

definition on_planner :: "(routing \<Rightarrow> routing + routing) \<Rightarrow> assistant \<Rightarrow> assistant + assistant" where
  "on_planner f st = (case f (planner st) of Inl p \<Rightarrow> Inl (set_planner p st) | Inr p \<Rightarrow> Inr (set_planner p st))"

definition ends_of_route :: "(real \<Rightarrow> jstr) \<Rightarrow> (js \<Rightarrow> jsnum) \<Rightarrow> js \<Rightarrow> routing \<Rightarrow> routing" where
  "ends_of_route num number d p =
     (case take_end num number Start (jget d ''from'') p of
        Inl (_, p) \<Rightarrow> p
      | Inr p \<Rightarrow> (case take_end num number Goal (jget d ''to'') p of Inl (_, p) \<Rightarrow> p | Inr p \<Rightarrow> p))"

definition take_route :: "(real \<Rightarrow> jstr) \<Rightarrow> (js \<Rightarrow> jsnum) \<Rightarrow> ai_data \<Rightarrow> assistant \<Rightarrow> assistant" where
  "take_route num number d st =
     (case a_route d of
        Some r \<Rightarrow>
          (case r_path r of
             Some (p # ps) \<Rightarrow> set_planner (ends_of_route num number (a_data d) (renderPath (p # ps) r (planner st))) st
           | _ \<Rightarrow> st)
      | None \<Rightarrow> st)"

fun add_stops :: "(real \<Rightarrow> jstr) \<Rightarrow> js list \<Rightarrow> routing \<Rightarrow> routing + routing" where
  "add_stops num [] p = Inr p"
| "add_stops num (v # vs) p =
     (case js_string num v of None \<Rightarrow> Inl (addWaypoint [] p) | Some s \<Rightarrow> add_stops num vs (addWaypointWithValue s p))"

definition stop_value :: "js \<Rightarrow> js" where
  "stop_value s = or_else (getResultInputValue s) (or_else (jget s ''Label'') (JStr []))"

definition asks_stops :: "jstr \<Rightarrow> bool" where
  "asks_stops s \<longleftrightarrow> list_ex (\<lambda>w. has_text s (lit w)) [''mit'', ''via'', ''stopp'', ''stopps'', ''zwischen'']"

definition offer :: "nat \<Rightarrow> js \<Rightarrow> js list \<Rightarrow> assistant \<Rightarrow> assistant + assistant" where
  "offer n d ss st =
     (let six = take 6 ss; q = (if nullish (jget d ''from'') then JUndef else jget (jget d ''from'') ''query'')
      in if list_ex nullish six then Inl st
         else Inr (change_bubble n (\<lambda>b. b\<lparr>b_offers := six, b_from := q\<rparr>) st))"

definition confirmed_stops :: "(real \<Rightarrow> jstr) \<Rightarrow> bool \<Rightarrow> js list \<Rightarrow> assistant \<Rightarrow> assistant + assistant" where
  \<comment> \<open>more than six stops are added only if the user agrees\<close>
  "confirmed_stops num agrees vs st =
     (if 6 < length vs \<and> \<not> agrees then Inr st else on_planner (add_stops num vs) st)"

definition take_suggestions ::
  "(jstr \<Rightarrow> jstr) \<Rightarrow> (real \<Rightarrow> jstr) \<Rightarrow> (js \<Rightarrow> jsnum) \<Rightarrow> bool \<Rightarrow> bool \<Rightarrow> nat \<Rightarrow> jstr \<Rightarrow> js \<Rightarrow> assistant \<Rightarrow> assistant + assistant" where
  "take_suggestions low num number addable agrees n prompt d st =
     (case elems (jget d ''suggestions'') of
        [] \<Rightarrow> Inr st
      | s # ss \<Rightarrow>
          (case showSearchResultsOnMap number addable (s # ss) (found_places st) of
             None \<Rightarrow> Inl (st\<lparr>found_places := clearSearchResults (found_places st)\<rparr>)
           | Some pl \<Rightarrow>
               let st = st\<lparr>found_places := pl\<rparr>
               in if jget d ''model'' = JStr (lit ''target-choice'') then offer n d (s # ss) st
                  else if \<not> asks_stops (low prompt) then Inr st
                  else if list_ex nullish (s # ss) then Inl st
                  else confirmed_stops num agrees (filter truthy (map stop_value (s # ss))) st))"

definition set_end :: "(real \<Rightarrow> jstr) \<Rightarrow> (js \<Rightarrow> jsnum) \<Rightarrow> route_end \<Rightarrow> js \<Rightarrow> routing \<Rightarrow> routing + routing" where
  "set_end num number e v p =
     (if \<not> truthy v then Inr p
      else case setResolvedRouteResponsePoint num number v (field_at e p) of
        Inl _ \<Rightarrow> Inl p
      | Inr (True, f) \<Rightarrow> Inr (put_field e f p)
      | Inr (False, f) \<Rightarrow>
          let t = or_else (jget v ''label'') (jget v ''query''); f' = clearResolvedRoutePoint f
          in if \<not> truthy t then Inr p
             else case js_string num t of
               None \<Rightarrow> Inl (put_field e f' p)
             | Some s \<Rightarrow> Inr (put_field e (f'\<lparr>shown := s\<rparr>) p))"

definition fill_form :: "(real \<Rightarrow> jstr) \<Rightarrow> (js \<Rightarrow> jsnum) \<Rightarrow> bool \<Rightarrow> js \<Rightarrow> assistant \<Rightarrow> assistant" where
  "fill_form num number agrees d st =
     whatever
       (bindr (on_planner (set_end num number Start (jget d ''from'')) st) (\<lambda>st.
        bindr (on_planner (set_end num number Goal (jget d ''to'')) st) (\<lambda>st.
          confirmed_stops num agrees
            (filter truthy (map (\<lambda>w. if truthy w then or_else (jget w ''label'') (jget w ''query'') else w)
              (elems (jget d ''waypoints'')))) st)))"

definition take_answer ::
  "(jstr \<Rightarrow> jstr) \<Rightarrow> (real \<Rightarrow> jstr) \<Rightarrow> (js \<Rightarrow> jsnum) \<Rightarrow> bool \<Rightarrow> bool \<Rightarrow> bool \<Rightarrow> nat \<Rightarrow> jstr \<Rightarrow> ai_data \<Rightarrow> assistant \<Rightarrow> assistant" where
  "take_answer low num number addable agrees1 agrees2 n prompt d st =
     (if nullish (a_data d) then say n Broken st
      else let st = setAISessionId num (a_data d) st
           in case answer_html (a_data d) of
                None \<Rightarrow> say n Broken st
              | Some (p, m, r) \<Rightarrow>
                  whatever (bindr (take_suggestions low num number addable agrees1 n prompt (a_data d)
                                     (take_route num number d (say n (Answer p m r) st)))
                              (\<lambda>st. Inr (fill_form num number agrees2 (a_data d) st))))"

definition ai_reply ::
  "(jstr \<Rightarrow> jstr) \<Rightarrow> (real \<Rightarrow> jstr) \<Rightarrow> (js \<Rightarrow> jsnum) \<Rightarrow> nat \<Rightarrow> jstr + ai_data \<Rightarrow> bool \<Rightarrow> bool \<Rightarrow> bool \<Rightarrow> assistant \<Rightarrow> assistant" where
  \<comment> \<open>\<open>Inl\<close>: the message of an error; that the request was aborted is told only to one that is no longer live\<close>
  "ai_reply low num number n a addable agrees1 agrees2 st =
     (case map_of (ai_waiting st) n of
        Some (ForServer prompt) \<Rightarrow>
          (let st = forget_query n st
           in if aiRequestController st \<noteq> Some n then st
              else end_query n
                (case a of
                   Inl e \<Rightarrow> say n (Failed (if e = [] then lit ''Fehler'' else e)) st
                 | Inr d \<Rightarrow> take_answer low num number addable agrees1 agrees2 n prompt d st))
      | _ \<Rightarrow> st)"

section \<open>Buttons\<close>

definition choose_target :: "(real \<Rightarrow> jstr) \<Rightarrow> (js \<Rightarrow> jsnum) \<Rightarrow> js \<Rightarrow> nat \<Rightarrow> nat \<Rightarrow> assistant \<Rightarrow> assistant" where
  \<comment> \<open>a button of \<open>appendAITargetChoices\<close>\<close>
  "choose_target num number options n i st =
     (case map_of (messages st) n of
        None \<Rightarrow> st
      | Some b \<Rightarrow>
          if length (b_offers b) \<le> i then st
          else let p = planner st
               in case setResolvedSearchResult num number (b_offers b ! i) (to_field p) of
                    Inr (True, f) \<Rightarrow>
                      (let p = p\<lparr>to_field := f\<rparr>
                       in if trim (shown (from_field p)) = [] \<and> truthy (b_from b)
                          then case js_string num (b_from b) of
                                 None \<Rightarrow> set_planner (p\<lparr>from_field := clearResolvedRoutePoint (from_field p)\<rparr>) st
                               | Some q \<Rightarrow> settle (set_planner (compute number options
                                   (p\<lparr>from_field := (clearResolvedRoutePoint (from_field p))\<lparr>shown := q\<rparr>\<rparr>)) st)
                          else settle (set_planner (compute number options p) st))
                  | _ \<Rightarrow> st)"

definition place_as_goal :: "(real \<Rightarrow> jstr) \<Rightarrow> (js \<Rightarrow> jsnum) \<Rightarrow> js \<Rightarrow> assistant \<Rightarrow> assistant" where
  \<comment> \<open>\<open>onRoute\<close> of a place that the assistant has drawn\<close>
  "place_as_goal num number place st =
     (let p = cancelRouteComputation (planner st)
      in set_planner (case applySearchResultToInput num number True place (to_field p) of
                        Inl _ \<Rightarrow> p
                      | Inr (_, f) \<Rightarrow> setRouteEditing True (p\<lparr>to_field := f\<rparr>)) st)"

definition prepareAIQuestion :: "jstr \<Rightarrow> assistant \<Rightarrow> assistant" where
  "prepareAIQuestion q st =
     (if trim (prompt_text st) \<noteq> [] \<and> trim (prompt_text st) \<noteq> q then st else st\<lparr>prompt_text := q\<rparr>)"

datatype starter = Nearby_places | Circle | About_route

definition aiStarterPrompt :: "starter \<Rightarrow> point \<Rightarrow> bool \<Rightarrow> jstr" where
  "aiStarterPrompt kind center route =
     (let spot = toFixed 6 (fst center) @ lit '', '' @ toFixed 6 (snd center)
      in case kind of
           Nearby_places \<Rightarrow> lit ''Finde Caf'' @ [0xE9] @ lit ''s in der N'' @ [0xE4] @ lit ''he der Kartenmitte bei '' @ spot @ lit ''.''
         | Circle \<Rightarrow> lit ''Zeichne einen Kreis mit 1000 Metern Radius um die Kartenmitte bei '' @ spot @ lit ''.''
         | About_route \<Rightarrow>
             if route then lit ''Erkl'' @ [0xE4] @ lit ''re meine aktuelle Route anhand der berechneten Entfernung, Dauer und Routenoptionen.''
             else lit ''Hilf mir, eine Route zu planen. Frage mich zuerst nach Start und Ziel.'')"

text \<open>The models of the server: for each provider its name, whether it can be used, and its models.\<close>

definition embed_rx :: rx where "embed_rx = words [''embed'', ''rerank'']"

definition chat_models :: "(jstr \<times> bool \<times> jstr list) list \<Rightarrow> (jstr \<times> jstr) list" where
  "chat_models ps =
     concat (map (\<lambda>(name, available, ms). if available then map (Pair name) (filter (\<lambda>m. \<not> rx_test embed_rx m) ms) else []) ps)"

definition status_asked :: "assistant \<Rightarrow> assistant" where
  "status_asked st =
     st\<lparr>send_disabled := (aiRequestController st \<noteq> None), ai_models := [], ai_model := [], models_shown := False\<rparr>"

definition status_came :: "jstr \<Rightarrow> (jstr \<times> bool \<times> jstr list) list option \<Rightarrow> assistant \<Rightarrow> assistant" where
  \<comment> \<open>the first argument is the model that was chosen before\<close>
  "status_came previous a st =
     (case a of
        None \<Rightarrow> st
      | Some ps \<Rightarrow>
          let ms = ai_models st @ chat_models ps
          in if ms = [] then st
             else st\<lparr>ai_models := ms, ai_model := (if previous \<in> snd ` set ms then previous else snd (hd ms)), models_shown := True\<rparr>)"

section \<open>The machine\<close>

datatype ai_event =
    PromptTyped jstr
  | Send js point
  | AskButton jstr js point                 \<comment> \<open>a button that the assistant has drawn\<close>
  | Starter starter point
  | Prepare jstr                            \<comment> \<open>a question about a place\<close>
  | ServerReply nat "jstr + ai_data" bool bool bool
  | Stop
  | ClearChat
  | TargetButton js nat nat
  | PlaceAsGoal js
  | PlannerEvent route_event
  | PlacesEvent place_event
  | StatusAsked
  | StatusCame jstr "(jstr \<times> bool \<times> jstr list) list option"
  | ModelPicked jstr

fun ai_step :: "(jstr \<Rightarrow> jstr) \<Rightarrow> (real \<Rightarrow> jstr) \<Rightarrow> (js \<Rightarrow> jsnum) \<Rightarrow> ai_event \<Rightarrow> assistant \<Rightarrow> assistant" where
  "ai_step low num number (PromptTyped s) st = st\<lparr>prompt_text := s\<rparr>"
| "ai_step low num number (Send options center) st = sendAIQuery low num number options center st"
| "ai_step low num number (AskButton s options center) st =
     (if aiRequestController st \<noteq> None then st else sendAIQuery low num number options center (st\<lparr>prompt_text := s\<rparr>))"
| "ai_step low num number (Starter k center) st =
     prepareAIQuestion (aiStarterPrompt k center (currentRouteMeta (planner st) \<noteq> None)) st"
| "ai_step low num number (Prepare q) st = prepareAIQuestion q st"
| "ai_step low num number (ServerReply n a addable agrees1 agrees2) st = ai_reply low num number n a addable agrees1 agrees2 st"
| "ai_step low num number Stop st = cancelAIQuery st"
| "ai_step low num number ClearChat st = clear_chat st"
| "ai_step low num number (TargetButton options n i) st = choose_target num number options n i st"
| "ai_step low num number (PlaceAsGoal place) st = place_as_goal num number place st"
| "ai_step low num number (PlannerEvent ev) st = settle (set_planner (route_step num number ev (planner st)) st)"
| "ai_step low num number (PlacesEvent ev) st = st\<lparr>found_places := place_step number ev (found_places st)\<rparr>"
| "ai_step low num number StatusAsked st = status_asked st"
| "ai_step low num number (StatusCame previous a) st = status_came previous a st"
| "ai_step low num number (ModelPicked m) st = (if m \<in> snd ` set (ai_models st) then st\<lparr>ai_model := m\<rparr> else st)"

definition first_assistant :: "jstr option \<Rightarrow> assistant" where
  \<comment> \<open>with the session that was stored\<close>
  "first_assistant stored =
     \<lparr>planner = init_routing, found_places = first_places, detail = None, prompt_text = [], aiRequestController = None,
      aiRequestMessage = None, ai_begun = 0, messages = [], send_disabled = False, stop_hidden = True,
      session = JStr (case stored of None \<Rightarrow> [] | Some s \<Rightarrow> s), stored_session = stored, ai_waiting = [], sent = [],
      ai_models = [], ai_model = [], models_shown = False\<rparr>"

end
