(* ===== verification/AssistantRuns.thy ===== *)
theory AssistantRuns
  imports Assistant
begin

text \<open>
  The runs of the assistant together with the planner and the search of places: the invariant \<open>ai_ok\<close>, its
  preservation, and what holds of every run. \<open>core\<close> is what holds of the assistant itself, and \<open>routes_wait\<close> ties
  the questions that wait for a route to the computations of the planner.
\<close>

section \<open>Invariant\<close>

definition text_ok :: "nat option \<Rightarrow> (nat \<times> ai_wait) list \<Rightarrow> nat \<Rightarrow> bubble_text \<Rightarrow> bool" where
  \<comment> \<open>a message that promises an answer belongs to the question that is open and waits for it\<close>
  "text_ok req waits n t =
     (case t of
        Thinking \<Rightarrow> req = Some n \<and> (\<exists>q. (n, ForServer q) \<in> set waits)
      | Working s \<Rightarrow> s = Recomputed \<or> req = Some n \<and> (\<exists>k. (n, ForRoute k s) \<in> set waits)
      | _ \<Rightarrow> True)"

definition promises :: "bubble_text \<Rightarrow> bool" where
  "promises t = (case t of Thinking \<Rightarrow> True | Working s \<Rightarrow> s \<noteq> Recomputed | _ \<Rightarrow> False)"

definition buttons_ok :: "assistant \<Rightarrow> bool" where
  "buttons_ok st \<longleftrightarrow> aiRequestMessage st = aiRequestController st \<and> stop_hidden st = (aiRequestController st = None)
     \<and> send_disabled st = (aiRequestController st \<noteq> None)"

definition numbers_ok :: "assistant \<Rightarrow> bool" where
  "numbers_ok st \<longleftrightarrow> distinct (map fst (ai_waiting st)) \<and> (\<forall>n \<in> fst ` set (ai_waiting st) \<union> fst ` set (messages st). n < ai_begun st)
     \<and> (\<forall>n. aiRequestController st = Some n \<longrightarrow> n < ai_begun st)"

definition core :: "assistant \<Rightarrow> bool" where
  "core st \<longleftrightarrow> buttons_ok st \<and> numbers_ok st
     \<and> (\<forall>n. aiRequestController st = Some n \<longrightarrow> n \<in> fst ` set (ai_waiting st))
     \<and> (\<forall>(n, b) \<in> set (messages st). text_ok (aiRequestController st) (ai_waiting st) n (b_text b))"

definition routes_wait :: "assistant \<Rightarrow> bool" where
  "routes_wait st \<longleftrightarrow> (\<forall>n k s. (n, ForRoute k s) \<in> set (ai_waiting st) \<longrightarrow> k \<in> fst ` set (calls (planner st)))"

definition ai_ok :: "assistant \<Rightarrow> bool" where
  "ai_ok st \<longleftrightarrow> core st \<and> routes_wait st"

definition open_query :: "nat \<Rightarrow> assistant \<Rightarrow> bool" where
  \<comment> \<open>while the handler of question \<open>n\<close> runs\<close>
  "open_query n st \<longleftrightarrow> buttons_ok st \<and> numbers_ok st \<and> aiRequestController st = Some n \<and> n \<notin> fst ` set (ai_waiting st)
     \<and> (\<forall>(m, b) \<in> set (messages st). m = n \<or> \<not> promises (b_text b))"

definition silent :: "nat \<Rightarrow> assistant \<Rightarrow> bool" where
  "silent n st \<longleftrightarrow> (\<forall>b. (n, b) \<in> set (messages st) \<longrightarrow> \<not> promises (b_text b))"

lemmas core_defs = core_def buttons_ok_def numbers_ok_def

lemma text_promises: "text_ok req waits n t \<Longrightarrow> \<not> promises t \<or> req = Some n"
  by (auto simp: text_ok_def promises_def split: bubble_text.splits)

lemma no_promise: "\<not> promises t \<Longrightarrow> text_ok req waits n t"
  by (auto simp: text_ok_def promises_def split: bubble_text.splits)

lemma core_frame [simp]:
  "core (set_planner p st) = core st" "core (st\<lparr>found_places := pl\<rparr>) = core st" "core (st\<lparr>prompt_text := s\<rparr>) = core st"
  "core (st\<lparr>ai_models := ms, ai_model := m, models_shown := v\<rparr>) = core st" "core (st\<lparr>ai_model := m\<rparr>) = core st"
  by (simp_all add: core_defs set_planner_def)

lemma planner_frame [simp]:
  "planner (set_planner p st) = p" "ai_waiting (set_planner p st) = ai_waiting st"
  "aiRequestController (set_planner p st) = aiRequestController st"
  "planner (say n t st) = planner st" "ai_waiting (say n t st) = ai_waiting st" "aiRequestController (say n t st) = aiRequestController st"
  "planner (forget_query n st) = planner st" "planner (end_query n st) = planner st" "ai_waiting (end_query n st) = ai_waiting st"
  "planner (change_bubble n f st) = planner st" "ai_waiting (change_bubble n f st) = ai_waiting st"
  "aiRequestController (forget_query n st) = aiRequestController st" "planner (after_route n s st) = planner st"
  by (simp_all add: set_planner_def say_def change_bubble_def forget_query_def end_query_def after_route_def)

lemma begun_frame [simp]:
  "ai_begun (set_planner p st) = ai_begun st" "ai_begun (say n t st) = ai_begun st" "ai_begun (forget_query n st) = ai_begun st"
  "ai_begun (end_query n st) = ai_begun st" "ai_begun (change_bubble n f st) = ai_begun st" "ai_begun (after_route n s st) = ai_begun st"
  "sent (set_planner p st) = sent st" "sent (say n t st) = sent st" "sent (forget_query n st) = sent st"
  "sent (end_query n st) = sent st" "sent (change_bubble n f st) = sent st" "sent (after_route n s st) = sent st"
  "session (set_planner p st) = session st" "session (say n t st) = session st" "session (forget_query n st) = session st"
  "session (end_query n st) = session st" "session (change_bubble n f st) = session st" "session (after_route n s st) = session st"
  by (simp_all add: set_planner_def say_def change_bubble_def forget_query_def end_query_def after_route_def)

section \<open>The handler of a question\<close>

lemma open_forget:
  assumes "core st" "aiRequestController st = Some n" shows "open_query n (forget_query n st)"
proof -
  have "m = n \<or> \<not> promises (b_text b)" if "(m, b) \<in> set (messages st)" for m b
    using assms that text_promises by (fastforce simp: core_def)
  then show ?thesis
    using assms by (auto simp: open_query_def core_defs forget_query_def distinct_map_filter)
qed

lemma forget_core:
  assumes "core st" "aiRequestController st \<noteq> Some n" shows "core (forget_query n st)"
proof -
  have "text_ok (aiRequestController st) (filter (\<lambda>p. fst p \<noteq> n) (ai_waiting st)) m (b_text b)"
    if b: "(m, b) \<in> set (messages st)" for m b
  proof -
    have k: "text_ok (aiRequestController st) (ai_waiting st) m (b_text b)" using assms(1) b by (auto simp: core_def)
    then show ?thesis
      using assms(2) text_promises [OF k] no_promise by (cases "m = n") (auto simp: text_ok_def split: bubble_text.splits)
  qed
  then show ?thesis using assms by (auto simp: core_defs forget_query_def distinct_map_filter)
qed

lemma open_end:
  assumes "open_query n st" "silent n st" shows "core (end_query n st)"
proof -
  have "\<not> promises (b_text b)" if "(m, b) \<in> set (messages st)" for m b
    using assms that by (auto simp: open_query_def silent_def)
  then show ?thesis using assms(1) no_promise by (auto simp: open_query_def core_defs end_query_def)
qed

lemma open_begin:
  assumes "core st" "aiRequestController st = None" shows "open_query (ai_begun st) (begin_query st)"
proof -
  have "\<not> promises (b_text b)" if "(m, b) \<in> set (messages st)" for m b
    using assms that text_promises by (fastforce simp: core_def)
  then show ?thesis
    using assms by (auto simp: open_query_def core_defs begin_query_def Let_def intro: less_SucI dest: bspec)
qed

lemma open_frame [simp]:
  "open_query n (set_planner p st) = open_query n st" "silent n (set_planner p st) = silent n st"
  "open_query n (st\<lparr>found_places := pl\<rparr>) = open_query n st" "silent n (st\<lparr>found_places := pl\<rparr>) = silent n st"
  by (simp_all add: open_query_def buttons_ok_def numbers_ok_def silent_def set_planner_def)

lemma open_say: "open_query n st \<Longrightarrow> open_query n (say n t st)"
  by (fastforce simp: open_query_def buttons_ok_def numbers_ok_def say_def change_bubble_def image_iff split: if_splits)

lemma say_silent: "\<not> promises t \<Longrightarrow> silent n (say n t st)"
  by (auto simp: silent_def say_def change_bubble_def split: if_splits)

lemma open_session: "open_query n st \<Longrightarrow> open_query n (setAISessionId num d st)"
  by (simp add: setAISessionId_def Let_def open_query_def buttons_ok_def numbers_ok_def)

lemma open_wait:
  assumes "open_query n st" "\<And>b. (n, b) \<in> set (messages st) \<Longrightarrow> text_ok (Some n) [(n, w)] n (b_text b)"
  shows "core (st\<lparr>ai_waiting := (n, w) # ai_waiting st\<rparr>)"
proof -
  have t: "text_ok (Some n) ((n, w) # ai_waiting st) m (b_text b)" if "(m, b) \<in> set (messages st)" for m b
  proof (cases "m = n")
    case True
    then show ?thesis using assms(2) that by (fastforce simp: text_ok_def split: bubble_text.splits)
  next
    case False
    then have "\<not> promises (b_text b)" using assms(1) that by (auto simp: open_query_def)
    then show ?thesis by (rule no_promise)
  qed
  then show ?thesis using assms(1) by (auto simp: open_query_def core_defs)
qed

lemma said_text: "(n, b) \<in> set (messages (say n t st)) \<Longrightarrow> b_text b = t"
  by (auto simp: say_def change_bubble_def split: if_splits)

lemma messages_frame [simp]: "messages (set_planner p st) = messages st"
  by (simp add: set_planner_def)

lemma begun_text: "core st \<Longrightarrow> (ai_begun st, b) \<in> set (messages (begin_query st)) \<Longrightarrow> b_text b = Thinking"
proof -
  assume "core st"
  then have "\<forall>n\<in>fst ` set (messages st). n < ai_begun st" by (simp add: core_def numbers_ok_def)
  then have "(ai_begun st, b) \<notin> set (messages st)" by force
  then show "(ai_begun st, b) \<in> set (messages (begin_query st)) \<Longrightarrow> b_text b = Thinking"
    by (simp add: begin_query_def Let_def)
qed

section \<open>Questions that wait for a route\<close>

lemma after_route_core:
  assumes "core st" "(n, ForRoute k s) \<in> set (ai_waiting st)"
  shows "core (after_route n s st)"
proof (cases "aiRequestController st = Some n")
  case True
  note o = open_forget [OF assms(1) True]
  show ?thesis
  proof (cases "s = Recomputed")
    case False
    then show ?thesis
      using open_end [OF open_say [OF o] say_silent] by (simp add: after_route_def promises_def)
  next
    case R: True
    have "\<not> promises (b_text b)" if b: "(n, b) \<in> set (messages st)" for b
    proof
      assume p: "promises (b_text b)"
      have "text_ok (aiRequestController st) (ai_waiting st) n (b_text b)" using assms(1) b by (auto simp: core_def)
      then obtain w where w: "(n, w) \<in> set (ai_waiting st)" "w \<noteq> ForRoute k Recomputed"
        using p by (auto simp: text_ok_def promises_def split: bubble_text.splits)
      moreover have "distinct (map fst (ai_waiting st))" using assms(1) by (simp add: core_defs)
      ultimately show False using assms(2) R eq_key_imp_eq_value by fast
    qed
    then have "silent n (forget_query n st)" by (simp add: silent_def forget_query_def)
    then show ?thesis using open_end [OF o] R by (simp add: after_route_def)
  qed
next
  case False
  have "core (forget_query n st)" using forget_core [OF assms(1) False] .
  moreover have "core (say n (Computed s d) st')" if "core st'" for d st'
    using that by (fastforce simp: core_defs say_def change_bubble_def image_iff no_promise promises_def split: if_splits)
  ultimately show ?thesis using False by (simp add: after_route_def end_query_def)
qed

definition waits_on :: "assistant \<Rightarrow> nat \<times> ai_wait \<Rightarrow> bool" where
  "waits_on st p = (case snd p of ForServer _ \<Rightarrow> True | ForRoute k _ \<Rightarrow> k \<in> fst ` set (calls (planner st)))"

lemma settle_one_waiting:
  "ai_waiting (settle_one p st) = (if waits_on st p then ai_waiting st else filter (\<lambda>q. fst q \<noteq> fst p) (ai_waiting st))"
  "planner (settle_one p st) = planner st"
  by (cases p; simp add: settle_one_def waits_on_def after_route_def forget_query_def split: ai_wait.split)+

lemma settle_one_core:
  "core st \<Longrightarrow> p \<in> set (ai_waiting st) \<Longrightarrow> core (settle_one p st)"
  by (cases p) (auto simp: settle_one_def after_route_core split: ai_wait.split)

lemma settle_run:
  assumes "core st" "set ws \<subseteq> set (ai_waiting st)" "distinct (map fst ws)"
  shows "core (fold settle_one ws st) \<and> planner (fold settle_one ws st) = planner st
    \<and> (\<forall>p\<in>set (ai_waiting (fold settle_one ws st)). p \<in> set (ai_waiting st) \<and> (p \<in> set ws \<longrightarrow> waits_on st p))"
  using assms
proof (induction ws arbitrary: st)
  case (Cons p ws)
  let ?st = "settle_one p st"
  have sub: "set ws \<subseteq> set (ai_waiting ?st)"
  proof
    fix q assume q: "q \<in> set ws"
    then have "fst q \<noteq> fst p" using Cons.prems(3) by (metis image_eqI list.simps(9) distinct.simps(2) list.set_map)
    moreover have "q \<in> set (ai_waiting st)" using q Cons.prems(2) by auto
    ultimately show "q \<in> set (ai_waiting ?st)" by (simp add: settle_one_waiting)
  qed
  have "core ?st" using settle_one_core Cons.prems by simp
  note IH = Cons.IH [OF this sub]
  have same: "waits_on ?st = waits_on st" by (auto simp: waits_on_def fun_eq_iff settle_one_waiting(2) split: ai_wait.split)
  have sub': "set (ai_waiting ?st) \<subseteq> set (ai_waiting st)" by (auto simp: settle_one_waiting)
  have gone: "p \<in> set (ai_waiting ?st) \<Longrightarrow> waits_on st p" by (auto simp: settle_one_waiting split: if_splits)
  show ?case using IH Cons.prems(3) sub' gone by (auto simp: same settle_one_waiting(2))
qed simp

lemma core_distinct: "core st \<Longrightarrow> distinct (map fst (ai_waiting st))"
  by (simp add: core_def numbers_ok_def)

lemma settle_ok: "core st \<Longrightarrow> ai_ok (settle st)"
proof -
  assume c: "core st"
  note r = settle_run [OF c subset_refl core_distinct [OF c]]
  have "k \<in> fst ` set (calls (planner (settle st)))" if "(n, ForRoute k s) \<in> set (ai_waiting (settle st))" for n k s
  proof -
    have "waits_on st (n, ForRoute k s)" using r that unfolding settle_def by blast
    then show ?thesis using r by (simp add: waits_on_def settle_def)
  qed
  then have "routes_wait (settle st)" unfolding routes_wait_def by blast
  then show ?thesis using r by (simp add: ai_ok_def settle_def)
qed

lemma planner_settle [simp]: "core st \<Longrightarrow> planner (settle st) = planner st"
  using settle_run [OF _ subset_refl core_distinct, of st] by (simp add: settle_def)

section \<open>What an answer leaves alone\<close>

definition texts :: "assistant \<Rightarrow> (nat \<times> bubble_text) list" where
  "texts st = map (\<lambda>(n, b). (n, b_text b)) (messages st)"

definition keeps :: "assistant \<Rightarrow> assistant \<Rightarrow> bool" where
  "keeps st st' \<longleftrightarrow> calls (planner st') = calls (planner st) \<and> ai_waiting st' = ai_waiting st \<and> texts st' = texts st
     \<and> aiRequestController st' = aiRequestController st \<and> aiRequestMessage st' = aiRequestMessage st
     \<and> stop_hidden st' = stop_hidden st \<and> send_disabled st' = send_disabled st \<and> ai_begun st' = ai_begun st \<and> sent st' = sent st
     \<and> session st' = session st"

lemma keeps_refl [simp]: "keeps st st"
  by (simp add: keeps_def)

lemma keeps_trans: "keeps a b \<Longrightarrow> keeps b c \<Longrightarrow> keeps a c"
  by (simp add: keeps_def)

lemma texts_in: "(n, t) \<in> set (texts st) \<longleftrightarrow> (\<exists>b. (n, b) \<in> set (messages st) \<and> b_text b = t)"
  by (force simp: texts_def)

lemma texts_numbers: "fst ` set (messages st) = fst ` set (texts st)"
  by (force simp: texts_def)

lemma open_texts:
  "open_query n st \<longleftrightarrow> buttons_ok st \<and> aiRequestController st = Some n \<and> n \<notin> fst ` set (ai_waiting st)
     \<and> distinct (map fst (ai_waiting st)) \<and> (\<forall>n \<in> fst ` set (ai_waiting st) \<union> fst ` set (texts st). n < ai_begun st) \<and> n < ai_begun st
     \<and> (\<forall>m t. (m, t) \<in> set (texts st) \<longrightarrow> m = n \<or> \<not> promises t)"
proof -
  have "(\<forall>(m, b) \<in> set (messages st). m = n \<or> \<not> promises (b_text b))
      \<longleftrightarrow> (\<forall>m t. (m, t) \<in> set (texts st) \<longrightarrow> m = n \<or> \<not> promises t)"
    unfolding texts_in by blast
  then show ?thesis unfolding open_query_def numbers_ok_def texts_numbers by auto
qed

lemma silent_texts: "silent n st \<longleftrightarrow> (\<forall>t. (n, t) \<in> set (texts st) \<longrightarrow> \<not> promises t)"
  by (auto simp: silent_def texts_in)

lemma keeps_open: "keeps st st' \<Longrightarrow> open_query n st \<Longrightarrow> open_query n st'"
  by (simp add: keeps_def open_texts buttons_ok_def)

lemma keeps_silent: "keeps st st' \<Longrightarrow> silent n st \<Longrightarrow> silent n st'"
  by (simp add: keeps_def silent_texts)

lemma keeps_planner: "calls p = calls (planner st) \<Longrightarrow> keeps st (set_planner p st)"
  by (simp add: keeps_def set_planner_def texts_def)

lemma keeps_places: "keeps st (st\<lparr>found_places := pl\<rparr>)"
  by (simp add: keeps_def texts_def)

lemma calls_frame [simp]:
  "calls (put_field e f p) = calls p" "calls (setRouteEditing b p) = calls p" "calls (renderPath ps r p) = calls p"
  "calls (cancelRouteComputation p) = calls p" "calls (addWaypoint s p) = calls p" "calls (addWaypointWithValue s p) = calls p"
  "calls (setRouteError m p) = calls p" "calls (put_choices e c p) = calls p" "calls (finish n p) = calls p" "calls (refuse x msg n p) = calls p"
  by (auto simp: put_field_def setRouteEditing_def renderPath_def cancelRouteComputation_def setComputeDisabled_def addWaypoint_def
      addWaypointWithValue_def setRouteError_def put_choices_def finish_def refuse_def Let_def split: route_end.split list.split)

lemma calls_compute: "set (calls p) \<subseteq> set (calls (compute number options p))"
proof -
  have "calls (begun p) = calls p" by (simp add: begun_def Let_def setComputeDisabled_def)
  then show ?thesis using compute_begun [of number options p] by (auto simp: ask_server_def)
qed

lemma calls_take_end: "take_end num number e v p = Inl (x, p') \<or> take_end num number e v p = Inr p' \<Longrightarrow> calls p' = calls p"
  by (auto simp: take_end_def split: if_splits sum.splits prod.splits)

lemma calls_ends: "calls (ends_of_route num number d p) = calls p"
  using calls_take_end by (simp add: ends_of_route_def split: sum.split prod.split) (metis calls_take_end)

lemma calls_stops: "calls (whatever (add_stops num vs p)) = calls p"
  by (induction num vs p rule: add_stops.induct) (auto simp: whatever_def split: option.split)

lemma calls_set_end: "calls (whatever (set_end num number e v p)) = calls p"
  by (auto simp: set_end_def whatever_def Let_def split: sum.split prod.split bool.split option.split)

lemma keeps_on_planner: "calls (whatever (f (planner st))) = calls (planner st) \<Longrightarrow> keeps st (whatever (on_planner f st))"
  by (cases "f (planner st)") (auto simp: on_planner_def whatever_def keeps_planner)

lemma keeps_confirmed: "keeps st (whatever (confirmed_stops num agrees vs st))"
  using keeps_on_planner [of "add_stops num vs" st, OF calls_stops]
  by (simp add: confirmed_stops_def whatever_def)

lemma keeps_bind:
  "keeps st (whatever r) \<Longrightarrow> (\<And>s. keeps st s \<Longrightarrow> keeps st (whatever (f s))) \<Longrightarrow> keeps st (whatever (bindr r f))"
  by (cases r) (auto simp: whatever_def)

lemma keeps_fill: "keeps st (fill_form num number agrees d st)"
  unfolding fill_form_def
  by (intro keeps_bind keeps_on_planner calls_set_end)
    (blast intro: keeps_trans keeps_on_planner calls_set_end keeps_confirmed)+

lemma keeps_route: "keeps st (take_route num number d st)"
  by (auto simp: take_route_def calls_ends intro!: keeps_planner split: option.split list.split)

lemma keeps_offer: "keeps st (whatever (offer n d ss st))"
proof -
  have "texts (change_bubble n (\<lambda>b. b\<lparr>b_offers := x, b_from := q\<rparr>) st) = texts st" for x q
    by (simp add: texts_def change_bubble_def comp_def split_beta)
  then show ?thesis by (simp add: offer_def whatever_def Let_def) (simp add: keeps_def change_bubble_def texts_def)
qed

lemma keeps_suggestions: "keeps st (whatever (take_suggestions low num number addable agrees n prompt d st))"
proof -
  have p: "keeps st (whatever (offer n d ss (st\<lparr>found_places := pl\<rparr>)))"
    "keeps st (whatever (confirmed_stops num agrees vs (st\<lparr>found_places := pl\<rparr>)))" for ss vs pl
    using keeps_trans [OF keeps_places keeps_offer] keeps_trans [OF keeps_places keeps_confirmed] by blast+
  show ?thesis
    by (auto simp: take_suggestions_def Let_def p split: list.split option.split) (simp_all add: whatever_def keeps_places)
qed

lemma take_answer_open:
  assumes "open_query n st"
  shows "core (end_query n (take_answer low num number addable agrees1 agrees2 n prompt d st))"
    "calls (planner (take_answer low num number addable agrees1 agrees2 n prompt d st)) = calls (planner st)"
    "ai_waiting (take_answer low num number addable agrees1 agrees2 n prompt d st) = ai_waiting st"
    "ai_begun (take_answer low num number addable agrees1 agrees2 n prompt d st) = ai_begun st"
    "aiRequestController (take_answer low num number addable agrees1 agrees2 n prompt d st) = aiRequestController st"
    "sent (take_answer low num number addable agrees1 agrees2 n prompt d st) = sent st"
proof -
  let ?fin = "take_answer low num number addable agrees1 agrees2 n prompt d st"
  have "\<exists>s t. open_query n s \<and> \<not> promises t \<and> keeps (say n t s) ?fin \<and> planner s = planner st \<and> ai_waiting s = ai_waiting st
      \<and> ai_begun s = ai_begun st \<and> aiRequestController s = aiRequestController st \<and> sent s = sent st"
  proof (cases "nullish (a_data d)")
    case True
    then show ?thesis
      using assms by (auto simp: take_answer_def promises_def intro!: exI [of _ st] exI [of _ Broken])
  next
    case False
    let ?s = "setAISessionId num (a_data d) st"
    have s: "open_query n ?s" "planner ?s = planner st" "ai_waiting ?s = ai_waiting st"
      "ai_begun ?s = ai_begun st" "aiRequestController ?s = aiRequestController st" "sent ?s = sent st"
      using open_session [OF assms] by (simp_all add: setAISessionId_def Let_def)
    show ?thesis
    proof (cases "answer_html (a_data d)")
      case None
      then show ?thesis
        using False s by (auto simp: take_answer_def Let_def promises_def intro!: exI [of _ ?s] exI [of _ Broken])
    next
      case (Some html)
      obtain p m r where h: "html = (p, m, r)" by (cases html)
      let ?a = "take_suggestions low num number addable agrees1 n prompt (a_data d) (take_route num number d (say n (Answer p m r) ?s))"
      have "keeps (say n (Answer p m r) ?s) (whatever ?a)"
        using keeps_trans [OF keeps_route keeps_suggestions] .
      then have "keeps (say n (Answer p m r) ?s) (whatever (bindr ?a (\<lambda>st. Inr (fill_form num number agrees2 (a_data d) st))))"
        by (rule keeps_bind) (simp add: whatever_def, blast intro: keeps_trans keeps_fill)
      then show ?thesis
        using False Some h s by (auto simp: take_answer_def Let_def promises_def intro!: exI [of _ ?s] exI [of _ "Answer p m r"])
    qed
  qed
  then obtain s t where s: "open_query n s" "\<not> promises t" "keeps (say n t s) ?fin" "planner s = planner st" "ai_waiting s = ai_waiting st"
    "ai_begun s = ai_begun st" "aiRequestController s = aiRequestController st" "sent s = sent st"
    by blast
  show "core (end_query n ?fin)"
    using open_end [OF keeps_open [OF s(3) open_say [OF s(1)]] keeps_silent [OF s(3) say_silent [OF s(2)]]] .
  show "calls (planner ?fin) = calls (planner st)" "ai_waiting ?fin = ai_waiting st"
    "ai_begun ?fin = ai_begun st" "aiRequestController ?fin = aiRequestController st" "sent ?fin = sent st"
    using s(3-) by (simp_all add: keeps_def)
qed

section \<open>Every step keeps the invariant\<close>

lemma routes_wait_sub:
  "routes_wait st \<Longrightarrow> set (ai_waiting st') \<subseteq> set (ai_waiting st) \<Longrightarrow> set (calls (planner st)) \<subseteq> set (calls (planner st')) \<Longrightarrow> routes_wait st'"
  unfolding routes_wait_def by blast

lemma reply_keeps_ok:
  assumes "ai_ok st" shows "ai_ok (ai_reply low num number n a addable agrees1 agrees2 st)"
proof (cases "\<exists>q. map_of (ai_waiting st) n = Some (ForServer q)")
  case True
  then obtain q where q: "map_of (ai_waiting st) n = Some (ForServer q)" by blast
  have c: "core st" "routes_wait st" using assms by (simp_all add: ai_ok_def)
  show ?thesis
  proof (cases "aiRequestController st = Some n")
    case True
    note o = open_forget [OF c(1) True]
    show ?thesis
    proof (cases a)
      case (Inl e)
      then show ?thesis
        using q True open_end [OF open_say [OF o] say_silent] routes_wait_sub [OF c(2)]
        by (simp add: ai_reply_def Let_def ai_ok_def promises_def) (simp add: forget_query_def)
    next
      case (Inr d)
      note t = take_answer_open [OF o, of low num number addable agrees1 agrees2 q d]
      have "routes_wait (end_query n (take_answer low num number addable agrees1 agrees2 n q d (forget_query n st)))"
        by (rule routes_wait_sub [OF c(2)]) (simp_all add: t(2,3), simp add: forget_query_def)
      then show ?thesis using q True Inr t(1) by (simp add: ai_reply_def Let_def ai_ok_def)
    qed
  next
    case False
    have "core (forget_query n st)" using forget_core [OF c(1) False] .
    moreover have "routes_wait (forget_query n st)" by (rule routes_wait_sub [OF c(2)]) (auto simp: forget_query_def)
    ultimately show ?thesis using q False by (simp add: ai_reply_def Let_def ai_ok_def)
  qed
next
  case False
  then show ?thesis using assms by (auto simp: ai_reply_def split: option.split ai_wait.split)
qed

lemma cancel_query_ok:
  assumes "ai_ok st" shows "ai_ok (cancelAIQuery st)" "aiRequestController (cancelAIQuery st) = None"
proof -
  let ?c = "case aiRequestMessage st of None \<Rightarrow> st | Some n \<Rightarrow> say n Cancelled st"
  have c: "core st" "routes_wait st" "aiRequestMessage st = aiRequestController st"
    using assms by (simp_all add: ai_ok_def core_def buttons_ok_def)
  have "\<not> promises (b_text b)" if "(m, b) \<in> set (messages ?c)" for m b
  proof (cases "aiRequestController st")
    case None
    then show ?thesis using that c text_promises by (fastforce simp: core_def)
  next
    case (Some n)
    then have "\<not> promises (b_text b')" if "m \<noteq> n" "(m, b') \<in> set (messages st)" for b'
      using that c(1) text_promises by (fastforce simp: core_def)
    then show ?thesis
      using that Some c(3) by (auto simp: say_def change_bubble_def promises_def split: if_splits)
  qed
  moreover have "fst ` set (messages ?c) = fst ` set (messages st)"
    by (force simp: say_def change_bubble_def split: option.split)
  ultimately have "core (?c\<lparr>aiRequestController := None, aiRequestMessage := None, send_disabled := False, stop_hidden := True\<rparr>)"
    using c(1) no_promise by (auto simp: core_defs split: option.split)
  then show "ai_ok (cancelAIQuery st)"
    using c(2) by (auto simp: cancelAIQuery_def Let_def ai_ok_def routes_wait_def split: option.split)
  show "aiRequestController (cancelAIQuery st) = None" by (simp add: cancelAIQuery_def Let_def)
qed

lemma ask_route_ok:
  assumes "core st" "aiRequestController st = None"
  shows "ai_ok (ask_route number options (ai_begun st) p (begin_query st))"
proof -
  let ?n = "ai_begun st"
  let ?s = "set_planner (compute number options (fst p)) (say ?n (Working (snd p)) (begin_query st))"
  have "open_query ?n ?s" using open_say [OF open_begin [OF assms]] by simp
  moreover have "text_ok (Some ?n) [(?n, ForRoute k (snd p))] ?n (b_text b)" if "(?n, b) \<in> set (messages ?s)" for b k
    using said_text [of ?n b "Working (snd p)" "begin_query st"] that by (simp add: text_ok_def)
  ultimately have "core (?s\<lparr>ai_waiting := (?n, ForRoute k (snd p)) # ai_waiting ?s\<rparr>)" for k by (rule open_wait)
  then show ?thesis using settle_ok by (simp add: ask_route_def Let_def)
qed

lemma send_ok:
  assumes "ai_ok st" shows "ai_ok (sendAIQuery low num number options center st)"
proof (cases "trim (prompt_text st) = [] \<or> aiRequestController st \<noteq> None")
  case False
  then have none: "aiRequestController st = None" by simp
  have c: "core st" "routes_wait st" using assms by (simp_all add: ai_ok_def)
  let ?n = "ai_begun st" and ?b = "begin_query st"
  note o = open_begin [OF c(1) none]
  have b: "planner ?b = planner st" "ai_waiting ?b = ai_waiting st" by (simp_all add: begin_query_def Let_def)
  have said: "ai_ok (end_query ?n (say ?n t ?b))" if "\<not> promises t" for t
    using open_end [OF open_say [OF o] say_silent [OF that]] routes_wait_sub [OF c(2)] by (simp add: ai_ok_def b)
  have "core (?b\<lparr>ai_waiting := (?n, ForServer q) # ai_waiting ?b\<rparr>)" for q
    using open_wait [OF o, of "ForServer q"] begun_text [OF c(1)] by (simp add: text_ok_def)
  then have server: "core (?b\<lparr>sent := x, ai_waiting := (?n, ForServer q) # ai_waiting ?b\<rparr>)" for q x
    by (simp add: core_defs)
  have "routes_wait (?b\<lparr>sent := x, ai_waiting := (?n, ForServer q) # ai_waiting ?b\<rparr>)" for q x
    using c(2) by (auto simp: routes_wait_def b)
  then show ?thesis
    using False said ask_route_ok [OF c(1) none] server
    by (simp add: sendAIQuery_def Let_def promises_def ai_ok_def split: intent.split)
qed (use assms in \<open>simp add: sendAIQuery_def Let_def\<close>)

lemma planner_grows_ok:
  assumes "ai_ok st" "set (calls (planner st)) \<subseteq> set (calls p)" shows "ai_ok (set_planner p st)"
  using assms routes_wait_sub [of st "set_planner p st"] by (simp add: ai_ok_def)

lemma target_ok:
  assumes "ai_ok st" shows "ai_ok (choose_target num number options n i st)"
proof -
  have "core (set_planner p st)" for p using assms by (simp add: ai_ok_def)
  note k = settle_ok [OF this]
  show ?thesis
    using assms k planner_grows_ok [OF assms]
    by (simp add: choose_target_def Let_def split: option.split sum.split prod.split bool.split)
qed

lemma place_goal_ok:
  assumes "ai_ok st" shows "ai_ok (place_as_goal num number place st)"
  unfolding place_as_goal_def Let_def
  by (rule planner_grows_ok [OF assms]) (simp split: sum.split prod.split)

lemma ai_frame [simp]:
  "ai_ok (st\<lparr>prompt_text := s\<rparr>) = ai_ok st" "ai_ok (st\<lparr>found_places := pl\<rparr>) = ai_ok st" "ai_ok (st\<lparr>ai_model := m\<rparr>) = ai_ok st"
  "ai_ok (st\<lparr>ai_models := ms, ai_model := m, models_shown := v\<rparr>) = ai_ok st"
  by (simp_all add: ai_ok_def routes_wait_def)

lemma ai_step_ok: "ai_ok st \<Longrightarrow> ai_ok (ai_step low num number ev st)"
proof (cases ev)
  case (PlannerEvent e)
  assume "ai_ok st"
  then show ?thesis using PlannerEvent settle_ok by (simp add: ai_ok_def)
next
  case ClearChat
  assume "ai_ok st"
  then have "ai_ok (cancelAIQuery st)" by (rule cancel_query_ok)
  then show ?thesis using ClearChat by (simp add: clear_chat_def ai_ok_def core_defs routes_wait_def)
next
  case StatusAsked
  assume "ai_ok st"
  then show ?thesis using StatusAsked by (simp add: status_asked_def ai_ok_def core_defs routes_wait_def)
qed (simp_all add: send_ok reply_keeps_ok cancel_query_ok target_ok place_goal_ok prepareAIQuestion_def status_came_def Let_def
      split: option.split)

lemma first_ai_ok: "ai_ok (first_assistant stored)"
  by (simp add: first_assistant_def ai_ok_def core_defs routes_wait_def)

lemma ai_run_ok: "ai_ok st \<Longrightarrow> ai_ok (fold (ai_step low num number) evs st)"
  by (induction evs arbitrary: st) (simp_all add: ai_step_ok)

section \<open>One question at a time\<close>

lemma after_route_request: "aiRequestController (after_route n s st) = (if aiRequestController st = Some n then None else aiRequestController st)"
  by (simp add: after_route_def end_query_def forget_query_def say_def change_bubble_def)

lemma settle_run_request:
  "aiRequestController (fold settle_one ws st) \<in> {None, aiRequestController st} \<and> ai_begun (fold settle_one ws st) = ai_begun st
   \<and> sent (fold settle_one ws st) = sent st \<and> session (fold settle_one ws st) = session st"
proof (induction ws arbitrary: st)
  case (Cons p ws)
  have "aiRequestController (settle_one p st) \<in> {None, aiRequestController st} \<and> ai_begun (settle_one p st) = ai_begun st
     \<and> sent (settle_one p st) = sent st \<and> session (settle_one p st) = session st"
    by (cases p) (simp add: settle_one_def after_route_request split: ai_wait.split)
  then show ?case using Cons [of "settle_one p st"] by auto
qed simp

lemmas settle_request = settle_run_request [where ws = "ai_waiting st" and st = st for st, folded settle_def]

lemma settle_frame [simp]:
  "ai_begun (settle st) = ai_begun st" "sent (settle st) = sent st" "session (settle st) = session st"
  using settle_request by blast+

definition request_moves :: "assistant \<Rightarrow> assistant \<Rightarrow> bool" where
  "request_moves st st' \<longleftrightarrow>
     ai_begun st' = ai_begun st \<and> aiRequestController st' \<in> {None, aiRequestController st}
     \<or> ai_begun st' = Suc (ai_begun st) \<and> aiRequestController st' \<in> {None, Some (ai_begun st)}"

lemma request_same: "ai_begun st' = ai_begun st \<Longrightarrow> aiRequestController st' \<in> {None, aiRequestController st} \<Longrightarrow> request_moves st st'"
  by (simp add: request_moves_def)

lemma settle_moves: "aiRequestController (settle st) = None \<or> aiRequestController (settle st) = aiRequestController st"
  using settle_request [of st] by auto

lemma end_moves: "aiRequestController (end_query n st) = None \<or> aiRequestController (end_query n st) = aiRequestController st"
  by (simp add: end_query_def)

lemma send_moves: "request_moves st (sendAIQuery low num number options center st)"
proof -
  have b: "ai_begun (begin_query st) = Suc (ai_begun st)" "aiRequestController (begin_query st) = Some (ai_begun st)"
    by (simp_all add: begin_query_def Let_def)
  have e: "request_moves st (end_query (ai_begun st) (say (ai_begun st) t (begin_query st)))" for t
    by (simp add: request_moves_def b end_query_def)
  have "request_moves st (ask_route number options (ai_begun st) p (begin_query st))" for p
    using settle_moves [of "(set_planner (compute number options (fst p)) (say (ai_begun st) (Working (snd p)) (begin_query st)))
        \<lparr>ai_waiting := (ai_begun st, ForRoute (controllers (fst p)) (snd p)) # ai_waiting (begin_query st)\<rparr>"] b
    by (auto simp: request_moves_def ask_route_def Let_def)
  then show ?thesis
    using e b by (simp add: sendAIQuery_def Let_def request_same split: intent.split) (simp add: request_moves_def)
qed

lemma cancel_moves: "request_moves st (cancelAIQuery st)" "sent (cancelAIQuery st) = sent st"
  "ai_begun (cancelAIQuery st) = ai_begun st"
  by (auto simp: request_moves_def cancelAIQuery_def Let_def split: option.split)

lemma reply_moves:
  assumes "ai_ok st"
  shows "request_moves st (ai_reply low num number n a addable agrees1 agrees2 st)"
    "sent (ai_reply low num number n a addable agrees1 agrees2 st) = sent st"
proof -
  have o: "open_query n (forget_query n st)" if "aiRequestController st = Some n"
    using assms that open_forget by (simp add: ai_ok_def)
  have "ai_begun (ai_reply low num number n a addable agrees1 agrees2 st) = ai_begun st
      \<and> aiRequestController (ai_reply low num number n a addable agrees1 agrees2 st) \<in> {None, aiRequestController st}
      \<and> sent (ai_reply low num number n a addable agrees1 agrees2 st) = sent st"
    using take_answer_open(4-6) [OF o]
    by (simp add: ai_reply_def Let_def end_query_def split: option.split ai_wait.split sum.split)
  then show "request_moves st (ai_reply low num number n a addable agrees1 agrees2 st)"
    "sent (ai_reply low num number n a addable agrees1 agrees2 st) = sent st"
    by (auto intro: request_same)
qed

lemma target_moves: "request_moves st (choose_target num number options n i st)" "sent (choose_target num number options n i st) = sent st"
  "session (choose_target num number options n i st) = session st"
proof -
  have "request_moves st (settle (set_planner p st))" for p
    using settle_moves [of "set_planner p st"] by (intro request_same) auto
  moreover have "request_moves st (set_planner p st)" "request_moves st st" for p by (simp_all add: request_moves_def)
  ultimately show "request_moves st (choose_target num number options n i st)"
    by (simp add: choose_target_def Let_def split: option.split sum.split prod.split bool.split)
  show "sent (choose_target num number options n i st) = sent st" "session (choose_target num number options n i st) = session st"
    by (simp_all add: choose_target_def Let_def split: option.split sum.split prod.split bool.split)
qed

lemma ai_step_moves: "ai_ok st \<Longrightarrow> request_moves st (ai_step low num number ev st)"
proof (cases ev)
  case (PlannerEvent e)
  then show ?thesis
    using settle_moves [of "set_planner (route_step num number e (planner st)) st"] by (simp add: request_moves_def)
next
  case (AskButton s options center)
  then show ?thesis
    using send_moves [of "st\<lparr>prompt_text := s\<rparr>" low num number options center] by (auto simp: request_moves_def)
next
  case ClearChat
  then show ?thesis using cancel_moves(1) [of st] by (simp add: clear_chat_def request_moves_def)
qed (auto simp: send_moves reply_moves cancel_moves(1) target_moves place_as_goal_def status_asked_def
      status_came_def prepareAIQuestion_def Let_def intro!: request_same split: option.split)

interpretation questions: latest_wins aiRequestController "\<lambda>st. {..<ai_begun st}" "ai_step low num number" ai_ok
  for low num number
proof
  fix st :: assistant and t
  show "ai_ok st \<Longrightarrow> aiRequestController st = Some t \<Longrightarrow> t \<in> {..<ai_begun st}" by (auto simp: ai_ok_def core_def numbers_ok_def)
next
  fix st ev
  assume ok: "ai_ok st"
  show "ai_ok (ai_step low num number ev st)" using ok by (rule ai_step_ok)
  show "{..<ai_begun st} \<subseteq> {..<ai_begun (ai_step low num number ev st)}"
    using ai_step_moves [OF ok, of low num number ev] by (auto simp: request_moves_def)
  show "aiRequestController (ai_step low num number ev st) = Some t \<Longrightarrow> t \<in> {..<ai_begun st} \<Longrightarrow> aiRequestController st = Some t" for t
    using ai_step_moves [OF ok, of low num number ev] by (auto simp: request_moves_def)
qed

section \<open>The session\<close>

lemma ask_route_frame [simp]:
  "sent (ask_route number options n p st) = sent st" "session (ask_route number options n p st) = session st"
  by (simp_all add: ask_route_def Let_def)

lemma send_session:
  "session (sendAIQuery low num number options center st) = session st"
  "sent (sendAIQuery low num number options center st) = sent st
   \<or> (\<exists>q. sent (sendAIQuery low num number options center st) = q # sent st
        \<and> q_session q = (if truthy (session st) then session st else JUndef))"
  by (simp_all add: sendAIQuery_def begin_query_def payload_of_def Let_def split: intent.split)

definition forgotten :: "nat \<Rightarrow> assistant \<Rightarrow> bool" where
  \<comment> \<open>no question from before number \<open>m\<close> is open, and there is no session\<close>
  "forgotten m st \<longleftrightarrow> ai_ok st \<and> session st = JStr [] \<and> m \<le> ai_begun st \<and> (\<forall>n. aiRequestController st = Some n \<longrightarrow> m \<le> n)"

definition late_reply :: "nat \<Rightarrow> ai_event \<Rightarrow> bool" where
  \<comment> \<open>not the answer to a question that has number \<open>m\<close> or a later one\<close>
  "late_reply m ev \<longleftrightarrow> (case ev of ServerReply n _ _ _ _ \<Rightarrow> n < m | _ \<Rightarrow> True)"

lemma forgotten_step:
  assumes "forgotten m st" "late_reply m ev"
  shows "forgotten m (ai_step low num number ev st)"
    "\<exists>new. sent (ai_step low num number ev st) = new @ sent st \<and> (\<forall>q\<in>set new. q_session q = JUndef)"
proof -
  have ok: "ai_ok st" and s: "session st = JStr []" using assms(1) by (simp_all add: forgotten_def)
  have r: "session (ai_reply low num number n a x y z st) = session st" if "n < m" for n a x y z
    using that assms(1) by (auto simp: forgotten_def ai_reply_def Let_def split: option.split ai_wait.split)
  have "session (ai_step low num number ev st) = JStr []"
    using s assms(2) r
    by (cases ev) (simp_all add: late_reply_def send_session target_moves clear_chat_def cancelAIQuery_def place_as_goal_def status_asked_def
        status_came_def prepareAIQuestion_def Let_def split: option.split)
  then show "forgotten m (ai_step low num number ev st)"
    using assms(1) ai_step_ok [OF ok] ai_step_moves [OF ok, of low num number ev] by (auto simp: forgotten_def request_moves_def)
  have one: "\<exists>new. sent (sendAIQuery low num number options center st') = new @ sent st \<and> (\<forall>q\<in>set new. q_session q = JUndef)"
    if "sent st' = sent st" "session st' = JStr []" for options center st'
    using send_session(2) [of low num number options center st'] that by (auto intro: exI [of _ "[_]"])
  show "\<exists>new. sent (ai_step low num number ev st) = new @ sent st \<and> (\<forall>q\<in>set new. q_session q = JUndef)"
    using one s reply_moves(2) [OF ok]
    by (cases ev) (simp_all add: target_moves clear_chat_def cancel_moves(2) place_as_goal_def status_asked_def
        status_came_def prepareAIQuestion_def Let_def split: option.split)
qed

lemma forgotten_run:
  "forgotten m st \<Longrightarrow> list_all (late_reply m) evs \<Longrightarrow>
   \<exists>new. sent (fold (ai_step low num number) evs st) = new @ sent st \<and> (\<forall>q\<in>set new. q_session q = JUndef)"
proof (induction evs arbitrary: st)
  case (Cons ev evs)
  then obtain n1 where 1: "sent (ai_step low num number ev st) = n1 @ sent st" "\<forall>q\<in>set n1. q_session q = JUndef"
    using forgotten_step(2) [of m st ev low num number] by auto
  obtain n2 where 2: "sent (fold (ai_step low num number) evs (ai_step low num number ev st)) = n2 @ sent (ai_step low num number ev st)"
    "\<forall>q\<in>set n2. q_session q = JUndef"
    using Cons.IH [OF forgotten_step(1) [of m st ev low num number]] Cons.prems by auto
  show ?case using 1 2 by (auto intro!: exI [of _ "n2 @ n1"])
qed simp

section \<open>A question ends\<close>

lemma settle_ends:
  assumes "core st" "aiRequestController st = Some n" "(n, ForRoute k s) \<in> set (ai_waiting st)" "k \<notin> fst ` set (calls (planner st))"
  shows "aiRequestController (settle st) = None"
proof -
  have gone: "aiRequestController (fold settle_one ws st) = None" if "aiRequestController st = None" for ws and st :: assistant
    using settle_run_request [of ws st] that by auto
  have same: "planner (settle_one p st) = planner st" for p st by (rule settle_one_waiting(2))
  have "aiRequestController (fold settle_one ws st) = None"
    if "(n, ForRoute k s) \<in> set ws" "k \<notin> fst ` set (calls (planner st))" "aiRequestController st = Some n" for ws and st :: assistant
    using that
  proof (induction ws arbitrary: st)
    case (Cons p ws)
    show ?case
    proof (cases "p = (n, ForRoute k s) \<or> aiRequestController (settle_one p st) = None")
      case True
      then have "aiRequestController (settle_one p st) = None"
        using Cons.prems by (auto simp: settle_one_def after_route_request)
      then show ?thesis using gone by simp
    next
      case False
      then have "aiRequestController (settle_one p st) = Some n"
        using settle_run_request [of "[p]" st] Cons.prems(3) by auto
      then show ?thesis using Cons False by (auto simp: same)
    qed
  qed simp
  then show ?thesis using assms unfolding settle_def by blast
qed

lemma calls_disabled [simp]: "calls (setComputeDisabled b p) = calls p" "calls (renderManeuvers js p) = calls p"
  "calls (forget_call n p) = filter (\<lambda>c. fst c \<noteq> n) (calls p)" "calls (failed_route number n e p) = calls p"
  by (simp_all add: setComputeDisabled_def renderManeuvers_def forget_call_def failed_route_def renderDisambiguationButtons_def)

lemma calls_show: "calls (result_state (show_answer num number w r p)) = calls p"
proof -
  have bind: "calls (result_state (bindr x f)) = c"
    if "calls (result_state x) = c" "\<And>q. x = Inr q \<Longrightarrow> calls (result_state (f q)) = calls q" for x f c
    using that by (cases x) (auto simp: result_state_def)
  have te: "calls (result_state (take_end num number e v q)) = calls q" for e v q
    using calls_take_end [of num number e v q] by (cases "take_end num number e v q") (auto simp: result_state_def)
  have "calls (result_state (show_direct num number ps r p)) = calls p" for ps
    unfolding show_direct_def by (intro bind) (simp_all add: te result_state_def [of "Inr _"])
  then show ?thesis
    by (simp add: show_answer_def show_tour_def result_state_def [of "Inl _"] result_state_def [of "Inr _"] Let_def
        split: option.split list.split)
qed

lemma answered_gone:
  assumes "map_of (calls p) k = Some (ForAnswer w)"
  shows "k \<notin> fst ` set (calls (answer_arrives num number k a p))"
proof -
  have f: "k \<notin> fst ` set (calls (forget_call k p))" by auto
  have "calls (case show_answer num number w r q of Inl (e, p) \<Rightarrow> failed_route number k e p | Inr p \<Rightarrow> p) = calls q" for r q
    using calls_show [of num number w r q] by (auto simp: result_state_def split: sum.split)
  then show ?thesis
    using f assms by (auto simp: answer_arrives_def Let_def split: sum.split simp del: calls_disabled(3))
qed

lemma position_next:
  assumes "map_of (calls p) k = Some (ForPosition w)" "k \<in> fst ` set (calls (position_arrives num number k a p))"
  shows "\<exists>w. map_of (calls (position_arrives num number k a p)) k = Some (ForAnswer w)"
proof -
  have s: "calls (p\<lparr>status_text := t\<rparr>) = calls p" "calls (set_located num number x p) = calls p"
    "calls (p\<lparr>userLocation := u\<rparr>) = calls p" for t x u and p :: routing
    by (simp_all add: set_located_def)
  show ?thesis
    using assms by (auto simp: position_arrives_def ask_server_def Let_def s split: sum.splits if_splits)
qed

lemma planner_event_ends:
  assumes "ai_ok st" "aiRequestController st = Some n" "(n, ForRoute k s) \<in> set (ai_waiting st)"
    "k \<notin> fst ` set (calls (route_step num number ev (planner st)))"
  shows "aiRequestController (ai_step low num number (PlannerEvent ev) st) = None"
  using settle_ends [of "set_planner (route_step num number ev (planner st)) st" n k s] assms by (simp add: ai_ok_def)

lemma still_waits:
  assumes "ai_ok st" "(n, w) \<in> set (ai_waiting st)" "aiRequestController (settle (set_planner p st)) = Some n"
  shows "(n, w) \<in> set (ai_waiting (settle (set_planner p st)))"
proof -
  let ?s = "settle (set_planner p st)"
  have c: "core (set_planner p st)" using assms(1) by (simp add: ai_ok_def)
  have "n \<in> fst ` set (ai_waiting ?s)" using settle_ok [OF c] assms(3) by (simp add: ai_ok_def core_def)
  then obtain w' where w': "(n, w') \<in> set (ai_waiting ?s)" by force
  then have "(n, w') \<in> set (ai_waiting st)"
    using settle_run [OF c subset_refl core_distinct [OF c]] by (auto simp: settle_def)
  then show ?thesis using w' assms(2) core_distinct [OF c] eq_key_imp_eq_value by fastforce
qed

section \<open>What holds\<close>


text \<open>C21: An open question always ends: it waits for the server, whose answer or error ends it, or for a
  computation of the planner, which is under way and whose answer, after the position if that is asked for first, ends it.\<close>

theorem question_ends:
  assumes "st = fold (ai_step low num number) evs (first_assistant stored)" "aiRequestController st = Some n"
  shows "\<exists>w. map_of (ai_waiting st) n = Some w \<and>
    (case w of
       ForServer q \<Rightarrow> \<forall>a x y z. aiRequestController (ai_step low num number (ServerReply n a x y z) st) = None
     | ForRoute k s \<Rightarrow>
         (\<exists>ph. map_of (calls (planner st)) k = Some ph \<and>
            (case ph of
               ForAnswer _ \<Rightarrow> \<forall>a. aiRequestController (ai_step low num number (PlannerEvent (Answered k a)) st) = None
             | ForPosition _ \<Rightarrow> \<forall>p a. aiRequestController (ai_step low num number (PlannerEvent (Answered k a))
                                        (ai_step low num number (PlannerEvent (Position k p)) st)) = None)))"
proof -
  have ok: "ai_ok st" using ai_run_ok [OF first_ai_ok] assms(1) by simp
  then have "n \<in> fst ` set (ai_waiting st)" using assms(2) by (simp add: ai_ok_def core_def)
  then obtain w where w: "map_of (ai_waiting st) n = Some w" by (metis domIff dom_map_of_conv_image_fst not_Some_eq)
  show ?thesis
  proof (cases w)
    case (ForServer q)
    have "aiRequestController (ai_reply low num number n a x y z st) = None" for a x y z
      using w ForServer assms(2) take_answer_open(5) [OF open_forget] ok
      by (simp add: ai_reply_def Let_def end_query_def ai_ok_def split: sum.split)
    then show ?thesis using w ForServer by simp
  next
    case (ForRoute k s)
    have ns: "(n, ForRoute k s) \<in> set (ai_waiting st)" using w ForRoute map_of_SomeD by fastforce
    then have "k \<in> fst ` set (calls (planner st))" using ok unfolding ai_ok_def routes_wait_def by blast
    then obtain ph where ph: "map_of (calls (planner st)) k = Some ph" by (metis domIff dom_map_of_conv_image_fst not_Some_eq)
    have answer: "aiRequestController (ai_step low num number (PlannerEvent (Answered k a)) s') = None"
      if "ai_ok s'" "aiRequestController s' = Some n" "(n, ForRoute k s) \<in> set (ai_waiting s')"
        "map_of (calls (planner s')) k = Some (ForAnswer v)" for s' a v
      using planner_event_ends [OF that(1-3), of num number "Answered k a" low] answered_gone [OF that(4)] by simp
    have position: "aiRequestController (ai_step low num number (PlannerEvent (Answered k a))
        (ai_step low num number (PlannerEvent (Position k p)) st)) = None" if "ph = ForPosition v" for p a v
    proof (cases "aiRequestController (ai_step low num number (PlannerEvent (Position k p)) st)")
      case None
      then show ?thesis
        using settle_moves [of "set_planner x y" for x y] by (metis ai_step.simps(11) planner_frame(3))
    next
      case (Some m)
      let ?s = "ai_step low num number (PlannerEvent (Position k p)) st"
      have m: "aiRequestController ?s = Some n"
        using Some settle_moves [of "set_planner (position_arrives num number k p (planner st)) st"] assms(2) by simp
      have ok': "ai_ok ?s" using ok by (rule ai_step_ok)
      have w': "(n, ForRoute k s) \<in> set (ai_waiting ?s)" using still_waits [OF ok ns] m by simp
      then have "k \<in> fst ` set (calls (planner ?s))" using ok' unfolding ai_ok_def routes_wait_def by blast
      moreover have "planner ?s = position_arrives num number k p (planner st)" using ok by (simp add: ai_ok_def)
      ultimately show ?thesis using position_next [of "planner st" k v] ph that answer [OF ok' m w'] by metis
    qed
    show ?thesis using w ForRoute ph answer [OF ok assms(2) ns] position by (auto split: phase.split)
  qed
qed

text \<open>C22: An answer of the server to a question that was stopped, or whose chat was cleared, changes nothing but the list of
  what is waited for, however late it comes: neither the messages nor the route, the fields, the places or the session.\<close>

theorem overtaken_reply_ignored:
  assumes "st = fold (ai_step low num number) evs (first_assistant stored)" "n < ai_begun st" "aiRequestController st \<noteq> Some n"
    "st' = fold (ai_step low num number) evs' st"
  shows "ai_step low num number (ServerReply n a x y z) st' \<in> {st', forget_query n st'}"
proof -
  have "questions.stale n st" using assms(2,3) by (simp add: questions.stale_def)
  then have "aiRequestController st' \<noteq> Some n"
    using questions.stale_run [of st n low num number evs'] ai_run_ok [OF first_ai_ok] assms(1,4) by (simp add: questions.stale_def)
  then show ?thesis by (simp add: ai_reply_def Let_def split: option.split ai_wait.split)
qed

text \<open>C23: Once the chat has been cleared, the old conversation is forgotten: no question is sent with a session until a
  question that was asked after that has been answered, whatever arrives late.\<close>

theorem cleared_chat_forgotten:
  assumes "st = fold (ai_step low num number) evs (first_assistant stored)"
    "st' = fold (ai_step low num number) evs' (ai_step low num number ClearChat st)"
    "list_all (late_reply (ai_begun st)) evs'"
  shows "\<exists>new. sent st' = new @ sent st \<and> (\<forall>q\<in>set new. q_session q = JUndef)"
proof -
  have ok: "ai_ok st" using ai_run_ok [OF first_ai_ok] assms(1) by simp
  have r: "aiRequestController (clear_chat st) = None" "session (clear_chat st) = JStr []" "ai_begun (clear_chat st) = ai_begun st"
    "sent (clear_chat st) = sent st"
    using cancel_query_ok(2) [OF ok] cancel_moves(2,3) [of st] by (simp_all add: clear_chat_def)
  have "ai_ok (clear_chat st)" using ai_step_ok [OF ok, of _ _ _ ClearChat] by simp
  then have "forgotten (ai_begun st) (clear_chat st)" using r by (simp add: forgotten_def)
  from forgotten_run [OF this assms(3)] show ?thesis using assms(2) r(4) by simp
qed

section \<open>The HTML of an answer\<close>

function tags_in :: "jstr \<Rightarrow> jstr list" where
  "tags_in [] = []"
| "tags_in (c # s) =
     (if c = 60 then takeWhile (\<lambda>d. d \<noteq> 62) s # tags_in (drop 1 (dropWhile (\<lambda>d. d \<noteq> 62) s)) else tags_in s)"
  by pat_completeness auto
termination
  by (relation "measure length") (auto simp: less_Suc_eq_le intro: le_trans [OF diff_le_self length_dropWhile_le])

lemma tags_plain: "60 \<notin> set s \<Longrightarrow> tags_in (s @ r) = tags_in r"
  by (induction s) auto

lemma tags_strong: "tags_in (lit ''<strong>'' @ s) = lit ''strong'' # tags_in s" "tags_in (lit ''</strong>'' @ s) = lit ''/strong'' # tags_in s"
  by (simp_all add: lit_def)

lemma strip_strong: "strip_tags (lit ''<strong>'' @ s) = strip_tags s" "strip_tags (lit ''</strong>'' @ s) = strip_tags s"
  by (simp_all add: lit_def)

definition strong_pairs :: "nat \<Rightarrow> jstr list" where
  "strong_pairs k = concat (replicate k [lit ''strong'', lit ''/strong''])"

lemma bold_safe:
  "60 \<notin> set s \<Longrightarrow> (\<exists>k. tags_in (bold s) = strong_pairs k) \<and> filter (\<lambda>c. c \<noteq> 42) (strip_tags (bold s)) = filter (\<lambda>c. c \<noteq> 42) s"
proof (induction s rule: bold.induct)
  case 1
  then show ?case by (auto simp: strong_pairs_def intro: exI [of _ 0])
next
  case (2 c s)
  define m where "m = takeWhile (\<lambda>d. d \<noteq> 42 \<and> d \<noteq> 10) (drop 1 s)"
  define r where "r = drop (Suc (length m)) s"
  show ?case
  proof (cases "c = 42 \<and> take 1 s = [42] \<and> m \<noteq> [] \<and> take 2 r = [42, 42]")
    case True
    have s: "s = 42 # m @ 42 # 42 # drop 2 r"
    proof -
      have "s = take 1 s @ drop 1 s" by simp
      also have "drop 1 s = m @ dropWhile (\<lambda>d. d \<noteq> 42 \<and> d \<noteq> 10) (drop 1 s)" by (simp add: m_def)
      also have "dropWhile (\<lambda>d. d \<noteq> 42 \<and> d \<noteq> 10) (drop 1 s) = r" by (simp add: r_def m_def dropWhile_eq_drop)
      also have "r = [42, 42] @ drop 2 r" using True append_take_drop_id [of 2 r] by simp
      finally show ?thesis using True by simp
    qed
    have free: "60 \<notin> set m" "60 \<notin> set (drop 2 r)" using 2(3) by (subst (asm) s, simp)+
    have b: "bold (c # s) = lit ''<strong>'' @ m @ lit ''</strong>'' @ bold (drop 2 r)"
      using True by (simp add: Let_def m_def r_def)
    obtain k where k: "tags_in (bold (drop 2 r)) = strong_pairs k"
      and f: "filter (\<lambda>c. c \<noteq> 42) (strip_tags (bold (drop 2 r))) = filter (\<lambda>c. c \<noteq> 42) (drop 2 r)"
      using 2(1) [OF m_def r_def True free(2)] by blast
    have "tags_in (bold (c # s)) = strong_pairs (Suc k)"
      unfolding b by (simp add: tags_strong tags_plain [OF free(1)] k strong_pairs_def)
    moreover have "filter (\<lambda>c. c \<noteq> 42) (c # s) = filter (\<lambda>c. c \<noteq> 42) m @ filter (\<lambda>c. c \<noteq> 42) (drop 2 r)"
      using True by (subst s) simp
    ultimately show ?thesis
      unfolding b using f by (auto simp: strip_strong strip_plain [OF free(1)])
  next
    case False
    then have b: "bold (c # s) = c # bold s"
      by (simp only: bold.simps(2) Let_def m_def [symmetric] r_def [symmetric] if_False)
    then show ?thesis using 2(2) [OF m_def r_def False] 2(3) by auto
  qed
qed

lemma escaped_free: "set (escapeHtml t) \<inter> {60, 62, 34, 39} = {}"
  unfolding escapeHtml_entities by (rule entities_safe) (simp_all add: html_table_def lit_def)

text \<open>C25: No answer can bring markup into the page: whatever the server, or the language model behind it, writes as provider,
  model and response, the HTML of the message has no tags but pairs of \<open>strong\<close>, and without them and the
  stars its text is the escaped response.\<close>

theorem answer_no_markup:
  assumes "answer_html d = Some (p, m, r)"
  shows "tags_in p = [] \<and> tags_in m = [] \<and> (\<exists>k. tags_in r = strong_pairs k)
    \<and> (\<forall>s. jget d ''response'' = JStr s \<longrightarrow> filter (\<lambda>c. c \<noteq> 42) (strip_tags r) = filter (\<lambda>c. c \<noteq> 42) (escapeHtml s))"
proof -
  have esc: "60 \<notin> set h" if "esc_js v = Some h" for v h
    using that escaped_free by (cases v) (auto simp: esc_js_def split: if_splits)
  obtain r' where r: "esc_js (jget d ''provider'') = Some p" "esc_js (jget d ''model'') = Some m"
    "esc_js (jget d ''response'') = Some r'" "r = bold r'"
    using assms by (auto simp: answer_html_def split: option.splits)
  have "r' = escapeHtml s" if "jget d ''response'' = JStr s" for s
    using r(3) that by (auto simp: esc_js_def escapeHtml_def replace_all_def split: if_splits)
  then show ?thesis
    using esc [OF r(1)] esc [OF r(2)] bold_safe [OF esc [OF r(3)]] tags_plain [of p "[]"] tags_plain [of m "[]"] r(4) by auto
qed

section \<open>Going on from the goal\<close>

lemma greedy_dots:
  assumes "\<forall>j. i \<le> j \<and> j < length s \<longrightarrow> in_class Dot (s ! j)" "length s - i \<le> k" "i \<le> length s"
  shows "\<exists>rest. greedy (hits (One Dot) s) k (i, c) = (length s, c) # rest"
  using assms
proof (induction k arbitrary: i)
  case (Suc k)
  show ?case
  proof (cases "i = length s")
    case False
    then have i: "in_class Dot (s ! i)" "i < length s" using Suc.prems by auto
    moreover have "length s - Suc i \<le> k" using Suc.prems(2) by linarith
    ultimately obtain rest where "greedy (hits (One Dot) s) k (Suc i, c) = (length s, c) # rest"
      using Suc.IH [of "Suc i"] Suc.prems(1) by (auto simp del: in_class.simps hits.simps)
    moreover have "hits (One Dot) s (i, c) = [(Suc i, c)]" using i by simp
    ultimately show ?thesis by (simp del: hits.simps)
  qed simp
qed simp

definition clean :: "jstr \<Rightarrow> bool" where
  "clean d \<longleftrightarrow> d \<noteq> [] \<and> \<not> js_space (hd d) \<and> \<not> js_space (last d) \<and> (\<forall>c\<in>set d. in_class Dot c)"

lemma greedy_stop: "f p = [] \<Longrightarrow> greedy f k p = [p]"
  by (cases k) simp_all

lemma gap_one:
  assumes "i < length s" "js_space (s ! i)" "Suc i < length s" "\<not> js_space (s ! Suc i)"
  shows "hits gap s (i, c) = [(Suc i, c)]"
  using assms greedy_stop [of "hits (One Space) s" "(Suc i, c)"] by simp

lemma weiter_group:
  assumes "clean d" shows "group_of continue_rx (lit ''weiter zum '' @ d) = d"
proof -
  define s where "s = lit ''weiter zum '' @ d"
  have d: "d \<noteq> []" "\<not> js_space (hd d)" "\<not> js_space (last d)" "\<forall>c\<in>set d. in_class Dot c" using assms by (simp_all add: clean_def)
  have len: "length s = 11 + length d" by (simp add: s_def)
  have pos: "s ! 6 = 32" "s ! 7 = 122" "s ! 10 = 32" by (simp_all add: s_def nth_append lit_def)
  have "s ! 11 = hd d" using d(1) by (simp add: s_def nth_append hd_conv_nth)
  then have first: "\<not> js_space (s ! 11)" using d(2) by simp
  have sp: "js_space (32 :: 16 word)" "\<not> js_space (122 :: 16 word)" by (simp_all add: js_space_def)
  have none: "hits (word ''und'') s (0, c) = []" and w: "hits (word ''weiter'') s (0, c) = [(6, c)]"
    and z: "hits (words [''zum'', ''zur'', ''nach'']) s (7, c) = [(10, c)]" for c
    by (simp_all add: letters_at_def s_def lit_def upper_case_def)
  have g6: "hits gap s (6, c) = [(7, c)]" and g10: "hits gap s (10, c) = [(11, c)]" for c
    using gap_one [of 6 s c] gap_one [of 10 s c] pos sp first d(1) by (simp_all add: len eval_nat_numeral)
  have e: "letters_at [] s 0" "letters_at [] s 6" by (simp_all add: letters_at_def len)
  have dots: "\<forall>j. 11 \<le> j \<and> j < length s \<longrightarrow> in_class Dot (s ! j)"
    using d(4) by (auto simp: s_def nth_append simp del: in_class.simps)
  have "\<exists>rest. hits (some (One Dot)) s (11, c) = (length s, c) # rest" for c
    using greedy_dots [of 12 s "length s - 12" c] dots d(1) by (auto simp: len Suc_le_eq simp del: in_class.simps)
  then have "\<exists>rest. hits (Keep (some (One Dot))) s (11, c) = (length s, Some (11, length s)) # rest" for c
    by (metis (no_types, lifting) hits.simps(9) list.simps(9) fst_conv)
  then obtain rest where k: "hits (Keep (some (One Dot))) s (11, None) = (length s, Some (11, length s)) # rest" by blast
  have "\<exists>rest. hits continue_rx s (0, None) = (length s, Some (11, length s)) # rest"
    unfolding continue_rx_def seq.simps hits.simps(6,7) 
    using none w z g6 g10 k e
    by (simp del: any_of.simps hits.simps(8,9) )
  then obtain more where m: "hits continue_rx s (0, None) = (length s, Some (11, length s)) # more" by blast
  have "[0..<Suc (length s)] = 0 # [1..<Suc (length s)]" by (subst upt_conv_Cons) simp_all
  then have "rx_group continue_rx s = Some (group_text s (length s, Some (11, length s)))"
    unfolding rx_group_def using m by simp
  moreover have "group_text s (length s, Some (11, length s)) = d"
    by (simp add: group_text_def s_def)
  ultimately have "rx_group continue_rx s = Some d" by simp
  moreover have "trim d = d"
    using d(1-3) by (simp add: trim_def dropWhile_same hd_rev)
  ultimately show ?thesis by (simp add: group_of_def s_def)
qed


section \<open>Runs\<close>

lemmas rx_eval = rx_test_def letters_at_def upper_case_def edge_def word_char_def js_space_def lit_def Let_def

text \<open>The negation "noe" with its umlaut, one of the words that ask for another route, is never found at the end of a question:
  the umlaut is no character of a word for \<open>\b\<close>, so that a letter must follow it.\<close>

lemma noe_not_found: "\<not> rx_test correction_rx [110, 0xF6]" "rx_test correction_rx (lit ''nein'')"
  by (simp_all add: rx_eval correction_rx_def)

text \<open>The user enters start and goal and writes "normal": the page computes the route itself.\<close>

abbreviation plain :: "ai_event \<Rightarrow> assistant \<Rightarrow> assistant" where
  "plain \<equiv> ai_step (\<lambda>s. s) (\<lambda>_. []) (\<lambda>_. NaN)"

definition ask_normal :: "ai_event list" where
  "ask_normal = [PlannerEvent (FieldTyped Start [65]), PlannerEvent (FieldTyped Goal [66]), PromptTyped (lit ''normal''), Send JNull (0, 0)]"

lemma normal_trim: "trim (lit ''normal'') = lit ''normal''"
  by (simp add: trim_def js_space_def lit_def)

lemma normal_rx: "rx_group chained_rx (lit ''normal'') = None" "rx_group continue_rx (lit ''normal'') = None"
  "rx_test preference_rx (lit ''normal'')"
  by (simp_all add: rx_group_def rx_eval chained_rx_def continue_rx_def preference_rx_def)

definition typed_ends :: assistant where
  "typed_ends = fold plain [PlannerEvent (FieldTyped Start [65]), PlannerEvent (FieldTyped Goal [66]), PromptTyped (lit ''normal'')]
     (first_assistant None)"

lemma typed_ends_state:
  "planner typed_ends = fold (route_step (\<lambda>_. []) (\<lambda>_. NaN)) [FieldTyped Start [65], FieldTyped Goal [66]] init_routing"
  "aiRequestController typed_ends = None" "prompt_text typed_ends = lit ''normal''" "ai_begun typed_ends = 0" "messages typed_ends = []"
  "ai_waiting typed_ends = []" "detail typed_ends = None"
  by (simp_all add: typed_ends_def first_assistant_def settle_def set_planner_def route_eval)

lemma normal_intent: "intent_of low (lit ''normal'') (planner typed_ends) = Prefer"
proof -
  have "shown (from_field (planner typed_ends)) = [65]" "shown (to_field (planner typed_ends)) = [66]"
    by (simp_all add: typed_ends_state route_eval)
  then show ?thesis using normal_rx by (simp add: intent_of_def normal_trim group_of_def trim_letter Let_def)
qed

lemma normal_planner: "compute (\<lambda>_. NaN) JNull (planner typed_ends) = run_plain asking"
  by (simp add: typed_ends_state asking_def)

lemma normal_state:
  "fold plain ask_normal (first_assistant None) = plain (Send JNull (0, 0)) typed_ends"
  "planner (plain (Send JNull (0, 0)) typed_ends) = run_plain asking"
  "ai_waiting (plain (Send JNull (0, 0)) typed_ends) = [(0, ForRoute 0 Preferred)]"
  "aiRequestController (plain (Send JNull (0, 0)) typed_ends) = Some 0"
  "aiRequestMessage (plain (Send JNull (0, 0)) typed_ends) = Some 0"
  "detail (plain (Send JNull (0, 0)) typed_ends) = None"
  "map (\<lambda>(n, b). (n, b_text b)) (messages (plain (Send JNull (0, 0)) typed_ends)) = [(0, Working Preferred)]"
proof -
  show "fold plain ask_normal (first_assistant None) = plain (Send JNull (0, 0)) typed_ends"
    by (simp add: ask_normal_def typed_ends_def)
  have k: "0 \<in> fst ` set (calls (run_plain asking))" using asked_state(4) by (force dest: map_of_SomeD)
  have c: "controllers (planner typed_ends) = 0" "currentRouteMeta (run_plain asking) = None"
    by (simp_all add: typed_ends_state asking_def route_eval)
  have b: "planner (begin_query typed_ends) = planner typed_ends" "detail (begin_query typed_ends) = None"
    and w: "ai_waiting (begin_query typed_ends) = []" by (simp_all add: begin_query_def typed_ends_state(6,7) Let_def)
  let ?b = "begin_query typed_ends"
  have s: "plain (Send JNull (0, 0)) typed_ends
      = (set_planner (run_plain asking) (say 0 (Working Preferred) ?b))\<lparr>ai_waiting := [(0, ForRoute 0 Preferred)]\<rparr>"
    using k by (simp add: sendAIQuery_def typed_ends_state(2-4) normal_trim normal_intent b w
        prepare_def ask_route_def Let_def normal_planner c(1) settle_def settle_one_def)
  show "planner (plain (Send JNull (0, 0)) typed_ends) = run_plain asking" unfolding s by simp
  show "ai_waiting (plain (Send JNull (0, 0)) typed_ends) = [(0, ForRoute 0 Preferred)]" unfolding s by simp
  show "aiRequestController (plain (Send JNull (0, 0)) typed_ends) = Some 0" "aiRequestMessage (plain (Send JNull (0, 0)) typed_ends) = Some 0"
    unfolding s by (simp_all add: begin_query_def typed_ends_state Let_def set_planner_def say_def change_bubble_def)
  show "detail (plain (Send JNull (0, 0)) typed_ends) = None" unfolding s using c b by (simp add: set_planner_def say_def change_bubble_def)
  show "map (\<lambda>(n, b). (n, b_text b)) (messages (plain (Send JNull (0, 0)) typed_ends)) = [(0, Working Preferred)]"
    unfolding s by (simp add: begin_query_def typed_ends_state say_def change_bubble_def Let_def)
qed

abbreviation waits_normal :: assistant where "waits_normal \<equiv> plain (Send JNull (0, 0)) typed_ends"

lemma normal_texts: "texts waits_normal = [(0, Working Preferred)]"
  using normal_state(7) by (simp add: texts_def)

lemma texts_say: "texts (say n t st) = map (\<lambda>(m, u). (m, if m = n then t else u)) (texts st)"
  by (auto simp: texts_def say_def change_bubble_def)

lemma texts_frame [simp]: "texts (set_planner p st) = texts st" "texts (end_query n st) = texts st" "texts (forget_query n st) = texts st"
  by (simp_all add: texts_def set_planner_def end_query_def forget_query_def)

lemma cancel_state:
  assumes "aiRequestMessage st = Some n"
  shows "texts (cancelAIQuery st) = map (\<lambda>(m, u). (m, if m = n then Cancelled else u)) (texts st)"
    "ai_waiting (cancelAIQuery st) = ai_waiting st" "planner (cancelAIQuery st) = cancelRouteComputation (planner st)"
    "aiRequestController (cancelAIQuery st) = None" "detail (cancelAIQuery st) = (case currentRouteMeta (planner st) of None \<Rightarrow> detail st | x \<Rightarrow> x)"
  using assms
  by (simp_all add: cancelAIQuery_def Let_def say_def change_bubble_def texts_def set_planner_def split: option.split) auto

lemma preferred_ends:
  assumes "ai_waiting st = [(0, ForRoute 0 Preferred)]" "texts st = [(0, t)]" "detail st = None"
    "route_step (\<lambda>_. []) (\<lambda>_. NaN) ev (planner st) = p" "0 \<notin> fst ` set (calls p)" "currentRouteMeta p = None"
  shows "texts (plain (PlannerEvent ev) st) = [(0, Computed Preferred None)]" "planner (plain (PlannerEvent ev) st) = p"
  using assms
  by (simp_all add: settle_def settle_one_def after_route_def texts_say) (simp add: set_planner_def forget_query_def)

text \<open>A route that could not be computed is reported as computed, with the distances of an older route or a dash.\<close>

lemma failed_but_computed:
  assumes "st = plain (PlannerEvent (Answered 0 (Inl offline))) waits_normal"
  shows "texts st = [(0, Computed Preferred None)]" "route_error (planner st) \<noteq> None" "polyline (planner st) = None"
proof -
  have r: "currentRouteMeta (run_plain asking) = None" "polyline (run_plain asking) = None" by (simp_all add: asking_def route_eval)
  let ?p = "answer_arrives (\<lambda>_. []) (\<lambda>_. NaN) 0 (Inl offline) (run_plain asking)"
  have p: "route_error ?p \<noteq> None" "polyline ?p = None" "currentRouteMeta ?p = None"
    using asked_state(1,4) r
    by (simp_all add: answer_arrives_def Let_def failed_route_def finish_def setComputeDisabled_def renderDisambiguationButtons_def
        put_choices_def setRouteError_def setRouteEditing_def forget_call_def offline_def)
  note e = preferred_ends [OF normal_state(3) normal_texts normal_state(6), of "Answered 0 (Inl offline)" ?p]
  show "texts st = [(0, Computed Preferred None)]" "route_error (planner st) \<noteq> None" "polyline (planner st) = None"
    using e answered_gone [OF asked_state(4)] p assms by (simp_all add: normal_state(2) del: ai_step.simps)
qed

text \<open>So is a question that the user has stopped: the message that it was given up is replaced by that of a route.\<close>

lemma stopped_but_computed:
  assumes "stopped = plain Stop waits_normal"
    "st = plain (PlannerEvent (Answered 0 (Inl \<lparr>f_message = [], f_details = JUndef, f_abort = True\<rparr>))) stopped"
  shows "texts stopped = [(0, Cancelled)]" "aiRequestController stopped = None" "texts st = [(0, Computed Preferred None)]"
proof -
  have r: "currentRouteMeta (run_plain asking) = None" by (simp add: asking_def route_eval)
  have s: "ai_waiting stopped = [(0, ForRoute 0 Preferred)]" "texts stopped = [(0, Cancelled)]" "detail stopped = None"
    "planner stopped = cancelRouteComputation (run_plain asking)" "aiRequestController stopped = None"
    using cancel_state [OF normal_state(5)] normal_state(2,3,6) normal_texts r assms(1) by simp_all
  let ?a = "Inl \<lparr>f_message = [], f_details = JUndef, f_abort = True\<rparr> :: failure + reply"
  let ?p = "answer_arrives (\<lambda>_. []) (\<lambda>_. NaN) 0 ?a (cancelRouteComputation (run_plain asking))"
  have w: "map_of (calls (cancelRouteComputation (run_plain asking))) 0 = map_of (calls (run_plain asking)) 0" by simp
  have "currentRouteMeta ?p = None"
    using r asked_state(4) by (simp add: answer_arrives_def Let_def forget_call_def)
  then show "texts st = [(0, Computed Preferred None)]"
    using preferred_ends(1) [OF s(1-3), of "Answered 0 ?a" ?p] answered_gone [OF w [unfolded asked_state(4)]] s(4) assms(2)
    by (simp del: ai_step.simps)
  show "texts stopped = [(0, Cancelled)]" "aiRequestController stopped = None" using s by simp_all
qed

text \<open>The route of an answer hides the view for editing, but not the error that is shown there: it comes back, though it is about
  an older route, when the user edits the new one.\<close>

lemma answer_hides_error:
  assumes "route_error (planner st) = Some m" "r_path r = Some (p # ps)"
    "st' = take_route num number \<lparr>a_data = JObj [], a_route = Some r\<rparr> st"
  shows "route_error (planner st') = Some m" "editor_hidden (panel (planner st'))"
    "polyline (planner st') = Some (p # ps)"
  using assms
  by (simp_all add: take_route_def ends_of_route_def take_end_def renderPath_def setRouteEditing_def panel_for_def Let_def)

text \<open>The message of the shortcut that computes a route anew is never replaced.\<close>

lemma recomputed_stays: "texts (after_route n Recomputed st) = texts st"
  by (simp add: after_route_def)

section \<open>Witnesses\<close>

lemma hello_to_server: "intent_of low (lit ''hi'') init_routing = ToServer" if "low (lit ''hi'') = lit ''hi''"
proof -
  have t: "trim (lit ''hi'') = lit ''hi''" by (simp add: trim_def js_space_def lit_def)
  have f: "\<not> rx_test visual_rx (lit ''hi'')" "rx_group chained_rx (lit ''hi'') = None" "\<not> rx_test preference_rx (lit ''hi'')"
    "\<not> rx_test show_rx (lit ''hi'')" "\<not> rx_test correction_rx (lit ''hi'')"
    by (simp_all add: rx_group_def rx_eval visual_rx_def chained_rx_def preference_rx_def show_rx_def correction_rx_def)
  have "currentRouteMeta init_routing = None" "trim (shown (to_field init_routing)) = []" by (simp_all add: init_routing_def empty_field_def)
  then show ?thesis using f that by (simp add: intent_of_def t group_of_def Let_def)
qed

lemma hello_trim: "trim (lit ''hi'') = lit ''hi''"
  by (simp add: trim_def js_space_def lit_def)

definition hello :: "ai_event list" where
  "hello = [PromptTyped (lit ''hi''), Send JNull (0, 0)]"

lemma hello_state:
  assumes "planner st = init_routing" "aiRequestController st = None"
  shows "aiRequestController (fold plain hello st) = Some (ai_begun st)"
    "ai_waiting (fold plain hello st) = (ai_begun st, ForServer (lit ''hi'')) # ai_waiting st"
    "ai_begun (fold plain hello st) = Suc (ai_begun st)" "length (sent (fold plain hello st)) = Suc (length (sent st))"
  using assms hello_to_server [of "\<lambda>s. s"]
  by (simp_all add: hello_def sendAIQuery_def hello_trim begin_query_def Let_def)

lemma first_state: "planner (first_assistant s) = init_routing" "aiRequestController (first_assistant s) = None"
  "ai_begun (first_assistant s) = 0" "ai_waiting (first_assistant s) = []" "sent (first_assistant s) = []"
  by (simp_all add: first_assistant_def)


lemma question_ends_witness:
  "aiRequestController (plain (PlannerEvent (Answered 0 (Inl offline))) waits_normal) = None
   \<and> aiRequestController (plain (ServerReply 0 (Inl []) True True True) (fold plain hello (first_assistant None))) = None"
proof -
  have "aiRequestController (plain (PlannerEvent (Answered 0 (Inl offline))) waits_normal) = None"
    using question_ends [OF normal_state(1) [symmetric] normal_state(4)] normal_state(2,3) asked_state(4)
    by (simp del: ai_step.simps)
  moreover have "aiRequestController (plain (ServerReply 0 (Inl []) True True True) (fold plain hello (first_assistant None))) = None"
    using question_ends [OF refl, of "\<lambda>s. s" "\<lambda>_. []" "\<lambda>_. NaN" hello None 0] hello_state [OF first_state(1,2), of None]
      first_state(3,4) by (simp del: ai_step.simps)
  ultimately show ?thesis by blast
qed

lemma overtaken_reply_ignored_witness:
  "plain (ServerReply 0 (Inl [65]) True True True) (fold plain (hello @ [Stop]) (first_assistant None))
   \<in> {fold plain (hello @ [Stop]) (first_assistant None), forget_query 0 (fold plain (hello @ [Stop]) (first_assistant None))}"
proof -
  have "ai_begun (fold plain (hello @ [Stop]) (first_assistant None)) = 1"
    "aiRequestController (fold plain (hello @ [Stop]) (first_assistant None)) = None"
    using hello_state [OF first_state(1,2), of None] first_state(3) cancel_moves(3)
    by (simp_all add: cancelAIQuery_def Let_def split: option.split)
  then show ?thesis
    using overtaken_reply_ignored [OF refl, of 0 "\<lambda>s. s" "\<lambda>_. []" "\<lambda>_. NaN" "hello @ [Stop]" None _ "[]"] by simp
qed

lemma cleared_chat_forgotten_witness:
  "map q_session (sent (fold plain hello (plain ClearChat (first_assistant (Some [65]))))) = [JUndef]"
proof -
  let ?c = "plain ClearChat (first_assistant (Some [65]))"
  have c: "planner ?c = init_routing" "aiRequestController ?c = None" "sent ?c = []"
    by (simp_all add: clear_chat_def cancelAIQuery_def first_assistant_def Let_def set_planner_def cancelRouteComputation_def init_routing_def)
  have "list_all (late_reply (ai_begun (first_assistant (Some [65])))) hello" by (simp add: hello_def late_reply_def)
  from cleared_chat_forgotten [of _ "\<lambda>s. s" "\<lambda>_. []" "\<lambda>_. NaN" "[]" "Some [65]", OF _ refl this]
  have "\<forall>q\<in>set (sent (fold plain hello ?c)). q_session q = JUndef" using first_state(5) by (auto simp del: ai_step.simps)
  moreover have "length (sent (fold plain hello ?c)) = 1" using hello_state(4) [OF c(1,2)] c(3) by simp
  ultimately show ?thesis by (cases "sent (fold plain hello ?c)") simp_all
qed

definition bold_answer :: js where
  "bold_answer = JObj [(lit ''response'', JStr (lit ''**<b>**''))]"

lemma answer_no_markup_witness: "\<exists>r. answer_html bold_answer = Some ([], [], r) \<and> tags_in r = strong_pairs 1"
proof -
  have e: "answer_html bold_answer = Some ([], [], lit ''<strong>&lt;b&gt;</strong>'')"
    by (simp add: answer_html_def bold_answer_def esc_js_def escapeHtml_def replace_all_def lit_def Let_def)
  from answer_no_markup [OF this] obtain k where "tags_in (lit ''<strong>&lt;b&gt;</strong>'') = strong_pairs k" by blast
  moreover have "tags_in (lit ''<strong>&lt;b&gt;</strong>'') = strong_pairs 1" by (simp add: lit_def strong_pairs_def)
  ultimately show ?thesis using e by blast
qed

lemma chained_needs:
  assumes "list_all (\<lambda>i. \<not> list_ex (\<lambda>w. letters_at (lit w) s i) [''ich'', ''gemeint'', ''vom'', ''von'']) [0..<Suc (length s)]"
  shows "rx_group chained_rx s = None"
proof -
  have "hits chained_rx s (i, None) = []" if "i \<in> set [0..<Suc (length s)]" for i
  proof -
    have n: "\<not> letters_at (lit ''ich'') s i" "\<not> letters_at (lit ''gemeint'') s i" "\<not> letters_at (lit ''vom'') s i" "\<not> letters_at (lit ''von'') s i"
      using assms that unfolding list_all_iff by auto
    have "hits (any_of [seq [word ''ich'', gap, word ''meinte''], word ''gemeint'', seq [word ''vom'', gap, word ''aktuellen'', gap, word ''ort''],
       seq [word ''von'', gap, word ''meinem'', gap, word ''standort''], seq [word ''von'', gap, word ''hier''],
       seq [word ''vom'', gap, word ''standort'']]) s (i, None) = []"
      using n by simp
    then show ?thesis unfolding chained_rx_def by (simp only: seq.simps hits.simps(6)) simp
  qed
  then have "find (\<lambda>i. hits chained_rx s (i, None) \<noteq> []) [0..<Suc (length s)] = None" by (simp add: find_None_iff del: upt_Suc)
  then show ?thesis unfolding rx_group_def by simp
qed

definition go_on :: "ai_event list" where
  "go_on = [PlannerEvent (FieldTyped Goal [66]), PromptTyped (lit ''weiter zum C'')]"


end
