(* ===== verification/DataLayers.thy ===== *)
theory DataLayers
  imports Territory RouteFields Patterns
begin

text \<open>
  The layers of territories and of imported data on the map, and the forms that import them (\<open>src/cmd/web/app.js\<close>):
  each of the two has a choice of layers, a box that shows it, a store of what was fetched, and a source in the map; the page
  has the same handlers twice, with small differences, which \<open>kind\<close> tells apart. \<open>takes\<close> says which data the map
  library accepts, \<open>num\<close> is the text of a number; \<open>addable\<close> says whether the map takes a new source, which it
  refuses with an exception while a style is loading. A layer has no name of a property that every object inherits.
\<close>

section \<open>State\<close>

datatype kind = Territories | Imported

record overlay =
  o_options :: "jstr list"
  o_layer :: jstr                        \<comment> \<open>the choice; empty if there are no layers\<close>
  o_box :: bool
  o_visible :: bool
  o_cache :: "jstr \<Rightarrow> js option"
  o_data :: "js option"                  \<comment> \<open>\<open>lastTerritoryGeoJSON\<close>\<close>
  o_source :: "js option option"         \<comment> \<open>the source in the map, and what it shows\<close>
  o_waits :: "(nat \<times> jstr) list"
  o_count :: nat

section \<open>Showing a layer\<close>

definition colored :: "(real \<Rightarrow> jstr) \<Rightarrow> js \<Rightarrow> js option" where
  \<comment> \<open>every feature gets its colour as a property; \<open>None\<close> is an exception\<close>
  "colored num d =
     (let feature = (\<lambda>f.
            if nullish f then None
            else let p = jget f ''properties''; i = (if nullish p then JUndef else jget p ''territory_id'')
                 in map_option (\<lambda>s. jset (JObj (entries_of f)) ''properties'' (jset (JObj (entries_of p)) ''__color''
                                       (JStr (lit ''hsl('' @ digits (territoryColor s) @ lit '', 65%, 50%)''))))
                      (js_string num (if nullish i then JStr [] else i)))
      in if nullish d then None
         else let fs = or_else (jget d ''features'') (JArr [])
              in if \<not> is_array fs then None
                 else map_option (\<lambda>cs. jset (JObj (entries_of d)) ''features'' (JArr cs)) (those (map feature (elems fs))))"

definition prepared :: "(real \<Rightarrow> jstr) \<Rightarrow> kind \<Rightarrow> js \<Rightarrow> js option" where
  "prepared num k d = (case k of Territories \<Rightarrow> colored num d | Imported \<Rightarrow> Some d)"

definition give_up :: "overlay \<Rightarrow> overlay" where
  \<comment> \<open>the \<open>catch\<close>\<close>
  "give_up v = v\<lparr>o_box := False, o_visible := False\<rparr>"

definition show_data :: "(real \<Rightarrow> jstr) \<Rightarrow> (js \<Rightarrow> bool) \<Rightarrow> kind \<Rightarrow> bool \<Rightarrow> js \<Rightarrow> overlay \<Rightarrow> overlay" where
  \<comment> \<open>from the data on, with \<open>ensureTerritoryLayer\<close> or \<open>ensureGeodataLayer\<close>\<close>
  "show_data num takes k addable d v =
     (case prepared num k d of
        None \<Rightarrow> give_up v
      | Some x \<Rightarrow>
          let v = (if k = Territories then v\<lparr>o_data := Some x\<rparr> else v)
          in if o_source v = None \<and> \<not> addable then give_up v
             else if \<not> takes x then give_up (v\<lparr>o_source := (if o_source v = None then Some None else o_source v)\<rparr>)
             else v\<lparr>o_source := Some (Some x)\<rparr>)"

definition hide_data :: "kind \<Rightarrow> overlay \<Rightarrow> overlay" where
  "hide_data k v =
     v\<lparr>o_visible := False, o_data := (if k = Territories then None else o_data v), o_source := map_option (\<lambda>_. None) (o_source v)\<rparr>"

definition set_visible :: "(real \<Rightarrow> jstr) \<Rightarrow> (js \<Rightarrow> bool) \<Rightarrow> kind \<Rightarrow> bool \<Rightarrow> bool \<Rightarrow> overlay \<Rightarrow> overlay" where
  "set_visible num takes k visible addable v =
     (if \<not> visible then hide_data k v
      else if o_layer v = [] then give_up v
      else case o_cache v (o_layer v) of
        Some d \<Rightarrow> show_data num takes k addable d (v\<lparr>o_visible := True\<rparr>)
      | None \<Rightarrow> v\<lparr>o_visible := True, o_waits := (o_count v, o_layer v) # o_waits v, o_count := o_count v + 1\<rparr>)"

definition setTerritoryOverlayVisible :: "(real \<Rightarrow> jstr) \<Rightarrow> (js \<Rightarrow> bool) \<Rightarrow> bool \<Rightarrow> bool \<Rightarrow> overlay \<Rightarrow> overlay" where
  [simp]: "setTerritoryOverlayVisible num takes = set_visible num takes Territories"

definition setGeodataLayerVisible :: "(real \<Rightarrow> jstr) \<Rightarrow> (js \<Rightarrow> bool) \<Rightarrow> bool \<Rightarrow> bool \<Rightarrow> overlay \<Rightarrow> overlay" where
  [simp]: "setGeodataLayerVisible num takes = set_visible num takes Imported"

definition layer_came ::
  "(real \<Rightarrow> jstr) \<Rightarrow> (js \<Rightarrow> bool) \<Rightarrow> kind \<Rightarrow> nat \<Rightarrow> js option \<Rightarrow> bool \<Rightarrow> overlay \<Rightarrow> overlay" where
  \<comment> \<open>the answer to a request: \<open>None\<close> is an error\<close>
  "layer_came num takes k n a addable v =
     (case map_of (o_waits v) n of
        None \<Rightarrow> v
      | Some l \<Rightarrow>
          let v = v\<lparr>o_waits := filter (\<lambda>p. fst p \<noteq> n) (o_waits v)\<rparr>
          in case a of
               None \<Rightarrow> give_up v
             | Some d \<Rightarrow> show_data num takes k addable d (v\<lparr>o_cache := (o_cache v)(l := if truthy d then Some d else None)\<rparr>))"

definition listed :: "(real \<Rightarrow> jstr) \<Rightarrow> (js \<Rightarrow> bool) \<Rightarrow> kind \<Rightarrow> jstr list \<Rightarrow> jstr \<Rightarrow> bool \<Rightarrow> overlay \<Rightarrow> overlay" where
  \<comment> \<open>\<open>loadTerritoryLayers\<close> and \<open>loadGeodataLayers\<close> with the list of the server (empty after an error); \<open>announced\<close> is the
      layer of a build that was announced\<close>
  "listed num takes k ids announced addable v =
     (let v = (if k = Imported then v\<lparr>o_cache := (\<lambda>_. None)\<rparr> else v);
          v = v\<lparr>o_options := ids, o_layer :=
                (if ids = [] then [] else if k = Territories \<and> announced \<noteq> [] \<and> announced \<in> set ids then announced else hd ids)\<rparr>
      in if ids = [] then v else if o_box v then set_visible num takes k True addable v else v)"

definition loadTerritoryLayers :: "(real \<Rightarrow> jstr) \<Rightarrow> (js \<Rightarrow> bool) \<Rightarrow> jstr list \<Rightarrow> jstr \<Rightarrow> bool \<Rightarrow> overlay \<Rightarrow> overlay" where
  [simp]: "loadTerritoryLayers num takes = listed num takes Territories"

definition loadGeodataLayers :: "(real \<Rightarrow> jstr) \<Rightarrow> (js \<Rightarrow> bool) \<Rightarrow> (jstr \<times> bool) list \<Rightarrow> bool \<Rightarrow> overlay \<Rightarrow> overlay" where
  \<comment> \<open>the flag: the layer is one of territories, which has its place in the other list\<close>
  "loadGeodataLayers num takes layers = listed num takes Imported (map fst (filter (\<lambda>l. \<not> snd l) layers)) []"

definition layer_picked :: "(real \<Rightarrow> jstr) \<Rightarrow> (js \<Rightarrow> bool) \<Rightarrow> kind \<Rightarrow> jstr \<Rightarrow> bool \<Rightarrow> overlay \<Rightarrow> overlay" where
  "layer_picked num takes k l addable v =
     (if l \<notin> set (o_options v) then v
      else let v = v\<lparr>o_layer := l\<rparr>;
               v = (if k = Imported then v\<lparr>o_cache := (\<lambda>_. None)\<rparr> else v)
           in if o_box v then set_visible num takes k True addable v else v)"

definition box_changed :: "(real \<Rightarrow> jstr) \<Rightarrow> (js \<Rightarrow> bool) \<Rightarrow> kind \<Rightarrow> bool \<Rightarrow> bool \<Rightarrow> overlay \<Rightarrow> overlay" where
  "box_changed num takes k b addable v =
     (case k of
        Territories \<Rightarrow> setTerritoryOverlayVisible num takes b addable (v\<lparr>o_box := b\<rparr>)
      | Imported \<Rightarrow> setGeodataLayerVisible num takes b addable (v\<lparr>o_box := b\<rparr>))"

lemma box_changed_eq: "box_changed num takes k b addable v = set_visible num takes k b addable (v\<lparr>o_box := b\<rparr>)"
  by (cases k) (simp_all add: box_changed_def)

definition style_replaced :: "(js \<Rightarrow> bool) \<Rightarrow> kind \<Rightarrow> overlay \<Rightarrow> overlay" where
  \<comment> \<open>the source is gone with the style, and what is registered for this case makes it anew\<close>
  "style_replaced takes k v =
     (let taken = (\<lambda>d. case d of None \<Rightarrow> None | Some x \<Rightarrow> if takes x then Some x else None)
      in v\<lparr>o_source :=
            (case k of
               Territories \<Rightarrow> if o_visible v then Some (taken (o_data v)) else None
             | Imported \<Rightarrow> if o_visible v \<and> o_layer v \<noteq> [] \<and> o_cache v (o_layer v) \<noteq> None
                           then Some (taken (o_cache v (o_layer v))) else None)\<rparr>)"

datatype overlay_event =
    Listed "(jstr \<times> bool) list" jstr bool
  | Picked jstr bool
  | BoxChanged bool bool
  | LayerCame nat "js option" bool
  | StyleGone

fun overlay_step :: "(real \<Rightarrow> jstr) \<Rightarrow> (js \<Rightarrow> bool) \<Rightarrow> kind \<Rightarrow> overlay_event \<Rightarrow> overlay \<Rightarrow> overlay" where
  "overlay_step num takes k (Listed layers announced addable) v =
     (case k of
        Territories \<Rightarrow> loadTerritoryLayers num takes (map fst layers) announced addable v
      | Imported \<Rightarrow> loadGeodataLayers num takes layers addable v)"
| "overlay_step num takes k (Picked l addable) v = layer_picked num takes k l addable v"
| "overlay_step num takes k (BoxChanged b addable) v = box_changed num takes k b addable v"
| "overlay_step num takes k (LayerCame n a addable) v = layer_came num takes k n a addable v"
| "overlay_step num takes k StyleGone v = style_replaced takes k v"

definition no_overlay :: overlay where
  "no_overlay = \<lparr>o_options = [], o_layer = [], o_box = False, o_visible = False, o_cache = (\<lambda>_. None), o_data = None,
     o_source = None, o_waits = [], o_count = 0\<rparr>"

section \<open>Used one step at a time\<close>

definition shows_choice :: "(real \<Rightarrow> jstr) \<Rightarrow> (js \<Rightarrow> bool) \<Rightarrow> kind \<Rightarrow> overlay \<Rightarrow> bool" where
  \<comment> \<open>the map shows what was fetched for the chosen layer\<close>
  "shows_choice num takes k v \<longleftrightarrow>
     (\<exists>d x. (o_cache v (o_layer v) = Some d \<or> \<not> truthy d) \<and> prepared num k d = Some x \<and> takes x \<and> o_source v = Some (Some x)
        \<and> (k = Territories \<longrightarrow> o_data v = Some x) \<and> (k = Imported \<longrightarrow> o_cache v (o_layer v) = Some x))"

definition in_order :: "(real \<Rightarrow> jstr) \<Rightarrow> (js \<Rightarrow> bool) \<Rightarrow> kind \<Rightarrow> overlay \<Rightarrow> bool" where
  "in_order num takes k v \<longleftrightarrow>
     o_visible v = o_box v
     \<and> (case o_waits v of
          [] \<Rightarrow> o_visible v \<and> o_layer v \<noteq> [] \<longrightarrow> shows_choice num takes k v
        | (n, l) # r \<Rightarrow> r = [] \<and> l = o_layer v \<and> l \<noteq> [] \<and> o_visible v)"

definition cached_truthy :: "overlay \<Rightarrow> bool" where
  "cached_truthy v \<longleftrightarrow> (\<forall>l d. o_cache v l = Some d \<longrightarrow> truthy d)"

lemma gave_up: "o_waits v = [] \<Longrightarrow> in_order num takes k (give_up v)"
  by (simp add: in_order_def give_up_def)

lemma show_frame [simp]:
  "o_waits (show_data num takes k addable d v) = o_waits v" "o_cache (show_data num takes k addable d v) = o_cache v"
  "o_layer (show_data num takes k addable d v) = o_layer v" "o_options (show_data num takes k addable d v) = o_options v"
  by (auto simp: show_data_def give_up_def Let_def split: option.split)

lemma shown_in_order:
  assumes "o_waits v = []" "o_box v" "o_visible v" "\<And>x. takes x \<Longrightarrow> truthy x"
    "o_cache v (o_layer v) = (if truthy d then Some d else None)"
  shows "in_order num takes k (show_data num takes k addable d v)"
proof (cases "prepared num k d")
  case None
  then show ?thesis using gave_up assms(1) by (simp add: show_data_def)
next
  case (Some x)
  then have x: "k = Imported \<longrightarrow> x = d" by (cases k) (auto simp: prepared_def)
  show ?thesis
  proof (cases "(o_source v = None \<and> \<not> addable) \<or> \<not> takes x")
    case True
    then show ?thesis using assms(1) Some by (auto simp: show_data_def Let_def in_order_def give_up_def)
  next
    case False
    then have "truthy d" if "k = Imported" using x assms(4) that by auto
    then have "shows_choice num takes k (show_data num takes k addable d v)"
      using False Some x assms(5) unfolding shows_choice_def by (intro exI [of _ d] exI [of _ x]) (auto simp: show_data_def Let_def)
    moreover have "o_box (show_data num takes k addable d v)" "o_visible (show_data num takes k addable d v)"
      using False Some assms(2,3) by (auto simp: show_data_def Let_def)
    ultimately show ?thesis using assms(1) by (simp add: in_order_def)
  qed
qed

lemma set_visible_in_order:
  assumes "o_waits v = []" "o_box v = b" "\<And>x. takes x \<Longrightarrow> truthy x" "cached_truthy v"
  shows "in_order num takes k (set_visible num takes k b addable v)"
proof (cases b)
  case False
  then show ?thesis using assms(1,2) by (simp add: set_visible_def hide_data_def in_order_def)
next
  case True
  show ?thesis
  proof (cases "o_cache v (o_layer v)")
    case None
    then show ?thesis using True assms(1,2) gave_up by (simp add: set_visible_def in_order_def)
  next
    case (Some d)
    then have "truthy d" using assms(4) by (simp add: cached_truthy_def)
    then show ?thesis
      using True assms(1,2) gave_up Some shown_in_order [of "v\<lparr>o_visible := True\<rparr>" takes d num k addable] assms(3)
      by (simp add: set_visible_def)
  qed
qed

text \<open>The user, and the lists of layers, wait for the answer to a request before the next step.\<close>

fun in_turn :: "(real \<Rightarrow> jstr) \<Rightarrow> (js \<Rightarrow> bool) \<Rightarrow> kind \<Rightarrow> overlay_event list \<Rightarrow> overlay \<Rightarrow> bool" where
  "in_turn num takes k [] v = True"
| "in_turn num takes k (ev # evs) v =
     ((case ev of LayerCame _ _ _ \<Rightarrow> True | StyleGone \<Rightarrow> True | _ \<Rightarrow> o_waits v = []) \<and> in_turn num takes k evs (overlay_step num takes k ev v))"

lemma chosen_in_order:
  assumes "o_waits v = []" "o_visible v = o_box v" "cached_truthy v" "\<And>x. takes x \<Longrightarrow> truthy x"
  shows "in_order num takes k (if o_box v then set_visible num takes k True addable v else v)"
  using assms set_visible_in_order [OF assms(1) _ assms(4,3)] by (simp add: in_order_def)

lemma step_in_order:
  assumes "in_order num takes k v" "cached_truthy v" "\<And>x. takes x \<Longrightarrow> truthy x"
    "case ev of LayerCame _ _ _ \<Rightarrow> True | StyleGone \<Rightarrow> True | _ \<Rightarrow> o_waits v = []"
  shows "in_order num takes k (overlay_step num takes k ev v)"
proof (cases ev)
  case (Listed layers announced addable)
  define ids where "ids = (if k = Territories then map fst layers else map fst (filter (\<lambda>l. \<not> snd l) layers))"
  define u where "u = (if k = Imported then v\<lparr>o_cache := (\<lambda>_. None)\<rparr> else v)\<lparr>o_options := ids, o_layer :=
                (if ids = [] then [] else if k = Territories \<and> announced \<noteq> [] \<and> announced \<in> set ids then announced else hd ids)\<rparr>"
  have w: "o_waits u = []" "o_visible u = o_box u" "cached_truthy u" "ids = [] \<Longrightarrow> o_layer u = []"
    using assms(1,2,4) Listed by (simp_all add: u_def cached_truthy_def in_order_def)
  have "overlay_step num takes k ev v = (if ids = [] then u else if o_box u then set_visible num takes k True addable u else u)"
    by (cases k) (simp_all add: Listed loadGeodataLayers_def listed_def Let_def u_def ids_def)
  then show ?thesis using w chosen_in_order [OF w(1,2,3) assms(3)] by (simp add: in_order_def)
next
  case (Picked l addable)
  define u where "u = (if k = Imported then v\<lparr>o_layer := l, o_cache := (\<lambda>_. None)\<rparr> else v\<lparr>o_layer := l\<rparr>)"
  have w: "o_waits u = []" "o_visible u = o_box u" "cached_truthy u"
    using assms(1,2,4) Picked by (simp_all add: u_def cached_truthy_def in_order_def)
  have "overlay_step num takes k ev v = (if l \<notin> set (o_options v) then v else if o_box u then set_visible num takes k True addable u else u)"
    by (simp add: Picked layer_picked_def Let_def u_def)
  then show ?thesis using assms(1) chosen_in_order [OF w assms(3)] by simp
next
  case (BoxChanged b addable)
  then show ?thesis
    using assms(2,4) set_visible_in_order [of "v\<lparr>o_box := b\<rparr>" b takes num k addable] assms(3)
    by (simp add: box_changed_eq cached_truthy_def)
next
  case (LayerCame n a addable)
  show ?thesis
  proof (cases "map_of (o_waits v) n")
    case None
    then show ?thesis using assms(1) LayerCame by (simp add: layer_came_def)
  next
    case (Some l)
    then obtain w: "o_waits v = [(n, l)]" and l: "l = o_layer v" and b: "o_box v" "o_visible v"
      using assms(1) by (auto simp: in_order_def split: list.splits if_splits)
    have "in_order num takes k (show_data num takes k addable d (v\<lparr>o_waits := [], o_cache := (o_cache v)(l := if truthy d then Some d else None)\<rparr>))" for d
      by (rule shown_in_order) (use w l b assms(3) in simp_all)
    moreover have "in_order num takes k (give_up (v\<lparr>o_waits := []\<rparr>))" by (rule gave_up) simp
    ultimately show ?thesis using w LayerCame by (simp add: layer_came_def Let_def split: option.split)
  qed
next
  case StyleGone
  then show ?thesis
    using assms(1) by (cases k) (auto simp: style_replaced_def in_order_def shows_choice_def Let_def split: list.splits option.split)
qed

lemma step_truthy: "cached_truthy v \<Longrightarrow> cached_truthy (overlay_step num takes k ev v)"
  by (cases ev) (auto simp: cached_truthy_def loadGeodataLayers_def listed_def layer_picked_def box_changed_eq layer_came_def
      style_replaced_def set_visible_def hide_data_def give_up_def Let_def split: option.split kind.split)


section \<open>Passages of the route\<close>

text \<open>The list of the territories that a route passes (\<open>Territory\<close>), which is made of the data of the chosen layer and of
  the path; the panel keeps the pair it was made of.\<close>

record territory_panel =
  terr :: overlay
  events_on :: bool
  lastRoutePath :: "point list option"
  t_list :: "(js \<times> point list) option"
  t_waits :: "(nat \<times> jstr \<times> point list) list"
  t_count :: nat

definition updateTerritoryRouteTransitions :: "point list option \<Rightarrow> territory_panel \<Rightarrow> territory_panel" where
  "updateTerritoryRouteTransitions way st =
     (case way of
        Some (p # ps) \<Rightarrow>
          if \<not> events_on st \<or> o_layer (terr st) = [] then st\<lparr>t_list := None\<rparr>
          else (case o_cache (terr st) (o_layer (terr st)) of
                  Some d \<Rightarrow> st\<lparr>t_list := Some (d, p # ps)\<rparr>
                | None \<Rightarrow> st\<lparr>t_waits := (t_count st, o_layer (terr st), p # ps) # t_waits st, t_count := t_count st + 1\<rparr>)
      | _ \<Rightarrow> st\<lparr>t_list := None\<rparr>)"

definition transitions_came :: "nat \<Rightarrow> js option \<Rightarrow> territory_panel \<Rightarrow> territory_panel" where
  "transitions_came n a st =
     (case map_of (t_waits st) n of
        None \<Rightarrow> st
      | Some (l, way) \<Rightarrow>
          let st = st\<lparr>t_waits := filter (\<lambda>p. fst p \<noteq> n) (t_waits st)\<rparr>
          in case a of
               None \<Rightarrow> st\<lparr>t_list := None\<rparr>
             | Some d \<Rightarrow> st\<lparr>terr := (terr st)\<lparr>o_cache := (o_cache (terr st))(l := if truthy d then Some d else None)\<rparr>,
                            t_list := Some (d, way)\<rparr>)"

datatype panel_event =
    OverlayEvent overlay_event
  | EventsBox bool
  | RoutePath "point list option"
  | TransitionsCame nat "js option"

fun panel_step :: "(real \<Rightarrow> jstr) \<Rightarrow> (js \<Rightarrow> bool) \<Rightarrow> panel_event \<Rightarrow> territory_panel \<Rightarrow> territory_panel" where
  "panel_step num takes (OverlayEvent ev) st =
     (let st' = st\<lparr>terr := overlay_step num takes Territories ev (terr st)\<rparr>
      in case ev of Picked l _ \<Rightarrow> if l \<in> set (o_options (terr st)) then updateTerritoryRouteTransitions (lastRoutePath st) st' else st' | _ \<Rightarrow> st')"
| "panel_step num takes (EventsBox b) st = updateTerritoryRouteTransitions (lastRoutePath st) (st\<lparr>events_on := b\<rparr>)"
| "panel_step num takes (RoutePath way) st = updateTerritoryRouteTransitions way (st\<lparr>lastRoutePath := way\<rparr>)"
| "panel_step num takes (TransitionsCame n a) st = transitions_came n a st"

definition first_panel :: territory_panel where
  "first_panel = \<lparr>terr = no_overlay, events_on = False, lastRoutePath = None, t_list = None, t_waits = [], t_count = 0\<rparr>"

section \<open>Importing\<close>

datatype import_error = NoFile | BadName | BadType

definition layer_name_ok :: "jstr \<Rightarrow> bool" where
  "layer_name_ok s \<longleftrightarrow> s \<noteq> [] \<and> length s \<le> 64 \<and> list_all (\<lambda>c. word_char c \<or> c = 45) s"

definition import_request :: "jstr option \<Rightarrow> jstr \<Rightarrow> jstr \<Rightarrow> import_error + (jstr \<times> jstr \<times> jstr)" where
  \<comment> \<open>the name of the file, the fields of the layer and of the format; the parameters of the request\<close>
  "import_request file layer format =
     (case file of
        None \<Rightarrow> Inl NoFile
      | Some f \<Rightarrow> if \<not> layer_name_ok (trim layer) then Inl BadName
                  else Inr (trim layer, if format = [] then lit ''auto'' else format, f))"

datatype tile_upload = MBTiles | GeoTIFF jstr

definition tile_import :: "jstr option \<Rightarrow> jstr \<Rightarrow> import_error + tile_upload" where
  "tile_import file zoom =
     (case file of
        None \<Rightarrow> Inl NoFile
      | Some f \<Rightarrow>
          if rx_test (seq [Chars (lit ''.tif''), maybe (Chars (lit ''f'')), AtEnd]) f then Inr (GeoTIFF (if zoom = [] then lit ''18'' else zoom))
          else if rx_test (seq [Chars (lit ''.mbtiles''), AtEnd]) f then Inr MBTiles else Inl BadType)"

lemma import_checked: "import_request file layer format = Inr (l, g, f) \<Longrightarrow> layer_name_ok l \<and> g \<noteq> [] \<and> file = Some f"
  by (auto simp: import_request_def split: option.splits if_splits)

section \<open>Without waiting\<close>

text \<open>An answer is used whatever has happened since it was asked for: the layer is on the map though the box was
  unset meanwhile; an older choice replaces a later one; after an error the box is unset, but the data of the layer before
  stays on the map; and the list of a route that has been replaced, or that nobody wants any more, is shown.\<close>

definition any_js :: "js \<Rightarrow> bool" where "any_js = (\<lambda>x. truthy x)"

abbreviation imp :: "overlay_event list \<Rightarrow> overlay" where
  "imp evs \<equiv> fold (overlay_step (\<lambda>_. []) any_js Imported) evs no_overlay"

lemmas overlay_eval = no_overlay_def loadGeodataLayers_def listed_def layer_picked_def box_changed_eq set_visible_def hide_data_def layer_came_def
  show_data_def give_up_def prepared_def any_js_def Let_def

lemma shown_though_unset:
  assumes "v = imp [Listed [([65], False)] [] True, BoxChanged True True, BoxChanged False True, LayerCame 0 (Some (JStr [66])) True]"
  shows "\<not> o_box v" "\<not> o_visible v" "o_source v = Some (Some (JStr [66]))" "o_waits v = []"
  using assms by (simp_all add: overlay_eval)

lemma older_choice_wins:
  assumes "v = imp [Listed [([65], False), ([66], False)] [] True, BoxChanged True True, Picked [66] True, LayerCame 1 (Some (JStr [98])) True,
     LayerCame 0 (Some (JStr [97])) True]"
  shows "o_layer v = [66]" "o_source v = Some (Some (JStr [97]))" "o_waits v = []"
  using assms by (simp_all add: overlay_eval)

lemma error_keeps_data:
  assumes "v = imp [Listed [([65], False), ([66], False)] [] True, BoxChanged True True, LayerCame 0 (Some (JStr [97])) True, Picked [66] True, LayerCame 1 None True]"
  shows "\<not> o_box v" "o_source v = Some (Some (JStr [97]))"
  using assms by (simp_all add: overlay_eval)

lemma list_though_off:
  assumes "st = fold (panel_step num takes) [OverlayEvent (Listed [([65], False)] [] True), EventsBox True, RoutePath (Some [(48, 12)]), EventsBox False,
     TransitionsCame 0 (Some d)] first_panel"
  shows "\<not> events_on st" "t_list st = Some (d, [(48, 12)])"
  using assms
  by (simp_all add: first_panel_def no_overlay_def updateTerritoryRouteTransitions_def transitions_came_def listed_def Let_def)

text \<open>What was fetched of a layer of territories is never fetched again, though the server lets an import replace a layer.\<close>

lemma cache_frame [simp]: "o_cache (give_up v) = o_cache v" "o_cache (hide_data k v) = o_cache v"
  "o_cache (set_visible num takes k b addable v) = o_cache v"
  by (auto simp: set_visible_def hide_data_def give_up_def split: option.split)

lemma territories_kept:
  assumes "o_cache v l = Some d" "o_waits v = []"
  shows "o_cache (overlay_step num takes Territories ev v) l = Some d"
proof (cases ev)
  case (LayerCame n a addable)
  then show ?thesis using assms by (simp add: layer_came_def)
next
  case (Picked l' addable)
  then show ?thesis using assms(1) by (simp add: layer_picked_def Let_def)
next
  case (Listed ids announced addable)
  then show ?thesis using assms(1) by (simp add: listed_def Let_def)
next
  case (BoxChanged b addable)
  then show ?thesis using assms(1) by (simp add: box_changed_eq)
next
  case StyleGone
  then show ?thesis using assms(1) by (simp add: style_replaced_def Let_def)
qed


end
