(* ===== verification/WasmRouter.thy ===== *)
theory WasmRouter
  imports Json
begin

text \<open>
  The router that runs in the browser (\<open>src/cmd/wasm/client.mjs\<close>, \<open>src/cmd/wasm/worker.js\<close>): the client with its
  calls that wait for an answer, the worker that serves one request after the other, and the two channels between
  them, which keep the order. The Go program in the worker is a parameter (\<open>go_lib\<close>): functions from its state to
  a new one and a result, which is a thrown error (\<open>Inl\<close>) or the value that they return. What a download gives is
  part of the event that brings it. The IDs of the calls are 1, 2, ...; the first is the call \<open>init\<close> of
  \<open>createRouter\<close>. A promise is its ID; \<open>settled\<close> lists how promises ended.
\<close>

section \<open>Requests and answers\<close>

datatype wasm_err =
    AbortedErr | DisposedErr | NoGraphURL | BadURL | FatalErr string | InvalidResponse
  | ArgsNotArray | NoArguments | UnknownAction string | NotDefined | DownloadFailed string | GoError js

record request =
  r_id :: nat
  r_action :: string
  r_args :: js

type_synonym answer = "wasm_err + js"

datatype message = Answer nat answer | Fatal string

record ('g, 'b) go_lib =
  osm_init :: "'b \<Rightarrow> 'g \<Rightarrow> 'g \<times> answer"
  osm_route :: "js list \<Rightarrow> 'g \<Rightarrow> 'g \<times> answer"
  osm_reset :: "'g \<Rightarrow> 'g \<times> answer"

section \<open>The worker\<close>

datatype runtime = NotStarted | Loading | Running | Stuck wasm_err

datatype waiting = ForRuntime | ForGraph | ForBytes

record 'g worker =
  w_queue :: "request list"                  \<comment> \<open>the handlers chained to \<open>queue\<close> that have not begun\<close>
  w_busy :: "(request \<times> waiting) option"    \<comment> \<open>the handler that awaits something\<close>
  w_runtime :: runtime
  w_go :: 'g

definition checked :: "answer \<Rightarrow> answer" where
  \<comment> \<open>\<open>if (!result.ok) throw new Error(result.error)\<close>\<close>
  "checked a =
     (case a of
        Inl e \<Rightarrow> Inl e
      | Inr v \<Rightarrow> if nullish v then Inl NotDefined else if truthy (jget v ''ok'') then Inr v else Inl (GoError (jget v ''error'')))"

definition go_call :: "('g \<Rightarrow> 'g \<times> answer) \<Rightarrow> 'g worker \<Rightarrow> 'g worker \<times> answer" where
  \<comment> \<open>a call of a function that the Go program defines when it runs\<close>
  "go_call f w =
     (if w_runtime w = Running then (w\<lparr>w_go := fst (f (w_go w))\<rparr>, checked (snd (f (w_go w)))) else (w, Inl NotDefined))"

definition begin_request :: "('g, 'b) go_lib \<Rightarrow> request \<Rightarrow> 'g worker \<Rightarrow> 'g worker \<times> answer option" where
  \<comment> \<open>the handler up to its end or its first \<open>await\<close>, which is \<open>None\<close>\<close>
  "begin_request F r w =
     (if \<not> is_array (r_args r) then (w, Some (Inl ArgsNotArray))
      else if r_action r = ''init'' then
        (case elems (r_args r) of
           [] \<Rightarrow> (w, Some (Inl NoArguments))
         | a # _ \<Rightarrow>
             if nullish a then (w, Some (Inl NoArguments))
             else (case w_runtime w of
                     NotStarted \<Rightarrow> (w\<lparr>w_runtime := Loading, w_busy := Some (r, ForRuntime)\<rparr>, None)
                   | Loading \<Rightarrow> (w\<lparr>w_busy := Some (r, ForRuntime)\<rparr>, None)
                   | Running \<Rightarrow> (w\<lparr>w_busy := Some (r, ForGraph)\<rparr>, None)
                   | Stuck e \<Rightarrow> (w, Some (Inl e))))
      else if r_action r = ''route'' then map_prod id Some (go_call (osm_route F (elems (r_args r))) w)
      else if r_action r = ''reset'' then map_prod id Some (go_call (osm_reset F) w)
      else (w, Some (Inl (UnknownAction (r_action r)))))"

fun pump :: "('g, 'b) go_lib \<Rightarrow> request list \<Rightarrow> 'g worker \<Rightarrow> 'g worker \<times> message list" where
  \<comment> \<open>the handlers of the queue, each after the end of the one before\<close>
  "pump F [] w = (w\<lparr>w_queue := []\<rparr>, [])"
| "pump F (r # rs) w =
     (case begin_request F r w of
        (w', None) \<Rightarrow> (w'\<lparr>w_queue := rs\<rparr>, [])
      | (w', Some a) \<Rightarrow> let (w'', ms) = pump F rs w' in (w'', Answer (r_id r) a # ms))"

definition on_request :: "('g, 'b) go_lib \<Rightarrow> request \<Rightarrow> 'g worker \<Rightarrow> 'g worker \<times> message list" where
  "on_request F r w = (if w_busy w = None then pump F (w_queue w @ [r]) w else (w\<lparr>w_queue := w_queue w @ [r]\<rparr>, []))"

definition end_request :: "('g, 'b) go_lib \<Rightarrow> request \<Rightarrow> answer \<Rightarrow> 'g worker \<Rightarrow> 'g worker \<times> message list" where
  "end_request F r a w = (let (w', ms) = pump F (w_queue w) (w\<lparr>w_busy := None\<rparr>) in (w', Answer (r_id r) a # ms))"

definition runtime_answer :: "('g, 'b) go_lib \<Rightarrow> wasm_err option \<Rightarrow> 'g worker \<Rightarrow> 'g worker \<times> message list" where
  \<comment> \<open>the end of \<open>start\<close>, an error (\<open>Some\<close>) or the running program\<close>
  "runtime_answer F e w =
     (case w_busy w of
        Some (r, ForRuntime) \<Rightarrow>
          (case e of
             None \<Rightarrow> (w\<lparr>w_runtime := Running, w_busy := Some (r, ForGraph)\<rparr>, [])
           | Some x \<Rightarrow> end_request F r (Inl x) (w\<lparr>w_runtime := Stuck x\<rparr>))
      | _ \<Rightarrow> (w, []))"

definition graph_answer :: "('g, 'b) go_lib \<Rightarrow> wasm_err option \<Rightarrow> 'g worker \<Rightarrow> 'g worker \<times> message list" where
  \<comment> \<open>the head of the download of the graph\<close>
  "graph_answer F e w =
     (case w_busy w of
        Some (r, ForGraph) \<Rightarrow>
          (case e of None \<Rightarrow> (w\<lparr>w_busy := Some (r, ForBytes)\<rparr>, []) | Some x \<Rightarrow> end_request F r (Inl x) w)
      | _ \<Rightarrow> (w, []))"

definition bytes_answer :: "('g, 'b) go_lib \<Rightarrow> wasm_err + 'b \<Rightarrow> 'g worker \<Rightarrow> 'g worker \<times> message list" where
  "bytes_answer F d w =
     (case w_busy w of
        Some (r, ForBytes) \<Rightarrow>
          (case d of
             Inl x \<Rightarrow> end_request F r (Inl x) w
           | Inr b \<Rightarrow> (let (w', a) = go_call (osm_init F b) w in end_request F r a w'))
      | _ \<Rightarrow> (w, []))"

section \<open>The client\<close>

datatype router = Starting | Usable | Failed wasm_err   \<comment> \<open>the promise of \<open>createRouter\<close>\<close>

record client =
  pending :: "nat list"                      \<comment> \<open>the keys of the map, in order\<close>
  next_id :: nat
  is_closed :: bool
  router :: router
  settled :: "(nat \<times> answer) list"
  refused :: nat                            \<comment> \<open>calls after the end\<close>

definition close_client :: "wasm_err \<Rightarrow> client \<Rightarrow> client" where
  "close_client e c =
     (if is_closed c then c
      else c\<lparr>is_closed := True, settled := settled c @ map (\<lambda>i. (i, Inl e)) (pending c), pending := []\<rparr>)"

definition after_init :: "client \<Rightarrow> client" where
  \<comment> \<open>what follows \<open>await call('init')\<close> when that promise has ended\<close>
  "after_init c =
     (if router c \<noteq> Starting then c
      else case map_of (settled c) 1 of
             None \<Rightarrow> c
           | Some (Inr _) \<Rightarrow> c\<lparr>router := Usable\<rparr>
           | Some (Inl e) \<Rightarrow> (close_client e c)\<lparr>router := Failed e\<rparr>)"

definition settle :: "nat \<Rightarrow> answer \<Rightarrow> client \<Rightarrow> client" where
  "settle i a c =
     (if i \<in> set (pending c) then c\<lparr>pending := filter (\<lambda>j. j \<noteq> i) (pending c), settled := settled c @ [(i, a)]\<rparr> else c)"

fun on_message :: "message \<Rightarrow> client \<Rightarrow> client" where
  "on_message (Fatal e) c = close_client (FatalErr e) c"
| "on_message (Answer i a) c = settle i a c"

definition call :: "string \<Rightarrow> js \<Rightarrow> wasm_err option \<Rightarrow> client \<Rightarrow> client \<times> request list" where
  \<comment> \<open>the request, if it is sent; \<open>Some\<close> is an exception of \<open>postMessage\<close>\<close>
  "call action args e c =
     (if is_closed c then (c\<lparr>refused := refused c + 1\<rparr>, [])
      else let i = next_id c + 1
           in case e of
                None \<Rightarrow> (c\<lparr>next_id := i, pending := pending c @ [i]\<rparr>, [\<lparr>r_id = i, r_action = action, r_args = args\<rparr>])
              | Some x \<Rightarrow> (c\<lparr>next_id := i, settled := settled c @ [(i, Inl x)]\<rparr>, []))"

section \<open>Both\<close>

record 'g wasm =
  cl :: client
  wk :: "'g worker"
  to_worker :: "request list"
  to_client :: "message list"

datatype 'b wasm_event =
    RouteCall "js list" "wasm_err option"
  | Dispose
  | Abort
  | WorkerFails string
  | BadMessage
  | ClientReads
  | WorkerReads
  | RuntimeAnswer "wasm_err option"
  | GraphAnswer "wasm_err option"
  | BytesAnswer "wasm_err + 'b"
  | GoExits string

definition at_client :: "(client \<Rightarrow> client) \<Rightarrow> 'g wasm \<Rightarrow> 'g wasm" where
  "at_client f s = s\<lparr>cl := after_init (f (cl s))\<rparr>"

definition at_worker :: "('g worker \<Rightarrow> 'g worker \<times> message list) \<Rightarrow> 'g wasm \<Rightarrow> 'g wasm" where
  \<comment> \<open>a worker that was terminated does nothing\<close>
  "at_worker f s = (if is_closed (cl s) then s else s\<lparr>wk := fst (f (wk s)), to_client := to_client s @ snd (f (wk s))\<rparr>)"

fun wasm_step :: "('g, 'b) go_lib \<Rightarrow> 'b wasm_event \<Rightarrow> 'g wasm \<Rightarrow> 'g wasm" where
  "wasm_step F (RouteCall args e) s =
     (if router (cl s) = Usable
      then let (c, rs) = call ''route'' (JArr args) e (cl s) in s\<lparr>cl := c, to_worker := to_worker s @ rs\<rparr>
      else s)"
| "wasm_step F Dispose s = (if router (cl s) = Usable then at_client (close_client DisposedErr) s else s)"
| "wasm_step F Abort s = at_client (close_client AbortedErr) s"
| "wasm_step F (WorkerFails e) s = at_client (close_client (FatalErr e)) s"
| "wasm_step F BadMessage s = at_client (close_client InvalidResponse) s"
| "wasm_step F ClientReads s =
     (case to_client s of [] \<Rightarrow> s | m # ms \<Rightarrow> at_client (on_message m) (s\<lparr>to_client := ms\<rparr>))"
| "wasm_step F WorkerReads s =
     (case to_worker s of [] \<Rightarrow> s | r # rs \<Rightarrow> if is_closed (cl s) then s else at_worker (on_request F r) (s\<lparr>to_worker := rs\<rparr>))"
| "wasm_step F (RuntimeAnswer e) s = at_worker (runtime_answer F e) s"
| "wasm_step F (GraphAnswer e) s = at_worker (graph_answer F e) s"
| "wasm_step F (BytesAnswer d) s = at_worker (bytes_answer F d) s"
| "wasm_step F (GoExits e) s = at_worker (\<lambda>w. (w, [Fatal e])) s"

definition createRouter :: "bool \<Rightarrow> bool \<Rightarrow> js option \<Rightarrow> wasm_err option \<Rightarrow> 'g \<Rightarrow> wasm_err + 'g wasm" where
  \<comment> \<open>up to the answer to \<open>init\<close>; the addresses resolved, \<open>None\<close> when one is not an address\<close>
  "createRouter aborted graphURL urls e g =
     (if aborted then Inl AbortedErr
      else if \<not> graphURL then Inl NoGraphURL
      else case urls of
             None \<Rightarrow> Inl BadURL
           | Some u \<Rightarrow>
               let (c, rs) = call ''init'' (JArr [u]) e
                     \<lparr>pending = [], next_id = 0, is_closed = False, router = Starting, settled = [], refused = 0\<rparr>
               in Inr \<lparr>cl = after_init c, wk = \<lparr>w_queue = [], w_busy = None, w_runtime = NotStarted, w_go = g\<rparr>,
                       to_worker = rs, to_client = []\<rparr>)"

fun sent :: "'b wasm_event \<Rightarrow> 'g wasm \<Rightarrow> request list" where
  \<comment> \<open>what the event makes the client send\<close>
  "sent (RouteCall args e) s = (if router (cl s) = Usable then snd (call ''route'' (JArr args) e (cl s)) else [])"
| "sent _ s = []"

text \<open>A run, with the requests that were sent in it.\<close>

inductive wasm_run :: "('g, 'b) go_lib \<Rightarrow> 'g \<Rightarrow> request list \<Rightarrow> 'g wasm \<Rightarrow> bool" for F g where
  created: "createRouter False True (Some u) e g = Inr s \<Longrightarrow> wasm_run F g (to_worker s) s"
| stepped: "wasm_run F g h s \<Longrightarrow> wasm_run F g (h @ sent ev s) (wasm_step F ev s)"

section \<open>The promises\<close>

definition promises_ok :: "client \<Rightarrow> bool" where
  \<comment> \<open>every call waits or has ended, and has ended once\<close>
  "promises_ok c \<longleftrightarrow>
     distinct (map fst (settled c) @ pending c) \<and> set (map fst (settled c) @ pending c) = {1..next_id c}
     \<and> (is_closed c \<longrightarrow> pending c = [])
     \<and> (router c = Starting \<longrightarrow> \<not> is_closed c \<and> next_id c = 1 \<and> pending c = [1] \<and> settled c = [])
     \<and> (\<forall>e. router c = Failed e \<longrightarrow> is_closed c)"

lemma promises_close:
  assumes "promises_ok c" shows "promises_ok (after_init (close_client e c))"
proof (cases "is_closed c")
  case True
  then show ?thesis using assms by (auto simp: close_client_def after_init_def promises_ok_def)
next
  case False
  show ?thesis
  proof (cases "router c = Starting")
    case True
    then have "pending c = [1]" "settled c = []" "next_id c = 1"
      using assms False by (auto simp: promises_ok_def)
    then show ?thesis using True False by (simp add: promises_ok_def close_client_def after_init_def)
  next
    case R: False
    have m: "map (fst \<circ> (\<lambda>i. (i, Inl e))) xs = xs" for xs :: "nat list" by (induction xs) auto
    show ?thesis
      using assms False R by (auto simp: promises_ok_def close_client_def after_init_def m)
  qed
qed

lemma settle_head:
  assumes "promises_ok c" "pending c = i # is"
  shows "settle i a c = c\<lparr>pending := is, settled := settled c @ [(i, a)]\<rparr>"
proof -
  have "filter (\<lambda>j. j \<noteq> i) is = is" using assms by (auto simp: promises_ok_def filter_id_conv)
  then show ?thesis using assms(2) by (simp add: settle_def)
qed

lemma promises_settle:
  assumes "promises_ok c" shows "promises_ok (after_init (settle i a c))"
proof (cases "i \<in> set (pending c)")
  case False
  then have "settle i a c = c" by (simp add: settle_def)
  then show ?thesis using assms by (auto simp: after_init_def promises_ok_def split: option.split)
next
  case True
  let ?c = "settle i a c"
  have c: "?c = c\<lparr>pending := filter (\<lambda>j. j \<noteq> i) (pending c), settled := settled c @ [(i, a)]\<rparr>"
    using True by (simp add: settle_def)
  show ?thesis
  proof (cases "router c = Starting")
    case S: True
    then have "pending c = [1]" "settled c = []" "next_id c = 1" "\<not> is_closed c"
      using assms by (auto simp: promises_ok_def)
    then show ?thesis
      using True S unfolding c by (cases a) (auto simp: after_init_def promises_ok_def close_client_def)
  next
    case False
    have n: "\<not> is_closed c" using True assms by (auto simp: promises_ok_def)
    have d: "distinct (map fst (settled ?c) @ pending ?c)"
      using assms True by (auto simp: c promises_ok_def)
    have "set (map fst (settled ?c) @ pending ?c) = insert i (set (map fst (settled c) @ pending c))"
      using True by (auto simp: c)
    also have "\<dots> = {1..next_id c}" using True assms by (auto simp: promises_ok_def)
    finally show ?thesis using assms d False n by (simp add: c after_init_def promises_ok_def)
  qed
qed

lemma promises_call:
  assumes "promises_ok c" "router c = Usable" shows "promises_ok (fst (call x y e c))"
proof (cases "is_closed c")
  case True
  then show ?thesis using assms by (auto simp: promises_ok_def call_def)
next
  case False
  have s: "set (map fst (settled c) @ pending c) = {1..next_id c}" using assms(1) by (simp add: promises_ok_def)
  then have "Suc (next_id c) \<notin> set (map fst (settled c)) \<and> Suc (next_id c) \<notin> set (pending c)"
    by (metis Suc_n_not_le_n UnCI atLeastAtMost_iff set_append)
  moreover have "insert (Suc (next_id c)) {1..next_id c} = {1..Suc (next_id c)}" by auto
  ultimately show ?thesis
    using assms False s by (cases e) (auto simp: promises_ok_def call_def Let_def)
qed

lemma promises_message: "promises_ok c \<Longrightarrow> promises_ok (after_init (on_message m c))"
  using promises_close promises_settle by (cases m) auto

lemma promises_step: "promises_ok (cl s) \<Longrightarrow> promises_ok (cl (wasm_step F ev s))"
proof (cases ev)
  case (RouteCall args e)
  assume "promises_ok (cl s)"
  then show ?thesis using RouteCall promises_call [of "cl s" "''route''" "JArr args" e] by (auto split: prod.split)
qed (use promises_close promises_message in \<open>auto simp: at_client_def at_worker_def split: list.split\<close>)

section \<open>The worker as a server of one request after the other\<close>

fun after_routes :: "('g, 'b) go_lib \<Rightarrow> request list \<Rightarrow> 'g \<Rightarrow> 'g" where
  "after_routes F [] g = g"
| "after_routes F (r # rs) g = after_routes F rs (fst (osm_route F (elems (r_args r)) g))"

definition reply :: "('g, 'b) go_lib \<Rightarrow> request list \<Rightarrow> request \<Rightarrow> 'g \<Rightarrow> answer" where
  \<comment> \<open>the answer to \<open>r\<close> after the routes \<open>before\<close>, with the graph of \<open>g\<close>\<close>
  "reply F before r g = checked (snd (osm_route F (elems (r_args r)) (after_routes F before g)))"

fun answers_in :: "message list \<Rightarrow> (nat \<times> answer) list" where
  "answers_in [] = []"
| "answers_in (Answer i a # ms) = (i, a) # answers_in ms"
| "answers_in (Fatal e # ms) = answers_in ms"

definition on_way :: "'g wasm \<Rightarrow> request list" where
  \<comment> \<open>the requests that have no answer yet, in the order in which they will get one\<close>
  "on_way s = (case w_busy (wk s) of Some (r, _) \<Rightarrow> [r] | None \<Rightarrow> []) @ w_queue (wk s) @ to_worker s"

text \<open>\<open>P\<close> is the list of the answers that the worker has posted.\<close>

fun served :: "('g, 'b) go_lib \<Rightarrow> 'g \<Rightarrow> request list \<Rightarrow> (nat \<times> answer) list \<Rightarrow> 'g worker \<Rightarrow> bool" where
  "served F g h [] w \<longleftrightarrow> w_go w = g
     \<and> (case w_busy w of
          None \<Rightarrow> w_runtime w = NotStarted
        | Some (_, k) \<Rightarrow> w_runtime w = (if k = ForRuntime then Loading else Running))"
| "served F g h ((i, a) # ps) w \<longleftrightarrow> w_busy w = None
     \<and> (\<forall>v. a = Inr v \<longrightarrow> w_runtime w = Running
          \<and> (\<exists>b. checked (snd (osm_init F b g)) = Inr v
               \<and> w_go w = after_routes F (take (length ps) (tl h)) (fst (osm_init F b g))
               \<and> (\<forall>k < length ps. snd (ps ! k) = reply F (take k (tl h)) (tl h ! k) (fst (osm_init F b g)))))"

definition started :: "(nat \<times> answer) list \<Rightarrow> bool" where
  "started P \<longleftrightarrow> (\<exists>i v ps. P = (i, Inr v) # ps)"

definition requests_ok :: "request list \<Rightarrow> bool" where
  "requests_ok h \<longleftrightarrow> (case h of [] \<Rightarrow> True
     | r # rs \<Rightarrow> r_action r = ''init'' \<and> r_id r = 1 \<and> list_all (\<lambda>q. r_action q = ''route'' \<and> is_array (r_args q)) rs)"

definition linked :: "('g, 'b) go_lib \<Rightarrow> 'g \<Rightarrow> request list \<Rightarrow> (nat \<times> answer) list \<Rightarrow> 'g wasm \<Rightarrow> bool" where
  "linked F g h P s \<longleftrightarrow>
     w_queue (wk s) = [] \<and> length P \<le> length h \<and> map fst P = map r_id (take (length P) h)
     \<and> requests_ok h \<and> served F g h P (wk s)
     \<and> set (answers_in (to_client s)) \<subseteq> set P \<and> (\<forall>i v. (i, Inr v) \<in> set (settled (cl s)) \<longrightarrow> (i, Inr v) \<in> set P)
     \<and> (router (cl s) = Usable \<or> tl h \<noteq> [] \<longrightarrow> started P)
     \<and> (router (cl s) = Starting \<longrightarrow> tl h = [])
     \<and> (\<not> is_closed (cl s) \<longrightarrow> drop (length P) h = on_way s
         \<and> pending (cl s) = map fst (answers_in (to_client s)) @ map r_id (on_way s))"

lemma answers_in_append [simp]: "answers_in (ms @ ns) = answers_in ms @ answers_in ns"
  by (induction ms rule: answers_in.induct) auto

lemma after_routes_snoc: "after_routes F (rs @ [r]) g = fst (osm_route F (elems (r_args r)) (after_routes F rs g))"
  by (induction rs arbitrary: g) auto

lemma close_facts:
  "is_closed (after_init (close_client e c))"
  "(i, Inr v) \<in> set (settled (after_init (close_client e c))) \<longleftrightarrow> (i, Inr v) \<in> set (settled c)"
  by (auto simp: close_client_def after_init_def split: option.split sum.split)

lemma close_router:
  assumes "promises_ok c"
  shows "router (after_init (close_client e c)) = (if router c = Starting then Failed e else router c)"
  using assms by (auto simp: close_client_def after_init_def promises_ok_def)

lemma linked_close:
  assumes "linked F g h P s" "promises_ok (cl s)"
  shows "linked F g h P (at_client (close_client e) s)"
  using assms by (auto simp: linked_def at_client_def close_facts close_router)

lemma linked_read:
  assumes "linked F g h P s" "promises_ok (cl s)" "to_client s = Answer i a # ms"
  shows "linked F g h P (at_client (settle i a) (s\<lparr>to_client := ms\<rparr>))"
proof (cases "is_closed (cl s)")
  case True
  then have "settle i a (cl s) = cl s" "router (cl s) \<noteq> Starting"
    using assms(2) by (auto simp: promises_ok_def settle_def)
  then show ?thesis using assms True by (auto simp: linked_def at_client_def after_init_def)
next
  case False
  let ?way = "on_way s"
  have p: "pending (cl s) = i # map fst (answers_in ms) @ map r_id ?way"
    using assms(1,3) False by (simp add: linked_def)
  note c = settle_head [OF assms(2) p, of a]
  have ia: "(i, a) \<in> set P" using assms(1,3) by (simp add: linked_def)
  have way: "on_way (at_client f (s\<lparr>to_client := ms\<rparr>)) = ?way" for f by (simp add: on_way_def at_client_def)
  show ?thesis
  proof (cases "router (cl s) = Starting")
    case R: False
    then show ?thesis using assms(1,3) False ia by (auto simp: linked_def way) (auto simp: at_client_def c after_init_def)
  next
    case True
    then have s: "i = 1" "answers_in ms = []" "?way = []" "settled (cl s) = []" "tl h = []"
      using assms(1,2) p by (auto simp: promises_ok_def linked_def)
    then have "length h \<le> 1" by (cases h) auto
    then have "length P \<le> 1" using assms(1) by (simp add: linked_def)
    then have P: "P = [(1, a)]" using ia s(1) by (cases P) auto
    let ?c = "(cl s)\<lparr>pending := [], settled := [(1, a)], is_closed := (case a of Inl e \<Rightarrow> True | Inr _ \<Rightarrow> False),
        router := (case a of Inl e \<Rightarrow> Failed e | Inr _ \<Rightarrow> Usable)\<rparr>"
    have c: "after_init (settle i a (cl s)) = ?c"
      using s True False p unfolding c by (cases "cl s"; cases a) (simp_all add: after_init_def close_client_def)
    have "at_client (settle i a) (s\<lparr>to_client := ms\<rparr>) = s\<lparr>to_client := ms, cl := ?c\<rparr>"
      unfolding at_client_def by (simp add: c)
    moreover have "linked F g h P (s\<lparr>to_client := ms, cl := ?c\<rparr>)"
      using assms(1,3) True False s P unfolding on_way_def
      by (cases a) (simp_all add: linked_def started_def on_way_def)
    ultimately show ?thesis by simp
  qed
qed

lemma served_more:
  assumes "served F g h P w" "length P \<le> length h"
  shows "served F g (h @ q) P w"
proof (cases P)
  case (Cons x ps)
  obtain i a where x: "x = (i, a)" by (cases x)
  obtain r rs where h: "h = r # rs" "length ps \<le> length rs" using assms(2) Cons by (cases h) auto
  have t: "take k (rs @ q) = take k rs" if "k \<le> length ps" for k using that h by simp
  have n: "(rs @ q) ! k = rs ! k" if "k < length ps" for k using that h by (simp add: nth_append)
  show ?thesis
    using assms(1) h(2) unfolding Cons x h(1) by (cases a) (simp_all add: t n cong: conj_cong)
qed (use assms in simp)

lemma linked_call:
  assumes "linked F g h P s" "router (cl s) = Usable"
  shows "linked F g (h @ snd (call ''route'' (JArr args) e (cl s))) P
    (s\<lparr>cl := fst (call ''route'' (JArr args) e (cl s)), to_worker := to_worker s @ snd (call ''route'' (JArr args) e (cl s))\<rparr>)"
proof (cases "is_closed (cl s) \<or> e \<noteq> None")
  case True
  then show ?thesis using assms by (auto simp: linked_def call_def Let_def on_way_def)
next
  case False
  have l: "length P \<le> length h" "started P" using assms by (auto simp: linked_def)
  then have h: "h \<noteq> []" "tl (h @ q) = tl h @ q" for q by (auto simp: started_def tl_append split: list.split)
  let ?r = "\<lparr>r_id = Suc (next_id (cl s)), r_action = ''route'', r_args = JArr args\<rparr>"
  have "served F g h P (wk s)" using assms(1) by (simp add: linked_def)
  then have "served F g (h @ [?r]) P (wk s)" using l(1) by (rule served_more)
  moreover have "requests_ok (h @ [?r])" using assms(1) h(1) by (cases h) (simp_all add: linked_def requests_ok_def)
  ultimately show ?thesis
    using False assms l h by (simp add: linked_def call_def Let_def on_way_def)
qed

lemma awaiting:
  assumes "linked F g h P s" "\<not> is_closed (cl s)" "w_busy (wk s) = Some (r, k)"
  shows "P = []" "h = [r]" "to_worker s = []" "w_queue (wk s) = []" "w_go (wk s) = g"
    "w_runtime (wk s) = (if k = ForRuntime then Loading else Running)"
proof -
  show P: "P = []" using assms by (cases P) (auto simp: linked_def)
  then have "tl h = []" "h = r # to_worker s"
    using assms by (auto simp: linked_def started_def on_way_def)
  then show "h = [r]" "to_worker s = []" by auto
  show "w_queue (wk s) = []" "w_go (wk s) = g" "w_runtime (wk s) = (if k = ForRuntime then Loading else Running)"
    using assms P by (auto simp: linked_def)
qed

lemma linked_wait:
  assumes "linked F g h P s" "\<not> is_closed (cl s)" "w_busy (wk s) = Some (r, k)" "w' = (wk s)\<lparr>w_busy := Some (r, j), w_runtime := Running\<rparr>"
    "j \<noteq> ForRuntime"
  shows "linked F g h P (s\<lparr>wk := w'\<rparr>)"
  using awaiting [OF assms(1-3)] assms by (auto simp: linked_def on_way_def)

lemma end_request_eq:
  "w_queue w = [] \<Longrightarrow> end_request F r a w = (w\<lparr>w_busy := None, w_queue := []\<rparr>, [Answer (r_id r) a])"
  by (simp add: end_request_def)

lemma linked_end:
  assumes "linked F g h P s" "\<not> is_closed (cl s)" "w_busy (wk s) = Some (r, k)"
    "w_busy w' = None" "w_queue w' = []"
    "\<And>v. a = Inr v \<Longrightarrow> w_runtime w' = Running \<and> (\<exists>b. checked (snd (osm_init F b g)) = Inr v \<and> w_go w' = fst (osm_init F b g))"
  shows "linked F g h [(r_id r, a)] (s\<lparr>wk := w', to_client := to_client s @ [Answer (r_id r) a]\<rparr>)"
  using awaiting [OF assms(1-3)] assms by (auto simp: linked_def on_way_def started_def)

lemma linked_runtime:
  assumes "linked F g h P s"
  shows "\<exists>P'. linked F g h P' (at_worker (runtime_answer F e) s)"
proof (cases "is_closed (cl s) \<or> (\<nexists>r. w_busy (wk s) = Some (r, ForRuntime))")
  case True
  then have "at_worker (runtime_answer F e) s = s"
    by (auto simp: at_worker_def runtime_answer_def split: option.split waiting.split)
  then show ?thesis using assms by auto
next
  case False
  then obtain r where r: "\<not> is_closed (cl s)" "w_busy (wk s) = Some (r, ForRuntime)" by blast
  show ?thesis
  proof (cases e)
    case None
    have "linked F g h P (s\<lparr>wk := (wk s)\<lparr>w_runtime := Running, w_busy := Some (r, ForGraph)\<rparr>\<rparr>)"
      by (rule linked_wait [OF assms r, of _ ForGraph]) simp_all
    then show ?thesis using None r by (auto simp: at_worker_def runtime_answer_def)
  next
    case (Some x)
    note w = awaiting [OF assms r]
    show ?thesis
      using linked_end [OF assms r, of "(wk s)\<lparr>w_runtime := Stuck x, w_busy := None, w_queue := []\<rparr>" "Inl x"] Some r w
      by (auto simp: at_worker_def runtime_answer_def end_request_eq)
  qed
qed

lemma linked_graph:
  assumes "linked F g h P s"
  shows "\<exists>P'. linked F g h P' (at_worker (graph_answer F e) s)"
proof (cases "is_closed (cl s) \<or> (\<nexists>r. w_busy (wk s) = Some (r, ForGraph))")
  case True
  then have "at_worker (graph_answer F e) s = s"
    by (auto simp: at_worker_def graph_answer_def split: option.split waiting.split)
  then show ?thesis using assms by auto
next
  case False
  then obtain r where r: "\<not> is_closed (cl s)" "w_busy (wk s) = Some (r, ForGraph)" by blast
  note w = awaiting [OF assms r]
  show ?thesis
  proof (cases e)
    case None
    have "linked F g h P (s\<lparr>wk := (wk s)\<lparr>w_busy := Some (r, ForBytes)\<rparr>\<rparr>)"
      by (rule linked_wait [OF assms r, of _ ForBytes]) (use w in simp_all)
    then show ?thesis using None r by (auto simp: at_worker_def graph_answer_def)
  next
    case (Some x)
    show ?thesis
      using linked_end [OF assms r, of "(wk s)\<lparr>w_busy := None, w_queue := []\<rparr>" "Inl x"] Some r w
      by (auto simp: at_worker_def graph_answer_def end_request_eq)
  qed
qed

lemma linked_bytes:
  assumes "linked F g h P s"
  shows "\<exists>P'. linked F g h P' (at_worker (bytes_answer F d) s)"
proof (cases "is_closed (cl s) \<or> (\<nexists>r. w_busy (wk s) = Some (r, ForBytes))")
  case True
  then have "at_worker (bytes_answer F d) s = s"
    by (auto simp: at_worker_def bytes_answer_def split: option.split waiting.split)
  then show ?thesis using assms by auto
next
  case False
  then obtain r where r: "\<not> is_closed (cl s)" "w_busy (wk s) = Some (r, ForBytes)" by blast
  note w = awaiting [OF assms r]
  show ?thesis
  proof (cases d)
    case (Inl x)
    show ?thesis
      using linked_end [OF assms r, of "(wk s)\<lparr>w_busy := None, w_queue := []\<rparr>" "Inl x"] Inl r w
      by (auto simp: at_worker_def bytes_answer_def end_request_eq)
  next
    case (Inr b)
    let ?w = "(wk s)\<lparr>w_go := fst (osm_init F b g), w_busy := None, w_queue := []\<rparr>"
    have "linked F g h [(r_id r, checked (snd (osm_init F b g)))]
        (s\<lparr>wk := ?w, to_client := to_client s @ [Answer (r_id r) (checked (snd (osm_init F b g)))]\<rparr>)"
      by (rule linked_end [OF assms r]) (use w in auto)
    then show ?thesis using Inr r w by (auto simp: at_worker_def bytes_answer_def go_call_def end_request_eq)
  qed
qed

lemma begin_init:
  assumes "r_action r = ''init''" "w_runtime w = NotStarted"
  shows "(\<exists>e. begin_request F r w = (w, Some (Inl e)))
    \<or> begin_request F r w = (w\<lparr>w_runtime := Loading, w_busy := Some (r, ForRuntime)\<rparr>, None)"
  unfolding begin_request_def using assms by (simp split: list.split)

lemma begin_route:
  assumes "r_action r = ''route''" "is_array (r_args r)" "w_runtime w = Running"
  shows "begin_request F r w = (w\<lparr>w_go := fst (osm_route F (elems (r_args r)) (w_go w))\<rparr>,
    Some (checked (snd (osm_route F (elems (r_args r)) (w_go w)))))"
  using assms by (simp add: begin_request_def go_call_def)

lemma linked_request:
  assumes "linked F g h P s" "\<not> is_closed (cl s)" "to_worker s = r # rs"
  shows "\<exists>P'. linked F g h P' (at_worker (on_request F r) (s\<lparr>to_worker := rs\<rparr>))"
proof -
  have b: "w_busy (wk s) = None" using awaiting(3) [OF assms(1,2)] assms(3) by (cases "w_busy (wk s)") auto
  have q: "w_queue (wk s) = []" and d: "drop (length P) h = r # rs" using assms b by (simp_all add: linked_def on_way_def)
  show ?thesis
  proof (cases P)
    case Nil
    then have h: "h = r # rs" using d by simp
    then have rs: "rs = []" using assms(1) Nil by (auto simp: linked_def started_def)
    have i: "r_action r = ''init''" "w_runtime (wk s) = NotStarted" "w_go (wk s) = g"
      using assms(1) Nil h b by (auto simp: linked_def requests_ok_def)
    consider e where "begin_request F r (wk s) = (wk s, Some (Inl e))"
      | "begin_request F r (wk s) = ((wk s)\<lparr>w_runtime := Loading, w_busy := Some (r, ForRuntime)\<rparr>, None)"
      using begin_init [OF i(1,2)] by blast
    then show ?thesis
    proof cases
      case (1 e)
      then have "linked F g h [(r_id r, Inl e)] (at_worker (on_request F r) (s\<lparr>to_worker := rs\<rparr>))"
        using assms Nil h rs b q i by (simp add: at_worker_def on_request_def linked_def on_way_def started_def)
      then show ?thesis by blast
    next
      case 2
      then have "linked F g h [] (at_worker (on_request F r) (s\<lparr>to_worker := rs\<rparr>))"
        using assms Nil h rs b q i by (simp add: at_worker_def on_request_def linked_def on_way_def started_def)
      then show ?thesis by blast
    qed
  next
    case (Cons x ps)
    then have ne: "tl h \<noteq> []" using d by (cases h) auto
    then obtain i v where P: "P = (i, Inr v) # ps" using assms(1) Cons by (auto simp: linked_def started_def)
    obtain h0 hs where h: "h = h0 # hs" using ne by (cases h) auto
    have dh: "drop (length ps) hs = r # rs" using d Cons h by simp
    then have "length ps < length hs" by (metis drop_all linorder_not_less list.distinct(1))
    moreover have "hs ! length ps = r" using dh by (rule nth_via_drop)
    moreover have "drop (Suc (length ps)) hs = rs" using dh by (metis drop_Suc list.sel(3) tl_drop)
    ultimately have hs: "hs ! length ps = r" "length ps < length hs" "drop (Suc (length ps)) hs = rs" by auto
    then have r: "r_action r = ''route''" "is_array (r_args r)"
      using assms(1) h nth_mem [OF hs(2)] by (auto simp: linked_def requests_ok_def list_all_iff)
    have sv: "served F g h P (wk s)" using assms(1) by (simp add: linked_def)
    then have run: "w_runtime (wk s) = Running" by (simp add: P)
    note br = begin_route [OF r run, of F]
    let ?a = "checked (snd (osm_route F (elems (r_args r)) (w_go (wk s))))"
    let ?w = "(wk s)\<lparr>w_go := fst (osm_route F (elems (r_args r)) (w_go (wk s))), w_queue := []\<rparr>"
    have t: "take (Suc (length ps)) hs = take (length ps) hs @ [r]" using hs by (simp add: take_Suc_conv_app_nth)
    obtain b where b': "checked (snd (osm_init F b g)) = Inr v"
        "w_go (wk s) = after_routes F (take (length ps) hs) (fst (osm_init F b g))"
        "\<forall>k < length ps. snd (ps ! k) = reply F (take k hs) (hs ! k) (fst (osm_init F b g))"
      using sv by (auto simp: P h)
    have "served F g h (P @ [(r_id r, ?a)]) ?w"
      using b b' run hs by (auto simp: P h t after_routes_snoc reply_def nth_append less_Suc_eq intro!: exI [of _ b])
    then have "linked F g h (P @ [(r_id r, ?a)]) (at_worker (on_request F r) (s\<lparr>to_worker := rs\<rparr>))"
      using assms b q hs P h t
      by (auto simp: at_worker_def on_request_def br linked_def on_way_def started_def)
    then show ?thesis by blast
  qed
qed

lemma linked_exit: "linked F g h P s \<Longrightarrow> linked F g h P (at_worker (\<lambda>w. (w, [Fatal e])) s)"
  by (simp add: linked_def at_worker_def on_way_def)

lemma linked_step:
  assumes "linked F g h P s" "promises_ok (cl s)"
  shows "\<exists>P'. linked F g (h @ sent ev s) P' (wasm_step F ev s)"
proof (cases ev)
  case (RouteCall args e)
  then show ?thesis using linked_call [OF assms(1), of args e] assms(1) by (auto simp: case_prod_unfold Let_def)
next
  case Dispose
  then show ?thesis using assms linked_close [OF assms] by auto
next
  case ClientReads
  show ?thesis
  proof (cases "to_client s")
    case Nil
    then show ?thesis using ClientReads assms by auto
  next
    case (Cons m ms)
    show ?thesis
    proof (cases m)
      case (Answer i a)
      then have "at_client (on_message m) (s\<lparr>to_client := ms\<rparr>) = at_client (settle i a) (s\<lparr>to_client := ms\<rparr>)"
        by (simp add: at_client_def)
      then show ?thesis using linked_read [OF assms, of i a ms] ClientReads Cons Answer by auto
    next
      case (Fatal e)
      have "linked F g h P (s\<lparr>to_client := ms\<rparr>)" using assms(1) Cons Fatal by (simp add: linked_def on_way_def)
      then have "linked F g h P (at_client (close_client (FatalErr e)) (s\<lparr>to_client := ms\<rparr>))"
        by (rule linked_close) (use assms(2) in simp)
      then show ?thesis using ClientReads Cons Fatal by (auto simp: at_client_def)
    qed
  qed
next
  case WorkerReads
  then show ?thesis using assms(1) linked_request [OF assms(1)] by (cases "to_worker s") auto
next
  case (GoExits e)
  then show ?thesis using linked_exit [OF assms(1), of e] by (intro exI [of _ P]) simp
qed (use linked_close [OF assms] linked_runtime [OF assms(1)] linked_graph [OF assms(1)] linked_bytes [OF assms(1)] in auto)

lemma created_ok:
  assumes "createRouter False True (Some u) e g = Inr s"
  shows "promises_ok (cl s) \<and> linked F g (to_worker s) [] s"
proof (cases e)
  case None
  then show ?thesis
    using assms by (auto simp: createRouter_def call_def after_init_def promises_ok_def linked_def requests_ok_def on_way_def)
next
  case (Some x)
  then show ?thesis
    using assms by (auto simp: createRouter_def call_def after_init_def promises_ok_def linked_def requests_ok_def
        on_way_def close_client_def)
qed

lemma wasm_invariant:
  assumes "wasm_run F g h s" shows "promises_ok (cl s) \<and> (\<exists>P. linked F g h P s)"
  using assms
proof (induction rule: wasm_run.induct)
  case (created u e s)
  then show ?case using created_ok [OF created, of F] by (intro conjI exI [of _ "[]"]) simp_all
next
  case (stepped h s ev)
  then obtain P where "promises_ok (cl s)" "linked F g h P s" by auto
  then show ?case using promises_step [of s F ev] linked_step [of F g h P s ev] by auto
qed

section \<open>What the page can rely on\<close>

text \<open>C15: every call of the router ends at most once and none is forgotten: in every run each call made so far has either
  ended, once, or still waits; while the router lives, each waiting call has an answer on its way to the page or a
  request on its way to, or in, the worker, in the same order; after the end of the router no call waits.\<close>

theorem calls_accounted:
  assumes "wasm_run F g h s"
  shows "distinct (map fst (settled (cl s)) @ pending (cl s))
    \<and> set (map fst (settled (cl s)) @ pending (cl s)) = {1..next_id (cl s)}
    \<and> pending (cl s) = (if is_closed (cl s) then [] else map fst (answers_in (to_client s)) @ map r_id (on_way s))"
proof -
  have p: "promises_ok (cl s)" and l: "\<exists>P. linked F g h P s" using wasm_invariant [OF assms] by auto
  then show ?thesis by (auto simp: promises_ok_def linked_def)
qed

text \<open>C14: the router behaves as if each route were computed at once, one after the other: the result of a call is the
  one that the Go program gives for its arguments after the routes that were asked before, on the graph that the call
  \<open>init\<close> has loaded, however the messages, downloads and calls are interleaved.\<close>

theorem routes_in_order:
  assumes "wasm_run F g h s" "(i, Inr v) \<in> set (settled (cl s))" "i \<noteq> 1"
  shows "\<exists>b ok before r after. checked (snd (osm_init F b g)) = Inr ok \<and> tl h = before @ r # after \<and> r_id r = i
    \<and> reply F before r (fst (osm_init F b g)) = Inr v"
proof -
  obtain P where l: "linked F g h P s" using wasm_invariant [OF assms(1)] by auto
  then have iP: "(i, Inr v) \<in> set P" using assms(2) by (simp add: linked_def)
  then obtain j a ps where P: "P = (j, a) # ps" by (cases P) auto
  have len: "length P \<le> length h" and ids: "map fst P = map r_id (take (length P) h)" using l by (auto simp: linked_def)
  then obtain r0 hs where h: "h = r0 # hs" using P by (cases h) auto
  have "j = 1" using l P h ids by (auto simp: linked_def requests_ok_def)
  then obtain k where k: "k < length ps" "ps ! k = (i, Inr v)" using iP P assms(3) by (auto simp: in_set_conv_nth)
  have n: "k < length hs" using k(1) len P h by simp
  then have "tl h \<noteq> []" using h by auto
  then have "started P" using l by (simp add: linked_def)
  then obtain u where a: "a = Inr u" using P by (auto simp: started_def)
  then obtain b where b: "checked (snd (osm_init F b g)) = Inr u"
      "\<forall>k < length ps. snd (ps ! k) = reply F (take k hs) (hs ! k) (fst (osm_init F b g))"
    using l P h by (auto simp: linked_def)
  have "map fst ps = map r_id (take (length ps) hs)" using ids P h by simp
  then have "map fst ps ! k = map r_id (take (length ps) hs) ! k" by simp
  then have "fst (ps ! k) = r_id (hs ! k)" using k(1) n len P h by simp
  moreover have "hs = take k hs @ hs ! k # drop (Suc k) hs" using n by (rule id_take_nth_drop)
  ultimately show ?thesis using b k h by fastforce
qed

section \<open>After the end\<close>

lemma closed_stays:
  assumes "is_closed (cl s)" "promises_ok (cl s)"
  shows "settled (cl (wasm_step F ev s)) = settled (cl s)" "is_closed (cl (wasm_step F ev s))" "wk (wasm_step F ev s) = wk s"
proof -
  have p: "router (cl s) \<noteq> Starting" "pending (cl s) = []" using assms by (auto simp: promises_ok_def)
  have "after_init (close_client e (cl s)) = cl s" for e using p assms by (simp add: close_client_def after_init_def)
  moreover have "after_init (on_message m (cl s)) = cl s" for m
    using p assms by (cases m) (auto simp: close_client_def after_init_def settle_def)
  ultimately show "settled (cl (wasm_step F ev s)) = settled (cl s)" "is_closed (cl (wasm_step F ev s))" "wk (wasm_step F ev s) = wk s"
    using assms(1) by (cases ev; auto simp: at_client_def at_worker_def call_def split: list.split)+
qed

section \<open>A run\<close>

definition echo :: "(nat, unit) go_lib" where
  \<comment> \<open>a program that counts its routes\<close>
  "echo = \<lparr>osm_init = (\<lambda>_ n. (0, Inr (JObj [(lit ''ok'', JBool True)]))),
     osm_route = (\<lambda>_ n. (n + 1, Inr (JObj [(lit ''ok'', JBool True), (lit ''n'', jint (int n))]))),
     osm_reset = (\<lambda>n. (0, Inr (JObj [(lit ''ok'', JBool True)])))\<rparr>"

fun runs :: "('g, 'b) go_lib \<Rightarrow> 'b wasm_event list \<Rightarrow> request list \<times> 'g wasm \<Rightarrow> request list \<times> 'g wasm" where
  "runs F [] hs = hs"
| "runs F (ev # evs) hs = runs F evs (fst hs @ sent ev (snd hs), wasm_step F ev (snd hs))"

lemma runs_run: "wasm_run F g (fst hs) (snd hs) \<Longrightarrow> wasm_run F g (fst (runs F evs hs)) (snd (runs F evs hs))"
  by (induction F evs hs rule: runs.induct) (auto intro: wasm_run.stepped)

definition first_state :: "nat wasm" where
  "first_state = \<lparr>cl = \<lparr>pending = [1], next_id = 1, is_closed = False, router = Starting, settled = [], refused = 0\<rparr>,
     wk = \<lparr>w_queue = [], w_busy = None, w_runtime = NotStarted, w_go = 7\<rparr>,
     to_worker = [\<lparr>r_id = 1, r_action = ''init'', r_args = JArr [JObj []]\<rparr>], to_client = []\<rparr>"

lemma first_run: "wasm_run echo 7 (to_worker first_state) first_state"
  by (rule wasm_run.created [of "JObj []" None]) (simp add: createRouter_def call_def after_init_def first_state_def)

definition two_routes :: "unit wasm_event list" where
  "two_routes = [WorkerReads, RuntimeAnswer None, GraphAnswer None, BytesAnswer (Inr ()), ClientReads,
     RouteCall [] None, RouteCall [] None, WorkerReads, WorkerReads, ClientReads, ClientReads]"

lemmas wasm_eval = two_routes_def first_state_def echo_def at_client_def at_worker_def on_request_def begin_request_def
  runtime_answer_def graph_answer_def bytes_answer_def go_call_def checked_def end_request_def settle_def after_init_def call_def

lemma two_routes_end:
  "settled (cl (snd (runs echo two_routes (to_worker first_state, first_state))))
    = [(1, Inr (JObj [(lit ''ok'', JBool True)])), (2, Inr (JObj [(lit ''ok'', JBool True), (lit ''n'', jint 0)])),
       (3, Inr (JObj [(lit ''ok'', JBool True), (lit ''n'', jint 1)]))]"
  by (simp add: wasm_eval lit_def)

lemma calls_accounted_witness:
  "distinct (map fst (settled (cl first_state)) @ pending (cl first_state)) \<and> pending (cl first_state) = [1]"
  using calls_accounted [OF first_run] by (simp add: first_state_def)

lemma routes_in_order_witness:
  "\<exists>b before r after. tl (fst (runs echo two_routes (to_worker first_state, first_state))) = before @ r # after \<and> r_id r = 3
    \<and> reply echo before r (fst (osm_init echo b 7)) = Inr (JObj [(lit ''ok'', JBool True), (lit ''n'', jint 1)])"
proof -
  have r: "wasm_run echo 7 (fst (runs echo two_routes (to_worker first_state, first_state)))
      (snd (runs echo two_routes (to_worker first_state, first_state)))"
    by (rule runs_run) (simp add: first_run)
  show ?thesis
    using routes_in_order [OF r, of 3 "JObj [(lit ''ok'', JBool True), (lit ''n'', jint 1)]"] by (auto simp: two_routes_end)
qed

end
