(* ===== verification/Spec2Isabelle.thy ===== *)
theory Spec2Isabelle
  imports EditorMachine OsmPresets Workbench PlanningMachine AiOutput OfflineStyle MapPost OsmHover MapRenderer
    OfflineBuildings MapContext Operations Territory Overlays Markup
    RouteFields Routing Pins Suggest GisTools TinyTiles RouteExport TileLayer PlaceSearch AssistantRuns DataLayers WasmRouter
begin

text \<open>
  A verification development of the browser part of osmmini (\<open>src/cmd/web\<close>): the editing workspace for
  OpenStreetMap objects, the workbench for geodata files, the planning sketches, the image export, and
  the pieces around the map.

  The program. A page shows a map; its tools are modules that keep their own state and talk to the
  page through callbacks. In the editor a user opens nodes, ways and relations of OpenStreetMap or
  draws new ones and saves each change as a draft; the drafts are kept in the browser, checked, and
  exported as an \<open>.osc\<close> file. The workbench loads GeoJSON files, filters, edits, joins, simplifies and
  exports them. A plan is a list of sketched lines, buildings and areas with their measurements.

  General theories:
  \<^item> \<open>Prelude\<close>: results (an error or a value), JavaScript strings as lists of 16-bit words, JavaScript
    values and objects with their property order, and two interfaces: \<open>keyed_list\<close>, a list updated in
    place by key, and \<open>bounded_log\<close>, a log that drops its oldest entries.
  \<^item> \<open>Json\<close>: copying, own properties, the values JSON can carry, conversion to strings.
  \<^item> \<open>Requests\<close>: the interface \<open>latest_wins\<close> of every part that uses an answer only when nothing has
    overtaken its request; interpreted in \<open>OsmHover\<close>, \<open>MapPost\<close>, \<open>OfflineBuildings\<close>, \<open>Routing\<close>,
    \<open>Suggest\<close>, \<open>GisTools\<close>, \<open>TileLayer\<close>, \<open>PlaceSearch\<close>, \<open>AssistantRuns\<close> and, for the overlays of the map, in \<open>Overlays\<close>.

  The editor (\<open>osm-editor.js\<close>, \<open>osm-presets.js\<close>), in the order of the code:
  \<^item> \<open>OsmElement\<close>: \<open>tags\<close>, \<open>member\<close>, \<open>element\<close>, \<open>validateDraft\<close>, \<open>changes\<close>, \<open>memberChanges\<close>,
    \<open>geometryChange\<close>, \<open>nextTempId\<close>. Every error of the code is a value of \<open>err\<close>. What the
    functions accept is characterised exactly, and encoding and reading are inverse.
  \<^item> \<open>OsmReferences\<close>: \<open>collectIssues\<close>; an empty report is equivalent to referential integrity.
  \<^item> \<open>OsmExport\<close>: \<open>osc\<close> with the text it writes, \<open>restore\<close>, \<open>checkVersions\<close>.
  \<^item> \<open>OsmGeometry\<close>: hit testing, way shapes, \<open>editWayNodes\<close>, \<open>validateWayCoordinates\<close>,
    \<open>mapDataFeatures\<close>.
  \<^item> \<open>OsmPresets\<close>: the preset and field tables, \<open>presetKeyForTags\<close>, labels, \<open>checkValue\<close>.
  \<^item> \<open>EditorState\<close>: the variables of \<open>create\<close> as the record \<open>editor\<close>, tabs and modes, \<open>persist\<close> with
    the undo log (an instance of \<open>bounded_log\<close>), form and member edits, \<open>analyze\<close>, \<open>syncUI\<close>.
  \<^item> \<open>EditorDrafts\<close>: the handlers that change the drafts (\<open>save\<close>, \<open>removeDraft\<close>, \<open>deleteObject\<close>,
    \<open>performSplit\<close>, \<open>mergeWith\<close>, undo, redo, import) and confidential saving; the drafts are an
    instance of \<open>keyed_list\<close>.
  \<^item> \<open>EditorDraw\<close>: vertex editing, drawing, placing, opening and picking objects.
  \<^item> \<open>EditorMachine\<close>: all handlers as events of one step function, the invariant of the editor and
    its preservation, the reachable states, and the properties of whole runs.

  The workbench (\<open>geo-workbench.js\<close>):
  \<^item> \<open>GeoJson\<close>: \<open>validate\<close>, \<open>parse\<close>, \<open>fields\<close>, \<open>subset\<close>, \<open>selectFields\<close>, \<open>edit\<close>, \<open>bounds\<close> and the
    invariant \<open>collection_ok\<close> of everything the workbench holds.
  \<^item> \<open>Csv\<close>: \<open>parseCSV\<close> as the automaton the code writes, \<open>join\<close>, \<open>toCSV\<close>; a written table reads back.
  \<^item> \<open>LonWrap\<close>, \<open>Simplify\<close>: longitudes across the antimeridian, and \<open>simplify\<close> with its explicit stack
    and its budget of operations, equal to the recursive method and within the tolerance.
  \<^item> \<open>Workbench\<close>: the panel's state and handlers; it refines a stack of versions with undo, of which
    only the last five are kept.

  Planning (\<open>planning.js\<close>): \<open>Planning\<close> has distances, crossings, measurements and balance, and
  \<open>PlanningMachine\<close> the sketch, its events and the storage in the browser.

  Around the map: \<open>OsmHover\<close> (\<open>osm-hover.js\<close>), \<open>MapPost\<close> (\<open>map-post.js\<close>), \<open>AiOutput\<close> (\<open>ai-ui.js\<close>),
  \<open>OfflineStyle\<close> (\<open>offline-style.js\<close>), \<open>MapRenderer\<close> (\<open>map-renderer.js\<close>), \<open>OfflineBuildings\<close>
  (\<open>offline-buildings.js\<close>), \<open>MapContext\<close> (\<open>map-context.js\<close>). Each holds its state as a record, its
  handlers as one step function, an invariant of all runs, and the properties that follow.

  The page (\<open>app.js\<close>):
  \<^item> \<open>Operations\<close>: the log of deliveries and maintenance: the forms, the queue of records for the server
    and its flush, the log kept in the browser, the log's texts and its CSV file. No record is lost.
  \<^item> \<open>Territory\<close>: the passages of a route through drawn zones, and the colours of the zones.
  \<^item> \<open>DataLayers\<close>: the layers of territories and of imported data on the map, with their boxes and requests, and the
    checks of the import forms; used one step at a time they show what the form says (and not when a step comes
    before the answer to the last).
  \<^item> \<open>Overlays\<close>: the four overlays that follow the map, and the placing of labels.
  \<^item> \<open>Markup\<close>: \<open>escapeHtml\<close>, \<open>highlight\<close>, \<open>xmlEscape\<close>, and what a reader makes of their text.
  \<^item> \<open>RouteFields\<close>: points, search results, and the fields of a route with the points chosen for them; a
    field refines a text with the choice made last.
  \<^item> \<open>Routing\<close>: the route planner: \<open>compute\<close> with its two waits, its errors and what it shows, the buttons,
    the stops; one computation at a time (\<open>latest_wins\<close>), which always ends.
  \<^item> \<open>Suggest\<close>: the suggestions below a field (\<open>makeSuggest\<close>), with the keyboard.
  \<^item> \<open>Pins\<close>: the user's markers and their storage.
  \<^item> \<open>RouteExport\<close>: the rows of the directions, and the route as GPX and as GeoJSON; no label can change
    the structure of the GPX file.
  \<^item> \<open>GisTools\<close>: the measuring tools: cross-section, coordinates, the export of what is shown; an answer
    is shown only for the line that is still drawn.
  \<^item> \<open>TileSources\<close>: the settings and presets of a map source, the form that edits them, the key of the tile
    cache (32-bit words), and what a source makes the map load.
  \<^item> \<open>TileLayer\<close>: \<open>applyTileLayer\<close> as a machine of loadings that can overlap, and the cards that start them: no
    source is left in the map, an overtaken one never comes up, picking a card is all or nothing when nothing
    else is under way (and is not when two are picked at once).
  \<^item> \<open>PlaceSearch\<close>: the search of places: its field, its categories, the list and what is on the map; they
    agree in every run, and an overtaken answer changes nothing.
  \<^item> \<open>Patterns\<close>, \<open>Assistant\<close>, \<open>AssistantRuns\<close>: the assistant (\<open>sendAIQuery\<close>): the regular expressions of its
    shortcuts with the backtracking of JavaScript, the questions, what is sent with them, and what an answer does to the
    page. Its state holds those of \<open>Routing\<close> and \<open>PlaceSearch\<close>, whose events go on while a question waits; a question
    always ends, a stopped one has no effect, a cleared chat is forgotten, and no answer brings markup into the page.
  \<^item> \<open>TinyTiles\<close>: the build of the off-line map: the choice of area and zooms, the build on the server
    followed by polling, and the map that is laid over the page when it is ready.

  The router in the browser (\<open>src/cmd/wasm\<close>): \<open>WasmRouter\<close> has the client, the worker that serves one
  request after the other, and the channels between them; it behaves like a server that answers each call at
  once, and no call is lost.

  Conventions. A handler is a function from state to state; what it asks of the user, the browser
  or a server is an argument of it (an HTTP reply is a value or an error). An asynchronous handler is
  several events: the request, and each answer, which may come at any later time. Numbers of
  JavaScript are reals with the non-finite values apart (\<open>jsnum\<close>), IDs are integers in the safe range:
  rounding is not modelled. \<open>num\<close>, the text of a number, and \<open>parse\<close>, the JSON parser, are
  parameters. All loops are recursions that end, so no fuel is used: the budget of \<open>simplify\<close> is the one of the code.

  Not modelled: the DOM, styling and status texts (only which message is given), the map library
  (its projection is a parameter), the suggestions of \<open>search\<close> and \<open>checkDuplicates\<close>, loading of
  modules, the other panels of \<open>app.js\<close> (the other settings,
  theme, scanner, pop-ups), and the server, which is written in Go.
\<close>

end
